(* ===== verification/Prelude.thy ===== *)
theory Prelude
  imports Complex_Main "HOL-Library.Word"
begin

text \<open>
  Shared vocabulary of the development: how a Go call fails, Go's truncated integer division,
  the float64 values the statistics use, batches of rows, and the generic lemmas on lists the
  component theories rely on.

  A Go function that returns \<open>(T, error)\<close> is a function into \<open>sql_error + T\<close>; one that
  executes a statement and returns only \<open>error\<close> returns \<open>sql_error option\<close> beside the new
  database; a handler that can panic returns \<open>fault + state\<close>. Go's \<open>int\<close> and \<open>int64\<close> are
  \<open>int\<close>: they count rounds, transactions and bytes, far below \<open>2 ^ 63\<close>. \<open>uint32\<close>
  sizes and the 64-bit output of the VRF are words of their width.
\<close>

named_theorems go_defs "definitions of the small Go helpers"

section \<open>Failures\<close>

datatype sql_error =
    SyntaxError            \<comment> \<open>the statement text is not SQL\<close>
  | NoSuchColumn
  | TableExists
  | UniqueViolation
  | NullScan               \<comment> \<open>Scan of a NULL into a Go value that cannot hold it\<close>
  | NoRows                 \<comment> \<open>sql.ErrNoRows\<close>

datatype fault =
    PanicSql sql_error     \<comment> \<open>panic(err)\<close>
  | FatalSql sql_error     \<comment> \<open>log.Fatal(err): the process exits\<close>
  | PanicMsg string        \<comment> \<open>panic with a message\<close>
  | IndexPanic             \<comment> \<open>index or slice bounds out of range\<close>
  | DivPanic               \<comment> \<open>integer division by zero\<close>
  | NilPanic               \<comment> \<open>nil pointer dereference\<close>
  | Loops                  \<comment> \<open>the call does not return\<close>
  | ErrRet string          \<comment> \<open>a returned, not panicking, error\<close>

type_synonym u32 = "32 word"
type_synonym u64 = "64 word"

definition bindR :: "'e + 'a \<Rightarrow> ('a \<Rightarrow> 'e + 'b) \<Rightarrow> 'e + 'b" where
  "bindR m f = (case m of Inl e \<Rightarrow> Inl e | Inr a \<Rightarrow> f a)"

lemma bindR_simps [simp]: "bindR (Inl e) f = Inl e" "bindR (Inr a) f = f a"
  by (simp_all add: bindR_def)

lemma bindR_Inr_iff: "bindR m f = Inr b \<longleftrightarrow> (\<exists>a. m = Inr a \<and> f a = Inr b)"
  by (cases m) auto

text \<open>\<open>if err != nil { panic(err) }\<close> after a statement, and \<open>log.Fatal\<close> after a query.\<close>

fun orPanic :: "sql_error option \<times> 'd \<Rightarrow> fault + 'd" where
  "orPanic (None, d) = Inr d"
| "orPanic (Some e, d) = Inl (PanicSql e)"

fun orPanicQ :: "sql_error + 'a \<Rightarrow> fault + 'a" where
  "orPanicQ (Inr a) = Inr a"
| "orPanicQ (Inl e) = Inl (PanicSql e)"

fun orFatal :: "sql_error + 'a \<Rightarrow> fault + 'a" where
  "orFatal (Inr a) = Inr a"
| "orFatal (Inl e) = Inl (FatalSql e)"

lemma orPanic_Inr_iff: "orPanic x = Inr d \<longleftrightarrow> x = (None, d)"
  by (cases x rule: orPanic.cases) auto

section \<open>Go integer division\<close>

definition go_quot :: "int \<Rightarrow> int \<Rightarrow> int" where
  "go_quot a b = sgn a * sgn b * (\<bar>a\<bar> div \<bar>b\<bar>)"

definition go_rem :: "int \<Rightarrow> int \<Rightarrow> int" where
  "go_rem a b = a - b * go_quot a b"

lemma go_quot_nonneg: "0 \<le> a \<Longrightarrow> 0 < b \<Longrightarrow> go_quot a b = a div b"
  by (cases "a = 0") (auto simp: go_quot_def)

lemma go_rem_nonneg: "0 \<le> a \<Longrightarrow> 0 < b \<Longrightarrow> go_rem a b = a mod b"
  by (simp add: go_rem_def go_quot_nonneg minus_mult_div_eq_mod)

lemma go_rem_abs: "b \<noteq> 0 \<Longrightarrow> \<bar>go_rem a b\<bar> = \<bar>a\<bar> mod \<bar>b\<bar>"
proof -
  assume "b \<noteq> 0"
  have "go_rem a b = sgn a * (\<bar>a\<bar> mod \<bar>b\<bar>)"
  proof -
    have a: "a = sgn a * \<bar>a\<bar>" and b: "b * sgn b = \<bar>b\<bar>"
      by (simp_all add: mult_sgn_abs abs_sgn mult.commute)
    have "go_rem a b = sgn a * \<bar>a\<bar> - sgn a * ((b * sgn b) * (\<bar>a\<bar> div \<bar>b\<bar>))"
      using a by (simp add: go_rem_def go_quot_def mult.assoc mult.left_commute)
    also have "\<dots> = sgn a * (\<bar>a\<bar> - \<bar>b\<bar> * (\<bar>a\<bar> div \<bar>b\<bar>))"
      by (simp add: b right_diff_distrib)
    also have "\<dots> = sgn a * (\<bar>a\<bar> mod \<bar>b\<bar>)"
      by (simp add: minus_mult_div_eq_mod)
    finally show ?thesis .
  qed
  then show ?thesis
    by (cases "a = 0") (simp_all add: abs_mult \<open>b \<noteq> 0\<close>)
qed

section \<open>float64\<close>

text \<open>
  A float64 is an exact rational, an infinity or NaN. The operations are IEEE 754's except for
  rounding: the statistics are quotients of counts, and no branch of the code depends on a
  rounded digit.
\<close>

datatype f64 = Fin rat | PInf | NInf | NaN

definition f_of_int :: "int \<Rightarrow> f64" where
  "f_of_int i = Fin (of_int i)"

fun f_div :: "f64 \<Rightarrow> f64 \<Rightarrow> f64" where
  "f_div (Fin a) (Fin b) =
     (if b \<noteq> 0 then Fin (a / b) else if 0 < a then PInf else if a < 0 then NInf else NaN)"
| "f_div (Fin a) PInf = Fin 0"
| "f_div (Fin a) NInf = Fin 0"
| "f_div PInf (Fin b) = (if 0 \<le> b then PInf else NInf)"
| "f_div NInf (Fin b) = (if 0 \<le> b then NInf else PInf)"
| "f_div _ _ = NaN"

fun f_add :: "f64 \<Rightarrow> f64 \<Rightarrow> f64" where
  "f_add (Fin a) (Fin b) = Fin (a + b)"
| "f_add NaN _ = NaN"
| "f_add _ NaN = NaN"
| "f_add PInf NInf = NaN"
| "f_add NInf PInf = NaN"
| "f_add PInf _ = PInf"
| "f_add NInf _ = NInf"
| "f_add _ PInf = PInf"
| "f_add _ NInf = NInf"

instantiation f64 :: comm_monoid_add
begin

definition zero_f64 :: f64 where "zero_f64 = Fin 0"

definition plus_f64 :: "f64 \<Rightarrow> f64 \<Rightarrow> f64" where "plus_f64 = f_add"

instance
proof
  fix a b c :: f64
  show "a + b + c = a + (b + c)"
    by (cases a; cases b; cases c) (simp_all add: plus_f64_def)
  show "a + b = b + a"
    by (cases a; cases b) (simp_all add: plus_f64_def)
  show "0 + a = a"
    by (cases a) (simp_all add: plus_f64_def zero_f64_def)
qed

end

lemma sum_list_Fin: "sum_list (map Fin xs) = Fin (sum_list xs)"
  by (induction xs) (simp_all add: zero_f64_def plus_f64_def)

lemma sum_list_f_of_int: "sum_list (map f_of_int xs) = f_of_int (sum_list xs)"
  by (induction xs) (simp_all add: zero_f64_def plus_f64_def f_of_int_def)

text \<open>
  The order of float64 values, with NaN (which no column holds) below all others.
\<close>

fun f_rank :: "f64 \<Rightarrow> nat" where
  "f_rank NaN = 0"
| "f_rank NInf = 1"
| "f_rank (Fin q) = 2"
| "f_rank PInf = 3"

fun f_val :: "f64 \<Rightarrow> rat" where
  "f_val (Fin q) = q"
| "f_val _ = 0"

instantiation f64 :: linorder
begin

definition less_eq_f64 :: "f64 \<Rightarrow> f64 \<Rightarrow> bool" where
  "less_eq_f64 a b \<longleftrightarrow> f_rank a < f_rank b \<or> f_rank a = f_rank b \<and> f_val a \<le> f_val b"

definition less_f64 :: "f64 \<Rightarrow> f64 \<Rightarrow> bool" where
  "less_f64 a b \<longleftrightarrow> f_rank a < f_rank b \<or> f_rank a = f_rank b \<and> f_val a < f_val b"

instance
proof
  fix a b c :: f64
  show "(a < b) = (a \<le> b \<and> \<not> b \<le> a)" by (auto simp: less_eq_f64_def less_f64_def)
  show "a \<le> a" by (simp add: less_eq_f64_def)
  show "a \<le> b \<Longrightarrow> b \<le> c \<Longrightarrow> a \<le> c" by (auto simp: less_eq_f64_def)
  show "a \<le> b \<Longrightarrow> b \<le> a \<Longrightarrow> a = b"
    by (cases a; cases b) (auto simp: less_eq_f64_def)
  show "a \<le> b \<or> b \<le> a" by (auto simp: less_eq_f64_def)
qed

end

lemma Fin_le_iff [simp]: "Fin a \<le> Fin b \<longleftrightarrow> a \<le> b"
  by (simp add: less_eq_f64_def)

lemma f_of_int_le_iff [simp]: "f_of_int a \<le> f_of_int b \<longleftrightarrow> a \<le> b"
  by (simp add: f_of_int_def)

text \<open>SQLite stores a NaN as NULL.\<close>

fun sql_of_f64 :: "f64 \<Rightarrow> f64 option" where
  "sql_of_f64 NaN = None"
| "sql_of_f64 x = Some x"

section \<open>Lists\<close>

lemma sorted_wrt_drop_filter:
  assumes "sorted_wrt (<) (map fst xs)" and "n < length xs" and "k = fst (xs ! n)"
  shows "filter (\<lambda>p. (k::nat) < fst p) xs = drop (Suc n) xs"
  using assms
proof (induction n arbitrary: xs)
  case 0
  then obtain x ys where xs: "xs = x # ys" by (cases xs) auto
  with 0 have "\<forall>p \<in> set ys. k < fst p" by auto
  then have "filter (\<lambda>p. k < fst p) ys = ys" by (simp add: filter_id_conv)
  with xs 0 show ?case by simp
next
  case (Suc n)
  then obtain x ys where xs: "xs = x # ys" by (cases xs) auto
  with Suc.prems have "fst x < k" by auto
  with Suc.prems xs have n: "n < length ys" and srt: "sorted_wrt (<) (map fst ys)"
    and gt: "\<forall>p \<in> set ys. fst x < fst p" by auto
  from n gt have "\<not> fst (ys ! n) < fst x" using nth_mem order_less_asym by blast
  moreover have "k = fst (ys ! n)" using xs Suc.prems by simp
  ultimately show ?case using Suc.IH [OF srt n] xs by simp
qed

lemma sum_list_map_add:
  "sum_list (map (\<lambda>x. f x + g x) xs) = sum_list (map f xs) + sum_list (map g (xs :: 'b list) :: int list)"
  by (rule sum_list_addf)

section \<open>Decimal numbers\<close>

text \<open>Decimal digits, as \<open>strconv.Itoa\<close> and \<open>%v\<close> write an int.\<close>

fun digits :: "nat \<Rightarrow> string" where
  "digits n = (if n < 10 then [char_of (48 + n)] else digits (n div 10) @ [char_of (48 + n mod 10)])"

declare digits.simps [simp del]

definition itoa :: "int \<Rightarrow> string" where
  "itoa i = (if i < 0 then CHR ''-'' # digits (nat (- i)) else digits (nat i))"

end
