(* ===== verification/SqlTable.thy ===== *)
theory SqlTable
  imports Prelude
begin

text \<open>
  The tables of the two SQLite databases, as the statements of \<open>blockchain/dbbc.go\<close> use
  them. A rowid table is its rows with their rowids, in the order of a table scan (ascending
  rowid). A row is inserted with rowid one above the largest in use. The locale
  \<open>fifo_table\<close> is the contract between the queue functions of \<open>dbbc.go\<close> and the block
  builders that consume the queues.
\<close>

type_synonym 'r table = "(nat \<times> 'r) list"

definition next_rowid :: "'r table \<Rightarrow> nat" where
  "next_rowid t = Suc (foldr max (map fst t) 0)"

definition tbl_insert :: "'r \<Rightarrow> 'r table \<Rightarrow> 'r table" where
  "tbl_insert r t = t @ [(next_rowid t, r)]"

fun tbl_insert_all :: "'r list \<Rightarrow> 'r table \<Rightarrow> 'r table" where
  "tbl_insert_all [] t = t"
| "tbl_insert_all (r # rs) t = tbl_insert_all rs (tbl_insert r t)"

text \<open>\<open>DELETE ... WHERE rowid <= k\<close>, \<open>DELETE ... WHERE rowid in (SELECT MIN(rowid) ...)\<close>,
  \<open>DELETE ... WHERE rowid = (SELECT MAX(rowid) ...)\<close>.\<close>

definition tbl_del_upto :: "nat \<Rightarrow> 'r table \<Rightarrow> 'r table" where
  "tbl_del_upto k t = filter (\<lambda>p. k < fst p) t"

definition tbl_del_min :: "'r table \<Rightarrow> 'r table" where
  "tbl_del_min t = drop 1 t"

definition tbl_del_max :: "'r table \<Rightarrow> 'r table" where
  "tbl_del_max t = butlast t"

text \<open>\<open>UPDATE ... SET ... WHERE P\<close>, with P over the rowid and the row.\<close>

definition tbl_update :: "(nat \<Rightarrow> 'r \<Rightarrow> bool) \<Rightarrow> ('r \<Rightarrow> 'r) \<Rightarrow> 'r table \<Rightarrow> 'r table" where
  "tbl_update P f t = map (\<lambda>(i, r). if P i r then (i, f r) else (i, r)) t"

definition wf_table :: "'r table \<Rightarrow> bool" where
  "wf_table t \<longleftrightarrow> sorted_wrt (<) (0 # map fst t)"

section \<open>Laws\<close>

lemma le_foldr_max: "x \<in> set xs \<Longrightarrow> (x::nat) \<le> foldr max xs 0"
  by (induction xs) auto

lemma next_rowid_gt: "(i, r) \<in> set t \<Longrightarrow> i < next_rowid t"
  using le_foldr_max [of i "map fst t"] by (force simp: next_rowid_def)

lemma wf_table_Nil [simp]: "wf_table []"
  by (simp add: wf_table_def)

lemma wf_table_insert [intro]: "wf_table t \<Longrightarrow> wf_table (tbl_insert r t)"
proof -
  assume wf: "wf_table t"
  have "\<forall>p \<in> set t. fst p < next_rowid t" using next_rowid_gt by force
  moreover have "0 < next_rowid t" by (simp add: next_rowid_def)
  ultimately show ?thesis
    using wf by (auto simp: wf_table_def tbl_insert_def sorted_wrt_append)
qed

lemma wf_table_insert_all [intro]: "wf_table t \<Longrightarrow> wf_table (tbl_insert_all rs t)"
  by (induction rs arbitrary: t) auto

lemma wf_table_filter: "wf_table t \<Longrightarrow> wf_table (filter P t)"
  unfolding wf_table_def by (induction t) auto

lemma wf_table_del_upto [intro]: "wf_table t \<Longrightarrow> wf_table (tbl_del_upto k t)"
  by (simp add: tbl_del_upto_def wf_table_filter)

lemma wf_table_drop [intro]: "wf_table t \<Longrightarrow> wf_table (drop n t)"
proof -
  assume wf: "wf_table t"
  then have "sorted_wrt (<) (drop n (map fst t))" and "\<forall>x \<in> set (drop n t). 0 < fst x"
    by (auto simp: wf_table_def intro: sorted_wrt_drop dest: in_set_dropD)
  then show ?thesis by (simp add: wf_table_def drop_map)
qed

lemma map_fst_update [simp]: "map fst (tbl_update P f t) = map fst t"
  by (simp add: tbl_update_def comp_def case_prod_unfold if_distrib cong: if_cong)

lemma length_update [simp]: "length (tbl_update P f t) = length t"
  by (simp add: tbl_update_def)

lemma wf_table_update [intro]: "wf_table t \<Longrightarrow> wf_table (tbl_update P f t)"
  by (simp add: wf_table_def)

lemma tbl_update_comp:
  "(\<And>i r. P i (g r) = P i r) \<Longrightarrow> tbl_update P f (tbl_update P g t) = tbl_update P (\<lambda>r. f (g r)) t"
  by (auto simp: tbl_update_def)

lemma tbl_update_id: "tbl_update P (\<lambda>r. r) t = t"
  by (induction t) (auto simp: tbl_update_def)

lemma tbl_update_again:
  "(\<And>i r. P i (f r) = P i r) \<Longrightarrow> (\<And>r. f (f r) = f r) \<Longrightarrow>
   tbl_update P f (tbl_update Q f t) = tbl_update (\<lambda>i r. Q i r \<or> P i r) f t"
  by (auto simp: tbl_update_def)

lemma tbl_update_iff:
  "(i, row) \<in> set (tbl_update P f t) \<longleftrightarrow> (\<exists>old. (i, old) \<in> set t \<and> row = (if P i old then f old else old))"
  by (auto simp: tbl_update_def image_iff split: if_splits) force+

lemma tbl_insert_rows [simp]: "map snd (tbl_insert r t) = map snd t @ [r]"
  by (simp add: tbl_insert_def)

lemma tbl_insert_all_append:
  "\<exists>ids. tbl_insert_all rs t = t @ zip ids rs \<and> length ids = length rs"
proof (induction rs arbitrary: t)
  case Nil
  then show ?case by simp
next
  case (Cons r rs)
  from Cons.IH [of "tbl_insert r t"] obtain ids
    where "tbl_insert_all rs (tbl_insert r t) = tbl_insert r t @ zip ids rs"
      and "length ids = length rs" by blast
  then have "tbl_insert_all (r # rs) t = t @ zip (next_rowid t # ids) (r # rs)
      \<and> length (next_rowid t # ids) = length (r # rs)"
    by (simp add: tbl_insert_def)
  then show ?case by blast
qed

lemma tbl_insert_all_rows [simp]: "map snd (tbl_insert_all rs t) = map snd t @ rs"
  by (induction rs arbitrary: t) auto

lemma tbl_insert_all_comp:
  "tbl_insert_all rs' (tbl_insert_all rs t) = tbl_insert_all (rs @ rs') t"
  by (induction rs arbitrary: t) auto

section \<open>Batches\<close>

text \<open>
  The loop \<open>for i := 0; i < len(rows); i += 2000\<close> that hands slices of 2000 rows to a bulk
  insertion and panics on its error.
\<close>

function batched :: "('r list \<Rightarrow> 'd \<Rightarrow> sql_error option \<times> 'd) \<Rightarrow> 'r list \<Rightarrow> 'd \<Rightarrow> fault + 'd" where
  "batched ins rows d =
     (if rows = [] then Inr d
      else bindR (orPanic (ins (take 2000 rows) d)) (\<lambda>d'. batched ins (drop 2000 rows) d'))"
  by pat_completeness auto
termination
  by (relation "measure (\<lambda>(ins, rows, d). length rows)") auto

declare batched.simps [simp del]

text \<open>The same loop in the one place where the result of the insertion is dropped.\<close>

function batched_ignoring :: "('r list \<Rightarrow> 'd \<Rightarrow> sql_error option \<times> 'd) \<Rightarrow> 'r list \<Rightarrow> 'd \<Rightarrow> 'd" where
  "batched_ignoring ins rows d =
     (if rows = [] then d
      else batched_ignoring ins (drop 2000 rows) (snd (ins (take 2000 rows) d)))"
  by pat_completeness auto
termination
  by (relation "measure (\<lambda>(ins, rows, d). length rows)") auto

declare batched_ignoring.simps [simp del]

lemma batched_ignoring_eq: "batched ins rows d = Inr d' \<Longrightarrow> batched_ignoring ins rows d = d'"
proof (induction ins rows d rule: batched_ignoring.induct)
  case (1 ins rows d)
  show ?case
  proof (cases "rows = []")
    case True
    with "1.prems" show ?thesis by (simp add: batched.simps batched_ignoring.simps)
  next
    case False
    with "1.prems" obtain a where "ins (take 2000 rows) d = (None, a)"
        and "batched ins (drop 2000 rows) a = Inr d'"
      by (auto simp: batched.simps [of ins rows d] bindR_Inr_iff orPanic_Inr_iff)
    with "1.IH" [OF False] False show ?thesis
      by (simp add: batched_ignoring.simps [of ins rows d])
  qed
qed

section \<open>The queue contract\<close>

text \<open>
  \<open>rows\<close> is the scan of a queue table, \<open>bulk\<close> a bulk insertion, \<open>del\<close> the deletion up
  to a rowid. A consumer reads the rows, takes a prefix and deletes up to the rowid of the
  last row it took (0 when it took none).
\<close>

definition last_id :: "nat \<Rightarrow> 'r table \<Rightarrow> nat" where
  "last_id n t = (if n = 0 then 0 else fst (t ! (n - 1)))"

lemma last_id_0: "last_id 0 t = 0"
  by (simp add: last_id_def)

lemma last_id_take: "n \<le> length (take m t) \<Longrightarrow> last_id n (take m t) = last_id n t"
  by (auto simp: last_id_def)

lemma del_upto_last_id:
  assumes "wf_table t" and "n \<le> length t"
  shows "tbl_del_upto (last_id n t) t = drop n t"
proof (cases n)
  case 0
  with assms have "\<forall>p \<in> set t. 0 < fst p" by (auto simp: wf_table_def)
  then have "filter (\<lambda>p. 0 < fst p) t = t" by (simp add: filter_id_conv)
  with 0 show ?thesis by (simp add: tbl_del_upto_def last_id_def)
next
  case (Suc m)
  with assms have "sorted_wrt (<) (map fst t)" and "m < length t"
    by (auto simp: wf_table_def)
  with Suc show ?thesis
    using sorted_wrt_drop_filter [of t m] by (simp add: tbl_del_upto_def last_id_def)
qed

locale fifo_table =
  fixes rows :: "'d \<Rightarrow> 'r table"
    and bulk :: "'r list \<Rightarrow> 'd \<Rightarrow> sql_error option \<times> 'd"
    and del :: "nat \<Rightarrow> 'd \<Rightarrow> sql_error option \<times> 'd"
  assumes bulk_rows: "rs \<noteq> [] \<Longrightarrow> fst (bulk rs d) = None \<and> rows (snd (bulk rs d)) = tbl_insert_all rs (rows d)"
    and del_rows: "fst (del k d) = None \<and> rows (snd (del k d)) = tbl_del_upto k (rows d)"
begin

lemma bulk_wf: "rs \<noteq> [] \<Longrightarrow> wf_table (rows d) \<Longrightarrow> wf_table (rows (snd (bulk rs d)))"
  using bulk_rows by auto

text \<open>Batches of 2000 insert what one insertion of all the rows would.\<close>

lemma batched_rows:
  "\<exists>d'. batched bulk rs d = Inr d' \<and> rows d' = tbl_insert_all rs (rows d)"
proof (induction "length rs" arbitrary: rs d rule: less_induct)
  case less
  show ?case
  proof (cases "rs = []")
    case True
    then show ?thesis by (simp add: batched.simps)
  next
    case False
    let ?d = "snd (bulk (take 2000 rs) d)"
    from False have b: "bulk (take 2000 rs) d = (None, ?d)"
      and r: "rows ?d = tbl_insert_all (take 2000 rs) (rows d)"
      using bulk_rows [of "take 2000 rs" d] by (auto simp: prod_eq_iff)
    from False have "length (drop 2000 rs) < length rs" by simp
    then obtain d' where d': "batched bulk (drop 2000 rs) ?d = Inr d'"
        "rows d' = tbl_insert_all (drop 2000 rs) (rows ?d)"
      using less.hyps by blast
    from b have "orPanic (bulk (take 2000 rs) d) = Inr ?d" by (metis orPanic.simps(1))
    with False d'(1) have "batched bulk rs d = Inr d'" by (subst batched.simps) simp
    with d'(2) r show ?thesis by (simp add: tbl_insert_all_comp)
  qed
qed

text \<open>Deleting up to the last row taken leaves exactly the rows not taken, in order.\<close>

lemma del_taken:
  "wf_table (rows d) \<Longrightarrow> n \<le> length (rows d) \<Longrightarrow>
   fst (del (last_id n (rows d)) d) = None \<and>
   rows (snd (del (last_id n (rows d)) d)) = drop n (rows d)"
  using del_rows [of "last_id n (rows d)" d] by (simp add: del_upto_last_id)

lemma del_wf: "wf_table (rows d) \<Longrightarrow> wf_table (rows (snd (del k d)))"
  using del_rows [of k d] by auto

text \<open>First in, first out: rows inserted after the read stay behind the rows not taken.\<close>

lemma fifo_order:
  assumes "wf_table (rows d)" and "n \<le> length (rows d)" and "rs \<noteq> []"
  shows "map snd (rows (snd (del (last_id n (rows d)) (snd (bulk rs d))))) =
         drop n (map snd (rows d)) @ rs"
proof -
  let ?t = "tbl_insert_all rs (rows d)"
  have t: "rows (snd (bulk rs d)) = ?t" using bulk_rows assms(3) by blast
  obtain ids where app: "?t = rows d @ zip ids rs" and len: "length ids = length rs"
    using tbl_insert_all_append by blast
  have "last_id n (rows d) = last_id n ?t"
    using assms(2) by (auto simp: last_id_def app nth_append)
  moreover have "wf_table ?t" using assms(1) by auto
  ultimately have "tbl_del_upto (last_id n (rows d)) ?t = drop n ?t"
    using assms(2) del_upto_last_id [of ?t n] by (simp add: app)
  then show ?thesis
    using del_rows [of "last_id n (rows d)" "snd (bulk rs d)"] assms(2) len
    by (simp add: t app drop_map)
qed

end

text \<open>
  The same contract where the operations also leave the rest of the database as it was: \<open>put\<close>
  replaces the queue table and nothing else.
\<close>

locale framed_fifo_table = fifo_table rows bulk del
  for rows :: "'d \<Rightarrow> 'r table"
    and bulk :: "'r list \<Rightarrow> 'd \<Rightarrow> sql_error option \<times> 'd"
    and del :: "nat \<Rightarrow> 'd \<Rightarrow> sql_error option \<times> 'd" +
  fixes put :: "'r table \<Rightarrow> 'd \<Rightarrow> 'd"
  assumes bulk_put: "rs \<noteq> [] \<Longrightarrow> snd (bulk rs d) = put (tbl_insert_all rs (rows d)) d"
    and del_put: "snd (del k d) = put (tbl_del_upto k (rows d)) d"
    and put_put: "put t (put u d) = put t d"
    and put_same: "put (rows d) d = d"
begin

lemma batched_put: "batched bulk rs d = Inr (put (tbl_insert_all rs (rows d)) d)"
proof (induction "length rs" arbitrary: rs d rule: less_induct)
  case less
  show ?case
  proof (cases "rs = []")
    case True
    then show ?thesis by (simp add: batched.simps put_same)
  next
    case False
    let ?d = "snd (bulk (take 2000 rs) d)"
    from False have ne: "take 2000 rs \<noteq> []" by simp
    then have "bulk (take 2000 rs) d = (None, ?d)" using bulk_rows by (simp add: prod_eq_iff)
    then have b: "orPanic (bulk (take 2000 rs) d) = Inr ?d" by (metis orPanic.simps(1))
    have r: "rows ?d = tbl_insert_all (take 2000 rs) (rows d)" using bulk_rows [OF ne] by simp
    from False have "length (drop 2000 rs) < length rs" by simp
    from less.hyps [OF this] b False
    have "batched bulk rs d = Inr (put (tbl_insert_all (drop 2000 rs) (rows ?d)) ?d)"
      by (subst batched.simps) simp
    then show ?thesis
      unfolding r by (simp add: bulk_put [OF ne] put_put tbl_insert_all_comp)
  qed
qed

lemma batched_ignoring_put: "batched_ignoring bulk rs d = put (tbl_insert_all rs (rows d)) d"
  by (rule batched_ignoring_eq [OF batched_put])

end

end
