(* ===== verification/BlockchainDb.thy ===== *)
theory BlockchainDb
  imports SqlTable
begin

text \<open>
  \<open>MainAndSideChain/blockchain/dbbc.go\<close>: the main chain and side chain databases as records of
  tables, and one definition per exported function. A definition has the meaning of the SQL text
  in the function's body. Opening the file, its locks and the failures of the storage itself are
  outside the model; the errors that the statements themselves produce (NULLs scanned into Go
  values, uniqueness violations, malformed statements, missing columns) are values. The \<open>Time\<close>
  columns hold the instant that was written.
\<close>

section \<open>Rows\<close>

record MarketMatchingRow =
  mm_ServerInfo :: "string option"
  mm_FileSize :: int
  mm_ServAgrDuration :: int
  mm_StartedMcRoundNumber :: int
  mm_ServAgrId :: int
  mm_Published :: bool
  mm_TxIssued :: bool

text \<open>What \<open>MainChainGetMarketMatchingRows\<close> returns of a row.\<close>

record MarketMatchingRows =
  MinerServer :: string
  FileSize :: int
  ServerAgrDuration :: int
  StartedMcRoundNumber :: int
  Published :: bool
  TxIssued :: bool

text \<open>
  The entry structs without their \<open>RowId\<close>: an entry read from a table is a pair of its rowid
  and its columns, and the entries that are inserted have no rowid yet.
\<close>

record MainChainSecondQueueEntry =
  sq_Time :: int
  sq_Size :: u32
  sq_RoundIssued :: int

record MainChainFirstQueueEntry =
  fq_Name :: string
  fq_Size :: u32
  fq_Time :: int
  fq_RoundIssued :: int
  fq_ServAgrId :: int

record SideChainFirstQueueEntry =
  scq_Name :: string
  scq_Size :: int
  scq_Time :: int
  scq_IssuedScRoundNumber :: int
  scq_ServAgrId :: int
  scq_Epoch :: int

record MainRoundRow =
  rt_RoundNumber :: int
  rt_Seed :: string
  rt_BCSize :: int
  rt_RoundLeader :: string
  rt_RegPayTx :: int
  rt_PoRTx :: int
  rt_StorjPayTx :: int
  rt_CntPropTx :: int
  rt_CntCmtTx :: int
  rt_StartTime :: int
  rt_TotalNumTx :: int
  rt_AveWaitOtherTxs :: "f64 option"
  rt_AveWaitRegPay :: "f64 option"
  rt_ConfirmationTime :: "f64 option"
  rt_RegSpaceFull :: bool
  rt_BlockSpaceFull :: bool
  rt_SyncTx :: int
  rt_ScPorTx :: int

record MainOverallRow =
  mo_RoundNbr :: int
  mo_BCSize :: f64
  mo_RegPayTxNbr :: f64
  mo_PoRTxNbr :: f64
  mo_StorjPayTxNbr :: f64
  mo_CntPropTxNbr :: f64
  mo_CntCmtTxNbr :: f64
  mo_AveWaitOtherTx :: f64
  mo_AveWaitRegPay :: f64
  mo_BlockSpaceFull :: int

text \<open>A side chain round row. \<open>QueueFill\<close> has no value until the block is built.\<close>

record SideChainRoundInfo =
  sr_RoundNumber :: int
  sr_BCSize :: int
  sr_RoundLeader :: string
  sr_PoRTx :: int
  sr_StartTime :: int
  sr_AveWait :: f64
  sr_TotalNumTx :: int
  sr_BlockSpaceFull :: int
  sr_TimeTaken :: int
  sr_McRound :: int
  sr_QueueFill :: "int option"

record SideOverallRow =
  so_RoundNbr :: int
  so_BCSize :: f64
  so_PoRTxNbr :: f64
  so_AveWait :: f64
  so_BlockSpaceFull :: int

section \<open>Databases\<close>

text \<open>\<open>hosts\<close> is the key of \<open>PowerTable\<close> and \<open>RoundNbr\<close> that of
  \<open>OverallEvaluation\<close>; the other tables have no key but the rowid.\<close>

record mcdb =
  MarketMatching :: "MarketMatchingRow table"
  FirstQueue :: "MainChainFirstQueueEntry table"
  SecondQueue :: "MainChainSecondQueueEntry table"
  RoundTable :: "MainRoundRow table"
  OverallEvaluation :: "MainOverallRow table"
  PowerTable :: "(string \<times> int option) table"
  SyncTxQueue :: "MainChainFirstQueueEntry table"

record scdb =
  ScFirstQueue :: "SideChainFirstQueueEntry table"
  ScRoundTable :: "SideChainRoundInfo table"
  ScOverallEvaluation :: "SideOverallRow table"

text \<open>
  Creation of the tables. The file is deleted first, but a handle that is already open keeps the
  deleted file and its tables, so that \<open>CREATE TABLE\<close> fails.
\<close>

definition InitalizeMainChainDbTables :: "mcdb option \<Rightarrow> sql_error option \<times> mcdb" where
  "InitalizeMainChainDbTables open_db = (case open_db of
     Some db \<Rightarrow> (Some TableExists, db)
   | None \<Rightarrow> (None, \<lparr>MarketMatching = [], FirstQueue = [], SecondQueue = [], RoundTable = [],
                OverallEvaluation = [], PowerTable = [], SyncTxQueue = []\<rparr>))"

definition InitalizeSideChainDbTables :: "scdb option \<Rightarrow> sql_error option \<times> scdb" where
  "InitalizeSideChainDbTables open_db = (case open_db of
     Some db \<Rightarrow> (Some TableExists, db)
   | None \<Rightarrow> (None, \<lparr>ScFirstQueue = [], ScRoundTable = [], ScOverallEvaluation = []\<rparr>))"

section \<open>Insertions\<close>

definition InsertIntoMainChainMarketMatchingTable ::
    "string \<Rightarrow> int \<Rightarrow> int \<Rightarrow> int \<Rightarrow> int \<Rightarrow> bool \<Rightarrow> bool \<Rightarrow> mcdb \<Rightarrow> sql_error option \<times> mcdb" where
  "InsertIntoMainChainMarketMatchingTable serverInfo fileSize serverAgrDuration startedMcRoundNumber
     serverAgrId published txIssued db =
   (None, db\<lparr>MarketMatching := tbl_insert
      \<lparr>mm_ServerInfo = Some serverInfo, mm_FileSize = fileSize, mm_ServAgrDuration = serverAgrDuration,
       mm_StartedMcRoundNumber = startedMcRoundNumber, mm_ServAgrId = serverAgrId,
       mm_Published = published, mm_TxIssued = txIssued\<rparr> (MarketMatching db)\<rparr>)"

definition InitialInsertValuesIntoMarketMatchingTable ::
    "int \<Rightarrow> int \<Rightarrow> int \<Rightarrow> int \<Rightarrow> bool \<Rightarrow> bool \<Rightarrow> mcdb \<Rightarrow> sql_error option \<times> mcdb" where
  "InitialInsertValuesIntoMarketMatchingTable fileSize duration started servAgrId published txIssued db =
   (None, db\<lparr>MarketMatching := tbl_insert
      \<lparr>mm_ServerInfo = None, mm_FileSize = fileSize, mm_ServAgrDuration = duration,
       mm_StartedMcRoundNumber = started, mm_ServAgrId = servAgrId,
       mm_Published = published, mm_TxIssued = txIssued\<rparr> (MarketMatching db)\<rparr>)"

definition InsertIntoMainChainFirstQueue ::
    "string \<Rightarrow> u32 \<Rightarrow> int \<Rightarrow> int \<Rightarrow> int \<Rightarrow> mcdb \<Rightarrow> sql_error option \<times> mcdb" where
  "InsertIntoMainChainFirstQueue name sz timestamp issued servAgrId db =
   (None, db\<lparr>FirstQueue := tbl_insert
      \<lparr>fq_Name = name, fq_Size = sz, fq_Time = timestamp, fq_RoundIssued = issued,
       fq_ServAgrId = servAgrId\<rparr> (FirstQueue db)\<rparr>)"

definition InsertIntoMainChainSyncTxQueue ::
    "string \<Rightarrow> u32 \<Rightarrow> int \<Rightarrow> int \<Rightarrow> int \<Rightarrow> mcdb \<Rightarrow> sql_error option \<times> mcdb" where
  "InsertIntoMainChainSyncTxQueue name sz timestamp issued servAgrId db =
   (None, db\<lparr>SyncTxQueue := tbl_insert
      \<lparr>fq_Name = name, fq_Size = sz, fq_Time = timestamp, fq_RoundIssued = issued,
       fq_ServAgrId = servAgrId\<rparr> (SyncTxQueue db)\<rparr>)"

text \<open>
  A bulk insertion joins one group of placeholders per row. With no row the text ends after
  \<open>VALUES\<close>, which is not SQL: the main chain functions return before that, the side chain one
  does not.
\<close>

definition BulkInsertIntoMainChainFirstQueue ::
    "MainChainFirstQueueEntry list \<Rightarrow> mcdb \<Rightarrow> sql_error option \<times> mcdb" where
  "BulkInsertIntoMainChainFirstQueue rows db =
     (if rows = [] then (None, db)
      else (None, db\<lparr>FirstQueue := tbl_insert_all rows (FirstQueue db)\<rparr>))"

definition InsertIntoMainChainSecondQueue ::
    "u32 \<Rightarrow> int \<Rightarrow> int \<Rightarrow> mcdb \<Rightarrow> sql_error option \<times> mcdb" where
  "InsertIntoMainChainSecondQueue sz timestamp issued db =
   (None, db\<lparr>SecondQueue := tbl_insert
      \<lparr>sq_Time = timestamp, sq_Size = sz, sq_RoundIssued = issued\<rparr> (SecondQueue db)\<rparr>)"

definition BulkInsertIntoMainChainSecondQueue ::
    "MainChainSecondQueueEntry list \<Rightarrow> mcdb \<Rightarrow> sql_error option \<times> mcdb" where
  "BulkInsertIntoMainChainSecondQueue rows db =
     (if rows = [] then (None, db)
      else (None, db\<lparr>SecondQueue := tbl_insert_all rows (SecondQueue db)\<rparr>))"

definition BulkInsertIntoSideChainFirstQueue ::
    "SideChainFirstQueueEntry list \<Rightarrow> scdb \<Rightarrow> sql_error option \<times> scdb" where
  "BulkInsertIntoSideChainFirstQueue rows db =
     (if rows = [] then (Some SyntaxError, db)
      else (None, db\<lparr>ScFirstQueue := tbl_insert_all rows (ScFirstQueue db)\<rparr>))"

text \<open>The statement names a column \<open>MCRoundNbr\<close>, which the table does not have.\<close>

definition InsertIntoSideChainFirstQueue ::
    "string \<Rightarrow> u32 \<Rightarrow> int \<Rightarrow> int \<Rightarrow> int \<Rightarrow> int \<Rightarrow> scdb \<Rightarrow> sql_error option \<times> scdb" where
  "InsertIntoSideChainFirstQueue name sz timestamp issued servAgrId mcRoundNbr db =
     (Some NoSuchColumn, db)"

definition int_of_bool :: "bool \<Rightarrow> int" where
  "int_of_bool b = (if b then 1 else 0)"

definition InsertIntoMainChainRoundTable ::
    "int \<Rightarrow> string \<Rightarrow> int \<Rightarrow> string \<Rightarrow> int \<Rightarrow> int \<Rightarrow> int \<Rightarrow> int \<Rightarrow> int \<Rightarrow> int \<Rightarrow> int \<Rightarrow> f64 \<Rightarrow> f64 \<Rightarrow>
     bool \<Rightarrow> bool \<Rightarrow> bool \<Rightarrow> mcdb \<Rightarrow> sql_error option \<times> mcdb" where
  "InsertIntoMainChainRoundTable roundNbr seed bcSize roundLeader regPayTx porTx storjPayTx cntPropTx
     cntCmtTx startTime totalNumTx aveWaitOtherTxs aveWaitRegPay regSpaceFull blockSpaceFull syncTx db =
   (None, db\<lparr>RoundTable := tbl_insert
      \<lparr>rt_RoundNumber = roundNbr, rt_Seed = seed, rt_BCSize = bcSize, rt_RoundLeader = roundLeader,
       rt_RegPayTx = regPayTx, rt_PoRTx = porTx, rt_StorjPayTx = storjPayTx, rt_CntPropTx = cntPropTx,
       rt_CntCmtTx = cntCmtTx, rt_StartTime = startTime, rt_TotalNumTx = totalNumTx,
       rt_AveWaitOtherTxs = sql_of_f64 aveWaitOtherTxs, rt_AveWaitRegPay = sql_of_f64 aveWaitRegPay,
       rt_ConfirmationTime = None, rt_RegSpaceFull = regSpaceFull, rt_BlockSpaceFull = blockSpaceFull,
       rt_SyncTx = int_of_bool syncTx, rt_ScPorTx = 0\<rparr> (RoundTable db)\<rparr>)"

definition InsertIntoMainChainOverallEvaluationTable ::
    "int \<Rightarrow> f64 \<Rightarrow> f64 \<Rightarrow> f64 \<Rightarrow> f64 \<Rightarrow> f64 \<Rightarrow> f64 \<Rightarrow> f64 \<Rightarrow> f64 \<Rightarrow> int \<Rightarrow> mcdb \<Rightarrow> sql_error option \<times> mcdb" where
  "InsertIntoMainChainOverallEvaluationTable roundNbr bcSize regPay por storjPay cntProp cntCmt
     waitOther waitRegPay spaceFull db =
   (if \<exists>r \<in> set (map snd (OverallEvaluation db)). mo_RoundNbr r = roundNbr
    then (Some UniqueViolation, db)
    else (None, db\<lparr>OverallEvaluation := tbl_insert
      \<lparr>mo_RoundNbr = roundNbr, mo_BCSize = bcSize, mo_RegPayTxNbr = regPay, mo_PoRTxNbr = por,
       mo_StorjPayTxNbr = storjPay, mo_CntPropTxNbr = cntProp, mo_CntCmtTxNbr = cntCmt,
       mo_AveWaitOtherTx = waitOther, mo_AveWaitRegPay = waitRegPay,
       mo_BlockSpaceFull = spaceFull\<rparr> (OverallEvaluation db)\<rparr>))"

text \<open>
  \<open>UPDATE table SET column = ? WHERE rowid = ?\<close> for each value, at rowids 1, 2, ...
  The code calls it for column \<open>ServerInfo\<close> of \<open>MarketMatching\<close>, with strings.
\<close>

fun set_server_infos :: "nat \<Rightarrow> string list \<Rightarrow> MarketMatchingRow table \<Rightarrow> MarketMatchingRow table" where
  "set_server_infos i [] t = t"
| "set_server_infos i (v # vs) t =
     set_server_infos (Suc i) vs (tbl_update (\<lambda>rowid r. rowid = i) (\<lambda>r. r\<lparr>mm_ServerInfo := Some v\<rparr>) t)"

definition AddMoreFieldsIntoTableInMainChain ::
    "string \<Rightarrow> string \<Rightarrow> string list \<Rightarrow> mcdb \<Rightarrow> sql_error option \<times> mcdb" where
  "AddMoreFieldsIntoTableInMainChain table column values db =
     (if values = [] then (None, db)
      else if table = ''MarketMatching'' \<and> column = ''ServerInfo''
      then (None, db\<lparr>MarketMatching := set_server_infos 1 values (MarketMatching db)\<rparr>)
      else (Some NoSuchColumn, db))"

definition InitialInsertValuesIntoMainChainPowerTable ::
    "string list \<Rightarrow> mcdb \<Rightarrow> sql_error option \<times> mcdb" where
  "InitialInsertValuesIntoMainChainPowerTable values db =
     (if values = [] then (Some SyntaxError, db)
      else if distinct (map (fst \<circ> snd) (PowerTable db) @ values)
      then (None, db\<lparr>PowerTable := tbl_insert_all (map (\<lambda>h. (h, None)) values) (PowerTable db)\<rparr>)
      else (Some UniqueViolation, db))"

definition InsertIntoSideChainRoundTable ::
    "int \<Rightarrow> int \<Rightarrow> string \<Rightarrow> int \<Rightarrow> int \<Rightarrow> int \<Rightarrow> int \<Rightarrow> int \<Rightarrow> int \<Rightarrow> int \<Rightarrow> scdb \<Rightarrow> sql_error option \<times> scdb" where
  "InsertIntoSideChainRoundTable roundNbr bcSize roundLeader porTx startTime aveWait totalNumTx
     blockSpaceFull timeTaken mcRound db =
   (None, db\<lparr>ScRoundTable := tbl_insert
      \<lparr>sr_RoundNumber = roundNbr, sr_BCSize = bcSize, sr_RoundLeader = roundLeader, sr_PoRTx = porTx,
       sr_StartTime = startTime, sr_AveWait = f_of_int aveWait, sr_TotalNumTx = totalNumTx,
       sr_BlockSpaceFull = blockSpaceFull, sr_TimeTaken = timeTaken, sr_McRound = mcRound,
       sr_QueueFill = None\<rparr> (ScRoundTable db)\<rparr>)"

definition InsertIntoSideChainOverallEvaluation ::
    "int \<Rightarrow> f64 \<Rightarrow> f64 \<Rightarrow> f64 \<Rightarrow> int \<Rightarrow> scdb \<Rightarrow> sql_error option \<times> scdb" where
  "InsertIntoSideChainOverallEvaluation roundNbr bcSize porTxNbr aveWait spaceFull db =
   (None, db\<lparr>ScOverallEvaluation := tbl_insert
      \<lparr>so_RoundNbr = roundNbr, so_BCSize = bcSize, so_PoRTxNbr = porTxNbr, so_AveWait = aveWait,
       so_BlockSpaceFull = spaceFull\<rparr> (ScOverallEvaluation db)\<rparr>)"

section \<open>Aggregates\<close>

text \<open>
  The values of a numeric column, with None for NULL. Other names are errors of the statement
  (text columns are not summed by the code and are not modelled as numbers).
\<close>

definition mc_column :: "string \<Rightarrow> string \<Rightarrow> mcdb \<Rightarrow> sql_error + f64 option list" where
  "mc_column table column db =
    (if table = ''MarketMatching'' then
       (let col = (\<lambda>f. Inr (map (\<lambda>(i, r). Some (f_of_int (f r))) (MarketMatching db))) in
        if column = ''FileSize'' then col mm_FileSize
        else if column = ''ServAgrDuration'' then col mm_ServAgrDuration
        else if column = ''StartedMcRoundNumber'' then col mm_StartedMcRoundNumber
        else Inl NoSuchColumn)
     else if table = ''RoundTable'' then
       (let col = (\<lambda>f. Inr (map (\<lambda>(i, r). Some (f_of_int (f r))) (RoundTable db)));
            fcol = (\<lambda>f. Inr (map (\<lambda>(i, r). f r) (RoundTable db))) in
        if column = ''BCSize'' then col rt_BCSize
        else if column = ''RegPayTx'' then col rt_RegPayTx
        else if column = ''PoRTx'' then col rt_PoRTx
        else if column = ''StorjPayTx'' then col rt_StorjPayTx
        else if column = ''CntPropTx'' then col rt_CntPropTx
        else if column = ''CntCmtTx'' then col rt_CntCmtTx
        else if column = ''TotalNumTx'' then col rt_TotalNumTx
        else if column = ''AveWaitOtherTxs'' then fcol rt_AveWaitOtherTxs
        else if column = ''AveWaitRegPay'' then fcol rt_AveWaitRegPay
        else if column = ''ConfirmationTime'' then fcol rt_ConfirmationTime
        else Inl NoSuchColumn)
     else Inl NoSuchColumn)"

definition sc_column :: "string \<Rightarrow> string \<Rightarrow> scdb \<Rightarrow> sql_error + f64 option list" where
  "sc_column table column db =
    (if table = ''RoundTable'' then
       (let col = (\<lambda>f. Inr (map (\<lambda>(i, r). Some (f r)) (ScRoundTable db))) in
        if column = ''BCSize'' then col (f_of_int \<circ> sr_BCSize)
        else if column = ''PoRTx'' then col (f_of_int \<circ> sr_PoRTx)
        else if column = ''AveWait'' then col sr_AveWait
        else if column = ''TotalNumTx'' then col (f_of_int \<circ> sr_TotalNumTx)
        else if column = ''TimeTaken'' then col (f_of_int \<circ> sr_TimeTaken)
        else Inl NoSuchColumn)
     else Inl NoSuchColumn)"

text \<open>
  SUM, AVG and MAX skip NULLs and are NULL when nothing is left, and a NULL does not scan into
  a float64.
\<close>

definition non_null :: "'a option list \<Rightarrow> 'a list" where
  "non_null xs = map the (filter (\<lambda>x. x \<noteq> None) xs)"

definition sql_sum :: "f64 option list \<Rightarrow> sql_error + f64" where
  "sql_sum xs = (if non_null xs = [] then Inl NullScan else Inr (sum_list (non_null xs)))"

definition sql_avg :: "f64 option list \<Rightarrow> sql_error + f64" where
  "sql_avg xs = (if non_null xs = [] then Inl NullScan
     else Inr (f_div (sum_list (non_null xs)) (f_of_int (int (length (non_null xs))))))"

definition sql_max :: "f64 option list \<Rightarrow> sql_error + f64" where
  "sql_max xs = (case non_null xs of [] \<Rightarrow> Inl NullScan | y # ys \<Rightarrow> Inr (foldl max y ys))"

definition GetAvgMainChain :: "string \<Rightarrow> string \<Rightarrow> mcdb \<Rightarrow> sql_error + f64" where
  "GetAvgMainChain table column db = bindR (mc_column table column db) sql_avg"

definition GetMaxMainChain :: "string \<Rightarrow> string \<Rightarrow> mcdb \<Rightarrow> sql_error + f64" where
  "GetMaxMainChain table column db = bindR (mc_column table column db) sql_max"

definition GetSumMainChain :: "string \<Rightarrow> string \<Rightarrow> mcdb \<Rightarrow> sql_error + f64" where
  "GetSumMainChain table column db = bindR (mc_column table column db) sql_sum"

definition GetAvgSideChain :: "string \<Rightarrow> string \<Rightarrow> scdb \<Rightarrow> sql_error + f64" where
  "GetAvgSideChain table column db = bindR (sc_column table column db) sql_avg"

definition GetSumSideChain :: "string \<Rightarrow> string \<Rightarrow> scdb \<Rightarrow> sql_error + f64" where
  "GetSumSideChain table column db = bindR (sc_column table column db) sql_sum"

section \<open>Main chain queries and updates\<close>

text \<open>The first row, in rowid order, among those with the largest round number.\<close>

definition max_round :: "mcdb \<Rightarrow> int" where
  "max_round db = (case map (rt_RoundNumber \<circ> snd) (RoundTable db) of [] \<Rightarrow> 0 | r # rs \<Rightarrow> foldl max r rs)"

definition MainChainGetLastRoundSeed :: "mcdb \<Rightarrow> sql_error + string" where
  "MainChainGetLastRoundSeed db =
     (case filter (\<lambda>(i, r). rt_RoundNumber r = max_round db) (RoundTable db) of
        [] \<Rightarrow> Inl NoRows | (i, r) # _ \<Rightarrow> Inr (rt_Seed r))"

fun scan_powers :: "(nat \<times> string \<times> int option) list \<Rightarrow> (string \<rightharpoonup> int) \<Rightarrow> sql_error + (string \<rightharpoonup> int)" where
  "scan_powers [] m = Inr m"
| "scan_powers ((i, h, None) # rows) m = Inl NullScan"
| "scan_powers ((i, h, Some p) # rows) m = scan_powers rows (m(h \<mapsto> p))"

definition MainChainGetPowerTable :: "mcdb \<Rightarrow> sql_error + (string \<rightharpoonup> int)" where
  "MainChainGetPowerTable db = scan_powers (PowerTable db) Map.empty"

fun scan_market :: "(nat \<times> MarketMatchingRow) list \<Rightarrow> sql_error + MarketMatchingRows list" where
  "scan_market [] = Inr []"
| "scan_market ((i, r) # rows) =
     (case mm_ServerInfo r of
        None \<Rightarrow> Inl NullScan
      | Some server \<Rightarrow> bindR (scan_market rows) (\<lambda>items. Inr (
          \<lparr>MinerServer = server, FileSize = mm_FileSize r, ServerAgrDuration = mm_ServAgrDuration r,
           StartedMcRoundNumber = mm_StartedMcRoundNumber r, Published = mm_Published r,
           TxIssued = mm_TxIssued r\<rparr> # items)))"

definition MainChainGetMarketMatchingRows :: "mcdb \<Rightarrow> sql_error + MarketMatchingRows list" where
  "MainChainGetMarketMatchingRows db = scan_market (MarketMatching db)"

text \<open>
  The power map is the list of its entries, in the order in which the range over it runs. The
  old table is deleted before the insertion, whose text is malformed when the map is empty.
\<close>

definition MainChainUpdatePowerTable :: "(string \<times> int) list \<Rightarrow> mcdb \<Rightarrow> sql_error option \<times> mcdb" where
  "MainChainUpdatePowerTable powermap db =
     (let db' = db\<lparr>PowerTable := []\<rparr> in
      if powermap = [] then (Some SyntaxError, db')
      else if \<not> distinct (map fst powermap) then (Some UniqueViolation, db')
      else (None, db'\<lparr>PowerTable := tbl_insert_all (map (\<lambda>(h, p). (h, Some p)) powermap) []\<rparr>))"

definition MainChainSetTxIssued :: "nat \<Rightarrow> bool \<Rightarrow> mcdb \<Rightarrow> sql_error option \<times> mcdb" where
  "MainChainSetTxIssued rowId v db =
     (None, db\<lparr>MarketMatching :=
        tbl_update (\<lambda>i r. i = rowId) (\<lambda>r. r\<lparr>mm_TxIssued := v\<rparr>) (MarketMatching db)\<rparr>)"

definition MainChainSetPublished :: "nat \<Rightarrow> bool \<Rightarrow> mcdb \<Rightarrow> sql_error option \<times> mcdb" where
  "MainChainSetPublished rowId v db =
     (None, db\<lparr>MarketMatching :=
        tbl_update (\<lambda>i r. i = rowId) (\<lambda>r. r\<lparr>mm_Published := v\<rparr>) (MarketMatching db)\<rparr>)"

definition MainChainSetPublishedAndStartRoundOnServAgrId ::
    "int \<Rightarrow> bool \<Rightarrow> int \<Rightarrow> mcdb \<Rightarrow> sql_error option \<times> mcdb" where
  "MainChainSetPublishedAndStartRoundOnServAgrId servAgrId published started db =
     (None, db\<lparr>MarketMatching := tbl_update (\<lambda>i r. mm_ServAgrId r = servAgrId)
        (\<lambda>r. r\<lparr>mm_Published := published, mm_StartedMcRoundNumber := started\<rparr>) (MarketMatching db)\<rparr>)"

text \<open>A pop returns the entry or nothing, and whether the queue was empty.\<close>

definition MainChainPopFromSecondQueue :: "mcdb \<Rightarrow> (MainChainSecondQueueEntry option \<times> bool) \<times> mcdb" where
  "MainChainPopFromSecondQueue db = (case SecondQueue db of
     [] \<Rightarrow> ((None, True), db)
   | (i, e) # _ \<Rightarrow> ((Some e, False), db\<lparr>SecondQueue := tbl_del_min (SecondQueue db)\<rparr>))"

definition MainChainGetSecondQueue :: "mcdb \<Rightarrow> (nat \<times> MainChainSecondQueueEntry) list" where
  "MainChainGetSecondQueue db = take 5000 (SecondQueue db)"

definition MainChainDeleteFromSecondQueue :: "nat \<Rightarrow> mcdb \<Rightarrow> sql_error option \<times> mcdb" where
  "MainChainDeleteFromSecondQueue threshold db =
     (None, db\<lparr>SecondQueue := tbl_del_upto threshold (SecondQueue db)\<rparr>)"

definition MainChainPopFromFirstQueue :: "mcdb \<Rightarrow> (MainChainFirstQueueEntry option \<times> bool) \<times> mcdb" where
  "MainChainPopFromFirstQueue db = (case FirstQueue db of
     [] \<Rightarrow> ((None, True), db)
   | (i, e) # _ \<Rightarrow> ((Some e, False), db\<lparr>FirstQueue := tbl_del_min (FirstQueue db)\<rparr>))"

definition MainChainPopFromSyncTxQueue :: "mcdb \<Rightarrow> (MainChainFirstQueueEntry option \<times> bool) \<times> mcdb" where
  "MainChainPopFromSyncTxQueue db = (case SyncTxQueue db of
     [] \<Rightarrow> ((None, True), db)
   | (i, e) # _ \<Rightarrow> ((Some e, False), db\<lparr>SyncTxQueue := tbl_del_min (SyncTxQueue db)\<rparr>))"

definition MainChainGetFirstQueue :: "mcdb \<Rightarrow> (nat \<times> MainChainFirstQueueEntry) list" where
  "MainChainGetFirstQueue db = take 5000 (FirstQueue db)"

definition MainChainDeleteFromFirstQueue :: "nat \<Rightarrow> mcdb \<Rightarrow> sql_error option \<times> mcdb" where
  "MainChainDeleteFromFirstQueue threshold db =
     (None, db\<lparr>FirstQueue := tbl_del_upto threshold (FirstQueue db)\<rparr>)"

text \<open>The column name is spliced into the statement; the code passes two of them.\<close>

definition AddToRoundTableBasedOnRoundNumber ::
    "string \<Rightarrow> bool \<Rightarrow> int \<Rightarrow> mcdb \<Rightarrow> sql_error option \<times> mcdb" where
  "AddToRoundTableBasedOnRoundNumber column data roundNumber db =
     (let upd = (\<lambda>f. (None, db\<lparr>RoundTable := tbl_update (\<lambda>i r. rt_RoundNumber r = roundNumber) f (RoundTable db)\<rparr>)) in
      if column = ''RegSpaceFull'' then upd (\<lambda>r. r\<lparr>rt_RegSpaceFull := data\<rparr>)
      else if column = ''BlockSpaceFull'' then upd (\<lambda>r. r\<lparr>rt_BlockSpaceFull := data\<rparr>)
      else (Some NoSuchColumn, db))"

definition AddStatsToRoundTableBasedOnRoundNumber ::
    "int \<Rightarrow> int \<Rightarrow> int \<Rightarrow> int \<Rightarrow> int \<Rightarrow> int \<Rightarrow> int \<Rightarrow> f64 \<Rightarrow> f64 \<Rightarrow> int \<Rightarrow> int \<Rightarrow> f64 \<Rightarrow> int \<Rightarrow> mcdb \<Rightarrow>
     sql_error option \<times> mcdb" where
  "AddStatsToRoundTableBasedOnRoundNumber bcSize regPayTx porTx storjPayTx cntPropTx cntCmtTx totalNumTx
     aveWaitOtherTxs aveWaitRegPay syncTx scPorTx confirmationTime roundNumber db =
   (None, db\<lparr>RoundTable := tbl_update (\<lambda>i r. rt_RoundNumber r = roundNumber)
      (\<lambda>r. r\<lparr>rt_BCSize := bcSize, rt_RegPayTx := regPayTx, rt_PoRTx := porTx,
            rt_StorjPayTx := storjPayTx, rt_CntPropTx := cntPropTx, rt_CntCmtTx := cntCmtTx,
            rt_TotalNumTx := totalNumTx, rt_AveWaitOtherTxs := sql_of_f64 aveWaitOtherTxs,
            rt_AveWaitRegPay := sql_of_f64 aveWaitRegPay, rt_SyncTx := syncTx,
            rt_ScPorTx := scPorTx, rt_ConfirmationTime := sql_of_f64 confirmationTime\<rparr>)
      (RoundTable db)\<rparr>)"

definition MainChainEndPosition :: "int \<Rightarrow> mcdb \<Rightarrow> mcdb" where
  "MainChainEndPosition maxRoundNbr db =
     (if RoundTable db = [] then db
      else let r = snd (last (RoundTable db)) in
        if rt_RoundNumber r = maxRoundNbr + 1 \<and> rt_BCSize r = 0
        then db\<lparr>RoundTable := tbl_del_max (RoundTable db)\<rparr> else db)"

section \<open>Side chain queries and updates\<close>

definition SideChainRoundTableGetLastRow :: "scdb \<Rightarrow> nat \<times> SideChainRoundInfo option" where
  "SideChainRoundTableGetLastRow db =
     (if ScRoundTable db = [] then (0, None)
      else (fst (last (ScRoundTable db)), Some (snd (last (ScRoundTable db)))))"

text \<open>The text of the statement misses a comma and closes a parenthesis it never opened.\<close>

definition UpdateRowSideChainRoundTable ::
    "int \<Rightarrow> int \<Rightarrow> string \<Rightarrow> int \<Rightarrow> int \<Rightarrow> int \<Rightarrow> int \<Rightarrow> int \<Rightarrow> int \<Rightarrow> int \<Rightarrow> nat \<Rightarrow> scdb \<Rightarrow> sql_error option \<times> scdb" where
  "UpdateRowSideChainRoundTable roundNbr bcSize roundLeader porTx startTime aveWait totalNumTx
     blockSpaceFull timeTaken mcRound rowid db = (Some SyntaxError, db)"

definition SideChainPopFromFirstQueue :: "scdb \<Rightarrow> (SideChainFirstQueueEntry option \<times> bool) \<times> scdb" where
  "SideChainPopFromFirstQueue db = (case ScFirstQueue db of
     [] \<Rightarrow> ((None, True), db)
   | (i, e) # _ \<Rightarrow> ((Some e, False), db\<lparr>ScFirstQueue := tbl_del_min (ScFirstQueue db)\<rparr>))"

definition SideChainGetFirstQueue :: "scdb \<Rightarrow> (nat \<times> SideChainFirstQueueEntry) list" where
  "SideChainGetFirstQueue db = take 5000 (ScFirstQueue db)"

definition SideChainDeleteFromFirstQueue :: "nat \<Rightarrow> scdb \<Rightarrow> sql_error option \<times> scdb" where
  "SideChainDeleteFromFirstQueue threshold db =
     (None, db\<lparr>ScFirstQueue := tbl_del_upto threshold (ScFirstQueue db)\<rparr>)"

definition SideChainRoundTableSetBlockSpaceIsFull :: "int \<Rightarrow> scdb \<Rightarrow> sql_error option \<times> scdb" where
  "SideChainRoundTableSetBlockSpaceIsFull roundnbr db =
     (None, db\<lparr>ScRoundTable := tbl_update (\<lambda>i r. sr_RoundNumber r = roundnbr)
        (\<lambda>r. r\<lparr>sr_BlockSpaceFull := 1\<rparr>) (ScRoundTable db)\<rparr>)"

definition max_rowid_where :: "('r \<Rightarrow> bool) \<Rightarrow> 'r table \<Rightarrow> nat" where
  "max_rowid_where P t = foldr max (map fst (filter (\<lambda>(i, r). P r) t)) 0"

definition SideChainRoundTableSetFinalRoundInfo ::
    "int \<Rightarrow> int \<Rightarrow> f64 \<Rightarrow> int \<Rightarrow> int \<Rightarrow> scdb \<Rightarrow> sql_error option \<times> scdb" where
  "SideChainRoundTableSetFinalRoundInfo blocksize porTx avewait roundnbr queueFill db =
     (let k = max_rowid_where (\<lambda>r. sr_RoundNumber r = roundnbr) (ScRoundTable db) in
      (None, db\<lparr>ScRoundTable := tbl_update (\<lambda>i r. i = k)
        (\<lambda>r. r\<lparr>sr_BCSize := blocksize, sr_PoRTx := porTx, sr_AveWait := avewait,
              sr_QueueFill := Some queueFill\<rparr>) (ScRoundTable db)\<rparr>))"

definition SideChainEndPosition :: "scdb \<Rightarrow> int \<times> scdb" where
  "SideChainEndPosition db =
     (if ScRoundTable db = [] then (0, db)
      else let r = snd (last (ScRoundTable db)) in
        if sr_RoundNumber r = 1 \<and> sr_BCSize r = 0
        then (sr_RoundNumber r - 1, db\<lparr>ScRoundTable := tbl_del_max (ScRoundTable db)\<rparr>)
        else (sr_RoundNumber r, db))"

text \<open>The round number 29 is written in the code.\<close>

definition SideChainGetLastRowSigLen :: "scdb \<Rightarrow> int" where
  "SideChainGetLastRowSigLen db =
     (let rows = filter (\<lambda>(i, r). sr_RoundNumber r = 29) (ScRoundTable db);
          bcSize = (if rows = [] then 0 else sr_BCSize (snd (last rows)));
          porTx = (if rows = [] then 0 else sr_PoRTx (snd (last rows)));
          txSize = (case ScFirstQueue db of [] \<Rightarrow> 0 | (i, e) # _ \<Rightarrow> scq_Size e)
      in bcSize - porTx * txSize)"

section \<open>The queues meet their contract\<close>

interpretation mc_first: framed_fifo_table FirstQueue BulkInsertIntoMainChainFirstQueue
    MainChainDeleteFromFirstQueue "\<lambda>t db. db\<lparr>FirstQueue := t\<rparr>"
  by unfold_locales
    (simp_all add: BulkInsertIntoMainChainFirstQueue_def MainChainDeleteFromFirstQueue_def)

interpretation mc_second: framed_fifo_table SecondQueue BulkInsertIntoMainChainSecondQueue
    MainChainDeleteFromSecondQueue "\<lambda>t db. db\<lparr>SecondQueue := t\<rparr>"
  by unfold_locales
    (simp_all add: BulkInsertIntoMainChainSecondQueue_def MainChainDeleteFromSecondQueue_def)

interpretation sc_first: framed_fifo_table ScFirstQueue BulkInsertIntoSideChainFirstQueue
    SideChainDeleteFromFirstQueue "\<lambda>t db. db\<lparr>ScFirstQueue := t\<rparr>"
  by unfold_locales
    (simp_all add: BulkInsertIntoSideChainFirstQueue_def SideChainDeleteFromFirstQueue_def)

end
