(* ===== verification/Measurements.thy ===== *)
theory Measurements
  imports Prelude
begin

text \<open>
  \<open>blockchain/transactions.go\<close> and \<open>blockchain/measurements.go\<close>: the transaction and
  block structs of both chains, and the functions that compute the sizes in bytes the
  simulation charges for them. A Go array \<open>[n]byte\<close> is a byte list of length n. The lengths of
  kyber's encodings, the in-memory size of the PoR sample and the length of the file tag come
  from code outside the repository: they are the fields of \<open>sizes\<close>.
\<close>

type_synonym bytes = "8 word list"

section \<open>transactions.go\<close>

record outpoint =
  op_hash :: bytes
  op_index :: bytes

record TxPayIn =
  ti_outpoint :: outpoint
  ti_UnlockingScriptSize :: bytes
  ti_UnlockinScript :: bytes
  ti_SequenceNumber :: bytes

record TxPayOut =
  to_Amount :: bytes
  to_LockingScript :: bytes
  to_LockingScriptSize :: bytes

record MC_TxPay =
  tp_LockTime :: bytes
  tp_Version :: bytes
  tp_TxInCnt :: bytes
  tp_TxOutCnt :: bytes
  tp_TxIns :: "TxPayIn list"
  tp_TxOuts :: "TxPayOut list"
  tp_OnMainChain :: bool

record SC_ServAgr =
  sa_duration :: bytes
  sa_fileSize :: bytes
  sa_startRound :: bytes
  sa_pricePerRound :: bytes
  sa_Tau :: bytes
  sa_OnMainChain :: bool

record SC_TxServAgrPropose =
  pr_tx :: MC_TxPay
  pr_ServAgrID :: SC_ServAgr
  pr_clientCommitment :: bytes
  pr_OnMainChain :: bool

record SC_TxServAgrCommit =
  cm_serverCommitment :: bytes
  cm_ServAgrID :: u64
  cm_OnMainChain :: bool

text \<open>The proof itself is kyber data.\<close>

record 'por SC_TxPoR =
  tpor_ServAgrID :: u64
  tpor_por :: 'por
  tpor_MCRoundNumber :: bytes
  tpor_OnMainChain :: bool

record MC_TxStoragePay =
  ts_ServAgrID :: u64
  ts_tx :: MC_TxPay
  ts_OnMainChain :: bool

record TxSCSync =
  sync_ServAgrID :: "u64 list"
  sync_ConfirmedPoRCnt :: "u64 list"

record 'por TransactionList =
  tl_TxPays :: "MC_TxPay list"
  tl_TxPayCnt :: bytes
  tl_TxPoRs :: "'por SC_TxPoR list"
  tl_TxPoRCnt :: bytes
  tl_TxServAgrProposes :: "SC_TxServAgrPropose list"
  tl_TxServAgrProposeCnt :: bytes
  tl_TxServAgrCommits :: "SC_TxServAgrCommit list"
  tl_TxServAgrCommitCnt :: bytes
  tl_TxStoragePay :: "MC_TxStoragePay list"
  tl_TxStoragePayCnt :: bytes
  tl_TxSCSync :: "TxSCSync list"
  tl_TxSCSyncCnt :: bytes
  tl_Fees :: bytes

record BlockHeader =
  bh_MCRoundNumber :: bytes
  bh_RoundSeed :: bytes
  bh_LeadershipProof :: bytes
  bh_PreviousBlockHash :: bytes
  bh_Timestamp :: bytes
  bh_MerkleRootHash :: bytes
  bh_Version :: bytes
  bh_LeaderPublicKey :: bytes

record 'por Block =
  bl_BlockSize :: bytes
  bl_BlockHeader :: BlockHeader
  bl_TransactionList :: "'por TransactionList"

record 'por SCMetaBlockTransactionList =
  ml_TxPoRs :: "'por SC_TxPoR list"
  ml_TxPoRCnt :: bytes
  ml_Fees :: bytes

record SCBlockHeader =
  sh_SCRoundNumber :: bytes
  sh_RoundSeed :: bytes
  sh_LeadershipProof :: bytes
  sh_PreviousBlockHash :: bytes
  sh_Timestamp :: bytes
  sh_MerkleRootHash :: bytes
  sh_Version :: bytes
  sh_LeaderPublicKey :: bytes
  sh_BlsSignature :: bytes

record 'por SCMetaBlock =
  mb_BlockSize :: bytes
  mb_SCBlockHeader :: SCBlockHeader
  mb_SCMetaBlockTransactionList :: "'por SCMetaBlockTransactionList"

record TxSummary =
  sm_ServAgrID :: "u64 list"
  sm_ConfirmedPoRCnt :: "u64 list"

record SCSummaryBlockTransactionList =
  sl_TxSummary :: "TxSummary list"
  sl_TxSummaryCnt :: bytes
  sl_Fees :: bytes

record SCSummaryBlock =
  sb_BlockSize :: bytes
  sb_SCBlockHeader :: SCBlockHeader
  sb_SCSummaryBlockTransactionList :: SCSummaryBlockTransactionList

section \<open>measurements.go\<close>

definition arr :: "nat \<Rightarrow> bytes" where
  "arr n = replicate n 0"

lemma length_arr [simp]: "length (arr n) = n"
  by (simp add: arr_def)

abbreviation len :: "'a list \<Rightarrow> int" where
  "len xs \<equiv> int (length xs)"

text \<open>
  The sample block of \<open>BlockMeasurement\<close>: the fields it does not set are Go's zero arrays.
  \<open>hash\<close> is the SHA-256 sample, \<open>ti\<close> the first bytes of the time.
\<close>

definition block_sample :: "bytes \<Rightarrow> bytes \<Rightarrow> 'por Block" where
  "block_sample hash ti =
    (let cnt = arr 2;
         x9 = \<lparr>tl_TxPays = [], tl_TxPayCnt = cnt, tl_TxPoRs = [], tl_TxPoRCnt = cnt,
               tl_TxServAgrProposes = [], tl_TxServAgrProposeCnt = cnt,
               tl_TxServAgrCommits = [], tl_TxServAgrCommitCnt = cnt,
               tl_TxStoragePay = [], tl_TxStoragePayCnt = cnt,
               tl_TxSCSync = [], tl_TxSCSyncCnt = arr 2, tl_Fees = arr 3\<rparr>;
         x10 = \<lparr>bh_MCRoundNumber = arr 3, bh_RoundSeed = arr 64, bh_LeadershipProof = arr 80,
                bh_PreviousBlockHash = hash, bh_Timestamp = ti, bh_MerkleRootHash = hash,
                bh_Version = arr 4, bh_LeaderPublicKey = arr 33\<rparr>
     in \<lparr>bl_BlockSize = arr 3, bl_BlockHeader = x10, bl_TransactionList = x9\<rparr>)"

definition BlockMeasurement :: int where
  "BlockMeasurement =
    (let hashSample = arr 32; Version = arr 4; cnt = arr 2; feeSample = arr 3;
         BlockSizeSample = arr 3; MCRoundNumberSample = arr 3; timeSample = arr 4
     in len BlockSizeSample +
        len MCRoundNumberSample + len hashSample + len timeSample + len hashSample + len Version +
        5 * len cnt + len feeSample)"

text \<open>
  Everything in a block but its transactions: the size field, the header and the counters and
  fees of the transaction list.
\<close>

definition block_metadata_size :: "'por Block \<Rightarrow> int" where
  "block_metadata_size b =
    (let h = bl_BlockHeader b; l = bl_TransactionList b
     in len (bl_BlockSize b) +
        len (bh_MCRoundNumber h) + len (bh_RoundSeed h) + len (bh_LeadershipProof h) +
        len (bh_PreviousBlockHash h) + len (bh_Timestamp h) + len (bh_MerkleRootHash h) +
        len (bh_Version h) + len (bh_LeaderPublicKey h) +
        len (tl_TxPayCnt l) + len (tl_TxPoRCnt l) + len (tl_TxServAgrProposeCnt l) +
        len (tl_TxServAgrCommitCnt l) + len (tl_TxStoragePayCnt l) + len (tl_TxSCSyncCnt l) +
        len (tl_Fees l))"

record sizes =
  G1ScalarLen :: int
  G2PointLen :: int
  sizeOfPor :: int         \<comment> \<open>\<open>size.Of\<close> of the sample \<open>Por\<close>\<close>
  tauLen :: "int \<Rightarrow> int"   \<comment> \<open>length of the file tag for a number of sectors\<close>

record tx_sizes =
  PorTxSize :: u32
  ServAgrProposeTxSize :: u32
  PayTxSize :: u32
  StoragePayTxSize :: u32
  ServAgrCommitTxSize :: u32

definition UnlockinScriptSample :: string where
  "UnlockinScriptSample =
    ''48304502203a776322ebf8eb8b58cc6ced4f2574f4c73aa664edce0b0022690f2f6f47c521022100b82353305988cb0ebd443089a173ceec93fe4dbfe98d74419ecc84a6a698e31d012103c5c1bc61f60ce3d6223a63cedbece03b12ef9f0068f2f3c4a7e7f06c523c3664''"

definition LockingScriptSample :: string where
  "LockingScriptSample =
    ''76a914977ae6e32349b99b72196cb62b5ef37329ed81b488ac063d1000000000001976a914f76bc4190f3d8e2315e5c11c59cfc8be9df747e388ac''"

definition TransactionMeasurement :: "sizes \<Rightarrow> int \<Rightarrow> tx_sizes" where
  "TransactionMeasurement sz SectorNumber =
    (let hashSample = arr 32; index = arr 4; Version = arr 4; SequenceNumber = arr 4;
         LockingScriptSize = arr 4; fileSizeSample = arr 4; UnlockingScriptSize = arr 4;
         Amount = arr 8; startRoundSample = arr 3; MCRoundNumberSample = arr 3;
         pricePerRoundSample = arr 3; duration = arr 2; cmtSample = arr 71; cnt = arr 1;
         timeSample = arr 4;
         pay = word_of_int (len hashSample + len index +
           len UnlockingScriptSize + len UnlockinScriptSample + len SequenceNumber +
           len Amount + len LockingScriptSample + len LockingScriptSize +
           len timeSample + len Version + len cnt + len cnt);
         propose = pay + word_of_int (len duration + len fileSizeSample + len startRoundSample +
           len pricePerRoundSample + tauLen sz SectorNumber + len cmtSample);
         porSize = SectorNumber * G1ScalarLen sz + G2PointLen sz + sizeOfPor sz
     in \<lparr>PorTxSize = word_of_int (porSize + 8 + len MCRoundNumberSample),
         ServAgrProposeTxSize = propose,
         PayTxSize = pay,
         StoragePayTxSize = 8 + pay,
         ServAgrCommitTxSize = word_of_int (len cmtSample + 8)\<rparr>)"

text \<open>The sizes of a summary block and of a meta block without their transactions.\<close>

definition SCBlockMeasurement :: "int \<times> int" where
  "SCBlockMeasurement =
    (let hashSample = arr 32; Version = arr 4; cnt = arr 2; feeSample = arr 3;
         BlockSizeSample = arr 3; SCRoundNumberSample = arr 3; samplePublicKey = arr 33;
         timeSample = arr 4;
         MetaBlockSizeMinusTransactions = len BlockSizeSample +
           len SCRoundNumberSample + len hashSample + len timeSample +
           len hashSample + len Version + len samplePublicKey +
           len cnt + len feeSample;
         SummaryBlockSizeMinusTransactions = len BlockSizeSample +
           len SCRoundNumberSample + len hashSample + len timeSample + len hashSample +
           len Version + len samplePublicKey +
           len cnt + len feeSample
     in (SummaryBlockSizeMinusTransactions, MetaBlockSizeMinusTransactions))"

definition SyncTransactionMeasurement :: int where
  "SyncTransactionMeasurement = 0"

text \<open>The loop draws one number per summarised agreement; \<open>draws\<close> are the numbers drawn.\<close>

fun draw_list :: "(nat \<Rightarrow> u64) \<Rightarrow> nat \<Rightarrow> u64 list" where
  "draw_list draws 0 = []"
| "draw_list draws (Suc n) = draw_list draws n @ [draws n]"

definition SCSummaryTxMeasurement :: "(nat \<Rightarrow> u64) \<Rightarrow> int \<Rightarrow> int" where
  "SCSummaryTxMeasurement draws SummTxNum = 2 * len (draw_list draws (nat SummTxNum))"

section \<open>Facts\<close>

lemma BlockMeasurement_value [simp]: "BlockMeasurement = 91"
  by (simp add: BlockMeasurement_def)

lemma SCBlockMeasurement_value [simp]: "SCBlockMeasurement = (116, 116)"
  by (simp add: SCBlockMeasurement_def)

lemma length_draw_list [simp]: "length (draw_list draws n) = n"
  by (induction n) auto

lemma SCSummaryTxMeasurement_eq: "0 \<le> n \<Longrightarrow> SCSummaryTxMeasurement draws n = 2 * n"
  by (simp add: SCSummaryTxMeasurement_def)

lemma length_scripts: "length UnlockinScriptSample = 214" "length LockingScriptSample = 118"
  by (simp_all add: UnlockinScriptSample_def LockingScriptSample_def)

lemma PayTxSize_value: "PayTxSize (TransactionMeasurement sz s) = 398"
  by (simp add: TransactionMeasurement_def Let_def length_scripts)

lemma StoragePayTxSize_value: "StoragePayTxSize (TransactionMeasurement sz s) = 406"
  by (simp add: TransactionMeasurement_def Let_def length_scripts)

lemma ServAgrCommitTxSize_value: "ServAgrCommitTxSize (TransactionMeasurement sz s) = 79"
  by (simp add: TransactionMeasurement_def Let_def)

end
