(* ===== verification/ChainBoost.thy ===== *)
theory ChainBoost
  imports BlockchainDb Measurements "HOL-Library.AList"
begin

text \<open>
  The state of a protocol instance (\<open>struct ChainBoost\<close> of \<open>ChainBoostSimulation.go\<close>), the
  messages it exchanges, and the world it runs in: what the code obtains from the clock, from
  \<open>math/rand\<close>, from \<open>crypto/sha256\<close>, from kyber and from the network.
\<close>

section \<open>Tree nodes\<close>

type_synonym TreeNodeID = "128 word"

text \<open>
  A node of the overlay tree as the protocols see it: \<open>Name()\<close> is its address and
  \<open>nd_Server\<close> the text of its server identity.
\<close>

record TreeNode =
  nd_ID :: TreeNodeID
  nd_Name :: string
  nd_Server :: string
  nd_IsRoot :: bool

text \<open>\<open>Tree.Search\<close> visits every node and keeps the last match, or nil.\<close>

fun Search :: "TreeNode list \<Rightarrow> TreeNodeID \<Rightarrow> TreeNode option" where
  "Search [] tid = None"
| "Search (b # bs) tid = (case Search bs tid of Some b' \<Rightarrow> Some b'
                        | None \<Rightarrow> if nd_ID b = tid then Some b else None)"

lemma Search_Some: "Search bs tid = Some b \<Longrightarrow> b \<in> set bs \<and> nd_ID b = tid"
  by (induction bs) (auto split: option.splits if_splits)

lemma Search_None_iff: "Search bs tid = None \<longleftrightarrow> tid \<notin> nd_ID ` set bs"
  by (induction bs) (auto split: option.splits)

section \<open>Messages\<close>

record HelloChainBoost =
  SimulationRounds :: int
  PercentageTxPay :: int
  MCRoundDuration :: int
  SideChainBlockSize :: int
  MainChainBlockSize :: int
  SectorNumber :: int
  NumberOfPayTXsUpperBound :: int
  NumberOfActiveContractsPerServer :: int
  SimulationSeed :: int
  SCRoundDuration :: int
  CommitteeWindow :: int
  MCRoundPerEpoch :: int
  SCRoundPerEpoch :: int
  NbrSubTrees :: int
  Threshold :: int
  SimState :: int
  StoragePaymentEpoch :: int

record NewRound =
  nr_Seed :: string
  nr_Power :: int
  nr_MaxFileSize :: int

record NewLeader =
  nl_LeaderTreeNodeID :: TreeNodeID
  nl_MCRoundNumber :: int

record RtLSideChainNewRound =
  rtl_SCRoundNumber :: int
  rtl_CommitteeNodesTreeNodeID :: "TreeNodeID list"
  rtl_blocksize :: int

record LtRSideChainNewRound =
  ltr_NewRound :: bool
  ltr_SCRoundNumber :: int
  ltr_SCSig :: bytes

datatype message =
    MsgNewRound NewRound
  | MsgNewLeader NewLeader
  | MsgRtL RtLSideChainNewRound
  | MsgLtR LtRSideChainNewRound
  | MsgJoined bool

section \<open>The protocol instance\<close>

text \<open>
  The configuration fields of the struct are those of \<open>HelloChainBoost\<close>. \<open>SummPoRTxs\<close> is a Go
  map as its list of entries; \<open>sent\<close> is the log of the messages handed to \<open>SendTo\<close> and
  \<open>timers\<close> the round numbers of the \<open>startTimer\<close> goroutines started so far. The two wait groups
  are their counters.
\<close>

record ChainBoost =
  nodes :: "TreeNode list"            \<comment> \<open>\<open>Tree().List()\<close>\<close>
  self :: TreeNode                    \<comment> \<open>\<open>TreeNode()\<close>\<close>
  roster :: "string list"             \<comment> \<open>the servers of \<open>Roster().List\<close>, as strings\<close>
  cfg :: HelloChainBoost
  PayPercentOfTransactions :: rat
  DoneRootNode :: bool
  HasLeader :: bool
  NumMCLeader :: int
  MCRoundNumber :: int
  SCRoundNumber :: int
  wgSyncScRound :: int
  wgSyncMcRound :: int
  FirstQueueWait :: int
  SecondQueueWait :: int
  SideChainQueueWait :: int
  maxFileSize :: int
  BlockType :: string
  BlsMsg :: bytes
  BlsCosiStarted :: bool
  CommitteeNodesTreeNodeID :: "TreeNodeID list"
  NextSideChainLeader :: TreeNodeID
  SummPoRTxs :: "(int \<times> int) list"
  SCSig :: bytes
  simulationDone :: bool
  mc :: mcdb
  sc :: scdb
  sent :: "(TreeNodeID \<times> message) list"
  timers :: "int list"

section \<open>The world\<close>

text \<open>
  \<open>intn k b\<close> is the value of the k-th call after seeding, \<open>rand.Intn(b)\<close>;
  \<open>draws\<close> are the values of \<open>Uint64\<close>. Go leaves the conversion of an infinite
  float64 to int to the implementation: \<open>int_of_nonfinite\<close>. \<open>sendOk\<close> tells whether the overlay
  accepts a message for a node.
\<close>

record world =
  now :: int
  sha256hex :: "string \<Rightarrow> string"
  intn :: "nat \<Rightarrow> int \<Rightarrow> int"
  draws :: "nat \<Rightarrow> u64"
  int_of_nonfinite :: "f64 \<Rightarrow> int"
  sizesOf :: sizes
  sendOk :: "TreeNodeID \<Rightarrow> bool"

text \<open>\<open>int(x)\<close> of a float64: truncation towards zero.\<close>

fun f_to_int :: "world \<Rightarrow> f64 \<Rightarrow> int" where
  "f_to_int w (Fin q) = (if 0 \<le> q then \<lfloor>q\<rfloor> else \<lceil>q\<rceil>)"
| "f_to_int w x = int_of_nonfinite w x"

lemma f_to_int_of_int [simp]: "f_to_int w (f_of_int i) = i"
  by (simp add: f_of_int_def)

text \<open>\<open>SendTo\<close> logs the message, or reports an error.\<close>

definition SendTo :: "world \<Rightarrow> TreeNodeID \<Rightarrow> message \<Rightarrow> ChainBoost \<Rightarrow> ChainBoost option" where
  "SendTo w dest m bz = (if sendOk w dest then Some (bz\<lparr>sent := sent bz @ [(dest, m)]\<rparr>) else None)"

text \<open>A value of a Go map of ints, 0 when the key is absent, and its update.\<close>

definition gmap_get :: "('k \<times> int) list \<Rightarrow> 'k \<Rightarrow> int" where
  "gmap_get m k = (case map_of m k of None \<Rightarrow> 0 | Some v \<Rightarrow> v)"

definition gmap_add :: "'k \<Rightarrow> int \<Rightarrow> ('k \<times> int) list \<Rightarrow> ('k \<times> int) list" where
  "gmap_add k v m = AList.update k (gmap_get m k + v) m"

definition gmap_total :: "('k \<times> int) list \<Rightarrow> int" where
  "gmap_total m = sum_list (map snd m)"

lemma gmap_get_add: "gmap_get (gmap_add k v m) j = gmap_get m j + (if j = k then v else 0)"
  by (simp add: gmap_get_def gmap_add_def update_conv')

lemma keys_gmap_add: "fst ` set (gmap_add k v m) = insert k (fst ` set m)"
  by (simp add: gmap_add_def dom_update)

lemma distinct_gmap_add: "distinct (map fst m) \<Longrightarrow> distinct (map fst (gmap_add k v m))"
  by (simp add: gmap_add_def distinct_update)

lemma gmap_total_add: "distinct (map fst m) \<Longrightarrow> gmap_total (gmap_add k v m) = gmap_total m + v"
proof (induction m)
  case Nil
  then show ?case by (simp add: gmap_total_def gmap_add_def gmap_get_def)
next
  case (Cons p m)
  obtain a b where p: "p = (a, b)" by (cases p)
  show ?case
  proof (cases "k = a")
    case True
    then show ?thesis by (simp add: gmap_total_def gmap_add_def gmap_get_def p)
  next
    case False
    with Cons p show ?thesis by (auto simp: gmap_total_def gmap_add_def gmap_get_def)
  qed
qed

section \<open>A sample instance\<close>

text \<open>
  The configuration of \<open>simulation/manage/simulation/ChainBoost.toml\<close> on three nodes with empty
  databases, and a world with constant answers. The witnesses start from these.
\<close>

definition sample_cfg :: HelloChainBoost where
  "sample_cfg = \<lparr>SimulationRounds = 61, PercentageTxPay = 30, MCRoundDuration = 30,
     SideChainBlockSize = 1000000, MainChainBlockSize = 1000000, SectorNumber = 2,
     NumberOfPayTXsUpperBound = 100, NumberOfActiveContractsPerServer = 64, SimulationSeed = 100,
     SCRoundDuration = 10, CommitteeWindow = 500, MCRoundPerEpoch = 10, SCRoundPerEpoch = 30,
     NbrSubTrees = 1, Threshold = 334, SimState = 1, StoragePaymentEpoch = 0\<rparr>"

definition sample_nodes :: "TreeNode list" where
  "sample_nodes =
    [\<lparr>nd_ID = 1, nd_Name = ''n1'', nd_Server = ''s1'', nd_IsRoot = True\<rparr>,
     \<lparr>nd_ID = 2, nd_Name = ''n2'', nd_Server = ''s2'', nd_IsRoot = False\<rparr>,
     \<lparr>nd_ID = 3, nd_Name = ''n3'', nd_Server = ''s3'', nd_IsRoot = False\<rparr>]"

definition sample_mcdb :: mcdb where
  "sample_mcdb = snd (InitalizeMainChainDbTables None)"

definition sample_scdb :: scdb where
  "sample_scdb = snd (InitalizeSideChainDbTables None)"

definition sample_bz :: ChainBoost where
  "sample_bz = \<lparr>nodes = sample_nodes, self = hd sample_nodes, roster = [''s1'', ''s2'', ''s3''],
     cfg = sample_cfg, PayPercentOfTransactions = 1 / 50, DoneRootNode = False, HasLeader = False,
     NumMCLeader = 0, MCRoundNumber = 1, SCRoundNumber = 1, wgSyncScRound = 0, wgSyncMcRound = 0,
     FirstQueueWait = 0, SecondQueueWait = 0, SideChainQueueWait = 0, maxFileSize = 100,
     BlockType = ''metablock'', BlsMsg = [], BlsCosiStarted = False, CommitteeNodesTreeNodeID = [],
     NextSideChainLeader = 0, SummPoRTxs = [], SCSig = [], simulationDone = False,
     mc = sample_mcdb, sc = sample_scdb, sent = [], timers = []\<rparr>"

definition sample_world :: world where
  "sample_world = \<lparr>now = 0, sha256hex = (\<lambda>s. s), intn = (\<lambda>k b. (int k + 1) mod b), draws = (\<lambda>k. 0),
     int_of_nonfinite = (\<lambda>x. 0),
     sizesOf = \<lparr>G1ScalarLen = 32, G2PointLen = 128, sizeOfPor = 48, tauLen = (\<lambda>s. 100)\<rparr>,
     sendOk = (\<lambda>i. True)\<rparr>"

end
