(* ===== verification/MainChain.thy ===== *)
theory MainChain
  imports ChainBoost
begin

text \<open>
  \<open>MainChainBlockChain.go\<close>: the root node's operations on the main chain. Each round it adds
  a row to the round table and the new powers (\<open>updateBCPowerRound\<close>), turns the state of the
  service agreements into transactions (\<open>...QueueCollect\<close>), builds the block from the queues
  (\<open>...QueueTake\<close>) and announces the next round (\<open>readBCAndSendtoOthers\<close>). An operation ends in
  the new state or in the fault that stops the process.
\<close>

section \<open>Initialisation\<close>

text \<open>\<open>argvars2\<close>: every server once per contract it holds.\<close>

definition server_column :: "string list \<Rightarrow> int \<Rightarrow> string list" where
  "server_column NodeInfoRow contracts = concat (map (\<lambda>element. replicate (nat contracts) element) NodeInfoRow)"

definition finalMainChainBCInitialization :: "world \<Rightarrow> ChainBoost \<Rightarrow> fault + ChainBoost" where
  "finalMainChainBCInitialization w bz =
    (let NodeInfoRow = roster bz in
     bindR (orFatal (GetMaxMainChain ''MarketMatching'' ''FileSize'' (mc bz))) (\<lambda>maxSize.
     case AddMoreFieldsIntoTableInMainChain ''MarketMatching'' ''ServerInfo''
            (server_column NodeInfoRow (NumberOfActiveContractsPerServer (cfg bz))) (mc bz) of
       (Some e, db) \<Rightarrow> Inl (FatalSql e)
     | (None, db) \<Rightarrow>
         bindR (orPanic (InitialInsertValuesIntoMainChainPowerTable NodeInfoRow db)) (\<lambda>db'.
         Inr (bz\<lparr>mc := db', maxFileSize := f_to_int w maxSize\<rparr>))))"

section \<open>Announcing a round\<close>

definition readBCPowersAndSeed :: "mcdb \<Rightarrow> fault + (string \<rightharpoonup> int) \<times> string" where
  "readBCPowersAndSeed db =
     bindR (orFatal (MainChainGetLastRoundSeed db)) (\<lambda>seed.
     bindR (orFatal (MainChainGetPowerTable db)) (\<lambda>powers. Inr (powers, seed)))"

fun send_new_round :: "world \<Rightarrow> (string \<rightharpoonup> int) \<Rightarrow> string \<Rightarrow> TreeNode list \<Rightarrow> ChainBoost \<Rightarrow> fault + ChainBoost" where
  "send_new_round w powers seed [] bz = Inr bz"
| "send_new_round w powers seed (b # bs) bz =
     (case powers (nd_Server b) of
        Some pw \<Rightarrow>
          if \<not> nd_IsRoot b then
            case SendTo w (nd_ID b) (MsgNewRound \<lparr>nr_Seed = seed, nr_Power = pw,
                                        nr_MaxFileSize = maxFileSize bz\<rparr>) bz of
              None \<Rightarrow> Inl (PanicMsg ''can't send new round msg'')
            | Some bz' \<Rightarrow> send_new_round w powers seed bs bz'
          else send_new_round w powers seed bs bz
      | None \<Rightarrow> send_new_round w powers seed bs bz)"

definition readBCAndSendtoOthers :: "world \<Rightarrow> ChainBoost \<Rightarrow> fault + ChainBoost" where
  "readBCAndSendtoOthers w bz =
    (if MCRoundNumber bz = SimulationRounds (cfg bz)
     then Inr (bz\<lparr>MCRoundNumber := MCRoundNumber bz + 1, DoneRootNode := True\<rparr>)
     else bindR (readBCPowersAndSeed (mc bz)) (\<lambda>(powers, seed).
          bindR (send_new_round w powers seed (nodes bz)
                   (bz\<lparr>MCRoundNumber := MCRoundNumber bz + 1, HasLeader := False\<rparr>)) (\<lambda>bz'.
          Inr (bz'\<lparr>timers := timers bz' @ [MCRoundNumber bz']\<rparr>))))"

section \<open>Powers\<close>

text \<open>
  The map \<open>MinerServers\<close>: the file sizes of the agreements that have not expired, added up per
  server.
\<close>

fun miner_servers :: "int \<Rightarrow> MarketMatchingRows list \<Rightarrow> (string \<times> int) list \<Rightarrow> (string \<times> int) list" where
  "miner_servers mcRound [] m = m"
| "miner_servers mcRound (item # rows) m =
     (if mcRound - StartedMcRoundNumber item \<le> ServerAgrDuration item
      then miner_servers mcRound rows (gmap_add (MinerServer item) (FileSize item) m)
      else miner_servers mcRound rows m)"

text \<open>An error of \<open>MainChainGetLastRoundSeed\<close> is overwritten before it is looked at.\<close>

definition updateBCPowerRound :: "world \<Rightarrow> string \<Rightarrow> ChainBoost \<Rightarrow> fault + ChainBoost" where
  "updateBCPowerRound w LeaderName bz =
    (let seed = (case MainChainGetLastRoundSeed (mc bz) of Inl e \<Rightarrow> '''' | Inr s \<Rightarrow> s);
         nextRoundNumber = MCRoundNumber bz + 1;
         nextSeed = sha256hex w seed
     in bindR (orPanic (InsertIntoMainChainRoundTable nextRoundNumber nextSeed 0 LeaderName 0 0 0 0 0
                 (now w) 0 (Fin 0) (Fin 0) False False False (mc bz))) (\<lambda>db1.
        bindR (orPanicQ (MainChainGetMarketMatchingRows db1)) (\<lambda>rowsMarketMatching.
        bindR (orPanic (MainChainUpdatePowerTable
                 (miner_servers (MCRoundNumber bz) rowsMarketMatching []) db1)) (\<lambda>db2.
        Inr (bz\<lparr>mc := db2\<rparr>)))))"

section \<open>Collecting transactions\<close>

definition first_entry :: "world \<Rightarrow> string \<Rightarrow> u32 \<Rightarrow> int \<Rightarrow> int \<Rightarrow> MainChainFirstQueueEntry" where
  "first_entry w name sz issued servAgrId =
     \<lparr>fq_Name = name, fq_Size = sz, fq_Time = now w, fq_RoundIssued = issued, fq_ServAgrId = servAgrId\<rparr>"

text \<open>The epoch and the issuing round of a PoR that goes to the side chain.\<close>

definition por_epoch :: "ChainBoost \<Rightarrow> int" where
  "por_epoch bz = (if MCRoundNumber bz \<noteq> 1
     then go_quot (MCRoundNumber bz - 2) (MCRoundPerEpoch (cfg bz)) else -1)"

definition por_issued :: "ChainBoost \<Rightarrow> int" where
  "por_issued bz =
    (let issuedRoundNumber = go_rem (SCRoundNumber bz - 1) (SCRoundPerEpoch (cfg bz))
     in if issuedRoundNumber = 0 then SCRoundPerEpoch (cfg bz) else issuedRoundNumber)"

text \<open>
  One iteration over the agreements, \<open>i\<close> the index of the row. The branches read the rows as
  they were before the loop; \<open>(mcF, scF, db)\<close> are the transactions collected so far for the two
  chains and the database.
\<close>

definition collect_row ::
    "world \<Rightarrow> ChainBoost \<Rightarrow> nat \<Rightarrow> MarketMatchingRows \<Rightarrow>
     MainChainFirstQueueEntry list \<times> SideChainFirstQueueEntry list \<times> mcdb \<Rightarrow>
     fault + (MainChainFirstQueueEntry list \<times> SideChainFirstQueueEntry list \<times> mcdb)" where
  "collect_row w bz i row acc =
    (let (mcF, scF, db) = acc;
         sz = TransactionMeasurement (sizesOf w) (SectorNumber (cfg bz));
         r = MCRoundNumber bz; agr = int i + 1
     in if \<not> Published row \<and> \<not> TxIssued row then
          bindR (orPanic (MainChainSetTxIssued (i + 1) True db)) (\<lambda>db'.
          Inr (mcF @ [first_entry w ''TxServAgrPropose'' (ServAgrProposeTxSize sz) r agr,
                      first_entry w ''TxServAgrCommit'' (ServAgrCommitTxSize sz) r agr], scF, db'))
        else if r - StartedMcRoundNumber row > ServerAgrDuration row \<and> Published row \<and> TxIssued row then
          (if StoragePaymentEpoch (cfg bz) \<noteq> 0 then
             bindR (orPanic (MainChainSetPublished (i + 1) False db)) (\<lambda>db'.
             bindR (orPanic (MainChainSetTxIssued (i + 1) False db')) (\<lambda>db''.
             Inr (mcF, scF, db'')))
           else
             bindR (orPanic (MainChainSetPublished (i + 1) False db)) (\<lambda>db'.
             bindR (orPanic (MainChainSetTxIssued (i + 1) False db')) (\<lambda>db''.
             Inr (mcF @ [first_entry w ''TxStoragePayment'' (StoragePayTxSize sz) r agr], scF, db''))))
        else if Published row \<and> r - StartedMcRoundNumber row \<le> ServerAgrDuration row \<and> SimState (cfg bz) = 1 then
          Inr (mcF @ [first_entry w ''TxPor'' (PorTxSize sz) r agr], scF, db)
        else if Published row \<and> r - StartedMcRoundNumber row \<le> ServerAgrDuration row \<and> SimState (cfg bz) = 2 then
          (if (r \<noteq> 1 \<and> MCRoundPerEpoch (cfg bz) = 0) \<or> SCRoundPerEpoch (cfg bz) = 0 then Inl DivPanic
           else Inr (mcF, scF @ [\<lparr>scq_Name = ''TxPor'', scq_Size = uint (PorTxSize sz), scq_Time = now w,
                   scq_IssuedScRoundNumber = por_issued bz, scq_ServAgrId = agr, scq_Epoch = por_epoch bz\<rparr>], db))
        else Inr (mcF, scF, db))"

fun collect_rows ::
    "world \<Rightarrow> ChainBoost \<Rightarrow> nat \<Rightarrow> MarketMatchingRows list \<Rightarrow>
     MainChainFirstQueueEntry list \<times> SideChainFirstQueueEntry list \<times> mcdb \<Rightarrow>
     fault + (MainChainFirstQueueEntry list \<times> SideChainFirstQueueEntry list \<times> mcdb)" where
  "collect_rows w bz i [] acc = Inr acc"
| "collect_rows w bz i (row # rows) acc =
     bindR (collect_row w bz i row acc) (\<lambda>acc'. collect_rows w bz (Suc i) rows acc')"

text \<open>
  \<open>for numberOfRegPay == 0 { numberOfRegPay = rand.Intn(bound) }\<close>: draws until one is not 0. None
  is the loop that does not end.
\<close>

partial_function (option) reg_pay_loop :: "(nat \<Rightarrow> int \<Rightarrow> int) \<Rightarrow> int \<Rightarrow> nat \<Rightarrow> int option" where
  "reg_pay_loop draw bound k =
     (if draw k bound = 0 then reg_pay_loop draw bound (Suc k) else Some (draw k bound))"

definition number_of_reg_pay :: "world \<Rightarrow> ChainBoost \<Rightarrow> int \<Rightarrow> fault + int" where
  "number_of_reg_pay w bz totalNonPayTx =
    (let pct = PayPercentOfTransactions bz; bound = NumberOfPayTXsUpperBound (cfg bz) in
     if pct = 0 \<or> pct > 1 then
       (if bound \<le> 0 then Inl (PanicMsg ''invalid argument to Intn'')
        else case reg_pay_loop (intn w) bound 0 of None \<Rightarrow> Inl Loops | Some n \<Rightarrow> Inr n)
     else Inr (f_to_int w (f_div (Fin (pct * of_int totalNonPayTx)) (Fin (1 - pct)))))"

definition updateMainChainBCTransactionQueueCollect :: "world \<Rightarrow> ChainBoost \<Rightarrow> fault + ChainBoost" where
  "updateMainChainBCTransactionQueueCollect w bz =
     bindR (orFatal (MainChainGetMarketMatchingRows (mc bz))) (\<lambda>rowsMarketMatching.
     bindR (collect_rows w bz 0 rowsMarketMatching ([], [], mc bz)) (\<lambda>(mcF, scF, db).
     bindR (batched BulkInsertIntoMainChainFirstQueue mcF db) (\<lambda>db1.
     bindR (batched BulkInsertIntoSideChainFirstQueue scF (sc bz)) (\<lambda>scdb1.
     bindR (number_of_reg_pay w bz (int (length mcF) + int (length scF))) (\<lambda>numberOfRegPay.
     let sz = TransactionMeasurement (sizesOf w) (SectorNumber (cfg bz));
         secF = replicate (nat numberOfRegPay)
                  \<lparr>sq_Time = now w, sq_Size = PayTxSize sz, sq_RoundIssued = MCRoundNumber bz\<rparr>
     in Inr (bz\<lparr>mc := batched_ignoring BulkInsertIntoMainChainSecondQueue secF db1, sc := scdb1\<rparr>))))))"

section \<open>Building a block\<close>

text \<open>The regular payments: rows are taken while they fit into their share of the block.\<close>

record SecondTake =
  s_size :: int
  s_wait :: int
  s_last :: nat
  s_count :: int
  s_full :: bool

fun take_second :: "int \<Rightarrow> int \<Rightarrow> (nat \<times> MainChainSecondQueueEntry) list \<Rightarrow> SecondTake \<Rightarrow> SecondTake" where
  "take_second share mcRound [] st = st"
| "take_second share mcRound ((rowid, out) # rows) st =
     (if 100 * (s_size st + uint (sq_Size out)) \<le> share
      then take_second share mcRound rows
             \<lparr>s_size = s_size st + uint (sq_Size out),
              s_wait = s_wait st + mcRound - sq_RoundIssued out,
              s_last = rowid, s_count = s_count st + 1, s_full = s_full st\<rparr>
      else st\<lparr>s_full := True\<rparr>)"

text \<open>The other transactions; a commit activates its agreement.\<close>

record FirstTake =
  f_size :: int
  f_wait :: int
  f_last :: nat
  f_por :: int
  f_stor :: int
  f_prop :: int
  f_commit :: int
  f_sync :: int
  f_scpor :: int
  f_full :: bool
  f_db :: mcdb

definition take_first_tx :: "int \<Rightarrow> int \<Rightarrow> MainChainFirstQueueEntry \<Rightarrow> FirstTake \<Rightarrow> fault + FirstTake" where
  "take_first_tx simState mcRound out st =
    (if fq_Name out = ''TxServAgrCommit'' then
       bindR (orPanic (MainChainSetPublishedAndStartRoundOnServAgrId (fq_ServAgrId out) True mcRound (f_db st)))
         (\<lambda>db. Inr (st\<lparr>f_db := db, f_commit := f_commit st + 1\<rparr>))
     else if fq_Name out = ''TxStoragePayment'' then Inr (st\<lparr>f_stor := f_stor st + 1\<rparr>)
     else if fq_Name out = ''TxPor'' then
       Inr (if simState = 1 then st\<lparr>f_por := f_por st + 1\<rparr> else st)
     else if fq_Name out = ''TxServAgrPropose'' then Inr (st\<lparr>f_prop := f_prop st + 1\<rparr>)
     else if fq_Name out = ''TxSync'' then
       Inr (st\<lparr>f_sync := f_sync st + 1, f_scpor := f_scpor st + fq_ServAgrId out\<rparr>)
     else Inl (PanicMsg ''the type of transaction in the queue is un-defined''))"

fun take_first :: "int \<Rightarrow> int \<Rightarrow> int \<Rightarrow> (nat \<times> MainChainFirstQueueEntry) list \<Rightarrow> FirstTake \<Rightarrow> fault + FirstTake" where
  "take_first share simState mcRound [] st = Inr st"
| "take_first share simState mcRound ((rowid, out) # rows) st =
     (if f_size st + uint (fq_Size out) \<le> share
      then bindR (take_first_tx simState mcRound out (st\<lparr>f_size := f_size st + uint (fq_Size out)\<rparr>))
             (\<lambda>st'. take_first share simState mcRound rows
                (st'\<lparr>f_wait := f_wait st' + mcRound - fq_RoundIssued out, f_last := rowid\<rparr>))
      else bindR (orPanic (AddToRoundTableBasedOnRoundNumber ''BlockSpaceFull'' True mcRound (f_db st)))
             (\<lambda>db. Inr (st\<lparr>f_full := True, f_db := db\<rparr>)))"

text \<open>The first phase: the second queue.\<close>

definition takeSecondQueue :: "ChainBoost \<Rightarrow> SecondTake \<times> mcdb" where
  "takeSecondQueue bz =
    (let regPayTxShare = PercentageTxPay (cfg bz) * (MainChainBlockSize (cfg bz) - BlockMeasurement);
         st = take_second regPayTxShare (MCRoundNumber bz) (MainChainGetSecondQueue (mc bz))
                \<lparr>s_size = 0, s_wait = 0, s_last = 0, s_count = 0, s_full = False\<rparr>;
         db1 = (if s_full st
                then snd (AddToRoundTableBasedOnRoundNumber ''RegSpaceFull'' True (MCRoundNumber bz) (mc bz))
                else mc bz)
     in (st, snd (MainChainDeleteFromSecondQueue (s_last st) db1)))"

text \<open>The second phase: one sync transaction, then the first queue.\<close>

definition takeFirstQueue :: "ChainBoost \<Rightarrow> int \<Rightarrow> mcdb \<Rightarrow> fault + FirstTake" where
  "takeFirstQueue bz otherTxsShare db =
    (let ((tx, truth), db1) = MainChainPopFromSyncTxQueue db;
         st0 = \<lparr>f_size = (case tx of None \<Rightarrow> 0 | Some t \<Rightarrow> uint (fq_Size t)), f_wait = 0, f_last = 0,
                f_por = 0, f_stor = 0, f_prop = 0, f_commit = 0,
                f_sync = (case tx of None \<Rightarrow> 0 | Some t \<Rightarrow> 1),
                f_scpor = (case tx of None \<Rightarrow> 0 | Some t \<Rightarrow> fq_ServAgrId t),
                f_full = False, f_db = db1\<rparr>
     in bindR (take_first otherTxsShare (SimState (cfg bz)) (MCRoundNumber bz) (MainChainGetFirstQueue db1) st0)
          (\<lambda>st. bindR (orPanic (MainChainDeleteFromFirstQueue (f_last st) (f_db st)))
             (\<lambda>db2. Inr (st\<lparr>f_db := db2\<rparr>))))"

text \<open>The figures of the round, and the running totals.\<close>

definition orZero :: "sql_error + f64 \<Rightarrow> f64" where
  "orZero r = (case r of Inl e \<Rightarrow> Fin 0 | Inr x \<Rightarrow> x)"

definition recordRoundStats :: "int \<Rightarrow> SecondTake \<Rightarrow> FirstTake \<Rightarrow> mcdb \<Rightarrow> sql_error option \<times> mcdb" where
  "recordRoundStats mcRound st2 st1 db =
    (let TotalNumTxsInBothQueue =
           f_por st1 + f_stor st1 + f_prop st1 + f_commit st1 + s_count st2 + f_sync st1;
         TotalNumTxsInFirstQueue = f_por st1 + f_stor st1 + f_prop st1 + f_commit st1;
         avg1stWaitQueue = (if TotalNumTxsInFirstQueue \<noteq> 0
           then f_div (f_of_int (f_wait st1)) (f_of_int TotalNumTxsInFirstQueue) else Fin 0);
         avg2ndWaitQueue = (if s_count st2 \<noteq> 0
           then f_div (f_of_int (s_wait st2)) (f_of_int (s_count st2)) else Fin 0);
         ConfirmationTime = f_div (f_of_int (f_wait st1 + s_wait st2)) (f_of_int TotalNumTxsInBothQueue);
         BlockSize = f_size st1 + s_size st2 + BlockMeasurement
     in AddStatsToRoundTableBasedOnRoundNumber BlockSize (s_count st2) (f_por st1) (f_stor st1)
          (f_prop st1) (f_commit st1) TotalNumTxsInBothQueue avg1stWaitQueue avg2ndWaitQueue
          (f_sync st1) (f_scpor st1) ConfirmationTime mcRound db)"

definition recordOverall :: "int \<Rightarrow> mcdb \<Rightarrow> fault + mcdb" where
  "recordOverall mcRound db =
     bindR (orPanicQ (GetSumMainChain ''RoundTable'' ''BCSize'' db)) (\<lambda>SumBCSize.
     let s = (\<lambda>column. orZero (GetSumMainChain ''RoundTable'' column db));
         a = (\<lambda>column. orZero (GetAvgMainChain ''RoundTable'' column db))
     in orPanic (InsertIntoMainChainOverallEvaluationTable mcRound SumBCSize (s ''RegPayTx'') (s ''PoRTx'')
          (s ''StorjPayTx'') (s ''CntPropTx'') (s ''CntCmtTx'') (a ''AveWaitOtherTxs'')
          (a ''AveWaitRegPay'') 0 db))"

definition updateMainChainBCTransactionQueueTake :: "ChainBoost \<Rightarrow> fault + ChainBoost" where
  "updateMainChainBCTransactionQueueTake bz =
    (let (st2, db1) = takeSecondQueue bz;
         otherTxsShare = MainChainBlockSize (cfg bz) - BlockMeasurement - s_size st2
     in bindR (takeFirstQueue bz otherTxsShare db1) (\<lambda>st1.
        bindR (orPanic (recordRoundStats (MCRoundNumber bz) st2 st1 (f_db st1))) (\<lambda>db2.
        bindR (recordOverall (MCRoundNumber bz) db2) (\<lambda>db3.
        Inr (bz\<lparr>mc := db3, FirstQueueWait := f_wait st1, SecondQueueWait := s_wait st2\<rparr>)))))"

section \<open>Transactions issued at the end of an epoch\<close>

definition syncMainChainBCTransactionQueueCollect :: "world \<Rightarrow> ChainBoost \<Rightarrow> fault + ChainBoost \<times> int" where
  "syncMainChainBCTransactionQueueCollect w bz =
    (let totalPoR = gmap_total (SummPoRTxs bz);
         SummTxNum = int (length (filter (\<lambda>(i, v). v \<noteq> 0) (SummPoRTxs bz)));
         SummaryBlockSizeMinusTransactions = fst SCBlockMeasurement + len (SCSig bz);
         SummTxsSizeInSummBlock = SCSummaryTxMeasurement (draws w) SummTxNum;
         blocksize = SummaryBlockSizeMinusTransactions + SummTxsSizeInSummBlock;
         SyncTxSize = SummTxsSizeInSummBlock
     in bindR (orPanic (InsertIntoMainChainSyncTxQueue ''TxSync'' (word_of_int SyncTxSize) (now w)
                 (MCRoundNumber bz) totalPoR (mc bz))) (\<lambda>db.
        Inr (bz\<lparr>mc := db, SummPoRTxs := map (\<lambda>(i, v). (i, 0)) (SummPoRTxs bz)\<rparr>, blocksize)))"

text \<open>One payment per server and contract; the agreement id is the server's index plus one.\<close>

definition storage_payments :: "world \<Rightarrow> ChainBoost \<Rightarrow> MainChainFirstQueueEntry list" where
  "storage_payments w bz =
     concat (map (\<lambda>i. replicate (nat (NumberOfActiveContractsPerServer (cfg bz)))
               (first_entry w ''TxStoragePayment''
                  (StoragePayTxSize (TransactionMeasurement (sizesOf w) (SectorNumber (cfg bz))))
                  (MCRoundNumber bz) (int i + 1)))
             [0..<length (roster bz)])"

definition StoragePaymentMainChainBCTransactionQueueCollect :: "world \<Rightarrow> ChainBoost \<Rightarrow> fault + ChainBoost" where
  "StoragePaymentMainChainBCTransactionQueueCollect w bz =
     bindR (batched BulkInsertIntoMainChainFirstQueue (storage_payments w bz) (mc bz))
       (\<lambda>db. Inr (bz\<lparr>mc := db\<rparr>))"

end
