(* ===== verification/MainChainCollect.thy ===== *)
theory MainChainCollect
  imports MainChain
begin

text \<open>
  What \<open>updateMainChainBCTransactionQueueCollect\<close> does: each agreement moves one step in its life
  cycle and issues its transactions, which go to the ends of the queues in the order of the
  agreements; and when the draw of the number of payments returns.
\<close>

section \<open>Agreements\<close>

text \<open>
  The agreements are the rows 1 to n of \<open>MarketMatching\<close>; the code refers to an agreement by its
  index in the scan plus one, by its rowid and by its \<open>ServerAgrId\<close>, which are all the same.
\<close>

definition market_ok :: "MarketMatchingRow table \<Rightarrow> bool" where
  "market_ok t \<longleftrightarrow> map fst t = [1..<Suc (length t)] \<and>
     (\<forall>(i, row) \<in> set t. mm_ServAgrId row = int i \<and> mm_ServerInfo row \<noteq> None \<and>
        (mm_Published row \<longrightarrow> mm_TxIssued row))"

definition is_idle :: "MarketMatchingRow \<Rightarrow> bool" where
  "is_idle row \<longleftrightarrow> \<not> mm_Published row \<and> \<not> mm_TxIssued row"

definition is_proposed :: "MarketMatchingRow \<Rightarrow> bool" where
  "is_proposed row \<longleftrightarrow> \<not> mm_Published row \<and> mm_TxIssued row"

definition is_expired :: "int \<Rightarrow> MarketMatchingRow \<Rightarrow> bool" where
  "is_expired r row \<longleftrightarrow> mm_Published row \<and> mm_TxIssued row \<and> mm_ServAgrDuration row < r - mm_StartedMcRoundNumber row"

definition is_serving :: "int \<Rightarrow> MarketMatchingRow \<Rightarrow> bool" where
  "is_serving r row \<longleftrightarrow> mm_Published row \<and> r - mm_StartedMcRoundNumber row \<le> mm_ServAgrDuration row"

text \<open>What one agreement becomes and issues in a round.\<close>

definition agr_next :: "int \<Rightarrow> MarketMatchingRow \<Rightarrow> MarketMatchingRow" where
  "agr_next r row = (if is_idle row then row\<lparr>mm_TxIssued := True\<rparr>
     else if is_expired r row then row\<lparr>mm_Published := False, mm_TxIssued := False\<rparr> else row)"

definition agr_mc_txs :: "world \<Rightarrow> ChainBoost \<Rightarrow> nat \<times> MarketMatchingRow \<Rightarrow> MainChainFirstQueueEntry list" where
  "agr_mc_txs w bz ir =
    (let (i, row) = ir; r = MCRoundNumber bz;
         sz = TransactionMeasurement (sizesOf w) (SectorNumber (cfg bz))
     in if is_idle row then
          [first_entry w ''TxServAgrPropose'' (ServAgrProposeTxSize sz) r (int i),
           first_entry w ''TxServAgrCommit'' (ServAgrCommitTxSize sz) r (int i)]
        else if is_expired r row then
          (if StoragePaymentEpoch (cfg bz) = 0
           then [first_entry w ''TxStoragePayment'' (StoragePayTxSize sz) r (int i)] else [])
        else if is_serving r row \<and> SimState (cfg bz) = 1 then
          [first_entry w ''TxPor'' (PorTxSize sz) r (int i)]
        else [])"

definition agr_sc_txs :: "world \<Rightarrow> ChainBoost \<Rightarrow> nat \<times> MarketMatchingRow \<Rightarrow> SideChainFirstQueueEntry list" where
  "agr_sc_txs w bz ir =
    (let (i, row) = ir in
     if is_serving (MCRoundNumber bz) row \<and> SimState (cfg bz) = 2 then
       [\<lparr>scq_Name = ''TxPor'',
         scq_Size = uint (PorTxSize (TransactionMeasurement (sizesOf w) (SectorNumber (cfg bz)))),
         scq_Time = now w, scq_IssuedScRoundNumber = por_issued bz, scq_ServAgrId = int i,
         scq_Epoch = por_epoch bz\<rparr>]
     else [])"

definition collect_divides :: "ChainBoost \<Rightarrow> bool" where
  "collect_divides bz \<longleftrightarrow> SimState (cfg bz) = 2 \<longrightarrow> MCRoundPerEpoch (cfg bz) \<noteq> 0 \<and> SCRoundPerEpoch (cfg bz) \<noteq> 0"

lemma update_rowid:
  "map fst (pre @ (i, row) # post) = [1..<Suc (length (pre @ (i, row) # post))] \<Longrightarrow>
   tbl_update (\<lambda>j r. j = i) f (pre @ (i, row) # post) = pre @ (i, f row) # post"
proof -
  assume "map fst (pre @ (i, row) # post) = [1..<Suc (length (pre @ (i, row) # post))]"
  then have "distinct (map fst (pre @ (i, row) # post))" by (simp only: distinct_upt)
  then have "\<forall>(j, r) \<in> set pre. j \<noteq> i" "\<forall>(j, r) \<in> set post. j \<noteq> i" by force+
  then have "tbl_update (\<lambda>j r. j = i) f pre = pre" "tbl_update (\<lambda>j r. j = i) f post = post"
    by (auto simp: tbl_update_def intro!: map_idI)
  then show ?thesis by (simp add: tbl_update_def)
qed

lemma rowid_of_split:
  "map fst (pre @ (i, row) # post) = [1..<Suc (length (pre @ (i, row) # post))] \<Longrightarrow> i = Suc (length pre)"
proof -
  assume a: "map fst (pre @ (i, row) # post) = [1..<Suc (length (pre @ (i, row) # post))]"
  have "map fst (pre @ (i, row) # post) ! length pre = i" by (simp add: nth_append)
  then show ?thesis unfolding a by (simp add: nth_upt del: upt_Suc)
qed

lemma collect_row_closed:
  assumes "map fst (pre @ (i, row) # post) = [1..<Suc (length (pre @ (i, row) # post))]"
    and "MarketMatching db = pre @ (i, row) # post" and "collect_divides bz"
    and "item = \<lparr>MinerServer = s, FileSize = mm_FileSize row, ServerAgrDuration = mm_ServAgrDuration row,
           StartedMcRoundNumber = mm_StartedMcRoundNumber row, Published = mm_Published row,
           TxIssued = mm_TxIssued row\<rparr>"
  shows "collect_row w bz (length pre) item (mcF, scF, db) =
    Inr (mcF @ agr_mc_txs w bz (i, row), scF @ agr_sc_txs w bz (i, row),
         db\<lparr>MarketMatching := pre @ (i, agr_next (MCRoundNumber bz) row) # post\<rparr>)"
proof -
  note i = rowid_of_split [OF assms(1)]
  have upd: "tbl_update (\<lambda>j r. j = Suc (length pre)) f (pre @ (Suc (length pre), row') # post) =
      pre @ (Suc (length pre), f row') # post" for f row'
    using update_rowid [of pre i row' post] assms(1) by (simp add: i)
  note defs = collect_row_def assms(2,4) agr_next_def agr_mc_txs_def agr_sc_txs_def Let_def is_idle_def
    is_expired_def is_serving_def MainChainSetTxIssued_def MainChainSetPublished_def
  have same: "db\<lparr>MarketMatching := pre @ (Suc (length pre), row) # post\<rparr> = db"
    using assms(2) i by simp
  consider "is_idle row" | "is_expired (MCRoundNumber bz) row"
    | "\<not> is_idle row" "\<not> is_expired (MCRoundNumber bz) row" "SimState (cfg bz) = 2" "is_serving (MCRoundNumber bz) row"
    | "\<not> is_idle row" "\<not> is_expired (MCRoundNumber bz) row" "\<not> (SimState (cfg bz) = 2 \<and> is_serving (MCRoundNumber bz) row)"
    by blast
  then show ?thesis
  proof cases
    case 1
    then show ?thesis by (simp add: defs upd i add.commute)
  next
    case 2
    then show ?thesis by (simp add: defs upd i add.commute)
  next
    case 3
    then show ?thesis using assms(3) by (simp add: defs i same collect_divides_def not_less add.commute)
  next
    case 4
    then show ?thesis by (simp add: defs i same add.commute) linarith
  qed
qed

lemma collect_rows_closed:
  assumes "map fst (pre @ post) = [1..<Suc (length (pre @ post))]"
    and "MarketMatching db = pre @ post" and "scan_market post = Inr items" and "collect_divides bz"
  shows "collect_rows w bz (length pre) items (mcF, scF, db) =
    Inr (mcF @ concat (map (agr_mc_txs w bz) post), scF @ concat (map (agr_sc_txs w bz) post),
         db\<lparr>MarketMatching := pre @ map (\<lambda>(i, row). (i, agr_next (MCRoundNumber bz) row)) post\<rparr>)"
  using assms
proof (induction post arbitrary: pre items mcF scF db)
  case Nil
  then show ?case by simp
next
  case (Cons p post)
  obtain i row where p: "p = (i, row)" by (cases p)
  from Cons.prems(3) obtain s rest where items: "scan_market post = Inr rest" and
    it: "items = \<lparr>MinerServer = s, FileSize = mm_FileSize row, ServerAgrDuration = mm_ServAgrDuration row,
           StartedMcRoundNumber = mm_StartedMcRoundNumber row, Published = mm_Published row,
           TxIssued = mm_TxIssued row\<rparr> # rest"
    by (auto simp: p bindR_Inr_iff split: option.splits)
  let ?row' = "agr_next (MCRoundNumber bz) row"
  let ?db = "db\<lparr>MarketMatching := pre @ (i, ?row') # post\<rparr>"
  have one: "collect_row w bz (length pre) (hd items) (mcF, scF, db) =
      Inr (mcF @ agr_mc_txs w bz (i, row), scF @ agr_sc_txs w bz (i, row), ?db)"
    using Cons.prems by (intro collect_row_closed) (simp_all add: p it)
  have "collect_rows w bz (length (pre @ [(i, ?row')])) rest
      (mcF @ agr_mc_txs w bz (i, row), scF @ agr_sc_txs w bz (i, row), ?db) =
    Inr ((mcF @ agr_mc_txs w bz (i, row)) @ concat (map (agr_mc_txs w bz) post),
         (scF @ agr_sc_txs w bz (i, row)) @ concat (map (agr_sc_txs w bz) post),
         ?db\<lparr>MarketMatching := (pre @ [(i, ?row')]) @ map (\<lambda>(i, row). (i, agr_next (MCRoundNumber bz) row)) post\<rparr>)"
    using Cons.prems items by (intro Cons.IH) (simp_all add: p)
  with one show ?case by (simp add: it p)
qed

lemma scan_market_ok: "\<forall>(i, row) \<in> set t. mm_ServerInfo row \<noteq> None \<Longrightarrow> \<exists>items. scan_market t = Inr items"
  by (induction t) auto

section \<open>The payments\<close>

lemma reg_pay_loop_Some:
  assumes "reg_pay_loop draw bound k = Some n"
  shows "\<exists>j \<ge> k. draw j bound = n \<and> n \<noteq> 0"
proof (rule reg_pay_loop.raw_induct [OF _ assms])
  fix loop :: "(nat \<Rightarrow> int \<Rightarrow> int) \<Rightarrow> int \<Rightarrow> nat \<Rightarrow> int option" and draw bound k n
  assume IH: "\<And>draw bound k n. loop draw bound k = Some n \<Longrightarrow> \<exists>j \<ge> k. draw j bound = n \<and> n \<noteq> 0"
    and body: "(if draw k bound = 0 then loop draw bound (Suc k) else Some (draw k bound)) = Some n"
  show "\<exists>j \<ge> k. draw j bound = n \<and> n \<noteq> 0"
  proof (cases "draw k bound = 0")
    case True
    with body IH [of draw bound "Suc k" n] show ?thesis by (auto dest: Suc_leD)
  next
    case False
    with body show ?thesis by auto
  qed
qed

lemma reg_pay_loop_found:
  assumes "k \<le> j" and "draw j bound \<noteq> 0"
  shows "\<exists>n. reg_pay_loop draw bound k = Some n"
  using assms
proof (induction "j - k" arbitrary: k)
  case 0
  then have "k = j" by simp
  with assms(2) show ?case by (simp add: reg_pay_loop.simps)
next
  case (Suc d)
  then have "\<exists>n. reg_pay_loop draw bound (Suc k) = Some n" by simp
  then show ?case by (cases "draw k bound = 0") (auto simp: reg_pay_loop.simps [of draw bound k])
qed

lemma reg_pay_loop_None_iff: "reg_pay_loop draw bound k = None \<longleftrightarrow> (\<forall>j \<ge> k. draw j bound = 0)"
  by (metis not_None_eq reg_pay_loop_Some reg_pay_loop_found)

section \<open>Collecting\<close>

definition reg_pay_entries :: "world \<Rightarrow> ChainBoost \<Rightarrow> int \<Rightarrow> MainChainSecondQueueEntry list" where
  "reg_pay_entries w bz n = replicate (nat n)
     \<lparr>sq_Time = now w, sq_Size = PayTxSize (TransactionMeasurement (sizesOf w) (SectorNumber (cfg bz))),
      sq_RoundIssued = MCRoundNumber bz\<rparr>"

definition mc_txs :: "world \<Rightarrow> ChainBoost \<Rightarrow> MainChainFirstQueueEntry list" where
  "mc_txs w bz = concat (map (agr_mc_txs w bz) (MarketMatching (mc bz)))"

definition sc_txs :: "world \<Rightarrow> ChainBoost \<Rightarrow> SideChainFirstQueueEntry list" where
  "sc_txs w bz = concat (map (agr_sc_txs w bz) (MarketMatching (mc bz)))"

definition after_collect :: "world \<Rightarrow> ChainBoost \<Rightarrow> int \<Rightarrow> ChainBoost" where
  "after_collect w bz n = bz\<lparr>
     mc := (mc bz)\<lparr>
       MarketMatching := map (\<lambda>(i, row). (i, agr_next (MCRoundNumber bz) row)) (MarketMatching (mc bz)),
       FirstQueue := tbl_insert_all (mc_txs w bz) (FirstQueue (mc bz)),
       SecondQueue := tbl_insert_all (reg_pay_entries w bz n) (SecondQueue (mc bz))\<rparr>,
     sc := (sc bz)\<lparr>ScFirstQueue := tbl_insert_all (sc_txs w bz) (ScFirstQueue (sc bz))\<rparr>\<rparr>"

lemma collect_unfold:
  assumes "market_ok (MarketMatching (mc bz))" and "collect_divides bz"
  shows "updateMainChainBCTransactionQueueCollect w bz =
    bindR (number_of_reg_pay w bz (int (length (mc_txs w bz)) + int (length (sc_txs w bz))))
      (\<lambda>n. Inr (after_collect w bz n))"
proof -
  let ?t = "MarketMatching (mc bz)"
  from assms(1) have "\<forall>(i, row) \<in> set ?t. mm_ServerInfo row \<noteq> None" by (auto simp: market_ok_def)
  from scan_market_ok [OF this] obtain items where items: "scan_market ?t = Inr items" by blast
  have rows: "collect_rows w bz 0 items ([], [], mc bz) = Inr (mc_txs w bz, sc_txs w bz,
      (mc bz)\<lparr>MarketMatching := map (\<lambda>(i, row). (i, agr_next (MCRoundNumber bz) row)) ?t\<rparr>)"
    using collect_rows_closed [of "[]" ?t "mc bz" items bz w "[]" "[]"] assms items
    by (simp add: market_ok_def mc_txs_def sc_txs_def)
  show ?thesis
    unfolding updateMainChainBCTransactionQueueCollect_def MainChainGetMarketMatchingRows_def items
    by (simp add: rows mc_first.batched_put sc_first.batched_put mc_second.batched_ignoring_put Let_def
        after_collect_def reg_pay_entries_def)
qed

lemma collect_Inr:
  assumes "market_ok (MarketMatching (mc bz))" and "collect_divides bz"
    and "updateMainChainBCTransactionQueueCollect w bz = Inr bz'"
  shows "\<exists>n. number_of_reg_pay w bz (int (length (mc_txs w bz)) + int (length (sc_txs w bz))) = Inr n \<and>
    bz' = after_collect w bz n"
  using assms(3) unfolding collect_unfold [OF assms(1,2)] by (auto simp: bindR_Inr_iff)


section \<open>The result\<close>

text \<open>
  C25: collecting moves every agreement one step in its life cycle, appends the transactions
  of the agreements to the two queues in the order of the agreements, and appends regular payments
  to the second queue.
\<close>

theorem collect_spec:
  assumes "market_ok (MarketMatching (mc bz))" and "collect_divides bz"
    and "updateMainChainBCTransactionQueueCollect w bz = Inr bz'"
  shows "MarketMatching (mc bz') = map (\<lambda>(i, row). (i, agr_next (MCRoundNumber bz) row)) (MarketMatching (mc bz))
    \<and> map snd (FirstQueue (mc bz')) = map snd (FirstQueue (mc bz)) @ concat (map (agr_mc_txs w bz) (MarketMatching (mc bz)))
    \<and> map snd (ScFirstQueue (sc bz')) = map snd (ScFirstQueue (sc bz)) @ concat (map (agr_sc_txs w bz) (MarketMatching (mc bz)))
    \<and> (\<exists>n. map snd (SecondQueue (mc bz')) = map snd (SecondQueue (mc bz)) @ replicate n
         \<lparr>sq_Time = now w, sq_Size = 398, sq_RoundIssued = MCRoundNumber bz\<rparr>)"
  using collect_Inr [OF assms]
  by (auto simp: after_collect_def mc_txs_def sc_txs_def reg_pay_entries_def PayTxSize_value)

definition sample_collect :: "rat \<Rightarrow> int \<Rightarrow> ChainBoost" where
  "sample_collect pct bound = sample_bz\<lparr>PayPercentOfTransactions := pct, MCRoundNumber := 50,
     cfg := sample_cfg\<lparr>NumberOfPayTXsUpperBound := bound\<rparr>,
     mc := sample_mcdb\<lparr>MarketMatching :=
       [(1, \<lparr>mm_ServerInfo = Some ''s1'', mm_FileSize = 115, mm_ServAgrDuration = 40,
             mm_StartedMcRoundNumber = 0, mm_ServAgrId = 1, mm_Published = True, mm_TxIssued = True\<rparr>),
        (2, \<lparr>mm_ServerInfo = Some ''s1'', mm_FileSize = 115, mm_ServAgrDuration = 40,
             mm_StartedMcRoundNumber = 0, mm_ServAgrId = 2, mm_Published = False, mm_TxIssued = False\<rparr>)]\<rparr>\<rparr>"

lemma sample_collect_ok: "market_ok (MarketMatching (mc (sample_collect p b)))" "collect_divides (sample_collect p b)"
  by (simp_all add: sample_collect_def market_ok_def collect_divides_def sample_bz_def sample_cfg_def)

theorem collect_spec_witness:
  "\<exists>bz'. updateMainChainBCTransactionQueueCollect sample_world (sample_collect (1/50) 100) = Inr bz' \<and>
     map fq_Name (map snd (FirstQueue (mc bz'))) = [''TxStoragePayment'', ''TxServAgrPropose'', ''TxServAgrCommit'']"
proof -
  obtain n where "number_of_reg_pay sample_world (sample_collect (1/50) 100)
      (int (length (mc_txs sample_world (sample_collect (1/50) 100))) +
       int (length (sc_txs sample_world (sample_collect (1/50) 100)))) = Inr n"
    by (simp add: number_of_reg_pay_def sample_collect_def Let_def)
  then have c: "updateMainChainBCTransactionQueueCollect sample_world (sample_collect (1/50) 100) =
      Inr (after_collect sample_world (sample_collect (1/50) 100) n)"
    by (simp add: collect_unfold [OF sample_collect_ok])
  have txs: "map snd (FirstQueue (mc (after_collect sample_world (sample_collect (1/50) 100) n))) =
      concat (map (agr_mc_txs sample_world (sample_collect (1/50) 100))
        (MarketMatching (mc (sample_collect (1/50) 100))))"
    using collect_spec [OF sample_collect_ok c]
    by (simp add: sample_collect_def sample_mcdb_def InitalizeMainChainDbTables_def)
  have "map fq_Name (concat (map (agr_mc_txs sample_world (sample_collect (1/50) 100))
      (MarketMatching (mc (sample_collect (1/50) 100))))) = [''TxStoragePayment'', ''TxServAgrPropose'', ''TxServAgrCommit'']"
    by (simp add: sample_collect_def sample_bz_def sample_cfg_def agr_mc_txs_def is_idle_def is_expired_def
        first_entry_def Let_def)
  with c txs show ?thesis
    by (intro exI [of _ "after_collect sample_world (sample_collect (1/50) 100) n"] conjI) (simp_all only: txs)
qed

text \<open>
  when the number of payments is drawn, collecting never returns exactly if every draw is
  0, as it is for a bound of 1; otherwise it returns.
\<close>

theorem collect_returns_iff:
  assumes "market_ok (MarketMatching (mc bz))" and "collect_divides bz"
    and "PayPercentOfTransactions bz = 0 \<or> 1 < PayPercentOfTransactions bz"
    and "0 < NumberOfPayTXsUpperBound (cfg bz)"
  shows "(updateMainChainBCTransactionQueueCollect w bz = Inl Loops \<longleftrightarrow>
      (\<forall>k. intn w k (NumberOfPayTXsUpperBound (cfg bz)) = 0)) \<and>
    (updateMainChainBCTransactionQueueCollect w bz \<noteq> Inl Loops \<longrightarrow>
      (\<exists>bz'. updateMainChainBCTransactionQueueCollect w bz = Inr bz'))"
  unfolding collect_unfold [OF assms(1,2)]
  using assms(3,4) reg_pay_loop_None_iff [of "intn w" "NumberOfPayTXsUpperBound (cfg bz)" 0]
  by (auto simp: number_of_reg_pay_def Let_def split: option.splits)

theorem collect_returns_iff_witness:
  "updateMainChainBCTransactionQueueCollect sample_world (sample_collect 0 1) = Inl Loops"
  using collect_returns_iff [OF sample_collect_ok, of 0 1 sample_world]
  by (simp add: sample_collect_def sample_world_def)

end
