(* ===== verification/Greedy.thy ===== *)
theory Greedy
  imports Prelude
begin

text \<open>
  The greedy choice every block builder makes: how many items of a list of sizes fit one after the
  other into a budget. With nonnegative sizes it is the longest prefix that fits.
\<close>

fun fits_upto :: "int \<Rightarrow> int list \<Rightarrow> nat" where
  "fits_upto budget [] = 0"
| "fits_upto budget (x # xs) = (if x \<le> budget then Suc (fits_upto (budget - x) xs) else 0)"

lemma fits_upto_le: "fits_upto b xs \<le> length xs"
  by (induction xs arbitrary: b) auto

lemma fits_upto_sum: "0 < fits_upto b xs \<Longrightarrow> sum_list (take (fits_upto b xs) xs) \<le> b"
proof (induction xs arbitrary: b)
  case Nil
  then show ?case by simp
next
  case (Cons x xs)
  then have x: "x \<le> b" by (auto split: if_splits)
  show ?case
  proof (cases "fits_upto (b - x) xs")
    case 0
    with x show ?thesis by simp
  next
    case (Suc k)
    with Cons.IH [of "b - x"] x show ?thesis by simp
  qed
qed

lemma fits_upto_stops:
  "fits_upto b xs < length xs \<Longrightarrow> b < sum_list (take (Suc (fits_upto b xs)) xs)"
proof (induction xs arbitrary: b)
  case Nil
  then show ?case by simp
next
  case (Cons x xs)
  show ?case
  proof (cases "x \<le> b")
    case True
    with Cons.prems have "fits_upto (b - x) xs < length xs" by simp
    from Cons.IH [OF this] have "b - x < sum_list (take (Suc (fits_upto (b - x) xs)) xs)" .
    with True show ?thesis by (simp del: take_Suc_Cons add: take_Suc_Cons [of "Suc k" for k])
  qed simp
qed

lemma sum_list_take_mono:
  assumes "\<forall>x \<in> set xs. 0 \<le> x" and "m \<le> n"
  shows "sum_list (take m xs) \<le> (sum_list (take n xs) :: int)"
proof -
  have "take n xs = take m xs @ take (n - m) (drop m xs)"
    using assms(2) take_add [of m "n - m" xs] by simp
  moreover have "0 \<le> sum_list (take (n - m) (drop m xs))"
    using assms(1) by (intro sum_list_nonneg) (blast dest: in_set_takeD in_set_dropD)
  ultimately show ?thesis by simp
qed

lemma fits_upto_maximal:
  assumes "\<forall>x \<in> set xs. 0 \<le> x" and "m \<le> length xs" and "sum_list (take m xs) \<le> b"
  shows "m \<le> fits_upto b xs"
proof (rule ccontr)
  assume "\<not> m \<le> fits_upto b xs"
  with assms(2) have "fits_upto b xs < length xs" and le: "Suc (fits_upto b xs) \<le> m" by auto
  from fits_upto_stops [OF this(1)] sum_list_take_mono [OF assms(1) le] assms(3)
  show False by simp
qed

end
