(* ===== verification/MainChainTake.thy ===== *)
theory MainChainTake
  imports MainChain Greedy
begin

text \<open>
  What \<open>updateMainChainBCTransactionQueueTake\<close> does to the queues and the round table: each
  queue loses a prefix, the longest that fits into its share of the block, and the figures that
  are recorded are those of the prefix.
\<close>

section \<open>The second queue\<close>

definition second_sizes :: "(nat \<times> MainChainSecondQueueEntry) list \<Rightarrow> int list" where
  "second_sizes rows = map (\<lambda>(i, e). uint (sq_Size e)) rows"

lemma le_div_100: "100 * x \<le> share \<longleftrightarrow> x \<le> share div (100::int)"
proof -
  have "share = 100 * (share div 100) + share mod 100" by simp
  moreover have "0 \<le> share mod 100" "share mod 100 < 100" by simp_all
  ultimately show ?thesis by linarith
qed

lemma take_second_closed:
  "take_second share r rows st =
    (let n = fits_upto (share div 100 - s_size st) (second_sizes rows)
     in \<lparr>s_size = s_size st + sum_list (take n (second_sizes rows)),
         s_wait = s_wait st + sum_list (map (\<lambda>(i, e). r - sq_RoundIssued e) (take n rows)),
         s_last = (if n = 0 then s_last st else last_id n rows),
         s_count = s_count st + int n,
         s_full = (s_full st \<or> n < length rows)\<rparr>)"
proof (induction share r rows st rule: take_second.induct)
  case (1 share r st)
  then show ?case by (simp add: second_sizes_def)
next
  case (2 share r rowid out rows st)
  show ?case
  proof (cases "100 * (s_size st + uint (sq_Size out)) \<le> share")
    case True
    then have le: "uint (sq_Size out) \<le> share div 100 - s_size st"
      by (simp add: le_div_100)
    have "share div 100 - (s_size st + uint (sq_Size out)) = share div 100 - s_size st - uint (sq_Size out)"
      by simp
    with "2.IH" [OF True] True le show ?thesis
      by (simp add: second_sizes_def Let_def last_id_def)
  next
    case False
    then have "\<not> uint (sq_Size out) \<le> share div 100 - s_size st"
      by (simp add: le_div_100)
    with False show ?thesis by (simp add: second_sizes_def)
  qed
qed

section \<open>The first queue\<close>

definition first_sizes :: "(nat \<times> MainChainFirstQueueEntry) list \<Rightarrow> int list" where
  "first_sizes rows = map (\<lambda>(i, e). uint (fq_Size e)) rows"

definition named :: "string \<Rightarrow> (nat \<times> MainChainFirstQueueEntry) list \<Rightarrow> (nat \<times> MainChainFirstQueueEntry) list" where
  "named name rows = filter (\<lambda>(i, e). fq_Name e = name) rows"

definition known_names :: "string set" where
  "known_names = {''TxServAgrCommit'', ''TxStoragePayment'', ''TxPor'', ''TxServAgrPropose'', ''TxSync''}"

text \<open>The effect of the commits among the rows taken on the agreements.\<close>

definition activate :: "int \<Rightarrow> int \<Rightarrow> MarketMatchingRow table \<Rightarrow> MarketMatchingRow table" where
  "activate r a t = tbl_update (\<lambda>i row. mm_ServAgrId row = a)
     (\<lambda>row. row\<lparr>mm_Published := True, mm_StartedMcRoundNumber := r\<rparr>) t"

definition activate_all :: "int \<Rightarrow> (nat \<times> MainChainFirstQueueEntry) list \<Rightarrow> MarketMatchingRow table \<Rightarrow> MarketMatchingRow table" where
  "activate_all r rows t = foldl (\<lambda>t (i, e). activate r (fq_ServAgrId e) t) t (named ''TxServAgrCommit'' rows)"

definition mark_full :: "int \<Rightarrow> MainRoundRow table \<Rightarrow> MainRoundRow table" where
  "mark_full r t = tbl_update (\<lambda>i row. rt_RoundNumber row = r) (\<lambda>row. row\<lparr>rt_BlockSpaceFull := True\<rparr>) t"

definition take_first_result ::
    "int \<Rightarrow> int \<Rightarrow> nat \<Rightarrow> (nat \<times> MainChainFirstQueueEntry) list \<Rightarrow> FirstTake \<Rightarrow> FirstTake" where
  "take_first_result simState r n rows st =
    (let taken = take n rows; full = n < length rows in
     \<lparr>f_size = f_size st + sum_list (first_sizes taken),
      f_wait = f_wait st + sum_list (map (\<lambda>(i, e). r - fq_RoundIssued e) taken),
      f_last = (if n = 0 then f_last st else last_id n rows),
      f_por = f_por st + (if simState = 1 then int (length (named ''TxPor'' taken)) else 0),
      f_stor = f_stor st + int (length (named ''TxStoragePayment'' taken)),
      f_prop = f_prop st + int (length (named ''TxServAgrPropose'' taken)),
      f_commit = f_commit st + int (length (named ''TxServAgrCommit'' taken)),
      f_sync = f_sync st + int (length (named ''TxSync'' taken)),
      f_scpor = f_scpor st + sum_list (map (\<lambda>(i, e). fq_ServAgrId e) (named ''TxSync'' taken)),
      f_full = (f_full st \<or> full),
      f_db = (f_db st)\<lparr>MarketMatching := activate_all r taken (MarketMatching (f_db st)),
                      RoundTable := (if full then mark_full r (RoundTable (f_db st)) else RoundTable (f_db st))\<rparr>\<rparr>)"

lemma take_first_result_step:
  assumes "fq_Name out \<in> known_names"
    and "take_first_tx simState r out (st\<lparr>f_size := f_size st + uint (fq_Size out)\<rparr>) = Inr st'"
  shows "take_first_result simState r n rows (st'\<lparr>f_wait := f_wait st' + r - fq_RoundIssued out, f_last := rowid\<rparr>) =
    take_first_result simState r (Suc n) ((rowid, out) # rows) st"
proof -
  note defs = take_first_result_def first_sizes_def named_def activate_all_def activate_def Let_def
    last_id_def take_first_tx_def MainChainSetPublishedAndStartRoundOnServAgrId_def
  from assms(1) consider "fq_Name out = ''TxServAgrCommit''" | "fq_Name out = ''TxStoragePayment''"
    | "fq_Name out = ''TxPor''" | "fq_Name out = ''TxServAgrPropose''" | "fq_Name out = ''TxSync''"
    unfolding known_names_def by blast
  then show ?thesis
  proof cases
    case 1 with assms(2) show ?thesis by (cases n) (auto simp: defs)
  next
    case 2 with assms(2) show ?thesis by (cases n) (auto simp: defs)
  next
    case 3 with assms(2) show ?thesis by (cases n) (auto simp: defs)
  next
    case 4 with assms(2) show ?thesis by (cases n) (auto simp: defs)
  next
    case 5 with assms(2) show ?thesis by (cases n) (auto simp: defs)
  qed
qed

lemma take_first_closed:
  assumes "\<forall>(i, e) \<in> set rows. fq_Name e \<in> known_names"
  shows "take_first share simState r rows st =
    Inr (take_first_result simState r (fits_upto (share - f_size st) (first_sizes rows)) rows st)"
  using assms
proof (induction share simState r rows st rule: take_first.induct)
  case (1 share simState r st)
  then show ?case
    by (simp add: take_first_result_def first_sizes_def named_def activate_all_def)
next
  case (2 share simState r rowid out rows st)
  show ?case
  proof (cases "f_size st + uint (fq_Size out) \<le> share")
    case False
    then show ?thesis
      by (simp add: take_first_result_def first_sizes_def named_def activate_all_def
          AddToRoundTableBasedOnRoundNumber_def Let_def mark_full_def)
  next
    case True
    from "2.prems" have known: "fq_Name out \<in> known_names"
      and rest: "\<forall>(i, e) \<in> set rows. fq_Name e \<in> known_names" by auto
    let ?st0 = "st\<lparr>f_size := f_size st + uint (fq_Size out)\<rparr>"
    obtain st' where st': "take_first_tx simState r out ?st0 = Inr st'"
      using known by (auto simp: take_first_tx_def known_names_def MainChainSetPublishedAndStartRoundOnServAgrId_def)
    let ?st'' = "st'\<lparr>f_wait := f_wait st' + r - fq_RoundIssued out, f_last := rowid\<rparr>"
    have size: "f_size st' = f_size st + uint (fq_Size out)"
      using st' by (auto simp: take_first_tx_def MainChainSetPublishedAndStartRoundOnServAgrId_def split: if_splits)
    have "take_first share simState r ((rowid, out) # rows) st = take_first share simState r rows ?st''"
      using True st' by simp
    also have "\<dots> = Inr (take_first_result simState r
        (fits_upto (share - f_size ?st'') (first_sizes rows)) rows ?st'')"
      using "2.IH" [OF True, of st'] rest by simp
    finally have eq: "take_first share simState r ((rowid, out) # rows) st =
      Inr (take_first_result simState r
        (fits_upto (share - f_size st - uint (fq_Size out)) (first_sizes rows)) rows ?st'')"
      using size by (simp add: diff_diff_eq)
    define n where "n = fits_upto (share - f_size st - uint (fq_Size out)) (first_sizes rows)"
    have n: "fits_upto (share - f_size st) (first_sizes ((rowid, out) # rows)) = Suc n"
      using True by (simp add: n_def first_sizes_def)
    have "take_first_result simState r n rows ?st'' =
        take_first_result simState r (Suc n) ((rowid, out) # rows) st"
      by (rule take_first_result_step [OF known st'])
    then show ?thesis
      unfolding eq n n_def [symmetric] by simp
  qed
qed

section \<open>The whole operation\<close>

text \<open>How many rows of each queue go into the block.\<close>

definition n_second :: "ChainBoost \<Rightarrow> nat" where
  "n_second bz = fits_upto (PercentageTxPay (cfg bz) * (MainChainBlockSize (cfg bz) - BlockMeasurement) div 100)
     (second_sizes (MainChainGetSecondQueue (mc bz)))"

definition reg_pay_size :: "ChainBoost \<Rightarrow> int" where
  "reg_pay_size bz = sum_list (take (n_second bz) (second_sizes (MainChainGetSecondQueue (mc bz))))"

definition sync_size :: "mcdb \<Rightarrow> int" where
  "sync_size db = (case SyncTxQueue db of [] \<Rightarrow> 0 | (i, e) # _ \<Rightarrow> uint (fq_Size e))"

definition n_first :: "ChainBoost \<Rightarrow> nat" where
  "n_first bz = fits_upto (MainChainBlockSize (cfg bz) - BlockMeasurement - reg_pay_size bz - sync_size (mc bz))
     (first_sizes (MainChainGetFirstQueue (mc bz)))"

definition other_size :: "ChainBoost \<Rightarrow> int" where
  "other_size bz = sync_size (mc bz) + sum_list (take (n_first bz) (first_sizes (MainChainGetFirstQueue (mc bz))))"

definition block_size :: "ChainBoost \<Rightarrow> int" where
  "block_size bz = other_size bz + reg_pay_size bz + BlockMeasurement"

lemma n_second_le: "n_second bz \<le> length (SecondQueue (mc bz))" "n_second bz \<le> 5000"
  using fits_upto_le [of _ "second_sizes (MainChainGetSecondQueue (mc bz))"]
  by (auto simp: n_second_def second_sizes_def MainChainGetSecondQueue_def intro: le_trans)

lemma n_first_le: "n_first bz \<le> length (FirstQueue (mc bz))" "n_first bz \<le> 5000"
  using fits_upto_le [of _ "first_sizes (MainChainGetFirstQueue (mc bz))"]
  by (auto simp: n_first_def first_sizes_def MainChainGetFirstQueue_def intro: le_trans)

definition mark_reg_full :: "int \<Rightarrow> MainRoundRow table \<Rightarrow> MainRoundRow table" where
  "mark_reg_full r t = tbl_update (\<lambda>i row. rt_RoundNumber row = r) (\<lambda>row. row\<lparr>rt_RegSpaceFull := True\<rparr>) t"

lemma takeSecondQueue_closed:
  assumes "wf_table (SecondQueue (mc bz))"
  shows "takeSecondQueue bz =
    (let q = MainChainGetSecondQueue (mc bz); n = n_second bz; full = n < length q
     in (\<lparr>s_size = reg_pay_size bz,
          s_wait = sum_list (map (\<lambda>(i, e). MCRoundNumber bz - sq_RoundIssued e) (take n q)),
          s_last = last_id n q, s_count = int n, s_full = full\<rparr>,
         (mc bz)\<lparr>SecondQueue := drop n (SecondQueue (mc bz)),
                 RoundTable := (if full then mark_reg_full (MCRoundNumber bz) (RoundTable (mc bz))
                                else RoundTable (mc bz))\<rparr>))"
proof -
  let ?q = "MainChainGetSecondQueue (mc bz)"
  have le: "n_second bz \<le> length ?q"
    using n_second_le [of bz] by (simp add: MainChainGetSecondQueue_def)
  then have id: "last_id (n_second bz) ?q = last_id (n_second bz) (SecondQueue (mc bz))"
    unfolding MainChainGetSecondQueue_def by (rule last_id_take)
  have del: "tbl_del_upto (last_id (n_second bz) ?q) (SecondQueue (mc bz)) = drop (n_second bz) (SecondQueue (mc bz))"
    unfolding id using assms n_second_le(1) by (rule del_upto_last_id)
  have z: "(if n_second bz = 0 then 0 else last_id (n_second bz) ?q) = last_id (n_second bz) ?q"
    by (simp add: last_id_def)
  let ?share = "PercentageTxPay (cfg bz) * (MainChainBlockSize (cfg bz) - BlockMeasurement)"
  have n: "fits_upto (?share div 100 - 0) (second_sizes ?q) = n_second bz"
    by (simp add: n_second_def)
  have st: "take_second ?share (MCRoundNumber bz) ?q
      \<lparr>s_size = 0, s_wait = 0, s_last = 0, s_count = 0, s_full = False\<rparr> =
    \<lparr>s_size = reg_pay_size bz,
     s_wait = sum_list (map (\<lambda>(i, e). MCRoundNumber bz - sq_RoundIssued e) (take (n_second bz) ?q)),
     s_last = last_id (n_second bz) ?q, s_count = int (n_second bz), s_full = (n_second bz < length ?q)\<rparr>"
    unfolding take_second_closed SecondTake.select_convs n Let_def z
    by (simp add: reg_pay_size_def)
  show ?thesis
    unfolding takeSecondQueue_def Let_def st using del
    by (simp add: AddToRoundTableBasedOnRoundNumber_def MainChainDeleteFromSecondQueue_def mark_reg_full_def)
qed

definition taken_second :: "ChainBoost \<Rightarrow> (nat \<times> MainChainSecondQueueEntry) list" where
  "taken_second bz = take (n_second bz) (SecondQueue (mc bz))"

definition taken_first :: "ChainBoost \<Rightarrow> (nat \<times> MainChainFirstQueueEntry) list" where
  "taken_first bz = take (n_first bz) (FirstQueue (mc bz))"

definition taken_sync :: "ChainBoost \<Rightarrow> (nat \<times> MainChainFirstQueueEntry) list" where
  "taken_sync bz = take 1 (SyncTxQueue (mc bz))"

definition queues_wf :: "mcdb \<Rightarrow> bool" where
  "queues_wf db \<longleftrightarrow> wf_table (FirstQueue db) \<and> wf_table (SecondQueue db) \<and>
     (\<forall>(i, e) \<in> set (FirstQueue db). fq_Name e \<in> known_names)"

lemma taken_first_prefix: "take (n_first bz) (MainChainGetFirstQueue (mc bz)) = taken_first bz"
  using n_first_le [of bz] by (simp add: taken_first_def MainChainGetFirstQueue_def min_def)

lemma taken_second_prefix: "take (n_second bz) (MainChainGetSecondQueue (mc bz)) = taken_second bz"
  using n_second_le [of bz] by (simp add: taken_second_def MainChainGetSecondQueue_def min_def)

definition first_st0 :: "mcdb \<Rightarrow> FirstTake" where
  "first_st0 db = \<lparr>f_size = sync_size db, f_wait = 0, f_last = 0, f_por = 0, f_stor = 0, f_prop = 0,
     f_commit = 0, f_sync = int (length (take 1 (SyncTxQueue db))),
     f_scpor = sum_list (map (\<lambda>(i, e). fq_ServAgrId e) (take 1 (SyncTxQueue db))),
     f_full = False, f_db = db\<lparr>SyncTxQueue := drop 1 (SyncTxQueue db)\<rparr>\<rparr>"

definition take_first_final :: "ChainBoost \<Rightarrow> mcdb \<Rightarrow> FirstTake" where
  "take_first_final bz db =
    (let st = take_first_result (SimState (cfg bz)) (MCRoundNumber bz) (n_first bz)
                (MainChainGetFirstQueue db) (first_st0 db)
     in st\<lparr>f_db := (f_db st)\<lparr>FirstQueue := drop (n_first bz) (FirstQueue db)\<rparr>\<rparr>)"

lemma pop_sync: "MainChainPopFromSyncTxQueue db = (case SyncTxQueue db of
    [] \<Rightarrow> ((None, True), db\<lparr>SyncTxQueue := drop 1 (SyncTxQueue db)\<rparr>)
  | (i, e) # q \<Rightarrow> ((Some e, False), db\<lparr>SyncTxQueue := drop 1 (SyncTxQueue db)\<rparr>))"
  by (auto simp: MainChainPopFromSyncTxQueue_def tbl_del_min_def split: list.splits)

lemma takeFirstQueue_unfold:
  "takeFirstQueue bz share db =
     bindR (take_first share (SimState (cfg bz)) (MCRoundNumber bz) (MainChainGetFirstQueue db) (first_st0 db))
       (\<lambda>st. bindR (orPanic (MainChainDeleteFromFirstQueue (f_last st) (f_db st))) (\<lambda>db2. Inr (st\<lparr>f_db := db2\<rparr>)))"
  by (cases "SyncTxQueue db")
    (auto simp: takeFirstQueue_def pop_sync first_st0_def sync_size_def MainChainGetFirstQueue_def)

lemma takeFirstQueue_closed:
  assumes "queues_wf db" and "FirstQueue db = FirstQueue (mc bz)" and "SyncTxQueue db = SyncTxQueue (mc bz)"
  shows "takeFirstQueue bz (MainChainBlockSize (cfg bz) - BlockMeasurement - reg_pay_size bz) db =
     Inr (take_first_final bz db)"
proof -
  let ?q = "MainChainGetFirstQueue db" and ?share = "MainChainBlockSize (cfg bz) - BlockMeasurement - reg_pay_size bz"
  have q: "?q = MainChainGetFirstQueue (mc bz)" using assms(2) by (simp add: MainChainGetFirstQueue_def)
  have "f_size (first_st0 db) = sync_size (mc bz)"
    using assms(3) by (simp add: first_st0_def sync_size_def)
  then have n: "fits_upto (?share - f_size (first_st0 db)) (first_sizes ?q) = n_first bz"
    by (simp add: n_first_def q)
  have known: "\<forall>(i, e) \<in> set ?q. fq_Name e \<in> known_names"
    using assms(1) by (auto simp: queues_wf_def MainChainGetFirstQueue_def dest: in_set_takeD)
  have le: "n_first bz \<le> length ?q"
    using n_first_le [of bz] assms(2) by (simp add: MainChainGetFirstQueue_def)
  then have "last_id (n_first bz) ?q = last_id (n_first bz) (FirstQueue db)"
    unfolding MainChainGetFirstQueue_def by (rule last_id_take)
  moreover have "tbl_del_upto (last_id (n_first bz) (FirstQueue db)) (FirstQueue db) = drop (n_first bz) (FirstQueue db)"
    using assms n_first_le(1) [of bz] by (intro del_upto_last_id) (simp_all add: queues_wf_def)
  moreover have "(if n_first bz = 0 then 0 else last_id (n_first bz) ?q) = last_id (n_first bz) ?q"
    by (simp add: last_id_def)
  ultimately show ?thesis
    unfolding takeFirstQueue_unfold take_first_closed [OF known] n
    by (cases "n_first bz = 0") (simp_all add: last_id_0 take_first_final_def take_first_result_def first_st0_def Let_def MainChainDeleteFromFirstQueue_def)
qed

section \<open>The figures\<close>

definition count_named :: "string \<Rightarrow> (nat \<times> MainChainFirstQueueEntry) list \<Rightarrow> int" where
  "count_named name rows = int (length (named name rows))"

definition wait_first :: "ChainBoost \<Rightarrow> int" where
  "wait_first bz = sum_list (map (\<lambda>(i, e). MCRoundNumber bz - fq_RoundIssued e) (taken_first bz))"

definition wait_second :: "ChainBoost \<Rightarrow> int" where
  "wait_second bz = sum_list (map (\<lambda>(i, e). MCRoundNumber bz - sq_RoundIssued e) (taken_second bz))"

definition por_count :: "ChainBoost \<Rightarrow> int" where
  "por_count bz = (if SimState (cfg bz) = 1 then count_named ''TxPor'' (taken_first bz) else 0)"

text \<open>The sync transactions of the block: the one from its own queue and those of the first queue.\<close>

definition sync_rows :: "ChainBoost \<Rightarrow> (nat \<times> MainChainFirstQueueEntry) list" where
  "sync_rows bz = taken_sync bz @ named ''TxSync'' (taken_first bz)"

definition first_total :: "ChainBoost \<Rightarrow> int" where
  "first_total bz = por_count bz + count_named ''TxStoragePayment'' (taken_first bz) +
     count_named ''TxServAgrPropose'' (taken_first bz) + count_named ''TxServAgrCommit'' (taken_first bz)"

definition quotient_or_0 :: "int \<Rightarrow> int \<Rightarrow> f64" where
  "quotient_or_0 s n = (if n \<noteq> 0 then f_div (f_of_int s) (f_of_int n) else Fin 0)"

definition final_row :: "ChainBoost \<Rightarrow> MainRoundRow \<Rightarrow> MainRoundRow" where
  "final_row bz row =
    (let total_txs = first_total bz + int (n_second bz) + int (length (sync_rows bz)) in
     row\<lparr>rt_RegSpaceFull := rt_RegSpaceFull row \<or> n_second bz < length (MainChainGetSecondQueue (mc bz)),
         rt_BlockSpaceFull := rt_BlockSpaceFull row \<or> n_first bz < length (MainChainGetFirstQueue (mc bz)),
         rt_BCSize := block_size bz,
         rt_RegPayTx := int (n_second bz),
         rt_PoRTx := por_count bz,
         rt_StorjPayTx := count_named ''TxStoragePayment'' (taken_first bz),
         rt_CntPropTx := count_named ''TxServAgrPropose'' (taken_first bz),
         rt_CntCmtTx := count_named ''TxServAgrCommit'' (taken_first bz),
         rt_TotalNumTx := total_txs,
         rt_AveWaitOtherTxs := sql_of_f64 (quotient_or_0 (wait_first bz) (first_total bz)),
         rt_AveWaitRegPay := sql_of_f64 (quotient_or_0 (wait_second bz) (int (n_second bz))),
         rt_SyncTx := int (length (sync_rows bz)),
         rt_ScPorTx := sum_list (map (\<lambda>(i, e). fq_ServAgrId e) (sync_rows bz)),
         rt_ConfirmationTime :=
           sql_of_f64 (f_div (f_of_int (wait_first bz + wait_second bz)) (f_of_int total_txs))\<rparr>)"

definition taken_db :: "ChainBoost \<Rightarrow> mcdb" where
  "taken_db bz = (mc bz)\<lparr>SecondQueue := drop (n_second bz) (SecondQueue (mc bz)),
     SyncTxQueue := drop 1 (SyncTxQueue (mc bz)),
     FirstQueue := drop (n_first bz) (FirstQueue (mc bz)),
     MarketMatching := activate_all (MCRoundNumber bz) (taken_first bz) (MarketMatching (mc bz)),
     RoundTable := tbl_update (\<lambda>i row. rt_RoundNumber row = MCRoundNumber bz) (final_row bz) (RoundTable (mc bz))\<rparr>"

lemma mark_reg_full_if:
  "(if b then mark_reg_full r t else t) =
     tbl_update (\<lambda>i row. rt_RoundNumber row = r) (\<lambda>row. row\<lparr>rt_RegSpaceFull := rt_RegSpaceFull row \<or> b\<rparr>) t"
  by (simp add: mark_reg_full_def tbl_update_id)

lemma mark_full_if:
  "(if b then mark_full r t else t) =
     tbl_update (\<lambda>i row. rt_RoundNumber row = r) (\<lambda>row. row\<lparr>rt_BlockSpaceFull := rt_BlockSpaceFull row \<or> b\<rparr>) t"
  by (simp add: mark_full_def tbl_update_id)

lemma sync_rows_length: "int (length (sync_rows bz)) =
    int (length (take 1 (SyncTxQueue (mc bz)))) + count_named ''TxSync'' (taken_first bz)"
  by (simp add: sync_rows_def taken_sync_def count_named_def)

lemma take_records:
  assumes "queues_wf (mc bz)"
  shows "\<exists>st2 st1 db1. takeSecondQueue bz = (st2, db1) \<and>
    takeFirstQueue bz (MainChainBlockSize (cfg bz) - BlockMeasurement - s_size st2) db1 = Inr st1 \<and>
    s_wait st2 = wait_second bz \<and> f_wait st1 = wait_first bz \<and>
    recordRoundStats (MCRoundNumber bz) st2 st1 (f_db st1) = (None, taken_db bz)"
proof -
  let ?q2 = "MainChainGetSecondQueue (mc bz)" and ?r = "MCRoundNumber bz"
  let ?full2 = "n_second bz < length ?q2"
  obtain st2 db1 where sec: "takeSecondQueue bz = (st2, db1)" by (cases "takeSecondQueue bz")
  have st2: "st2 = \<lparr>s_size = reg_pay_size bz, s_wait = wait_second bz, s_last = last_id (n_second bz) ?q2,
      s_count = int (n_second bz), s_full = ?full2\<rparr>"
    and db1: "db1 = (mc bz)\<lparr>SecondQueue := drop (n_second bz) (SecondQueue (mc bz)),
      RoundTable := (if ?full2 then mark_reg_full ?r (RoundTable (mc bz)) else RoundTable (mc bz))\<rparr>"
    using assms sec takeSecondQueue_closed [of bz]
    by (auto simp: queues_wf_def Let_def wait_second_def taken_second_prefix)
  have "queues_wf db1" "FirstQueue db1 = FirstQueue (mc bz)" "SyncTxQueue db1 = SyncTxQueue (mc bz)"
    using assms unfolding db1 by (auto simp: queues_wf_def)
  note first = takeFirstQueue_closed [OF this]
  define st1 where "st1 = take_first_final bz db1"
  have q1: "MainChainGetFirstQueue db1 = MainChainGetFirstQueue (mc bz)"
    by (simp add: db1 MainChainGetFirstQueue_def)
  have rt: "RoundTable (f_db st1) = tbl_update (\<lambda>i row. rt_RoundNumber row = ?r)
      (\<lambda>row. row\<lparr>rt_RegSpaceFull := rt_RegSpaceFull row \<or> ?full2,
             rt_BlockSpaceFull := rt_BlockSpaceFull row \<or> n_first bz < length (MainChainGetFirstQueue (mc bz))\<rparr>)
      (RoundTable (mc bz))"
    unfolding st1_def take_first_final_def take_first_result_def first_st0_def Let_def q1
    by (simp only: FirstTake.simps mcdb.simps mark_full_if) (simp add: db1 mark_reg_full_if tbl_update_comp)
  have db: "f_db st1 = (taken_db bz)\<lparr>RoundTable := RoundTable (f_db st1)\<rparr>"
    unfolding st1_def take_first_final_def take_first_result_def first_st0_def Let_def q1 taken_first_prefix
    by (simp add: db1 taken_db_def)
  have fields: "f_size st1 = other_size bz" "f_wait st1 = wait_first bz" "f_por st1 = por_count bz"
    "f_stor st1 = count_named ''TxStoragePayment'' (taken_first bz)"
    "f_prop st1 = count_named ''TxServAgrPropose'' (taken_first bz)"
    "f_commit st1 = count_named ''TxServAgrCommit'' (taken_first bz)"
    "f_sync st1 = int (length (sync_rows bz))"
    "f_scpor st1 = sum_list (map (\<lambda>(i, e). fq_ServAgrId e) (sync_rows bz))"
    unfolding sync_rows_length st1_def take_first_final_def take_first_result_def first_st0_def Let_def q1
      taken_first_prefix
    by (simp_all add: other_size_def sync_size_def db1 wait_first_def por_count_def count_named_def sync_rows_def
        taken_sync_def first_sizes_def take_map taken_first_prefix [symmetric])
  have "recordRoundStats ?r st2 st1 (f_db st1) = (None, taken_db bz)"
    unfolding recordRoundStats_def Let_def fields AddStatsToRoundTableBasedOnRoundNumber_def
    by (simp add: st2 db [unfolded rt] tbl_update_comp block_size_def final_row_def [abs_def] first_total_def quotient_or_0_def taken_db_def Let_def)
  with first st2 show ?thesis
    unfolding sec by (auto simp: st1_def [symmetric] fields)
qed

section \<open>The result\<close>

definition round_fresh :: "ChainBoost \<Rightarrow> bool" where
  "round_fresh bz \<longleftrightarrow> RoundTable (mc bz) \<noteq> [] \<and>
     (\<forall>r \<in> set (map snd (OverallEvaluation (mc bz))). mo_RoundNbr r \<noteq> MCRoundNumber bz)"

lemma recordOverall_ok:
  assumes "RoundTable db \<noteq> []" and "\<forall>r \<in> set (map snd (OverallEvaluation db)). mo_RoundNbr r \<noteq> n"
  shows "\<exists>row. recordOverall n db = Inr (db\<lparr>OverallEvaluation := tbl_insert row (OverallEvaluation db)\<rparr>) \<and>
    mo_RoundNbr row = n \<and> mo_BCSize row = f_of_int (sum_list (map (\<lambda>(i, r). rt_BCSize r) (RoundTable db)))"
proof -
  let ?xs = "map (\<lambda>(i, r). Some (f_of_int (rt_BCSize r))) (RoundTable db)"
  have "non_null ?xs = map f_of_int (map (\<lambda>(i, r). rt_BCSize r) (RoundTable db))"
    by (induction "RoundTable db") (simp_all add: non_null_def comp_def case_prod_unfold)
  then have "sql_sum ?xs = Inr (f_of_int (sum_list (map (\<lambda>(i, r). rt_BCSize r) (RoundTable db))))"
    using assms(1) by (simp add: sql_sum_def sum_list_f_of_int del: map_map)
  with assms(2) show ?thesis
    by (auto simp: recordOverall_def GetSumMainChain_def mc_column_def Let_def
        InsertIntoMainChainOverallEvaluationTable_def)
qed

lemma taken_db_simps [simp]:
  "FirstQueue (taken_db bz) = drop (n_first bz) (FirstQueue (mc bz))"
  "SecondQueue (taken_db bz) = drop (n_second bz) (SecondQueue (mc bz))"
  "SyncTxQueue (taken_db bz) = drop 1 (SyncTxQueue (mc bz))"
  "MarketMatching (taken_db bz) = activate_all (MCRoundNumber bz) (taken_first bz) (MarketMatching (mc bz))"
  "PowerTable (taken_db bz) = PowerTable (mc bz)"
  "OverallEvaluation (taken_db bz) = OverallEvaluation (mc bz)"
  "RoundTable (taken_db bz) =
     tbl_update (\<lambda>i row. rt_RoundNumber row = MCRoundNumber bz) (final_row bz) (RoundTable (mc bz))"
  by (simp_all add: taken_db_def)

lemma take_unfold:
  assumes "queues_wf (mc bz)"
  shows "updateMainChainBCTransactionQueueTake bz =
    bindR (recordOverall (MCRoundNumber bz) (taken_db bz)) (\<lambda>db.
      Inr (bz\<lparr>mc := db, FirstQueueWait := wait_first bz, SecondQueueWait := wait_second bz\<rparr>))"
proof -
  from take_records [OF assms] obtain st2 st1 db1 where
    "takeSecondQueue bz = (st2, db1)"
    "takeFirstQueue bz (MainChainBlockSize (cfg bz) - BlockMeasurement - s_size st2) db1 = Inr st1"
    "s_wait st2 = wait_second bz" "f_wait st1 = wait_first bz"
    "recordRoundStats (MCRoundNumber bz) st2 st1 (f_db st1) = (None, taken_db bz)" by blast
  then show ?thesis
    unfolding updateMainChainBCTransactionQueueTake_def by (simp del: BlockMeasurement_value)
qed

definition after_take :: "ChainBoost \<Rightarrow> MainOverallRow table \<Rightarrow> ChainBoost" where
  "after_take bz ov = bz\<lparr>mc := (taken_db bz)\<lparr>OverallEvaluation := ov\<rparr>,
     FirstQueueWait := wait_first bz, SecondQueueWait := wait_second bz\<rparr>"

lemma after_take_simps [simp]:
  "FirstQueue (mc (after_take bz ov)) = drop (n_first bz) (FirstQueue (mc bz))"
  "SecondQueue (mc (after_take bz ov)) = drop (n_second bz) (SecondQueue (mc bz))"
  "SyncTxQueue (mc (after_take bz ov)) = drop 1 (SyncTxQueue (mc bz))"
  "MarketMatching (mc (after_take bz ov)) = activate_all (MCRoundNumber bz) (taken_first bz) (MarketMatching (mc bz))"
  "PowerTable (mc (after_take bz ov)) = PowerTable (mc bz)"
  "OverallEvaluation (mc (after_take bz ov)) = ov"
  "RoundTable (mc (after_take bz ov)) =
     tbl_update (\<lambda>i row. rt_RoundNumber row = MCRoundNumber bz) (final_row bz) (RoundTable (mc bz))"
  by (simp_all add: after_take_def)

lemma take_returns:
  assumes "queues_wf (mc bz)" and "round_fresh bz"
  shows "\<exists>row. mo_RoundNbr row = MCRoundNumber bz \<and> updateMainChainBCTransactionQueueTake bz =
    Inr (after_take bz (tbl_insert row (OverallEvaluation (mc bz))))"
proof -
  have "RoundTable (taken_db bz) \<noteq> []" using assms(2) by (simp add: round_fresh_def tbl_update_def)
  with recordOverall_ok [of "taken_db bz" "MCRoundNumber bz"] assms(2) show ?thesis
    unfolding take_unfold [OF assms(1)] by (auto simp: round_fresh_def after_take_def)
qed

lemma take_Inr:
  assumes "queues_wf (mc bz)" and "updateMainChainBCTransactionQueueTake bz = Inr bz'"
  shows "\<exists>ov. bz' = after_take bz ov"
  using assms(2) unfolding take_unfold [OF assms(1)] after_take_def
  by (fastforce simp: bindR_Inr_iff recordOverall_def Let_def orPanic_Inr_iff
      InsertIntoMainChainOverallEvaluationTable_def split: if_splits)

end
