(* ===== verification/MainChainBlock.thy ===== *)
theory MainChainBlock
  imports MainChainTake
begin

text \<open>
  The contract of \<open>updateMainChainBCTransactionQueueTake\<close> and its consequences: which rows of the
  queues form a block, when the block respects \<open>MainChainBlockSize\<close>, what is counted, and which
  agreements it activates.
\<close>

section \<open>The contract of a block\<close>

text \<open>
  What the root promises when it builds a block: it takes the first \<open>n1\<close> rows of the first
  queue, the first \<open>n2\<close> of the second and at most one sync transaction, leaves the others in
  their order, and no longer prefix of the 5000 rows it reads would have fitted.
\<close>

definition first_budget :: "ChainBoost \<Rightarrow> nat \<Rightarrow> int" where
  "first_budget bz n2 = MainChainBlockSize (cfg bz) - BlockMeasurement
     - sum_list (take n2 (second_sizes (SecondQueue (mc bz)))) - sync_size (mc bz)"

definition block_contract :: "ChainBoost \<Rightarrow> ChainBoost \<Rightarrow> nat \<Rightarrow> nat \<Rightarrow> bool" where
  "block_contract bz bz' n1 n2 \<longleftrightarrow>
     n1 \<le> length (take 5000 (FirstQueue (mc bz))) \<and> n2 \<le> length (take 5000 (SecondQueue (mc bz))) \<and>
     FirstQueue (mc bz') = drop n1 (FirstQueue (mc bz)) \<and>
     SecondQueue (mc bz') = drop n2 (SecondQueue (mc bz)) \<and>
     SyncTxQueue (mc bz') = drop 1 (SyncTxQueue (mc bz)) \<and>
     (let share = PercentageTxPay (cfg bz) * (MainChainBlockSize (cfg bz) - BlockMeasurement);
          sizes = second_sizes (SecondQueue (mc bz))
      in (0 < n2 \<longrightarrow> 100 * sum_list (take n2 sizes) \<le> share) \<and>
         (\<forall>m \<le> length (take 5000 (SecondQueue (mc bz))). 100 * sum_list (take m sizes) \<le> share \<longrightarrow> m \<le> n2)) \<and>
     (let sizes = first_sizes (FirstQueue (mc bz))
      in (0 < n1 \<longrightarrow> sum_list (take n1 sizes) \<le> first_budget bz n2) \<and>
         (\<forall>m \<le> length (take 5000 (FirstQueue (mc bz))). sum_list (take m sizes) \<le> first_budget bz n2 \<longrightarrow> m \<le> n1))"

lemma second_sizes_take: "second_sizes (take k t) = take k (second_sizes t)"
  and first_sizes_take: "first_sizes (take k u) = take k (first_sizes u)"
  by (simp_all add: second_sizes_def first_sizes_def take_map)

lemma reg_pay_size_eq: "reg_pay_size bz = sum_list (take (n_second bz) (second_sizes (SecondQueue (mc bz))))"
  using n_second_le(2) [of bz]
  by (simp add: reg_pay_size_def MainChainGetSecondQueue_def second_sizes_take min_def)

lemma n_second_greedy:
  fixes bz
  defines "share \<equiv> PercentageTxPay (cfg bz) * (MainChainBlockSize (cfg bz) - BlockMeasurement)"
    and "sizes \<equiv> second_sizes (SecondQueue (mc bz))"
  shows "0 < n_second bz \<Longrightarrow> 100 * sum_list (take (n_second bz) sizes) \<le> share"
    and "m \<le> length (take 5000 (SecondQueue (mc bz))) \<Longrightarrow> 100 * sum_list (take m sizes) \<le> share \<Longrightarrow> m \<le> n_second bz"
proof -
  have n: "n_second bz = fits_upto (share div 100) (take 5000 sizes)"
    by (simp add: n_second_def share_def sizes_def MainChainGetSecondQueue_def second_sizes_take)
  show "100 * sum_list (take (n_second bz) sizes) \<le> share" if "0 < n_second bz"
    using fits_upto_sum [of "share div 100" "take 5000 sizes"] that n_second_le(2) [of bz]
    by (simp add: n [symmetric] le_div_100 min_def)
  show "m \<le> n_second bz"
    if "m \<le> length (take 5000 (SecondQueue (mc bz)))" "100 * sum_list (take m sizes) \<le> share"
    unfolding n using that
    by (intro fits_upto_maximal)
      (auto simp: sizes_def second_sizes_def le_div_100 min_def dest: in_set_takeD split: if_splits)
qed

lemma n_first_greedy:
  fixes bz
  defines "sizes \<equiv> first_sizes (FirstQueue (mc bz))"
  shows "0 < n_first bz \<Longrightarrow> sum_list (take (n_first bz) sizes) \<le> first_budget bz (n_second bz)"
    and "m \<le> length (take 5000 (FirstQueue (mc bz))) \<Longrightarrow>
         sum_list (take m sizes) \<le> first_budget bz (n_second bz) \<Longrightarrow> m \<le> n_first bz"
proof -
  have n: "n_first bz = fits_upto (first_budget bz (n_second bz)) (take 5000 sizes)"
    by (simp add: n_first_def first_budget_def reg_pay_size_eq sizes_def MainChainGetFirstQueue_def first_sizes_take)
  show "sum_list (take (n_first bz) sizes) \<le> first_budget bz (n_second bz)" if "0 < n_first bz"
    using fits_upto_sum [of "first_budget bz (n_second bz)" "take 5000 sizes"] that n_first_le(2) [of bz]
    by (simp add: n [symmetric] min_def)
  show "m \<le> n_first bz"
    if "m \<le> length (take 5000 (FirstQueue (mc bz)))" "sum_list (take m sizes) \<le> first_budget bz (n_second bz)"
    unfolding n using that
    by (intro fits_upto_maximal)
      (auto simp: sizes_def first_sizes_def min_def dest: in_set_takeD split: if_splits)
qed

text \<open>
  C1: with well-formed queues and a round that has not been evaluated before, building a block
  never fails. It removes a prefix of the first queue, a prefix of the second queue and at most one
  sync transaction, leaves the rest in order, and each prefix is the longest of the 5000 rows read
  that fits into its share of the block.
\<close>

theorem take_meets_contract:
  assumes "queues_wf (mc bz)" and "round_fresh bz"
  shows "\<exists>bz' n1 n2. updateMainChainBCTransactionQueueTake bz = Inr bz' \<and> block_contract bz bz' n1 n2"
proof -
  from take_returns [OF assms] obtain ov where t: "updateMainChainBCTransactionQueueTake bz = Inr (after_take bz ov)"
    by blast
  have le: "n_first bz \<le> length (take 5000 (FirstQueue (mc bz)))"
      "n_second bz \<le> length (take 5000 (SecondQueue (mc bz)))"
    using n_first_le [of bz] n_second_le [of bz] by simp_all
  have "block_contract bz (after_take bz ov) (n_first bz) (n_second bz)"
    unfolding block_contract_def Let_def after_take_simps
    by (intro conjI allI impI; (rule le refl | erule n_first_greedy n_second_greedy; assumption?))
  with t show ?thesis by blast
qed

section \<open>The size of a block\<close>

lemma block_size_bound_iff:
  "block_size bz \<le> MainChainBlockSize (cfg bz) \<longleftrightarrow> 0 \<le> first_budget bz (n_second bz)"
proof -
  let ?b = "first_budget bz (n_second bz)" and ?xs = "first_sizes (MainChainGetFirstQueue (mc bz))"
  let ?s = "sum_list (take (n_first bz) ?xs)"
  have n: "n_first bz = fits_upto ?b ?xs"
    by (simp add: n_first_def first_budget_def reg_pay_size_eq)
  have eq: "block_size bz \<le> MainChainBlockSize (cfg bz) \<longleftrightarrow> ?s \<le> ?b"
    by (simp add: block_size_def other_size_def first_budget_def reg_pay_size_eq) linarith
  show ?thesis
  proof (cases "n_first bz")
    case 0
    then show ?thesis by (simp add: eq)
  next
    case (Suc k)
    with fits_upto_sum [of ?b ?xs] have "?s \<le> ?b" by (simp add: n)
    moreover have "0 \<le> ?s"
      by (intro sum_list_nonneg) (auto simp: first_sizes_def dest: in_set_takeD)
    ultimately show ?thesis by (simp add: eq)
  qed
qed

lemma taken_round_row:
  assumes "queues_wf (mc bz)" and "updateMainChainBCTransactionQueueTake bz = Inr bz'"
    and "(i, row) \<in> set (RoundTable (mc bz'))" and "rt_RoundNumber row = MCRoundNumber bz"
  obtains old where "(i, old) \<in> set (RoundTable (mc bz))" and "row = final_row bz old"
proof -
  from take_Inr [OF assms(1,2)] obtain ov where "bz' = after_take bz ov" by blast
  with assms(3) have "(i, row) \<in> set (tbl_update (\<lambda>i row. rt_RoundNumber row = MCRoundNumber bz)
      (final_row bz) (RoundTable (mc bz)))" by simp
  then obtain old where "(i, old) \<in> set (RoundTable (mc bz))"
      and "row = (if rt_RoundNumber old = MCRoundNumber bz then final_row bz old else old)"
    by (auto simp: tbl_update_def split: if_splits)
  with assms(4) that show thesis by (auto split: if_splits)
qed

text \<open>
  The block of a round respects \<open>MainChainBlockSize\<close> exactly when the pending sync
  transaction fits beside the payments: its size is added without a check.
\<close>

theorem take_block_limit:
  assumes "queues_wf (mc bz)" and "updateMainChainBCTransactionQueueTake bz = Inr bz'"
    and "(i, row) \<in> set (RoundTable (mc bz'))" and "rt_RoundNumber row = MCRoundNumber bz"
  shows "rt_BCSize row \<le> MainChainBlockSize (cfg bz) \<longleftrightarrow>
    (case SyncTxQueue (mc bz) of [] \<Rightarrow> 0 | (j, e) # _ \<Rightarrow> uint (fq_Size e))
      + sum_list (take (length (SecondQueue (mc bz)) - length (SecondQueue (mc bz'))) (second_sizes (SecondQueue (mc bz))))
      + BlockMeasurement \<le> MainChainBlockSize (cfg bz)"
proof -
  from taken_round_row [OF assms] obtain old where "row = final_row bz old" .
  then have "rt_BCSize row = block_size bz" by (simp add: final_row_def Let_def)
  moreover have "length (SecondQueue (mc bz)) - length (SecondQueue (mc bz')) = n_second bz"
    using take_Inr [OF assms(1,2)] n_second_le(1) [of bz] by auto
  ultimately show ?thesis
    using block_size_bound_iff [of bz]
    by (simp add: first_budget_def sync_size_def) linarith
qed

lemma n_second_share:
  assumes "0 \<le> PercentageTxPay (cfg bz)" and "BlockMeasurement \<le> MainChainBlockSize (cfg bz)"
  shows "100 * reg_pay_size bz \<le> PercentageTxPay (cfg bz) * (MainChainBlockSize (cfg bz) - BlockMeasurement)"
proof (cases "n_second bz")
  case 0
  with assms show ?thesis by (simp add: reg_pay_size_def)
next
  case (Suc k)
  then show ?thesis using n_second_greedy(1) [of bz] by (simp add: reg_pay_size_eq)
qed

text \<open>
  if every pending sync transaction fits into the part of a block that is not reserved for
  payments, the block of the round is at most \<open>MainChainBlockSize\<close> bytes.
\<close>

theorem take_block_within_limit:
  assumes "queues_wf (mc bz)" and "updateMainChainBCTransactionQueueTake bz = Inr bz'"
    and "0 \<le> PercentageTxPay (cfg bz)" and "BlockMeasurement \<le> MainChainBlockSize (cfg bz)"
    and "\<forall>(j, e) \<in> set (SyncTxQueue (mc bz)). 100 * uint (fq_Size e) \<le>
           (100 - PercentageTxPay (cfg bz)) * (MainChainBlockSize (cfg bz) - BlockMeasurement)"
    and "PercentageTxPay (cfg bz) \<le> 100"
    and "(i, row) \<in> set (RoundTable (mc bz'))" and "rt_RoundNumber row = MCRoundNumber bz"
  shows "rt_BCSize row \<le> MainChainBlockSize (cfg bz)"
proof -
  from taken_round_row [OF assms(1,2,7,8)] obtain old where "row = final_row bz old" .
  then have "rt_BCSize row = block_size bz" by (simp add: final_row_def Let_def)
  moreover have "100 * sync_size (mc bz) \<le>
      (100 - PercentageTxPay (cfg bz)) * (MainChainBlockSize (cfg bz) - BlockMeasurement)"
    using assms(4-6) by (cases "SyncTxQueue (mc bz)") (auto simp: sync_size_def)
  ultimately show ?thesis
    using n_second_share [OF assms(3,4)] block_size_bound_iff [of bz]
    by (simp add: first_budget_def reg_pay_size_eq left_diff_distrib)
qed

section \<open>The figures of a block\<close>

lemma named_partition:
  "\<forall>(i, e) \<in> set rows. fq_Name e \<in> known_names \<Longrightarrow>
   int (length rows) = count_named ''TxServAgrCommit'' rows + count_named ''TxStoragePayment'' rows +
     count_named ''TxPor'' rows + count_named ''TxServAgrPropose'' rows + count_named ''TxSync'' rows"
  by (induction rows) (auto simp: count_named_def named_def known_names_def)

text \<open>
  without a side chain the number of transactions recorded for the round is the number of
  rows that left the three queues.
\<close>

theorem take_counts:
  assumes "queues_wf (mc bz)" and "updateMainChainBCTransactionQueueTake bz = Inr bz'"
    and "SimState (cfg bz) = 1"
    and "(i, row) \<in> set (RoundTable (mc bz'))" and "rt_RoundNumber row = MCRoundNumber bz"
  shows "rt_TotalNumTx row =
    int (length (FirstQueue (mc bz)) - length (FirstQueue (mc bz'))) +
    int (length (SecondQueue (mc bz)) - length (SecondQueue (mc bz'))) +
    int (length (SyncTxQueue (mc bz)) - length (SyncTxQueue (mc bz')))"
proof -
  from taken_round_row [OF assms(1,2,4,5)] obtain old where row: "row = final_row bz old" .
  from take_Inr [OF assms(1,2)] obtain ov where bz': "bz' = after_take bz ov" by blast
  have "\<forall>(i, e) \<in> set (taken_first bz). fq_Name e \<in> known_names"
    using assms(1) by (auto simp: queues_wf_def taken_first_def dest: in_set_takeD)
  from named_partition [OF this] show ?thesis
    using n_first_le(1) [of bz] n_second_le(1) [of bz] assms(3)
    by (simp add: row bz' final_row_def Let_def first_total_def por_count_def sync_rows_length
        taken_sync_def taken_first_def)
qed

section \<open>The agreements\<close>

text \<open>A row of an agreement changes exactly when a commit for it is in the block.\<close>

definition commits :: "(nat \<times> MainChainFirstQueueEntry) list \<Rightarrow> int set" where
  "commits rows = (\<lambda>(i, e). fq_ServAgrId e) ` set (named ''TxServAgrCommit'' rows)"

lemma activate_all_eq:
  "activate_all r rows t = tbl_update (\<lambda>i row. mm_ServAgrId row \<in> commits rows)
     (\<lambda>row. row\<lparr>mm_Published := True, mm_StartedMcRoundNumber := r\<rparr>) t"
proof -
  have "foldl (\<lambda>t (i, e). activate r (fq_ServAgrId e) t) t cs =
      tbl_update (\<lambda>i row. mm_ServAgrId row \<in> (\<lambda>(i, e). fq_ServAgrId e) ` set cs)
        (\<lambda>row. row\<lparr>mm_Published := True, mm_StartedMcRoundNumber := r\<rparr>) t" for cs
  proof (induction cs rule: rev_induct)
    case Nil
    then show ?case by (simp add: tbl_update_def)
  next
    case (snoc c cs)
    then show ?case
      by (cases c) (simp add: activate_def tbl_update_again disj_commute)
  qed
  then show ?thesis by (simp add: activate_all_def commits_def)
qed

text \<open>
  an agreement becomes published with the current round as its start exactly when a commit
  transaction for it leaves the first queue; every other agreement keeps its row.
\<close>

theorem take_activates:
  assumes "queues_wf (mc bz)" and "updateMainChainBCTransactionQueueTake bz = Inr bz'"
  shows "MarketMatching (mc bz') = map (\<lambda>(i, row).
      if mm_ServAgrId row \<in> commits (take (length (FirstQueue (mc bz)) - length (FirstQueue (mc bz'))) (FirstQueue (mc bz)))
      then (i, row\<lparr>mm_Published := True, mm_StartedMcRoundNumber := MCRoundNumber bz\<rparr>) else (i, row))
    (MarketMatching (mc bz))"
proof -
  from take_Inr [OF assms] obtain ov where bz': "bz' = after_take bz ov" by blast
  then show ?thesis
    using n_first_le(1) [of bz] by (simp add: activate_all_eq tbl_update_def taken_first_def)
qed

section \<open>A sample block\<close>

definition sample_round_row :: "int \<Rightarrow> MainRoundRow" where
  "sample_round_row r = \<lparr>rt_RoundNumber = r, rt_Seed = ''seed'', rt_BCSize = 0, rt_RoundLeader = ''s1'',
     rt_RegPayTx = 0, rt_PoRTx = 0, rt_StorjPayTx = 0, rt_CntPropTx = 0, rt_CntCmtTx = 0,
     rt_StartTime = 0, rt_TotalNumTx = 0, rt_AveWaitOtherTxs = None, rt_AveWaitRegPay = None,
     rt_ConfirmationTime = None, rt_RegSpaceFull = False, rt_BlockSpaceFull = False, rt_SyncTx = 0,
     rt_ScPorTx = 0\<rparr>"

definition sample_agreement :: "int \<Rightarrow> MarketMatchingRow" where
  "sample_agreement i = \<lparr>mm_ServerInfo = Some ''s1'', mm_FileSize = 100, mm_ServAgrDuration = 40,
     mm_StartedMcRoundNumber = 0, mm_ServAgrId = i, mm_Published = False, mm_TxIssued = True\<rparr>"

text \<open>Three transactions wait for a block of 2000 bytes; the sync transaction has the size given.\<close>

definition sample_take :: "u32 \<Rightarrow> ChainBoost" where
  "sample_take sync = sample_bz\<lparr>cfg := sample_cfg\<lparr>MainChainBlockSize := 2000\<rparr>,
     mc := sample_mcdb\<lparr>
       MarketMatching := [(1, sample_agreement 1), (2, sample_agreement 2)],
       FirstQueue := [(1, first_entry sample_world ''TxServAgrPropose'' 583 1 1),
                      (2, first_entry sample_world ''TxServAgrCommit'' 79 1 1),
                      (3, first_entry sample_world ''TxServAgrPropose'' 583 1 2)],
       SecondQueue := [(1, \<lparr>sq_Time = 0, sq_Size = 398, sq_RoundIssued = 1\<rparr>),
                       (2, \<lparr>sq_Time = 0, sq_Size = 398, sq_RoundIssued = 1\<rparr>)],
       SyncTxQueue := [(1, first_entry sample_world ''TxSync'' sync 1 7)],
       RoundTable := [(1, sample_round_row 1)]\<rparr>\<rparr>"

lemma sample_take_wf: "queues_wf (mc (sample_take s))" "round_fresh (sample_take s)"
  by (simp_all add: queues_wf_def round_fresh_def sample_take_def sample_mcdb_def InitalizeMainChainDbTables_def
      wf_table_def known_names_def first_entry_def)

theorem take_meets_contract_witness:
  "\<exists>bz' n1 n2. updateMainChainBCTransactionQueueTake (sample_take 4) = Inr bz' \<and>
     block_contract (sample_take 4) bz' n1 n2"
  using take_meets_contract [OF sample_take_wf] .

lemma sample_take_cfg:
  "MainChainBlockSize (cfg (sample_take s)) = 2000" "PercentageTxPay (cfg (sample_take s)) = 30"
  "SimState (cfg (sample_take s)) = 1" "MCRoundNumber (sample_take s) = 1"
  "SyncTxQueue (mc (sample_take s)) = [(1, first_entry sample_world ''TxSync'' s 1 7)]"
  "RoundTable (mc (sample_take s)) = [(1, sample_round_row 1)]"
  by (simp_all add: sample_take_def sample_bz_def sample_cfg_def)

lemma sample_take_queues:
  "map (\<lambda>(i, e). uint (fq_Size e)) (FirstQueue (mc (sample_take s))) = [583, 79, 583]"
  "second_sizes (SecondQueue (mc (sample_take s))) = [398, 398]"
  "length (FirstQueue (mc (sample_take s))) = 3" "length (SecondQueue (mc (sample_take s))) = 2"
  by (simp_all add: sample_take_def second_sizes_def first_entry_def)

lemma sample_take_n: "n_second (sample_take s) = 1" "n_first (sample_take 4) = 3" 
  by (simp_all add: n_second_def n_first_def sample_take_cfg sample_take_queues MainChainGetSecondQueue_def
      MainChainGetFirstQueue_def second_sizes_take first_sizes_take sync_size_def first_entry_def
      first_sizes_def reg_pay_size_eq)

lemma final_row_number [simp]: "rt_RoundNumber (final_row bz row) = rt_RoundNumber row"
  by (simp add: final_row_def Let_def)

lemma sample_take_result:
  "\<exists>bz' row. updateMainChainBCTransactionQueueTake (sample_take s) = Inr bz' \<and>
     (1, row) \<in> set (RoundTable (mc bz')) \<and> rt_RoundNumber row = MCRoundNumber (sample_take s) \<and>
     length (FirstQueue (mc bz')) = 3 - n_first (sample_take s) \<and>
     length (SecondQueue (mc bz')) = 1 \<and> length (SyncTxQueue (mc bz')) = 0"
proof -
  obtain ov where "updateMainChainBCTransactionQueueTake (sample_take s) = Inr (after_take (sample_take s) ov)"
    using take_returns [OF sample_take_wf] by blast
  moreover have "(1, final_row (sample_take s) (sample_round_row 1)) \<in> set (RoundTable (mc (after_take (sample_take s) ov)))"
    by (simp add: sample_take_cfg tbl_update_def sample_round_row_def)
  moreover have "rt_RoundNumber (final_row (sample_take s) (sample_round_row 1)) = MCRoundNumber (sample_take s)"
    by (simp add: sample_take_cfg sample_round_row_def)
  moreover have "length (FirstQueue (mc (after_take (sample_take s) ov))) = 3 - n_first (sample_take s)"
      "length (SecondQueue (mc (after_take (sample_take s) ov))) = 1"
      "length (SyncTxQueue (mc (after_take (sample_take s) ov))) = 0"
    by (simp_all add: sample_take_queues sample_take_cfg sample_take_n)
  ultimately show ?thesis by blast
qed

theorem take_block_limit_witness:
  "\<exists>bz' row. updateMainChainBCTransactionQueueTake (sample_take 2000) = Inr bz' \<and>
     (1, row) \<in> set (RoundTable (mc bz')) \<and> \<not> rt_BCSize row \<le> MainChainBlockSize (cfg (sample_take 2000))"
proof -
  obtain bz' row where t: "updateMainChainBCTransactionQueueTake (sample_take 2000) = Inr bz'"
    and r: "(1, row) \<in> set (RoundTable (mc bz'))" "rt_RoundNumber row = MCRoundNumber (sample_take 2000)"
    and "length (SecondQueue (mc bz')) = 1"
    using sample_take_result by blast
  then have "\<not> rt_BCSize row \<le> MainChainBlockSize (cfg (sample_take 2000))"
    using take_block_limit [OF sample_take_wf(1) t r]
    by (simp add: sample_take_cfg sample_take_queues first_entry_def)
  with t r show ?thesis by blast
qed

theorem take_block_within_limit_witness:
  "\<exists>bz' row. updateMainChainBCTransactionQueueTake (sample_take 4) = Inr bz' \<and>
     (1, row) \<in> set (RoundTable (mc bz')) \<and> rt_BCSize row \<le> MainChainBlockSize (cfg (sample_take 4))"
proof -
  obtain bz' row where t: "updateMainChainBCTransactionQueueTake (sample_take 4) = Inr bz'"
    and r: "(1, row) \<in> set (RoundTable (mc bz'))" "rt_RoundNumber row = MCRoundNumber (sample_take 4)"
    using sample_take_result by blast
  have "rt_BCSize row \<le> MainChainBlockSize (cfg (sample_take 4))"
    by (rule take_block_within_limit [OF sample_take_wf(1) t _ _ _ _ r])
      (simp_all add: sample_take_cfg first_entry_def)
  with t r show ?thesis by blast
qed

theorem take_counts_witness:
  "\<exists>bz' row. updateMainChainBCTransactionQueueTake (sample_take 4) = Inr bz' \<and>
     (1, row) \<in> set (RoundTable (mc bz')) \<and> rt_TotalNumTx row = 5"
proof -
  obtain bz' row where t: "updateMainChainBCTransactionQueueTake (sample_take 4) = Inr bz'"
    and r: "(1, row) \<in> set (RoundTable (mc bz'))" "rt_RoundNumber row = MCRoundNumber (sample_take 4)"
    and len: "length (FirstQueue (mc bz')) = 3 - n_first (sample_take 4)" "length (SecondQueue (mc bz')) = 1"
      "length (SyncTxQueue (mc bz')) = 0"
    using sample_take_result by blast
  have "rt_TotalNumTx row = 5"
    using take_counts [OF sample_take_wf(1) t _ r]
    by (simp add: len sample_take_cfg sample_take_queues sample_take_n)
  with t r show ?thesis by blast
qed

theorem take_activates_witness:
  "\<exists>bz'. updateMainChainBCTransactionQueueTake (sample_take 4) = Inr bz' \<and>
     map (\<lambda>(i, row). (mm_ServAgrId row, mm_Published row)) (MarketMatching (mc bz')) = [(1, True), (2, False)]"
proof -
  obtain bz' row where t: "updateMainChainBCTransactionQueueTake (sample_take 4) = Inr bz'"
    and len: "length (FirstQueue (mc bz')) = 3 - n_first (sample_take 4)"
    using sample_take_result by blast
  have commits: "commits (FirstQueue (mc (sample_take 4))) = {1}"
    by (simp add: sample_take_def first_entry_def commits_def named_def)
  have mm: "MarketMatching (mc (sample_take 4)) = [(1, sample_agreement 1), (2, sample_agreement 2)]"
    by (simp add: sample_take_def)
  have "map (\<lambda>(i, row). (mm_ServAgrId row, mm_Published row)) (MarketMatching (mc bz')) = [(1, True), (2, False)]"
    unfolding take_activates [OF sample_take_wf(1) t] len sample_take_queues sample_take_n mm
    by (simp add: sample_take_queues(3) commits sample_agreement_def)
  with t show ?thesis by (intro exI [of _ bz'] conjI)
qed

end
