(* ===== verification/CentralBC.thy ===== *)
theory CentralBC
  imports ChainBoost
begin

text \<open>
  \<open>blockchain/centralbc.go\<close>: the databases a simulation starts from. \<open>nrm\<close> gives the values of
  \<open>rand.NormFloat64\<close> for a seed and \<open>intn\<close> of the world those of \<open>rand.Intn\<close>; the generator is
  seeded anew for each of the two columns.
\<close>

record ExperimentConfig =
  FileSizeDistributionMean :: rat
  FileSizeDistributionVariance :: rat
  ServAgrDurationDistributionMean :: rat
  ServAgrDurationDistributionVariance :: rat
  ec_SimulationSeed :: int
  Nodes :: int
  ec_NumberOfActiveContractsPerServer :: int

text \<open>The loop runs \<open>n\<close> times; draw \<open>k\<close> belongs to iteration \<open>k + 1\<close>.\<close>

definition normal_value :: "(int \<Rightarrow> nat \<Rightarrow> rat) \<Rightarrow> rat \<Rightarrow> rat \<Rightarrow> int \<Rightarrow> nat \<Rightarrow> rat" where
  "normal_value nrm variance mean seed k =
    (let val = mean + variance * nrm seed k in if val < 1 then 1 else val)"

definition generateNormalValues :: "(int \<Rightarrow> nat \<Rightarrow> rat) \<Rightarrow> rat \<Rightarrow> rat \<Rightarrow> int \<Rightarrow> int \<Rightarrow> rat list" where
  "generateNormalValues nrm variance mean n seed =
     map (normal_value nrm variance mean seed) [0..<nat n]"

text \<open>The loop over the file sizes, with the durations of the same index.\<close>

fun insert_agreements :: "world \<Rightarrow> int \<Rightarrow> (rat \<times> rat) list \<Rightarrow> mcdb \<Rightarrow> fault + mcdb" where
  "insert_agreements w i [] db = Inr db"
| "insert_agreements w i ((sz, dur) # rows) db =
     bindR (orPanic (InitialInsertValuesIntoMarketMatchingTable (f_to_int w (Fin sz)) (f_to_int w (Fin dur))
              0 (i + 1) True True db)) (\<lambda>db'. insert_agreements w (i + 1) rows db')"

definition InitializeMainChainBC ::
    "(int \<Rightarrow> nat \<Rightarrow> rat) \<Rightarrow> world \<Rightarrow> ExperimentConfig \<Rightarrow> mcdb option \<Rightarrow> fault + mcdb" where
  "InitializeMainChainBC nrm w exconf open_db =
    (let n = Nodes exconf * ec_NumberOfActiveContractsPerServer exconf;
         seed = ec_SimulationSeed exconf;
         FileSizeRow = generateNormalValues nrm (FileSizeDistributionVariance exconf)
           (FileSizeDistributionMean exconf) n seed;
         ServAgrDurationRow = generateNormalValues nrm (ServAgrDurationDistributionVariance exconf)
           (ServAgrDurationDistributionMean exconf) n seed
     in bindR (orPanic (InitalizeMainChainDbTables open_db)) (\<lambda>db0.
        bindR (insert_agreements w 0 (zip FileSizeRow ServAgrDurationRow) db0) (\<lambda>db1.
        bindR (orPanic (InsertIntoMainChainRoundTable 0 (itoa seed) 0 [] 0 0 0 0 0 (now w) 0 (Fin 0) (Fin 0)
                 False False False db1)) (\<lambda>db2.
        if seed \<le> 0 then Inl (PanicMsg ''invalid argument to Intn'')
        else let hash = sha256hex w (itoa (intn w (nat n) seed))
          in Inr (snd (InsertIntoMainChainRoundTable 1 hash 0 [] 0 0 0 0 0 (now w) 0 (Fin 0) (Fin 0)
                 False False False db2))))))"

definition InitializeSideChainBC :: "scdb option \<Rightarrow> fault + scdb" where
  "InitializeSideChainBC open_db = orPanic (InitalizeSideChainDbTables open_db)"

section \<open>Facts\<close>

lemma normal_value_ge: "1 \<le> normal_value nrm v m seed k"
  by (simp add: normal_value_def Let_def)

lemma length_generateNormalValues [simp]: "length (generateNormalValues nrm v m n seed) = nat n"
  by (simp add: generateNormalValues_def)

lemma generateNormalValues_nth:
  "k < nat n \<Longrightarrow> generateNormalValues nrm v m n seed ! k = normal_value nrm v m seed k"
  by (simp add: generateNormalValues_def)

definition new_agreement :: "world \<Rightarrow> nat \<Rightarrow> rat \<times> rat \<Rightarrow> nat \<times> MarketMatchingRow" where
  "new_agreement w i v = (Suc i, \<lparr>mm_ServerInfo = None, mm_FileSize = f_to_int w (Fin (fst v)),
     mm_ServAgrDuration = f_to_int w (Fin (snd v)), mm_StartedMcRoundNumber = 0,
     mm_ServAgrId = int (Suc i), mm_Published = True, mm_TxIssued = True\<rparr>)"

lemma next_rowid_upt: "map fst t = [1..<Suc (length t)] \<Longrightarrow> next_rowid t = Suc (length t)"
proof -
  have "foldr max [1..<Suc n] 0 = n" for n :: nat
  proof (induction n)
    case (Suc n)
    have step: "foldr max xs m = max (foldr max xs 0) m" for xs :: "nat list" and m
      by (induction xs) auto
    from Suc show ?case by (simp add: step [of _ "Suc n"])
  qed simp
  then show "map fst t = [1..<Suc (length t)] \<Longrightarrow> next_rowid t = Suc (length t)"
    by (simp add: next_rowid_def)
qed

lemma insert_agreements_eq:
  assumes "map fst (MarketMatching db) = [1..<Suc (length (MarketMatching db))]"
    and "i = int (length (MarketMatching db))"
  shows "insert_agreements w i vs db = Inr (db\<lparr>MarketMatching := MarketMatching db @
      map (\<lambda>(k, v). new_agreement w k v) (zip [length (MarketMatching db)..<length (MarketMatching db) + length vs] vs)\<rparr>)"
  using assms
proof (induction vs arbitrary: i db)
  case Nil
  then show ?case by simp
next
  case (Cons v vs)
  obtain sz dur where v: "v = (sz, dur)" by (cases v)
  let ?t = "MarketMatching db"
  let ?db = "db\<lparr>MarketMatching := ?t @ [new_agreement w (length ?t) v]\<rparr>"
  have ins: "InitialInsertValuesIntoMarketMatchingTable (f_to_int w (Fin sz)) (f_to_int w (Fin dur)) 0 (i + 1)
      True True db = (None, ?db)"
    using Cons.prems
    by (simp add: InitialInsertValuesIntoMarketMatchingTable_def tbl_insert_def next_rowid_upt new_agreement_def v
        add.commute del: upt_Suc f_to_int.simps)
  have ok: "map fst (MarketMatching ?db) = [1..<Suc (length (MarketMatching ?db))]"
    using Cons.prems(1) by (simp add: new_agreement_def)
  have len: "i + 1 = int (length (MarketMatching ?db))" using Cons.prems(2) by simp
  have "insert_agreements w (i + 1) vs ?db = Inr (?db\<lparr>MarketMatching := MarketMatching ?db @
      map (\<lambda>(k, v). new_agreement w k v) (zip [length (MarketMatching ?db)..<length (MarketMatching ?db) + length vs] vs)\<rparr>)"
    by (rule Cons.IH [OF ok len])
  moreover have "[length ?t..<length ?t + length (v # vs)] = length ?t # [Suc (length ?t)..<Suc (length ?t + length vs)]"
    by (simp add: upt_conv_Cons del: upt_Suc)
  ultimately show ?case
    using ins by (simp add: v del: upt_Suc f_to_int.simps)
qed

end
