(* ===== verification/Transition.thy ===== *)
theory Transition
  imports Main
begin

text \<open>
  Reachable states of a step relation, and the contract of an invariant: it holds at the start and
  every step keeps it. The main chain operations, the committee rounds and the signing protocol
  instantiate the locale.
\<close>

inductive reachable :: "('s \<Rightarrow> bool) \<Rightarrow> ('s \<Rightarrow> 's \<Rightarrow> bool) \<Rightarrow> 's \<Rightarrow> bool"
  for start :: "'s \<Rightarrow> bool" and step :: "'s \<Rightarrow> 's \<Rightarrow> bool" where
  at_start: "start s \<Longrightarrow> reachable start step s"
| next_step: "reachable start step s \<Longrightarrow> step s s' \<Longrightarrow> reachable start step s'"

inductive_cases reachableE: "reachable start step s"

locale invariant_system =
  fixes start :: "'s \<Rightarrow> bool" and step :: "'s \<Rightarrow> 's \<Rightarrow> bool" and inv :: "'s \<Rightarrow> bool"
  assumes inv_start: "start s \<Longrightarrow> inv s"
    and inv_step: "step s s' \<Longrightarrow> inv s \<Longrightarrow> inv s'"
begin

lemma reachable_inv: "reachable start step s \<Longrightarrow> inv s"
  by (induction rule: reachable.induct) (auto intro: inv_start inv_step)

lemma reachable_step_inv: "reachable start step s \<Longrightarrow> step s s' \<Longrightarrow> inv s \<and> inv s'"
  using inv_step reachable_inv by blast

end

end
