(* ===== verification/MainChainAgreements.thy ===== *)
theory MainChainAgreements
  imports MainChainCollect MainChainBlock CentralBC Transition
begin

text \<open>
  The life cycle of the agreements over any sequence of operations of the root: an agreement is
  idle, proposed (its commit waits in the first queue), active, and idle again after it expired.
\<close>

section \<open>The life cycle of an agreement\<close>

definition commit_for :: "int \<Rightarrow> MainChainFirstQueueEntry \<Rightarrow> bool" where
  "commit_for a e \<longleftrightarrow> fq_Name e = ''TxServAgrCommit'' \<and> fq_ServAgrId e = a"

definition pending_commits :: "int \<Rightarrow> MainChainFirstQueueEntry list \<Rightarrow> nat" where
  "pending_commits a es = length (filter (commit_for a) es)"

definition agreements_inv :: "mcdb \<Rightarrow> bool" where
  "agreements_inv db \<longleftrightarrow> market_ok (MarketMatching db) \<and> queues_wf db \<and>
     (\<forall>(i, row) \<in> set (MarketMatching db).
        pending_commits (int i) (map snd (FirstQueue db)) = (if is_proposed row then 1 else 0))"

lemma pending_commits_append [simp]:
  "pending_commits a (es @ fs) = pending_commits a es + pending_commits a fs"
  by (simp add: pending_commits_def)

lemma pending_commits_Nil [simp]: "pending_commits a [] = 0"
  by (simp add: pending_commits_def)

lemma pending_commits_zero_iff: "pending_commits a es = 0 \<longleftrightarrow> (\<forall>e \<in> set es. \<not> commit_for a e)"
  by (simp add: pending_commits_def filter_empty_conv)

lemma pending_commits_txs:
  assumes "distinct (map fst t)" and "(i, row) \<in> set t"
  shows "pending_commits (int i) (concat (map (agr_mc_txs w bz) t)) = (if is_idle row then 1 else 0)"
  using assms
proof (induction t)
  case Nil
  then show ?case by simp
next
  case (Cons p t)
  obtain j row' where p: "p = (j, row')" by (cases p)
  have one: "pending_commits (int i) (agr_mc_txs w bz (j, row')) = (if j = i \<and> is_idle row' then 1 else 0)"
    by (simp add: agr_mc_txs_def pending_commits_def commit_for_def first_entry_def Let_def)
  have other: "pending_commits (int i) (concat (map (agr_mc_txs w bz) t)) = 0" if "i \<notin> fst ` set t"
    using that by (auto simp: pending_commits_zero_iff agr_mc_txs_def commit_for_def first_entry_def Let_def
        image_iff split: if_splits) 
  show ?case
  proof (cases "j = i")
    case True
    with Cons.prems have "row = row'" "i \<notin> fst ` set t"
      by (auto simp: p dest: in_set_zipE intro: rev_image_eqI)
    with one other True show ?thesis by (simp add: p)
  next
    case False
    with Cons one show ?thesis by (simp add: p)
  qed
qed

lemma agr_mc_txs_known: "e \<in> set (agr_mc_txs w bz p) \<Longrightarrow> fq_Name e \<in> known_names"
  by (cases p) (auto simp: agr_mc_txs_def first_entry_def known_names_def Let_def split: if_splits)

lemma queues_wf_insert:
  assumes "queues_wf db" and "\<forall>e \<in> set es. fq_Name e \<in> known_names"
    and "FirstQueue db' = tbl_insert_all es (FirstQueue db)" and "wf_table (SecondQueue db')"
  shows "queues_wf db'"
proof -
  have "set (map snd (FirstQueue db')) = set (map snd (FirstQueue db) @ es)"
    unfolding assms(3) tbl_insert_all_rows ..
  then have "snd ` set (FirstQueue db') = snd ` set (FirstQueue db) \<union> set es" by simp
  then have "\<forall>e \<in> snd ` set (FirstQueue db'). fq_Name e \<in> known_names"
    using assms(1,2) by (force simp: queues_wf_def)
  then show ?thesis
    using assms by (fastforce simp: queues_wf_def)
qed

lemma market_ok_map:
  assumes "market_ok t" and "\<And>row. mm_ServAgrId (f row) = mm_ServAgrId row"
    and "\<And>row. mm_ServerInfo (f row) = mm_ServerInfo row"
    and "\<And>row. (mm_Published row \<Longrightarrow> mm_TxIssued row) \<Longrightarrow> mm_Published (f row) \<Longrightarrow> mm_TxIssued (f row)"
  shows "market_ok (map (\<lambda>(i, row). (i, f row)) t)"
proof -
  have "map fst (map (\<lambda>(i, row). (i, f row)) t) = map fst t" by (simp add: comp_def case_prod_unfold)
  moreover have "mm_Published (f row) \<longrightarrow> mm_TxIssued (f row)" if "(i, row) \<in> set t" for i row
    using assms(1,4) that by (auto simp: market_ok_def)
  ultimately have "\<forall>(i, row) \<in> set (map (\<lambda>(i, row). (i, f row)) t).
      mm_ServAgrId row = int i \<and> mm_ServerInfo row \<noteq> None \<and> (mm_Published row \<longrightarrow> mm_TxIssued row)"
    using assms(1) by (auto simp: market_ok_def assms(2,3))
  with \<open>map fst (map (\<lambda>(i, row). (i, f row)) t) = map fst t\<close> assms(1) show ?thesis
    unfolding market_ok_def length_map by argo
qed

lemma agr_next_simps [simp]:
  "mm_ServAgrId (agr_next r row) = mm_ServAgrId row"
  "mm_ServerInfo (agr_next r row) = mm_ServerInfo row"
  "mm_FileSize (agr_next r row) = mm_FileSize row"
  "mm_ServAgrDuration (agr_next r row) = mm_ServAgrDuration row"
  by (simp_all add: agr_next_def)

lemma collect_keeps_agreements:
  assumes "agreements_inv (mc bz)"
  shows "agreements_inv (mc (after_collect w bz n))"
proof -
  let ?t = "MarketMatching (mc bz)" and ?r = "MCRoundNumber bz"
  from assms have ok: "market_ok ?t" and q: "queues_wf (mc bz)" by (auto simp: agreements_inv_def)
  have "market_ok (map (\<lambda>(i, row). (i, agr_next ?r row)) ?t)"
    by (rule market_ok_map [OF ok]) (auto simp: agr_next_def split: if_splits)
  moreover have "queues_wf (mc (after_collect w bz n))"
    by (rule queues_wf_insert [OF q, of "mc_txs w bz"])
      (use q in \<open>auto simp: after_collect_def mc_txs_def queues_wf_def dest: agr_mc_txs_known\<close>)
  moreover have "pending_commits (int i) (map snd (FirstQueue (mc bz)) @ mc_txs w bz) =
      (if is_proposed (agr_next ?r row) then 1 else 0)" if "(i, row) \<in> set ?t" for i row
  proof -
    have "distinct (map fst ?t)" using ok by (simp add: market_ok_def del: upt_Suc)
    from pending_commits_txs [OF this that] have "pending_commits (int i) (mc_txs w bz) = (if is_idle row then 1 else 0)"
      by (simp add: mc_txs_def)
    moreover have "pending_commits (int i) (map snd (FirstQueue (mc bz))) = (if is_proposed row then 1 else 0)"
      using assms that by (auto simp: agreements_inv_def)
    ultimately show ?thesis
      using ok that by (auto simp: market_ok_def agr_next_def is_idle_def is_proposed_def is_expired_def)
  qed
  moreover have "MarketMatching (mc (after_collect w bz n)) = map (\<lambda>(i, row). (i, agr_next ?r row)) ?t"
      "map snd (FirstQueue (mc (after_collect w bz n))) = map snd (FirstQueue (mc bz)) @ mc_txs w bz"
    by (simp_all add: after_collect_def)
  ultimately show ?thesis
    unfolding agreements_inv_def by (auto simp del: pending_commits_append)
qed


lemma pending_commits_take:
  "a \<in> commits rows \<longleftrightarrow> 0 < pending_commits a (map snd rows)"
  by (auto simp: commits_def named_def pending_commits_def commit_for_def filter_empty_conv image_iff
      simp flip: length_greater_0_conv; force)

lemma taken_commit_proposed:
  assumes "agreements_inv (mc bz)" and "(i, row) \<in> set (MarketMatching (mc bz))"
    and "mm_ServAgrId row \<in> commits (taken_first bz)"
  shows "is_proposed row"
proof -
  have "map snd (FirstQueue (mc bz)) = map snd (taken_first bz) @ map snd (drop (n_first bz) (FirstQueue (mc bz)))"
    by (simp add: taken_first_def flip: map_append)
  moreover have "mm_ServAgrId row = int i \<and> pending_commits (int i) (map snd (FirstQueue (mc bz))) =
      (if is_proposed row then 1 else 0)"
    using assms(1,2) by (auto simp: agreements_inv_def market_ok_def)
  ultimately show ?thesis
    using assms(3) by (auto simp: pending_commits_take split: if_splits)
qed

lemma take_keeps_agreements:
  assumes "agreements_inv (mc bz)"
  shows "agreements_inv (mc (after_take bz ov))"
proof -
  let ?t = "MarketMatching (mc bz)" and ?r = "MCRoundNumber bz"
  let ?f = "\<lambda>row. if mm_ServAgrId row \<in> commits (taken_first bz)
       then row\<lparr>mm_Published := True, mm_StartedMcRoundNumber := ?r\<rparr> else row"
  from assms have ok: "market_ok ?t" and q: "queues_wf (mc bz)" by (auto simp: agreements_inv_def)
  have mm: "MarketMatching (mc (after_take bz ov)) = map (\<lambda>(i, row). (i, ?f row)) ?t"
    by (auto simp: activate_all_eq tbl_update_def)
  have split: "map snd (FirstQueue (mc bz)) =
      map snd (taken_first bz) @ map snd (FirstQueue (mc (after_take bz ov)))"
    by (simp add: taken_first_def flip: map_append)
  have agr: "(mm_ServAgrId row = int i \<and> (mm_Published row \<longrightarrow> mm_TxIssued row)) \<and>
      pending_commits (int i) (map snd (taken_first bz)) +
        pending_commits (int i) (map snd (FirstQueue (mc (after_take bz ov)))) = (if is_proposed row then 1 else 0)"
    if "(i, row) \<in> set ?t" for i row
    using assms that unfolding agreements_inv_def split by (auto simp: market_ok_def)
  have proposed: "is_proposed row" if "(i, row) \<in> set ?t" "mm_ServAgrId row \<in> commits (taken_first bz)" for i row
    using taken_commit_proposed [OF assms that] .
  have pub: "mm_Published (?f row) \<longrightarrow> mm_TxIssued row" if "(i, row) \<in> set ?t" for i row
    using agr [OF that] proposed [OF that] by (auto simp: is_proposed_def split: if_splits)
  have "market_ok (map (\<lambda>(i, row). (i, ?f row)) ?t)"
  proof -
    have m: "map fst (map (\<lambda>(i, row). (i, ?f row)) ?t) = map fst ?t" by (simp add: comp_def case_prod_unfold)
    have "\<forall>(i, row) \<in> set (map (\<lambda>(i, row). (i, ?f row)) ?t).
        mm_ServAgrId row = int i \<and> mm_ServerInfo row \<noteq> None \<and> (mm_Published row \<longrightarrow> mm_TxIssued row)"
      using ok pub by (auto simp: market_ok_def)
    with m ok show ?thesis unfolding market_ok_def length_map by argo
  qed
  moreover have "queues_wf (mc (after_take bz ov))"
    using q by (auto simp: queues_wf_def dest: in_set_dropD)
  moreover have "pending_commits (int i) (map snd (FirstQueue (mc (after_take bz ov)))) =
      (if is_proposed (?f row) then 1 else 0)" if "(i, row) \<in> set ?t" for i row
    using agr [OF that] proposed [OF that]
    by (auto simp: pending_commits_take is_proposed_def split: if_splits)
  ultimately show ?thesis
    unfolding agreements_inv_def mm by auto
qed


lemma agreements_inv_frame:
  "agreements_inv db \<Longrightarrow> MarketMatching db' = MarketMatching db \<Longrightarrow> FirstQueue db' = FirstQueue db \<Longrightarrow>
   SecondQueue db' = SecondQueue db \<Longrightarrow> agreements_inv db'"
  by (simp add: agreements_inv_def queues_wf_def)

lemma storage_unfold:
  "StoragePaymentMainChainBCTransactionQueueCollect w bz =
     Inr (bz\<lparr>mc := (mc bz)\<lparr>FirstQueue := tbl_insert_all (storage_payments w bz) (FirstQueue (mc bz))\<rparr>\<rparr>)"
  by (simp add: StoragePaymentMainChainBCTransactionQueueCollect_def mc_first.batched_put)

lemma storage_payments_names: "e \<in> set (storage_payments w bz) \<Longrightarrow> fq_Name e = ''TxStoragePayment''"
  by (auto simp: storage_payments_def first_entry_def)

lemma storage_keeps_agreements:
  assumes "agreements_inv (mc bz)" and "StoragePaymentMainChainBCTransactionQueueCollect w bz = Inr bz'"
  shows "agreements_inv (mc bz')"
proof -
  from assms(2) have bz': "mc bz' = (mc bz)\<lparr>FirstQueue := tbl_insert_all (storage_payments w bz) (FirstQueue (mc bz))\<rparr>"
    by (auto simp: storage_unfold)
  have "queues_wf (mc bz')"
    by (rule queues_wf_insert [of "mc bz" "storage_payments w bz"])
      (use assms(1) in \<open>auto simp: bz' agreements_inv_def queues_wf_def known_names_def dest: storage_payments_names\<close>)
  moreover have "pending_commits a (storage_payments w bz) = 0" for a
    by (auto simp: pending_commits_zero_iff commit_for_def dest: storage_payments_names)
  ultimately show ?thesis
    using assms(1) by (auto simp: agreements_inv_def bz')
qed

lemma sync_unfold:
  "syncMainChainBCTransactionQueueCollect w bz = Inr (bz', n) \<Longrightarrow>
   MarketMatching (mc bz') = MarketMatching (mc bz) \<and> FirstQueue (mc bz') = FirstQueue (mc bz) \<and>
   SecondQueue (mc bz') = SecondQueue (mc bz)"
  by (auto simp: syncMainChainBCTransactionQueueCollect_def Let_def InsertIntoMainChainSyncTxQueue_def)

lemma power_unfold:
  "updateBCPowerRound w leader bz = Inr bz' \<Longrightarrow>
   MarketMatching (mc bz') = MarketMatching (mc bz) \<and> FirstQueue (mc bz') = FirstQueue (mc bz) \<and>
   SecondQueue (mc bz') = SecondQueue (mc bz)"
  by (auto simp: updateBCPowerRound_def Let_def InsertIntoMainChainRoundTable_def MainChainUpdatePowerTable_def
      bindR_Inr_iff orPanic_Inr_iff split: if_splits)

section \<open>Sequences of operations\<close>

text \<open>What the root node does to the main chain between two points of a simulation.\<close>

inductive main_step :: "world \<Rightarrow> ChainBoost \<Rightarrow> ChainBoost \<Rightarrow> bool" where
  collect: "updateMainChainBCTransactionQueueCollect w bz = Inr bz' \<Longrightarrow> collect_divides bz \<Longrightarrow> main_step w bz bz'"
| take: "updateMainChainBCTransactionQueueTake bz = Inr bz' \<Longrightarrow> main_step w bz bz'"
| sync: "syncMainChainBCTransactionQueueCollect w bz = Inr (bz', n) \<Longrightarrow> main_step w bz bz'"
| storage: "StoragePaymentMainChainBCTransactionQueueCollect w bz = Inr bz' \<Longrightarrow> main_step w bz bz'"
| powers: "updateBCPowerRound w leader bz = Inr bz' \<Longrightarrow> main_step w bz bz'"
| announce: "readBCAndSendtoOthers w bz = Inr bz' \<Longrightarrow> main_step w bz bz'"

lemma announce_mc: "readBCAndSendtoOthers w bz = Inr bz' \<Longrightarrow> mc bz' = mc bz"
proof -
  have send: "send_new_round w p s bs bz = Inr bz' \<Longrightarrow> mc bz' = mc bz" for p s bs bz bz'
    by (induction w p s bs bz rule: send_new_round.induct) (auto simp: SendTo_def split: option.splits if_splits)
  show "readBCAndSendtoOthers w bz = Inr bz' \<Longrightarrow> mc bz' = mc bz"
    by (auto simp: readBCAndSendtoOthers_def bindR_Inr_iff dest!: send split: if_splits)
qed

lemma main_step_keeps_agreements:
  "main_step w bz bz' \<Longrightarrow> agreements_inv (mc bz) \<Longrightarrow> agreements_inv (mc bz')"
proof (induction rule: main_step.induct)
  case (collect w bz bz')
  then have "market_ok (MarketMatching (mc bz))" by (simp add: agreements_inv_def)
  from collect_Inr [OF this collect(2,1)] obtain n where "bz' = after_collect w bz n" by blast
  with collect show ?case by (simp add: collect_keeps_agreements)
next
  case (take bz bz' w)
  then have "queues_wf (mc bz)" by (simp add: agreements_inv_def)
  from take_Inr [OF this take(1)] obtain ov where "bz' = after_take bz ov" by blast
  with take show ?case by (simp add: take_keeps_agreements del: after_take_simps)
next
  case (sync w bz bz' n)
  then show ?case using sync_unfold by (auto intro: agreements_inv_frame)
next
  case (storage w bz bz')
  then show ?case by (blast intro: storage_keeps_agreements)
next
  case (powers w leader bz bz')
  then show ?case using power_unfold by (auto intro: agreements_inv_frame)
next
  case (announce w bz bz')
  then show ?case using announce_mc by auto
qed

section \<open>The start of a simulation\<close>

lemma set_server_infos_eq:
  "set_server_infos k vs t = map (\<lambda>(i, r). (i,
     if k \<le> i \<and> i < k + length vs then r\<lparr>mm_ServerInfo := Some (vs ! (i - k))\<rparr> else r)) t"
proof (induction vs arbitrary: k t)
  case Nil
  show ?case by (simp, rule map_idI [symmetric], auto)
next
  case (Cons v vs)
  show ?case
    by (auto simp: Cons.IH tbl_update_def nth_Cons' Suc_le_eq)
qed

definition genesis :: "world \<Rightarrow> ExperimentConfig \<Rightarrow> mcdb \<Rightarrow> bool" where
  "genesis w exconf db \<longleftrightarrow> (\<exists>nrm. InitializeMainChainBC nrm w exconf None = Inr db)"

lemma genesis_tables:
  assumes "InitializeMainChainBC nrm w exconf None = Inr db"
  shows "map fst (MarketMatching db) = [1..<Suc (length (MarketMatching db))]"
    and "\<forall>(i, row) \<in> set (MarketMatching db). mm_ServAgrId row = int i \<and> mm_Published row \<and> mm_TxIssued row"
    and "length (MarketMatching db) = nat (Nodes exconf * ec_NumberOfActiveContractsPerServer exconf)"
    and "FirstQueue db = []" and "SecondQueue db = []" and "SyncTxQueue db = []"
    and "OverallEvaluation db = []" and "map (rt_RoundNumber \<circ> snd) (RoundTable db) = [0, 1]"
    and "PowerTable db = []" and "\<forall>(i, row) \<in> set (RoundTable db). rt_ScPorTx row = 0"
proof -
  let ?db0 = "snd (InitalizeMainChainDbTables None)"
  let ?n = "nat (Nodes exconf * ec_NumberOfActiveContractsPerServer exconf)"
  let ?vs = "zip (generateNormalValues nrm (FileSizeDistributionVariance exconf) (FileSizeDistributionMean exconf)
        (Nodes exconf * ec_NumberOfActiveContractsPerServer exconf) (ec_SimulationSeed exconf))
      (generateNormalValues nrm (ServAgrDurationDistributionVariance exconf)
        (ServAgrDurationDistributionMean exconf)
        (Nodes exconf * ec_NumberOfActiveContractsPerServer exconf) (ec_SimulationSeed exconf))"
  let ?t = "map (\<lambda>(k, v). new_agreement w k v) (zip [0..<?n] ?vs)"
  have len: "length ?vs = ?n" by simp
  have "insert_agreements w 0 ?vs ?db0 = Inr (?db0\<lparr>MarketMatching := ?t\<rparr>)"
    using insert_agreements_eq [of ?db0 0 w ?vs] len by (simp add: InitalizeMainChainDbTables_def)
  with assms have db: "\<exists>rt. db = ?db0\<lparr>MarketMatching := ?t, RoundTable := rt\<rparr> \<and>
      map (rt_RoundNumber \<circ> snd) rt = [0, 1] \<and> (\<forall>(i, row) \<in> set rt. rt_ScPorTx row = 0)"
    by (auto simp: InitializeMainChainBC_def Let_def InitalizeMainChainDbTables_def InsertIntoMainChainRoundTable_def
        tbl_insert_def split: if_splits)
  have fst: "map fst ?t = map Suc [0..<?n]"
  proof -
    have "map fst ?t = map (\<lambda>p. Suc (fst p)) (zip [0..<?n] ?vs)"
      by (simp add: new_agreement_def case_prod_unfold)
    also have "\<dots> = map Suc (map fst (zip [0..<?n] ?vs))" by (simp only: map_map comp_def)
    also have "map fst (zip [0..<?n] ?vs) = [0..<?n]" by (rule map_fst_zip) (use len in simp)
    finally show ?thesis .
  qed
  then show "map fst (MarketMatching db) = [1..<Suc (length (MarketMatching db))]"
    using db len by (auto simp: map_Suc_upt simp del: upt_Suc)
  show "\<forall>(i, row) \<in> set (MarketMatching db). mm_ServAgrId row = int i \<and> mm_Published row \<and> mm_TxIssued row"
    using db by (auto simp: new_agreement_def)
  show "length (MarketMatching db) = ?n" using db len by auto
  show "FirstQueue db = []" "SecondQueue db = []" "SyncTxQueue db = []" "OverallEvaluation db = []"
    "map (rt_RoundNumber \<circ> snd) (RoundTable db) = [0, 1]" "PowerTable db = []"
    "\<forall>(i, row) \<in> set (RoundTable db). rt_ScPorTx row = 0"
    using db by (auto simp: InitalizeMainChainDbTables_def)
qed

lemma length_server_column: "length (server_column ss n) = length ss * nat n"
  by (induction ss) (simp_all add: server_column_def)

text \<open>
  The simulation gives \<open>NumberOfActiveContractsPerServer\<close> to both sides; the roster has at least
  the servers the databases were made for.
\<close>

definition main_start :: "world \<Rightarrow> ExperimentConfig \<Rightarrow> ChainBoost \<Rightarrow> bool" where
  "main_start w exconf bz \<longleftrightarrow>
     (\<exists>bz0. genesis w exconf (mc bz0) \<and> finalMainChainBCInitialization w bz0 = Inr bz \<and>
        0 \<le> Nodes exconf \<and> Nodes exconf \<le> int (length (roster bz0)) \<and>
        NumberOfActiveContractsPerServer (cfg bz0) = ec_NumberOfActiveContractsPerServer exconf)"

lemma start_agreements:
  assumes "main_start w exconf bz"
  shows "agreements_inv (mc bz)"
proof -
  from assms obtain nrm bz0 where g: "InitializeMainChainBC nrm w exconf None = Inr (mc bz0)"
    and f: "finalMainChainBCInitialization w bz0 = Inr bz"
    and nn: "0 \<le> Nodes exconf" "Nodes exconf \<le> int (length (roster bz0))"
    and c: "NumberOfActiveContractsPerServer (cfg bz0) = ec_NumberOfActiveContractsPerServer exconf"
    unfolding main_start_def genesis_def by blast
  note tabs = genesis_tables [OF g]
  let ?vs = "server_column (roster bz0) (NumberOfActiveContractsPerServer (cfg bz0))"
  have len: "length (MarketMatching (mc bz0)) \<le> length ?vs"
  proof -
    have "nat (Nodes exconf * ec_NumberOfActiveContractsPerServer exconf) =
        nat (Nodes exconf) * nat (ec_NumberOfActiveContractsPerServer exconf)"
      using nn(1) by (rule nat_mult_distrib)
    also have "\<dots> \<le> length (roster bz0) * nat (ec_NumberOfActiveContractsPerServer exconf)"
      using nn(2) by (intro mult_le_mono1) simp
    finally show ?thesis by (simp add: tabs(3) length_server_column c)
  qed
  have mm: "MarketMatching (mc bz) = set_server_infos 1 ?vs (MarketMatching (mc bz0))"
    and q: "FirstQueue (mc bz) = FirstQueue (mc bz0)" "SecondQueue (mc bz) = SecondQueue (mc bz0)"
    using f len
    by (auto simp: finalMainChainBCInitialization_def Let_def AddMoreFieldsIntoTableInMainChain_def
        InitialInsertValuesIntoMainChainPowerTable_def bindR_Inr_iff split: if_splits)
  have ids: "0 < i \<and> i \<le> length (MarketMatching (mc bz0))" if "(i, row) \<in> set (MarketMatching (mc bz0))" for i row
  proof -
    have "i \<in> set (map fst (MarketMatching (mc bz0)))" using that by force
    then show ?thesis unfolding tabs(1) by auto
  qed
  have fst: "map fst (MarketMatching (mc bz)) = [1..<Suc (length (MarketMatching (mc bz)))]"
    using tabs(1) by (simp add: mm set_server_infos_eq comp_def case_prod_unfold del: upt_Suc)
  have rows: "mm_ServAgrId row = int i \<and> mm_ServerInfo row \<noteq> None \<and> mm_Published row \<and> mm_TxIssued row"
    if mem: "(i, row) \<in> set (MarketMatching (mc bz))" for i row
  proof -
    from mem obtain old where "(i, old) \<in> set (MarketMatching (mc bz0))"
      and "row = (if 1 \<le> i \<and> i < 1 + length ?vs then old\<lparr>mm_ServerInfo := Some (?vs ! (i - 1))\<rparr> else old)"
      by (auto simp: mm set_server_infos_eq)
    with ids [of i old] len tabs(2) show ?thesis by auto
  qed
  have "market_ok (MarketMatching (mc bz))"
    using fst rows unfolding market_ok_def by blast
  moreover have "queues_wf (mc bz)"
    by (simp add: queues_wf_def q tabs)
  moreover have "pending_commits (int i) (map snd (FirstQueue (mc bz))) = (if is_proposed row then 1 else 0)"
    if "(i, row) \<in> set (MarketMatching (mc bz))" for i row
    using rows [OF that] by (simp add: q tabs is_proposed_def)
  ultimately show ?thesis unfolding agreements_inv_def by blast
qed

interpretation main_chain: invariant_system "main_start w exconf" "\<lambda>bz bz'. \<exists>w'. main_step w' bz bz'"
    "\<lambda>bz. agreements_inv (mc bz)" for w exconf
  by unfold_locales (auto intro: start_agreements main_step_keeps_agreements)


text \<open>
  C14: after any sequence of main chain operations from the start of a simulation, exactly one
  commit transaction of an agreement waits in the first queue if the agreement has been proposed and
  is not active, and none otherwise; an active agreement has its transactions issued.
\<close>

theorem agreement_life_cycle:
  assumes "reachable (main_start w exconf) (\<lambda>bz bz'. \<exists>w'. main_step w' bz bz') bz"
    and "(i, row) \<in> set (MarketMatching (mc bz))"
  shows "length (filter (\<lambda>e. fq_Name e = ''TxServAgrCommit'' \<and> fq_ServAgrId e = int i)
           (map snd (FirstQueue (mc bz)))) = (if \<not> mm_Published row \<and> mm_TxIssued row then 1 else 0)
    \<and> mm_ServAgrId row = int i \<and> (mm_Published row \<longrightarrow> mm_TxIssued row)"
  using main_chain.reachable_inv [OF assms(1)] assms(2)
  by (fastforce simp: agreements_inv_def market_ok_def pending_commits_def commit_for_def [abs_def] is_proposed_def)

text \<open>
  in every reachable state, building a block changes an agreement only from proposed to
  active, with the current round as its start.
\<close>

theorem only_proposed_agreements_start:
  assumes "reachable (main_start w exconf) (\<lambda>bz bz'. \<exists>w'. main_step w' bz bz') bz"
    and "updateMainChainBCTransactionQueueTake bz = Inr bz'"
    and "(i, row) \<in> set (MarketMatching (mc bz'))"
  shows "(i, row) \<in> set (MarketMatching (mc bz)) \<or>
    (\<exists>old. (i, old) \<in> set (MarketMatching (mc bz)) \<and> \<not> mm_Published old \<and> mm_TxIssued old \<and>
       row = old\<lparr>mm_Published := True, mm_StartedMcRoundNumber := MCRoundNumber bz\<rparr>)"
proof -
  have inv: "agreements_inv (mc bz)" using main_chain.reachable_inv [OF assms(1)] .
  then have "queues_wf (mc bz)" by (simp add: agreements_inv_def)
  from take_Inr [OF this assms(2)] obtain ov where bz': "bz' = after_take bz ov" by blast
  from assms(3) obtain old where old: "(i, old) \<in> set (MarketMatching (mc bz))"
    and row: "row = (if mm_ServAgrId old \<in> commits (taken_first bz)
       then old\<lparr>mm_Published := True, mm_StartedMcRoundNumber := MCRoundNumber bz\<rparr> else old)"
    by (auto simp: bz' activate_all_eq tbl_update_iff)
  have "is_proposed old" if "mm_ServAgrId old \<in> commits (taken_first bz)"
    by (rule taken_commit_proposed [OF inv old that])
  with old row show ?thesis by (auto simp: is_proposed_def)
qed


section \<open>A sample start\<close>

definition sample_exconf :: ExperimentConfig where
  "sample_exconf = \<lparr>FileSizeDistributionMean = 115, FileSizeDistributionVariance = 5,
     ServAgrDurationDistributionMean = 40, ServAgrDurationDistributionVariance = 20,
     ec_SimulationSeed = 1, Nodes = 1, ec_NumberOfActiveContractsPerServer = 1\<rparr>"

definition sample_genesis :: mcdb where
  "sample_genesis = (case InitializeMainChainBC (\<lambda>s k. 0) sample_world sample_exconf None of
     Inr db \<Rightarrow> db | Inl e \<Rightarrow> sample_mcdb)"

text \<open>The root at round 50, when the agreement of 40 rounds has expired.\<close>

definition sample_before :: ChainBoost where
  "sample_before = sample_bz\<lparr>mc := sample_genesis, roster := [''s1''], MCRoundNumber := 50,
     cfg := sample_cfg\<lparr>NumberOfActiveContractsPerServer := 1\<rparr>\<rparr>"

definition sample_started :: ChainBoost where
  "sample_started = (case finalMainChainBCInitialization sample_world sample_before of
     Inr bz \<Rightarrow> bz | Inl e \<Rightarrow> sample_bz)"

lemma sample_genesis: "InitializeMainChainBC (\<lambda>s k. 0) sample_world sample_exconf None = Inr sample_genesis"
  by (simp add: sample_genesis_def InitializeMainChainBC_def sample_exconf_def Let_def generateNormalValues_def
      normal_value_def InitalizeMainChainDbTables_def InitialInsertValuesIntoMarketMatchingTable_def
      InsertIntoMainChainRoundTable_def)

definition sample_row :: "bool \<Rightarrow> bool \<Rightarrow> MarketMatchingRow" where
  "sample_row p t = \<lparr>mm_ServerInfo = Some ''s1'', mm_FileSize = 115, mm_ServAgrDuration = 40,
     mm_StartedMcRoundNumber = 0, mm_ServAgrId = 1, mm_Published = p, mm_TxIssued = t\<rparr>"

lemma sample_genesis_market: "MarketMatching sample_genesis = [(1, (sample_row True True)\<lparr>mm_ServerInfo := None\<rparr>)]"
  by (simp add: sample_genesis_def InitializeMainChainBC_def sample_exconf_def Let_def generateNormalValues_def
      normal_value_def InitalizeMainChainDbTables_def InitialInsertValuesIntoMarketMatchingTable_def
      InsertIntoMainChainRoundTable_def tbl_insert_def next_rowid_def sample_row_def)

lemma sample_started:
  "finalMainChainBCInitialization sample_world sample_before = Inr sample_started"
  "MarketMatching (mc sample_started) = [(1, sample_row True True)]"
  using genesis_tables(9) [OF sample_genesis]
  by (simp_all add: sample_started_def finalMainChainBCInitialization_def sample_before_def sample_genesis_market
      sample_cfg_def server_column_def AddMoreFieldsIntoTableInMainChain_def tbl_update_def GetMaxMainChain_def
      mc_column_def Let_def sql_max_def non_null_def InitialInsertValuesIntoMainChainPowerTable_def sample_row_def)

lemma sample_main_start: "main_start sample_world sample_exconf sample_started"
  unfolding main_start_def genesis_def
  using sample_started(1) sample_genesis
  by (intro exI [of _ sample_before]) (auto simp: sample_before_def sample_exconf_def sample_cfg_def)

lemma final_init_frame:
  "finalMainChainBCInitialization w bz = Inr bz' \<Longrightarrow> cfg bz' = cfg bz \<and> MCRoundNumber bz' = MCRoundNumber bz \<and>
     PayPercentOfTransactions bz' = PayPercentOfTransactions bz \<and> FirstQueue (mc bz') = FirstQueue (mc bz) \<and>
     SecondQueue (mc bz') = SecondQueue (mc bz) \<and> SyncTxQueue (mc bz') = SyncTxQueue (mc bz) \<and>
     RoundTable (mc bz') = RoundTable (mc bz) \<and> OverallEvaluation (mc bz') = OverallEvaluation (mc bz)"
  by (auto simp: finalMainChainBCInitialization_def Let_def bindR_Inr_iff AddMoreFieldsIntoTableInMainChain_def
      InitialInsertValuesIntoMainChainPowerTable_def split: if_splits)

text \<open>Two rounds of collecting: the agreement becomes idle and is then proposed again.\<close>

lemma collect_returns:
  assumes "agreements_inv (mc bz)" and "collect_divides bz"
    and "0 < PayPercentOfTransactions bz" and "PayPercentOfTransactions bz \<le> 1"
  shows "\<exists>n. updateMainChainBCTransactionQueueCollect w bz = Inr (after_collect w bz n)"
proof -
  have "market_ok (MarketMatching (mc bz))" using assms(1) by (simp add: agreements_inv_def)
  moreover have "\<exists>n. number_of_reg_pay w bz k = Inr n" for k
    using assms(3,4) by (auto simp: number_of_reg_pay_def Let_def)
  ultimately show ?thesis
    using collect_unfold [of bz w] assms(2) by (metis bindR_simps(2))
qed

lemma sample_two_collects:
  "\<exists>bz1 bz2. updateMainChainBCTransactionQueueCollect sample_world sample_started = Inr bz1 \<and> collect_divides sample_started \<and>
     updateMainChainBCTransactionQueueCollect sample_world bz1 = Inr bz2 \<and> collect_divides bz1 \<and>
     MarketMatching (mc bz2) = [(1, sample_row False True)] \<and> round_fresh bz2"
proof -
  have cfg: "cfg sample_started = sample_cfg\<lparr>NumberOfActiveContractsPerServer := 1\<rparr>"
      "PayPercentOfTransactions sample_started = 1 / 50" "MCRoundNumber sample_started = 50"
      "OverallEvaluation (mc sample_started) = []" "map (rt_RoundNumber \<circ> snd) (RoundTable (mc sample_started)) = [0, 1]"
    using final_init_frame [OF sample_started(1)] genesis_tables(7,8) [OF sample_genesis]
    by (simp_all add: sample_before_def sample_bz_def)
  have div: "collect_divides sample_started" by (simp add: collect_divides_def cfg sample_cfg_def)
  have inv: "agreements_inv (mc sample_started)" by (rule start_agreements [OF sample_main_start])
  obtain n where bz1: "updateMainChainBCTransactionQueueCollect sample_world sample_started =
      Inr (after_collect sample_world sample_started n)"
    using collect_returns [OF inv div] by (auto simp: cfg)
  let ?bz1 = "after_collect sample_world sample_started n"
  have inv1: "agreements_inv (mc ?bz1)" by (rule collect_keeps_agreements [OF inv])
  have div1: "collect_divides ?bz1" using div by (simp add: collect_divides_def after_collect_def)
  obtain m where bz2: "updateMainChainBCTransactionQueueCollect sample_world ?bz1 =
      Inr (after_collect sample_world ?bz1 m)"
    using collect_returns [OF inv1 div1] by (auto simp: cfg after_collect_def)
  let ?bz2 = "after_collect sample_world ?bz1 m"
  have mm: "MarketMatching (mc ?bz2) = [(1, sample_row False True)]"
    by (simp add: after_collect_def sample_started(2) agr_next_def is_idle_def is_expired_def cfg sample_row_def)
  have "round_fresh ?bz2"
    using cfg(4,5) by (auto simp: round_fresh_def after_collect_def)
  with bz1 bz2 div div1 mm show ?thesis by blast
qed

lemma sample_reachable:
  "\<exists>bz. reachable (main_start sample_world sample_exconf) (\<lambda>bz bz'. \<exists>w'. main_step w' bz bz') bz \<and>
     MarketMatching (mc bz) = [(1, sample_row False True)] \<and> round_fresh bz"
proof -
  obtain bz1 bz2 where "updateMainChainBCTransactionQueueCollect sample_world sample_started = Inr bz1" "collect_divides sample_started"
      "updateMainChainBCTransactionQueueCollect sample_world bz1 = Inr bz2" "collect_divides bz1"
      "MarketMatching (mc bz2) = [(1, sample_row False True)]" "round_fresh bz2"
    using sample_two_collects by blast
  then have "main_step sample_world sample_started bz1" "main_step sample_world bz1 bz2"
    by (auto intro: main_step.collect)
  then have "reachable (main_start sample_world sample_exconf) (\<lambda>bz bz'. \<exists>w'. main_step w' bz bz') bz2"
    using next_step at_start sample_main_start
    by (smt (verit, best))
  with \<open>MarketMatching (mc bz2) = _\<close> \<open>round_fresh bz2\<close> show ?thesis by blast
qed

theorem agreement_life_cycle_witness:
  "\<exists>bz :: ChainBoost. MarketMatching (mc bz) = [(1, sample_row False True)] \<and>
     length (filter (\<lambda>e. fq_Name e = ''TxServAgrCommit'' \<and> fq_ServAgrId e = 1) (map snd (FirstQueue (mc bz)))) = 1"
proof -
  obtain bz where r: "reachable (main_start sample_world sample_exconf) (\<lambda>bz bz'. \<exists>w'. main_step w' bz bz') bz"
    and mm: "MarketMatching (mc bz) = [(1, sample_row False True)]"
    using sample_reachable by blast
  have "(1, sample_row False True) \<in> set (MarketMatching (mc bz))" by (simp add: mm)
  from agreement_life_cycle [OF r this] mm show ?thesis
    by (intro exI [of _ bz]) (simp add: sample_row_def)
qed

theorem only_proposed_agreements_start_witness:
  "\<exists>bz bz' row. updateMainChainBCTransactionQueueTake bz = Inr bz' \<and> (1, row) \<in> set (MarketMatching (mc bz')) \<and>
     (row = sample_row False True \<or>
      row = (sample_row False True)\<lparr>mm_Published := True, mm_StartedMcRoundNumber := MCRoundNumber bz\<rparr>)"
proof -
  obtain bz where r: "reachable (main_start sample_world sample_exconf) (\<lambda>bz bz'. \<exists>w'. main_step w' bz bz') bz"
    and mm: "MarketMatching (mc bz) = [(1, sample_row False True)]" and fresh: "round_fresh bz"
    using sample_reachable by blast
  have "queues_wf (mc bz)" using main_chain.reachable_inv [OF r] by (simp add: agreements_inv_def)
  from take_returns [OF this fresh] obtain ov where t: "updateMainChainBCTransactionQueueTake bz = Inr (after_take bz ov)"
    by blast
  obtain row where row: "(1, row) \<in> set (MarketMatching (mc (after_take bz ov)))"
    by (auto simp: activate_all_eq tbl_update_iff mm)
  have "row = sample_row False True \<or>
      row = (sample_row False True)\<lparr>mm_Published := True, mm_StartedMcRoundNumber := MCRoundNumber bz\<rparr>"
    using only_proposed_agreements_start [OF r t row] by (auto simp: mm)
  with t row show ?thesis by blast
qed

end
