(* ===== verification/SideChain.thy ===== *)
theory SideChain
  imports ChainBoost
begin

text \<open>
  \<open>SideChainBlockChain.go\<close>: the root node's operations on the side chain. A round adds a row to
  the round table; a meta block takes PoR transactions from the queue and counts them per
  agreement in \<open>SummPoRTxs\<close>, which the next sync transaction empties.
\<close>

definition updateSideChainBCRound :: "world \<Rightarrow> string \<Rightarrow> int \<Rightarrow> ChainBoost \<Rightarrow> fault + ChainBoost" where
  "updateSideChainBCRound w LeaderName blocksize bz =
    (let (_, info) = SideChainRoundTableGetLastRow (sc bz);
         RoundIntervalSec = (case info of None \<Rightarrow> now w | Some r \<Rightarrow> now w - sr_StartTime r)
     in bindR (orPanic (InsertIntoSideChainRoundTable (SCRoundNumber bz) blocksize LeaderName 0 (now w) 0 0 0
                 RoundIntervalSec (MCRoundNumber bz) (sc bz)))
          (\<lambda>db. Inr (bz\<lparr>sc := db\<rparr>)))"

text \<open>The loop over the queue: size, number of PoRs, waiting time, last rowid, summary, database.\<close>

record ScTake =
  sct_size :: int
  sct_por :: int
  sct_wait :: int
  sct_last :: nat
  sct_summ :: "(int \<times> int) list"
  sct_db :: scdb

fun take_sc :: "int \<Rightarrow> ChainBoost \<Rightarrow> (nat \<times> SideChainFirstQueueEntry) list \<Rightarrow> ScTake \<Rightarrow> fault + ScTake" where
  "take_sc budget bz [] st = Inr st"
| "take_sc budget bz ((rowid, row) # rows) st =
    (if sct_size st + scq_Size row \<le> budget then
       (if scq_Name row \<noteq> ''TxPor'' then Inl (PanicMsg ''the type of transaction in the queue is un-defined'')
        else if MCRoundPerEpoch (cfg bz) = 0 then Inl DivPanic
        else let currentEpoch = go_quot (MCRoundNumber bz - 2) (MCRoundPerEpoch (cfg bz)) in
          take_sc budget bz rows
            (st\<lparr>sct_size := sct_size st + scq_Size row, sct_por := sct_por st + 1,
               sct_wait := sct_wait st + (SCRoundNumber bz - scq_IssuedScRoundNumber row)
                 + (currentEpoch - scq_Epoch row) * MCRoundDuration (cfg bz),
               sct_last := rowid, sct_summ := gmap_add (scq_ServAgrId row) 1 (sct_summ st)\<rparr>))
     else bindR (orPanic (SideChainRoundTableSetBlockSpaceIsFull (SCRoundNumber bz) (sct_db st)))
       (\<lambda>db. Inr (st\<lparr>sct_db := db\<rparr>)))"

text \<open>Errors of the two figures that are only logged leave the zero that came with them.\<close>

definition updateSideChainBCOverallEvaluation :: "int \<Rightarrow> scdb \<Rightarrow> fault + scdb" where
  "updateSideChainBCOverallEvaluation roundNbr db =
     bindR (orPanicQ (GetSumSideChain ''RoundTable'' ''BCSize'' db)) (\<lambda>sumBC.
     let orZero = (\<lambda>r. case r of Inl e \<Rightarrow> Fin 0 | Inr x \<Rightarrow> x);
         sumPoRTx = orZero (GetSumSideChain ''RoundTable'' ''PoRTx'' db);
         avgWaitTx = orZero (GetAvgSideChain ''RoundTable'' ''AveWait'' db)
     in orPanic (InsertIntoSideChainOverallEvaluation roundNbr sumBC sumPoRTx avgWaitTx 0 db))"

definition updateSideChainBCTransactionQueueTake :: "ChainBoost \<Rightarrow> fault + ChainBoost \<times> int" where
  "updateSideChainBCTransactionQueueTake bz =
    (let MetaBlockSizeMinusTransactions = snd SCBlockMeasurement + len (SCSig bz);
         rows = SideChainGetFirstQueue (sc bz);
         st0 = \<lparr>sct_size = 0, sct_por = 0, sct_wait = 0, sct_last = 0, sct_summ = SummPoRTxs bz, sct_db = sc bz\<rparr>
     in bindR (take_sc (SideChainBlockSize (cfg bz) - MetaBlockSizeMinusTransactions) bz rows st0) (\<lambda>st.
        bindR (orPanic (SideChainDeleteFromFirstQueue (sct_last st) (sct_db st))) (\<lambda>db1.
        let avgWait = (if sct_por st \<noteq> 0 then f_div (f_of_int (sct_wait st)) (f_of_int (sct_por st)) else Fin 0);
            blocksize = sct_size st + MetaBlockSizeMinusTransactions
        in bindR (orPanic (SideChainRoundTableSetFinalRoundInfo blocksize (sct_por st) avgWait
                    (SCRoundNumber bz) (len rows - sct_por st) db1)) (\<lambda>db2.
           bindR (updateSideChainBCOverallEvaluation (SCRoundNumber bz) db2) (\<lambda>db3.
           Inr (bz\<lparr>sc := db3, SummPoRTxs := sct_summ st, SideChainQueueWait := sct_wait st\<rparr>, blocksize))))))"

end
