(* ===== verification/SideChainTake.thy ===== *)
theory SideChainTake
  imports SideChain MainChain Greedy
begin

text \<open>
  What \<open>updateSideChainBCTransactionQueueTake\<close> does: the meta block takes the longest prefix of the
  queue that fits, and every PoR it takes is counted for its agreement in \<open>SummPoRTxs\<close>.
\<close>

section \<open>Counting per agreement\<close>

definition summ_add :: "int list \<Rightarrow> (int \<times> int) list \<Rightarrow> (int \<times> int) list" where
  "summ_add ids m = foldl (\<lambda>m a. gmap_add a 1 m) m ids"

lemma summ_add_simps [simp]:
  "summ_add [] m = m" "summ_add (a # ids) m = summ_add ids (gmap_add a 1 m)"
  by (simp_all add: summ_add_def)

lemma summ_add_get: "gmap_get (summ_add ids m) a = gmap_get m a + int (count_list ids a)"
  by (induction ids arbitrary: m) (auto simp: gmap_get_add)

lemma summ_add_distinct: "distinct (map fst m) \<Longrightarrow> distinct (map fst (summ_add ids m))"
  by (induction ids arbitrary: m) (auto simp: distinct_gmap_add)

lemma summ_add_total: "distinct (map fst m) \<Longrightarrow> gmap_total (summ_add ids m) = gmap_total m + int (length ids)"
  by (induction ids arbitrary: m) (auto simp: gmap_total_add distinct_gmap_add)

section \<open>The loop\<close>

definition sc_sizes :: "(nat \<times> SideChainFirstQueueEntry) list \<Rightarrow> int list" where
  "sc_sizes rows = map (\<lambda>(i, e). scq_Size e) rows"

definition sc_ids :: "(nat \<times> SideChainFirstQueueEntry) list \<Rightarrow> int list" where
  "sc_ids rows = map (\<lambda>(i, e). scq_ServAgrId e) rows"

definition sc_wait :: "ChainBoost \<Rightarrow> (nat \<times> SideChainFirstQueueEntry) list \<Rightarrow> int" where
  "sc_wait bz rows = sum_list (map (\<lambda>(i, e). SCRoundNumber bz - scq_IssuedScRoundNumber e
     + (go_quot (MCRoundNumber bz - 2) (MCRoundPerEpoch (cfg bz)) - scq_Epoch e) * MCRoundDuration (cfg bz)) rows)"

definition mark_sc_full :: "int \<Rightarrow> scdb \<Rightarrow> scdb" where
  "mark_sc_full r db = snd (SideChainRoundTableSetBlockSpaceIsFull r db)"

definition sc_rows_ok :: "(nat \<times> SideChainFirstQueueEntry) list \<Rightarrow> bool" where
  "sc_rows_ok rows \<longleftrightarrow> (\<forall>(i, e) \<in> set rows. scq_Name e = ''TxPor'' \<and> 0 \<le> scq_Size e)"

lemma sc_rows_ok_Cons [simp]:
  "sc_rows_ok ((i, e) # rows) \<longleftrightarrow> scq_Name e = ''TxPor'' \<and> 0 \<le> scq_Size e \<and> sc_rows_ok rows"
  by (simp add: sc_rows_ok_def)

lemma take_sc_closed:
  assumes "sc_rows_ok rows" and "MCRoundPerEpoch (cfg bz) \<noteq> 0"
  shows "take_sc budget bz rows st =
    (let n = fits_upto (budget - sct_size st) (sc_sizes rows)
     in Inr \<lparr>sct_size = sct_size st + sum_list (take n (sc_sizes rows)),
         sct_por = sct_por st + int n,
         sct_wait = sct_wait st + sc_wait bz (take n rows),
         sct_last = (if n = 0 then sct_last st else last_id n rows),
         sct_summ = summ_add (sc_ids (take n rows)) (sct_summ st),
         sct_db = (if n < length rows then mark_sc_full (SCRoundNumber bz) (sct_db st) else sct_db st)\<rparr>)"
  using assms(1)
proof (induction rows arbitrary: st)
  case Nil
  then show ?case by (simp add: sc_sizes_def sc_wait_def sc_ids_def)
next
  case (Cons p rows)
  obtain i e where p: "p = (i, e)" by (cases p)
  from Cons.prems have e: "scq_Name e = ''TxPor''" and ok: "sc_rows_ok rows" by (simp_all add: p)
  show ?case
  proof (cases "sct_size st + scq_Size e \<le> budget")
    case False
    then show ?thesis
      by (simp add: p sc_sizes_def sc_wait_def sc_ids_def mark_sc_full_def SideChainRoundTableSetBlockSpaceIsFull_def)
  next
    case True
    let ?st = "st\<lparr>sct_size := sct_size st + scq_Size e, sct_por := sct_por st + 1,
               sct_wait := sct_wait st + (SCRoundNumber bz - scq_IssuedScRoundNumber e)
                 + (go_quot (MCRoundNumber bz - 2) (MCRoundPerEpoch (cfg bz)) - scq_Epoch e) * MCRoundDuration (cfg bz),
               sct_last := i, sct_summ := gmap_add (scq_ServAgrId e) 1 (sct_summ st)\<rparr>"
    define n where "n = fits_upto (budget - sct_size st - scq_Size e) (sc_sizes rows)"
    have n: "fits_upto (budget - sct_size st) (sc_sizes (p # rows)) = Suc n"
      "fits_upto (budget - sct_size ?st) (sc_sizes rows) = n"
      using True by (simp_all add: n_def sc_sizes_def p diff_diff_eq)
    have "take_sc budget bz (p # rows) st = take_sc budget bz rows ?st"
      using True e assms(2) by (simp add: p Let_def)
    then show ?thesis
      unfolding Cons.IH [OF ok] n Let_def
      by (cases n) (simp_all add: p sc_sizes_def sc_wait_def sc_ids_def last_id_def)
  qed
qed

section \<open>The meta block\<close>

definition meta_budget :: "ChainBoost \<Rightarrow> int" where
  "meta_budget bz = SideChainBlockSize (cfg bz) - snd SCBlockMeasurement - len (SCSig bz)"

definition n_side :: "ChainBoost \<Rightarrow> nat" where
  "n_side bz = fits_upto (meta_budget bz) (sc_sizes (SideChainGetFirstQueue (sc bz)))"

definition meta_size :: "ChainBoost \<Rightarrow> int" where
  "meta_size bz = sum_list (take (n_side bz) (sc_sizes (ScFirstQueue (sc bz)))) + snd SCBlockMeasurement + len (SCSig bz)"

definition sc_queue_ok :: "scdb \<Rightarrow> bool" where
  "sc_queue_ok db \<longleftrightarrow> wf_table (ScFirstQueue db) \<and> sc_rows_ok (ScFirstQueue db)"

lemma n_side_le: "n_side bz \<le> length (ScFirstQueue (sc bz))" "n_side bz \<le> 5000"
  using fits_upto_le [of _ "sc_sizes (SideChainGetFirstQueue (sc bz))"]
  by (auto simp: n_side_def sc_sizes_def SideChainGetFirstQueue_def intro: le_trans)

lemma take_n_side: "take (n_side bz) (SideChainGetFirstQueue (sc bz)) = take (n_side bz) (ScFirstQueue (sc bz))"
  using n_side_le(2) [of bz] by (simp add: SideChainGetFirstQueue_def min_def)

definition after_side_take :: "ChainBoost \<Rightarrow> SideChainRoundInfo table \<Rightarrow> SideOverallRow table \<Rightarrow> ChainBoost" where
  "after_side_take bz rt ov = bz\<lparr>
     sc := (sc bz)\<lparr>ScFirstQueue := drop (n_side bz) (ScFirstQueue (sc bz)), ScRoundTable := rt, ScOverallEvaluation := ov\<rparr>,
     SummPoRTxs := summ_add (sc_ids (take (n_side bz) (ScFirstQueue (sc bz)))) (SummPoRTxs bz),
     SideChainQueueWait := sc_wait bz (take (n_side bz) (ScFirstQueue (sc bz)))\<rparr>"

definition final_info :: "ChainBoost \<Rightarrow> SideChainRoundInfo table" where
  "final_info bz =
    (let n = n_side bz; q = SideChainGetFirstQueue (sc bz);
         rt = (if n < length q then ScRoundTable (mark_sc_full (SCRoundNumber bz) (sc bz)) else ScRoundTable (sc bz));
         avgWait = (if n \<noteq> 0 then f_div (f_of_int (sc_wait bz (take n q))) (f_of_int (int n)) else Fin 0)
     in ScRoundTable (snd (SideChainRoundTableSetFinalRoundInfo (meta_size bz) (int n) avgWait (SCRoundNumber bz)
          (len q - int n) ((sc bz)\<lparr>ScRoundTable := rt\<rparr>))))"

lemma side_take_unfold:
  assumes "sc_queue_ok (sc bz)" and "MCRoundPerEpoch (cfg bz) \<noteq> 0"
  shows "updateSideChainBCTransactionQueueTake bz =
    bindR (updateSideChainBCOverallEvaluation (SCRoundNumber bz)
             ((sc bz)\<lparr>ScFirstQueue := drop (n_side bz) (ScFirstQueue (sc bz)), ScRoundTable := final_info bz\<rparr>))
      (\<lambda>db. Inr (bz\<lparr>sc := db,
         SummPoRTxs := summ_add (sc_ids (take (n_side bz) (ScFirstQueue (sc bz)))) (SummPoRTxs bz),
         SideChainQueueWait := sc_wait bz (take (n_side bz) (ScFirstQueue (sc bz)))\<rparr>, meta_size bz))"
proof -
  let ?q = "SideChainGetFirstQueue (sc bz)" and ?n = "n_side bz"
  let ?b = "SideChainBlockSize (cfg bz) - (snd SCBlockMeasurement + len (SCSig bz))"
  have ok: "sc_rows_ok ?q"
    using assms(1) by (auto simp: sc_queue_ok_def sc_rows_ok_def SideChainGetFirstQueue_def dest: in_set_takeD)
  have n: "fits_upto (?b - 0) (sc_sizes ?q) = ?n" by (simp add: n_side_def meta_budget_def diff_diff_eq)
  have le: "?n \<le> length ?q" using n_side_le [of bz] by (simp add: SideChainGetFirstQueue_def)
  then have id: "last_id ?n ?q = last_id ?n (ScFirstQueue (sc bz))"
    unfolding SideChainGetFirstQueue_def by (rule last_id_take)
  have del: "tbl_del_upto (last_id ?n (ScFirstQueue (sc bz))) (ScFirstQueue (sc bz)) = drop ?n (ScFirstQueue (sc bz))"
    using assms(1) n_side_le(1) by (intro del_upto_last_id) (simp_all add: sc_queue_ok_def)
  have z: "(if ?n = 0 then 0 else last_id ?n ?q) = last_id ?n (ScFirstQueue (sc bz))"
    unfolding id by (simp add: last_id_def)
  have sizes: "take ?n (sc_sizes ?q) = take ?n (sc_sizes (ScFirstQueue (sc bz)))"
    unfolding sc_sizes_def take_map take_n_side ..
  have q: "ScFirstQueue (mark_sc_full r db) = ScFirstQueue db" for r db
    by (simp add: mark_sc_full_def SideChainRoundTableSetBlockSpaceIsFull_def)
  have meta: "sum_list (take ?n (sc_sizes (ScFirstQueue (sc bz)))) + (snd SCBlockMeasurement + len (SCSig bz)) = meta_size bz"
    by (simp add: meta_size_def)
  show ?thesis
    unfolding updateSideChainBCTransactionQueueTake_def Let_def take_sc_closed [OF ok assms(2)] ScTake.select_convs n
      sizes z take_n_side
    by (simp add: SideChainDeleteFromFirstQueue_def q del meta final_info_def Let_def take_n_side
        SideChainRoundTableSetFinalRoundInfo_def mark_sc_full_def SideChainRoundTableSetBlockSpaceIsFull_def
        del: SCBlockMeasurement_value)
qed


lemma final_info_rows: "map fst (final_info bz) = map fst (ScRoundTable (sc bz))"
  by (simp add: final_info_def Let_def SideChainRoundTableSetFinalRoundInfo_def mark_sc_full_def
      SideChainRoundTableSetBlockSpaceIsFull_def)

lemma side_evaluation_ok:
  assumes "ScRoundTable db \<noteq> []"
  shows "\<exists>row. updateSideChainBCOverallEvaluation r db =
    Inr (db\<lparr>ScOverallEvaluation := tbl_insert row (ScOverallEvaluation db)\<rparr>)"
proof -
  let ?xs = "map (\<lambda>(i, r). Some (f_of_int (sr_BCSize r))) (ScRoundTable db)"
  have "non_null ?xs \<noteq> []"
    using assms by (cases "ScRoundTable db") (auto simp: non_null_def)
  then have "\<exists>x. GetSumSideChain ''RoundTable'' ''BCSize'' db = Inr x"
    by (simp add: GetSumSideChain_def sc_column_def Let_def sql_sum_def comp_def)
  then show ?thesis
    by (auto simp: updateSideChainBCOverallEvaluation_def Let_def InsertIntoSideChainOverallEvaluation_def)
qed

lemma side_take_returns:
  assumes "sc_queue_ok (sc bz)" and "MCRoundPerEpoch (cfg bz) \<noteq> 0" and "ScRoundTable (sc bz) \<noteq> []"
  shows "\<exists>ov. updateSideChainBCTransactionQueueTake bz = Inr (after_side_take bz (final_info bz) ov, meta_size bz)"
proof -
  let ?db = "(sc bz)\<lparr>ScFirstQueue := drop (n_side bz) (ScFirstQueue (sc bz)), ScRoundTable := final_info bz\<rparr>"
  have "final_info bz \<noteq> []" using assms(3) final_info_rows [of bz] by (metis map_is_Nil_conv)
  then have "ScRoundTable ?db \<noteq> []" by simp
  from side_evaluation_ok [OF this, of "SCRoundNumber bz"] obtain row where
    "updateSideChainBCOverallEvaluation (SCRoundNumber bz) ?db =
      Inr (?db\<lparr>ScOverallEvaluation := tbl_insert row (ScOverallEvaluation ?db)\<rparr>)" by blast
  then show ?thesis
    unfolding side_take_unfold [OF assms(1,2)] by (auto simp: after_side_take_def)
qed

lemma side_take_Inr:
  assumes "sc_queue_ok (sc bz)" and "MCRoundPerEpoch (cfg bz) \<noteq> 0"
    and "updateSideChainBCTransactionQueueTake bz = Inr (bz', bsize)"
  shows "bsize = meta_size bz \<and> (\<exists>ov. bz' = after_side_take bz (final_info bz) ov)"
  using assms(3) unfolding side_take_unfold [OF assms(1,2)]
  by (auto simp: bindR_Inr_iff updateSideChainBCOverallEvaluation_def Let_def orPanic_Inr_iff
      InsertIntoSideChainOverallEvaluation_def after_side_take_def)

text \<open>The promise of a meta block.\<close>

definition meta_contract :: "ChainBoost \<Rightarrow> ChainBoost \<Rightarrow> int \<Rightarrow> nat \<Rightarrow> bool" where
  "meta_contract bz bz' bsize n \<longleftrightarrow>
     (let q = ScFirstQueue (sc bz); budget = meta_budget bz
      in n \<le> length (take 5000 q) \<and> ScFirstQueue (sc bz') = drop n q \<and>
         bsize = sum_list (take n (sc_sizes q)) + snd SCBlockMeasurement + len (SCSig bz) \<and>
         (0 < n \<longrightarrow> bsize \<le> SideChainBlockSize (cfg bz)) \<and>
         (\<forall>m \<le> length (take 5000 q). sum_list (take m (sc_sizes q)) \<le> budget \<longrightarrow> m \<le> n) \<and>
         (\<forall>a. gmap_get (SummPoRTxs bz') a = gmap_get (SummPoRTxs bz) a + int (count_list (sc_ids (take n q)) a)))"

lemma n_side_greedy:
  assumes "sc_rows_ok (ScFirstQueue (sc bz))"
  shows "0 < n_side bz \<Longrightarrow> sum_list (take (n_side bz) (sc_sizes (ScFirstQueue (sc bz)))) \<le> meta_budget bz"
    and "m \<le> length (take 5000 (ScFirstQueue (sc bz))) \<Longrightarrow>
         sum_list (take m (sc_sizes (ScFirstQueue (sc bz)))) \<le> meta_budget bz \<Longrightarrow> m \<le> n_side bz"
proof -
  let ?sizes = "sc_sizes (ScFirstQueue (sc bz))"
  have n: "n_side bz = fits_upto (meta_budget bz) (take 5000 ?sizes)"
    by (simp add: n_side_def SideChainGetFirstQueue_def sc_sizes_def take_map)
  show "sum_list (take (n_side bz) ?sizes) \<le> meta_budget bz" if "0 < n_side bz"
    using fits_upto_sum [of "meta_budget bz" "take 5000 ?sizes"] that n_side_le(2) [of bz]
    by (simp add: n [symmetric] min_def)
  have nonneg: "\<forall>x \<in> set (take 5000 ?sizes). 0 \<le> x"
    using assms by (auto simp: sc_sizes_def sc_rows_ok_def dest!: in_set_takeD)
  show "m \<le> n_side bz" if "m \<le> length (take 5000 (ScFirstQueue (sc bz)))" "sum_list (take m ?sizes) \<le> meta_budget bz"
    unfolding n using that nonneg
    by (intro fits_upto_maximal) (auto simp: sc_sizes_def min_def split: if_splits)
qed

text \<open>
  C26: with a well-formed queue, building a meta block never fails; it takes the longest prefix
  of the PoR transactions that fits beside the signature, stays within \<open>SideChainBlockSize\<close>
  if it takes any, and adds for every agreement the number of its PoRs taken to the summary.
\<close>

theorem meta_block_meets_contract:
  assumes "sc_queue_ok (sc bz)" and "MCRoundPerEpoch (cfg bz) \<noteq> 0" and "ScRoundTable (sc bz) \<noteq> []"
  shows "\<exists>bz' bsize n. updateSideChainBCTransactionQueueTake bz = Inr (bz', bsize) \<and> meta_contract bz bz' bsize n"
proof -
  from side_take_returns [OF assms] obtain ov where
    t: "updateSideChainBCTransactionQueueTake bz = Inr (after_side_take bz (final_info bz) ov, meta_size bz)" by blast
  have rows: "sc_rows_ok (ScFirstQueue (sc bz))" using assms(1) by (simp add: sc_queue_ok_def)
  have "n_side bz \<le> length (take 5000 (ScFirstQueue (sc bz)))"
    using n_side_le [of bz] by simp
  moreover have "0 < n_side bz \<longrightarrow> meta_size bz \<le> SideChainBlockSize (cfg bz)"
    using n_side_greedy(1) [OF rows] by (auto simp: meta_size_def meta_budget_def)
  ultimately have "meta_contract bz (after_side_take bz (final_info bz) ov) (meta_size bz) (n_side bz)"
    using n_side_greedy(2) [OF rows]
    by (simp add: meta_contract_def Let_def after_side_take_def summ_add_get meta_size_def)
  with t show ?thesis by blast
qed

lemma set_final_row:
  assumes "(i, r) \<in> set (ScRoundTable (snd (SideChainRoundTableSetFinalRoundInfo a b c d e db)))"
  shows "\<exists>mid. (i, mid) \<in> set (ScRoundTable db) \<and> sr_RoundNumber r = sr_RoundNumber mid \<and>
    sr_BlockSpaceFull r = sr_BlockSpaceFull mid"
proof -
  from assms obtain mid k where "(i, mid) \<in> set (ScRoundTable db)"
    and "r = (if i = k then mid\<lparr>sr_BCSize := a, sr_PoRTx := b, sr_AveWait := c, sr_QueueFill := Some e\<rparr> else mid)"
    by (simp add: SideChainRoundTableSetFinalRoundInfo_def Let_def tbl_update_iff) blast
  then show ?thesis by auto
qed

lemma final_info_full:
  assumes "n_side bz < length (SideChainGetFirstQueue (sc bz))"
    and "(i, r) \<in> set (final_info bz)" and "sr_RoundNumber r = SCRoundNumber bz"
  shows "sr_BlockSpaceFull r = 1"
proof -
  let ?m = "ScRoundTable (mark_sc_full (SCRoundNumber bz) (sc bz))"
  have "\<exists>mid. (i, mid) \<in> set ?m \<and> sr_RoundNumber r = sr_RoundNumber mid \<and> sr_BlockSpaceFull r = sr_BlockSpaceFull mid"
    using set_final_row [OF assms(2) [unfolded final_info_def Let_def]] assms(1) by simp
  then obtain mid where mid: "(i, mid) \<in> set ?m"
    and r: "sr_RoundNumber r = sr_RoundNumber mid" "sr_BlockSpaceFull r = sr_BlockSpaceFull mid" by blast
  have m: "?m = tbl_update (\<lambda>i r. sr_RoundNumber r = SCRoundNumber bz) (\<lambda>r. r\<lparr>sr_BlockSpaceFull := 1\<rparr>) (ScRoundTable (sc bz))"
    by (simp add: mark_sc_full_def SideChainRoundTableSetBlockSpaceIsFull_def)
  from mid [unfolded m tbl_update_iff] obtain old
    where "mid = (if sr_RoundNumber old = SCRoundNumber bz then old\<lparr>sr_BlockSpaceFull := 1\<rparr> else old)" by blast
  then have mid': "mid = (if sr_RoundNumber old = SCRoundNumber bz then old\<lparr>sr_BlockSpaceFull := 1\<rparr> else old)" .
  show ?thesis
  proof (cases "sr_RoundNumber old = SCRoundNumber bz")
    case True
    then have "mid = old\<lparr>sr_BlockSpaceFull := 1\<rparr>" using mid' by (metis (full_types))
    then show ?thesis unfolding r(2) by simp
  next
    case False
    then have "mid = old" using mid' by (metis (full_types))
    with False r(1) assms(3) show ?thesis by metis
  qed
qed

text \<open>
  when a PoR is left over, every row of the round table with the current round number is
  marked as full, those of earlier epochs too.
\<close>

theorem full_mark_hits_every_epoch:
  assumes "sc_queue_ok (sc bz)" and "MCRoundPerEpoch (cfg bz) \<noteq> 0"
    and "updateSideChainBCTransactionQueueTake bz = Inr (bz', bsize)"
    and "ScFirstQueue (sc bz') \<noteq> []" and "length (ScFirstQueue (sc bz)) \<le> 5000"
    and "(i, r) \<in> set (ScRoundTable (sc bz'))" and "sr_RoundNumber r = SCRoundNumber bz"
  shows "sr_BlockSpaceFull r = 1"
proof -
  from side_take_Inr [OF assms(1-3)] obtain ov where bz': "bz' = after_side_take bz (final_info bz) ov" by blast
  from assms(4,5) have "n_side bz < length (SideChainGetFirstQueue (sc bz))"
    by (simp add: bz' after_side_take_def SideChainGetFirstQueue_def)
  moreover have "(i, r) \<in> set (final_info bz)" using assms(6) by (simp add: bz' after_side_take_def)
  ultimately show ?thesis using assms(7) by (rule final_info_full)
qed

section \<open>The sync transaction\<close>

text \<open>
  the sync transaction carries the number of PoRs summarised since the last one, the summary
  is emptied, and the sizes are 2 bytes per agreement with a PoR, beside 116 bytes and the
  signature for the summary block.
\<close>

theorem sync_moves_summary:
  "\<exists>bz'. syncMainChainBCTransactionQueueCollect w bz = Inr (bz', 116 + len (SCSig bz) +
        2 * int (length (filter (\<lambda>(a, v). v \<noteq> 0) (SummPoRTxs bz)))) \<and>
     map snd (SyncTxQueue (mc bz')) = map snd (SyncTxQueue (mc bz)) @
       [\<lparr>fq_Name = ''TxSync'', fq_Size = word_of_int (2 * int (length (filter (\<lambda>(a, v). v \<noteq> 0) (SummPoRTxs bz)))),
         fq_Time = now w, fq_RoundIssued = MCRoundNumber bz, fq_ServAgrId = gmap_total (SummPoRTxs bz)\<rparr>] \<and>
     (\<forall>a. gmap_get (SummPoRTxs bz') a = 0) \<and> FirstQueue (mc bz') = FirstQueue (mc bz)"
proof -
  have zero: "gmap_get (map (\<lambda>(i, v). (i, 0)) m) a = 0" for m :: "(int \<times> int) list" and a
    by (induction m) (auto simp: gmap_get_def)
  show ?thesis
    by (simp add: syncMainChainBCTransactionQueueCollect_def Let_def InsertIntoMainChainSyncTxQueue_def zero
        SCSummaryTxMeasurement_eq)
qed

section \<open>A sample meta block\<close>

definition sample_por :: "int \<Rightarrow> SideChainFirstQueueEntry" where
  "sample_por a = \<lparr>scq_Name = ''TxPor'', scq_Size = 300, scq_Time = 0, scq_IssuedScRoundNumber = 1,
     scq_ServAgrId = a, scq_Epoch = 0\<rparr>"

definition sample_side :: ChainBoost where
  "sample_side = sample_bz\<lparr>cfg := sample_cfg\<lparr>SideChainBlockSize := 1000\<rparr>, MCRoundNumber := 12,
     sc := \<lparr>ScFirstQueue = [(1, sample_por 1), (2, sample_por 2), (3, sample_por 1)],
       ScRoundTable = map (\<lambda>i. (i, \<lparr>sr_RoundNumber = 1, sr_BCSize = 0, sr_RoundLeader = ''n2'', sr_PoRTx = 0,
         sr_StartTime = 0, sr_AveWait = Fin 0, sr_TotalNumTx = 0, sr_BlockSpaceFull = 0, sr_TimeTaken = 0,
         sr_McRound = 12, sr_QueueFill = None\<rparr>)) [1, 31],
       ScOverallEvaluation = []\<rparr>\<rparr>"

lemma sample_side_ok: "sc_queue_ok (sc sample_side)" "MCRoundPerEpoch (cfg sample_side) \<noteq> 0"
    "ScRoundTable (sc sample_side) \<noteq> []"
  by (simp_all add: sample_side_def sample_bz_def sample_cfg_def sc_queue_ok_def wf_table_def sc_rows_ok_def sample_por_def)

lemma sample_side_n: "n_side sample_side = 2"
  by (simp add: n_side_def meta_budget_def sample_side_def sample_bz_def sample_cfg_def SideChainGetFirstQueue_def
      sc_sizes_def sample_por_def)

theorem meta_block_meets_contract_witness:
  "\<exists>bz' bsize n. updateSideChainBCTransactionQueueTake sample_side = Inr (bz', bsize) \<and>
     meta_contract sample_side bz' bsize n"
  using meta_block_meets_contract [OF sample_side_ok] .

theorem full_mark_hits_every_epoch_witness:
  "\<exists>bz' bsize r. updateSideChainBCTransactionQueueTake sample_side = Inr (bz', bsize) \<and>
     (1, r) \<in> set (ScRoundTable (sc bz')) \<and> sr_BlockSpaceFull r = 1"
proof -
  from side_take_returns [OF sample_side_ok] obtain ov where
    t: "updateSideChainBCTransactionQueueTake sample_side = Inr (after_side_take sample_side (final_info sample_side) ov,
      meta_size sample_side)" by blast
  have q: "ScFirstQueue (sc (after_side_take sample_side (final_info sample_side) ov)) \<noteq> []"
    by (simp add: after_side_take_def sample_side_n) (simp add: sample_side_def)
  have len: "length (ScFirstQueue (sc sample_side)) \<le> 5000" by (simp add: sample_side_def)
  have "\<exists>r. (1, r) \<in> set (final_info sample_side) \<and> sr_RoundNumber r = 1"
    by (auto simp: final_info_def Let_def SideChainRoundTableSetFinalRoundInfo_def mark_sc_full_def
        SideChainRoundTableSetBlockSpaceIsFull_def tbl_update_iff sample_side_def)
  then obtain r where r: "(1, r) \<in> set (ScRoundTable (sc (after_side_take sample_side (final_info sample_side) ov)))"
    and num: "sr_RoundNumber r = SCRoundNumber sample_side"
    by (auto simp: after_side_take_def sample_side_def sample_bz_def)
  from full_mark_hits_every_epoch [OF sample_side_ok(1,2) t q len r num] t r show ?thesis by blast
qed

end
