(* ===== verification/GenTree.thy ===== *)
theory GenTree
  imports Prelude
begin

text \<open>
  \<open>BLSCoSi/gen_tree.go\<close>: the trees of the signing protocol. A tree node is its index in the
  roster and its children; servers are an arbitrary type.
\<close>

datatype rtree = RNode (RosterIndex: int) (Children: "rtree list")

record 's tree =
  Roster :: "'s list"
  Root :: rtree

definition roster_at :: "'s list \<Rightarrow> int \<Rightarrow> fault + 's" where
  "roster_at ss i = (if 0 \<le> i \<and> i < int (length ss) then Inr (ss ! nat i) else Inl IndexPanic)"

text \<open>\<open>onet.NewTreeNode(i, roster.List[i])\<close>\<close>

definition new_node :: "'s list \<Rightarrow> int \<Rightarrow> rtree list \<Rightarrow> fault + rtree" where
  "new_node ss i cs = bindR (roster_at ss i) (\<lambda>s. Inr (RNode i cs))"

fun new_leaves :: "'s list \<Rightarrow> int list \<Rightarrow> fault + rtree list" where
  "new_leaves ss [] = Inr []"
| "new_leaves ss (i # is) =
     bindR (new_node ss i []) (\<lambda>t. bindR (new_leaves ss is) (\<lambda>ts. Inr (t # ts)))"

definition GenSubtree :: "'s list \<Rightarrow> int list \<Rightarrow> fault + 's tree" where
  "GenSubtree roster nodes =
    (case nodes of
       n0 # n1 # rest \<Rightarrow>
         if length nodes > length roster then Inl (ErrRet ''nodes list is longer than roster list'')
         else if n0 = n1 then Inl (ErrRet ''subleader and leader cannot be the same'')
         else if \<exists>i \<in> set rest. i = n0 \<or> i = n1 then Inl (ErrRet ''duplicate rootIdx or subleader node'')
         else bindR (new_node roster n0 []) (\<lambda>_. bindR (new_node roster n1 []) (\<lambda>_.
              bindR (new_leaves roster rest) (\<lambda>leaves.
              Inr \<lparr>Roster = roster, Root = RNode n0 [RNode n1 leaves]\<rparr>)))
     | _ \<Rightarrow> Inl (ErrRet ''the node list must be greater than 1''))"

text \<open>The indexes of one subtree after its root, and the pointer for the next.\<close>

fun subtree_nodes :: "int \<Rightarrow> int \<Rightarrow> nat \<Rightarrow> int list \<times> int" where
  "subtree_nodes n pointer 0 = ([], pointer)"
| "subtree_nodes n pointer (Suc k) =
     (let (rest, p) = subtree_nodes n (go_rem (pointer + 1) n) k in (pointer # rest, p))"

text \<open>The loop over \<open>i\<close>; \<open>todo\<close> subtrees remain.\<close>

fun gen_loop :: "'s list \<Rightarrow> int \<Rightarrow> int \<Rightarrow> int \<Rightarrow> int \<Rightarrow> int \<Rightarrow> nat \<Rightarrow> fault + 's tree list" where
  "gen_loop roster rootIdx nodesPerSubtree surplusNodes i pointer 0 = Inr []"
| "gen_loop roster rootIdx nodesPerSubtree surplusNodes i pointer (Suc todo) =
     (let k = nodesPerSubtree + (if i < surplusNodes then 1 else 0);
          (rest, pointer') = subtree_nodes (int (length roster)) pointer (nat k)
      in bindR (GenSubtree roster (rootIdx # rest)) (\<lambda>t.
         bindR (gen_loop roster rootIdx nodesPerSubtree surplusNodes (i + 1) pointer' todo) (\<lambda>ts.
         Inr (t # ts))))"

definition genTrees :: "'s tree \<Rightarrow> int \<Rightarrow> fault + 's tree list" where
  "genTrees tree nSubtrees0 =
    (let roster = Roster tree; nNodes = int (length roster); rootIdx = RosterIndex (Root tree) in
     if nNodes < 1 then Inl (ErrRet ''the number of nodes in the trees cannot be less than one'')
     else if nSubtrees0 < 1 then Inl (ErrRet ''the number of subtrees cannot be less than one'')
     else let nSubtrees = (if nNodes \<le> nSubtrees0 then nNodes - 1 else nSubtrees0) in
       if nSubtrees = 0 then
         bindR (new_node roster rootIdx []) (\<lambda>r. Inr [\<lparr>Roster = roster, Root = r\<rparr>])
       else gen_loop roster rootIdx (go_quot (nNodes - 1) nSubtrees) (go_rem (nNodes - 1) nSubtrees) 0
              (go_rem (rootIdx + 1) nNodes) (nat nSubtrees))"

definition NewBlsProtocolTree :: "'s tree \<Rightarrow> int \<Rightarrow> fault + 's tree list" where
  "NewBlsProtocolTree tree nSubTrees = genTrees tree nSubTrees"

text \<open>\<open>t.Root.Children[0]\<close>\<close>

definition subleader :: "'s tree \<Rightarrow> fault + rtree" where
  "subleader t = (case Children (Root t) of [] \<Rightarrow> Inl IndexPanic | c # _ \<Rightarrow> Inr c)"

definition ServerIdentity :: "'s tree \<Rightarrow> rtree \<Rightarrow> 's" where
  "ServerIdentity t node = Roster t ! nat (RosterIndex node)"

fun GetSubLeaders :: "'s tree list \<Rightarrow> fault + 's list" where
  "GetSubLeaders [] = Inr []"
| "GetSubLeaders (t # ts) =
     bindR (subleader t) (\<lambda>c. bindR (GetSubLeaders ts) (\<lambda>ss. Inr (ServerIdentity t c # ss)))"

fun GetLeaves :: "'s tree list \<Rightarrow> fault + 's list" where
  "GetLeaves [] = Inr []"
| "GetLeaves (t # ts) =
     bindR (subleader t) (\<lambda>c. bindR (GetLeaves ts) (\<lambda>ss. Inr (map (ServerIdentity t) (Children c) @ ss)))"

definition GetRoot :: "'s tree list \<Rightarrow> 's option" where
  "GetRoot pt = (case pt of [] \<Rightarrow> None | t # _ \<Rightarrow> Some (ServerIdentity t (Root t)))"

section \<open>One subtree\<close>

lemma new_node_ok: "0 \<le> i \<Longrightarrow> i < int (length ss) \<Longrightarrow> new_node ss i cs = Inr (RNode i cs)"
  by (simp add: new_node_def roster_at_def)

lemma new_leaves_ok:
  "\<forall>i \<in> set is. 0 \<le> i \<and> i < int (length ss) \<Longrightarrow> new_leaves ss is = Inr (map (\<lambda>i. RNode i []) is)"
  by (induction "is") (auto simp: new_node_ok)

lemma GenSubtree_ok:
  assumes "distinct (rootIdx # rest)" and "rest \<noteq> []" and "\<forall>i \<in> set (rootIdx # rest). 0 \<le> i \<and> i < int (length ss)"
  shows "GenSubtree ss (rootIdx # rest) =
    Inr \<lparr>Roster = ss, Root = RNode rootIdx [RNode (hd rest) (map (\<lambda>i. RNode i []) (tl rest))]\<rparr>"
proof -
  obtain n1 xs where rest: "rest = n1 # xs" using assms(2) by (cases rest) auto
  have "set (map nat (rootIdx # rest)) \<subseteq> {0..<length ss}" using assms(3) by auto
  moreover have "distinct (map nat (rootIdx # rest))"
    using assms(1,3) by (auto simp: distinct_map inj_on_def eq_nat_nat_iff)
  ultimately have "length (rootIdx # rest) \<le> length ss"
    by (metis card_mono distinct_card finite_atLeastLessThan card_atLeastLessThan diff_zero length_map)
  with assms(1,3) show ?thesis
    by (auto simp: GenSubtree_def rest new_node_ok new_leaves_ok)
qed

lemma subtree_nodes_closed:
  "0 < n \<Longrightarrow> 0 \<le> p \<Longrightarrow> p < n \<Longrightarrow>
   subtree_nodes n p k = (map (\<lambda>i. (p + int i) mod n) [0..<k], (p + int k) mod n)"
proof (induction k arbitrary: p)
  case 0
  then show ?case by simp
next
  case (Suc k)
  let ?p = "(p + 1) mod n"
  have rem: "go_rem (p + 1) n = ?p" using Suc.prems by (simp add: go_rem_nonneg)
  have IH: "subtree_nodes n ?p k = (map (\<lambda>i. (?p + int i) mod n) [0..<k], (?p + int k) mod n)"
    using Suc by simp
  have shift: "(?p + int i) mod n = (p + int (Suc i)) mod n" for i
    by (simp add: mod_simps ac_simps)
  have "map (\<lambda>i. (p + int i) mod n) [0..<Suc k] = p # map (\<lambda>i. (p + int (Suc i)) mod n) [0..<k]"
    using Suc.prems by (simp add: upt_conv_Cons map_Suc_upt [symmetric] comp_def del: upt_Suc)
  then show ?case
    unfolding subtree_nodes.simps rem IH shift by simp
qed

section \<open>The partition\<close>

text \<open>
  The indexes after the root, in the order in which the subtrees use them up: position \<open>i\<close> is
  \<open>(root + 1 + i) mod n\<close>.
\<close>

definition from_root :: "int \<Rightarrow> int \<Rightarrow> int list" where
  "from_root n rootIdx = map (\<lambda>i. (rootIdx + 1 + int i) mod n) [0..<nat (n - 1)]"

definition non_root :: "'s tree \<Rightarrow> int list" where
  "non_root t = concat (map (\<lambda>c. RosterIndex c # map RosterIndex (Children c)) (Children (Root t)))"

definition star :: "'s list \<Rightarrow> int \<Rightarrow> int list \<Rightarrow> 's tree" where
  "star ss rootIdx rest =
     \<lparr>Roster = ss, Root = RNode rootIdx [RNode (hd rest) (map (\<lambda>i. RNode i []) (tl rest))]\<rparr>"

lemma non_root_star: "rest \<noteq> [] \<Longrightarrow> non_root (star ss r rest) = rest"
  by (cases rest) (simp_all add: non_root_def star_def comp_def)

lemma from_root_nth_inj:
  assumes "i < nat (n - 1)" and "j < nat (n - 1)" and "(a + 1 + int i) mod n = (a + 1 + int j) mod n"
  shows "i = j"
proof -
  from assms(3) have "n dvd (int i - int j)"
    by (metis add_diff_cancel_left mod_eq_dvd_iff)
  moreover have "\<bar>int i - int j\<bar> < n" using assms(1,2) by auto
  ultimately show ?thesis using zdvd_imp_le [of n "\<bar>int i - int j\<bar>"] by (cases "i = j") auto
qed

lemma from_root_props:
  assumes "0 < n" and "0 \<le> r" and "r < n"
  shows "distinct (r # from_root n r)" and "set (r # from_root n r) = {0..<n}"
proof -
  have "r \<noteq> (r + 1 + int i) mod n" if "i < nat (n - 1)" for i
  proof
    assume "r = (r + 1 + int i) mod n"
    then have "(r + (1 + int i)) mod n = (r + 0) mod n" using assms by (simp add: add.assoc)
    then have "n dvd (1 + int i)" by (metis add_diff_cancel_left mod_eq_dvd_iff diff_zero)
    with that show False using zdvd_imp_le [of n "1 + int i"] by auto
  qed
  then have "r \<notin> set (from_root n r)" by (auto simp: from_root_def)
  moreover have "distinct (from_root n r)"
    by (auto simp: from_root_def distinct_map inj_on_def dest: from_root_nth_inj)
  ultimately show d: "distinct (r # from_root n r)" by simp
  have sub: "set (r # from_root n r) \<subseteq> {0..<n}" using assms by (auto simp: from_root_def)
  have "card (set (r # from_root n r)) = length (r # from_root n r)"
    using d by (rule distinct_card)
  also have "\<dots> = nat n" using assms by (simp add: from_root_def)
  finally show "set (r # from_root n r) = {0..<n}"
    using card_subset_eq [OF _ sub] by simp
qed

lemma gen_loop_closed:
  fixes ss :: "'s list"
  assumes n: "n = int (length ss)" and r: "0 \<le> r" "r < n"
    and q: "0 < q" and i: "0 \<le> i" and s: "0 \<le> s"
    and total: "int d + (q * int todo + max 0 (min (s - i) (int todo))) \<le> n - 1"
  shows "\<exists>ts. gen_loop ss r q s i ((r + 1 + int d) mod n) todo = Inr ts \<and> length ts = todo \<and>
    concat (map non_root ts) = take (nat (q * int todo + max 0 (min (s - i) (int todo)))) (drop d (from_root n r)) \<and>
    (\<forall>t \<in> set ts. t = star ss r (non_root t) \<and> length (non_root t) \<in> {nat q, nat (q + 1)})"
  using i total
proof (induction todo arbitrary: i d)
  case 0
  then show ?case by simp
next
  case (Suc todo)
  define k where "k = nat (q + (if i < s then 1 else 0))"
  define rest where "rest = map (\<lambda>j. (r + 1 + int (d + j)) mod n) [0..<k]"
  have n0: "0 < n" using r by simp
  have nodes: "subtree_nodes n ((r + 1 + int d) mod n) k = (rest, (r + 1 + int (d + k)) mod n)"
    using subtree_nodes_closed [of n "(r + 1 + int d) mod n" k] n0
    by (simp add: rest_def mod_simps ac_simps)
  have k: "0 < k" "int k = q + (if i < s then 1 else 0)" using q by (auto simp: k_def)
  let ?m = "q * int todo + max 0 (min (s - (i + 1)) (int todo))"
  have m: "int k + ?m = q * int (Suc todo) + max 0 (min (s - i) (int (Suc todo)))"
    using k(2) Suc.prems(1) by (simp add: algebra_simps min_def max_def)
  have m0: "0 \<le> ?m" using q by (simp add: max_def)
  have bound: "d + k \<le> nat (n - 1)" using Suc.prems(2) m m0 by linarith
  have rest_take: "rest = take k (drop d (from_root n r))"
    using bound by (auto simp: rest_def from_root_def take_map drop_map intro!: nth_equalityI)
  have sub: "set rest \<subseteq> set (from_root n r)" and dist: "distinct rest"
    using from_root_props(1) [OF n0 r] by (auto simp: rest_take dest: in_set_takeD in_set_dropD)
  have "r \<notin> set rest" using sub from_root_props(1) [OF n0 r] by auto
  moreover have "\<forall>i \<in> set (r # rest). 0 \<le> i \<and> i < int (length ss)"
    using sub from_root_props(2) [OF n0 r] n by auto
  moreover have "rest \<noteq> []" using k by (simp add: rest_def)
  ultimately have tree: "GenSubtree ss (r # rest) = Inr (star ss r rest)"
    using dist GenSubtree_ok [of r rest ss] by (simp add: star_def)
  have "int (d + k) + ?m \<le> n - 1" using Suc.prems(2) m by simp
  from Suc.IH [OF _ this] Suc.prems(1) obtain ts where
    ts: "gen_loop ss r q s (i + 1) ((r + 1 + int (d + k)) mod n) todo = Inr ts" "length ts = todo"
      "concat (map non_root ts) = take (nat ?m) (drop (d + k) (from_root n r))"
      "\<forall>t \<in> set ts. t = star ss r (non_root t) \<and> length (non_root t) \<in> {nat q, nat (q + 1)}"
    by auto
  have run: "gen_loop ss r q s i ((r + 1 + int d) mod n) (Suc todo) = Inr (star ss r rest # ts)"
    unfolding gen_loop.simps Let_def n [symmetric] k_def [symmetric] nodes prod.case tree bindR_simps ts(1) ..
  have len: "length rest = k" by (simp add: rest_def)
  have "take (nat (int k + ?m)) (drop d (from_root n r)) =
      take k (drop d (from_root n r)) @ take (nat ?m) (drop (d + k) (from_root n r))"
    using m0 by (simp add: nat_add_distrib take_add add.commute)
  then have flat: "concat (map non_root (star ss r rest # ts)) =
      take (nat (q * int (Suc todo) + max 0 (min (s - i) (int (Suc todo))))) (drop d (from_root n r))"
    unfolding m [symmetric] using ts(3) \<open>rest \<noteq> []\<close> by (simp add: non_root_star rest_take [symmetric])
  have size: "length (non_root (star ss r rest)) \<in> {nat q, nat (q + 1)}"
    using \<open>rest \<noteq> []\<close> by (auto simp: non_root_star len k_def)
  have "star ss r rest = star ss r (non_root (star ss r rest))" using \<open>rest \<noteq> []\<close> by (simp add: non_root_star)
  with run flat ts(2,4) size show ?case
    by (intro exI [of _ "star ss r rest # ts"]) auto
qed

lemma genTrees_closed:
  fixes t :: "'s tree"
  assumes "1 < length (Roster t)" and "0 \<le> RosterIndex (Root t)"
    and "RosterIndex (Root t) < int (length (Roster t))" and "1 \<le> nSubtrees"
  shows "\<exists>ts q. genTrees t nSubtrees = Inr ts \<and>
    int (length ts) = min nSubtrees (int (length (Roster t)) - 1) \<and>
    concat (map non_root ts) = from_root (int (length (Roster t))) (RosterIndex (Root t)) \<and> 0 < q \<and>
    (\<forall>st \<in> set ts. st = star (Roster t) (RosterIndex (Root t)) (non_root st) \<and>
       length (non_root st) \<in> {q, q + 1})"
proof -
  let ?n = "int (length (Roster t))" and ?r = "RosterIndex (Root t)"
  define k where "k = min nSubtrees (?n - 1)"
  have n: "1 < ?n" and k: "1 \<le> k" "k \<le> ?n - 1" using assms(1,4) by (auto simp: k_def)
  have adj: "(if ?n \<le> nSubtrees then ?n - 1 else nSubtrees) = k" by (auto simp: k_def min_def)
  define q s where "q = (?n - 1) div k" and "s = (?n - 1) mod k"
  have quot: "go_quot (?n - 1) k = q" "go_rem (?n - 1) k = s"
    using n k by (auto simp: q_def s_def intro!: go_quot_nonneg go_rem_nonneg)
  have q: "0 < q" using k by (simp add: q_def pos_imp_zdiv_pos_iff)
  have s: "0 \<le> s" "s < k" using k by (simp_all add: s_def)
  have ptr: "go_rem (?r + 1) ?n = (?r + 1 + int 0) mod ?n" using assms(2,3) n by (simp, intro go_rem_nonneg) auto
  have tot: "q * int (nat k) + max 0 (min (s - 0) (int (nat k))) = ?n - 1"
  proof -
    have "?n - 1 = k * q + s" by (simp add: q_def s_def)
    with s k show ?thesis by (simp add: min_def max_def mult.commute)
  qed
  from gen_loop_closed [of ?n "Roster t" ?r q 0 s 0 "nat k"] assms(2,3) q s tot obtain ts where
    run: "gen_loop (Roster t) ?r q s 0 ((?r + 1 + int 0) mod ?n) (nat k) = Inr ts" "length ts = nat k"
    and flat: "concat (map non_root ts) = take (nat (?n - 1)) (drop 0 (from_root ?n ?r))"
    and each: "\<forall>st \<in> set ts. st = star (Roster t) ?r (non_root st) \<and>
       length (non_root st) \<in> {nat q, nat (q + 1)}"
    by auto
  have "genTrees t nSubtrees = Inr ts"
    unfolding genTrees_def Let_def adj quot ptr using n k assms(1,4) run(1) by auto
  moreover have "concat (map non_root ts) = from_root ?n ?r"
    unfolding flat by (simp add: from_root_def)
  moreover have "int (length ts) = k" using run(2) k by simp
  moreover have "\<forall>st \<in> set ts. st = star (Roster t) ?r (non_root st) \<and>
       length (non_root st) \<in> {nat q, nat q + 1}"
    using each q by (simp add: nat_add_distrib)
  ultimately show ?thesis
    unfolding k_def [symmetric] using q by (intro exI [of _ ts] exI [of _ "nat q"]) auto
qed

lemma star_fields [simp]:
  "Roster (star ss r rest) = ss" "RosterIndex (Root (star ss r rest)) = r"
  "length (Children (Root (star ss r rest))) = 1"
  by (simp_all add: star_def)

text \<open>
  C27: for any roster of at least two servers and any positive number of subtrees,
  \<open>genTrees\<close> succeeds: at most one subtree per server other than the root, all with the
  same root and roster, every server but the root in exactly one subtree, and subtree sizes that
  differ by at most one.
\<close>

theorem genTrees_partition:
  fixes t :: "'s tree"
  assumes "1 < length (Roster t)" and "0 \<le> RosterIndex (Root t)"
    and "RosterIndex (Root t) < int (length (Roster t))" and "1 \<le> nSubtrees"
  shows "\<exists>ts. genTrees t nSubtrees = Inr ts \<and>
    int (length ts) = min nSubtrees (int (length (Roster t)) - 1) \<and>
    distinct (concat (map non_root ts)) \<and>
    set (concat (map non_root ts)) = {0..<int (length (Roster t))} - {RosterIndex (Root t)} \<and>
    (\<exists>q > 0. \<forall>st \<in> set ts. RosterIndex (Root st) = RosterIndex (Root t) \<and> Roster st = Roster t \<and>
       length (Children (Root st)) = 1 \<and> length (non_root st) \<in> {q, q + 1})"
proof -
  let ?n = "int (length (Roster t))" and ?r = "RosterIndex (Root t)"
  from genTrees_closed [OF assms] obtain ts q where
    run: "genTrees t nSubtrees = Inr ts" "int (length ts) = min nSubtrees (?n - 1)"
      "concat (map non_root ts) = from_root ?n ?r"
    and q: "0 < q" and each: "\<forall>st \<in> set ts. st = star (Roster t) ?r (non_root st) \<and> length (non_root st) \<in> {q, q + 1}"
    by blast
  have "distinct (?r # from_root ?n ?r)" "set (?r # from_root ?n ?r) = {0..<?n}"
    by (rule from_root_props; use assms in linarith)+
  moreover have "RosterIndex (Root st) = ?r \<and> Roster st = Roster t \<and> length (Children (Root st)) = 1"
    if "st \<in> set ts" for st
    using each that star_fields [of "Roster t" ?r "non_root st"] by metis
  ultimately show ?thesis
    using run q each by (intro exI [of _ ts]) auto
qed

theorem genTrees_partition_witness:
  "\<exists>ts. genTrees \<lparr>Roster = ''abcdef'', Root = RNode 0 []\<rparr> 2 = Inr ts \<and> int (length ts) = 2 \<and>
     distinct (concat (map non_root ts))"
  using genTrees_partition [of "\<lparr>Roster = ''abcdef'', Root = RNode 0 []\<rparr>" 2] by auto

end
