(* ===== verification/BlsCosi.thy ===== *)
theory BlsCosi
  imports GenTree Measurements "HOL-Library.AList"
begin

text \<open>
  The collective signing protocol (\<open>BLSCoSi/\<close>): the thresholds, the checks before a run, the
  root's collection of the subtrees' responses, the restarts with another subleader, and the
  subleader's collection of the leaves' responses. Signatures are checked by functions of kyber,
  which are parameters.
\<close>

section \<open>Thresholds\<close>

definition DefaultFaultyThreshold :: "int \<Rightarrow> int" where
  "DefaultFaultyThreshold n = go_quot (n - 1) 3"

definition DefaultThreshold :: "int \<Rightarrow> int" where
  "DefaultThreshold n = n - DefaultFaultyThreshold n"

section \<open>The instance\<close>

text \<open>
  The fields of \<open>struct BlsCosi\<close> the checks read. \<open>cTree\<close> is \<open>Tree()\<close>, whose roster is
  \<open>Roster()\<close>; None is nil; times are in nanoseconds.
\<close>

record 's BlsCosi =
  cTree :: "'s tree"
  cMsg :: "bytes option"
  cCreateProtocol :: bool
  cVerificationFn :: bool
  cSubProtocolName :: string
  cTimeout :: int
  cSubleaderFailures :: int
  cThreshold :: int
  cSubTrees :: "'s tree list option"

fun node_count :: "rtree \<Rightarrow> nat" where
  "node_count (RNode i cs) = Suc (sum_list (map node_count cs))"

definition Size :: "'s tree \<Rightarrow> int" where
  "Size t = int (node_count (Root t))"

definition nRoster :: "('s, 'x) BlsCosi_scheme \<Rightarrow> int" where
  "nRoster p = int (length (Roster (cTree p)))"

definition NewBlsCosi :: "'s tree \<Rightarrow> string \<Rightarrow> 's BlsCosi" where
  "NewBlsCosi t subProtocolName = \<lparr>cTree = t, cMsg = None, cCreateProtocol = False, cVerificationFn = True,
     cSubProtocolName = subProtocolName, cTimeout = 10000 * 1000000000, cSubleaderFailures = 2,
     cThreshold = DefaultThreshold (int (length (Roster t))), cSubTrees = None\<rparr>"

definition SetNbrSubTree :: "int \<Rightarrow> 's BlsCosi \<Rightarrow> fault + 's BlsCosi" where
  "SetNbrSubTree nbr p =
    (if nbr \<le> 0 then Inl (ErrRet ''need at least 1 subtree'')
     else if nbr > nRoster p then Inl (ErrRet ''cannot have more subtrees than nodes'')
     else if cThreshold p = 1 then Inr (p\<lparr>cSubTrees := Some []\<rparr>)
     else bindR (NewBlsProtocolTree (cTree p) nbr) (\<lambda>ts. Inr (p\<lparr>cSubTrees := Some ts\<rparr>)))"

definition checkIntegrity :: "'s BlsCosi \<Rightarrow> string option" where
  "checkIntegrity p =
    (if cMsg p = None then Some ''no proposal msg specified''
     else if \<not> cCreateProtocol p then Some ''no create protocol function specified''
     else if \<not> cVerificationFn p then Some ''verification function cannot be nil''
     else if cSubProtocolName p = [] then Some ''sub-protocol name cannot be empty''
     else if cTimeout p < 500 * 1000 then Some ''unrealistic timeout''
     else if cThreshold p > Size (cTree p) then Some ''threshold bigger than number of nodes''
     else if cThreshold p < 1 then Some ''threshold smaller than one node''
     else None)"

definition checkFailureThreshold :: "('s, 'x) BlsCosi_scheme \<Rightarrow> int \<Rightarrow> bool" where
  "checkFailureThreshold p numFailure \<longleftrightarrow> numFailure > nRoster p - cThreshold p"

text \<open>\<open>IsCommitteeRoot\<close> reads \<open>SubTrees[0]\<close>; \<open>nm\<close> gives the name of a server.\<close>

definition IsCommitteeRoot :: "('s \<Rightarrow> string) \<Rightarrow> string \<Rightarrow> 's BlsCosi \<Rightarrow> fault + bool" where
  "IsCommitteeRoot nm self p =
    (case cSubTrees p of
       Some (t # _) \<Rightarrow> Inr (self = nm (ServerIdentity t (Root t)))
     | _ \<Rightarrow> Inl IndexPanic)"

text \<open>\<open>Start\<close> up to the launch of the subprotocols; its branch for nil subtrees is never reached.\<close>

definition StartCosi :: "('s \<Rightarrow> string) \<Rightarrow> string \<Rightarrow> 's BlsCosi \<Rightarrow> fault + 's BlsCosi" where
  "StartCosi nm self p =
     bindR (IsCommitteeRoot nm self p) (\<lambda>isRoot.
       if \<not> isRoot then Inl (ErrRet ''node must be the root'')
       else case checkIntegrity p of
         Some e \<Rightarrow> Inl (ErrRet e)
       | None \<Rightarrow> Inr p)"

section \<open>Restarting a subtree\<close>

text \<open>
  The branch for \<open>subleaderNotResponding\<close>: the subleader goes to the end of the leaves and the
  first leaf takes its place, unless the order says that every leaf has had its turn.
\<close>

definition restart_subtree :: "'s tree \<Rightarrow> fault + 's tree" where
  "restart_subtree t =
     bindR (subleader t) (\<lambda>c.
       let subleaderID = RosterIndex c;
           nodes = RosterIndex (Root t) # map RosterIndex (Children c)
       in if length nodes < 2 \<or> subleaderID > nodes ! 1
          then Inl (ErrRet ''failed with every subleader, ignoring this subtree'')
          else GenSubtree (Roster t) (nodes @ [subleaderID]))"

text \<open>The trees that are tried, at most \<open>k\<close> restarts.\<close>

fun restarts :: "nat \<Rightarrow> 's tree \<Rightarrow> 's tree list" where
  "restarts 0 t = [t]"
| "restarts (Suc k) t = t # (case restart_subtree t of Inl e \<Rightarrow> [] | Inr t' \<Rightarrow> restarts k t')"

section \<open>kyber\<close>

text \<open>
  What the protocol calls of kyber, over the type \<open>'m\<close> of masks (for the public keys of the
  committee's roster) and \<open>'g\<close> of points of G1. None is a returned error. \<open>NewMaskFor s\<close> is
  \<open>NewMask\<close> with the key of \<open>s\<close>, \<open>AggregateSigs\<close> the marshalled aggregate, \<open>VerifySig i msg sig\<close>
  the check of a signature with the key of server \<open>i\<close>, \<open>VerifyAggregate\<close> the check with the
  aggregate of a mask's keys.
\<close>

record ('s, 'm, 'g) kyber =
  NewMask :: 'm
  NewMaskFor :: "'s \<Rightarrow> 'm option"
  SetMask :: "bytes \<Rightarrow> 'm option"
  SetAllBits :: 'm
  MergeMask :: "'m \<Rightarrow> bytes \<Rightarrow> 'm option"
  MaskBytes :: "'m \<Rightarrow> bytes"
  CountEnabled :: "'m \<Rightarrow> int"
  NthEnabledAtIndex :: "'m \<Rightarrow> int \<Rightarrow> int"
  NullPoint :: 'g
  AddPoint :: "'g \<Rightarrow> 'g \<Rightarrow> 'g"
  UnmarshalPoint :: "bytes \<Rightarrow> 'g option"
  MarshalPoint :: "'g \<Rightarrow> bytes option"
  PointLen :: nat
  SignMsg :: "'s \<Rightarrow> bytes \<Rightarrow> bytes option"
  AggregateSigs :: "'m \<Rightarrow> bytes list \<Rightarrow> bytes option"
  VerifySig :: "int \<Rightarrow> bytes \<Rightarrow> bytes \<Rightarrow> bool"
  VerifyAggregate :: "'m \<Rightarrow> bytes \<Rightarrow> bytes \<Rightarrow> bool"

record Response =
  rSignature :: bytes
  rMask :: bytes

section \<open>The root's collection\<close>

text \<open>
  A response comes from the server with an index in the roster (\<open>-1\<close> for a stranger), with the
  sender's \<open>SubtreeCount\<close>.
\<close>

datatype cosi_event = EvResponse int Response int | EvErr string | EvTimeout

record cosi_state =
  numSignature :: int
  numFailure :: int
  responseMap :: "(int \<times> Response) list"

datatype cosi_result = Blocked cosi_state | Failed string | Collected cosi_state

definition cosi_running :: "('s, 'x) BlsCosi_scheme \<Rightarrow> int \<Rightarrow> cosi_state \<Rightarrow> bool" where
  "cosi_running p numSubProtocols st \<longleftrightarrow>
     numSubProtocols > 0 \<and> numSignature st < cThreshold p - 1 \<and> \<not> checkFailureThreshold p (numFailure st)"

definition cosi_finish :: "('s, 'x) BlsCosi_scheme \<Rightarrow> cosi_state \<Rightarrow> cosi_result" where
  "cosi_finish p st =
    (if checkFailureThreshold p (numFailure st) then Failed ''too many refusals'' else Collected st)"

definition cosi_response :: "int \<Rightarrow> Response \<Rightarrow> int \<Rightarrow> int \<Rightarrow> cosi_state \<Rightarrow> cosi_state" where
  "cosi_response index res signers subtree st =
    (if index \<noteq> -1 \<and> index \<notin> fst ` set (responseMap st) then
       \<lparr>numSignature = numSignature st + signers, numFailure = numFailure st + (subtree + 1 - signers),
        responseMap = (index, res) # responseMap st\<rparr>
     else st)"

text \<open>\<open>numSubProtocols\<close> does not change in the loop. Without a further event the loop waits.\<close>

fun collect_loop :: "('s, 'm, 'g) kyber \<Rightarrow> ('s, 'x) BlsCosi_scheme \<Rightarrow> int \<Rightarrow> cosi_event list \<Rightarrow> cosi_state
    \<Rightarrow> cosi_result" where
  "collect_loop ky p numSubProtocols evs st =
    (if \<not> cosi_running p numSubProtocols st then cosi_finish p st
     else case evs of
       [] \<Rightarrow> Blocked st
     | EvResponse index res subtree # es \<Rightarrow>
         (case SetMask ky (rMask res) of
            None \<Rightarrow> Failed ''mismatching mask''
          | Some m \<Rightarrow> collect_loop ky p numSubProtocols es (cosi_response index res (CountEnabled ky m) subtree st))
     | EvErr e # es \<Rightarrow> Failed e
     | EvTimeout # es \<Rightarrow> Failed ''not enough replies from nodes at timeout'')"

declare collect_loop.simps [simp del]

definition collectSignatures :: "('s, 'm, 'g) kyber \<Rightarrow> 's BlsCosi \<Rightarrow> cosi_event list \<Rightarrow> cosi_result" where
  "collectSignatures ky p evs =
     collect_loop ky p (case cSubTrees p of None \<Rightarrow> 0 | Some ts \<Rightarrow> int (length ts)) evs
       \<lparr>numSignature = 0, numFailure = 0, responseMap = []\<rparr>"

section \<open>The final signature\<close>

text \<open>The loop of \<open>makeAggregateResponse\<close> over the responses, in the order Go iterates the map.\<close>

fun agg_loop :: "('s, 'm, 'g) kyber \<Rightarrow> Response list \<Rightarrow> 'g \<Rightarrow> 'm \<Rightarrow> ('g \<times> 'm) option" where
  "agg_loop ky [] pt m = Some (pt, m)"
| "agg_loop ky (r # rs) pt m =
    (if rSignature r = [] then agg_loop ky rs pt m
     else case UnmarshalPoint ky (rSignature r) of
       None \<Rightarrow> None
     | Some g \<Rightarrow> (case MergeMask ky m (rMask r) of
         None \<Rightarrow> None
       | Some m' \<Rightarrow> agg_loop ky rs (AddPoint ky pt g) m'))"

definition makeAggregateResponse :: "('s, 'm, 'g) kyber \<Rightarrow> Response list \<Rightarrow> bytes option" where
  "makeAggregateResponse ky rs =
    (case agg_loop ky rs (NullPoint ky) (NewMask ky) of
       None \<Rightarrow> None
     | Some (pt, m) \<Rightarrow> (case MarshalPoint ky pt of
         None \<Rightarrow> None
       | Some b \<Rightarrow> Some (b @ MaskBytes ky m)))"

text \<open>
  \<open>index\<close> is the root's index in the roster and \<open>order\<close> the iteration order of the map. The root
  panics without a subtree.
\<close>

definition generateSignature :: "('s, 'm, 'g) kyber \<Rightarrow> ((int \<times> Response) list \<Rightarrow> (int \<times> Response) list) \<Rightarrow>
    's BlsCosi \<Rightarrow> 's \<Rightarrow> int \<Rightarrow> (int \<times> Response) list \<Rightarrow> fault + bytes" where
  "generateSignature ky order p server index responses =
    (case cSubTrees p of
       Some (t # ts) \<Rightarrow>
        (case NewMaskFor ky server of
           None \<Rightarrow> Inl (ErrRet ''key not found'')
         | Some personalMask \<Rightarrow> (case SignMsg ky server (case cMsg p of None \<Rightarrow> [] | Some msg \<Rightarrow> msg) of
             None \<Rightarrow> Inl (ErrRet ''sign'')
           | Some personalSig \<Rightarrow> (case AggregateSigs ky personalMask [personalSig] of
               None \<Rightarrow> Inl (ErrRet ''aggregate'')
             | Some agg \<Rightarrow>
                (case makeAggregateResponse ky (map snd (order (AList.update index
                        \<lparr>rSignature = agg, rMask = MaskBytes ky personalMask\<rparr> responses))) of
                   None \<Rightarrow> Inl (ErrRet ''aggregate responses'')
                 | Some sig \<Rightarrow> Inr sig))))
     | _ \<Rightarrow> Inl IndexPanic)"

section \<open>Verifying the final signature\<close>

definition GetMask :: "('s, 'm, 'g) kyber \<Rightarrow> bytes \<Rightarrow> fault + 'm" where
  "GetMask ky sig =
    (if length sig < PointLen ky then Inl IndexPanic
     else let bits = drop (PointLen ky) sig in
       if bits = [] then Inr (SetAllBits ky)
       else case SetMask ky bits of None \<Rightarrow> Inl (ErrRet ''mismatching mask'') | Some m \<Rightarrow> Inr m)"

text \<open>\<open>BdnSignature.VerifyWithPolicy\<close>; \<open>policy\<close> is the policy's check of a mask.\<close>

definition VerifyWithPolicy :: "('s, 'm, 'g) kyber \<Rightarrow> ('m \<Rightarrow> bool) \<Rightarrow> bytes \<Rightarrow> bytes \<Rightarrow> fault + unit" where
  "VerifyWithPolicy ky policy msg sig =
    (if length sig < PointLen ky then Inl (ErrRet ''invalid signature length'')
     else let signature = take (PointLen ky) sig in
       bindR (GetMask ky sig) (\<lambda>mask.
         if \<not> VerifyAggregate ky mask msg signature then Inl (ErrRet ''didn't get a valid signature'')
         else if \<not> policy mask then Inl (ErrRet ''the policy is not fulfilled'')
         else Inr ()))"

text \<open>\<open>sign.NewThresholdPolicy\<close> accepts a mask with at least the threshold of bits.\<close>

definition Verify :: "('s, 'm, 'g) kyber \<Rightarrow> int \<Rightarrow> bytes \<Rightarrow> bytes \<Rightarrow> fault + unit" where
  "Verify ky nPublics msg sig =
     VerifyWithPolicy ky (\<lambda>mask. DefaultThreshold nPublics \<le> CountEnabled ky mask) msg sig"

section \<open>Quorums\<close>

lemma threshold_bounds:
  assumes "1 \<le> n"
  shows "0 \<le> DefaultFaultyThreshold n" and "3 * DefaultFaultyThreshold n < n"
    and "n \<le> 3 * DefaultFaultyThreshold n + 3"
    and "1 \<le> DefaultThreshold n" and "DefaultThreshold n \<le> n"
    and "n + DefaultFaultyThreshold n < 2 * DefaultThreshold n"
proof -
  have "DefaultFaultyThreshold n = (n - 1) div 3"
    using assms by (simp add: DefaultFaultyThreshold_def go_quot_nonneg)
  then show "0 \<le> DefaultFaultyThreshold n" "3 * DefaultFaultyThreshold n < n"
    "n \<le> 3 * DefaultFaultyThreshold n + 3" "1 \<le> DefaultThreshold n" "DefaultThreshold n \<le> n"
    "n + DefaultFaultyThreshold n < 2 * DefaultThreshold n"
    using assms unfolding DefaultThreshold_def by presburger+
qed

lemma quorums_intersect_lib:
  assumes "1 \<le> n" and "A \<subseteq> {0..<n}" and "B \<subseteq> {0..<n}" and "F \<subseteq> {0..<n}"
    and "DefaultThreshold n \<le> int (card A)" and "DefaultThreshold n \<le> int (card B)"
    and "int (card F) \<le> DefaultFaultyThreshold n"
  shows "(\<exists>i \<in> A \<inter> B. i \<notin> F) \<and> DefaultThreshold n \<le> int (card ({0..<n} - F))"
proof -
  have fin: "finite A" "finite B" "finite F" using assms(2-4) by (auto intro: finite_subset)
  have "card (A \<union> B) \<le> nat n" using card_mono [of "{0..<n}" "A \<union> B"] assms(2,3) by simp
  then have "int (card (A \<union> B)) \<le> n" using assms(1) by linarith
  moreover have "int (card A) + int (card B) = int (card (A \<union> B)) + int (card (A \<inter> B))"
    using card_Un_Int [OF fin(1,2)] by linarith
  ultimately have "card F < card (A \<inter> B)"
    using threshold_bounds(6) [OF assms(1)] assms(5-7) by linarith
  then have "\<not> A \<inter> B \<subseteq> F" using card_mono [OF fin(3)] by (meson leD)
  moreover have "int (card ({0..<n} - F)) = n - int (card F)"
    using card_Diff_subset [OF fin(3) assms(4)] card_mono [OF _ assms(4)] assms(1) by (simp add: of_nat_diff)
  ultimately show ?thesis using assms(7) by (auto simp: DefaultThreshold_def)
qed

text \<open>
  C28: two groups of at least \<open>DefaultThreshold n\<close> signers out of \<open>n\<close> have a member
  in common that is not among any \<open>DefaultFaultyThreshold n\<close> faulty ones, and without the
  faulty ones there are still enough servers to reach the threshold.
\<close>

theorem quorums_intersect:
  assumes "1 \<le> n" and "A \<subseteq> {0..<n}" and "B \<subseteq> {0..<n}" and "F \<subseteq> {0..<n}"
    and "DefaultThreshold n \<le> int (card A)" and "DefaultThreshold n \<le> int (card B)"
    and "int (card F) \<le> DefaultFaultyThreshold n"
  shows "(\<exists>i \<in> A \<inter> B. i \<notin> F) \<and> DefaultThreshold n \<le> int (card ({0..<n} - F))"
  by (rule quorums_intersect_lib [OF assms])

theorem quorums_intersect_witness:
  "\<exists>i \<in> {0, 1, 2} \<inter> {1, 2, 3 :: int}. i \<notin> {1}"
  using quorums_intersect [of 4 "{0, 1, 2}" "{1, 2, 3}" "{1}"]
  by (auto simp: DefaultThreshold_def DefaultFaultyThreshold_def go_quot_def)

section \<open>The collection\<close>

definition sum_enabled :: "('s, 'm, 'g) kyber \<Rightarrow> (int \<times> Response) list \<Rightarrow> int" where
  "sum_enabled ky rs = sum_list (map (\<lambda>(i, r). case SetMask ky (rMask r) of None \<Rightarrow> 0 | Some m \<Rightarrow> CountEnabled ky m) rs)"

definition responses_ok :: "('s, 'm, 'g) kyber \<Rightarrow> cosi_event list \<Rightarrow> cosi_state \<Rightarrow> bool" where
  "responses_ok ky evs st \<longleftrightarrow>
     distinct (map fst (responseMap st)) \<and> numSignature st = sum_enabled ky (responseMap st) \<and>
     (\<forall>(i, r) \<in> set (responseMap st). i \<noteq> -1 \<and> SetMask ky (rMask r) \<noteq> None \<and>
        (\<exists>k. EvResponse i r k \<in> set evs))"

lemma responses_ok_step:
  assumes "responses_ok ky evs st" and "EvResponse i r k \<in> set evs" and "SetMask ky (rMask r) = Some m"
  shows "responses_ok ky evs (cosi_response i r (CountEnabled ky m) k st)"
  using assms by (auto simp: responses_ok_def cosi_response_def sum_enabled_def)

lemma collect_loop_sound:
  assumes "collect_loop ky p num evs st = Collected st'" and "responses_ok ky (pre @ evs) st"
  shows "responses_ok ky (pre @ evs) st' \<and> \<not> cosi_running p num st' \<and> \<not> checkFailureThreshold p (numFailure st')"
  using assms
proof (induction evs arbitrary: st pre)
  case Nil
  then show ?case
    by (auto simp: collect_loop.simps [of _ _ _ "[]"] cosi_finish_def split: if_splits)
next
  case (Cons e es)
  show ?case
  proof (cases "cosi_running p num st")
    case False
    with Cons.prems show ?thesis
      by (auto simp: collect_loop.simps [of _ _ _ "_ # _"] cosi_finish_def split: if_splits)
  next
    case True
    with Cons.prems(1) obtain i r k m where e: "e = EvResponse i r k" "SetMask ky (rMask r) = Some m"
      and run: "collect_loop ky p num es (cosi_response i r (CountEnabled ky m) k st) = Collected st'"
      by (auto simp: collect_loop.simps [of _ _ _ "_ # _"] split: cosi_event.splits option.splits)
    have "responses_ok ky ((pre @ [e]) @ es) (cosi_response i r (CountEnabled ky m) k st)"
      using responses_ok_step [OF _ _ e(2)] Cons.prems(2) e(1) by (metis append.assoc append_Cons append_Nil in_set_conv_decomp)
    from Cons.IH [OF run this] show ?thesis by simp
  qed
qed

definition nSubTrees :: "'s BlsCosi \<Rightarrow> int" where
  "nSubTrees p = (case cSubTrees p of None \<Rightarrow> 0 | Some ts \<Rightarrow> int (length ts))"

lemma collectSignatures_sound_lib:
  assumes "collectSignatures ky p evs = Collected st"
  shows "distinct (map fst (responseMap st)) \<and>
    (\<forall>(i, r) \<in> set (responseMap st). i \<noteq> -1 \<and> SetMask ky (rMask r) \<noteq> None \<and> (\<exists>k. EvResponse i r k \<in> set evs)) \<and>
    numSignature st = sum_enabled ky (responseMap st) \<and>
    (0 < nSubTrees p \<longrightarrow> cThreshold p \<le> numSignature st + 1) \<and>
    numFailure st \<le> nRoster p - cThreshold p"
proof -
  have "responses_ok ky ([] @ evs) \<lparr>numSignature = 0, numFailure = 0, responseMap = []\<rparr>"
    by (simp add: responses_ok_def sum_enabled_def)
  with assms have "responses_ok ky evs st \<and> \<not> cosi_running p (nSubTrees p) st \<and> \<not> checkFailureThreshold p (numFailure st)"
    unfolding collectSignatures_def nSubTrees_def using collect_loop_sound by fastforce
  then show ?thesis
    by (auto simp: responses_ok_def cosi_running_def checkFailureThreshold_def)
qed

text \<open>
  when the root has collected the responses, they come from different servers of the roster,
  each was received and has a mask that fits, the masks count the threshold less the root's own
  signature (unless there is no subtree), and the failures leave the threshold within reach.
\<close>

theorem collectSignatures_sound:
  assumes "collectSignatures ky p evs = Collected st"
  shows "distinct (map fst (responseMap st)) \<and>
    (\<forall>(i, r) \<in> set (responseMap st). i \<noteq> -1 \<and> SetMask ky (rMask r) \<noteq> None \<and> (\<exists>k. EvResponse i r k \<in> set evs)) \<and>
    numSignature st = sum_enabled ky (responseMap st) \<and>
    (0 < nSubTrees p \<longrightarrow> cThreshold p \<le> numSignature st + 1) \<and>
    numFailure st \<le> nRoster p - cThreshold p"
  using collectSignatures_sound_lib [OF assms] .

section \<open>Waiting\<close>

text \<open>The answer of each subtree: the index of its subleader, the response, and the number of its leaves.\<close>

definition answers :: "(int \<times> Response \<times> int) list \<Rightarrow> cosi_event list" where
  "answers xs = map (\<lambda>(i, r, k). EvResponse i r k) xs"

definition enabled_of :: "('s, 'm, 'g) kyber \<Rightarrow> Response \<Rightarrow> int" where
  "enabled_of ky r = (case SetMask ky (rMask r) of None \<Rightarrow> 0 | Some m \<Rightarrow> CountEnabled ky m)"

definition answers_ok :: "('s, 'm, 'g) kyber \<Rightarrow> (int \<times> Response \<times> int) list \<Rightarrow> bool" where
  "answers_ok ky xs \<longleftrightarrow> distinct (map fst xs) \<and>
     (\<forall>(i, r, k) \<in> set xs. i \<noteq> -1 \<and> SetMask ky (rMask r) \<noteq> None \<and> 0 \<le> enabled_of ky r \<and> enabled_of ky r \<le> k + 1)"

definition signers :: "('s, 'm, 'g) kyber \<Rightarrow> (int \<times> Response \<times> int) list \<Rightarrow> int" where
  "signers ky xs = sum_list (map (\<lambda>(i, r, k). enabled_of ky r) xs)"

definition asked :: "(int \<times> Response \<times> int) list \<Rightarrow> int" where
  "asked xs = sum_list (map (\<lambda>(i, r, k). k + 1) xs)"

lemma signers_bounds: "answers_ok ky xs \<Longrightarrow> 0 \<le> signers ky xs \<and> signers ky xs \<le> asked xs"
proof (induction xs)
  case Nil
  then show ?case by (simp add: signers_def asked_def)
next
  case (Cons x xs)
  obtain i r k where x: "x = (i, r, k)" by (cases x) auto
  have "answers_ok ky xs" using Cons.prems by (simp add: answers_ok_def)
  with Cons.IH Cons.prems show ?case by (simp add: x signers_def asked_def answers_ok_def)
qed

lemma collect_loop_blocked_iff:
  assumes "answers_ok ky xs" and "fst ` set xs \<inter> fst ` set (responseMap st) = {}"
  shows "(\<exists>b. collect_loop ky p num (answers xs) st = Blocked b) \<longleftrightarrow>
    0 < num \<and> numSignature st + signers ky xs < cThreshold p - 1 \<and>
    numFailure st + (asked xs - signers ky xs) \<le> nRoster p - cThreshold p"
  using assms
proof (induction xs arbitrary: st)
  case Nil
  then show ?case
    by (auto simp: answers_def collect_loop.simps [of _ _ _ "[]"] cosi_finish_def cosi_running_def
        checkFailureThreshold_def signers_def asked_def)
next
  case (Cons x xs)
  obtain i r k where x: "x = (i, r, k)" by (cases x) auto
  from Cons.prems obtain m where m: "SetMask ky (rMask r) = Some m" "i \<noteq> -1" and c: "0 \<le> enabled_of ky r" "enabled_of ky r \<le> k + 1"
    and ok: "answers_ok ky xs" and new: "i \<notin> fst ` set xs" "i \<notin> fst ` set (responseMap st)"
    by (auto simp: answers_ok_def x)
  have em: "enabled_of ky r = CountEnabled ky m" by (simp add: enabled_of_def m)
  have split: "signers ky (x # xs) = enabled_of ky r + signers ky xs" "asked (x # xs) = k + 1 + asked xs"
    by (simp_all add: x signers_def asked_def)
  have ans: "answers (x # xs) = EvResponse i r k # answers xs" by (simp add: answers_def x)
  note b = signers_bounds [OF ok]
  show ?case
  proof (cases "cosi_running p num st")
    case False
    then have "\<nexists>b. collect_loop ky p num (answers (x # xs)) st = Blocked b"
      by (simp add: collect_loop.simps [of _ _ _ "answers (x # xs)"] cosi_finish_def)
    with False b c show ?thesis unfolding split by (auto simp: cosi_running_def checkFailureThreshold_def)
  next
    case True
    let ?st = "cosi_response i r (CountEnabled ky m) k st"
    have st: "?st = \<lparr>numSignature = numSignature st + enabled_of ky r,
        numFailure = numFailure st + (k + 1 - enabled_of ky r), responseMap = (i, r) # responseMap st\<rparr>"
      using m(2) new(2) by (simp add: cosi_response_def em)
    have "fst ` set xs \<inter> fst ` set (responseMap ?st) = {}" using Cons.prems(2) new by (auto simp: st)
    from Cons.IH [OF ok this] have "(\<exists>b. collect_loop ky p num (answers xs) ?st = Blocked b) \<longleftrightarrow>
        0 < num \<and> numSignature st + enabled_of ky r + signers ky xs < cThreshold p - 1 \<and>
        numFailure st + (k + 1 - enabled_of ky r) + (asked xs - signers ky xs) \<le> nRoster p - cThreshold p"
      by (simp add: st)
    moreover have "collect_loop ky p num (answers (x # xs)) st = collect_loop ky p num (answers xs) ?st"
      using True m(1) unfolding ans by (subst collect_loop.simps) simp
    ultimately show ?thesis unfolding split by (auto simp: algebra_simps)
  qed
qed

text \<open>
  Once every subtree has answered, with \<open>asked\<close> servers in all, the root still waits
  exactly when the signers do not reach the threshold and the refusals do not rule it out in
  the whole roster. When the subtrees cover the roster but for the root, it never waits; with a
  smaller committee than roster it can, until the timeout.
\<close>

theorem collect_waits_iff:
  assumes "answers_ok ky xs"
  shows "((\<exists>b. collectSignatures ky p (answers xs) = Blocked b) \<longleftrightarrow>
      0 < nSubTrees p \<and> signers ky xs + 1 < cThreshold p \<and>
      asked xs - signers ky xs \<le> nRoster p - cThreshold p) \<and>
    (nRoster p \<le> asked xs + 1 \<longrightarrow> (\<nexists>b. collectSignatures ky p (answers xs) = Blocked b))"
proof -
  have "(\<exists>b. collectSignatures ky p (answers xs) = Blocked b) \<longleftrightarrow>
      0 < nSubTrees p \<and> signers ky xs + 1 < cThreshold p \<and>
      asked xs - signers ky xs \<le> nRoster p - cThreshold p"
    using collect_loop_blocked_iff [OF assms, of "\<lparr>numSignature = 0, numFailure = 0, responseMap = []\<rparr>" p "nSubTrees p"]
    by (auto simp: collectSignatures_def nSubTrees_def)
  then show ?thesis by auto
qed

text \<open>Masks of up to eight keys, in one byte, as kyber lays them out.\<close>

definition bits8 :: "8 word \<Rightarrow> int set" where
  "bits8 w = int ` {i. i < 8 \<and> bit w i}"

definition sample_kyber :: "(string, 8 word, nat) kyber" where
  "sample_kyber = \<lparr>NewMask = 0, NewMaskFor = (\<lambda>s. Some 1),
     SetMask = (\<lambda>b. case b of [w] \<Rightarrow> Some w | _ \<Rightarrow> None), SetAllBits = 255,
     MergeMask = (\<lambda>m b. case b of [w] \<Rightarrow> Some (or m w) | _ \<Rightarrow> None), MaskBytes = (\<lambda>m. [m]),
     CountEnabled = (\<lambda>m. int (length (filter (bit m) [0..<8]))),
     NthEnabledAtIndex = (\<lambda>m i. if 0 \<le> i \<and> i < 8 \<and> bit m (nat i) then int (length (filter (bit m) [0..<nat i])) else -1),
     NullPoint = 0, AddPoint = (+),
     UnmarshalPoint = (\<lambda>b. Some (length b)), MarshalPoint = (\<lambda>g. Some (replicate 4 (word_of_nat g))),
     PointLen = 4, SignMsg = (\<lambda>s msg. Some [1, 2]), AggregateSigs = (\<lambda>m sigs. Some (concat sigs)),
     VerifySig = (\<lambda>i msg sig. sig = [word_of_int i]), VerifyAggregate = (\<lambda>m msg sig. True)\<rparr>"

definition sample_cosi :: "string BlsCosi" where
  "sample_cosi = (NewBlsCosi \<lparr>Roster = [''s1'', ''s2'', ''s3'', ''s4''], Root = RNode 0 [RNode 1 [], RNode 2 [], RNode 3 []]\<rparr> ''sub'')
     \<lparr>cMsg := Some [255], cCreateProtocol := True,
      cSubTrees := Some [star [''s1'', ''s2'', ''s3'', ''s4''] 0 [1, 2, 3]]\<rparr>"

definition sample_response :: Response where
  "sample_response = \<lparr>rSignature = [7], rMask = [14]\<rparr>"

lemmas sample_cosi_defs = sample_kyber_def sample_cosi_def sample_response_def NewBlsCosi_def
  DefaultThreshold_def DefaultFaultyThreshold_def go_quot_def nRoster_def nSubTrees_def
  cosi_running_def checkFailureThreshold_def cosi_response_def cosi_finish_def

lemma count8: "length (filter (bit (14 :: 8 word)) [0..<8]) = 3"
  by (simp add: upt_conv_Cons bit_numeral_rec)

lemma sample_collects: "collectSignatures sample_kyber sample_cosi [EvResponse 1 sample_response 2] =
    Collected \<lparr>numSignature = 3, numFailure = 0, responseMap = [(1, sample_response)]\<rparr>"
  by (simp add: collectSignatures_def collect_loop.simps sample_cosi_defs count8 del: upt_Suc upt.simps)

theorem collectSignatures_sound_witness:
  "cThreshold sample_cosi \<le> 4 \<and> sum_enabled sample_kyber [(1, sample_response)] = 3"
  using collectSignatures_sound [OF sample_collects] by (simp add: sample_cosi_defs)

theorem collect_waits_iff_witness:
  "\<nexists>b. collectSignatures sample_kyber sample_cosi (answers [(1, sample_response, 2)]) = Blocked b"
proof -
  have "answers_ok sample_kyber [(1, sample_response, 2)]"
    by (simp add: answers_ok_def enabled_of_def sample_response_def sample_kyber_def count8 del: upt.simps)
  from collect_waits_iff [OF this, of sample_cosi] show ?thesis
    by (simp add: asked_def nRoster_def sample_cosi_def NewBlsCosi_def)
qed

end
