(* ===== verification/BlsSignature.thy ===== *)
theory BlsSignature
  imports BlsCosi "HOL-Library.Multiset"
begin

text \<open>
  What the root's final signature is worth: its mask, under the documented behaviour of kyber's
  masks, and the subleaders that restarts try.
\<close>

section \<open>Masks\<close>

lemma update_new: "k \<notin> fst ` set xs \<Longrightarrow> AList.update k v xs = xs @ [(k, v)]"
  by (induction xs) auto

text \<open>
  \<open>enabled\<close> is the set of bits of a mask: \<open>CountEnabled\<close> counts it, \<open>NewMask\<close> without a
  key is empty, \<open>SetMask\<close> undoes \<open>Mask()\<close>, which is not empty, and \<open>Merge\<close> is the union,
  or an error when the bytes do not fit.
\<close>

definition mask_laws :: "('s, 'm, 'g) kyber \<Rightarrow> ('m \<Rightarrow> int set) \<Rightarrow> bool" where
  "mask_laws ky enabled \<longleftrightarrow>
     (\<forall>m. finite (enabled m) \<and> CountEnabled ky m = int (card (enabled m))) \<and>
     enabled (NewMask ky) = {} \<and>
     (\<forall>m. MaskBytes ky m \<noteq> [] \<and> SetMask ky (MaskBytes ky m) = Some m) \<and>
     (\<forall>m b mb. SetMask ky b = Some mb \<longrightarrow>
        (\<exists>m'. MergeMask ky m b = Some m' \<and> enabled m' = enabled m \<union> enabled mb))"

text \<open>Points are marshalled at their fixed length.\<close>

definition point_laws :: "('s, 'm, 'g) kyber \<Rightarrow> bool" where
  "point_laws ky \<longleftrightarrow> (\<forall>g. \<exists>b. MarshalPoint ky g = Some b \<and> length b = PointLen ky)"

definition response_bits :: "('s, 'm, 'g) kyber \<Rightarrow> ('m \<Rightarrow> int set) \<Rightarrow> Response \<Rightarrow> int set" where
  "response_bits ky enabled r = (case SetMask ky (rMask r) of None \<Rightarrow> {} | Some m \<Rightarrow> enabled m)"

definition usable :: "('s, 'm, 'g) kyber \<Rightarrow> Response \<Rightarrow> bool" where
  "usable ky r \<longleftrightarrow> rSignature r \<noteq> [] \<and> UnmarshalPoint ky (rSignature r) \<noteq> None \<and> SetMask ky (rMask r) \<noteq> None"

lemma agg_loop_ok:
  assumes "mask_laws ky enabled" and "\<forall>r \<in> set rs. usable ky r"
  shows "\<exists>g' m'. agg_loop ky rs g m = Some (g', m') \<and>
    enabled m' = enabled m \<union> (\<Union>r \<in> set rs. response_bits ky enabled r)"
  using assms(2)
proof (induction rs arbitrary: g m)
  case Nil
  then show ?case by simp
next
  case (Cons r rs)
  from Cons.prems obtain h mb where r: "rSignature r \<noteq> []" "UnmarshalPoint ky (rSignature r) = Some h"
    "SetMask ky (rMask r) = Some mb" by (auto simp: usable_def)
  with assms(1) obtain m1 where m1: "MergeMask ky m (rMask r) = Some m1" "enabled m1 = enabled m \<union> enabled mb"
    unfolding mask_laws_def by meson
  from Cons obtain g' m' where "agg_loop ky rs (AddPoint ky g h) m1 = Some (g', m')"
    "enabled m' = enabled m1 \<union> (\<Union>r \<in> set rs. response_bits ky enabled r)" by fastforce
  with r m1 show ?case by (auto simp: response_bits_def)
qed

lemma makeAggregateResponse_ok:
  assumes "mask_laws ky enabled" and "point_laws ky" and "\<forall>r \<in> set rs. usable ky r"
  shows "\<exists>sig m. makeAggregateResponse ky rs = Some sig \<and> GetMask ky sig = Inr m \<and>
    enabled m = (\<Union>r \<in> set rs. response_bits ky enabled r) \<and> PointLen ky \<le> length sig"
proof -
  from agg_loop_ok [OF assms(1,3), of "NullPoint ky" "NewMask ky"] obtain g m where
    run: "agg_loop ky rs (NullPoint ky) (NewMask ky) = Some (g, m)"
    "enabled m = (\<Union>r \<in> set rs. response_bits ky enabled r)"
    using assms(1) by (auto simp: mask_laws_def)
  obtain b where "MarshalPoint ky g = Some b" "length b = PointLen ky"
    using assms(2) by (auto simp: point_laws_def)
  moreover have "MaskBytes ky m \<noteq> []" "SetMask ky (MaskBytes ky m) = Some m"
    using assms(1) unfolding mask_laws_def by blast+
  ultimately show ?thesis
    using run by (auto simp: makeAggregateResponse_def GetMask_def Let_def)
qed

section \<open>The final signature\<close>

lemma sum_enabled_card:
  assumes "mask_laws ky enabled" and "distinct (map fst rs)"
    and "\<forall>(i, r) \<in> set rs. SetMask ky (rMask r) \<noteq> None"
    and "\<forall>(i, r) \<in> set rs. \<forall>(j, s) \<in> set rs. i \<noteq> j \<longrightarrow> response_bits ky enabled r \<inter> response_bits ky enabled s = {}"
  shows "sum_enabled ky rs = int (card (\<Union>r \<in> snd ` set rs. response_bits ky enabled r)) \<and>
    finite (\<Union>r \<in> snd ` set rs. response_bits ky enabled r)"
  using assms(2-)
proof (induction rs)
  case Nil
  then show ?case by (simp add: sum_enabled_def)
next
  case (Cons x rs)
  obtain i r where x: "x = (i, r)" by (cases x)
  from Cons.prems obtain m where m: "SetMask ky (rMask r) = Some m" by (auto simp: x)
  have bits: "response_bits ky enabled r = enabled m" by (simp add: response_bits_def m)
  have fin: "finite (enabled m)" and cnt: "CountEnabled ky m = int (card (enabled m))"
    using assms(1) unfolding mask_laws_def by blast+
  let ?U = "\<Union>r \<in> snd ` set rs. response_bits ky enabled r"
  have dis: "\<forall>(i, r) \<in> set rs. \<forall>(j, s) \<in> set rs. i \<noteq> j \<longrightarrow>
      response_bits ky enabled r \<inter> response_bits ky enabled s = {}"
    using Cons.prems(3) by (simp add: x case_prod_beta)
  have IH: "sum_enabled ky rs = int (card ?U)" "finite ?U" using Cons.IH [OF _ _ dis] Cons.prems(1,2) by auto
  have "enabled m \<inter> ?U = {}"
  proof -
    have "enabled m \<inter> response_bits ky enabled s = {}" if "(j, s) \<in> set rs" for j s
    proof -
      have "i \<noteq> j" using Cons.prems(1) that by (force simp: x)
      then show ?thesis using Cons.prems(3) that bits by (fastforce simp: x)
    qed
    then show ?thesis by fastforce
  qed
  then have "card (enabled m \<union> ?U) = card (enabled m) + card ?U" using fin IH(2) by (rule_tac card_Un_disjoint)
  moreover have "sum_enabled ky (x # rs) = CountEnabled ky m + sum_enabled ky rs"
    by (simp add: x sum_enabled_def m)
  ultimately show ?case using IH fin by (simp add: x bits cnt)
qed

text \<open>
  C29: after a successful collection from at least one subtree, whose masks are disjoint and
  leave the root out, the root produces a signature, for any order in which Go iterates the
  responses; the mask unpacked from it enables the responses' bits and the root's, at least
  \<open>Threshold\<close> of them; and it passes the verification whenever the aggregate is valid and the
  verifier's default threshold is not above \<open>Threshold\<close>.
\<close>

theorem final_signature_meets_threshold:
  assumes laws: "mask_laws ky enabled" "point_laws ky"
    and collected: "collectSignatures ky p evs = Collected st" and trees: "cSubTrees p = Some (t # ts)"
    and own: "NewMaskFor ky server = Some personal" "enabled personal = {self_bit}" "SignMsg ky server msg = Some sg"
      "cMsg p = Some msg" "AggregateSigs ky personal [sg] = Some agg" "agg \<noteq> []" "UnmarshalPoint ky agg \<noteq> None"
      "index \<notin> fst ` set (responseMap st)"
    and usable: "\<forall>r \<in> snd ` set (responseMap st). usable ky r \<and> self_bit \<notin> response_bits ky enabled r"
    and disjoint: "\<forall>(i, r) \<in> set (responseMap st). \<forall>(j, s) \<in> set (responseMap st).
      i \<noteq> j \<longrightarrow> response_bits ky enabled r \<inter> response_bits ky enabled s = {}"
    and order: "\<And>xs. mset (order xs) = mset xs"
  shows "\<exists>sig m. generateSignature ky order p server index (responseMap st) = Inr sig \<and> GetMask ky sig = Inr m \<and>
    enabled m = insert self_bit (\<Union>r \<in> snd ` set (responseMap st). response_bits ky enabled r) \<and>
    cThreshold p \<le> CountEnabled ky m \<and>
    (VerifyAggregate ky m msg (take (PointLen ky) sig) \<and> DefaultThreshold nPublics \<le> cThreshold p \<longrightarrow>
       Verify ky nPublics msg sig = Inr ())"
proof -
  let ?rs = "responseMap st"
  let ?own = "\<lparr>rSignature = agg, rMask = MaskBytes ky personal\<rparr>"
  let ?all = "order (AList.update index ?own ?rs)"
  have mset_own: "set (AList.update index ?own ?rs) = insert (index, ?own) (set ?rs)"
    using own(8) by (simp add: update_new)
  have set_all: "set ?all = insert (index, ?own) (set ?rs)"
    using arg_cong [OF order [of "AList.update index ?own ?rs"], of set_mset] mset_own by simp
  have setb: "SetMask ky (MaskBytes ky personal) = Some personal"
    using laws(1) unfolding mask_laws_def by blast
  have "\<forall>r \<in> set (map snd ?all). usable ky r"
    using usable own setb by (auto simp: set_all usable_def)
  from makeAggregateResponse_ok [OF laws this] obtain sig m where
    sig: "makeAggregateResponse ky (map snd ?all) = Some sig" "GetMask ky sig = Inr m" "PointLen ky \<le> length sig"
    and bits: "enabled m = (\<Union>r \<in> set (map snd ?all). response_bits ky enabled r)" by blast
  have bits': "enabled m = insert self_bit (\<Union>r \<in> snd ` set ?rs. response_bits ky enabled r)"
    using own(2) setb by (auto simp: bits set_all response_bits_def)
  note sound = collectSignatures_sound_lib [OF collected]
  have "sum_enabled ky ?rs = int (card (\<Union>r \<in> snd ` set ?rs. response_bits ky enabled r))"
    and fin: "finite (\<Union>r \<in> snd ` set ?rs. response_bits ky enabled r)"
    using sum_enabled_card [OF laws(1) _ _ disjoint] sound by (auto simp: case_prod_beta)
  moreover have "self_bit \<notin> (\<Union>r \<in> snd ` set ?rs. response_bits ky enabled r)" using usable by blast
  moreover have "CountEnabled ky m = int (card (enabled m))" using laws(1) unfolding mask_laws_def by blast
  ultimately have "CountEnabled ky m = sum_enabled ky ?rs + 1" by (simp add: bits')
  then have count: "cThreshold p \<le> CountEnabled ky m" using sound trees by (simp add: nSubTrees_def)
  have "generateSignature ky order p server index ?rs = Inr sig"
    using trees own sig(1) by (simp add: generateSignature_def)
  with sig bits' count show ?thesis
    by (intro exI [of _ sig] exI [of _ m]) (auto simp: Verify_def VerifyWithPolicy_def Let_def)
qed

lemma sample_masks: "mask_laws sample_kyber bits8"
proof -
  have 1: "finite (bits8 m) \<and> CountEnabled sample_kyber m = int (card (bits8 m))" for m
  proof -
    have "bits8 m = int ` set (filter (bit m) [0..<8])" by (auto simp: bits8_def)
    then show ?thesis
      by (simp add: sample_kyber_def card_image distinct_card del: upt.simps set_filter)
  qed
  have "\<exists>m'. MergeMask sample_kyber m b = Some m' \<and> bits8 m' = bits8 m \<union> bits8 mb"
    if "SetMask sample_kyber b = Some mb" for m b mb
    using that by (auto simp: sample_kyber_def bits8_def bit_or_iff split: list.splits)
  with 1 show ?thesis by (simp add: mask_laws_def) (simp add: sample_kyber_def bits8_def)
qed

lemma sample_points: "point_laws sample_kyber"
  by (simp add: point_laws_def sample_kyber_def)

lemma sample_bits: "bits8 1 = {0}" "bits8 14 = {1, 2, 3}"
proof -
  have "bits8 m = int ` set (filter (bit m) [0..<8])" for m :: "8 word" by (auto simp: bits8_def)
  then show "bits8 1 = {0}" "bits8 14 = {1, 2, 3}"
    by (simp_all add: upt_conv_Cons bit_numeral_rec bit_1_iff del: set_filter)
qed

theorem final_signature_meets_threshold_witness:
  "\<exists>sig m. generateSignature sample_kyber rev sample_cosi ''s1'' 0 [(1, sample_response)] = Inr sig \<and>
     bits8 m = {0, 1, 2, 3} \<and> Verify sample_kyber 4 [255] sig = Inr ()"
proof -
  have resp: "response_bits sample_kyber bits8 sample_response = {1, 2, 3}"
    by (simp add: response_bits_def sample_response_def sample_kyber_def sample_bits)
  let ?p = sample_cosi and ?st = "\<lparr>numSignature = 3, numFailure = 0, responseMap = [(1, sample_response)]\<rparr>"
  have trees: "cSubTrees ?p = Some [star [''s1'', ''s2'', ''s3'', ''s4''] 0 [1, 2, 3]]" and msg: "cMsg ?p = Some [255]"
    and thr: "cThreshold ?p = 3" by (simp_all add: sample_cosi_defs)
  have ky: "NewMaskFor sample_kyber ''s1'' = Some 1" "SignMsg sample_kyber ''s1'' [255] = Some [1, 2]"
    "AggregateSigs sample_kyber 1 [[1, 2]] = Some [1, 2]" "UnmarshalPoint sample_kyber [1, 2] \<noteq> None"
    "\<And>m msg sig. VerifyAggregate sample_kyber m msg sig" by (simp_all add: sample_kyber_def)
  have use: "\<forall>r \<in> snd ` set (responseMap ?st). usable sample_kyber r \<and> 0 \<notin> response_bits sample_kyber bits8 r"
    by (simp add: resp) (simp add: usable_def sample_response_def sample_kyber_def)
  have dis: "\<forall>(i, r) \<in> set (responseMap ?st). \<forall>(j, s) \<in> set (responseMap ?st). i \<noteq> j \<longrightarrow>
      response_bits sample_kyber bits8 r \<inter> response_bits sample_kyber bits8 s = {}" by simp
  have new: "0 \<notin> fst ` set (responseMap ?st)" by simp
  have d4: "DefaultThreshold 4 \<le> cThreshold ?p" by (simp add: thr DefaultThreshold_def DefaultFaultyThreshold_def go_quot_def)
  from final_signature_meets_threshold [OF sample_masks sample_points sample_collects trees ky(1) sample_bits(1) ky(2) msg
      ky(3) _ ky(4) new use dis, of rev 4]
  show ?thesis using ky(5) d4 resp by auto
qed

section \<open>Restarts\<close>

lemma mset_rotate_all: "mset (rotate i xs) = mset xs"
  unfolding rotate_drop_take by (metis append_take_drop_id mset_append add.commute)

lemma restart_star:
  assumes "distinct (r # rest)" and "rest \<noteq> []" and "\<forall>i \<in> set (r # rest). 0 \<le> i \<and> i < int (length ss)"
  shows "restart_subtree (star ss r rest) =
    (if length rest = 1 \<or> rest ! 0 > rest ! 1
     then Inl (ErrRet ''failed with every subleader, ignoring this subtree'')
     else Inr (star ss r (rotate1 rest)))"
proof -
  obtain x xs where rest: "rest = x # xs" using assms(2) by (cases rest) auto
  show ?thesis
  proof (cases xs)
    case Nil
    then show ?thesis by (simp add: rest restart_subtree_def subleader_def star_def)
  next
    case (Cons y ys)
    have "GenSubtree ss (r # (xs @ [x])) = Inr (star ss r (xs @ [x]))"
      using GenSubtree_ok [of r "xs @ [x]" ss] assms by (auto simp: rest star_def)
    then show ?thesis
      by (simp add: rest Cons restart_subtree_def subleader_def star_def comp_def)
  qed
qed

lemma subleader_star: "rest \<noteq> [] \<Longrightarrow> subleader (star ss r rest) = Inr (RNode (hd rest) (map (\<lambda>i. RNode i []) (tl rest)))"
  by (simp add: subleader_def star_def)

lemma rotate_hd_next:
  assumes "Suc j < length xs"
  shows "rotate j xs ! 0 = xs ! j" and "rotate j xs ! Suc 0 = xs ! Suc j"
  using assms nth_rotate [of 0 xs j] nth_rotate [of 1 xs j] by (cases "xs = []"; auto)+

lemma restarts_star_from:
  assumes "sorted_wrt (<) rest" and "r \<notin> set rest" and "\<forall>i \<in> set (r # rest). 0 \<le> i \<and> i < int (length ss)"
    and "j < length rest" and "length rest \<le> j + Suc k"
  shows "restarts k (star ss r (rotate j rest)) = map (\<lambda>i. star ss r (rotate i rest)) [j..<length rest]"
  using assms(4,5)
proof (induction k arbitrary: j)
  case 0
  then have "length rest = Suc j" by simp
  then show ?case by simp
next
  case (Suc k)
  have dist: "distinct (r # rotate j rest)" using assms(1,2) by (auto dest: strict_sorted_iff [THEN iffD1])
  have ne: "rotate j rest \<noteq> []" using Suc.prems by auto
  have rng: "\<forall>i \<in> set (r # rotate j rest). 0 \<le> i \<and> i < int (length ss)" using assms(3) by simp
  note step = restart_star [OF dist ne rng]
  have tail: "[j..<length rest] = j # [Suc j..<length rest]" using Suc.prems(1) by (rule upt_conv_Cons)
  show ?case
  proof (cases "Suc j < length rest")
    case True
    have "rest ! j < rest ! Suc j" using assms(1) True by (simp add: sorted_wrt_nth_less)
    then have "restart_subtree (star ss r (rotate j rest)) = Inr (star ss r (rotate (Suc j) rest))"
      using True by (simp add: step rotate_hd_next)
    moreover have "length rest \<le> Suc j + Suc k" using Suc.prems(2) by simp
    ultimately show ?thesis using Suc.IH [OF True] by (simp add: tail)
  next
    case False
    then have l: "length rest = Suc j" using Suc.prems(1) by simp
    have "restart_subtree (star ss r (rotate j rest)) =
        Inl (ErrRet ''failed with every subleader, ignoring this subtree'')"
    proof (cases "j = 0")
      case True
      then show ?thesis using step l by simp
    next
      case False
      have "rotate j rest ! 0 = rest ! j" "rotate j rest ! 1 = rest ! 0"
        using l False by (simp_all add: nth_rotate)
      moreover have "rest ! 0 < rest ! j" using assms(1) l False by (simp add: sorted_wrt_nth_less)
      ultimately show ?thesis using step l False by simp
    qed
    then show ?thesis by (simp add: l)
  qed
qed

lemma sorted_concat_part: "sorted_wrt (<) (concat xss) \<Longrightarrow> xs \<in> set xss \<Longrightarrow> sorted_wrt (<) (xs :: int list)"
  by (induction xss) (auto simp: sorted_wrt_append)

definition subleader_index :: "'s tree \<Rightarrow> int" where
  "subleader_index t = (case subleader t of Inl e \<Rightarrow> -1 | Inr c \<Rightarrow> RosterIndex c)"

lemma from_root_0: "from_root n 0 = map (\<lambda>i. 1 + int i) [0..<nat (n - 1)]"
  unfolding from_root_def by (rule map_cong) auto

lemma genTrees_subtree:
  assumes "1 < length (Roster t)" and "RosterIndex (Root t) = 0" and "1 \<le> nSubtrees"
    and "genTrees t nSubtrees = Inr ts" and "st \<in> set ts"
  shows "st = star (Roster t) 0 (non_root st)" and "non_root st \<noteq> []" and "sorted_wrt (<) (non_root st)"
    and "0 \<notin> set (non_root st)" and "\<forall>i \<in> set (0 # non_root st). 0 \<le> i \<and> i < int (length (Roster t))"
proof -
  let ?n = "int (length (Roster t))" and ?rest = "non_root st"
  have "0 \<le> RosterIndex (Root t)" "RosterIndex (Root t) < ?n" using assms(1,2) by auto
  from genTrees_closed [OF assms(1) this assms(3)] obtain q where
    cc: "concat (map non_root ts) = from_root ?n 0" and q: "0 < q"
    and st: "st = star (Roster t) 0 ?rest" and len: "length ?rest \<in> {q, q + 1}"
    unfolding assms(2,4) sum.inject(2) using assms(5) by blast
  have "sorted_wrt (<) (concat (map non_root ts))"
    unfolding cc from_root_0 by (simp add: sorted_wrt_map)
  then show "sorted_wrt (<) ?rest" using assms(5) by (auto intro: sorted_concat_part)
  have "set ?rest \<subseteq> set (from_root ?n 0)" using assms(5) by (auto simp: cc [symmetric])
  then show "0 \<notin> set ?rest" "\<forall>i \<in> set (0 # ?rest). 0 \<le> i \<and> i < ?n"
    using assms(1) by (auto simp: from_root_0)
  show "?rest \<noteq> []" using q len by auto
  show "st = star (Roster t) 0 ?rest" by (rule st)
qed

text \<open>When the last server had its turn.\<close>

lemma restart_last:
  assumes "sorted_wrt (<) rest" and "r \<notin> set rest" and "\<forall>i \<in> set (r # rest). 0 \<le> i \<and> i < int (length ss)"
    and "rest \<noteq> []"
  shows "restart_subtree (star ss r (rotate (length rest - 1) rest)) =
    Inl (ErrRet ''failed with every subleader, ignoring this subtree'')"
proof -
  let ?j = "length rest - 1"
  have "[?j..<length rest] = [?j]" using assms(4) by (cases rest) auto
  moreover have "?j < length rest" "length rest \<le> ?j + Suc 1" using assms(4) by auto
  ultimately have "restarts 1 (star ss r (rotate ?j rest)) = [star ss r (rotate ?j rest)]"
    using restarts_star_from [OF assms(1-3), of ?j 1] by simp
  moreover have "restart_subtree (star ss r (rotate ?j rest)) \<in>
      {Inl (ErrRet ''failed with every subleader, ignoring this subtree''), Inr (star ss r (rotate1 (rotate ?j rest)))}"
    using restart_star [of r "rotate ?j rest" ss] assms by (auto simp: strict_sorted_iff)
  ultimately show ?thesis by auto
qed

text \<open>
  C30: with the root at index 0, as the leader sets it, restarting a subtree of
  \<open>genTrees\<close> whose subleader never answers makes each of its servers but the root the subleader
  exactly once, in their order, keeps its root and its servers, and then gives up. This is the branch
  that restarts; the timeout of \<open>collectSignatures\<close>, which ends the collection as a whole and leaves time
  for as many restarts as \<open>SubleaderFailures\<close> says, is outside it.
\<close>

theorem restarts_try_every_server:
  assumes "1 < length (Roster t)" and "RosterIndex (Root t) = 0" and "1 \<le> nSubtrees"
    and "genTrees t nSubtrees = Inr ts" and "st \<in> set ts" and "length (non_root st) \<le> Suc k"
  shows "map subleader_index (restarts k st) = non_root st \<and>
    (\<forall>t' \<in> set (restarts k st). RosterIndex (Root t') = 0 \<and> mset (non_root t') = mset (non_root st)) \<and>
    restart_subtree (last (restarts k st)) = Inl (ErrRet ''failed with every subleader, ignoring this subtree'')"
proof -
  let ?rest = "non_root st"
  note sub = genTrees_subtree [OF assms(1-5)]
  have run: "restarts k st = map (\<lambda>i. star (Roster t) 0 (rotate i ?rest)) [0..<length ?rest]"
    using restarts_star_from [OF sub(3,4,5), of 0 k] assms(6) sub(1,2) by simp
  have "subleader_index (star (Roster t) 0 (rotate i ?rest)) = ?rest ! i" if "i < length ?rest" for i
  proof -
    have "rotate i ?rest \<noteq> []" using sub(2) by simp
    moreover have "hd (rotate i ?rest) = ?rest ! i" using that sub(2) by (simp add: hd_rotate_conv_nth)
    ultimately show ?thesis by (simp add: subleader_index_def subleader_star)
  qed
  then have "map subleader_index (restarts k st) = ?rest"
    unfolding run by (auto intro!: nth_equalityI)
  moreover have "RosterIndex (Root t') = 0 \<and> mset (non_root t') = mset ?rest" if "t' \<in> set (restarts k st)" for t'
  proof -
    from that obtain i where "t' = star (Roster t) 0 (rotate i ?rest)" by (auto simp: run)
    then show ?thesis using sub(2) by (simp add: non_root_star mset_rotate_all)
  qed
  moreover have "last (restarts k st) = star (Roster t) 0 (rotate (length ?rest - 1) ?rest)"
    unfolding run using sub(2) by (simp add: last_map)
  ultimately show ?thesis using restart_last [OF sub(3,4,5,2)] by simp
qed

definition six :: "string list" where
  "six = [''s1'', ''s2'', ''s3'', ''s4'', ''s5'', ''s6'']"

lemma sample_trees:
  "genTrees \<lparr>Roster = six, Root = RNode 0 []\<rparr> 2 = Inr [star six 0 [1, 2, 3], star six 0 [4, 5]]"
  by code_simp

theorem restarts_try_every_server_witness:
  "map subleader_index (restarts 2 (star six 0 [1, 2, 3])) = [1, 2, 3]"
  using restarts_try_every_server [OF _ _ _ sample_trees, of "star six 0 [1, 2, 3]" 2]
  by (simp add: non_root_star six_def)

end
