(* ===== verification/SubBlsCosi.thy ===== *)
theory SubBlsCosi
  imports BlsSignature
begin

text \<open>
  The subprotocol of the collective signature (\<open>sub_blscosi.go\<close>), on a tree of a root, a
  subleader and its leaves: the three roles, the subleader's collection of signatures and
  refusals, and its aggregate.
\<close>

section \<open>The instance\<close>

record 's SubBlsCosi =
  sTree :: "'s tree"
  sMsg :: "bytes option"
  sVerificationFn :: bool
  sTimeout :: int
  sThreshold :: int
  startChan :: "bool list"

fun depth :: "rtree \<Rightarrow> nat" where
  "depth (RNode i cs) = (case cs of [] \<Rightarrow> 0 | c # cs' \<Rightarrow> Suc (Max (set (map depth cs))))"

definition NewSubBlsCosi :: "'s tree \<Rightarrow> fault + 's SubBlsCosi" where
  "NewSubBlsCosi t =
    (if depth (Root t) > 2 then Inl (ErrRet ''subBlsCosi launched with a more than three level tree'')
     else Inr \<lparr>sTree = t, sMsg = None, sVerificationFn = True, sTimeout = 0, sThreshold = 0, startChan = []\<rparr>)"

definition sub_checkIntegrity :: "'s SubBlsCosi \<Rightarrow> string option" where
  "sub_checkIntegrity p =
    (if sMsg p = None then Some ''subprotocol does not have a proposal msg''
     else if \<not> sVerificationFn p then Some ''subprotocol has an empty verification fn''
     else if sTimeout p < 10 then Some ''unrealistic timeout''
     else if sThreshold p > Size (sTree p) then Some ''threshold bigger than number of nodes in subtree''
     else if sThreshold p < 1 then Some ''threshold smaller than one node''
     else None)"

definition SubStart :: "'s SubBlsCosi \<Rightarrow> string option \<times> 's SubBlsCosi" where
  "SubStart p =
    (case sub_checkIntegrity p of
       Some e \<Rightarrow> (Some e, p\<lparr>startChan := startChan p @ [False]\<rparr>)
     | None \<Rightarrow> (None, p\<lparr>startChan := startChan p @ [True]\<rparr>))"

text \<open>
  \<open>startSubProtocol\<close>: the subprotocol gets a share of the timeout and all the nodes but one as
  its threshold. A tree without a subleader panics in the log message.
\<close>

definition startSubProtocol :: "'s BlsCosi \<Rightarrow> 's tree \<Rightarrow> fault + 's SubBlsCosi" where
  "startSubProtocol p t =
     bindR (NewSubBlsCosi t) (\<lambda>sub0.
     let sub = sub0\<lparr>sMsg := cMsg p, sTimeout := go_quot (cTimeout p) (cSubleaderFailures p + 1), sThreshold := Size t - 1\<rparr> in
     bindR (subleader t) (\<lambda>_.
     case SubStart sub of
       (Some e, sub') \<Rightarrow> Inl (ErrRet e)
     | (None, sub') \<Rightarrow> Inr sub'))"

section \<open>The root of a subtree\<close>

text \<open>The events the root selects on; \<open>RReply i r\<close> is a response from the node with index \<open>i\<close>.\<close>

datatype root_event = RClose | RReply int Response | RTimeout

datatype root_out = SubNothing | SubResponse Response | SubleaderNotResponding

definition dispatchRoot :: "'s tree \<Rightarrow> bool \<Rightarrow> root_event \<Rightarrow> fault + root_out" where
  "dispatchRoot t hasStarted ev =
    (if \<not> hasStarted then Inr SubNothing
     else case ev of
       RClose \<Rightarrow> Inr SubNothing
     | RReply i r \<Rightarrow> bindR (subleader t) (\<lambda>c. Inr (if i = RosterIndex c then SubResponse r else SubNothing))
     | RTimeout \<Rightarrow> Inr SubleaderNotResponding)"

text \<open>
  The root protocol's goroutine for one subtree: \<open>evs\<close> are what the roots of the successive
  subprotocols meet. It ends with the event it puts on a channel of \<open>collectSignatures\<close>, or
  waits for ever (None).
\<close>

fun subtree_goroutine :: "'s BlsCosi \<Rightarrow> 's tree \<Rightarrow> root_event list \<Rightarrow> fault + cosi_event option" where
  "subtree_goroutine p t [] = Inr None"
| "subtree_goroutine p t (ev # evs) =
     bindR (dispatchRoot t True ev) (\<lambda>out.
       case out of
         SubNothing \<Rightarrow> Inr None
       | SubResponse r \<Rightarrow> bindR (subleader t) (\<lambda>c. Inr (Some (EvResponse (RosterIndex c) r (int (length (Children c))))))
       | SubleaderNotResponding \<Rightarrow>
           (case restart_subtree t of
              Inl (ErrRet e) \<Rightarrow> Inr (Some (EvErr e))
            | Inl e \<Rightarrow> Inl e
            | Inr t' \<Rightarrow> (case startSubProtocol p t' of
                Inl (ErrRet e) \<Rightarrow> Inr (Some (EvErr e))
              | Inl e \<Rightarrow> Inl e
              | Inr sub \<Rightarrow> subtree_goroutine p t' evs)))"

section \<open>The subleader\<close>

datatype leaf_event = LReply int Response | LRefusal int bytes | LClose | LTimeout

record sub_state =
  answered :: int
  sresponses :: "(int \<times> Response option) list"

datatype sub_result = SubWaiting sub_state | SubStopped | SubFinished sub_state

definition accept_answer :: "int \<Rightarrow> bool \<Rightarrow> Response \<Rightarrow> sub_state \<Rightarrow> sub_state" where
  "accept_answer i valid r st =
    (if map_of (sresponses st) i = Some None \<and> valid
     then \<lparr>answered = answered st + 1, sresponses = AList.update i (Some r) (sresponses st)\<rparr> else st)"

text \<open>
  The loop of \<open>dispatchSubLeader\<close>. An index of \<open>-1\<close> is an unknown server. A refusal is recorded
  as an empty response.
\<close>

fun subleader_loop :: "('s, 'm, 'g) kyber \<Rightarrow> bytes \<Rightarrow> bytes \<Rightarrow> int \<Rightarrow> leaf_event list \<Rightarrow> sub_state \<Rightarrow> sub_result" where
  "subleader_loop ky msg nonce nChildren evs st =
    (if \<not> answered st < nChildren then SubFinished st
     else case evs of
       [] \<Rightarrow> SubWaiting st
     | LClose # es \<Rightarrow> SubStopped
     | LTimeout # es \<Rightarrow> subleader_loop ky msg nonce nChildren es (st\<lparr>answered := nChildren\<rparr>)
     | LReply i r # es \<Rightarrow> subleader_loop ky msg nonce nChildren es
         (if i = -1 then st else accept_answer i (VerifySig ky i msg (rSignature r)) r st)
     | LRefusal i sig # es \<Rightarrow> subleader_loop ky msg nonce nChildren es
         (accept_answer i (VerifySig ky i nonce sig) \<lparr>rSignature = [], rMask = []\<rparr> st))"

declare subleader_loop.simps [simp del]

definition makeResponse :: "('s, 'm, 'g) kyber \<Rightarrow> 's \<Rightarrow> bytes \<Rightarrow> fault + Response" where
  "makeResponse ky server msg =
    (case NewMaskFor ky server of
       None \<Rightarrow> Inl (ErrRet ''key not found'')
     | Some m \<Rightarrow> (case SignMsg ky server msg of
         None \<Rightarrow> Inl (ErrRet ''sign'')
       | Some sig \<Rightarrow> Inr \<lparr>rSignature = sig, rMask = MaskBytes ky m\<rparr>))"

text \<open>
  \<open>children\<close> are the indexes of the leaves in the roster; the map holds nil for those known, and
  the subleader's own response when its verification accepts.
\<close>

definition initial_responses :: "int list \<Rightarrow> int \<Rightarrow> Response option \<Rightarrow> (int \<times> Response option) list" where
  "initial_responses children own_index own =
    (let waiting = fold (\<lambda>i m. if i = -1 then m else AList.update i None m) children []
     in case own of None \<Rightarrow> waiting | Some r \<Rightarrow> if own_index = -1 then waiting else AList.update own_index (Some r) waiting)"

definition insert_at :: "int \<Rightarrow> 'a \<Rightarrow> 'a list \<Rightarrow> fault + 'a list" where
  "insert_at i x xs =
    (if 0 \<le> i \<and> i \<le> int (length xs) then Inr (take (nat i) xs @ x # drop (nat i) xs) else Inl IndexPanic)"

text \<open>The loop of \<open>makeSubLeaderResponse\<close>, in the order Go iterates the map.\<close>

fun sub_agg_loop :: "('s, 'm, 'g) kyber \<Rightarrow> (int \<times> Response option) list \<Rightarrow> 'm \<Rightarrow> bytes list \<Rightarrow>
    fault + ('m \<times> bytes list)" where
  "sub_agg_loop ky [] m sigs = Inr (m, sigs)"
| "sub_agg_loop ky ((idx, res) # rs) m sigs =
    (case res of
       None \<Rightarrow> sub_agg_loop ky rs m sigs
     | Some r \<Rightarrow>
        if rSignature r = [] then sub_agg_loop ky rs m sigs
        else case MergeMask ky m (rMask r) of
          None \<Rightarrow> Inl (ErrRet ''mismatching mask'')
        | Some m' \<Rightarrow> bindR (insert_at (NthEnabledAtIndex ky m' idx) (rSignature r) sigs)
            (\<lambda>sigs'. sub_agg_loop ky rs m' sigs'))"

definition makeSubLeaderResponse :: "('s, 'm, 'g) kyber \<Rightarrow> (int \<times> Response option) list \<Rightarrow> fault + Response" where
  "makeSubLeaderResponse ky responses =
     bindR (sub_agg_loop ky responses (NewMask ky) []) (\<lambda>(m, sigs).
       case AggregateSigs ky m sigs of
         None \<Rightarrow> Inl (ErrRet ''aggregate'')
       | Some agg \<Rightarrow> Inr \<lparr>rSignature = agg, rMask = MaskBytes ky m\<rparr>)"

text \<open>
  \<open>dispatchSubLeader\<close> after the announcement: \<open>accepts\<close> is the verdict of the verification
  function and \<open>nerrs\<close> the number of leaves the announcement could not be sent to. None: stopped
  or waiting.
\<close>

definition dispatchSubLeader :: "('s, 'm, 'g) kyber \<Rightarrow> ((int \<times> Response option) list \<Rightarrow> (int \<times> Response option) list) \<Rightarrow>
    's \<Rightarrow> int \<Rightarrow> int list \<Rightarrow> bytes \<Rightarrow> bytes \<Rightarrow> bool \<Rightarrow> int \<Rightarrow> leaf_event list \<Rightarrow> fault + Response option" where
  "dispatchSubLeader ky order server own_index children msg nonce accepts nerrs evs =
     bindR (makeResponse ky server msg) (\<lambda>own.
     case subleader_loop ky msg nonce (int (length children)) evs
        \<lparr>answered = nerrs, sresponses = initial_responses children own_index (if accepts then Some own else None)\<rparr> of
       SubWaiting st \<Rightarrow> Inr None
     | SubStopped \<Rightarrow> Inr None
     | SubFinished st \<Rightarrow> bindR (makeSubLeaderResponse ky (order (sresponses st))) (\<lambda>r. Inr (Some r)))"

section \<open>A leaf\<close>

text \<open>\<open>dispatchLeaf\<close> after the announcement: Inl a refusal, Inr a response.\<close>

definition dispatchLeaf :: "('s, 'm, 'g) kyber \<Rightarrow> 's \<Rightarrow> int \<Rightarrow> bytes \<Rightarrow> bytes \<Rightarrow> bool \<Rightarrow> fault + leaf_event" where
  "dispatchLeaf ky server index msg nonce accepts =
    (if accepts then bindR (makeResponse ky server msg) (\<lambda>r. Inr (LReply index r))
     else case SignMsg ky server nonce of
       None \<Rightarrow> Inl (ErrRet ''sign'')
     | Some sig \<Rightarrow> Inr (LRefusal index sig))"

section \<open>The subleader's loop ends\<close>

definition valid_answer :: "('s, 'm, 'g) kyber \<Rightarrow> bytes \<Rightarrow> bytes \<Rightarrow> int \<Rightarrow> leaf_event \<Rightarrow> bool" where
  "valid_answer ky msg nonce c ev \<longleftrightarrow>
    (case ev of LReply i r \<Rightarrow> i = c \<and> VerifySig ky c msg (rSignature r)
     | LRefusal i sig \<Rightarrow> i = c \<and> VerifySig ky c nonce sig | _ \<Rightarrow> False)"

definition answer_of :: "leaf_event \<Rightarrow> Response" where
  "answer_of ev = (case ev of LReply i r \<Rightarrow> r | _ \<Rightarrow> \<lparr>rSignature = [], rMask = []\<rparr>)"

definition answered_children :: "int list \<Rightarrow> sub_state \<Rightarrow> int list" where
  "answered_children cs st = filter (\<lambda>c. map_of (sresponses st) c \<noteq> Some None) cs"

definition sub_inv :: "int list \<Rightarrow> sub_state \<Rightarrow> bool" where
  "sub_inv cs st \<longleftrightarrow> answered st = int (length (answered_children cs st)) \<and>
     (\<forall>i. i \<notin> set cs \<longrightarrow> map_of (sresponses st) i \<noteq> Some None)"

text \<open>The state after one message that does not end the wait.\<close>

definition sub_receive :: "('s, 'm, 'g) kyber \<Rightarrow> bytes \<Rightarrow> bytes \<Rightarrow> leaf_event \<Rightarrow> sub_state \<Rightarrow> sub_state" where
  "sub_receive ky msg nonce ev st =
    (case ev of
       LReply i r \<Rightarrow> if i = -1 then st else accept_answer i (VerifySig ky i msg (rSignature r)) r st
     | LRefusal i sig \<Rightarrow> accept_answer i (VerifySig ky i nonce sig) \<lparr>rSignature = [], rMask = []\<rparr> st
     | _ \<Rightarrow> st)"

lemma subleader_loop_msg:
  assumes "answered st < n" and "ev \<noteq> LClose" and "ev \<noteq> LTimeout"
  shows "subleader_loop ky msg nonce n (ev # es) st = subleader_loop ky msg nonce n es (sub_receive ky msg nonce ev st)"
  using assms by (subst subleader_loop.simps) (auto simp: sub_receive_def split: leaf_event.splits)

lemma subleader_loop_timeout:
  "answered st < n \<Longrightarrow> subleader_loop ky msg nonce n (LTimeout # es) st = SubFinished (st\<lparr>answered := n\<rparr>)"
  by (simp add: subleader_loop.simps)

lemma subleader_loop_done: "\<not> answered st < n \<Longrightarrow> subleader_loop ky msg nonce n evs st = SubFinished st"
  by (simp add: subleader_loop.simps)

lemma filter_flip_length:
  assumes "distinct cs" and "c \<in> set cs" and "\<not> P c" and "Q c" and "\<And>d. d \<noteq> c \<Longrightarrow> Q d = P d"
  shows "length (filter Q cs) = Suc (length (filter P cs))"
  using assms(1,2)
proof (induction cs)
  case Nil
  then show ?case by simp
next
  case (Cons d cs)
  show ?case
  proof (cases "d = c")
    case True
    have "Q x = P x" if "x \<in> set cs" for x using that Cons.prems True assms(5) [of x] by auto
    then have "filter Q cs = filter P cs" by (rule filter_cong [OF refl])
    then show ?thesis using True assms(3,4) by simp
  next
    case False
    then show ?thesis using Cons assms(5) [OF False] by simp
  qed
qed

lemma accept_answer_inv:
  assumes "distinct cs" and "sub_inv cs st"
  shows "sub_inv cs (accept_answer i valid r st)"
proof (cases "map_of (sresponses st) i = Some None \<and> valid")
  case True
  let ?st = "accept_answer i valid r st"
  have st: "?st = \<lparr>answered = answered st + 1, sresponses = AList.update i (Some r) (sresponses st)\<rparr>"
    using True by (simp add: accept_answer_def)
  have i: "i \<in> set cs" using assms(2) True by (auto simp: sub_inv_def)
  have "length (answered_children cs ?st) = Suc (length (answered_children cs st))"
    unfolding answered_children_def st
    by (rule filter_flip_length [OF assms(1) i]) (use True in \<open>auto simp: update_conv'\<close>)
  then show ?thesis using assms(2) unfolding sub_inv_def st by (auto simp: update_conv')
next
  case False
  then have "accept_answer i valid r st = st" unfolding accept_answer_def by (rule if_not_P)
  then show ?thesis using assms(2) by simp
qed

lemma sub_receive_inv: "distinct cs \<Longrightarrow> sub_inv cs st \<Longrightarrow> sub_inv cs (sub_receive ky msg nonce ev st)"
  by (auto simp: sub_receive_def accept_answer_inv split: leaf_event.splits)

lemma sub_receive_valid:
  assumes "valid_answer ky msg nonce c ev" and "c \<noteq> -1"
  shows "map_of (sresponses (sub_receive ky msg nonce ev st)) c \<noteq> Some None"
  using assms by (auto simp: valid_answer_def sub_receive_def accept_answer_def update_conv' split: leaf_event.splits)

lemma sub_receive_keeps:
  "map_of (sresponses st) c \<noteq> Some None \<Longrightarrow> map_of (sresponses (sub_receive ky msg nonce ev st)) c \<noteq> Some None"
  by (auto simp: sub_receive_def accept_answer_def update_conv' split: leaf_event.splits)

lemma subleader_loop_finishes:
  assumes "distinct cs" and "-1 \<notin> set cs" and "sub_inv cs st" and "LClose \<notin> set evs"
    and "\<forall>c \<in> set cs. map_of (sresponses st) c = Some None \<longrightarrow> (\<exists>ev \<in> set evs. valid_answer ky msg nonce c ev)"
  shows "\<exists>st'. subleader_loop ky msg nonce (int (length cs)) evs st = SubFinished st' \<and>
    (LTimeout \<in> set evs \<or> (\<forall>c \<in> set cs. map_of (sresponses st') c \<noteq> Some None))"
  using assms(3-5)
proof (induction evs arbitrary: st)
  case Nil
  then have "answered_children cs st = cs" by (auto simp: answered_children_def filter_id_conv)
  then show ?case using Nil by (auto simp: sub_inv_def subleader_loop_done)
next
  case (Cons ev evs)
  show ?case
  proof (cases "answered st < int (length cs)")
    case False
    then have "length (answered_children cs st) = length cs"
      using Cons.prems(1) length_filter_le [of _ cs] by (auto simp: sub_inv_def answered_children_def not_less intro: antisym)
    then have "\<forall>c \<in> set cs. map_of (sresponses st) c \<noteq> Some None"
      unfolding answered_children_def by (metis (mono_tags, lifting) length_filter_less less_irrefl)
    then show ?thesis using False by (simp add: subleader_loop_done)
  next
    case True
    show ?thesis
    proof (cases "ev = LTimeout")
      case T: True
      then show ?thesis using True by (simp add: subleader_loop_timeout)
    next
      case F: False
      let ?st = "sub_receive ky msg nonce ev st"
      have step: "subleader_loop ky msg nonce (int (length cs)) (ev # evs) st =
          subleader_loop ky msg nonce (int (length cs)) evs ?st"
        using True F Cons.prems(2) by (intro subleader_loop_msg) auto
      have "\<forall>c \<in> set cs. map_of (sresponses ?st) c = Some None \<longrightarrow> (\<exists>ev \<in> set evs. valid_answer ky msg nonce c ev)"
      proof (intro ballI impI)
        fix c assume c: "c \<in> set cs" and none: "map_of (sresponses ?st) c = Some None"
        then have "map_of (sresponses st) c = Some None" using sub_receive_keeps by metis
        with Cons.prems(3) c obtain e where "e \<in> set (ev # evs)" "valid_answer ky msg nonce c e" by blast
        moreover have "\<not> valid_answer ky msg nonce c ev"
          using sub_receive_valid none c assms(2) by metis
        ultimately show "\<exists>ev \<in> set evs. valid_answer ky msg nonce c ev" by auto
      qed
      with Cons.IH [OF sub_receive_inv [OF assms(1) Cons.prems(1)]] Cons.prems(2) F show ?thesis
        unfolding step by auto
    qed
  qed
qed

section \<open>What the subleader accepts\<close>

definition accepted_ok :: "('s, 'm, 'g) kyber \<Rightarrow> bytes \<Rightarrow> bytes \<Rightarrow> leaf_event list \<Rightarrow> (int \<Rightarrow> Response option option) \<Rightarrow>
    sub_state \<Rightarrow> bool" where
  "accepted_ok ky msg nonce evs m0 st \<longleftrightarrow>
     (\<forall>i r. map_of (sresponses st) i = Some (Some r) \<longrightarrow> m0 i = Some (Some r) \<or>
        (\<exists>ev \<in> set evs. valid_answer ky msg nonce i ev \<and> r = answer_of ev))"

lemma accept_answer_accepted:
  "accepted_ok ky msg nonce evs m0 st \<Longrightarrow> (valid \<Longrightarrow> \<exists>ev \<in> set evs. valid_answer ky msg nonce i ev \<and> r = answer_of ev) \<Longrightarrow>
   accepted_ok ky msg nonce evs m0 (accept_answer i valid r st)"
  unfolding accepted_ok_def accept_answer_def by (simp add: update_conv')

lemma sub_receive_accepted:
  "accepted_ok ky msg nonce evs m0 st \<Longrightarrow> ev \<in> set evs \<Longrightarrow> accepted_ok ky msg nonce evs m0 (sub_receive ky msg nonce ev st)"
  unfolding sub_receive_def
  by (cases ev) (auto intro!: accept_answer_accepted bexI [of _ ev] simp: valid_answer_def answer_of_def)

lemma subleader_loop_accepts:
  assumes "subleader_loop ky msg nonce n evs st = SubFinished st'" and "accepted_ok ky msg nonce (pre @ evs) m0 st"
  shows "accepted_ok ky msg nonce (pre @ evs) m0 st'"
  using assms
proof (induction evs arbitrary: st pre)
  case Nil
  then show ?case by (auto simp: subleader_loop.simps split: if_splits)
next
  case (Cons ev evs)
  consider "\<not> answered st < n" | "answered st < n" "ev = LTimeout" | "answered st < n" "ev \<noteq> LTimeout" "ev \<noteq> LClose"
    using Cons.prems(1) by (cases "answered st < n"; cases "ev = LClose") (auto simp: subleader_loop.simps)
  then show ?case
  proof cases
    case 1
    then show ?thesis using Cons.prems by (simp add: subleader_loop_done)
  next
    case 2
    then have "st' = st\<lparr>answered := n\<rparr>" using Cons.prems(1) by (simp add: subleader_loop_timeout)
    then have "sresponses st' = sresponses st" by simp
    then show ?thesis using Cons.prems(2) unfolding accepted_ok_def by metis
  next
    case 3
    from Cons.prems(2) have "accepted_ok ky msg nonce ((pre @ [ev]) @ evs) m0 (sub_receive ky msg nonce ev st)"
      by (intro sub_receive_accepted) auto
    from Cons.IH [OF _ this] Cons.prems(1) 3 show ?thesis by (simp add: subleader_loop_msg)
  qed
qed

lemma fold_initial:
  "map_of (fold (\<lambda>i m. if i = -1 then m else AList.update i None m) cs m0) =
     (\<lambda>i. if i \<in> set cs \<and> i \<noteq> -1 then Some None else map_of m0 i)"
  by (induction cs arbitrary: m0) (auto simp: update_conv' fun_eq_iff)

lemma map_of_initial:
  assumes "own_index \<noteq> -1" and "-1 \<notin> set cs"
  shows "map_of (initial_responses cs own_index own) =
    (\<lambda>i. if i = own_index \<and> own \<noteq> None then Some own else if i \<in> set cs then Some None else None)"
  using assms by (auto simp: initial_responses_def Let_def fold_initial update_conv' fun_eq_iff split: option.splits)

text \<open>
  When every leaf answers with a valid signature or a validly signed refusal, in any order
  and among any other messages, the subleader stops waiting without being told; without a timeout
  it has an answer of every leaf. Whatever it holds at the end, its own response apart, was signed
  by the server it is filed under.
\<close>

theorem subleader_collects_all:
  assumes "distinct cs" and "-1 \<notin> set cs" and "own_index \<notin> set cs" and "own_index \<noteq> -1"
    and "LClose \<notin> set evs" and "\<forall>c \<in> set cs. \<exists>ev \<in> set evs. valid_answer ky msg nonce c ev"
  shows "\<exists>st. subleader_loop ky msg nonce (int (length cs)) evs
      \<lparr>answered = 0, sresponses = initial_responses cs own_index own\<rparr> = SubFinished st \<and>
    (LTimeout \<in> set evs \<or> (\<forall>c \<in> set cs. map_of (sresponses st) c \<noteq> Some None)) \<and>
    (\<forall>i r. map_of (sresponses st) i = Some (Some r) \<longrightarrow> i = own_index \<and> own = Some r \<or>
       (\<exists>ev \<in> set evs. valid_answer ky msg nonce i ev \<and> r = answer_of ev))"
proof -
  let ?st = "\<lparr>answered = 0, sresponses = initial_responses cs own_index own\<rparr>"
  note m0 = map_of_initial [OF assms(4,2), of own]
  have "answered_children cs ?st = []"
    using assms(3) by (auto simp: answered_children_def m0 filter_empty_conv)
  then have "sub_inv cs ?st" by (simp add: sub_inv_def m0)
  from subleader_loop_finishes [OF assms(1,2) this assms(5), of ky msg nonce] assms(6) obtain st' where
    fin: "subleader_loop ky msg nonce (int (length cs)) evs ?st = SubFinished st'"
      "LTimeout \<in> set evs \<or> (\<forall>c \<in> set cs. map_of (sresponses st') c \<noteq> Some None)" by blast
  have "accepted_ok ky msg nonce ([] @ evs) (map_of (sresponses ?st)) ?st" by (simp add: accepted_ok_def)
  from subleader_loop_accepts [OF fin(1) this]
  have acc: "accepted_ok ky msg nonce evs (map_of (initial_responses cs own_index own)) st'" by simp
  have "map_of (initial_responses cs own_index own) i = Some (Some r) \<Longrightarrow> i = own_index \<and> own = Some r" for i r
    by (auto simp: m0 split: if_splits)
  with fin acc show ?thesis unfolding accepted_ok_def by (intro exI [of _ st']) blast
qed

theorem subleader_collects_all_witness:
  "\<exists>st. subleader_loop sample_kyber [9] [5] 2 [LRefusal 3 [3], LReply 7 sample_response, LReply 2 \<lparr>rSignature = [2], rMask = [4]\<rparr>]
      \<lparr>answered = 0, sresponses = initial_responses [2, 3] 1 None\<rparr> = SubFinished st"
  using subleader_collects_all [of "[2, 3]" 1 "[LRefusal 3 [3], LReply 7 sample_response, LReply 2 \<lparr>rSignature = [2], rMask = [4]\<rparr>]"
      sample_kyber "[9]" "[5]" None]
  by (auto simp: valid_answer_def sample_kyber_def)

section \<open>The aggregate of a subtree\<close>

text \<open>
  \<open>NthEnabledAtIndex\<close> counts the enabled bits before an index, and is \<open>-1\<close> when the bit is not
  enabled.
\<close>

definition nth_laws :: "('s, 'm, 'g) kyber \<Rightarrow> ('m \<Rightarrow> int set) \<Rightarrow> bool" where
  "nth_laws ky enabled \<longleftrightarrow> (\<forall>m i. NthEnabledAtIndex ky m i =
     (if i \<in> enabled m then int (card {j \<in> enabled m. j < i}) else -1))"

definition signatures :: "(int \<times> Response option) list \<Rightarrow> (int \<times> Response) list" where
  "signatures rs = concat (map (\<lambda>(i, res). case res of None \<Rightarrow> [] | Some r \<Rightarrow> if rSignature r = [] then [] else [(i, r)]) rs)"

lemma insort_key_split:
  assumes "sorted (map f xs)" and "f x \<notin> f ` set xs"
  shows "insort_key f x xs = take (length (filter (\<lambda>y. f y < f x) xs)) xs @ x # drop (length (filter (\<lambda>y. f y < f x) xs)) xs"
  using assms
proof (induction xs)
  case Nil
  then show ?case by simp
next
  case (Cons y ys)
  show ?case
  proof (cases "f x < f y")
    case True
    then have "filter (\<lambda>z. f z < f x) (y # ys) = []" using Cons.prems(1) by (force simp: filter_empty_conv)
    then show ?thesis using True less_imp_le [OF True] by (simp split: if_splits)
  next
    case False
    then have "f y < f x" using Cons.prems(2) by auto
    then have "\<not> f x \<le> f y" "f y < f x" by simp_all
    then show ?thesis using Cons by simp
  qed
qed

lemma sub_agg_loop_signatures:
  "sub_agg_loop ky rs m sigs = sub_agg_loop ky (map (\<lambda>(i, r). (i, Some r)) (signatures rs)) m sigs"
  by (induction rs arbitrary: m sigs)
    (auto simp: signatures_def split: option.splits intro!: arg_cong [where f = "bindR _"] ext)

lemma sub_agg_loop_sorted:
  assumes "mask_laws ky enabled" and "nth_laws ky enabled" and "distinct (map fst (done @ rs))"
    and "\<forall>(i, r) \<in> set rs. rSignature r \<noteq> [] \<and> SetMask ky (rMask r) \<noteq> None \<and> response_bits ky enabled r = {i}"
    and "enabled m = fst ` set done"
  shows "\<exists>m'. sub_agg_loop ky (map (\<lambda>(i, r). (i, Some r)) rs) m (map (\<lambda>p. rSignature (snd p)) (sort_key fst done)) =
      Inr (m', map (\<lambda>p. rSignature (snd p)) (sort_key fst (done @ rs))) \<and> enabled m' = fst ` set (done @ rs)"
  using assms(3-5)
proof (induction rs arbitrary: m "done")
  case Nil
  then show ?case by simp
next
  case (Cons x rs)
  obtain i r where x: "x = (i, r)" by (cases x)
  from Cons.prems(2) obtain mb where r: "rSignature r \<noteq> []" "SetMask ky (rMask r) = Some mb" "enabled mb = {i}"
    by (auto simp: x response_bits_def)
  with assms(1) obtain m1 where m1: "MergeMask ky m (rMask r) = Some m1" "enabled m1 = enabled m \<union> {i}"
    unfolding mask_laws_def by metis
  let ?srt = "sort_key fst done" and ?n = "length (filter (\<lambda>y. fst y < i) (sort_key fst done))"
  have i: "i \<notin> fst ` set done" using Cons.prems(1) by (auto simp: x)
  have "?n = length (filter (\<lambda>j. j < i) (map fst ?srt))" by (simp add: filter_map comp_def)
  also have "\<dots> = card (set (filter (\<lambda>j. j < i) (map fst ?srt)))"
    using Cons.prems(1) distinct_card [of "filter (\<lambda>j. j < i) (map fst ?srt)"]
    by (simp add: distinct_map distinct_sort)
  also have "set (filter (\<lambda>j. j < i) (map fst ?srt)) = {j \<in> enabled m1. j < i}"
    using m1(2) Cons.prems(3) by auto
  finally have n: "NthEnabledAtIndex ky m1 i = int ?n" using assms(2) m1(2) by (simp add: nth_laws_def)
  have le: "?n \<le> length ?srt" by (rule length_filter_le)
  have srt1: "sort_key fst (done @ [x]) = insort_key fst x ?srt"
  proof (rule sort_key_inj_key_eq)
    show "mset (done @ [x]) = mset (insort_key fst x ?srt)" by simp
    have "distinct (map fst (done @ [x]))" using Cons.prems(1) by (simp add: x)
    then show "inj_on fst (set (done @ [x]))" using distinct_map by blast
    show "sorted (map fst (insort_key fst x ?srt))" by (simp add: sorted_insort_key)
  qed
  have ins: "insert_at (NthEnabledAtIndex ky m1 i) (rSignature r) (map (\<lambda>p. rSignature (snd p)) ?srt) =
      Inr (map (\<lambda>p. rSignature (snd p)) (sort_key fst (done @ [x])))"
    unfolding srt1 using insort_key_split [of fst ?srt x] i le
    by (simp add: insert_at_def n x take_map drop_map del: length_sort)
  have e: "enabled m1 = fst ` set (done @ [x])" using m1(2) Cons.prems(3) by (auto simp: x)
  have d: "distinct (map fst ((done @ [x]) @ rs))" using Cons.prems(1) by simp
  have b: "\<forall>(i, r) \<in> set rs. rSignature r \<noteq> [] \<and> SetMask ky (rMask r) \<noteq> None \<and> response_bits ky enabled r = {i}"
    using Cons.prems(2) by simp
  from Cons.IH [OF d b e] obtain m' where
    "sub_agg_loop ky (map (\<lambda>(i, r). (i, Some r)) rs) m1 (map (\<lambda>p. rSignature (snd p)) (sort_key fst (done @ [x]))) =
      Inr (m', map (\<lambda>p. rSignature (snd p)) (sort_key fst (done @ x # rs)))" "enabled m' = fst ` set (done @ x # rs)"
    unfolding append_assoc append_Cons append_Nil by blast
  then show ?case using r(1) m1(1) ins by (intro exI [of _ m']) (simp add: x)
qed

lemma mset_signatures: "mset xs = mset ys \<Longrightarrow> mset (signatures xs) = mset (signatures ys)"
proof -
  have "mset (signatures xs) = (\<Sum>x \<in># mset xs. mset (case x of (i, res) \<Rightarrow>
      case res of None \<Rightarrow> [] | Some r \<Rightarrow> if rSignature r = [] then [] else [(i, r)]))" for xs
    by (induction xs) (auto simp: signatures_def)
  then show "mset xs = mset ys \<Longrightarrow> mset (signatures xs) = mset (signatures ys)" by simp
qed

lemma in_signatures: "(i, r) \<in> set (signatures rs) \<longleftrightarrow> (i, Some r) \<in> set rs \<and> rSignature r \<noteq> []"
  by (induction rs) (auto simp: signatures_def split: option.splits)

lemma signatures_Cons:
  "signatures ((i, res) # rs) = (case res of None \<Rightarrow> [] | Some r \<Rightarrow> if rSignature r = [] then [] else [(i, r)]) @ signatures rs"
  by (simp add: signatures_def)

lemma distinct_signatures: "distinct (map fst rs) \<Longrightarrow> distinct (map fst (signatures rs))"
proof (induction rs)
  case Nil
  then show ?case by (simp add: signatures_def)
next
  case (Cons x rs)
  obtain i res where x: "x = (i, res)" by (cases x)
  have "i \<notin> fst ` set (signatures rs)"
  proof
    assume "i \<in> fst ` set (signatures rs)"
    then obtain r where "(i, r) \<in> set (signatures rs)" by auto
    then have "(i, Some r) \<in> set rs" by (simp add: in_signatures)
    then show False using Cons.prems by (force simp: x)
  qed
  then show ?case using Cons by (cases res) (auto simp: x signatures_Cons)
qed

text \<open>
  When every signed response has a mask with the bit of its server alone, the subleader
  aggregates, whatever the order in which Go iterates the map, under the mask of the signers
  and with their signatures in the order of that mask.
\<close>

theorem sub_aggregate_in_mask_order:
  assumes laws: "mask_laws ky enabled" "nth_laws ky enabled" and dist: "distinct (map fst rs)"
    and bits: "\<forall>(i, r) \<in> set (signatures rs). SetMask ky (rMask r) \<noteq> None \<and> response_bits ky enabled r = {i}"
    and order: "mset (order rs) = mset rs"
  shows "\<exists>m. enabled m = fst ` set (signatures rs) \<and>
    makeSubLeaderResponse ky (order rs) =
      (case AggregateSigs ky m (map (\<lambda>p. rSignature (snd p)) (sort_key fst (signatures rs))) of
         None \<Rightarrow> Inl (ErrRet ''aggregate'')
       | Some agg \<Rightarrow> Inr \<lparr>rSignature = agg, rMask = MaskBytes ky m\<rparr>)"
proof -
  let ?s = "signatures (order rs)"
  have ms: "mset ?s = mset (signatures rs)" using order by (rule mset_signatures)
  then have set_s: "set ?s = set (signatures rs)" by (metis set_mset_mset)
  have "distinct (map fst (order rs))"
    using dist arg_cong [OF order, of "image_mset fst"] by (metis mset_map distinct_count_atmost_1 mset_eq_imp_distinct_iff)
  then have ds: "distinct (map fst ?s)" by (rule distinct_signatures)
  have "rSignature r \<noteq> []" if "(i, r) \<in> set ?s" for i r
    using that by (simp add: in_signatures)
  then have "\<forall>(i, r) \<in> set ?s. rSignature r \<noteq> [] \<and> SetMask ky (rMask r) \<noteq> None \<and> response_bits ky enabled r = {i}"
    using bits set_s by fastforce
  moreover have "enabled (NewMask ky) = fst ` set []" using laws(1) by (simp add: mask_laws_def)
  ultimately obtain m where
    run: "sub_agg_loop ky (map (\<lambda>(i, r). (i, Some r)) ?s) (NewMask ky) [] = Inr (m, map (\<lambda>p. rSignature (snd p)) (sort_key fst ?s))"
    and m: "enabled m = fst ` set ?s"
    using sub_agg_loop_sorted [OF laws, of "[]" ?s "NewMask ky"] ds by auto
  have "inj_on fst (set (signatures rs))" using ds set_s by (simp add: distinct_map)
  then have "sort_key fst (signatures rs) = sort_key fst ?s"
    by (intro sort_key_inj_key_eq) (simp_all add: ms)
  with run m show ?thesis
    unfolding makeSubLeaderResponse_def sub_agg_loop_signatures [of ky "order rs"] set_s by (intro exI [of _ m]) simp
qed

lemma insert_at_cases: "insert_at i x xs = Inl IndexPanic \<or> (\<exists>ys. insert_at i x xs = Inr ys)"
  by (simp add: insert_at_def)

lemma sub_agg_loop_panics:
  assumes "mask_laws ky enabled" and "nth_laws ky enabled"
    and "\<forall>(i, r) \<in> set rs. rSignature r \<noteq> [] \<and> SetMask ky (rMask r) \<noteq> None \<and> idx \<notin> response_bits ky enabled r"
    and "idx \<notin> enabled m" and "idx \<in> fst ` set rs"
  shows "sub_agg_loop ky (map (\<lambda>(i, r). (i, Some r)) rs) m sigs = Inl IndexPanic"
  using assms(3-5)
proof (induction rs arbitrary: m sigs)
  case Nil
  then show ?case by simp
next
  case (Cons x rs)
  obtain i r where x: "x = (i, r)" by (cases x)
  from Cons.prems(1) obtain mb where r: "rSignature r \<noteq> []" "SetMask ky (rMask r) = Some mb" "idx \<notin> enabled mb"
    by (auto simp: x response_bits_def)
  with assms(1) obtain m1 where m1: "MergeMask ky m (rMask r) = Some m1" "enabled m1 = enabled m \<union> enabled mb"
    unfolding mask_laws_def by metis
  have not_in: "idx \<notin> enabled m1" using m1(2) r(3) Cons.prems(2) by simp
  show ?case
  proof (cases "i = idx")
    case True
    then have "NthEnabledAtIndex ky m1 i = -1" using assms(2) not_in by (simp add: nth_laws_def)
    then show ?thesis using r m1 by (simp add: x insert_at_def)
  next
    case False
    then have "idx \<in> fst ` set rs" using Cons.prems(3) by (auto simp: x)
    from Cons.IH [OF _ not_in this] Cons.prems(1)
    have "sub_agg_loop ky (map (\<lambda>(i, r). (i, Some r)) rs) m1 sigs' = Inl IndexPanic" for sigs' by simp
    with insert_at_cases [of "NthEnabledAtIndex ky m1 i" "rSignature r" sigs] show ?thesis
      using r m1 by (auto simp: x)
  qed
qed

text \<open>
  the subleader does not look at the mask of an answer. If no mask enables the bit of one of the
  signers, the aggregation panics, in every order: a leaf that signs correctly but sends another
  mask stops its subleader.
\<close>

theorem foreign_mask_panics:
  assumes "mask_laws ky enabled" and "nth_laws ky enabled"
    and "\<forall>(i, r) \<in> set (signatures rs). SetMask ky (rMask r) \<noteq> None \<and> idx \<notin> response_bits ky enabled r"
    and "idx \<in> fst ` set (signatures rs)" and "mset (order rs) = mset rs"
  shows "makeSubLeaderResponse ky (order rs) = Inl IndexPanic"
proof -
  have s: "set (signatures (order rs)) = set (signatures rs)"
    using mset_signatures [OF assms(5)] by (metis set_mset_mset)
  have "rSignature r \<noteq> []" if "(i, r) \<in> set (signatures rs)" for i r
    using that by (simp add: in_signatures)
  then have all: "\<forall>(i, r) \<in> set (signatures (order rs)).
      rSignature r \<noteq> [] \<and> SetMask ky (rMask r) \<noteq> None \<and> idx \<notin> response_bits ky enabled r"
    using assms(3) unfolding s by fastforce
  have "idx \<notin> enabled (NewMask ky)" using assms(1) by (simp add: mask_laws_def)
  from sub_agg_loop_panics [OF assms(1,2) all this] assms(4)
  have "sub_agg_loop ky (order rs) (NewMask ky) [] = Inl IndexPanic"
    unfolding sub_agg_loop_signatures [of ky "order rs"] s by simp
  then show ?thesis by (simp add: makeSubLeaderResponse_def)
qed

lemma sample_nth: "nth_laws sample_kyber bits8"
proof -
  have mem: "i \<in> bits8 m \<longleftrightarrow> 0 \<le> i \<and> i < 8 \<and> bit m (nat i)" for m i
    by (auto simp: bits8_def image_iff intro: exI [of _ "nat i"])
  have "int (length (filter (bit m) [0..<nat i])) = int (card {j \<in> bits8 m. j < i})" if "i < 8" for m i
  proof -
    have "{j \<in> bits8 m. j < i} = int ` {k. k < 8 \<and> bit m k \<and> int k < i}" by (auto simp: bits8_def)
    also have "{k. k < 8 \<and> bit m k \<and> int k < i} = set (filter (bit m) [0..<nat i])"
      using that by auto
    finally have "{j \<in> bits8 m. j < i} = int ` set (filter (bit m) [0..<nat i])" .
    then show ?thesis by (simp add: card_image distinct_card del: upt.simps set_filter)
  qed
  then show ?thesis by (auto simp: nth_laws_def mem sample_kyber_def)
qed

definition sample_answer :: "8 word \<Rightarrow> 8 word \<Rightarrow> Response" where
  "sample_answer sig mk = \<lparr>rSignature = [sig], rMask = [mk]\<rparr>"

lemma sample_answer_bits: "response_bits sample_kyber bits8 (sample_answer sig mk) = bits8 mk"
  "SetMask sample_kyber (rMask (sample_answer sig mk)) = Some mk" "rSignature (sample_answer sig mk) = [sig]"
  by (simp_all add: response_bits_def sample_answer_def sample_kyber_def)

lemma bits8_list: "bits8 m = int ` set (filter (bit m) [0..<8])"
  by (auto simp: bits8_def)

lemma sample_single_bits: "bits8 2 = {1}" "bits8 4 = {2}" "bits8 8 = {3}"
  by (simp_all add: bits8_list upt_conv_Cons bit_numeral_rec del: set_filter)

theorem sub_aggregate_in_mask_order_witness:
  "\<exists>m. bits8 m = {1, 2} \<and> makeSubLeaderResponse sample_kyber
      (rev [(3, None), (1, Some (sample_answer 10 2)), (2, Some (sample_answer 20 4))]) =
    Inr \<lparr>rSignature = [10, 20], rMask = [m]\<rparr>"
proof -
  let ?rs = "[(3, None), (1, Some (sample_answer 10 2)), (2, Some (sample_answer 20 4))]"
  have s: "signatures ?rs = [(1, sample_answer 10 2), (2, sample_answer 20 4)]"
    by (simp add: signatures_def sample_answer_def)
  from sub_aggregate_in_mask_order [OF sample_masks sample_nth, of ?rs rev] obtain m where
    "bits8 m = {1, 2}" "makeSubLeaderResponse sample_kyber (rev ?rs) =
      (case AggregateSigs sample_kyber m [[10], [20]] of None \<Rightarrow> Inl (ErrRet ''aggregate'')
       | Some agg \<Rightarrow> Inr \<lparr>rSignature = agg, rMask = MaskBytes sample_kyber m\<rparr>)"
    unfolding s by (auto simp: sample_answer_bits sample_single_bits simp del: rev.simps)
  then show ?thesis by (intro exI [of _ m]) (simp add: sample_kyber_def del: rev.simps)
qed

theorem foreign_mask_panics_witness:
  "makeSubLeaderResponse sample_kyber (id [(1, Some (sample_answer 10 4))]) = Inl IndexPanic"
  by (rule foreign_mask_panics [OF sample_masks sample_nth, of _ 1])
    (simp_all add: signatures_def sample_answer_bits sample_single_bits)

section \<open>What a subtree reports\<close>

lemma startSub_star:
  assumes "checkIntegrity p = None" and "0 \<le> cSubleaderFailures p" and "cSubleaderFailures p < 50000" and "rest \<noteq> []"
  shows "\<exists>sub. startSubProtocol p (star ss r rest) = Inr sub"
proof -
  let ?t = "star ss r rest"
  have t: "500 * 1000 \<le> cTimeout p" using assms(1) by (auto simp: checkIntegrity_def split: if_splits)
  have "10 * (cSubleaderFailures p + 1) div (cSubleaderFailures p + 1) \<le> cTimeout p div (cSubleaderFailures p + 1)"
    using t assms(2,3) by (intro zdiv_mono1) auto
  moreover have "10 * (cSubleaderFailures p + 1) div (cSubleaderFailures p + 1) = 10"
    using assms(2) by (intro nonzero_mult_div_cancel_right) simp
  ultimately have tm: "10 \<le> go_quot (cTimeout p) (cSubleaderFailures p + 1)"
    using t assms(2) by (simp only: go_quot_nonneg)
  have size: "Size ?t = int (length rest) + 1"
    using assms(4) by (cases rest) (simp_all add: Size_def star_def comp_def sum_list_triv)
  have dep: "depth (Root ?t) \<le> 2"
    by (cases "tl rest") (auto simp: star_def comp_def image_constant_conv)
  have msg: "cMsg p \<noteq> None" using assms(1) by (auto simp: checkIntegrity_def split: if_splits)
  show ?thesis
    using tm dep msg assms(4)
    by (auto simp: startSubProtocol_def NewSubBlsCosi_def SubStart_def sub_checkIntegrity_def size subleader_star Let_def)
qed

lemma goroutine_star:
  assumes "checkIntegrity p = None" and "0 \<le> cSubleaderFailures p" and "cSubleaderFailures p < 50000"
    and "sorted_wrt (<) rest" and "r \<notin> set rest" and "\<forall>i \<in> set (r # rest). 0 \<le> i \<and> i < int (length ss)"
    and "i + k < length rest"
  shows "subtree_goroutine p (star ss r (rotate i rest)) (replicate k RTimeout @ evs) =
    subtree_goroutine p (star ss r (rotate (i + k) rest)) evs"
  using assms(7)
proof (induction k arbitrary: i)
  case 0
  then show ?case by simp
next
  case (Suc k)
  have dist: "distinct (r # rotate i rest)" using assms(4,5) by (auto dest: strict_sorted_iff [THEN iffD1])
  have ne: "rotate i rest \<noteq> []" "rotate (Suc i) rest \<noteq> []" using Suc.prems by auto
  have rng: "\<forall>i \<in> set (r # rotate i rest). 0 \<le> i \<and> i < int (length ss)" using assms(6) by simp
  have "rest ! i < rest ! Suc i" using assms(4) Suc.prems by (simp add: sorted_wrt_nth_less)
  then have step: "restart_subtree (star ss r (rotate i rest)) = Inr (star ss r (rotate (Suc i) rest))"
    using restart_star [OF dist ne(1) rng] Suc.prems by (simp add: rotate_hd_next)
  obtain sub where "startSubProtocol p (star ss r (rotate (Suc i) rest)) = Inr sub"
    using startSub_star [OF assms(1-3) ne(2)] by blast
  with Suc.IH [of "Suc i"] Suc.prems show ?case by (simp add: dispatchRoot_def step)
qed

text \<open>
  a subtree of the leader's tree reports exactly one event when its servers time out in turn:
  after \<open>j\<close> timeouts the reply of server number \<open>j\<close>, which is the subleader by then, reaches the
  root protocol under that server's index; after as many timeouts as servers the subtree
  reports an error.
\<close>

theorem subtree_reports:
  assumes "1 < length (Roster t)" and "RosterIndex (Root t) = 0" and "1 \<le> nSubtrees"
    and "genTrees t nSubtrees = Inr ts" and "st \<in> set ts"
    and "checkIntegrity p = None" and "0 \<le> cSubleaderFailures p" and "cSubleaderFailures p < 50000"
    and "j < length (non_root st)"
  shows "subtree_goroutine p st (replicate j RTimeout @ RReply (non_root st ! j) r # evs) =
      Inr (Some (EvResponse (non_root st ! j) r (int (length (non_root st)) - 1))) \<and>
    subtree_goroutine p st (replicate (length (non_root st)) RTimeout @ evs) =
      Inr (Some (EvErr ''failed with every subleader, ignoring this subtree''))"
proof -
  let ?rest = "non_root st" and ?ss = "Roster t"
  from genTrees_subtree [OF assms(1-5)] have st: "st = star ?ss 0 ?rest" and ne: "?rest \<noteq> []"
    and srt: "sorted_wrt (<) ?rest" and r0: "0 \<notin> set ?rest"
    and rng: "\<forall>i \<in> set (0 # ?rest). 0 \<le> i \<and> i < int (length ?ss)" by auto
  note run = goroutine_star [OF assms(6-8) srt r0 rng, of 0]
  have hd: "hd (rotate j ?rest) = ?rest ! j" "rotate j ?rest \<noteq> []"
    using assms(9) ne by (simp_all add: hd_rotate_conv_nth)
  have "subtree_goroutine p (star ?ss 0 (rotate j ?rest)) (RReply (?rest ! j) r # evs) =
      Inr (Some (EvResponse (?rest ! j) r (int (length ?rest) - 1)))"
    using hd assms(9) by (simp add: dispatchRoot_def subleader_star of_nat_diff)
  moreover have "subtree_goroutine p st (replicate j RTimeout @ RReply (?rest ! j) r # evs) =
      subtree_goroutine p (star ?ss 0 (rotate j ?rest)) (RReply (?rest ! j) r # evs)"
    using run [of j] assms(9) st by simp
  moreover have "subtree_goroutine p st (replicate (length ?rest) RTimeout @ evs) =
      Inr (Some (EvErr ''failed with every subleader, ignoring this subtree''))"
  proof -
    let ?j = "length ?rest - 1"
    have "replicate (length ?rest) RTimeout = replicate ?j RTimeout @ [RTimeout]"
      using ne by (metis Suc_pred' length_greater_0_conv replicate_Suc replicate_append_same)
    then have "subtree_goroutine p st (replicate (length ?rest) RTimeout @ evs) =
        subtree_goroutine p (star ?ss 0 (rotate ?j ?rest)) (RTimeout # evs)"
      using run [of ?j "RTimeout # evs"] ne st by simp
    then show ?thesis using restart_last [OF srt r0 rng ne] by (simp add: dispatchRoot_def)
  qed
  ultimately show ?thesis by simp
qed

theorem subtree_reports_witness:
  "\<forall>r. subtree_goroutine sample_cosi (star six 0 [1, 2, 3]) [RTimeout, RReply 2 r] =
    Inr (Some (EvResponse 2 r 2))"
proof
  fix r
  have p: "checkIntegrity sample_cosi = None" "0 \<le> cSubleaderFailures sample_cosi" "cSubleaderFailures sample_cosi < 50000"
    by (simp_all add: checkIntegrity_def sample_cosi_defs Size_def)
  have l: "1 < length (Roster \<lparr>Roster = six, Root = RNode 0 []\<rparr>)" by (simp add: six_def)
  have n: "non_root (star six 0 [1, 2, 3]) = [1, 2, 3]" by (simp add: non_root_star)
  have i: "star six 0 [1, 2, 3] \<in> set [star six 0 [1, 2, 3], star six 0 [4, 5]]" by simp
  from subtree_reports [OF l _ _ sample_trees i p, of 1 r "[]"]
  show "subtree_goroutine sample_cosi (star six 0 [1, 2, 3]) [RTimeout, RReply 2 r] = Inr (Some (EvResponse 2 r 2))"
    unfolding n by (simp del: subtree_goroutine.simps)
qed

end
