(* ===== verification/GoFloat.thy ===== *)
theory GoFloat
  imports ChainBoost "HOL-Library.Log_Nat"
begin

text \<open>
  The conversions the protocols apply to random 64-bit values: \<open>int(uint64)\<close>,
  \<open>float64(int)\<close>, \<open>math.Abs\<close> and back to \<open>int\<close>. Here rounding matters: a float64 has 53 bits.
\<close>

text \<open>\<open>int(u)\<close> of a \<open>uint64\<close> is its two's complement reading.\<close>

definition int_of_u64 :: "u64 \<Rightarrow> int" where
  "int_of_u64 u = sint u"

text \<open>The float64 nearest to an integer, ties to even.\<close>

definition round53_nat :: "int \<Rightarrow> int" where
  "round53_nat a =
    (if a < 2 ^ 53 then a
     else let k = nat (bitlen a) - 53; q = a div 2 ^ k; r = a mod 2 ^ k
       in (if 2 * r > 2 ^ k \<or> 2 * r = 2 ^ k \<and> odd q then q + 1 else q) * 2 ^ k)"

definition float64_of_int :: "int \<Rightarrow> int" where
  "float64_of_int i = sgn i * round53_nat \<bar>i\<bar>"

text \<open>
  \<open>int(f)\<close> of a float64 with an integral value; outside the range of \<open>int\<close> the result is up to
  the implementation.
\<close>

definition int_of_float64 :: "world \<Rightarrow> int \<Rightarrow> int" where
  "int_of_float64 w f = (if - (2 ^ 63) \<le> f \<and> f < 2 ^ 63 then f else int_of_nonfinite w (f_of_int f))"

text \<open>\<open>int(math.Abs(float64(i)))\<close>\<close>

definition abs_via_float :: "world \<Rightarrow> int \<Rightarrow> int" where
  "abs_via_float w i = int_of_float64 w \<bar>float64_of_int i\<bar>"

lemma int_of_u64_range: "- (2 ^ 63) \<le> int_of_u64 u" "int_of_u64 u < 2 ^ 63"
  using sint_range_size [of u] by (simp_all add: int_of_u64_def word_size)

lemma round53_exact: "a < 2 ^ 53 \<Longrightarrow> round53_nat a = a"
  by (simp add: round53_nat_def)

lemma float64_of_int_exact: "\<bar>i\<bar> < 2 ^ 53 \<Longrightarrow> float64_of_int i = i"
  by (simp add: float64_of_int_def round53_exact mult_sgn_abs mult.commute abs_mult_sgn)

lemma abs_via_float_exact: "\<bar>i\<bar> < 2 ^ 53 \<Longrightarrow> abs_via_float w i = \<bar>i\<bar>"
  using abs_ge_zero [of i] by (simp add: abs_via_float_def int_of_float64_def float64_of_int_exact del: abs_ge_zero)

lemma round53_near:
  assumes "2 ^ 53 \<le> a"
  shows "\<bar>round53_nat a - a\<bar> * 2 ^ 53 \<le> a" and "0 \<le> round53_nat a"
proof -
  define k where "k = nat (bitlen a) - 53"
  define q r where "q = a div 2 ^ k" and "r = a mod 2 ^ k"
  have a0: "0 < a" using assms by (smt (verit) zero_less_power)
  have bl: "53 < nat (bitlen a)"
  proof -
    have "a < 2 ^ nat (bitlen a)" using bitlen_bounds [OF a0] by simp
    with assms have "(2::int) ^ 53 < 2 ^ nat (bitlen a)" by simp
    then show ?thesis by (rule power_less_imp_less_exp [rotated]) simp
  qed
  have "2 ^ nat (bitlen a - 1) \<le> a" using bitlen_bounds [OF a0] by simp
  moreover have "nat (bitlen a - 1) = k + 52" using bl by (simp add: k_def)
  ultimately have ka: "2 ^ k * 2 ^ 52 \<le> a" by (simp add: power_add)
  have r: "0 \<le> r" "r < 2 ^ k" by (simp_all add: r_def)
  have a: "a = q * 2 ^ k + r" unfolding q_def r_def by (rule div_mult_mod_eq [symmetric])
  have q0: "0 \<le> q" using a0 by (simp add: q_def pos_imp_zdiv_nonneg_iff)
  have "round53_nat a = (if 2 * r > 2 ^ k \<or> 2 * r = 2 ^ k \<and> odd q then q + 1 else q) * 2 ^ k"
    using assms by (simp add: round53_nat_def Let_def k_def q_def r_def)
  moreover from this have "2 * \<bar>round53_nat a - a\<bar> \<le> 2 ^ k"
    using r a by (auto simp: algebra_simps abs_if)
  ultimately show "\<bar>round53_nat a - a\<bar> * 2 ^ 53 \<le> a" "0 \<le> round53_nat a" using ka q0 by auto
qed

text \<open>Below \<open>2 ^ 63 - 1024\<close> nothing is rounded up to the end of the range.\<close>

lemma abs_via_float_nonneg:
  assumes "\<bar>i\<bar> < 2 ^ 63 - 1024"
  shows "0 \<le> abs_via_float w i"
proof (cases "\<bar>i\<bar> < 2 ^ 53")
  case True
  then show ?thesis by (simp add: abs_via_float_exact)
next
  case False
  then have b: "2 ^ 53 \<le> \<bar>i\<bar>" by simp
  have near: "\<bar>round53_nat \<bar>i\<bar> - \<bar>i\<bar>\<bar> * 2 ^ 53 \<le> \<bar>i\<bar>" and nn: "0 \<le> round53_nat \<bar>i\<bar>"
    using round53_near [OF b] by simp_all
  then have "\<bar>round53_nat \<bar>i\<bar> - \<bar>i\<bar>\<bar> < 1024" using assms by simp
  then have "round53_nat \<bar>i\<bar> < 2 ^ 63" using assms by linarith
  moreover have "\<bar>float64_of_int i\<bar> = round53_nat \<bar>i\<bar>"
    using b nn by (auto simp: float64_of_int_def abs_mult abs_sgn_eq)
  ultimately show ?thesis using nn by (simp add: abs_via_float_def int_of_float64_def)
qed

end
