(* ===== verification/SideProtocol.thy ===== *)
theory SideProtocol
  imports GoFloat MainChain SideChain BlsCosi
begin

text \<open>
  \<open>SideChainProtocol(ChainBoost).go\<close>: the first committee, its change with every main chain
  leader, a side chain round of the leader, and what the root does when a round is confirmed.
\<close>

section \<open>The first committee\<close>

fun contains :: "int list \<Rightarrow> int \<Rightarrow> bool" where
  "contains [] e = False"
| "contains (a # s) e = (if a = e then True else contains s e)"

text \<open>The \<open>k\<close>-th random index into a tree of \<open>n\<close> nodes.\<close>

definition drawn_index :: "world \<Rightarrow> int \<Rightarrow> nat \<Rightarrow> int" where
  "drawn_index w n k = go_rem (abs_via_float w (int_of_u64 (draws w k))) n"

text \<open>
  The loop that fills \<open>r\<close>: a repeated index is drawn again. It need not end (None).
\<close>

partial_function (option) draw_committee :: "world \<Rightarrow> int \<Rightarrow> int \<Rightarrow> nat \<Rightarrow> int list \<Rightarrow> int list option" where
  [code]: "draw_committee w window n k r =
    (if \<not> int (length r) < window then Some r
     else let d = drawn_index w n k in draw_committee w window n (Suc k) (if \<not> contains r d then r @ [d] else r))"

fun committee_ids :: "TreeNode list \<Rightarrow> int list \<Rightarrow> fault + TreeNodeID list" where
  "committee_ids ns [] = Inr []"
| "committee_ids ns (d # ds) =
    (if 0 \<le> d \<and> d < int (length ns) then bindR (committee_ids ns ds) (\<lambda>ids. Inr (nd_ID (ns ! nat d) # ids))
     else Inl IndexPanic)"

text \<open>\<open>Tree().Search(a).Name()\<close> for every member, as the log lines do: nil panics.\<close>

fun log_names :: "TreeNode list \<Rightarrow> TreeNodeID list \<Rightarrow> fault + string list" where
  "log_names ns [] = Inr []"
| "log_names ns (a # as) =
    (case Search ns a of None \<Rightarrow> Inl NilPanic
     | Some b \<Rightarrow> bindR (log_names ns as) (\<lambda>xs. Inr (nd_Name b # xs)))"

definition StartSideChainProtocol :: "world \<Rightarrow> ChainBoost \<Rightarrow> fault + ChainBoost" where
  "StartSideChainProtocol w bz =
    (let window = CommitteeWindow (cfg bz); n = int (length (nodes bz)) in
     if 0 < window \<and> n = 0 then Inl DivPanic
     else case draw_committee w window n 0 [] of
       None \<Rightarrow> Inl Loops
     | Some r \<Rightarrow>
        bindR (committee_ids (nodes bz) r) (\<lambda>ids.
        let committee = CommitteeNodesTreeNodeID bz @ ids in
        bindR (log_names (nodes bz) committee) (\<lambda>_.
        if committee = [] then Inl IndexPanic
        else let next = hd committee in
            (case SendTo w next (MsgRtL \<lparr>rtl_SCRoundNumber = SCRoundNumber bz,
                     rtl_CommitteeNodesTreeNodeID = committee, rtl_blocksize = 0\<rparr>)
                   (bz\<lparr>CommitteeNodesTreeNodeID := committee, NextSideChainLeader := next, BlsMsg := [255]\<rparr>) of
               None \<Rightarrow> Inl (PanicMsg ''can't send new side chain round msg to the first leader'')
             | Some bz' \<Rightarrow> Inr bz'))))"

section \<open>A new main chain leader\<close>

fun count_before :: "TreeNodeID \<Rightarrow> TreeNodeID list \<Rightarrow> nat" where
  "count_before l [] = 0"
| "count_before l (a # as) = (if a \<noteq> l then Suc (count_before l as) else 0)"

text \<open>The loop from the end of the committee that puts every other member in front.\<close>

definition other_members :: "TreeNodeID \<Rightarrow> TreeNodeID list \<Rightarrow> TreeNodeID list" where
  "other_members l ids = foldr (\<lambda>a new. if a \<noteq> l then [a] @ new else new) ids []"

definition UpdateSideChainCommittee :: "NewLeader \<Rightarrow> ChainBoost \<Rightarrow> fault + ChainBoost" where
  "UpdateSideChainCommittee msg bz =
    (let leader = nl_LeaderTreeNodeID msg; ids = CommitteeNodesTreeNodeID bz;
         new = (if count_before leader ids \<noteq> length ids then [leader] @ other_members leader ids else [leader] @ ids)
     in case Search (nodes bz) leader of None \<Rightarrow> Inl NilPanic
        | Some _ \<Rightarrow> bindR (log_names (nodes bz) new) (\<lambda>_. Inr (bz\<lparr>CommitteeNodesTreeNodeID := new\<rparr>)))"

section \<open>The leader's round\<close>

text \<open>
  The slice \<open>[0 : CommitteeWindow-1]\<close>. A bound beyond the length panics unless the slice has
  spare capacity, whose elements are not members: a fault in both cases.
\<close>

definition committee_slice :: "int \<Rightarrow> TreeNodeID list \<Rightarrow> fault + TreeNodeID list" where
  "committee_slice window ids =
    (if 0 \<le> window - 1 \<and> window - 1 \<le> int (length ids) then Inr (take (nat (window - 1)) ids) else Inl IndexPanic)"

fun committee_servers :: "TreeNode list \<Rightarrow> TreeNodeID list \<Rightarrow> fault + string list" where
  "committee_servers ns [] = Inr []"
| "committee_servers ns (a # as) =
    (case Search ns a of None \<Rightarrow> Inl NilPanic
     | Some b \<Rightarrow> bindR (committee_servers ns as) (\<lambda>xs. Inr (nd_Server b # xs)))"

text \<open>
  \<open>p\<close> is the leader's signing protocol, \<open>nm\<close> the name of a server. The Boolean tells whether
  \<open>Start\<close> launched the subprotocols; its error is dropped. \<open>NewRoster\<close> of no server is nil.
\<close>

definition SideChainLeaderPreNewRound :: "(string \<Rightarrow> string) \<Rightarrow> RtLSideChainNewRound \<Rightarrow> string BlsCosi \<Rightarrow> ChainBoost \<Rightarrow>
    fault + ChainBoost \<times> string BlsCosi \<times> bool" where
  "SideChainLeaderPreNewRound nm msg p bz =
    (let bz1 = bz\<lparr>SCRoundNumber := rtl_SCRoundNumber msg, BlsMsg := [255]\<rparr>;
         bz2 = (if SCRoundNumber bz1 = 1
                then bz1\<lparr>CommitteeNodesTreeNodeID := rtl_CommitteeNodesTreeNodeID msg\<rparr> else bz1)
     in bindR (committee_slice (CommitteeWindow (cfg bz)) (CommitteeNodesTreeNodeID bz2)) (\<lambda>ids.
        bindR (committee_servers (nodes bz) ids) (\<lambda>servers.
        bindR (if SCRoundNumber bz2 = 1 then log_names (nodes bz) (CommitteeNodesTreeNodeID bz2) else Inr []) (\<lambda>_.
        let bz3 = bz2\<lparr>BlockType := (if SCRoundNumber bz2 = 0 then ''Summary Block'' else ''Meta Block'')\<rparr> in
        if servers = [] then Inl NilPanic
        else bindR (NewBlsProtocolTree \<lparr>Roster = servers, Root = RNode 0 []\<rparr> (NbrSubTrees (cfg bz))) (\<lambda>ts.
        if rtl_blocksize msg < 0 then Inl IndexPanic
        else let block = BlsMsg bz3 @ replicate (nat (rtl_blocksize msg)) 0;
                 p1 = p\<lparr>cSubTrees := Some ts, cMsg := Some block\<rparr>;
                 bz4 = bz3\<lparr>BlsMsg := block\<rparr>
          in case StartCosi nm (nd_Name (self bz)) p1 of
               Inl (ErrRet e) \<Rightarrow> Inr (bz4, p1, False)
             | Inl f \<Rightarrow> Inl f
             | Inr p2 \<Rightarrow> Inr (bz4, p2, True))))))"

section \<open>The root after a confirmed round\<close>

definition sc_rounds_per_epoch :: "ChainBoost \<Rightarrow> int" where
  "sc_rounds_per_epoch bz = MCRoundPerEpoch (cfg bz) * go_quot (MCRoundDuration (cfg bz)) (SCRoundDuration (cfg bz))"

text \<open>\<open>wgSyncScRound.Done()\<close>\<close>

definition sc_round_done :: "ChainBoost \<Rightarrow> fault + ChainBoost" where
  "sc_round_done bz =
    (if wgSyncScRound bz - 1 < 0 then Inl (PanicMsg ''sync: negative WaitGroup counter'')
     else Inr (bz\<lparr>wgSyncScRound := wgSyncScRound bz - 1\<rparr>))"

definition storage_due :: "ChainBoost \<Rightarrow> fault + bool" where
  "storage_due bz =
    (if StoragePaymentEpoch (cfg bz) = 0 then Inr False
     else if MCRoundPerEpoch (cfg bz) = 0 then Inl DivPanic
     else Inr (go_rem (go_quot (MCRoundNumber bz) (MCRoundPerEpoch (cfg bz))) (StoragePaymentEpoch (cfg bz)) = 0))"

text \<open>The end of an epoch: the summary block and the sync transaction, then the next committee.\<close>

definition summary_block :: "world \<Rightarrow> string \<Rightarrow> ChainBoost \<Rightarrow> fault + ChainBoost \<times> int" where
  "summary_block w leader bz =
     bindR (syncMainChainBCTransactionQueueCollect w (bz\<lparr>BlockType := ''Summary Block''\<rparr>)) (\<lambda>(bz1, blocksize).
     bindR (storage_due bz1) (\<lambda>due.
     bindR (if due then StoragePaymentMainChainBCTransactionQueueCollect w bz1 else Inr bz1) (\<lambda>bz2.
     bindR (updateSideChainBCRound w leader blocksize bz2) (\<lambda>bz3. Inr (bz3, blocksize)))))"

definition next_committee :: "ChainBoost \<Rightarrow> fault + ChainBoost \<times> TreeNodeID list" where
  "next_committee bz =
     bindR (committee_slice (CommitteeWindow (cfg bz)) (CommitteeNodesTreeNodeID bz)) (\<lambda>ids.
     case ids of
       [] \<Rightarrow> Inl IndexPanic
     | next # _ \<Rightarrow> bindR (log_names (nodes bz) ids) (\<lambda>_.
         Inr (bz\<lparr>NextSideChainLeader := next, CommitteeNodesTreeNodeID := ids\<rparr>, ids)))"

definition post_summary :: "world \<Rightarrow> string \<Rightarrow> ChainBoost \<Rightarrow> fault + ChainBoost \<times> TreeNodeID list \<times> int" where
  "post_summary w leader bz =
     bindR (summary_block w leader bz) (\<lambda>(bz1, blocksize).
     if MCRoundPerEpoch (cfg bz) = 0 then Inl DivPanic
     else bindR (sc_round_done (bz1\<lparr>SCRoundNumber := 1\<rparr>)) (\<lambda>bz2.
          bindR (next_committee bz2) (\<lambda>(bz3, ids). Inr (bz3, ids, blocksize))))"

definition post_meta :: "world \<Rightarrow> string \<Rightarrow> ChainBoost \<Rightarrow> fault + ChainBoost \<times> TreeNodeID list \<times> int" where
  "post_meta w leader bz =
     bindR (updateSideChainBCRound w leader 0 bz) (\<lambda>bz1.
     bindR (updateSideChainBCTransactionQueueTake bz1) (\<lambda>(bz2, blocksize).
     bindR (sc_round_done (bz2\<lparr>BlockType := ''Meta Block'', SCRoundNumber := SCRoundNumber bz2 + 1\<rparr>)) (\<lambda>bz3.
     Inr (bz3, [], blocksize))))"

text \<open>
  The Boolean tells whether the handler goes on to \<open>wgSyncMcRound.Wait()\<close>; \<open>sc_round_resumed\<close> is
  the rest of it.
\<close>

definition SideChainRootPostNewRound :: "world \<Rightarrow> string \<Rightarrow> LtRSideChainNewRound \<Rightarrow> ChainBoost \<Rightarrow> fault + ChainBoost \<times> bool" where
  "SideChainRootPostNewRound w leader msg bz =
    (let bz0 = bz\<lparr>SCRoundNumber := ltr_SCRoundNumber msg, SCSig := ltr_SCSig msg\<rparr> in
     if SCRoundDuration (cfg bz) = 0 then Inl DivPanic
     else bindR (if sc_rounds_per_epoch bz0 = SCRoundNumber bz0 then post_summary w leader bz0 else post_meta w leader bz0)
       (\<lambda>(bz1, committee, blocksize).
        if Search (nodes bz) (NextSideChainLeader bz1) = None then Inl NilPanic
        else case SendTo w (NextSideChainLeader bz1) (MsgRtL \<lparr>rtl_SCRoundNumber = SCRoundNumber bz1,
                 rtl_CommitteeNodesTreeNodeID = committee, rtl_blocksize = blocksize\<rparr>) bz1 of
          None \<Rightarrow> Inl (ErrRet ''can't send new side chain round msg to next leader'')
        | Some bz2 \<Rightarrow>
            if simulationDone bz2 then Inr (bz2, False)
            else if MCRoundPerEpoch (cfg bz) = 0 \<or> go_quot (SCRoundPerEpoch (cfg bz)) (MCRoundPerEpoch (cfg bz)) = 0
              then Inl DivPanic
            else Inr (bz2, go_rem (SCRoundNumber bz2) (go_quot (SCRoundPerEpoch (cfg bz)) (MCRoundPerEpoch (cfg bz))) = 0)))"

definition sc_round_resumed :: "ChainBoost \<Rightarrow> ChainBoost" where
  "sc_round_resumed bz = bz\<lparr>wgSyncMcRound := wgSyncMcRound bz + 1\<rparr>"

section \<open>The first committee\<close>

lemma contains_iff [simp]: "contains s e \<longleftrightarrow> e \<in> set s"
  by (induction s) auto

lemma drawn_index_bound: "0 < n \<Longrightarrow> \<bar>drawn_index w n k\<bar> < n"
  by (simp add: drawn_index_def go_rem_abs)

text \<open>The members drawn from position \<open>k\<close> on, after \<open>j\<close> steps.\<close>

fun members_after :: "world \<Rightarrow> int \<Rightarrow> nat \<Rightarrow> nat \<Rightarrow> int list \<Rightarrow> int list" where
  "members_after w n k 0 r = r"
| "members_after w n k (Suc j) r =
     members_after w n (Suc k) j (let d = drawn_index w n k in if d \<in> set r then r else r @ [d])"

lemma members_after_distinct: "distinct r \<Longrightarrow> distinct (members_after w n k j r)"
  by (induction j arbitrary: k r) (auto simp: Let_def)

lemma members_after_set: "set (members_after w n k j r) = set r \<union> drawn_index w n ` {k..<k + j}"
proof (induction j arbitrary: k r)
  case 0
  then show ?case by simp
next
  case (Suc j)
  have "{k..<k + Suc j} = insert k {Suc k..<Suc k + j}" by auto
  then show ?case using Suc by (auto simp: Let_def)
qed

lemma draw_committee_step:
  "draw_committee w window n k r =
    (if int (length r) < window then draw_committee w window n (Suc k) (members_after w n k 1 r) else Some r)"
  by (subst draw_committee.simps) (simp add: Let_def)

lemma draw_committee_skip:
  "(\<forall>i < j. int (length (members_after w n k i r)) < window) \<Longrightarrow>
   draw_committee w window n k r = draw_committee w window n (k + j) (members_after w n k j r)"
proof (induction j arbitrary: k r)
  case 0
  then show ?case by simp
next
  case (Suc j)
  have "int (length r) < window" using Suc.prems by force
  moreover have "\<forall>i < j. int (length (members_after w n (Suc k) i (members_after w n k 1 r))) < window"
    using Suc.prems by (auto simp: Let_def dest: spec [of _ "Suc _"])
  ultimately show ?case using Suc.IH [of "Suc k" "members_after w n k 1 r"] draw_committee_step [of w window n k r]
    by (simp add: Let_def)
qed

lemma draw_committee_result:
  assumes "draw_committee w window n k r = Some r'"
  shows "\<exists>j. r' = members_after w n k j r \<and> window \<le> int (length r') \<and>
    (\<forall>i < j. int (length (members_after w n k i r)) < window)"
proof (rule draw_committee.raw_induct [OF _ assms])
  fix rec :: "world \<Rightarrow> int \<Rightarrow> int \<Rightarrow> nat \<Rightarrow> int list \<Rightarrow> int list option" and w window n k r r'
  let ?r = "members_after w n k 1 r"
  assume IH: "\<And>w window n k r r'. rec w window n k r = Some r' \<Longrightarrow> \<exists>j. r' = members_after w n k j r \<and>
      window \<le> int (length r') \<and> (\<forall>i < j. int (length (members_after w n k i r)) < window)"
    and body: "(if \<not> int (length r) < window then Some r
      else let d = drawn_index w n k in rec w window n (Suc k) (if \<not> contains r d then r @ [d] else r)) = Some r'"
  show "\<exists>j. r' = members_after w n k j r \<and> window \<le> int (length r') \<and>
      (\<forall>i < j. int (length (members_after w n k i r)) < window)"
  proof (cases "int (length r) < window")
    case False
    with body show ?thesis by (intro exI [of _ 0]) auto
  next
    case True
    from True body have "rec w window n (Suc k) ?r = Some r'" by (simp add: Let_def split: if_splits)
    from IH [OF this] obtain j where j: "r' = members_after w n (Suc k) j ?r" "window \<le> int (length r')"
      "\<forall>i < j. int (length (members_after w n (Suc k) i ?r)) < window" by blast
    have "\<forall>i < Suc j. int (length (members_after w n k i r)) < window"
    proof (intro allI impI)
      fix i assume "i < Suc j"
      then show "int (length (members_after w n k i r)) < window"
        using True j(3) by (cases i) (auto simp: Let_def)
    qed
    with j show ?thesis by (intro exI [of _ "Suc j"]) (simp add: Let_def)
  qed
qed

lemma members_length: "distinct r \<Longrightarrow> length (members_after w n k j r) = card (set r \<union> drawn_index w n ` {k..<k + j})"
  using distinct_card [OF members_after_distinct] by (metis members_after_set)

lemma draw_committee_returns_iff:
  "(\<exists>r. draw_committee w window n 0 [] = Some r) \<longleftrightarrow> (\<exists>j. window \<le> int (card (drawn_index w n ` {0..<j})))"
proof
  assume "\<exists>r. draw_committee w window n 0 [] = Some r"
  then obtain r where "draw_committee w window n 0 [] = Some r" ..
  from draw_committee_result [OF this] show "\<exists>j. window \<le> int (card (drawn_index w n ` {0..<j}))"
    using members_length [of "[]" w n 0] by auto
next
  assume "\<exists>j. window \<le> int (card (drawn_index w n ` {0..<j}))"
  define j where "j = (LEAST j. window \<le> int (card (drawn_index w n ` {0..<j})))"
  have j: "window \<le> int (card (drawn_index w n ` {0..<j}))"
    using \<open>\<exists>j. _\<close> unfolding j_def by (rule LeastI_ex)
  have "\<forall>i < j. int (length (members_after w n 0 i [])) < window"
    using members_length [of "[]" w n 0] not_less_Least unfolding j_def by fastforce
  then have "draw_committee w window n 0 [] = draw_committee w window n j (members_after w n 0 j [])"
    using draw_committee_skip [of j w n 0 "[]" window] by simp
  also have "\<dots> = Some (members_after w n 0 j [])"
    using j members_length [of "[]" w n 0 j] by (subst draw_committee_step) simp
  finally show "\<exists>r. draw_committee w window n 0 [] = Some r" ..
qed

lemma draw_committee_members:
  assumes "draw_committee w window n 0 [] = Some r" and "0 < n"
  shows "distinct r" and "length r = nat window" and "\<forall>d \<in> set r. \<bar>d\<bar> < n"
proof -
  from draw_committee_result [OF assms(1)] obtain j where j: "r = members_after w n 0 j []" "window \<le> int (length r)"
    "\<forall>i < j. int (length (members_after w n 0 i [])) < window" by blast
  show "distinct r" using members_after_distinct [of "[]" w n 0 j] j(1) by simp
  show "\<forall>d \<in> set r. \<bar>d\<bar> < n" using drawn_index_bound [OF assms(2)] by (auto simp: j(1) members_after_set)
  have step: "length (members_after w n 0 (Suc i) []) \<le> Suc (length (members_after w n 0 i []))" for i
  proof -
    have "drawn_index w n ` {0..<Suc i} = insert (drawn_index w n i) (drawn_index w n ` {0..<i})"
      by (simp add: atLeast0_lessThan_Suc)
    then show ?thesis using members_length [of "[]" w n 0]
      by (simp add: card_insert_if del: members_after.simps(2))
  qed
  show "length r = nat window"
  proof (cases j)
    case 0
    then show ?thesis using j by simp
  next
    case (Suc i)
    then show ?thesis using j step [of i] by fastforce
  qed
qed

section \<open>Names\<close>

definition ids_of :: "ChainBoost \<Rightarrow> TreeNodeID set" where
  "ids_of bz = nd_ID ` set (nodes bz)"

lemma log_names_ok: "set as \<subseteq> nd_ID ` set ns \<Longrightarrow> \<exists>xs. log_names ns as = Inr xs"
proof (induction as)
  case Nil
  then show ?case by simp
next
  case (Cons a as)
  then have "Search ns a \<noteq> None" by (simp add: Search_None_iff)
  then show ?case using Cons by auto
qed

lemma log_names_Inr: "log_names ns as = Inr xs \<Longrightarrow> set as \<subseteq> nd_ID ` set ns"
proof (induction as arbitrary: xs)
  case Nil
  then show ?case by simp
next
  case (Cons a as)
  then obtain b where "Search ns a = Some b" by (auto split: option.splits)
  then show ?case using Cons Search_Some by (fastforce simp: bindR_Inr_iff)
qed

lemma committee_ids_ok:
  "\<forall>d \<in> set r. 0 \<le> d \<and> d < int (length ns) \<Longrightarrow> committee_ids ns r = Inr (map (\<lambda>d. nd_ID (ns ! nat d)) r)"
  by (induction r) auto

section \<open>The start of the side chain\<close>

definition all_draws :: "world \<Rightarrow> int \<Rightarrow> int set" where
  "all_draws w n = range (drawn_index w n)"

lemma enough_draws:
  assumes "0 < n"
  shows "(\<exists>j. window \<le> int (card (drawn_index w n ` {0..<j}))) \<longleftrightarrow> window \<le> int (card (all_draws w n))"
proof -
  have "all_draws w n \<subseteq> {-n<..<n}" using drawn_index_bound [OF assms] by (auto simp: all_draws_def abs_less_iff minus_less_iff)
  then have fin: "finite (all_draws w n)" by (rule finite_subset) simp
  obtain m where m: "all_draws w n = drawn_index w n ` {0..<m}"
  proof -
    obtain A where A: "finite A" "all_draws w n = drawn_index w n ` A"
      using fin finite_subset_image [of "all_draws w n" "drawn_index w n" UNIV] by (auto simp: all_draws_def)
    obtain j where "\<forall>i \<in> A. i < j" using A(1) finite_nat_set_iff_bounded by blast
    then have "A \<subseteq> {0..<j}" by auto
    then have "all_draws w n \<subseteq> drawn_index w n ` {0..<j}" using A(2) by auto
    then have "all_draws w n = drawn_index w n ` {0..<j}" by (auto simp: all_draws_def)
    then show ?thesis by (rule that)
  qed
  have le: "card (drawn_index w n ` {0..<j}) \<le> card (all_draws w n)" for j
    by (rule card_mono [OF fin]) (auto simp: all_draws_def)
  show ?thesis
  proof
    assume "\<exists>j. window \<le> int (card (drawn_index w n ` {0..<j}))"
    then obtain j where "window \<le> int (card (drawn_index w n ` {0..<j}))" ..
    then show "window \<le> int (card (all_draws w n))" using le [of j] by linarith
  qed (auto simp: m)
qed

lemma drawn_index_range:
  assumes "0 < n" and "\<bar>int_of_u64 (draws w k)\<bar> < 2 ^ 63 - 1024"
  shows "0 \<le> drawn_index w n k" and "drawn_index w n k < n"
  using abs_via_float_nonneg [OF assms(2)] assms(1) by (simp_all add: drawn_index_def go_rem_nonneg)

text \<open>
  C36: the root fills the first committee, when the random values are at least 1024 away from the
  ends of the range of \<open>int\<close>, unless its values hit fewer than \<open>CommitteeWindow\<close> nodes, in
  particular when there are fewer nodes: then it draws for ever. The committee has
  \<open>CommitteeWindow\<close> different nodes, and the first one is told to start round \<open>SCRoundNumber\<close>.
\<close>

theorem first_committee:
  assumes "0 < CommitteeWindow (cfg bz)" and "nodes bz \<noteq> []" and "distinct (map nd_ID (nodes bz))"
    and "CommitteeNodesTreeNodeID bz = []" and "\<And>i. sendOk w i"
    and "\<And>k. \<bar>int_of_u64 (draws w k)\<bar> < 2 ^ 63 - 1024"
  shows "(StartSideChainProtocol w bz = Inl Loops \<longleftrightarrow>
      int (card (all_draws w (int (length (nodes bz))))) < CommitteeWindow (cfg bz)) \<and>
    (int (length (nodes bz)) < CommitteeWindow (cfg bz) \<longrightarrow> StartSideChainProtocol w bz = Inl Loops) \<and>
    (StartSideChainProtocol w bz \<noteq> Inl Loops \<longrightarrow> (\<exists>next rest.
      StartSideChainProtocol w bz = Inr (bz\<lparr>CommitteeNodesTreeNodeID := next # rest, NextSideChainLeader := next,
        BlsMsg := [255], sent := sent bz @ [(next, MsgRtL \<lparr>rtl_SCRoundNumber = SCRoundNumber bz,
          rtl_CommitteeNodesTreeNodeID = next # rest, rtl_blocksize = 0\<rparr>)]\<rparr>) \<and>
      distinct (next # rest) \<and> int (length (next # rest)) = CommitteeWindow (cfg bz) \<and>
      set (next # rest) \<subseteq> ids_of bz))"
proof -
  let ?n = "int (length (nodes bz))" and ?W = "CommitteeWindow (cfg bz)"
  have n: "0 < ?n" using assms(2) by simp
  have some: "(\<exists>r. draw_committee w ?W ?n 0 [] = Some r) \<longleftrightarrow> ?W \<le> int (card (all_draws w ?n))"
    using draw_committee_returns_iff enough_draws [OF n] by metis
  have sub: "all_draws w ?n \<subseteq> {0..<?n}"
    using drawn_index_range [OF n assms(6)] by (auto simp: all_draws_def)
  have few: "int (card (all_draws w ?n)) \<le> ?n" using card_mono [OF _ sub] by simp
  show ?thesis
  proof (cases "draw_committee w ?W ?n 0 []")
    case None
    then have "StartSideChainProtocol w bz = Inl Loops"
      using n by (simp add: StartSideChainProtocol_def Let_def)
    then show ?thesis using some None by auto
  next
    case (Some r)
    note r = draw_committee_members [OF Some n]
    from draw_committee_result [OF Some] have "set r \<subseteq> all_draws w ?n"
      by (auto simp: members_after_set all_draws_def)
    then have rng: "\<forall>d \<in> set r. 0 \<le> d \<and> d < ?n" using sub by auto
    let ?c = "map (\<lambda>d. nd_ID (nodes bz ! nat d)) r"
    have "inj_on (\<lambda>d. nd_ID (nodes bz ! nat d)) (set r)"
    proof (rule inj_onI)
      fix d e assume "d \<in> set r" "e \<in> set r" and eq: "nd_ID (nodes bz ! nat d) = nd_ID (nodes bz ! nat e)"
      then have lt: "nat d < length (nodes bz)" "nat e < length (nodes bz)" "0 \<le> d" "0 \<le> e" using rng by auto
      then have "map nd_ID (nodes bz) ! nat d = map nd_ID (nodes bz) ! nat e" using eq by simp
      then have "nat d = nat e" using assms(3) lt by (simp only: nth_eq_iff_index_eq length_map)
      then show "d = e" using lt by simp
    qed
    then have dist: "distinct ?c" using r(1) by (simp add: distinct_map)
    have len: "int (length ?c) = ?W" using r(2) assms(1) by simp
    have subs: "set ?c \<subseteq> ids_of bz" using rng by (auto simp: ids_of_def intro!: imageI nth_mem)
    then obtain xs where names: "log_names (nodes bz) ?c = Inr xs" using log_names_ok unfolding ids_of_def by blast
    obtain nxt rest where c: "?c = nxt # rest" using len assms(1) by (cases ?c) auto
    have run: "StartSideChainProtocol w bz = Inr (bz\<lparr>CommitteeNodesTreeNodeID := nxt # rest, NextSideChainLeader := nxt,
        BlsMsg := [255], sent := sent bz @ [(nxt, MsgRtL \<lparr>rtl_SCRoundNumber = SCRoundNumber bz,
          rtl_CommitteeNodesTreeNodeID = nxt # rest, rtl_blocksize = 0\<rparr>)]\<rparr>)"
      using n names committee_ids_ok [OF rng] assms(4,5) Some c
      by (simp add: StartSideChainProtocol_def SendTo_def Let_def)
    then have ret: "StartSideChainProtocol w bz \<noteq> Inl Loops" by simp
    have enough: "?W \<le> int (card (all_draws w ?n))" using some Some by auto
    show ?thesis
    proof (intro conjI impI exI [of _ nxt] exI [of _ rest])
      show "StartSideChainProtocol w bz = Inl Loops \<longleftrightarrow> int (card (all_draws w ?n)) < ?W" using ret enough by simp
      show "StartSideChainProtocol w bz = Inl Loops" if "?n < ?W" using that few enough by linarith
    qed (use run dist len subs c in \<open>simp_all only: simp_thms\<close>)
  qed
qed

section \<open>A new main chain leader\<close>

lemma count_before_eq: "count_before l as = length as \<longleftrightarrow> l \<notin> set as"
  by (induction as) auto

lemma other_members_filter: "other_members l ids = filter (\<lambda>a. a \<noteq> l) ids"
  by (induction ids) (auto simp: other_members_def)

text \<open>
  a main chain leader comes to the front of the committee, the others keep their order and
  nobody is there twice; the committee grows by one when the leader is new. Nothing else changes.
\<close>

theorem leader_joins_committee:
  assumes "nl_LeaderTreeNodeID msg \<in> ids_of bz" and "set (CommitteeNodesTreeNodeID bz) \<subseteq> ids_of bz"
    and "distinct (CommitteeNodesTreeNodeID bz)"
  shows "\<exists>new. UpdateSideChainCommittee msg bz = Inr (bz\<lparr>CommitteeNodesTreeNodeID := new\<rparr>) \<and>
    new = nl_LeaderTreeNodeID msg # filter (\<lambda>a. a \<noteq> nl_LeaderTreeNodeID msg) (CommitteeNodesTreeNodeID bz) \<and>
    distinct new \<and> set new = insert (nl_LeaderTreeNodeID msg) (set (CommitteeNodesTreeNodeID bz)) \<and>
    length new = length (CommitteeNodesTreeNodeID bz) +
      (if nl_LeaderTreeNodeID msg \<in> set (CommitteeNodesTreeNodeID bz) then 0 else 1)"
proof -
  let ?l = "nl_LeaderTreeNodeID msg" and ?ids = "CommitteeNodesTreeNodeID bz"
  let ?new = "?l # filter (\<lambda>a. a \<noteq> ?l) ?ids"
  have new: "(if count_before ?l ?ids \<noteq> length ?ids then [?l] @ other_members ?l ?ids else [?l] @ ?ids) = ?new"
    by (simp add: count_before_eq other_members_filter) (metis (mono_tags, lifting) filter_True)
  have "Search (nodes bz) ?l \<noteq> None" using assms(1) by (simp add: Search_None_iff ids_of_def)
  moreover have sub: "set ?new \<subseteq> nd_ID ` set (nodes bz)" using assms(1,2) by (auto simp: ids_of_def)
  then obtain xs where "log_names (nodes bz) ?new = Inr xs" using log_names_ok by blast
  ultimately have run: "UpdateSideChainCommittee msg bz = Inr (bz\<lparr>CommitteeNodesTreeNodeID := ?new\<rparr>)"
    unfolding UpdateSideChainCommittee_def Let_def new by (auto simp del: log_names.simps)
  have "distinct ?new" using assms(3) by simp
  moreover have "set ?new = insert ?l (set ?ids)" by auto
  ultimately have "length ?new = card (insert ?l (set ?ids))" using distinct_card by metis
  then have "length ?new = length ?ids + (if ?l \<in> set ?ids then 0 else 1)"
    using distinct_card [OF assms(3)] by (simp add: card_insert_if insert_absorb)
  then show ?thesis using run \<open>distinct ?new\<close> \<open>set ?new = _\<close> by blast
qed

section \<open>The root after a confirmed round\<close>

text \<open>The parts of the state the handlers of the side chain rely on and the chain operations keep.\<close>

definition side_frame :: "ChainBoost \<Rightarrow> ChainBoost \<Rightarrow> bool" where
  "side_frame bz bz' \<longleftrightarrow> nodes bz' = nodes bz \<and> cfg bz' = cfg bz \<and> self bz' = self bz \<and>
     CommitteeNodesTreeNodeID bz' = CommitteeNodesTreeNodeID bz \<and>
     NextSideChainLeader bz' = NextSideChainLeader bz \<and> wgSyncScRound bz' = wgSyncScRound bz \<and>
     wgSyncMcRound bz' = wgSyncMcRound bz \<and> SCRoundNumber bz' = SCRoundNumber bz \<and>
     MCRoundNumber bz' = MCRoundNumber bz \<and> simulationDone bz' = simulationDone bz \<and>
     HasLeader bz' = HasLeader bz \<and> SCSig bz' = SCSig bz \<and> sent bz' = sent bz"

lemma side_frame_refl: "side_frame bz bz"
  by (simp add: side_frame_def)

lemma side_frame_trans: "side_frame a b \<Longrightarrow> side_frame b c \<Longrightarrow> side_frame a c"
  by (simp add: side_frame_def)

lemma frame_sync: "syncMainChainBCTransactionQueueCollect w bz = Inr (bz', n) \<Longrightarrow> side_frame bz bz'"
  by (auto simp: syncMainChainBCTransactionQueueCollect_def Let_def bindR_Inr_iff side_frame_def)

lemma frame_storage: "StoragePaymentMainChainBCTransactionQueueCollect w bz = Inr bz' \<Longrightarrow> side_frame bz bz'"
  by (auto simp: StoragePaymentMainChainBCTransactionQueueCollect_def bindR_Inr_iff side_frame_def)

lemma frame_round: "updateSideChainBCRound w l n bz = Inr bz' \<Longrightarrow> side_frame bz bz'"
  by (auto simp: updateSideChainBCRound_def bindR_Inr_iff side_frame_def split: prod.splits)

lemma frame_side_take: "updateSideChainBCTransactionQueueTake bz = Inr (bz', n) \<Longrightarrow> side_frame bz bz'"
  by (auto simp: updateSideChainBCTransactionQueueTake_def Let_def bindR_Inr_iff side_frame_def)

lemma sc_round_done_Inr:
  "sc_round_done bz = Inr bz' \<longleftrightarrow> 1 \<le> wgSyncScRound bz \<and> bz' = bz\<lparr>wgSyncScRound := wgSyncScRound bz - 1\<rparr>"
  by (auto simp: sc_round_done_def)

lemma committee_slice_Inr:
  "committee_slice window ids = Inr xs \<longleftrightarrow> 1 \<le> window \<and> window - 1 \<le> int (length ids) \<and> xs = take (nat (window - 1)) ids"
  by (auto simp: committee_slice_def)

lemma bindR_InrE:
  assumes "bindR m f = Inr b" obtains a where "m = Inr a" and "f a = Inr b"
  using assms by (auto simp: bindR_Inr_iff)

lemma frame_summary_block:
  assumes "summary_block w leader bz = Inr (bz', n)"
  shows "side_frame bz bz'"
proof -
  let ?bz = "bz\<lparr>BlockType := ''Summary Block''\<rparr>"
  from assms obtain bz1 due bz2 where
    s: "syncMainChainBCTransactionQueueCollect w ?bz = Inr (bz1, n)"
    and p: "(if due then StoragePaymentMainChainBCTransactionQueueCollect w bz1 else Inr bz1) = Inr bz2"
    and r: "updateSideChainBCRound w leader n bz2 = Inr bz'"
    unfolding summary_block_def by (auto elim!: bindR_InrE simp del: if_split)
  have "side_frame ?bz bz1" using s by (rule frame_sync)
  moreover have "side_frame bz1 bz2" using p by (cases due) (auto simp: side_frame_refl dest: frame_storage)
  moreover have "side_frame bz2 bz'" using r by (rule frame_round)
  ultimately have "side_frame ?bz bz'" using side_frame_trans by blast
  then show ?thesis by (simp add: side_frame_def)
qed

lemma next_committee_Inr:
  assumes "next_committee bz = Inr (bz', ids)"
  shows "1 \<le> CommitteeWindow (cfg bz) \<and> int (length ids) = CommitteeWindow (cfg bz) - 1 \<and> ids \<noteq> [] \<and>
    ids = take (nat (CommitteeWindow (cfg bz) - 1)) (CommitteeNodesTreeNodeID bz) \<and> set ids \<subseteq> ids_of bz \<and>
    bz' = bz\<lparr>NextSideChainLeader := hd ids, CommitteeNodesTreeNodeID := ids\<rparr>"
proof -
  from assms obtain xs nxt rest where c: "committee_slice (CommitteeWindow (cfg bz)) (CommitteeNodesTreeNodeID bz) = Inr ids"
    and ids: "ids = nxt # rest" and l: "log_names (nodes bz) ids = Inr xs"
    and bz': "bz' = bz\<lparr>NextSideChainLeader := nxt, CommitteeNodesTreeNodeID := ids\<rparr>"
    unfolding next_committee_def by (auto split: list.split_asm elim!: bindR_InrE simp del: log_names.simps)
  from c have "1 \<le> CommitteeWindow (cfg bz)"
    and len: "int (length ids) = CommitteeWindow (cfg bz) - 1"
    and t: "ids = take (nat (CommitteeWindow (cfg bz) - 1)) (CommitteeNodesTreeNodeID bz)"
    by (auto simp: committee_slice_Inr)
  moreover have "set ids \<subseteq> ids_of bz" using log_names_Inr [OF l] by (simp add: ids_of_def)
  moreover have "ids \<noteq> []" "bz' = bz\<lparr>NextSideChainLeader := hd ids, CommitteeNodesTreeNodeID := ids\<rparr>"
    using ids bz' by simp_all
  ultimately show ?thesis by (intro conjI)
qed

lemma post_summary_Inr:
  assumes "post_summary w leader bz = Inr (bz', ids, n)"
  shows "1 \<le> wgSyncScRound bz \<and> wgSyncScRound bz' = wgSyncScRound bz - 1 \<and> SCRoundNumber bz' = 1 \<and>
    ids = take (nat (CommitteeWindow (cfg bz) - 1)) (CommitteeNodesTreeNodeID bz) \<and> ids \<noteq> [] \<and>
    int (length ids) = CommitteeWindow (cfg bz) - 1 \<and> set ids \<subseteq> ids_of bz \<and>
    CommitteeNodesTreeNodeID bz' = ids \<and> NextSideChainLeader bz' = hd ids \<and> nodes bz' = nodes bz \<and> cfg bz' = cfg bz \<and>
    wgSyncMcRound bz' = wgSyncMcRound bz \<and> MCRoundNumber bz' = MCRoundNumber bz \<and> HasLeader bz' = HasLeader bz \<and>
    simulationDone bz' = simulationDone bz \<and> sent bz' = sent bz \<and> self bz' = self bz"
proof -
  from assms obtain bz1 bz2 where r: "summary_block w leader bz = Inr (bz1, n)"
    and d: "sc_round_done (bz1\<lparr>SCRoundNumber := 1\<rparr>) = Inr bz2" and c: "next_committee bz2 = Inr (bz', ids)"
    unfolding post_summary_def by (auto split: if_split_asm elim!: bindR_InrE)
  note f = frame_summary_block [OF r]
  from d have d': "1 \<le> wgSyncScRound bz1" "bz2 = bz1\<lparr>SCRoundNumber := 1, wgSyncScRound := wgSyncScRound bz1 - 1\<rparr>"
    by (auto simp: sc_round_done_Inr)
  from next_committee_Inr [OF c] f d' show ?thesis by (auto simp: side_frame_def ids_of_def)
qed

lemma post_meta_Inr:
  assumes "post_meta w leader bz = Inr (bz', ids, n)"
  shows "1 \<le> wgSyncScRound bz \<and> ids = [] \<and>
    side_frame (bz\<lparr>wgSyncScRound := wgSyncScRound bz - 1, SCRoundNumber := SCRoundNumber bz + 1\<rparr>) bz'"
proof -
  from assms obtain bz1 bz2 where
    r: "updateSideChainBCRound w leader 0 bz = Inr bz1"
    and t: "updateSideChainBCTransactionQueueTake bz1 = Inr (bz2, n)" and ids: "ids = []"
    and d: "sc_round_done (bz2\<lparr>BlockType := ''Meta Block'', SCRoundNumber := SCRoundNumber bz2 + 1\<rparr>) = Inr bz'"
    unfolding post_meta_def by (auto simp: bindR_Inr_iff)
  have "side_frame bz bz2" using frame_round [OF r] frame_side_take [OF t] side_frame_trans by blast
  then show ?thesis using d ids by (auto simp: sc_round_done_Inr side_frame_def)
qed

definition next_sc_round :: "ChainBoost \<Rightarrow> int \<Rightarrow> int" where
  "next_sc_round bz r = (if r = sc_rounds_per_epoch bz then 1 else r + 1)"

lemma confirmed_round_lib:
  assumes "SideChainRootPostNewRound w leader msg bz = Inr (bz', waits)"
  shows "1 \<le> wgSyncScRound bz \<and> wgSyncScRound bz' = wgSyncScRound bz - 1 \<and>
    SCRoundNumber bz' = next_sc_round bz (ltr_SCRoundNumber msg) \<and>
    nodes bz' = nodes bz \<and> cfg bz' = cfg bz \<and> wgSyncMcRound bz' = wgSyncMcRound bz \<and>
    MCRoundNumber bz' = MCRoundNumber bz \<and> HasLeader bz' = HasLeader bz \<and> NextSideChainLeader bz' \<in> ids_of bz \<and> self bz' = self bz \<and>
    (if ltr_SCRoundNumber msg = sc_rounds_per_epoch bz
     then CommitteeNodesTreeNodeID bz' = take (nat (CommitteeWindow (cfg bz) - 1)) (CommitteeNodesTreeNodeID bz) \<and>
       int (length (CommitteeNodesTreeNodeID bz')) = CommitteeWindow (cfg bz) - 1 \<and> set (CommitteeNodesTreeNodeID bz') \<subseteq> ids_of bz \<and>
       NextSideChainLeader bz' = hd (CommitteeNodesTreeNodeID bz')
     else CommitteeNodesTreeNodeID bz' = CommitteeNodesTreeNodeID bz \<and> NextSideChainLeader bz' = NextSideChainLeader bz) \<and>
    (\<exists>ids n. sent bz' = sent bz @ [(NextSideChainLeader bz', MsgRtL \<lparr>rtl_SCRoundNumber = SCRoundNumber bz',
       rtl_CommitteeNodesTreeNodeID = ids, rtl_blocksize = n\<rparr>)] \<and>
       (ltr_SCRoundNumber msg = sc_rounds_per_epoch bz \<longrightarrow> ids = CommitteeNodesTreeNodeID bz'))"
proof -
  let ?bz = "bz\<lparr>SCRoundNumber := ltr_SCRoundNumber msg, SCSig := ltr_SCSig msg\<rparr>"
  have N: "sc_rounds_per_epoch ?bz = sc_rounds_per_epoch bz" by (simp add: sc_rounds_per_epoch_def)
  from assms obtain bz1 ids n where
    run: "(if sc_rounds_per_epoch bz = ltr_SCRoundNumber msg then post_summary w leader ?bz else post_meta w leader ?bz) = Inr (bz1, ids, n)"
    and found: "Search (nodes bz) (NextSideChainLeader bz1) \<noteq> None"
    and bz': "bz' = bz1\<lparr>sent := sent bz1 @ [(NextSideChainLeader bz1, MsgRtL \<lparr>rtl_SCRoundNumber = SCRoundNumber bz1,
       rtl_CommitteeNodesTreeNodeID = ids, rtl_blocksize = n\<rparr>)]\<rparr>"
    unfolding SideChainRootPostNewRound_def Let_def N
    by (auto simp: bindR_Inr_iff SendTo_def split: if_splits option.splits)
  have nxt: "NextSideChainLeader bz1 \<in> ids_of bz" using found by (auto simp: Search_None_iff ids_of_def)
  show ?thesis
  proof (cases "ltr_SCRoundNumber msg = sc_rounds_per_epoch bz")
    case True
    then have "post_summary w leader ?bz = Inr (bz1, ids, n)" using run by simp
    from post_summary_Inr [OF this] nxt True show ?thesis
      unfolding bz' by (auto simp: next_sc_round_def ids_of_def)
  next
    case False
    then have "post_meta w leader ?bz = Inr (bz1, ids, n)" using run by auto
    from post_meta_Inr [OF this] nxt False show ?thesis
      unfolding bz' by (auto simp: next_sc_round_def side_frame_def ids_of_def)
  qed
qed

text \<open>
  a confirmed side chain round needs a positive \<open>wgSyncScRound\<close>, which it decrements; it moves
  to the next round, or to round 1 after the last of the epoch, tells the next leader so, and
  only then changes the committee: to the first \<open>CommitteeWindow - 1\<close> members, with the first of
  them as the next leader. Otherwise the committee and the leader stay.
\<close>

theorem confirmed_round_effect:
  assumes "SideChainRootPostNewRound w leader msg bz = Inr (bz', waits)"
  shows "1 \<le> wgSyncScRound bz \<and> wgSyncScRound bz' = wgSyncScRound bz - 1 \<and>
    SCRoundNumber bz' = next_sc_round bz (ltr_SCRoundNumber msg) \<and>
    (if ltr_SCRoundNumber msg = sc_rounds_per_epoch bz
     then CommitteeNodesTreeNodeID bz' = take (nat (CommitteeWindow (cfg bz) - 1)) (CommitteeNodesTreeNodeID bz) \<and>
       int (length (CommitteeNodesTreeNodeID bz')) = CommitteeWindow (cfg bz) - 1 \<and>
       NextSideChainLeader bz' = hd (CommitteeNodesTreeNodeID bz')
     else CommitteeNodesTreeNodeID bz' = CommitteeNodesTreeNodeID bz \<and> NextSideChainLeader bz' = NextSideChainLeader bz) \<and>
    (\<exists>ids n. sent bz' = sent bz @ [(NextSideChainLeader bz', MsgRtL \<lparr>rtl_SCRoundNumber = SCRoundNumber bz',
       rtl_CommitteeNodesTreeNodeID = ids, rtl_blocksize = n\<rparr>)] \<and>
       (ltr_SCRoundNumber msg = sc_rounds_per_epoch bz \<longrightarrow> ids = CommitteeNodesTreeNodeID bz'))"
  using confirmed_round_lib [OF assms] by (auto simp: next_sc_round_def)

section \<open>The leader's round\<close>

definition server_of :: "TreeNode list \<Rightarrow> TreeNodeID \<Rightarrow> string" where
  "server_of ns a = (case Search ns a of None \<Rightarrow> [] | Some b \<Rightarrow> nd_Server b)"

lemma committee_servers_ok:
  "set as \<subseteq> nd_ID ` set ns \<Longrightarrow> committee_servers ns as = Inr (map (server_of ns) as)"
proof (induction as)
  case Nil
  then show ?case by simp
next
  case (Cons a as)
  then have "Search ns a \<noteq> None" by (simp add: Search_None_iff)
  then show ?case using Cons by (auto simp: server_of_def)
qed

text \<open>The committee the leader works with: the one it is sent in round 1, else its own.\<close>

definition leader_committee :: "RtLSideChainNewRound \<Rightarrow> ChainBoost \<Rightarrow> TreeNodeID list" where
  "leader_committee msg bz =
    (if rtl_SCRoundNumber msg = 1 then rtl_CommitteeNodesTreeNodeID msg else CommitteeNodesTreeNodeID bz)"

text \<open>
  a leader that finds at least \<open>CommitteeWindow - 1\<close>, and at least two, known members in its
  committee splits the first \<open>CommitteeWindow - 1\<close> of them into at most \<open>NbrSubTrees\<close> subtrees, the
  first member being the root of each and every other one in exactly one of them. The signing
  starts when the first member is the leader itself and the parameters are sound.
\<close>

theorem leader_splits_committee:
  assumes "3 \<le> CommitteeWindow (cfg bz)"
    and "CommitteeWindow (cfg bz) - 1 \<le> int (length (leader_committee msg bz))"
    and "set (leader_committee msg bz) \<subseteq> ids_of bz" and "1 \<le> NbrSubTrees (cfg bz)" and "0 \<le> rtl_blocksize msg"
  shows "\<exists>bz' p' ts. let servers = map (server_of (nodes bz)) (take (nat (CommitteeWindow (cfg bz) - 1)) (leader_committee msg bz)) in
    SideChainLeaderPreNewRound nm msg p bz =
      Inr (bz', p', nm (hd servers) = nd_Name (self bz) \<and> checkIntegrity p' = None) \<and>
    cSubTrees p' = Some ts \<and> cMsg p' = Some (255 # replicate (nat (rtl_blocksize msg)) 0) \<and>
    int (length ts) = min (NbrSubTrees (cfg bz)) (CommitteeWindow (cfg bz) - 2) \<and>
    (\<forall>t \<in> set ts. Roster t = servers \<and> RosterIndex (Root t) = 0) \<and>
    concat (map non_root ts) = map int [1..<nat (CommitteeWindow (cfg bz) - 1)]"
proof -
  let ?W = "CommitteeWindow (cfg bz)" and ?c = "leader_committee msg bz"
  let ?ids = "take (nat (?W - 1)) ?c"
  define servers where "servers = map (server_of (nodes bz)) ?ids"
  let ?t = "\<lparr>Roster = servers, Root = RNode 0 []\<rparr>"
  have len: "int (length servers) = ?W - 1" using assms(1,2) by (simp add: servers_def)
  then have ne: "servers \<noteq> []" using assms(1) by auto
  have sub: "set ?ids \<subseteq> nd_ID ` set (nodes bz)" by (rule order_trans [OF set_take_subset assms(3) [unfolded ids_of_def]])
  note servers = committee_servers_ok [OF sub, folded servers_def]
  have slice: "committee_slice ?W ?c = Inr ?ids" using assms(1,2) by (simp add: committee_slice_Inr)
  have logs: "rtl_SCRoundNumber msg = 1 \<Longrightarrow> \<exists>xs. log_names (nodes bz) (rtl_CommitteeNodesTreeNodeID msg) = Inr xs"
    using assms(3) log_names_ok by (simp add: leader_committee_def ids_of_def)
  have "1 < length (Roster ?t)" "0 \<le> RosterIndex (Root ?t)" "RosterIndex (Root ?t) < int (length (Roster ?t))"
    using len assms(1) by auto
  from genTrees_closed [OF this assms(4)] obtain ts q where ts: "genTrees ?t (NbrSubTrees (cfg bz)) = Inr ts"
    and n: "int (length ts) = min (NbrSubTrees (cfg bz)) (int (length servers) - 1)"
    and cc: "concat (map non_root ts) = from_root (int (length servers)) 0"
    and "\<forall>st \<in> set ts. st = star servers 0 (non_root st) \<and> length (non_root st) \<in> {q, q + 1}"
    unfolding tree.select_convs rtree.sel by blast
  then have each: "\<And>st. st \<in> set ts \<Longrightarrow> st = star servers 0 (non_root st)" by blast
  have n0: "0 < length ts" using n len assms(1,4) by linarith
  then obtain t ts' where tts: "ts = t # ts'" by (cases ts) auto
  have t: "ServerIdentity t (Root t) = hd servers"
  proof -
    have "t = star servers 0 (non_root t)" by (rule each) (simp add: tts)
    then have "Roster t = servers" "RosterIndex (Root t) = 0" using star_fields(1,2) by metis+
    then show ?thesis using ne by (simp add: ServerIdentity_def hd_conv_nth)
  qed
  let ?block = "255 # replicate (nat (rtl_blocksize msg)) 0"
  let ?p1 = "p\<lparr>cSubTrees := Some ts, cMsg := Some ?block\<rparr>"
  have root: "IsCommitteeRoot nm (nd_Name (self bz)) ?p1 = Inr (nd_Name (self bz) = nm (hd servers))"
    by (simp add: IsCommitteeRoot_def tts t)
  have start: "StartCosi nm (nd_Name (self bz)) ?p1 =
      (if nm (hd servers) = nd_Name (self bz) \<and> checkIntegrity ?p1 = None then Inr ?p1
       else Inl (ErrRet (if nm (hd servers) \<noteq> nd_Name (self bz) then ''node must be the root'' else the (checkIntegrity ?p1))))"
    unfolding StartCosi_def root by (cases "checkIntegrity ?p1") simp_all
  have c: "leader_committee msg bz = (if rtl_SCRoundNumber msg = 1 then rtl_CommitteeNodesTreeNodeID msg else CommitteeNodesTreeNodeID bz)"
    by (simp add: leader_committee_def)
  have trees: "NewBlsProtocolTree ?t (NbrSubTrees (cfg bz)) = Inr ts" by (simp add: NewBlsProtocolTree_def ts)
  have run: "\<exists>bz'. SideChainLeaderPreNewRound nm msg p bz =
      Inr (bz', ?p1, nm (hd servers) = nd_Name (self bz) \<and> checkIntegrity ?p1 = None)"
  proof (cases "rtl_SCRoundNumber msg = 1")
    case True
    then obtain xs where "log_names (nodes bz) (rtl_CommitteeNodesTreeNodeID msg) = Inr xs" using logs by blast
    then show ?thesis
      using slice servers ne assms(5) trees start True
      by (simp add: SideChainLeaderPreNewRound_def Let_def c)
  next
    case False
    then show ?thesis
      using slice servers ne assms(5) trees start
      by (simp add: SideChainLeaderPreNewRound_def Let_def c)
  qed
  have fr: "from_root (int (length servers)) 0 = map int [1..<nat (?W - 1)]"
  proof -
    have k: "nat (?W - 1) = Suc (nat (?W - 2))" using assms(1) by simp
    have l: "nat (int (length servers) - 1) = nat (?W - 2)" using len by simp
    show ?thesis unfolding from_root_def l k
      by (rule nth_equalityI) (use len assms(1) in \<open>auto simp: nth_append simp del: upt_Suc\<close>)
  qed
  have "\<forall>t \<in> set ts. Roster t = servers \<and> RosterIndex (Root t) = 0"
    using each star_fields by metis
  moreover have "cSubTrees ?p1 = Some ts" "cMsg ?p1 = Some ?block" by simp_all
  moreover have "int (length ts) = min (NbrSubTrees (cfg bz)) (?W - 2)" using n len by simp
  ultimately show ?thesis using run cc fr unfolding servers_def [symmetric] Let_def by metis
qed

section \<open>Samples\<close>

definition sample_window :: "int \<Rightarrow> ChainBoost" where
  "sample_window n = sample_bz\<lparr>cfg := sample_cfg\<lparr>CommitteeWindow := n, SimState := 2\<rparr>, wgSyncScRound := 3\<rparr>"

definition sample_draws :: world where
  "sample_draws = sample_world\<lparr>draws := (\<lambda>k. if k = 0 then 2 else 1)\<rparr>"

lemmas sample_side_defs = sample_window_def sample_draws_def sample_bz_def sample_cfg_def sample_nodes_def sample_world_def

lemma sample_drawn: "drawn_index sample_draws 3 k = (if k = 0 then 2 else 1)"
  by (simp add: drawn_index_def sample_side_defs int_of_u64_def abs_via_float_exact go_rem_def go_quot_def)

theorem first_committee_witness:
  "(\<exists>bz'. StartSideChainProtocol sample_draws (sample_window 2) = Inr bz' \<and> length (CommitteeNodesTreeNodeID bz') = 2) \<and>
   StartSideChainProtocol sample_draws (sample_window 4) = Inl Loops"
proof -
  have draws: "\<bar>int_of_u64 (draws sample_draws k)\<bar> < 2 ^ 63 - 1024" for k
    by (simp add: sample_side_defs int_of_u64_def)
  have ok: "sendOk sample_draws i" for i by (simp add: sample_side_defs)
  have bz: "nodes (sample_window n) \<noteq> []" "distinct (map nd_ID (nodes (sample_window n)))"
    "CommitteeNodesTreeNodeID (sample_window n) = []" "CommitteeWindow (cfg (sample_window n)) = n"
    "length (nodes (sample_window n)) = 3" for n
    by (simp_all add: sample_side_defs)
  have "all_draws sample_draws 3 = {1, 2}"
    unfolding all_draws_def by (auto simp: sample_drawn image_iff intro: exI [of _ 0] exI [of _ 1])
  then have card: "card (all_draws sample_draws 3) = 2" by simp
  have "\<exists>next rest. StartSideChainProtocol sample_draws (sample_window 2) =
      Inr (sample_window 2\<lparr>CommitteeNodesTreeNodeID := next # rest, NextSideChainLeader := next, BlsMsg := [255],
        sent := sent (sample_window 2) @ [(next, MsgRtL \<lparr>rtl_SCRoundNumber = SCRoundNumber (sample_window 2),
          rtl_CommitteeNodesTreeNodeID = next # rest, rtl_blocksize = 0\<rparr>)]\<rparr>) \<and> int (length (next # rest)) = 2"
    using first_committee [of "sample_window 2", OF _ bz(1,2,3) ok draws] card by (simp add: bz) blast
  moreover have "StartSideChainProtocol sample_draws (sample_window 4) = Inl Loops"
    using first_committee [of "sample_window 4", OF _ bz(1,2,3) ok draws] by (simp add: bz)
  ultimately show ?thesis by auto
qed

definition sample_committee :: "int \<Rightarrow> ChainBoost" where
  "sample_committee n = (sample_window n)\<lparr>CommitteeNodesTreeNodeID := [1, 2, 3], NextSideChainLeader := 1\<rparr>"

lemmas sample_committee_defs = sample_committee_def sample_side_defs ids_of_def

theorem leader_joins_committee_witness:
  "UpdateSideChainCommittee \<lparr>nl_LeaderTreeNodeID = 3, nl_MCRoundNumber = 5\<rparr> (sample_committee 3) =
    Inr (sample_committee 3\<lparr>CommitteeNodesTreeNodeID := [3, 1, 2]\<rparr>)"
  using leader_joins_committee [of "\<lparr>nl_LeaderTreeNodeID = 3, nl_MCRoundNumber = 5\<rparr>" "sample_committee 3"]
  by (simp add: sample_committee_defs)

lemma sample_summary:
  "\<exists>bz' waits. SideChainRootPostNewRound sample_world ''n1'' \<lparr>ltr_NewRound = True, ltr_SCRoundNumber = 30, ltr_SCSig = []\<rparr>
     (sample_committee 3) = Inr (bz', waits)"
  by (simp add: SideChainRootPostNewRound_def Let_def sc_rounds_per_epoch_def post_summary_def summary_block_def
      syncMainChainBCTransactionQueueCollect_def InsertIntoMainChainSyncTxQueue_def storage_due_def updateSideChainBCRound_def
      InsertIntoSideChainRoundTable_def sc_round_done_def next_committee_def committee_slice_def SendTo_def go_quot_def go_rem_def
      sample_committee_defs split: prod.split) blast

theorem confirmed_round_effect_witness:
  "\<exists>bz' waits. SideChainRootPostNewRound sample_world ''n1'' \<lparr>ltr_NewRound = True, ltr_SCRoundNumber = 30, ltr_SCSig = []\<rparr>
     (sample_committee 3) = Inr (bz', waits) \<and> SCRoundNumber bz' = 1 \<and> CommitteeNodesTreeNodeID bz' = [1, 2]"
proof -
  from sample_summary obtain bz' waits where
    run: "SideChainRootPostNewRound sample_world ''n1'' \<lparr>ltr_NewRound = True, ltr_SCRoundNumber = 30, ltr_SCSig = []\<rparr>
     (sample_committee 3) = Inr (bz', waits)" by blast
  have "sc_rounds_per_epoch (sample_committee 3) = 30"
    by (simp add: sc_rounds_per_epoch_def go_quot_def sample_committee_defs)
  moreover have "CommitteeWindow (cfg (sample_committee 3)) = 3" "CommitteeNodesTreeNodeID (sample_committee 3) = [1, 2, 3]"
    by (simp_all add: sample_committee_defs)
  ultimately show ?thesis using confirmed_round_effect [OF run] run by (auto simp: next_sc_round_def)
qed

theorem leader_splits_committee_witness:
  "\<exists>bz' p' ts. SideChainLeaderPreNewRound (\<lambda>s. s) \<lparr>rtl_SCRoundNumber = 2, rtl_CommitteeNodesTreeNodeID = [], rtl_blocksize = 2\<rparr>
      sample_cosi (sample_committee 4) = Inr (bz', p', False) \<and> cSubTrees p' = Some ts \<and>
    concat (map non_root ts) = [1, 2]"
proof -
  let ?msg = "\<lparr>rtl_SCRoundNumber = 2, rtl_CommitteeNodesTreeNodeID = [], rtl_blocksize = 2\<rparr>"
  have "CommitteeWindow (cfg (sample_committee 4)) = 4" "leader_committee ?msg (sample_committee 4) = [1, 2, 3]"
    "NbrSubTrees (cfg (sample_committee 4)) = 1" "nd_Name (self (sample_committee 4)) = ''n1''"
    "hd (map (server_of (nodes (sample_committee 4))) [1, 2, 3]) = ''s1''" "{1, 2, 3} \<subseteq> ids_of (sample_committee 4)"
    by (simp_all add: leader_committee_def server_of_def sample_committee_defs)
  moreover have "map int [1..<nat 3] = [1, 2]" by (simp add: upt_conv_Cons)
  ultimately show ?thesis
    using leader_splits_committee [of "sample_committee 4" ?msg "\<lambda>s. s" sample_cosi] by (auto simp: Let_def)
qed

end
