(* ===== verification/RootProtocol.thy ===== *)
theory RootProtocol
  imports SideProtocol
begin

text \<open>
  The root node's protocol instance: \<open>MainChainProtocol.go\<close> and the cases of \<open>Dispatch\<close>, the
  greeting and the timer of \<open>ChainBoostSimulation.go\<close>. Each goroutine is a worker with the stage it
  has reached; a step is what runs under one of the two locks, or between two blocking points.
\<close>

section \<open>Handlers\<close>

text \<open>
  The condition in front of the old wait for an epoch: \<open>MCRoundNumber - 1 % MCRoundPerEpoch == 0\<close>,
  where the remainder binds stronger. The branch behind it only divides.
\<close>

definition epoch_check :: "ChainBoost \<Rightarrow> fault + unit" where
  "epoch_check bz =
    (if SimState (cfg bz) = 2 \<and> MCRoundNumber bz \<noteq> 1 then
       (if MCRoundPerEpoch (cfg bz) = 0 then Inl DivPanic
        else if MCRoundNumber bz - go_rem 1 (MCRoundPerEpoch (cfg bz)) = 0 \<and> SCRoundDuration (cfg bz) = 0
        then Inl DivPanic else Inr ())
     else Inr ())"

text \<open>\<open>wgSyncScRound.Add(MCRoundDuration / SCRoundDuration)\<close>\<close>

definition add_sc_rounds :: "ChainBoost \<Rightarrow> fault + ChainBoost" where
  "add_sc_rounds bz =
    (if SCRoundDuration (cfg bz) = 0 then Inl DivPanic
     else let n = wgSyncScRound bz + go_quot (MCRoundDuration (cfg bz)) (SCRoundDuration (cfg bz)) in
       if n < 0 then Inl (PanicMsg ''sync: negative WaitGroup counter'') else Inr (bz\<lparr>wgSyncScRound := n\<rparr>))"

text \<open>The first block; the root is its leader.\<close>

definition StartMainChainProtocol :: "world \<Rightarrow> ChainBoost \<Rightarrow> fault + ChainBoost" where
  "StartMainChainProtocol w bz =
     bindR (epoch_check bz) (\<lambda>_.
     bindR (if SimState (cfg bz) = 2 then add_sc_rounds bz else Inr bz) (\<lambda>bz1.
     bindR (updateBCPowerRound w (nd_Name (self bz)) bz1) (\<lambda>bz2.
     bindR (updateMainChainBCTransactionQueueCollect w bz2) (\<lambda>bz3.
     bindR (updateMainChainBCTransactionQueueTake bz3) (\<lambda>bz4.
     readBCAndSendtoOthers w bz4)))))"

text \<open>
  The three outcomes of the conditions of \<open>RootPreNewRound\<close>: a block without leader (Some False),
  one with a leader (Some True), or nothing.
\<close>

definition round_case :: "NewLeader \<Rightarrow> ChainBoost \<Rightarrow> bool option" where
  "round_case msg bz =
    (if nl_LeaderTreeNodeID msg = nd_ID (self bz) \<and> MCRoundNumber bz \<noteq> 1 \<and> HasLeader bz
        \<and> nl_MCRoundNumber msg = MCRoundNumber bz then Some False
     else if nl_MCRoundNumber msg = MCRoundNumber bz \<and> MCRoundNumber bz \<noteq> 1 \<and> HasLeader bz then Some True
     else None)"

text \<open>The block of a round, under \<open>BCLock\<close>.\<close>

definition close_round :: "world \<Rightarrow> bool \<Rightarrow> NewLeader \<Rightarrow> ChainBoost \<Rightarrow> fault + ChainBoost" where
  "close_round w leader msg bz =
    (case Search (nodes bz) (nl_LeaderTreeNodeID msg) of
       None \<Rightarrow> Inl NilPanic
     | Some b \<Rightarrow>
        bindR (updateBCPowerRound w (nd_Name b) bz) (\<lambda>bz1.
        bindR (updateMainChainBCTransactionQueueCollect w bz1) (\<lambda>bz2.
        bindR (if leader then updateMainChainBCTransactionQueueTake bz2 else Inr bz2) (\<lambda>bz3.
        readBCAndSendtoOthers w bz3))))"

text \<open>\<open>wgSyncMcRound.Done()\<close> at the end of \<open>RootPreNewRound\<close>.\<close>

definition mc_round_done :: "ChainBoost \<Rightarrow> fault + ChainBoost" where
  "mc_round_done bz =
    (if SimState (cfg bz) \<noteq> 2 then Inr bz
     else if wgSyncMcRound bz - 1 < 0 then Inl (PanicMsg ''sync: negative WaitGroup counter'')
     else Inr (bz\<lparr>wgSyncMcRound := wgSyncMcRound bz - 1\<rparr>))"

section \<open>Workers\<close>

text \<open>
  \<open>Electing\<close>: the goroutine of a leader message before it has \<open>MCPLock\<close>, with whether the
  message came from the root; \<open>Sleeping\<close>: it sleeps for the round; \<open>WaitSc\<close>, \<open>AddSc\<close>,
  \<open>Closing\<close>: in \<open>RootPreNewRound\<close> before the wait, the addition and the block, with whether the
  round has a leader; \<open>DoneMc\<close>: before the last call of \<open>RootPreNewRound\<close>. \<open>SideSleeping\<close> and
  \<open>SideWaiting\<close>: the goroutine of a confirmed side chain round.
\<close>

datatype worker =
    StartMain
  | StartSide
  | Electing bool NewLeader
  | Sleeping NewLeader
  | WaitSc bool NewLeader
  | AddSc bool NewLeader
  | Closing bool NewLeader
  | DoneMc
  | SideSleeping string LtRSideChainNewRound
  | SideWaiting

text \<open>
  The state: the instance, whose \<open>timers\<close> are those still running, and the two channels, with the
  flag of a message the root sent itself and the name of the sender.
\<close>

record Root =
  rbz :: ChainBoost
  leaderChan :: "(bool \<times> NewLeader) list"
  sideChan :: "(string \<times> LtRSideChainNewRound) list"
  workers :: "worker list"

text \<open>\<open>helloChainBoost\<close> of the root once all nodes have joined.\<close>

definition helloChainBoost :: "ChainBoost \<Rightarrow> fault + ChainBoost \<times> worker list" where
  "helloChainBoost bz =
    (if \<not> (nd_IsRoot (self bz) \<and> BlsCosiStarted bz) then Inr (bz, [])
     else if SimState (cfg bz) = 2 then
       (if SCRoundDuration (cfg bz) = 0 then Inl DivPanic
        else Inr (bz\<lparr>wgSyncMcRound := wgSyncMcRound bz + 1\<rparr>, [StartMain, StartSide]))
     else if SimState (cfg bz) = 1 then Inr (bz, [StartMain])
     else Inl (PanicMsg ''sim state config param is not set correctly''))"

text \<open>\<open>Dispatch\<close> on a leader message.\<close>

definition on_new_leader :: "bool \<Rightarrow> NewLeader \<Rightarrow> ChainBoost \<Rightarrow> ChainBoost \<times> worker list" where
  "on_new_leader fromRoot msg bz =
    (bz\<lparr>NumMCLeader := NumMCLeader bz + 1\<rparr>,
     if nl_MCRoundNumber msg = MCRoundNumber bz \<and> (\<not> HasLeader bz \<or> fromRoot) then [Electing fromRoot msg] else [])"

text \<open>Its goroutine under \<open>MCPLock\<close>.\<close>

definition elect :: "bool \<Rightarrow> NewLeader \<Rightarrow> ChainBoost \<Rightarrow> ChainBoost \<times> worker list" where
  "elect fromRoot msg bz =
    (if HasLeader bz \<and> \<not> fromRoot then (bz, [])
     else (bz\<lparr>HasLeader := True, NumMCLeader := 1\<rparr>, [Sleeping msg]))"

text \<open>\<open>RootPreNewRound\<close> up to its first blocking point.\<close>

definition enter_round :: "NewLeader \<Rightarrow> ChainBoost \<Rightarrow> fault + ChainBoost \<times> worker" where
  "enter_round msg bz =
    (case round_case msg bz of
       None \<Rightarrow> Inr (bz, DoneMc)
     | Some leader \<Rightarrow>
        bindR (if leader \<and> SimState (cfg bz) = 2 then UpdateSideChainCommittee msg bz else Inr bz) (\<lambda>bz1.
        bindR (epoch_check bz1) (\<lambda>_.
        Inr (bz1, if SimState (cfg bz) = 2 then WaitSc leader msg else Closing leader msg))))"

text \<open>\<open>startTimer\<close> when its time is over.\<close>

definition fire_timer :: "int \<Rightarrow> ChainBoost \<Rightarrow> ChainBoost \<times> (bool \<times> NewLeader) list" where
  "fire_timer t bz =
    (if nd_IsRoot (self bz) \<and> MCRoundNumber bz = t \<and> \<not> HasLeader bz
     then (bz\<lparr>HasLeader := True\<rparr>,
           [(True, \<lparr>nl_LeaderTreeNodeID = nd_ID (self bz), nl_MCRoundNumber = MCRoundNumber bz\<rparr>)])
     else (bz, []))"

section \<open>Steps\<close>

text \<open>
  Messages from other nodes carry any round number. The worker that steps is taken out of the list
  and replaced by what it becomes.
\<close>

inductive root_step :: "world \<Rightarrow> Root \<Rightarrow> Root \<Rightarrow> bool" for w :: world where
  arrive_leader: "root_step w s (s\<lparr>leaderChan := leaderChan s @ [(False, msg)]\<rparr>)"
| arrive_side: "root_step w s (s\<lparr>sideChan := sideChan s @ [(name, lmsg)]\<rparr>)"
| dispatch_leader: "leaderChan s = (fr, msg) # rest \<Longrightarrow> on_new_leader fr msg (rbz s) = (bz', new) \<Longrightarrow>
    root_step w s (s\<lparr>rbz := bz', leaderChan := rest, workers := workers s @ new\<rparr>)"
| dispatch_side: "sideChan s = (name, lmsg) # rest \<Longrightarrow>
    root_step w s (s\<lparr>sideChan := rest, workers := workers s @ [SideSleeping name lmsg]\<rparr>)"
| elect: "workers s = us @ Electing fr msg # vs \<Longrightarrow> elect fr msg (rbz s) = (bz', new) \<Longrightarrow>
    root_step w s (s\<lparr>rbz := bz', workers := us @ new @ vs\<rparr>)"
| enter: "workers s = us @ Sleeping msg # vs \<Longrightarrow> enter_round msg (rbz s) = Inr (bz', x) \<Longrightarrow>
    root_step w s (s\<lparr>rbz := bz', workers := us @ x # vs\<rparr>)"
| wait_sc: "workers s = us @ WaitSc leader msg # vs \<Longrightarrow> wgSyncScRound (rbz s) = 0 \<Longrightarrow>
    root_step w s (s\<lparr>workers := us @ AddSc leader msg # vs\<rparr>)"
| add_sc: "workers s = us @ AddSc leader msg # vs \<Longrightarrow> add_sc_rounds (rbz s) = Inr bz' \<Longrightarrow>
    root_step w s (s\<lparr>rbz := bz', workers := us @ Closing leader msg # vs\<rparr>)"
| close: "workers s = us @ Closing leader msg # vs \<Longrightarrow> close_round w leader msg (rbz s) = Inr bz' \<Longrightarrow>
    root_step w s (s\<lparr>rbz := bz', workers := us @ DoneMc # vs\<rparr>)"
| done_mc: "workers s = us @ DoneMc # vs \<Longrightarrow> mc_round_done (rbz s) = Inr bz' \<Longrightarrow>
    root_step w s (s\<lparr>rbz := bz', workers := us @ vs\<rparr>)"
| timer: "timers (rbz s) = ts @ t # ts' \<Longrightarrow> fire_timer t (rbz s\<lparr>timers := ts @ ts'\<rparr>) = (bz', msgs) \<Longrightarrow>
    root_step w s (s\<lparr>rbz := bz', leaderChan := leaderChan s @ msgs\<rparr>)"
| side_post: "workers s = us @ SideSleeping name lmsg # vs \<Longrightarrow>
    SideChainRootPostNewRound w name lmsg (rbz s) = Inr (bz', waits) \<Longrightarrow>
    root_step w s (s\<lparr>rbz := bz', workers := us @ (if waits then [SideWaiting] else []) @ vs\<rparr>)"
| side_resume: "workers s = us @ SideWaiting # vs \<Longrightarrow> wgSyncMcRound (rbz s) = 0 \<Longrightarrow>
    root_step w s (s\<lparr>rbz := sc_round_resumed (rbz s), workers := us @ vs\<rparr>)"
| start_main: "workers s = us @ StartMain # vs \<Longrightarrow> StartMainChainProtocol w (rbz s) = Inr bz' \<Longrightarrow>
    root_step w s (s\<lparr>rbz := bz', workers := us @ vs\<rparr>)"
| start_side: "workers s = us @ StartSide # vs \<Longrightarrow> StartSideChainProtocol w (rbz s) = Inr bz' \<Longrightarrow>
    root_step w s (s\<lparr>rbz := bz', workers := us @ vs\<rparr>)"

text \<open>The state after the greeting, with all nodes and the signing protocol ready.\<close>

definition root_start :: "Root \<Rightarrow> bool" where
  "root_start s \<longleftrightarrow> (\<exists>bz bz' ws. helloChainBoost bz = Inr (bz', ws) \<and> nd_IsRoot (self bz) \<and> BlsCosiStarted bz \<and>
     MCRoundNumber bz = 1 \<and> timers bz = [] \<and> s = \<lparr>rbz = bz', leaderChan = [], sideChan = [], workers = ws\<rparr>)"

end
