(* ===== verification/NodeProtocol.thy ===== *)
theory NodeProtocol
  imports RootProtocol BlsSignature
begin

text \<open>
  What every node does: \<open>Start\<close> and the other cases of \<open>Dispatch\<close> in \<open>ChainBoostSimulation.go\<close>,
  and the leader election \<open>MainChainCheckLeadership\<close> of \<open>MainChainProtocol.go\<close>. The VRF is a
  parameter.
\<close>

section \<open>Joining\<close>

text \<open>The protocol starts at the root; \<open>MCLeader\<close> is fresh.\<close>

definition StartChainBoost :: "world \<Rightarrow> ChainBoost \<Rightarrow> fault + ChainBoost \<times> worker list" where
  "StartChainBoost w bz =
     bindR (finalMainChainBCInitialization w bz) (\<lambda>bz1.
     helloChainBoost (bz1\<lparr>HasLeader := False, BlsCosiStarted := True\<rparr>))"

text \<open>
  The configuration a node takes from the greeting: all fields but \<open>SimulationRounds\<close>, which
  \<open>Dispatch\<close> does not copy.
\<close>

definition on_hello :: "HelloChainBoost \<Rightarrow> string BlsCosi \<Rightarrow> ChainBoost \<Rightarrow> fault + string BlsCosi \<times> ChainBoost" where
  "on_hello msg p bz =
    (let bz1 = bz\<lparr>cfg := msg\<lparr>SimulationRounds := SimulationRounds (cfg bz)\<rparr>\<rparr>;
         p1 = p\<lparr>cThreshold := Threshold msg\<rparr>
     in bindR (if 0 < NbrSubTrees msg then SetNbrSubTree (NbrSubTrees msg) p1 else Inr p1) (\<lambda>p2. Inr (p2, bz1)))"

section \<open>Leader election\<close>

text \<open>\<open>binary.Read\<close> of a little endian \<open>uint64\<close> from the 64 bytes of the VRF output.\<close>

fun le_u64 :: "nat \<Rightarrow> bytes \<Rightarrow> u64" where
  "le_u64 0 bs = 0"
| "le_u64 (Suc n) [] = 0"
| "le_u64 (Suc n) (b # bs) = ucast b + 256 * le_u64 n bs"

lemma le_u64_Nil [simp]: "le_u64 n [] = 0"
  by (cases n) auto

lemma le_u64_numeral [simp]: "le_u64 (numeral k) (b # bs) = ucast b + 256 * le_u64 (pred_numeral k) bs"
  by (simp add: numeral_eq_Suc)

definition vrf_value :: "world \<Rightarrow> u64 \<Rightarrow> int \<Rightarrow> int" where
  "vrf_value w v maxSize = maxSize - abs_via_float w (go_rem (int_of_u64 v) maxSize)"

text \<open>
  \<open>prove\<close> and \<open>verify\<close> are the two operations of the VRF; their success flags are dropped. An error
  of \<open>SendTo\<close> is dropped as well.
\<close>

definition MainChainCheckLeadership :: "world \<Rightarrow> (bytes \<Rightarrow> 'p) \<Rightarrow> ('p \<Rightarrow> bytes \<Rightarrow> bytes) \<Rightarrow> NewRound \<Rightarrow> ChainBoost \<Rightarrow>
    fault + ChainBoost" where
  "MainChainCheckLeadership w prove verify msg bz =
    (let toBeHashed = map of_char (nr_Seed msg);
         vrfOutput = verify (prove toBeHashed) toBeHashed
     in if nr_MaxFileSize msg = 0 then Inl DivPanic
        else if vrf_value w (le_u64 8 vrfOutput) (nr_MaxFileSize msg) < nr_Power msg then
          (case SendTo w (nd_ID (hd (nodes bz))) (MsgNewLeader \<lparr>nl_LeaderTreeNodeID = nd_ID (self bz),
                  nl_MCRoundNumber = MCRoundNumber bz\<rparr>) bz of
             None \<Rightarrow> Inr bz | Some bz' \<Rightarrow> Inr bz')
        else Inr bz)"

text \<open>\<open>Dispatch\<close> on a new round: the goroutine of the election reads the new number.\<close>

definition on_new_round :: "world \<Rightarrow> (bytes \<Rightarrow> 'p) \<Rightarrow> ('p \<Rightarrow> bytes \<Rightarrow> bytes) \<Rightarrow> NewRound \<Rightarrow> ChainBoost \<Rightarrow> fault + ChainBoost" where
  "on_new_round w prove verify msg bz =
     MainChainCheckLeadership w prove verify msg (bz\<lparr>MCRoundNumber := MCRoundNumber bz + 1\<rparr>)"

lemma vrf_value_exact:
  assumes "0 < maxSize" and "maxSize < 2 ^ 53"
  shows "vrf_value w v maxSize = maxSize - \<bar>go_rem (int_of_u64 v) maxSize\<bar>"
    and "\<bar>go_rem (int_of_u64 v) maxSize\<bar> < maxSize"
proof -
  show r: "\<bar>go_rem (int_of_u64 v) maxSize\<bar> < maxSize" using assms(1) by (simp add: go_rem_abs)
  then have "\<bar>go_rem (int_of_u64 v) maxSize\<bar> < 2 ^ 53" using assms(2) by linarith
  then show "vrf_value w v maxSize = maxSize - \<bar>go_rem (int_of_u64 v) maxSize\<bar>"
    by (simp add: vrf_value_def abs_via_float_exact)
qed

text \<open>
  C34: (bounds) A node announces itself as the leader of the next round exactly when the remainder of
  its VRF value is above the largest file size less its power: of the remainders \<open>0, ..., M - 1\<close>
  of a maximal file size \<open>M\<close> those are \<open>Power - 1\<close>, so a power of one never wins, and a power above
  the largest file size always does.
\<close>

theorem leader_election:
  assumes "0 < nr_MaxFileSize msg" and "nr_MaxFileSize msg < 2 ^ 53" and "\<And>i. sendOk w i"
  shows "let M = nr_MaxFileSize msg; P = nr_Power msg; r = MCRoundNumber bz + 1;
      v = le_u64 8 (verify (prove (map of_char (nr_Seed msg))) (map of_char (nr_Seed msg)));
      sent' = (if M - P < \<bar>go_rem (int_of_u64 v) M\<bar>
               then sent bz @ [(nd_ID (hd (nodes bz)), MsgNewLeader \<lparr>nl_LeaderTreeNodeID = nd_ID (self bz), nl_MCRoundNumber = r\<rparr>)]
               else sent bz)
    in on_new_round w prove verify msg bz = Inr (bz\<lparr>MCRoundNumber := r, sent := sent'\<rparr>) \<and>
       0 \<le> \<bar>go_rem (int_of_u64 v) M\<bar> \<and> \<bar>go_rem (int_of_u64 v) M\<bar> < M \<and>
       card {x \<in> {0..<M}. M - P < x} = nat (min (P - 1) M)"
proof -
  let ?M = "nr_MaxFileSize msg" and ?P = "nr_Power msg"
  have "{x \<in> {0..<?M}. ?M - ?P < x} = {max 0 (?M - ?P + 1)..<?M}" by auto
  then have "card {x \<in> {0..<?M}. ?M - ?P < x} = nat (min (?P - 1) ?M)"
    using assms(1) by (simp add: max_def min_def)
  moreover have "?M - \<bar>x\<bar> < ?P \<longleftrightarrow> ?M - ?P < \<bar>x\<bar>" for x by auto
  ultimately show ?thesis
    using assms vrf_value_exact [OF assms(1,2)]
    by (simp add: Let_def on_new_round_def MainChainCheckLeadership_def SendTo_def)
qed

definition sample_round :: "int \<Rightarrow> NewRound" where
  "sample_round p = \<lparr>nr_Seed = ''seed'', nr_Power = p, nr_MaxFileSize = 100\<rparr>"

lemma leader_election_witness:
  "on_new_round sample_world (\<lambda>b. b) (\<lambda>p b. [44, 1]) (sample_round 56) sample_bz = Inr (sample_bz\<lparr>MCRoundNumber := 2\<rparr>) \<and>
   on_new_round sample_world (\<lambda>b. b) (\<lambda>p b. [255]) (sample_round 56) sample_bz =
     Inr (sample_bz\<lparr>MCRoundNumber := 2, sent := [(1, MsgNewLeader \<lparr>nl_LeaderTreeNodeID = 1, nl_MCRoundNumber = 2\<rparr>)]\<rparr>)"
proof -
  have v: "le_u64 8 [44, 1] = 300" "le_u64 8 [255] = 255" by simp_all
  have i: "int_of_u64 300 = 300" "int_of_u64 255 = 255" by (simp_all add: int_of_u64_def)
  have q: "go_quot 300 100 = 3" "go_quot 255 100 = 2" by (simp_all add: go_quot_nonneg)
  have bz: "sent sample_bz = []" "nd_ID (hd (nodes sample_bz)) = 1" "nd_ID (self sample_bz) = 1" "MCRoundNumber sample_bz = 1"
    by (simp_all add: sample_bz_def sample_nodes_def)
  have ok: "sendOk sample_world j" for j by (simp add: sample_world_def)
  have m: "nr_MaxFileSize (sample_round 56) = 100" "nr_Power (sample_round 56) = 56" by (simp_all add: sample_round_def)
  have keep: "sample_bz\<lparr>MCRoundNumber := 2, sent := []\<rparr> = sample_bz\<lparr>MCRoundNumber := 2\<rparr>"
    by (simp add: sample_bz_def)
  note e = leader_election [of "sample_round 56" sample_world sample_bz "\<lambda>p b. v" "\<lambda>b. b" for v,
      unfolded Let_def m bz, simplified ok]
  show ?thesis using e [of "[44, 1]"] e [of "[255]"] by (simp add: v i q go_rem_def keep)
qed

section \<open>Confirming a side chain round\<close>

text \<open>
  \<open>Dispatch\<close> on a final signature. None: \<open>Dispatch\<close> returns without error.
\<close>

definition on_final_signature :: "world \<Rightarrow> (string, 'm, 'g) kyber \<Rightarrow> string BlsCosi \<Rightarrow> bytes \<Rightarrow> ChainBoost \<Rightarrow>
    fault + ChainBoost option" where
  "on_final_signature w ky p sig bz =
    (if simulationDone bz then Inr None
     else case cSubTrees p of
       Some (t # ts) \<Rightarrow>
         (case Verify ky (int (length (Roster t))) (case cMsg p of None \<Rightarrow> [] | Some m \<Rightarrow> m) sig of
            Inl (ErrRet e) \<Rightarrow> Inl (ErrRet ''error in running this round of blscosi'')
          | Inl f \<Rightarrow> Inl f
          | Inr u \<Rightarrow>
              (case SendTo w (nd_ID (hd (nodes bz))) (MsgLtR \<lparr>ltr_NewRound = True,
                      ltr_SCRoundNumber = SCRoundNumber bz, ltr_SCSig = sig\<rparr>) bz of
                 None \<Rightarrow> Inl (ErrRet ''can't send new round msg to root'')
               | Some bz' \<Rightarrow> Inr (Some bz')))
     | _ \<Rightarrow> Inl IndexPanic)"

lemma confirmed_mask:
  assumes "on_final_signature w ky p sig bz = Inr (Some bz')" and "cSubTrees p = Some (t # ts)"
  shows "\<exists>m. GetMask ky sig = Inr m \<and> DefaultThreshold (int (length (Roster t))) \<le> CountEnabled ky m \<and>
    VerifyAggregate ky m (case cMsg p of None \<Rightarrow> [] | Some b \<Rightarrow> b) (take (PointLen ky) sig)"
proof -
  have "\<exists>u. Verify ky (int (length (Roster t))) (case cMsg p of None \<Rightarrow> [] | Some b \<Rightarrow> b) sig = Inr u"
    using assms by (auto simp: on_final_signature_def split: if_split_asm sum.split_asm fault.split_asm)
  then show ?thesis
    by (auto simp: Verify_def VerifyWithPolicy_def Let_def bindR_Inr_iff split: if_split_asm)
qed

text \<open>
  C33: (safety) Whenever two side chain rounds are confirmed by the same committee of \<open>n\<close> servers, a
  server that is not among the \<open>(n - 1) / 3\<close> faulty ones has signed both blocks.
\<close>

theorem confirmations_share_honest_signer:
  assumes "mask_laws ky enabled" and "cSubTrees p = Some (t # ts)" and "cSubTrees q = Some (t' # ts')"
    and "Roster t' = Roster t" and "Roster t \<noteq> []"
    and "on_final_signature w ky p sig bz = Inr (Some bz1)" and "on_final_signature w' ky q sig' bz' = Inr (Some bz2)"
    and "\<And>m. GetMask ky sig = Inr m \<or> GetMask ky sig' = Inr m \<Longrightarrow> enabled m \<subseteq> {0..<int (length (Roster t))}"
    and "F \<subseteq> {0..<int (length (Roster t))}" and "int (card F) \<le> DefaultFaultyThreshold (int (length (Roster t)))"
  shows "\<exists>m m' i. GetMask ky sig = Inr m \<and> GetMask ky sig' = Inr m' \<and> i \<in> enabled m \<inter> enabled m' \<and> i \<notin> F \<and>
    VerifyAggregate ky m (case cMsg p of None \<Rightarrow> [] | Some b \<Rightarrow> b) (take (PointLen ky) sig) \<and>
    VerifyAggregate ky m' (case cMsg q of None \<Rightarrow> [] | Some b \<Rightarrow> b) (take (PointLen ky) sig')"
proof -
  let ?n = "int (length (Roster t))"
  obtain m where m: "GetMask ky sig = Inr m" "DefaultThreshold ?n \<le> CountEnabled ky m"
    "VerifyAggregate ky m (case cMsg p of None \<Rightarrow> [] | Some b \<Rightarrow> b) (take (PointLen ky) sig)"
    using confirmed_mask [OF assms(6,2)] by blast
  obtain m' where m': "GetMask ky sig' = Inr m'" "DefaultThreshold ?n \<le> CountEnabled ky m'"
    "VerifyAggregate ky m' (case cMsg q of None \<Rightarrow> [] | Some b \<Rightarrow> b) (take (PointLen ky) sig')"
    using confirmed_mask [OF assms(7,3)] assms(4) by auto
  have cnt: "CountEnabled ky x = int (card (enabled x))" for x using assms(1) by (simp add: mask_laws_def)
  have "1 \<le> ?n" using assms(5) by (simp add: Suc_le_eq)
  from quorums_intersect_lib [OF this assms(8) assms(8) assms(9) _ _ assms(10), of m m'] m m' cnt
  show ?thesis by fastforce
qed

definition two_messages :: "bytes \<Rightarrow> string BlsCosi" where
  "two_messages msg = sample_cosi\<lparr>cMsg := Some msg\<rparr>"

lemma sample_bits7: "bits8 7 = {0, 1, 2}"
proof -
  have "bits8 m = int ` set (filter (bit m) [0..<8])" for m :: "8 word" by (auto simp: bits8_def)
  then show ?thesis by (simp add: upt_conv_Cons bit_numeral_rec bit_1_iff del: set_filter)
qed

lemma confirmations_share_honest_signer_witness:
  "\<exists>i. i \<in> bits8 7 \<inter> bits8 14 \<and> i \<notin> {1}"
proof -
  have count7: "length (filter (bit (7 :: 8 word)) [0..<8]) = 3" by (simp add: upt_conv_Cons bit_numeral_rec)
  have n: "length (Roster (star [''s1'', ''s2'', ''s3'', ''s4''] 0 [1, 2, 3])) = 4" by (simp add: star_fields)
  have fin: "on_final_signature sample_world sample_kyber (two_messages msg) ([0, 0, 0, 0] @ [m]) sample_bz =
      Inr (Some (sample_bz\<lparr>sent := [(1, MsgLtR \<lparr>ltr_NewRound = True, ltr_SCRoundNumber = 1, ltr_SCSig = [0, 0, 0, 0, m]\<rparr>)]\<rparr>))"
    if "m = 7 \<or> m = 14" for m msg
    using that n count7 count8
    by (auto simp: on_final_signature_def two_messages_def sample_cosi_defs Verify_def VerifyWithPolicy_def GetMask_def
        SendTo_def sample_world_def sample_bz_def sample_nodes_def simp del: upt.simps)
  have mask: "GetMask sample_kyber ([0, 0, 0, 0] @ [m]) = Inr m" for m
    by (simp add: GetMask_def sample_kyber_def)
  have "\<exists>m m' i. GetMask sample_kyber ([0, 0, 0, 0] @ [7]) = Inr m \<and> GetMask sample_kyber ([0, 0, 0, 0] @ [14]) = Inr m' \<and>
      i \<in> bits8 m \<inter> bits8 m' \<and> i \<notin> {1} \<and>
      VerifyAggregate sample_kyber m (case cMsg (two_messages [1]) of None \<Rightarrow> [] | Some b \<Rightarrow> b) (take (PointLen sample_kyber) ([0, 0, 0, 0] @ [7])) \<and>
      VerifyAggregate sample_kyber m' (case cMsg (two_messages [2]) of None \<Rightarrow> [] | Some b \<Rightarrow> b) (take (PointLen sample_kyber) ([0, 0, 0, 0] @ [14]))"
  proof (rule confirmations_share_honest_signer [OF sample_masks _ _ refl _ fin fin])
    fix m assume "GetMask sample_kyber ([0, 0, 0, 0] @ [7]) = Inr m \<or> GetMask sample_kyber ([0, 0, 0, 0] @ [14]) = Inr m"
    then have "m = 7 \<or> m = 14" unfolding mask by auto
    then show "bits8 m \<subseteq> {0..<int (length (Roster (star [''s1'', ''s2'', ''s3'', ''s4''] 0 [1, 2, 3])))}"
      unfolding n by (auto simp: sample_bits sample_bits7)
  qed (auto simp: n two_messages_def sample_cosi_def DefaultFaultyThreshold_def go_quot_def star_fields)
  then show ?thesis unfolding mask by auto
qed

end
