(* ===== verification/RootLeader.thy ===== *)
theory RootLeader
  imports RootProtocol Transition
begin

text \<open>
  Who closes a round: at most one goroutine at a time holds a round, whatever the order of
  messages, timers and goroutines; and the schedule that leaves a round without anybody to close it.
\<close>

section \<open>Claims on a round\<close>

text \<open>A worker or a message that will close round \<open>r\<close>.\<close>

fun claims :: "int \<Rightarrow> worker \<Rightarrow> bool" where
  "claims r (Electing fr m) \<longleftrightarrow> fr \<and> nl_MCRoundNumber m = r"
| "claims r (Sleeping m) \<longleftrightarrow> nl_MCRoundNumber m = r"
| "claims r (WaitSc l m) \<longleftrightarrow> nl_MCRoundNumber m = r"
| "claims r (AddSc l m) \<longleftrightarrow> nl_MCRoundNumber m = r"
| "claims r (Closing l m) \<longleftrightarrow> nl_MCRoundNumber m = r"
| "claims r x \<longleftrightarrow> False"

definition msg_claims :: "int \<Rightarrow> bool \<times> NewLeader \<Rightarrow> bool" where
  "msg_claims r p \<longleftrightarrow> fst p \<and> nl_MCRoundNumber (snd p) = r"

text \<open>A worker that has passed the conditions of \<open>RootPreNewRound\<close> is about the current round.\<close>

fun entered_ok :: "int \<Rightarrow> worker \<Rightarrow> bool" where
  "entered_ok r (WaitSc l m) \<longleftrightarrow> nl_MCRoundNumber m = r"
| "entered_ok r (AddSc l m) \<longleftrightarrow> nl_MCRoundNumber m = r"
| "entered_ok r (Closing l m) \<longleftrightarrow> nl_MCRoundNumber m = r"
| "entered_ok r x \<longleftrightarrow> True"

text \<open>No worker, timer or message of the root is ahead of the round.\<close>

fun not_ahead :: "int \<Rightarrow> worker \<Rightarrow> bool" where
  "not_ahead r (Electing fr m) \<longleftrightarrow> nl_MCRoundNumber m \<le> r"
| "not_ahead r (Sleeping m) \<longleftrightarrow> nl_MCRoundNumber m \<le> r"
| "not_ahead r (WaitSc l m) \<longleftrightarrow> nl_MCRoundNumber m \<le> r"
| "not_ahead r (AddSc l m) \<longleftrightarrow> nl_MCRoundNumber m \<le> r"
| "not_ahead r (Closing l m) \<longleftrightarrow> nl_MCRoundNumber m \<le> r"
| "not_ahead r x \<longleftrightarrow> True"

text \<open>Past the conditions.\<close>

fun inside :: "worker \<Rightarrow> bool" where
  "inside (WaitSc l m) \<longleftrightarrow> True"
| "inside (AddSc l m) \<longleftrightarrow> True"
| "inside (Closing l m) \<longleftrightarrow> True"
| "inside x \<longleftrightarrow> False"

definition round_of :: "Root \<Rightarrow> int" where
  "round_of s = MCRoundNumber (rbz s)"

definition n_claims :: "Root \<Rightarrow> nat" where
  "n_claims s = length (filter (claims (round_of s)) (workers s)) + length (filter (msg_claims (round_of s)) (leaderChan s))"

definition n_starting :: "Root \<Rightarrow> nat" where
  "n_starting s = length (filter (\<lambda>x. x = StartMain) (workers s))"

definition one_claim :: "Root \<Rightarrow> bool" where
  "one_claim s \<longleftrightarrow> n_claims s \<le> 1 \<and> (\<not> HasLeader (rbz s) \<longrightarrow> n_claims s = 0) \<and>
     (\<forall>x \<in> set (workers s). entered_ok (round_of s) x \<and> not_ahead (round_of s) x) \<and>
     (\<forall>(fr, m) \<in> set (leaderChan s). fr \<longrightarrow> nl_MCRoundNumber m \<le> round_of s) \<and>
     (n_starting s = 1 \<and> round_of s = 1 \<or> n_starting s = 0 \<and> 2 \<le> round_of s) \<and>
     (round_of s = 1 \<longrightarrow> (\<forall>x \<in> set (workers s). \<not> inside x))"

section \<open>What the handlers keep\<close>

lemma send_new_round_frame:
  "send_new_round w p s bs bz = Inr bz' \<Longrightarrow> MCRoundNumber bz' = MCRoundNumber bz \<and> HasLeader bz' = HasLeader bz \<and>
   cfg bz' = cfg bz \<and> nodes bz' = nodes bz \<and> self bz' = self bz"
  by (induction w p s bs bz rule: send_new_round.induct) (auto simp: SendTo_def split: option.splits if_splits)

lemma announce_frame:
  "readBCAndSendtoOthers w bz = Inr bz' \<Longrightarrow> MCRoundNumber bz' = MCRoundNumber bz + 1 \<and> cfg bz' = cfg bz \<and>
   (\<not> HasLeader bz' \<or> HasLeader bz' = HasLeader bz \<and> MCRoundNumber bz = SimulationRounds (cfg bz)) \<and>
   (MCRoundNumber bz \<noteq> SimulationRounds (cfg bz) \<longrightarrow> \<not> HasLeader bz')"
  by (auto simp: readBCAndSendtoOthers_def bindR_Inr_iff dest!: send_new_round_frame split: if_splits)

lemma power_frame: "updateBCPowerRound w l bz = Inr bz' \<Longrightarrow> \<exists>db. bz' = bz\<lparr>mc := db\<rparr>"
  by (auto simp: updateBCPowerRound_def Let_def bindR_Inr_iff)

lemma collect_frame:
  "updateMainChainBCTransactionQueueCollect w bz = Inr bz' \<Longrightarrow> MCRoundNumber bz' = MCRoundNumber bz \<and>
   HasLeader bz' = HasLeader bz \<and> cfg bz' = cfg bz \<and> SimState (cfg bz') = SimState (cfg bz) \<and> wgSyncScRound bz' = wgSyncScRound bz"
  by (auto simp: updateMainChainBCTransactionQueueCollect_def Let_def bindR_Inr_iff split: prod.splits)

lemma take_frame:
  "updateMainChainBCTransactionQueueTake bz = Inr bz' \<Longrightarrow> MCRoundNumber bz' = MCRoundNumber bz \<and>
   HasLeader bz' = HasLeader bz \<and> cfg bz' = cfg bz"
  by (auto simp: updateMainChainBCTransactionQueueTake_def Let_def bindR_Inr_iff split: prod.splits)

lemma close_round_frame:
  assumes "close_round w leader msg bz = Inr bz'"
  shows "MCRoundNumber bz' = MCRoundNumber bz + 1 \<and> cfg bz' = cfg bz \<and>
    (MCRoundNumber bz \<noteq> SimulationRounds (cfg bz) \<longrightarrow> \<not> HasLeader bz')"
proof -
  from assms obtain b :: TreeNode and bz1 bz2 bz3 where
    1: "updateBCPowerRound w (nd_Name b) bz = Inr bz1" "updateMainChainBCTransactionQueueCollect w bz1 = Inr bz2"
    and 2: "(if leader then updateMainChainBCTransactionQueueTake bz2 else Inr bz2) = Inr bz3"
    and 3: "readBCAndSendtoOthers w bz3 = Inr bz'"
    unfolding close_round_def
    by (auto split: option.split_asm elim!: bindR_InrE simp del: if_split)
  have "MCRoundNumber bz3 = MCRoundNumber bz2 \<and> HasLeader bz3 = HasLeader bz2 \<and> cfg bz3 = cfg bz2"
    using 2 by (cases leader) (auto dest: take_frame)
  with power_frame [OF 1(1)] collect_frame [OF 1(2)] announce_frame [OF 3] show ?thesis by auto
qed

lemma start_main_frame:
  assumes "StartMainChainProtocol w bz = Inr bz'"
  shows "MCRoundNumber bz' = MCRoundNumber bz + 1 \<and> cfg bz' = cfg bz \<and>
    (MCRoundNumber bz \<noteq> SimulationRounds (cfg bz) \<longrightarrow> \<not> HasLeader bz')"
proof -
  from assms obtain bz1 bz2 bz3 bz4 where
    0: "(if SimState (cfg bz) = 2 then add_sc_rounds bz else Inr bz) = Inr bz1"
    and 1: "updateBCPowerRound w (nd_Name (self bz)) bz1 = Inr bz2" "updateMainChainBCTransactionQueueCollect w bz2 = Inr bz3"
    and 2: "updateMainChainBCTransactionQueueTake bz3 = Inr bz4"
    and 3: "readBCAndSendtoOthers w bz4 = Inr bz'"
    unfolding StartMainChainProtocol_def by (auto elim!: bindR_InrE simp del: if_split)
  have "MCRoundNumber bz1 = MCRoundNumber bz \<and> HasLeader bz1 = HasLeader bz \<and> cfg bz1 = cfg bz"
    using 0 by (auto simp: add_sc_rounds_def Let_def split: if_splits)
  with power_frame [OF 1(1)] collect_frame [OF 1(2)] take_frame [OF 2] announce_frame [OF 3] show ?thesis by auto
qed

lemma post_frame:
  "SideChainRootPostNewRound w name lmsg bz = Inr (bz', waits) \<Longrightarrow>
   MCRoundNumber bz' = MCRoundNumber bz \<and> HasLeader bz' = HasLeader bz"
  using confirmed_round_lib by blast

lemma update_committee_frame:
  "UpdateSideChainCommittee msg bz = Inr bz' \<Longrightarrow> MCRoundNumber bz' = MCRoundNumber bz \<and> HasLeader bz' = HasLeader bz"
  by (auto simp: UpdateSideChainCommittee_def Let_def bindR_Inr_iff split: option.splits)

lemma enter_round_Inr:
  assumes "enter_round msg bz = Inr (bz', x)"
  shows "MCRoundNumber bz' = MCRoundNumber bz \<and> HasLeader bz' = HasLeader bz \<and>
    (x = DoneMc \<and> (nl_MCRoundNumber msg \<noteq> MCRoundNumber bz \<or> MCRoundNumber bz = 1 \<or> \<not> HasLeader bz) \<or>
     nl_MCRoundNumber msg = MCRoundNumber bz \<and> MCRoundNumber bz \<noteq> 1 \<and> HasLeader bz \<and>
       (\<exists>l. x = WaitSc l msg \<or> x = Closing l msg))"
proof (cases "round_case msg bz")
  case None
  then have "bz' = bz" "x = DoneMc" using assms by (auto simp: enter_round_def)
  moreover have "nl_MCRoundNumber msg \<noteq> MCRoundNumber bz \<or> MCRoundNumber bz = 1 \<or> \<not> HasLeader bz"
    using None by (auto simp: round_case_def split: if_split_asm)
  ultimately show ?thesis by simp
next
  case (Some l)
  from assms obtain bz1 where c: "(if l \<and> SimState (cfg bz) = 2 then UpdateSideChainCommittee msg bz else Inr bz) = Inr bz1"
    and x: "bz' = bz1" "x = (if SimState (cfg bz) = 2 then WaitSc l msg else Closing l msg)"
    unfolding enter_round_def Some by (auto elim!: bindR_InrE simp del: if_split)
  have "MCRoundNumber bz1 = MCRoundNumber bz \<and> HasLeader bz1 = HasLeader bz"
    using c by (cases "l \<and> SimState (cfg bz) = 2") (auto dest: update_committee_frame)
  moreover have "nl_MCRoundNumber msg = MCRoundNumber bz \<and> MCRoundNumber bz \<noteq> 1 \<and> HasLeader bz"
    using Some by (auto simp: round_case_def split: if_split_asm)
  moreover have "\<exists>l. x = WaitSc l msg \<or> x = Closing l msg" using x(2) by (auto split: if_split_asm)
  ultimately show ?thesis using x(1) by simp
qed

lemma start_side_frame:
  "StartSideChainProtocol w bz = Inr bz' \<Longrightarrow> MCRoundNumber bz' = MCRoundNumber bz \<and> HasLeader bz' = HasLeader bz"
  by (auto simp: StartSideChainProtocol_def Let_def bindR_Inr_iff SendTo_def
      split: option.split_asm if_split_asm)

section \<open>At most one goroutine closes a round\<close>

lemma not_ahead_no_claim: "not_ahead r x \<Longrightarrow> r < r' \<Longrightarrow> \<not> claims r' x"
  by (cases x) auto

lemma not_ahead_mono: "not_ahead r x \<Longrightarrow> r \<le> r' \<Longrightarrow> not_ahead r' x"
  by (cases x) auto

lemma no_claims_ahead:
  assumes "one_claim s"
  shows "filter (claims (round_of s + 1)) (workers s) = []"
    and "filter (msg_claims (round_of s + 1)) (leaderChan s) = []"
  using assms not_ahead_no_claim [of "round_of s" _ "round_of s + 1"]
  by (auto simp: one_claim_def filter_empty_conv msg_claims_def)

lemma not_inside_ok: "\<not> inside x \<Longrightarrow> entered_ok r x"
  by (cases x) auto

lemma inside_unclaimed: "inside x \<Longrightarrow> entered_ok r x \<Longrightarrow> claims r x"
  by (cases x) auto

lemmas claim_defs = one_claim_def n_claims_def n_starting_def round_of_def msg_claims_def

lemma one_claim_same_round:
  assumes "one_claim s" and "MCRoundNumber bz' = MCRoundNumber (rbz s)" and "HasLeader bz' = HasLeader (rbz s)"
  shows "one_claim (s\<lparr>rbz := bz'\<rparr>)"
  using assms by (simp add: claim_defs)

text \<open>The next round: nothing claims it, and nobody is inside \<open>RootPreNewRound\<close>.\<close>

lemma one_claim_next_round:
  assumes inv: "one_claim s" and r: "MCRoundNumber bz' = MCRoundNumber (rbz s) + 1"
    and ws: "workers s = us @ x # vs"
    and start: "if x = StartMain then True else \<exists>l m. x = Closing l m"
    and new: "new = [] \<or> new = [DoneMc]"
  shows "one_claim (s\<lparr>rbz := bz', workers := us @ new @ vs\<rparr>)"
proof -
  let ?s = "s\<lparr>rbz := bz', workers := us @ new @ vs\<rparr>"
  have none: "filter (claims (round_of s + 1)) (us @ vs) = []" "filter (msg_claims (round_of s + 1)) (leaderChan s) = []"
    using no_claims_ahead [OF inv] ws by (auto split: if_splits)
  have pos: "1 \<le> round_of s" using inv by (auto simp: one_claim_def)
  have ok: "entered_ok (round_of s) y \<and> not_ahead (round_of s) y" if "y \<in> set (us @ vs)" for y
    using inv ws that by (auto simp: one_claim_def)
  have out: "entered_ok (round_of s + 1) y" if y: "y \<in> set (us @ vs)" for y
  proof (rule not_inside_ok, cases "x = StartMain")
    case True
    then have "round_of s = 1" using inv ws by (auto simp: one_claim_def n_starting_def)
    then show "\<not> inside y" using inv y ws by (auto simp: one_claim_def)
  next
    case False
    then obtain l m where x: "x = Closing l m" using start by auto
    then have "claims (round_of s) x" using inv ws by (auto simp: one_claim_def)
    moreover have "n_claims s \<le> 1" using inv by (simp add: one_claim_def)
    ultimately have "filter (claims (round_of s)) (us @ vs) = []" using ws by (simp add: n_claims_def)
    then have "\<not> claims (round_of s) y" using y by (auto simp: filter_empty_conv)
    then show "\<not> inside y" using inside_unclaimed ok [OF y] by blast
  qed
  have start0: "filter (\<lambda>y. y = StartMain) (us @ vs) = []"
  proof (cases "x = StartMain")
    case True
    then show ?thesis using inv ws by (auto simp: one_claim_def n_starting_def)
  next
    case False
    then obtain l m where "x = Closing l m" using start by auto
    then have "round_of s \<noteq> 1" using inv ws by (auto simp: one_claim_def)
    then show ?thesis using inv ws by (auto simp: one_claim_def n_starting_def split: if_splits)
  qed
  have r': "round_of ?s = round_of s + 1" using r by (simp add: round_of_def)
  have "n_claims ?s = 0" using none new by (auto simp: n_claims_def r')
  moreover have "n_starting ?s = 0" using start0 new by (auto simp: n_starting_def)
  moreover have "\<forall>y \<in> set (workers ?s). entered_ok (round_of ?s) y \<and> not_ahead (round_of ?s) y"
    using new out ok not_ahead_mono [of "round_of s" _ "round_of s + 1"] unfolding r' by auto
  moreover have "\<forall>(fr, m) \<in> set (leaderChan ?s). fr \<longrightarrow> nl_MCRoundNumber m \<le> round_of ?s"
    using inv unfolding r' by (force simp: one_claim_def)
  ultimately show ?thesis using pos r' unfolding one_claim_def by simp
qed

text \<open>A worker replaced by one with the same claim or none.\<close>

lemma one_claim_replace:
  assumes inv: "one_claim s" and ws: "workers s = us @ x # vs" and kind: "x \<noteq> StartMain" "StartMain \<notin> set new"
    and claim: "length (filter (claims (round_of s)) new) \<le> (if claims (round_of s) x then 1 else 0)"
    and ok: "\<forall>y \<in> set new. entered_ok (round_of s) y \<and> not_ahead (round_of s) y"
    and first: "round_of s = 1 \<Longrightarrow> \<forall>y \<in> set new. \<not> inside y"
    and bz: "MCRoundNumber bz' = MCRoundNumber (rbz s)" "HasLeader bz' = HasLeader (rbz s)"
  shows "one_claim (s\<lparr>rbz := bz', workers := us @ new @ vs\<rparr>)"
proof -
  let ?s = "s\<lparr>rbz := bz', workers := us @ new @ vs\<rparr>"
  have r: "round_of ?s = round_of s" using bz by (simp add: round_of_def)
  have "n_claims ?s \<le> n_claims s" using claim ws unfolding n_claims_def r by (simp split: if_splits)
  moreover have "n_starting ?s = n_starting s"
    using ws kind by (auto simp: n_starting_def filter_empty_conv)
  moreover have "\<forall>y \<in> set (us @ new @ vs). entered_ok (round_of s) y \<and> not_ahead (round_of s) y"
    using inv ws ok by (auto simp: one_claim_def)
  moreover have "round_of s = 1 \<longrightarrow> (\<forall>y \<in> set (us @ new @ vs). \<not> inside y)"
    using inv ws first by (auto simp: one_claim_def)
  moreover have "n_claims ?s \<le> 1" "\<not> HasLeader bz' \<longrightarrow> n_claims ?s = 0"
    using inv bz calculation(1) by (auto simp: one_claim_def)
  ultimately show ?thesis using inv bz r unfolding one_claim_def by simp
qed

lemma one_claim_elect:
  assumes inv: "one_claim s" and ws: "workers s = us @ Electing fr msg # vs" and e: "elect fr msg (rbz s) = (bz', new)"
  shows "one_claim (s\<lparr>rbz := bz', workers := us @ new @ vs\<rparr>)"
proof (cases "HasLeader (rbz s)")
  case True
  have "MCRoundNumber bz' = MCRoundNumber (rbz s)" "HasLeader bz' = HasLeader (rbz s)"
    and "new = (if fr then [Sleeping msg] else [])"
    using e True by (auto simp: elect_def split: if_split_asm)
  moreover have "not_ahead (round_of s) (Electing fr msg)" using inv ws by (auto simp: one_claim_def)
  ultimately show ?thesis by (intro one_claim_replace [OF inv ws]) auto
next
  case False
  have bz: "MCRoundNumber bz' = MCRoundNumber (rbz s)" "HasLeader bz'" and new: "new = [Sleeping msg]"
    using e False by (auto simp: elect_def)
  let ?s = "s\<lparr>rbz := bz', workers := us @ new @ vs\<rparr>"
  have r: "round_of ?s = round_of s" using bz by (simp add: round_of_def)
  have "n_claims s = 0" using inv False by (simp add: one_claim_def)
  then have "n_claims ?s \<le> 1" using ws new unfolding n_claims_def r by (auto split: if_splits)
  moreover have "n_starting ?s = n_starting s" using ws new by (simp add: n_starting_def)
  moreover have "\<forall>y \<in> set (us @ new @ vs). entered_ok (round_of s) y \<and> not_ahead (round_of s) y"
    using inv ws new by (auto simp: one_claim_def)
  moreover have "round_of s = 1 \<longrightarrow> (\<forall>y \<in> set (us @ new @ vs). \<not> inside y)"
    using inv ws new by (auto simp: one_claim_def)
  ultimately show ?thesis using inv bz r unfolding one_claim_def by simp
qed

lemma one_claim_dispatch:
  assumes inv: "one_claim s" and ch: "leaderChan s = (fr, msg) # rest"
    and d: "on_new_leader fr msg (rbz s) = (bz', new)"
  shows "one_claim (s\<lparr>rbz := bz', leaderChan := rest, workers := workers s @ new\<rparr>)"
proof -
  let ?s = "s\<lparr>rbz := bz', leaderChan := rest, workers := workers s @ new\<rparr>"
  have bz: "MCRoundNumber bz' = MCRoundNumber (rbz s)" "HasLeader bz' = HasLeader (rbz s)"
    and new: "new = (if nl_MCRoundNumber msg = round_of s \<and> (\<not> HasLeader (rbz s) \<or> fr) then [Electing fr msg] else [])"
    using d by (auto simp: on_new_leader_def round_of_def)
  have r: "round_of ?s = round_of s" using bz by (simp add: round_of_def)
  have "n_claims ?s \<le> n_claims s" using ch new unfolding n_claims_def r by (auto simp: msg_claims_def)
  moreover have "n_starting ?s = n_starting s" using new by (simp add: n_starting_def)
  moreover have "\<forall>y \<in> set (workers s @ new). entered_ok (round_of s) y \<and> not_ahead (round_of s) y"
    using inv new by (auto simp: one_claim_def)
  moreover have "round_of s = 1 \<longrightarrow> (\<forall>y \<in> set (workers s @ new). \<not> inside y)"
    using inv new by (auto simp: one_claim_def)
  moreover have "\<forall>(fr, m) \<in> set rest. fr \<longrightarrow> nl_MCRoundNumber m \<le> round_of s"
    using inv ch by (auto simp: one_claim_def)
  moreover have "n_claims ?s \<le> 1" "\<not> HasLeader bz' \<longrightarrow> n_claims ?s = 0"
    using inv bz calculation(1) by (auto simp: one_claim_def)
  ultimately show ?thesis using inv bz r unfolding one_claim_def by simp
qed

lemma one_claim_timer:
  assumes inv: "one_claim s" and f: "fire_timer t (rbz s\<lparr>timers := ts\<rparr>) = (bz', msgs)"
  shows "one_claim (s\<lparr>rbz := bz', leaderChan := leaderChan s @ msgs\<rparr>)"
proof (cases "msgs = []")
  case True
  then have "bz' = rbz s\<lparr>timers := ts\<rparr>" using f by (auto simp: fire_timer_def split: if_split_asm)
  then have "one_claim (s\<lparr>rbz := bz'\<rparr>)" by (intro one_claim_same_round [OF inv]) auto
  then show ?thesis using True by (simp add: claim_defs)
next
  case False
  let ?msg = "\<lparr>nl_LeaderTreeNodeID = nd_ID (self (rbz s)), nl_MCRoundNumber = round_of s\<rparr>"
  let ?s = "s\<lparr>rbz := bz', leaderChan := leaderChan s @ msgs\<rparr>"
  have bz: "HasLeader bz'" "MCRoundNumber bz' = MCRoundNumber (rbz s)" and no: "\<not> HasLeader (rbz s)"
    and msgs: "msgs = [(True, ?msg)]"
    using f False by (auto simp: fire_timer_def round_of_def split: if_split_asm)
  have r: "round_of ?s = round_of s" using bz by (simp add: round_of_def)
  have "n_claims s = 0" using inv no by (simp add: one_claim_def)
  then have "n_claims ?s = 1" unfolding n_claims_def r by (simp add: msgs msg_claims_def)
  moreover have "n_starting ?s = n_starting s" by (simp add: n_starting_def)
  moreover have "\<forall>(fr, m) \<in> set (leaderChan s @ msgs). fr \<longrightarrow> nl_MCRoundNumber m \<le> round_of s"
    using inv by (auto simp: one_claim_def msgs)
  ultimately show ?thesis using inv bz r unfolding one_claim_def by simp
qed

lemma side_post_claims:
  assumes inv: "one_claim s" and ws: "workers s = us @ SideSleeping name lmsg # vs"
    and p: "SideChainRootPostNewRound w name lmsg (rbz s) = Inr (bz', waits)"
  shows "one_claim (s\<lparr>rbz := bz', workers := us @ (if waits then [SideWaiting] else []) @ vs\<rparr>)"
  using post_frame [OF p] by (intro one_claim_replace [OF inv ws]) auto

lemma enter_claims:
  assumes inv: "one_claim s" and ws: "workers s = us @ Sleeping msg # vs" and e: "enter_round msg (rbz s) = Inr (bz', x)"
  shows "one_claim (s\<lparr>rbz := bz', workers := us @ x # vs\<rparr>)"
proof -
  have "one_claim (s\<lparr>rbz := bz', workers := us @ [x] @ vs\<rparr>)"
    using enter_round_Inr [OF e] by (intro one_claim_replace [OF inv ws]) (auto simp: round_of_def)
  then show ?thesis by simp
qed

lemma root_step_one_claim:
  assumes "root_step w s s'" and inv: "one_claim s"
  shows "one_claim s'"
  using assms(1)
proof cases
  case (arrive_leader msg)
  then show ?thesis using inv by (simp add: claim_defs)
next
  case (arrive_side name lmsg)
  then show ?thesis using inv by (simp add: claim_defs)
next
  case (dispatch_leader fr msg rest bz' new)
  then show ?thesis using one_claim_dispatch [OF inv] by simp
next
  case (dispatch_side name lmsg rest)
  then show ?thesis using inv by (simp add: claim_defs)
next
  case (elect us fr msg vs bz' new)
  then show ?thesis using one_claim_elect [OF inv] by simp
next
  case (enter us msg vs bz' x)
  then show ?thesis using enter_claims [OF inv] by simp
next
  case (wait_sc us leader msg vs)
  have "entered_ok (round_of s) (WaitSc leader msg) \<and> not_ahead (round_of s) (WaitSc leader msg)" "round_of s \<noteq> 1"
    using inv wait_sc(2) by (auto simp: one_claim_def)
  then have "one_claim (s\<lparr>rbz := rbz s, workers := us @ [AddSc leader msg] @ vs\<rparr>)"
    by (intro one_claim_replace [OF inv wait_sc(2)]) auto
  then show ?thesis using wait_sc(1) by simp
next
  case (add_sc us leader msg vs bz')
  have "entered_ok (round_of s) (AddSc leader msg) \<and> not_ahead (round_of s) (AddSc leader msg)" "round_of s \<noteq> 1"
    using inv add_sc(2) by (auto simp: one_claim_def)
  moreover have "MCRoundNumber bz' = MCRoundNumber (rbz s) \<and> HasLeader bz' = HasLeader (rbz s)"
    using add_sc(3) by (auto simp: add_sc_rounds_def Let_def split: if_split_asm)
  ultimately have "one_claim (s\<lparr>rbz := bz', workers := us @ [Closing leader msg] @ vs\<rparr>)"
    by (intro one_claim_replace [OF inv add_sc(2)]) auto
  then show ?thesis using add_sc(1) by simp
next
  case (close us leader msg vs bz')
  then have "one_claim (s\<lparr>rbz := bz', workers := us @ [DoneMc] @ vs\<rparr>)"
    using close_round_frame [OF close(3)] by (intro one_claim_next_round [OF inv _ close(2)]) auto
  then show ?thesis using close(1) by simp
next
  case (done_mc us vs bz')
  have "MCRoundNumber bz' = MCRoundNumber (rbz s) \<and> HasLeader bz' = HasLeader (rbz s)"
    using done_mc(3) by (auto simp: mc_round_done_def split: if_split_asm)
  then have "one_claim (s\<lparr>rbz := bz', workers := us @ [] @ vs\<rparr>)"
    by (intro one_claim_replace [OF inv done_mc(2)]) auto
  then show ?thesis using done_mc(1) by simp
next
  case (timer ts t ts' bz' msgs)
  then show ?thesis using one_claim_timer [OF inv] by simp
next
  case (side_post us name lmsg vs bz' waits)
  then show ?thesis using side_post_claims [OF inv] by simp
next
  case (side_resume us vs)
  have "one_claim (s\<lparr>rbz := sc_round_resumed (rbz s), workers := us @ [] @ vs\<rparr>)"
    by (intro one_claim_replace [OF inv side_resume(2)]) (auto simp: sc_round_resumed_def)
  then show ?thesis using side_resume(1) by simp
next
  case (start_main us vs bz')
  then have "one_claim (s\<lparr>rbz := bz', workers := us @ [] @ vs\<rparr>)"
    using start_main_frame [OF start_main(3)] by (intro one_claim_next_round [OF inv _ start_main(2)]) auto
  then show ?thesis using start_main(1) by simp
next
  case (start_side us vs bz')
  then have "one_claim (s\<lparr>rbz := bz', workers := us @ [] @ vs\<rparr>)"
    using start_side_frame [OF start_side(3)] by (intro one_claim_replace [OF inv start_side(2)]) auto
  then show ?thesis using start_side(1) by simp
qed

lemma root_start_one_claim: "root_start s \<Longrightarrow> one_claim s"
  by (auto simp: root_start_def helloChainBoost_def claim_defs split: if_split_asm)

interpretation rounds: invariant_system root_start "root_step w" one_claim for w
  by unfold_locales (auto intro: root_start_one_claim root_step_one_claim)

lemma length_filter_mono:
  "\<forall>x \<in> set xs. P x \<longrightarrow> Q x \<Longrightarrow> length (filter P xs) \<le> length (filter Q xs)"
  by (induction xs) auto

lemma inside_le_claims:
  assumes "one_claim s"
  shows "length (filter inside (workers s)) \<le> n_claims s"
proof -
  have "\<forall>x \<in> set (workers s). inside x \<longrightarrow> claims (round_of s) x"
    using assms inside_unclaimed by (auto simp: one_claim_def)
  then have "length (filter inside (workers s)) \<le> length (filter (claims (round_of s)) (workers s))"
    by (rule length_filter_mono)
  then show ?thesis by (simp add: n_claims_def)
qed

section \<open>A round nobody closes\<close>

text \<open>The round is taken, no goroutine and no message of the root will close it.\<close>

definition stalled :: "int \<Rightarrow> Root \<Rightarrow> bool" where
  "stalled r s \<longleftrightarrow> one_claim s \<and> round_of s = r \<and> HasLeader (rbz s) \<and> n_claims s = 0 \<and> n_starting s = 0"

lemma not_inside_claim: "claims (round_of s) x \<Longrightarrow> x \<in> set (workers s) \<Longrightarrow> 0 < n_claims s"
  by (auto simp: n_claims_def filter_empty_conv)

lemma stalled_replace:
  assumes "stalled r s" and "workers s = us @ x # vs" and "one_claim (s\<lparr>rbz := bz', workers := us @ new @ vs\<rparr>)"
    and "MCRoundNumber bz' = MCRoundNumber (rbz s)" and "HasLeader bz'" and "filter (claims r) new = []"
    and "StartMain \<notin> set new"
  shows "stalled r (s\<lparr>rbz := bz', workers := us @ new @ vs\<rparr>)"
  using assms by (auto simp: stalled_def n_claims_def n_starting_def round_of_def filter_empty_conv split: if_split_asm)

lemma stalled_no_claim: "stalled r s \<Longrightarrow> x \<in> set (workers s) \<Longrightarrow> \<not> claims r x \<and> x \<noteq> StartMain"
  by (auto simp: stalled_def n_claims_def n_starting_def filter_empty_conv)

lemma stalled_no_msg: "stalled r s \<Longrightarrow> p \<in> set (leaderChan s) \<Longrightarrow> \<not> msg_claims r p"
  by (auto simp: stalled_def n_claims_def filter_empty_conv)

lemma stalled_not_inside: "stalled r s \<Longrightarrow> x \<in> set (workers s) \<Longrightarrow> \<not> inside x"
  using inside_unclaimed [of x r] stalled_no_claim [of r s x] by (auto simp: stalled_def one_claim_def)

lemma stalled_step:
  assumes step: "root_step w s s'" and st: "stalled r s"
  shows "stalled r s'"
proof -
  have inv: "one_claim s'" using root_step_one_claim [OF step] st by (simp add: stalled_def)
  note hl = st [unfolded stalled_def]
  from step show ?thesis
  proof cases
    case (arrive_leader msg)
    then show ?thesis using hl inv by (auto simp: stalled_def claim_defs)
  next
    case (arrive_side name lmsg)
    then show ?thesis using hl inv by (auto simp: stalled_def claim_defs)
  next
    case (dispatch_leader fr msg rest bz' new)
    have "\<not> msg_claims r (fr, msg)" using stalled_no_msg [OF st] dispatch_leader(2) by simp
    then have "new = []" and "MCRoundNumber bz' = MCRoundNumber (rbz s)" "HasLeader bz'"
      using dispatch_leader(3) hl by (auto simp: on_new_leader_def msg_claims_def round_of_def)
    then show ?thesis using dispatch_leader(1,2) hl inv
      by (auto simp: stalled_def n_claims_def n_starting_def round_of_def split: if_split_asm)
  next
    case (dispatch_side name lmsg rest)
    then show ?thesis using hl inv by (auto simp: stalled_def claim_defs)
  next
    case (elect us fr msg vs bz' new)
    have "\<not> claims r (Electing fr msg)" using stalled_no_claim [OF st, of "Electing fr msg"] elect(2) by simp
    then have "filter (claims r) new = []" "StartMain \<notin> set new" "MCRoundNumber bz' = MCRoundNumber (rbz s)" "HasLeader bz'"
      using elect(3) hl by (auto simp: elect_def split: if_split_asm)
    then show ?thesis using stalled_replace [OF st elect(2)] inv elect(1) by simp
  next
    case (enter us msg vs bz' x)
    have "\<not> claims r (Sleeping msg)" using stalled_no_claim [OF st, of "Sleeping msg"] enter(2) by simp
    then have "x = DoneMc" "MCRoundNumber bz' = MCRoundNumber (rbz s)" "HasLeader bz'"
      using enter_round_Inr [OF enter(3)] hl by (auto simp: round_of_def)
    then show ?thesis using stalled_replace [OF st enter(2), where bz' = bz' and new = "[x]"] inv enter(1) by simp
  next
    case (wait_sc us leader msg vs)
    then show ?thesis using stalled_not_inside [OF st, of "WaitSc leader msg"] by simp
  next
    case (add_sc us leader msg vs bz')
    then show ?thesis using stalled_not_inside [OF st, of "AddSc leader msg"] by simp
  next
    case (close us leader msg vs bz')
    then show ?thesis using stalled_not_inside [OF st, of "Closing leader msg"] by simp
  next
    case (done_mc us vs bz')
    have "MCRoundNumber bz' = MCRoundNumber (rbz s)" "HasLeader bz'"
      using done_mc(3) hl by (auto simp: mc_round_done_def split: if_split_asm)
    then show ?thesis using stalled_replace [OF st done_mc(2), where bz' = bz' and new = "[]"] inv done_mc(1) by simp
  next
    case (timer ts t ts' bz' msgs)
    have "msgs = []" "MCRoundNumber bz' = MCRoundNumber (rbz s)" "HasLeader bz'"
      using timer(3) hl by (auto simp: fire_timer_def)
    then show ?thesis using timer(1) hl inv by (auto simp: stalled_def n_claims_def n_starting_def round_of_def)
  next
    case (side_post us name lmsg vs bz' waits)
    have "MCRoundNumber bz' = MCRoundNumber (rbz s)" "HasLeader bz'"
      using post_frame [OF side_post(3)] hl by auto
    then show ?thesis
      using stalled_replace [OF st side_post(2), where bz' = bz' and new = "if waits then [SideWaiting] else []"] inv side_post(1) by simp
  next
    case (side_resume us vs)
    then show ?thesis
      using stalled_replace [OF st side_resume(2), where bz' = "sc_round_resumed (rbz s)" and new = "[]"] inv hl by (simp add: sc_round_resumed_def)
  next
    case (start_main us vs bz')
    then show ?thesis using stalled_no_claim [OF st, of StartMain] by simp
  next
    case (start_side us vs bz')
    have "MCRoundNumber bz' = MCRoundNumber (rbz s)" "HasLeader bz'"
      using start_side_frame [OF start_side(3)] hl by auto
    then show ?thesis using stalled_replace [OF st start_side(2), where bz' = bz' and new = "[]"] inv start_side(1) by simp
  qed
qed

lemma stalled_reachable:
  assumes "reachable (\<lambda>t. t = s) (root_step w) s'" and "stalled r s"
  shows "stalled r s'"
  using assms by (induction rule: reachable.induct) (auto intro: stalled_step)

lemma stale_election_stalled:
  assumes inv: "one_claim s" and ws: "workers s = us @ Electing False msg # vs" and no: "\<not> HasLeader (rbz s)"
    and old: "nl_MCRoundNumber msg \<noteq> MCRoundNumber (rbz s)" and r: "MCRoundNumber (rbz s) \<noteq> 1"
    and e: "elect False msg (rbz s) = (bz', new)"
  shows "stalled (MCRoundNumber (rbz s)) (s\<lparr>rbz := bz', workers := us @ new @ vs\<rparr>)"
proof -
  let ?s = "s\<lparr>rbz := bz', workers := us @ new @ vs\<rparr>"
  have bz: "MCRoundNumber bz' = MCRoundNumber (rbz s)" "HasLeader bz'" and new: "new = [Sleeping msg]"
    using e no by (auto simp: elect_def)
  have "one_claim ?s" using one_claim_elect [OF inv ws e] .
  moreover have "n_claims s = 0" "n_starting s = 0" using inv no r by (auto simp: one_claim_def round_of_def)
  then have "n_claims ?s = 0" "n_starting ?s = 0"
    using ws bz old new by (auto simp: n_claims_def n_starting_def round_of_def)
  ultimately show ?thesis using bz by (simp add: stalled_def round_of_def)
qed

section \<open>Properties\<close>

text \<open>
  C31: (safety) In every state the root can reach, whatever the order of messages, timers and
  goroutines, at most one goroutine is past the conditions of \<open>RootPreNewRound\<close>, and it is about
  the current round: no round gets two blocks.
\<close>

theorem one_goroutine_closes_a_round:
  assumes "reachable root_start (root_step w) s"
  shows "length (filter inside (workers s)) \<le> 1 \<and>
    (\<forall>x \<in> set (workers s). inside x \<longrightarrow> claims (MCRoundNumber (rbz s)) x)"
proof -
  have inv: "one_claim s" by (rule rounds.reachable_inv [OF assms])
  have "\<forall>x \<in> set (workers s). inside x \<longrightarrow> claims (round_of s) x"
    using inv inside_unclaimed by (auto simp: one_claim_def)
  moreover have "length (filter inside (workers s)) \<le> 1"
    using inside_le_claims [OF inv] inv by (auto simp: one_claim_def)
  ultimately show ?thesis by (simp add: round_of_def)
qed

definition sample_leader :: "int \<Rightarrow> NewLeader" where
  "sample_leader r = \<lparr>nl_LeaderTreeNodeID = 2, nl_MCRoundNumber = r\<rparr>"

definition sample_root :: "ChainBoost \<Rightarrow> worker list \<Rightarrow> Root" where
  "sample_root bz ws = \<lparr>rbz = bz, leaderChan = [], sideChan = [], workers = ws\<rparr>"

definition sample_ready :: ChainBoost where
  "sample_ready = sample_bz\<lparr>BlsCosiStarted := True\<rparr>"

lemmas sample_root_defs = sample_root_def sample_leader_def sample_ready_def sample_bz_def sample_cfg_def sample_nodes_def

lemma sample_root_start: "root_start (sample_root sample_ready [StartMain])"
  unfolding root_start_def
  by (rule exI [of _ sample_ready], rule exI [of _ sample_ready], rule exI [of _ "[StartMain]"])
    (simp add: sample_root_defs helloChainBoost_def)

lemma sample_root_reachable:
  "reachable root_start (root_step w) (sample_root (sample_ready\<lparr>NumMCLeader := 1\<rparr>) [StartMain, Electing False (sample_leader 1)])"
proof -
  let ?s0 = "sample_root sample_ready [StartMain]"
  let ?s1 = "?s0\<lparr>leaderChan := leaderChan ?s0 @ [(False, sample_leader 1)]\<rparr>"
  have 1: "reachable root_start (root_step w) ?s1"
    using sample_root_start by (intro next_step [where s = ?s0 and s' = ?s1] at_start root_step.arrive_leader)
  have d: "on_new_leader False (sample_leader 1) (rbz ?s1) = (sample_ready\<lparr>NumMCLeader := 1\<rparr>, [Electing False (sample_leader 1)])"
    by (simp add: sample_root_defs on_new_leader_def)
  have c: "leaderChan ?s1 = (False, sample_leader 1) # []" by (simp add: sample_root_def)
  show ?thesis
    using next_step [OF 1 root_step.dispatch_leader [OF c d]] by (simp add: sample_root_def)
qed

lemma one_goroutine_closes_a_round_witness:
  "length (filter inside (workers (sample_root (sample_ready\<lparr>NumMCLeader := 1\<rparr>) [StartMain, Electing False (sample_leader 1)]))) \<le> 1"
  using one_goroutine_closes_a_round [OF sample_root_reachable [of sample_world]] by blast

text \<open>
  C35: (liveness) A leader message whose goroutine gets \<open>MCPLock\<close> only after its round was closed
  takes the new round for itself, although its own round is over; from then on the root stays in that
  round for ever, since no goroutine closes it, its timer does nothing and every later leader message
  of the round is dropped.
\<close>

theorem stale_election_stalls:
  assumes "one_claim s" and "workers s = us @ Electing False msg # vs" and "\<not> HasLeader (rbz s)"
    and "nl_MCRoundNumber msg \<noteq> MCRoundNumber (rbz s)" and "MCRoundNumber (rbz s) \<noteq> 1"
    and "elect False msg (rbz s) = (bz', new)"
    and "reachable (\<lambda>t. t = s\<lparr>rbz := bz', workers := us @ new @ vs\<rparr>) (root_step w) s'"
  shows "MCRoundNumber (rbz s') = MCRoundNumber (rbz s) \<and> HasLeader (rbz s')"
proof -
  let ?r = "MCRoundNumber (rbz s)"
  have "stalled ?r (s\<lparr>rbz := bz', workers := us @ new @ vs\<rparr>)"
    by (rule stale_election_stalled [OF assms(1-6)])
  then have "stalled ?r s'"
    using assms(7) stalled_reachable by metis
  then show ?thesis by (simp add: stalled_def round_of_def)
qed

lemma stale_election_stalls_witness:
  "MCRoundNumber (rbz (sample_root (sample_ready\<lparr>MCRoundNumber := 7, HasLeader := True, NumMCLeader := 1\<rparr>) [Sleeping (sample_leader 6)])) = 7"
proof -
  let ?bz = "sample_ready\<lparr>MCRoundNumber := 7\<rparr>"
  let ?s = "sample_root ?bz [Electing False (sample_leader 6)]"
  have s: "?s\<lparr>rbz := ?bz\<lparr>HasLeader := True, NumMCLeader := 1\<rparr>, workers := [] @ [Sleeping (sample_leader 6)] @ []\<rparr> =
      sample_root (sample_ready\<lparr>MCRoundNumber := 7, HasLeader := True, NumMCLeader := 1\<rparr>) [Sleeping (sample_leader 6)]"
    by (simp add: sample_root_defs)
  have "MCRoundNumber (rbz (sample_root (sample_ready\<lparr>MCRoundNumber := 7, HasLeader := True, NumMCLeader := 1\<rparr>) [Sleeping (sample_leader 6)]))
      = MCRoundNumber (rbz ?s) \<and> HasLeader (rbz (sample_root (sample_ready\<lparr>MCRoundNumber := 7, HasLeader := True, NumMCLeader := 1\<rparr>) [Sleeping (sample_leader 6)]))"
    by (rule stale_election_stalls [where s = ?s and us = "[]" and vs = "[]" and msg = "sample_leader 6" and w = sample_world
        and bz' = "?bz\<lparr>HasLeader := True, NumMCLeader := 1\<rparr>" and new = "[Sleeping (sample_leader 6)]"])
      (unfold s, auto simp: sample_root_defs claim_defs elect_def intro: at_start)
  then show ?thesis by (simp add: sample_root_defs)
qed

end
