(* ===== verification/RootChain.thy ===== *)
theory RootChain
  imports RootLeader MainChainAgreements SideChainTake MainChainBlock
begin

text \<open>
  The two chains under the interleaving of \<open>RootProtocol\<close>: what holds of the databases in every
  state the root can reach, and what a step does to the PoRs on their way from an agreement to the
  main chain.
\<close>

section \<open>The invariant\<close>

definition epochs_set :: "HelloChainBoost \<Rightarrow> bool" where
  "epochs_set c \<longleftrightarrow> MCRoundPerEpoch c \<noteq> 0 \<and> SCRoundPerEpoch c \<noteq> 0"

definition no_sync :: "mcdb \<Rightarrow> bool" where
  "no_sync db \<longleftrightarrow> (\<forall>(i, e) \<in> set (FirstQueue db). fq_Name e \<noteq> ''TxSync'')"

definition round_numbers :: "mcdb \<Rightarrow> int list" where
  "round_numbers db = map (rt_RoundNumber \<circ> snd) (RoundTable db)"

text \<open>
  The round table has rows for the rounds below \<open>rows\<close>; those from \<open>fresh\<close> on have not been built.
\<close>

definition chain_at :: "nat \<Rightarrow> int \<Rightarrow> ChainBoost \<Rightarrow> bool" where
  "chain_at rows fresh bz \<longleftrightarrow> agreements_inv (mc bz) \<and> epochs_set (cfg bz) \<and> no_sync (mc bz) \<and> sc_queue_ok (sc bz) \<and>
     distinct (map fst (SummPoRTxs bz)) \<and> round_numbers (mc bz) = map int [0..<rows] \<and>
     (\<forall>(i, row) \<in> set (RoundTable (mc bz)). fresh \<le> rt_RoundNumber row \<longrightarrow> rt_ScPorTx row = 0) \<and>
     (\<forall>r \<in> set (map snd (OverallEvaluation (mc bz))). mo_RoundNbr r < fresh)"

definition chain_inv :: "ChainBoost \<Rightarrow> bool" where
  "chain_inv bz \<longleftrightarrow> 1 \<le> MCRoundNumber bz \<and> chain_at (Suc (nat (MCRoundNumber bz))) (MCRoundNumber bz) bz"

text \<open>Every PoR that was issued and not yet lost sight of.\<close>

definition por_ledger :: "ChainBoost \<Rightarrow> int" where
  "por_ledger bz = int (length (ScFirstQueue (sc bz))) + gmap_total (SummPoRTxs bz) +
     sum_list (map (\<lambda>(i, e). fq_ServAgrId e) (SyncTxQueue (mc bz))) +
     sum_list (map (\<lambda>(i, row). rt_ScPorTx row) (RoundTable (mc bz)))"

lemma epochs_divide: "epochs_set (cfg bz) \<Longrightarrow> collect_divides bz"
  by (simp add: epochs_set_def collect_divides_def)

lemma chain_at_weaken: "chain_at n r bz \<Longrightarrow> r \<le> r' \<Longrightarrow> chain_at n r' bz"
  unfolding chain_at_def by fastforce

lemma chain_at_cong:
  "mc bz' = mc bz \<Longrightarrow> sc bz' = sc bz \<Longrightarrow> SummPoRTxs bz' = SummPoRTxs bz \<Longrightarrow> cfg bz' = cfg bz \<Longrightarrow>
   chain_at n r bz' = chain_at n r bz \<and> por_ledger bz' = por_ledger bz"
  by (simp add: chain_at_def por_ledger_def)

section \<open>The operations\<close>

lemma power_Inr:
  assumes "updateBCPowerRound w leader bz = Inr bz'"
  shows "\<exists>row pt. rt_RoundNumber row = MCRoundNumber bz + 1 \<and> rt_ScPorTx row = 0 \<and>
    bz' = bz\<lparr>mc := (mc bz)\<lparr>RoundTable := tbl_insert row (RoundTable (mc bz)), PowerTable := pt\<rparr>\<rparr>"
proof -
  let ?seed = "sha256hex w (case MainChainGetLastRoundSeed (mc bz) of Inl e \<Rightarrow> '''' | Inr s \<Rightarrow> s)"
  obtain db1 where db1: "InsertIntoMainChainRoundTable (MCRoundNumber bz + 1) ?seed 0 leader 0 0 0 0 0
      (now w) 0 (Fin 0) (Fin 0) False False False (mc bz) = (None, db1)"
    by (simp add: InsertIntoMainChainRoundTable_def)
  then have "\<exists>row. db1 = (mc bz)\<lparr>RoundTable := tbl_insert row (RoundTable (mc bz))\<rparr> \<and>
      rt_RoundNumber row = MCRoundNumber bz + 1 \<and> rt_ScPorTx row = 0"
    unfolding InsertIntoMainChainRoundTable_def prod.inject by - (elim conjE, intro exI conjI, erule sym, simp_all)
  then obtain row where row: "rt_RoundNumber row = MCRoundNumber bz + 1" "rt_ScPorTx row = 0"
      "db1 = (mc bz)\<lparr>RoundTable := tbl_insert row (RoundTable (mc bz))\<rparr>" by blast
  from assms db1 obtain db2 ps where "MainChainUpdatePowerTable ps db1 = (None, db2)" "bz' = bz\<lparr>mc := db2\<rparr>"
    by (auto simp: updateBCPowerRound_def Let_def bindR_Inr_iff orPanic_Inr_iff)
  moreover from this(1) obtain pt where "db2 = db1\<lparr>PowerTable := pt\<rparr>"
    by (auto simp: MainChainUpdatePowerTable_def Let_def split: if_split_asm)
  ultimately show ?thesis using row by blast
qed

lemma sc_txs_cong:
  assumes "MarketMatching (mc bz') = MarketMatching (mc bz)" "MCRoundNumber bz' = MCRoundNumber bz"
    "SCRoundNumber bz' = SCRoundNumber bz" "cfg bz' = cfg bz"
  shows "sc_txs w bz' = sc_txs w bz"
proof -
  have "por_issued bz' = por_issued bz" "por_epoch bz' = por_epoch bz"
    using assms by (simp_all add: por_issued_def por_epoch_def Let_def)
  then have "agr_sc_txs w bz' = agr_sc_txs w bz" using assms by (intro ext) (simp add: agr_sc_txs_def split: prod.split)
  then show ?thesis using assms(1) by (simp add: sc_txs_def)
qed

lemma power_chain:
  assumes "updateBCPowerRound w leader bz = Inr bz'" and "chain_inv bz"
  shows "chain_at (Suc (Suc (nat (MCRoundNumber bz)))) (MCRoundNumber bz) bz' \<and> por_ledger bz' = por_ledger bz \<and>
    MCRoundNumber bz' = MCRoundNumber bz \<and> sc_txs w' bz' = sc_txs w' bz"
proof -
  from power_Inr [OF assms(1)] obtain row pt where row: "rt_RoundNumber row = MCRoundNumber bz + 1" "rt_ScPorTx row = 0"
    and bz': "bz' = bz\<lparr>mc := (mc bz)\<lparr>RoundTable := tbl_insert row (RoundTable (mc bz)), PowerTable := pt\<rparr>\<rparr>" by blast
  have 1: "1 \<le> MCRoundNumber bz" "chain_at (Suc (nat (MCRoundNumber bz))) (MCRoundNumber bz) bz"
    using assms(2) by (auto simp: chain_inv_def)
  have "agreements_inv (mc bz')"
    by (rule agreements_inv_frame [of "mc bz"]) (use 1 in \<open>simp_all add: chain_at_def bz'\<close>)
  moreover have "round_numbers (mc bz') = map int [0..<Suc (Suc (nat (MCRoundNumber bz)))]"
    using 1 row(1) by (simp add: chain_at_def bz' round_numbers_def tbl_insert_def)
  moreover have "\<forall>(i, r) \<in> set (RoundTable (mc bz')). MCRoundNumber bz \<le> rt_RoundNumber r \<longrightarrow> rt_ScPorTx r = 0"
    using 1 row(2) by (auto simp: chain_at_def bz' tbl_insert_def)
  ultimately have "chain_at (Suc (Suc (nat (MCRoundNumber bz)))) (MCRoundNumber bz) bz'"
    using 1 unfolding chain_at_def by (simp add: bz' no_sync_def)
  moreover have "por_ledger bz' = por_ledger bz" using row(2) by (simp add: por_ledger_def bz' tbl_insert_def)
  moreover have "sc_txs w' bz' = sc_txs w' bz"
    by (rule sc_txs_cong) (simp_all add: bz')
  ultimately show ?thesis by (simp add: bz')
qed

lemma rows_insert_all: "set (map snd (tbl_insert_all es t)) = set (map snd t) \<union> set es"
  by (metis tbl_insert_all_rows set_append)

lemma in_rows: "(i, e) \<in> set t \<Longrightarrow> e \<in> set (map snd t)"
  by force

lemma sc_queue_ok_insert:
  assumes "sc_queue_ok db" and "\<forall>e \<in> set es. scq_Name e = ''TxPor'' \<and> 0 \<le> scq_Size e"
  shows "sc_queue_ok (db\<lparr>ScFirstQueue := tbl_insert_all es (ScFirstQueue db)\<rparr>)"
proof -
  have rows: "sc_rows_ok t \<longleftrightarrow> (\<forall>e \<in> set (map snd t). scq_Name e = ''TxPor'' \<and> 0 \<le> scq_Size e)" for t
    by (auto simp: sc_rows_ok_def)
  have "sc_rows_ok (tbl_insert_all es (ScFirstQueue db))"
    using assms unfolding rows rows_insert_all sc_queue_ok_def by blast
  then show ?thesis using assms(1) by (auto simp: sc_queue_ok_def)
qed

lemma agr_mc_txs_not_sync: "e \<in> set (agr_mc_txs w bz p) \<Longrightarrow> fq_Name e \<noteq> ''TxSync''"
  by (cases p) (auto simp: agr_mc_txs_def first_entry_def Let_def split: if_split_asm)

lemma mc_txs_not_sync: "e \<in> set (mc_txs w bz) \<Longrightarrow> fq_Name e \<noteq> ''TxSync''"
  using agr_mc_txs_not_sync by (auto simp: mc_txs_def)

lemma agr_sc_txs_por: "e \<in> set (agr_sc_txs w bz p) \<Longrightarrow> scq_Name e = ''TxPor'' \<and> 0 \<le> scq_Size e"
  by (cases p) (auto simp: agr_sc_txs_def split: if_split_asm)

lemma sc_txs_por: "\<forall>e \<in> set (sc_txs w bz). scq_Name e = ''TxPor'' \<and> 0 \<le> scq_Size e"
  using agr_sc_txs_por by (fastforce simp: sc_txs_def)

lemma collect_chain:
  assumes "updateMainChainBCTransactionQueueCollect w bz = Inr bz'" and "chain_at n r bz"
  shows "chain_at n r bz' \<and> por_ledger bz' = por_ledger bz + int (length (sc_txs w bz)) \<and> MCRoundNumber bz' = MCRoundNumber bz"
proof -
  have inv: "agreements_inv (mc bz)" and e: "epochs_set (cfg bz)" using assms(2) by (simp_all add: chain_at_def)
  then have "market_ok (MarketMatching (mc bz))" by (simp add: agreements_inv_def)
  from collect_Inr [OF this epochs_divide [OF e] assms(1)] obtain k where bz': "bz' = after_collect w bz k" by blast
  have "agreements_inv (mc bz')" unfolding bz' by (rule collect_keeps_agreements [OF inv])
  moreover have "no_sync (mc bz')"
  proof -
    have "\<forall>e \<in> set (map snd (FirstQueue (mc bz'))). fq_Name e \<noteq> ''TxSync''"
      using assms(2) mc_txs_not_sync [of _ w bz]
      by (auto simp: bz' after_collect_def rows_insert_all chain_at_def no_sync_def)
    then show ?thesis using in_rows by (fastforce simp: no_sync_def)
  qed
  moreover have "sc_queue_ok (sc bz')"
    unfolding bz' after_collect_def using assms(2)
    by (simp add: chain_at_def sc_queue_ok_insert sc_txs_por)
  moreover have "length (ScFirstQueue (sc bz')) = length (ScFirstQueue (sc bz)) + length (sc_txs w bz)"
    unfolding bz' after_collect_def by (simp, metis tbl_insert_all_rows length_append length_map)
  ultimately show ?thesis using assms(2) unfolding chain_at_def
    by (simp add: bz' after_collect_def round_numbers_def por_ledger_def)
qed

text \<open>Building the block of the round.\<close>

lemma sum_update_unique:
  assumes "distinct (map (f \<circ> snd) t)" and "k \<in> set (map (f \<circ> snd) t)" and "\<And>r. f r = k \<Longrightarrow> h (g r) = (v :: int)"
    and "\<forall>(i, r) \<in> set t. f r = k \<longrightarrow> h r = 0"
  shows "sum_list (map (\<lambda>(i, r). h r) (tbl_update (\<lambda>i r. f r = k) g t)) = sum_list (map (\<lambda>(i, r). h r) t) + v"
  using assms
proof (induction t)
  case Nil
  then show ?case by simp
next
  case (Cons p t)
  obtain i r where p: "p = (i, r)" by (cases p)
  show ?case
  proof (cases "f r = k")
    case True
    then have "\<forall>(j, s) \<in> set t. f s \<noteq> k" using Cons.prems(1) p by (auto simp: image_iff)
    then have "tbl_update (\<lambda>i r. f r = k) g t = t" by (auto simp: tbl_update_def intro!: map_idI)
    then show ?thesis using True Cons.prems(3,4) by (simp add: p tbl_update_def)
  next
    case False
    then have "k \<in> set (map (f \<circ> snd) t)" using Cons.prems(2) p by auto
    then have "sum_list (map (\<lambda>(i, r). h r) (tbl_update (\<lambda>i r. f r = k) g t)) = sum_list (map (\<lambda>(i, r). h r) t) + v"
      using Cons.prems by (intro Cons.IH) auto
    then show ?thesis using False by (simp add: p tbl_update_def)
  qed
qed

lemma sync_rows_queue: "no_sync (mc bz) \<Longrightarrow> sync_rows bz = take 1 (SyncTxQueue (mc bz))"
  by (auto simp: sync_rows_def taken_sync_def named_def no_sync_def taken_first_def filter_empty_conv dest!: in_set_takeD)

lemma round_fresh_chain:
  assumes "chain_at n (MCRoundNumber bz) bz" and "0 < n"
  shows "round_fresh bz"
proof -
  have "RoundTable (mc bz) \<noteq> []" using assms by (auto simp: chain_at_def round_numbers_def simp del: upt_Suc)
  then show ?thesis using assms(1) by (auto simp: round_fresh_def chain_at_def)
qed

lemma take_chain:
  assumes t: "updateMainChainBCTransactionQueueTake bz = Inr bz'" and inv: "chain_at n (MCRoundNumber bz) bz"
    and r: "0 \<le> MCRoundNumber bz" "nat (MCRoundNumber bz) < n"
  shows "chain_at n (MCRoundNumber bz + 1) bz' \<and> por_ledger bz' = por_ledger bz \<and> MCRoundNumber bz' = MCRoundNumber bz"
proof -
  let ?r = "MCRoundNumber bz" and ?t = "RoundTable (mc bz)"
  have ag: "agreements_inv (mc bz)" and ns: "no_sync (mc bz)" using inv by (simp_all add: chain_at_def)
  then have q: "queues_wf (mc bz)" by (simp add: agreements_inv_def)
  obtain row where "mo_RoundNbr row = ?r" and bz': "bz' = after_take bz (tbl_insert row (OverallEvaluation (mc bz)))"
    using take_returns [OF q round_fresh_chain [OF inv]] r t by auto
  moreover have "\<forall>r \<in> set (map snd (OverallEvaluation (mc bz))). mo_RoundNbr r < ?r" using inv by (simp add: chain_at_def)
  ultimately have ov: "\<forall>r \<in> set (map snd (OverallEvaluation (mc bz'))). mo_RoundNbr r < ?r + 1" by force
  have nums: "round_numbers (mc bz') = round_numbers (mc bz)"
    unfolding bz' round_numbers_def after_take_simps
    by (auto simp: tbl_update_def final_row_def Let_def)
  have fresh: "\<forall>(i, row) \<in> set (RoundTable (mc bz')). ?r + 1 \<le> rt_RoundNumber row \<longrightarrow> rt_ScPorTx row = 0"
    unfolding bz' after_take_simps using inv
    by (auto simp: chain_at_def tbl_update_def final_row_def Let_def split: if_split_asm)
  have ag': "agreements_inv (mc bz')" unfolding bz' by (rule take_keeps_agreements [OF ag])
  have ns': "no_sync (mc bz')" using ns unfolding bz' no_sync_def after_take_simps by (auto dest: in_set_dropD)
  have keep: "sc bz' = sc bz" "SummPoRTxs bz' = SummPoRTxs bz" "cfg bz' = cfg bz" "MCRoundNumber bz' = ?r"
    by (simp_all add: bz' after_take_def)
  have nums0: "map (rt_RoundNumber \<circ> snd) ?t = map int [0..<n]" using inv by (simp add: chain_at_def round_numbers_def)
  have dist: "distinct (map (rt_RoundNumber \<circ> snd) ?t)" unfolding nums0 by (simp add: distinct_map)
  have "?r \<in> set (map (rt_RoundNumber \<circ> snd) ?t)"
    unfolding nums0 set_map using r by (intro image_eqI [of _ _ "nat ?r"]) auto
  then have "sum_list (map (\<lambda>(i, row). rt_ScPorTx row) (RoundTable (mc bz'))) =
      sum_list (map (\<lambda>(i, row). rt_ScPorTx row) ?t) + sum_list (map (\<lambda>(i, e). fq_ServAgrId e) (take 1 (SyncTxQueue (mc bz))))"
    unfolding bz' after_take_simps using inv
    by (intro sum_update_unique [OF dist]) (auto simp: chain_at_def final_row_def Let_def sync_rows_queue [OF ns])
  moreover have "sum_list (map (\<lambda>(i, e). fq_ServAgrId e) (SyncTxQueue (mc bz))) =
      sum_list (map (\<lambda>(i, e). fq_ServAgrId e) (take 1 (SyncTxQueue (mc bz)))) +
      sum_list (map (\<lambda>(i, e). fq_ServAgrId e) (SyncTxQueue (mc bz')))"
    unfolding bz' after_take_simps by (metis append_take_drop_id map_append sum_list_append)
  ultimately have "por_ledger bz' = por_ledger bz" by (simp add: por_ledger_def keep)
  then show ?thesis using inv nums fresh ag' ns' keep ov by (simp add: chain_at_def)
qed

lemma send_new_round_chains:
  "send_new_round w p s bs bz = Inr bz' \<Longrightarrow> mc bz' = mc bz \<and> sc bz' = sc bz \<and> SummPoRTxs bz' = SummPoRTxs bz \<and>
   cfg bz' = cfg bz \<and> MCRoundNumber bz' = MCRoundNumber bz"
  by (induction w p s bs bz rule: send_new_round.induct) (auto simp: SendTo_def split: option.splits if_splits)

lemma announce_chains:
  "readBCAndSendtoOthers w bz = Inr bz' \<Longrightarrow> mc bz' = mc bz \<and> sc bz' = sc bz \<and> SummPoRTxs bz' = SummPoRTxs bz \<and>
   cfg bz' = cfg bz \<and> MCRoundNumber bz' = MCRoundNumber bz + 1"
  by (auto simp: readBCAndSendtoOthers_def bindR_Inr_iff dest!: send_new_round_chains split: if_splits)

lemma announce_chain:
  assumes "readBCAndSendtoOthers w bz = Inr bz'" and "1 \<le> MCRoundNumber bz"
    and "chain_at (Suc (Suc (nat (MCRoundNumber bz)))) (MCRoundNumber bz + 1) bz"
  shows "chain_inv bz' \<and> por_ledger bz' = por_ledger bz"
proof -
  note eq = announce_chains [OF assms(1)]
  have "Suc (nat (MCRoundNumber bz')) = Suc (Suc (nat (MCRoundNumber bz)))" using eq assms(2) by (simp add: nat_add_distrib)
  then show ?thesis using chain_at_cong [of bz' bz] eq assms(2,3) by (simp add: chain_inv_def)
qed

section \<open>The side chain\<close>

lemma storage_chain:
  assumes "StoragePaymentMainChainBCTransactionQueueCollect w bz = Inr bz'" and "chain_at n r bz"
  shows "chain_at n r bz' \<and> por_ledger bz' = por_ledger bz"
proof -
  have bz': "bz' = bz\<lparr>mc := (mc bz)\<lparr>FirstQueue := tbl_insert_all (storage_payments w bz) (FirstQueue (mc bz))\<rparr>\<rparr>"
    using assms(1) by (simp add: storage_unfold)
  have "agreements_inv (mc bz')" using storage_keeps_agreements [OF _ assms(1)] assms(2) by (simp add: chain_at_def)
  moreover have "\<forall>e \<in> set (map snd (FirstQueue (mc bz'))). fq_Name e \<noteq> ''TxSync''"
    using assms(2) storage_payments_names [of _ w bz]
    by (auto simp: bz' rows_insert_all chain_at_def no_sync_def)
  then have "no_sync (mc bz')" using in_rows by (fastforce simp: no_sync_def)
  ultimately show ?thesis using assms(2) unfolding chain_at_def
    by (simp add: bz' round_numbers_def por_ledger_def)
qed

lemma gmap_total_zero: "gmap_total (map (\<lambda>(i, v). (i, 0)) m) = 0"
  by (induction m) (auto simp: gmap_total_def)

lemma sync_result:
  assumes "syncMainChainBCTransactionQueueCollect w bz = Inr (bz', k)"
  shows "\<exists>e. fq_ServAgrId e = gmap_total (SummPoRTxs bz) \<and>
    bz' = bz\<lparr>mc := (mc bz)\<lparr>SyncTxQueue := tbl_insert e (SyncTxQueue (mc bz))\<rparr>,
      SummPoRTxs := map (\<lambda>(i, v). (i, 0)) (SummPoRTxs bz)\<rparr>"
proof -
  from assms obtain db where "InsertIntoMainChainSyncTxQueue ''TxSync''
      (word_of_int (SCSummaryTxMeasurement (draws w) (int (length (filter (\<lambda>(i, v). v \<noteq> 0) (SummPoRTxs bz)))))) (now w)
      (MCRoundNumber bz) (gmap_total (SummPoRTxs bz)) (mc bz) = (None, db)"
    and bz': "bz' = bz\<lparr>mc := db, SummPoRTxs := map (\<lambda>(i, v). (i, 0)) (SummPoRTxs bz)\<rparr>"
    unfolding syncMainChainBCTransactionQueueCollect_def Let_def by (auto simp: bindR_Inr_iff orPanic_Inr_iff)
  then have "\<exists>e. db = (mc bz)\<lparr>SyncTxQueue := tbl_insert e (SyncTxQueue (mc bz))\<rparr> \<and> fq_ServAgrId e = gmap_total (SummPoRTxs bz)"
    unfolding InsertIntoMainChainSyncTxQueue_def prod.inject by - (elim conjE, intro exI conjI, erule sym, simp_all)
  then show ?thesis unfolding bz' by blast
qed

lemma sync_chain:
  assumes "syncMainChainBCTransactionQueueCollect w bz = Inr (bz', k)" and "chain_at n r bz"
  shows "chain_at n r bz' \<and> por_ledger bz' = por_ledger bz"
proof -
  obtain e where e: "fq_ServAgrId e = gmap_total (SummPoRTxs bz)"
    and bz': "bz' = bz\<lparr>mc := (mc bz)\<lparr>SyncTxQueue := tbl_insert e (SyncTxQueue (mc bz))\<rparr>,
      SummPoRTxs := map (\<lambda>(i, v). (i, 0)) (SummPoRTxs bz)\<rparr>"
    using sync_result [OF assms(1)] by blast
  have "agreements_inv (mc bz')"
    by (rule agreements_inv_frame [of "mc bz"]) (use assms(2) in \<open>simp_all add: chain_at_def bz'\<close>)
  moreover have "distinct (map fst (SummPoRTxs bz'))"
    using assms(2) by (simp add: chain_at_def bz' comp_def case_prod_unfold)
  moreover have "por_ledger bz' = por_ledger bz"
    by (simp add: por_ledger_def bz' tbl_insert_def e gmap_total_zero)
  ultimately show ?thesis using assms(2) unfolding chain_at_def by (simp add: bz' no_sync_def round_numbers_def)
qed

lemma round_row_chain:
  assumes "updateSideChainBCRound w leader k bz = Inr bz'" and "chain_at n r bz"
  shows "chain_at n r bz' \<and> por_ledger bz' = por_ledger bz"
proof -
  have "mc bz' = mc bz \<and> ScFirstQueue (sc bz') = ScFirstQueue (sc bz) \<and> SummPoRTxs bz' = SummPoRTxs bz \<and> cfg bz' = cfg bz"
    using assms(1) by (auto simp: updateSideChainBCRound_def bindR_Inr_iff orPanic_Inr_iff InsertIntoSideChainRoundTable_def
        split: prod.splits)
  then show ?thesis using assms(2) by (simp add: chain_at_def por_ledger_def sc_queue_ok_def)
qed

lemma side_take_chain:
  assumes "updateSideChainBCTransactionQueueTake bz = Inr (bz', k)" and "chain_at n r bz"
  shows "chain_at n r bz' \<and> por_ledger bz' = por_ledger bz"
proof -
  let ?q = "ScFirstQueue (sc bz)" and ?n = "n_side bz"
  have ok: "sc_queue_ok (sc bz)" "MCRoundPerEpoch (cfg bz) \<noteq> 0" "distinct (map fst (SummPoRTxs bz))"
    using assms(2) by (simp_all add: chain_at_def epochs_set_def)
  from side_take_Inr [OF ok(1,2) assms(1)] obtain ov where bz': "bz' = after_side_take bz (final_info bz) ov" by blast
  have "sc_queue_ok (sc bz')"
    using ok(1) by (auto simp: bz' after_side_take_def sc_queue_ok_def sc_rows_ok_def dest: in_set_dropD)
  moreover have "distinct (map fst (SummPoRTxs bz'))"
    using summ_add_distinct [OF ok(3)] by (simp add: bz' after_side_take_def)
  moreover have "por_ledger bz' = por_ledger bz"
  proof -
    have "int (length (sc_ids (take ?n ?q))) = int ?n" using n_side_le(1) [of bz] by (simp add: sc_ids_def)
    then show ?thesis using n_side_le(1) [of bz] summ_add_total [OF ok(3)]
      by (simp add: por_ledger_def bz' after_side_take_def of_nat_diff)
  qed
  ultimately show ?thesis using assms(2) unfolding chain_at_def by (simp add: bz' after_side_take_def)
qed

text \<open>What the messages, the committee and the wait groups leave alone.\<close>

definition same_chains :: "ChainBoost \<Rightarrow> ChainBoost \<Rightarrow> bool" where
  "same_chains bz bz' \<longleftrightarrow> mc bz' = mc bz \<and> sc bz' = sc bz \<and> SummPoRTxs bz' = SummPoRTxs bz \<and> cfg bz' = cfg bz \<and>
     MCRoundNumber bz' = MCRoundNumber bz"

lemma same_chains_at: "same_chains bz bz' \<Longrightarrow> chain_at n r bz' = chain_at n r bz \<and> por_ledger bz' = por_ledger bz"
  using chain_at_cong [of bz' bz] by (simp add: same_chains_def)

lemma same_chains_inv: "same_chains bz bz' \<Longrightarrow> chain_inv bz' = chain_inv bz \<and> por_ledger bz' = por_ledger bz"
  using same_chains_at [of bz bz'] by (simp add: chain_inv_def same_chains_def)

lemma summary_chain:
  assumes "summary_block w leader bz = Inr (bz', k)" and "chain_at n r bz"
  shows "chain_at n r bz' \<and> por_ledger bz' = por_ledger bz"
proof -
  let ?bz = "bz\<lparr>BlockType := ''Summary Block''\<rparr>"
  from assms(1) obtain bz1 due bz2 where
    s: "syncMainChainBCTransactionQueueCollect w ?bz = Inr (bz1, k)"
    and p: "(if due then StoragePaymentMainChainBCTransactionQueueCollect w bz1 else Inr bz1) = Inr bz2"
    and r: "updateSideChainBCRound w leader k bz2 = Inr bz'"
    unfolding summary_block_def by (auto elim!: bindR_InrE simp del: if_split)
  have 0: "chain_at n r ?bz" "por_ledger ?bz = por_ledger bz"
    using assms(2) same_chains_at [of bz ?bz] by (simp_all add: same_chains_def)
  note 1 = sync_chain [OF s 0(1)]
  have 2: "chain_at n r bz2 \<and> por_ledger bz2 = por_ledger bz1"
    using p 1 storage_chain [of w bz1 bz2] by (cases due) auto
  show ?thesis using round_row_chain [OF r, of n r] 0 1 2 by simp
qed

lemma post_summary_chain:
  assumes "post_summary w leader bz = Inr (bz', ids, k)" and "chain_at n r bz"
  shows "chain_at n r bz' \<and> por_ledger bz' = por_ledger bz"
proof -
  from assms(1) obtain bz1 bz2 where s: "summary_block w leader bz = Inr (bz1, k)"
    and d: "sc_round_done (bz1\<lparr>SCRoundNumber := 1\<rparr>) = Inr bz2" and c: "next_committee bz2 = Inr (bz', ids)"
    unfolding post_summary_def by (auto split: if_split_asm elim!: bindR_InrE)
  have "same_chains bz1 bz2" using d by (auto simp: sc_round_done_Inr same_chains_def)
  moreover have "same_chains bz2 bz'" using next_committee_Inr [OF c] by (auto simp: same_chains_def)
  ultimately show ?thesis
    using summary_chain [OF s assms(2)] same_chains_at [of bz1 bz2] same_chains_at [of bz2 bz'] by simp
qed

lemma post_meta_chain:
  assumes "post_meta w leader bz = Inr (bz', ids, k)" and "chain_at n r bz"
  shows "chain_at n r bz' \<and> por_ledger bz' = por_ledger bz"
proof -
  from assms(1) obtain bz1 bz2 where
    r: "updateSideChainBCRound w leader 0 bz = Inr bz1" and t: "updateSideChainBCTransactionQueueTake bz1 = Inr (bz2, k)"
    and d: "sc_round_done (bz2\<lparr>BlockType := ''Meta Block'', SCRoundNumber := SCRoundNumber bz2 + 1\<rparr>) = Inr bz'"
    unfolding post_meta_def by (auto simp: bindR_Inr_iff)
  have "same_chains bz2 bz'" using d by (auto simp: sc_round_done_Inr same_chains_def)
  then show ?thesis
    using round_row_chain [OF r assms(2)] side_take_chain [OF t, of n r] same_chains_at [of bz2 bz'] by simp
qed

lemma post_chain:
  assumes "SideChainRootPostNewRound w name msg bz = Inr (bz', waits)" and "chain_inv bz"
  shows "chain_inv bz' \<and> por_ledger bz' = por_ledger bz"
proof -
  let ?bz = "bz\<lparr>SCRoundNumber := ltr_SCRoundNumber msg, SCSig := ltr_SCSig msg\<rparr>"
  let ?n = "Suc (nat (MCRoundNumber bz))" and ?r = "MCRoundNumber bz"
  have N: "sc_rounds_per_epoch ?bz = sc_rounds_per_epoch bz" by (simp add: sc_rounds_per_epoch_def)
  from assms(1) obtain bz1 ids n where
    run: "(if sc_rounds_per_epoch bz = ltr_SCRoundNumber msg then post_summary w name ?bz else post_meta w name ?bz) = Inr (bz1, ids, n)"
    and bz': "same_chains bz1 bz'"
    unfolding SideChainRootPostNewRound_def Let_def N same_chains_def
    by (auto simp: bindR_Inr_iff SendTo_def split: if_splits option.splits)
  have "chain_at ?n ?r ?bz" "por_ledger ?bz = por_ledger bz"
    using assms(2) same_chains_at [of bz ?bz] by (simp_all add: chain_inv_def same_chains_def)
  then have "chain_at ?n ?r bz1 \<and> por_ledger bz1 = por_ledger bz"
    using run post_summary_chain [of w name ?bz bz1 ids n] post_meta_chain [of w name ?bz bz1 ids n]
    by (auto split: if_split_asm)
  then show ?thesis using same_chains_at [OF bz'] post_frame [OF assms(1)] assms(2) by (simp add: chain_inv_def)
qed

section \<open>A round of the main chain\<close>

lemma close_round_chain:
  assumes "close_round w leader msg bz = Inr bz'" and inv: "chain_inv bz"
  shows "chain_inv bz' \<and> por_ledger bz' = por_ledger bz + int (length (sc_txs w bz))"
proof -
  let ?n = "Suc (Suc (nat (MCRoundNumber bz)))" and ?r = "MCRoundNumber bz"
  from assms(1) obtain b :: TreeNode and bz1 bz2 bz3 where
    1: "updateBCPowerRound w (nd_Name b) bz = Inr bz1" "updateMainChainBCTransactionQueueCollect w bz1 = Inr bz2"
    and 2: "(if leader then updateMainChainBCTransactionQueueTake bz2 else Inr bz2) = Inr bz3"
    and 3: "readBCAndSendtoOthers w bz3 = Inr bz'"
    unfolding close_round_def
    by (auto split: option.split_asm elim!: bindR_InrE simp del: if_split)
  have r: "1 \<le> ?r" using inv by (simp add: chain_inv_def)
  note p = power_chain [OF 1(1) inv, of w]
  note c = collect_chain [OF 1(2), of ?n ?r]
  have "chain_at ?n (?r + 1) bz3 \<and> por_ledger bz3 = por_ledger bz2 \<and> MCRoundNumber bz3 = ?r"
  proof (cases leader)
    case True
    then show ?thesis using 2 p c r take_chain [of bz2 bz3 ?n] by simp
  next
    case False
    then show ?thesis using 2 p c chain_at_weaken [of ?n ?r bz2 "?r + 1"] by simp
  qed
  with announce_chain [OF 3] p c r show ?thesis by simp
qed

lemma start_main_chain:
  assumes "StartMainChainProtocol w bz = Inr bz'" and inv: "chain_inv bz"
  shows "chain_inv bz' \<and> por_ledger bz' = por_ledger bz + int (length (sc_txs w bz))"
proof -
  let ?n = "Suc (Suc (nat (MCRoundNumber bz)))" and ?r = "MCRoundNumber bz"
  from assms obtain bz1 bz2 bz3 bz4 where
    0: "(if SimState (cfg bz) = 2 then add_sc_rounds bz else Inr bz) = Inr bz1"
    and 1: "updateBCPowerRound w (nd_Name (self bz)) bz1 = Inr bz2" "updateMainChainBCTransactionQueueCollect w bz2 = Inr bz3"
    and 2: "updateMainChainBCTransactionQueueTake bz3 = Inr bz4"
    and 3: "readBCAndSendtoOthers w bz4 = Inr bz'"
    unfolding StartMainChainProtocol_def by (auto elim!: bindR_InrE simp del: if_split)
  have r: "1 \<le> ?r" using inv by (simp add: chain_inv_def)
  have same: "same_chains bz bz1" "SCRoundNumber bz1 = SCRoundNumber bz"
    using 0 by (auto simp: add_sc_rounds_def Let_def same_chains_def split: if_split_asm)
  then have "chain_inv bz1" "por_ledger bz1 = por_ledger bz" "MCRoundNumber bz1 = ?r" "sc_txs w bz1 = sc_txs w bz"
    using same_chains_inv [OF same(1)] inv sc_txs_cong [of bz1 bz w] by (simp_all add: same_chains_def)
  with power_chain [OF 1(1), of w] collect_chain [OF 1(2), of ?n ?r]
  have "chain_at ?n ?r bz3" "por_ledger bz3 = por_ledger bz + int (length (sc_txs w bz))" "MCRoundNumber bz3 = ?r" by auto
  with take_chain [OF 2, of ?n] announce_chain [OF 3] r show ?thesis by simp
qed

section \<open>Every step\<close>

lemma elect_same: "elect fr msg bz = (bz', new) \<Longrightarrow> same_chains bz bz'"
  by (auto simp: elect_def same_chains_def split: if_split_asm)

lemma enter_same:
  assumes "enter_round msg bz = Inr (bz', x)"
  shows "same_chains bz bz'"
proof (cases "round_case msg bz")
  case None
  then show ?thesis using assms by (auto simp: enter_round_def same_chains_def)
next
  case (Some l)
  from assms obtain bz1 where c: "(if l \<and> SimState (cfg bz) = 2 then UpdateSideChainCommittee msg bz else Inr bz) = Inr bz1"
    and x: "bz' = bz1"
    unfolding enter_round_def Some by (auto elim!: bindR_InrE simp del: if_split)
  have "UpdateSideChainCommittee msg bz = Inr bz1 \<Longrightarrow> same_chains bz bz1"
    by (auto simp: UpdateSideChainCommittee_def Let_def bindR_Inr_iff same_chains_def split: option.splits)
  then show ?thesis using c x by (auto simp: same_chains_def split: if_split_asm)
qed

lemma start_side_same: "StartSideChainProtocol w bz = Inr bz' \<Longrightarrow> same_chains bz bz'"
  by (auto simp: StartSideChainProtocol_def Let_def bindR_Inr_iff SendTo_def same_chains_def
      split: option.split_asm if_split_asm)

lemma root_step_chain:
  assumes "root_step w s s'" and inv: "chain_inv (rbz s)"
  shows "chain_inv (rbz s') \<and> por_ledger (rbz s') = por_ledger (rbz s) +
    (if MCRoundNumber (rbz s') = MCRoundNumber (rbz s) then 0 else int (length (sc_txs w (rbz s))))"
proof -
  have same: ?thesis if "same_chains (rbz s) (rbz s')"
    using that same_chains_inv [OF that] inv by (simp add: same_chains_def)
  from assms(1) show ?thesis
  proof cases
    case (dispatch_leader fr msg rest bz' new)
    then show ?thesis by (intro same) (auto simp: on_new_leader_def same_chains_def)
  next
    case (elect us fr msg vs bz' new)
    then show ?thesis using elect_same by (intro same) auto
  next
    case (enter us msg vs bz' x)
    then show ?thesis using enter_same by (intro same) auto
  next
    case (add_sc us leader msg vs bz')
    then show ?thesis by (intro same) (auto simp: add_sc_rounds_def Let_def same_chains_def split: if_split_asm)
  next
    case (close us leader msg vs bz')
    then show ?thesis using close_round_chain [OF close(3) inv] close_round_frame [OF close(3)] by simp
  next
    case (done_mc us vs bz')
    then show ?thesis by (intro same) (auto simp: mc_round_done_def same_chains_def split: if_split_asm)
  next
    case (timer ts t ts' bz' msgs)
    then show ?thesis by (intro same) (auto simp: fire_timer_def same_chains_def split: if_split_asm)
  next
    case (side_post us name lmsg vs bz' waits)
    then show ?thesis using post_chain [OF side_post(3) inv] post_frame [OF side_post(3)] by simp
  next
    case (side_resume us vs)
    then show ?thesis by (intro same) (auto simp: sc_round_resumed_def same_chains_def)
  next
    case (start_main us vs bz')
    then show ?thesis using start_main_chain [OF start_main(3) inv] start_main_frame [OF start_main(3)] by simp
  next
    case (start_side us vs bz')
    then show ?thesis using start_side_same by (intro same) auto
  qed (use inv in simp_all)
qed

text \<open>
  The root of a simulation: the databases of \<open>centralbc.go\<close> after
  \<open>finalMainChainBCInitialization\<close>, and no PoR counted yet.
\<close>

definition sim_start :: "world \<Rightarrow> ExperimentConfig \<Rightarrow> Root \<Rightarrow> bool" where
  "sim_start w exconf s \<longleftrightarrow> root_start s \<and> epochs_set (cfg (rbz s)) \<and> SummPoRTxs (rbz s) = [] \<and>
     InitializeSideChainBC None = Inr (sc (rbz s)) \<and> (\<exists>bz. main_start w exconf bz \<and> mc (rbz s) = mc bz)"

lemma main_start_rows:
  assumes "main_start w exconf bz"
  shows "round_numbers (mc bz) = [0, 1]" and "\<forall>(i, row) \<in> set (RoundTable (mc bz)). rt_ScPorTx row = 0"
    and "OverallEvaluation (mc bz) = []" and "FirstQueue (mc bz) = []" and "SyncTxQueue (mc bz) = []"
proof -
  from assms obtain nrm bz0 where g: "InitializeMainChainBC nrm w exconf None = Inr (mc bz0)"
    and f: "finalMainChainBCInitialization w bz0 = Inr bz"
    unfolding main_start_def genesis_def by blast
  note tabs = genesis_tables [OF g]
  have "RoundTable (mc bz) = RoundTable (mc bz0) \<and> OverallEvaluation (mc bz) = OverallEvaluation (mc bz0) \<and>
      FirstQueue (mc bz) = FirstQueue (mc bz0) \<and> SyncTxQueue (mc bz) = SyncTxQueue (mc bz0)"
    using f by (auto simp: finalMainChainBCInitialization_def Let_def AddMoreFieldsIntoTableInMainChain_def
        InitialInsertValuesIntoMainChainPowerTable_def bindR_Inr_iff split: if_splits)
  then show "round_numbers (mc bz) = [0, 1]" "\<forall>(i, row) \<in> set (RoundTable (mc bz)). rt_ScPorTx row = 0"
    "OverallEvaluation (mc bz) = []" "FirstQueue (mc bz) = []" "SyncTxQueue (mc bz) = []"
    using tabs by (simp_all add: round_numbers_def)
qed

lemma sim_start_chain:
  assumes "sim_start w exconf s"
  shows "chain_inv (rbz s)" and "por_ledger (rbz s) = 0"
proof -
  from assms obtain bz where m: "main_start w exconf bz" "mc (rbz s) = mc bz"
    and r: "root_start s" and e: "epochs_set (cfg (rbz s))" and sp: "SummPoRTxs (rbz s) = []"
    and side: "InitializeSideChainBC None = Inr (sc (rbz s))" unfolding sim_start_def by blast
  note rows = main_start_rows [OF m(1)]
  have q: "ScFirstQueue (sc (rbz s)) = []"
    using side by (cases "sc (rbz s)") (auto simp: InitializeSideChainBC_def InitalizeSideChainDbTables_def orPanic_Inr_iff)
  have n: "MCRoundNumber (rbz s) = 1"
    using r by (auto simp: root_start_def helloChainBoost_def split: if_split_asm)
  have "agreements_inv (mc (rbz s))" unfolding m(2) by (rule start_agreements [OF m(1)])
  moreover have "\<forall>(i, row) \<in> set (RoundTable (mc bz)). 1 \<le> rt_RoundNumber row \<longrightarrow> rt_ScPorTx row = 0"
    using rows(2) by fastforce
  ultimately show "chain_inv (rbz s)" using e sp rows q n
    by (simp add: chain_inv_def chain_at_def m(2) no_sync_def sc_queue_ok_def sc_rows_ok_def)
  have "\<forall>(i, row) \<in> set t. rt_ScPorTx row = 0 \<Longrightarrow> sum_list (map (\<lambda>(i, row). rt_ScPorTx row) t) = 0" for t :: "MainRoundRow table"
    by (induction t) auto
  from this [OF rows(2)]
  show "por_ledger (rbz s) = 0" by (simp add: por_ledger_def q sp m(2) rows gmap_total_def)
qed

interpretation chains: invariant_system "sim_start w exconf" "\<lambda>s s'. \<exists>w'. root_step w' s s'" "\<lambda>s. chain_inv (rbz s)" for w exconf
  by unfold_locales (use sim_start_chain root_step_chain in blast)+

section \<open>When a round can be closed\<close>

text \<open>An agreement that counts for the powers of round \<open>r\<close>.\<close>

definition counts_in :: "int \<Rightarrow> MarketMatchingRow \<Rightarrow> bool" where
  "counts_in r row \<longleftrightarrow> r - mm_StartedMcRoundNumber row \<le> mm_ServAgrDuration row"

lemma miner_servers_distinct: "distinct (map fst m) \<Longrightarrow> distinct (map fst (miner_servers r items m))"
  by (induction r items m rule: miner_servers.induct) (auto simp: distinct_gmap_add)

lemma gmap_add_not_Nil: "gmap_add k v m \<noteq> []"
  using keys_gmap_add [of k v m] by force

lemma miner_servers_Nil:
  "miner_servers r items m = [] \<longleftrightarrow> m = [] \<and> (\<forall>it \<in> set items. \<not> r - StartedMcRoundNumber it \<le> ServerAgrDuration it)"
  by (induction r items m rule: miner_servers.induct) (auto simp: gmap_add_not_Nil)

lemma scan_market_rows:
  "scan_market t = Inr items \<Longrightarrow> (\<forall>it \<in> set items. \<not> r - StartedMcRoundNumber it \<le> ServerAgrDuration it) \<longleftrightarrow>
     (\<forall>(i, row) \<in> set t. \<not> counts_in r row)"
proof (induction t arbitrary: items)
  case Nil
  then show ?case by simp
next
  case (Cons p t)
  obtain i row where p: "p = (i, row)" by (cases p)
  from Cons.prems obtain s rest where "mm_ServerInfo row = Some s" "scan_market t = Inr rest"
    and it: "items = \<lparr>MinerServer = s, FileSize = mm_FileSize row, ServerAgrDuration = mm_ServAgrDuration row,
           StartedMcRoundNumber = mm_StartedMcRoundNumber row, Published = mm_Published row,
           TxIssued = mm_TxIssued row\<rparr> # rest"
    by (auto simp: p bindR_Inr_iff split: option.splits)
  with Cons.IH [of rest] show ?case by (simp add: p counts_in_def)
qed

lemma power_cases:
  assumes "agreements_inv (mc bz)"
  shows "(\<forall>(i, row) \<in> set (MarketMatching (mc bz)). \<not> counts_in (MCRoundNumber bz) row) \<longrightarrow>
      updateBCPowerRound w leader bz = Inl (PanicSql SyntaxError)"
    and "\<not> (\<forall>(i, row) \<in> set (MarketMatching (mc bz)). \<not> counts_in (MCRoundNumber bz) row) \<longrightarrow>
      (\<exists>bz'. updateBCPowerRound w leader bz = Inr bz' \<and> (\<forall>(i, h, p) \<in> set (PowerTable (mc bz')). p \<noteq> None))"
proof -
  have "\<forall>(i, row) \<in> set (MarketMatching (mc bz)). mm_ServerInfo row \<noteq> None"
    using assms by (auto simp: agreements_inv_def market_ok_def)
  from scan_market_ok [OF this] obtain items where items: "scan_market (MarketMatching (mc bz)) = Inr items" by blast
  let ?ps = "miner_servers (MCRoundNumber bz) items []"
  let ?all = "\<forall>(i, row) \<in> set (MarketMatching (mc bz)). \<not> counts_in (MCRoundNumber bz) row"
  have nil: "?ps = [] \<longleftrightarrow> ?all" using miner_servers_Nil [of _ items "[]"] scan_market_rows [OF items] by simp
  have dist: "distinct (map fst ?ps)" using miner_servers_distinct [of "[]"] by simp
  show "?all \<longrightarrow> updateBCPowerRound w leader bz = Inl (PanicSql SyntaxError)"
    using nil items
    by (simp add: updateBCPowerRound_def Let_def InsertIntoMainChainRoundTable_def MainChainGetMarketMatchingRows_def
        MainChainUpdatePowerTable_def)
  show "\<not> ?all \<longrightarrow> (\<exists>bz'. updateBCPowerRound w leader bz = Inr bz' \<and> (\<forall>(i, h, p) \<in> set (PowerTable (mc bz')). p \<noteq> None))"
  proof
    assume "\<not> ?all"
    then have ne: "?ps \<noteq> []" using nil by simp
    let ?t = "tbl_insert_all (map (\<lambda>(h, p). (h, Some p)) ?ps) []"
    have "\<forall>q \<in> set (map snd ?t). snd q \<noteq> None" unfolding rows_insert_all by auto
    then have "\<forall>(i, h, p) \<in> set ?t. p \<noteq> None" by (simp only: set_map ball_simps case_prod_unfold)
    then show "\<exists>bz'. updateBCPowerRound w leader bz = Inr bz' \<and> (\<forall>(i, h, p) \<in> set (PowerTable (mc bz')). p \<noteq> None)"
      using ne dist items
      by (simp add: updateBCPowerRound_def Let_def InsertIntoMainChainRoundTable_def MainChainGetMarketMatchingRows_def
          MainChainUpdatePowerTable_def)
  qed
qed

lemma scan_powers_ok: "\<forall>(i, h, p) \<in> set t. p \<noteq> None \<Longrightarrow> \<exists>m'. scan_powers t m = Inr m'"
  by (induction t m rule: scan_powers.induct) auto

lemma foldl_max_in: "foldl max (x :: int) xs \<in> set (x # xs)"
proof (induction xs arbitrary: x)
  case (Cons y ys)
  then show ?case using Cons.IH [of "max x y"] by (auto simp: max_def)
qed simp

lemma last_seed_ok:
  assumes "RoundTable db \<noteq> []"
  shows "\<exists>seed. MainChainGetLastRoundSeed db = Inr seed"
proof -
  obtain r rs where rows: "map (rt_RoundNumber \<circ> snd) (RoundTable db) = r # rs"
    using assms by (cases "RoundTable db") auto
  then have "max_round db \<in> set (map (rt_RoundNumber \<circ> snd) (RoundTable db))"
    unfolding max_round_def using foldl_max_in [of r rs] by simp
  then obtain p where "p \<in> set (RoundTable db)" "rt_RoundNumber (snd p) = max_round db" by auto
  then have "filter (\<lambda>(i, r). rt_RoundNumber r = max_round db) (RoundTable db) \<noteq> []"
    by (auto simp: filter_empty_conv case_prod_unfold)
  then show ?thesis by (auto simp: MainChainGetLastRoundSeed_def split: list.split)
qed

lemma send_new_round_ok:
  assumes "\<And>i. sendOk w i"
  shows "\<exists>bz'. send_new_round w ps seed bs bz = Inr bz'"
  using assms
  by (induction w ps seed bs bz rule: send_new_round.induct) (auto simp: SendTo_def split: option.split)

lemma announce_ok:
  assumes "RoundTable (mc bz) \<noteq> []" and "\<forall>(i, h, p) \<in> set (PowerTable (mc bz)). p \<noteq> None" and "\<And>i. sendOk w i"
  shows "\<exists>bz'. readBCAndSendtoOthers w bz = Inr bz'"
proof -
  obtain seed where "MainChainGetLastRoundSeed (mc bz) = Inr seed" using last_seed_ok [OF assms(1)] by blast
  moreover obtain m where "MainChainGetPowerTable (mc bz) = Inr m"
    using scan_powers_ok [OF assms(2), of Map.empty] by (auto simp: MainChainGetPowerTable_def)
  moreover obtain bz' where "send_new_round w m seed (nodes bz) (bz\<lparr>MCRoundNumber := MCRoundNumber bz + 1, HasLeader := False\<rparr>) = Inr bz'"
    using send_new_round_ok [OF assms(3)] by blast
  ultimately show ?thesis by (simp add: readBCAndSendtoOthers_def readBCPowersAndSeed_def)
qed

lemma block_ok:
  assumes inv: "chain_inv bz" and pay: "0 < PayPercentOfTransactions bz" "PayPercentOfTransactions bz \<le> 1"
    and send: "\<And>i. sendOk w i" and p: "updateBCPowerRound w l bz = Inr bz1"
    and pt: "\<forall>(i, h, p) \<in> set (PowerTable (mc bz1)). p \<noteq> None"
  shows "\<exists>bz2 bz3 bz'. updateMainChainBCTransactionQueueCollect w bz1 = Inr bz2 \<and>
    (if leader then updateMainChainBCTransactionQueueTake bz2 else Inr bz2) = Inr bz3 \<and> readBCAndSendtoOthers w bz3 = Inr bz'"
proof -
  let ?n = "Suc (Suc (nat (MCRoundNumber bz)))"
  have at1: "chain_at ?n (MCRoundNumber bz) bz1" and r1: "MCRoundNumber bz1 = MCRoundNumber bz" using power_chain [OF p inv] by auto
  have pay1: "PayPercentOfTransactions bz1 = PayPercentOfTransactions bz" using power_Inr [OF p] by auto
  obtain n where c: "updateMainChainBCTransactionQueueCollect w bz1 = Inr (after_collect w bz1 n)"
    using collect_returns [of bz1 w] at1 epochs_divide [of bz1] pay pay1 by (auto simp: chain_at_def)
  let ?bz2 = "after_collect w bz1 n"
  have at2: "chain_at ?n (MCRoundNumber ?bz2) ?bz2" using collect_chain [OF c at1] r1 by simp
  have rt: "RoundTable (mc ?bz2) \<noteq> []" using round_fresh_chain [OF at2] by (simp add: round_fresh_def)
  have pt2: "PowerTable (mc ?bz2) = PowerTable (mc bz1)" by (simp add: after_collect_def)
  have "queues_wf (mc ?bz2)" using at2 by (simp add: chain_at_def agreements_inv_def)
  from take_returns [OF this round_fresh_chain [OF at2]] obtain ov where
    t: "updateMainChainBCTransactionQueueTake ?bz2 = Inr (after_take ?bz2 ov)" by auto
  let ?bz3 = "if leader then after_take ?bz2 ov else ?bz2"
  have "RoundTable (mc ?bz3) \<noteq> []" "\<forall>(i, h, p) \<in> set (PowerTable (mc ?bz3)). p \<noteq> None"
    using rt pt pt2 by (simp_all add: tbl_update_def)
  from announce_ok [OF this send] c t show ?thesis by auto
qed

lemma close_round_cases:
  assumes inv: "chain_inv bz" and pay: "0 < PayPercentOfTransactions bz" "PayPercentOfTransactions bz \<le> 1"
    and send: "\<And>i. sendOk w i" and node: "nl_LeaderTreeNodeID msg \<in> ids_of bz"
  shows "(if \<exists>(i, row) \<in> set (MarketMatching (mc bz)). counts_in (MCRoundNumber bz) row
    then \<exists>bz'. close_round w leader msg bz = Inr bz'
    else close_round w leader msg bz = Inl (PanicSql SyntaxError))"
proof -
  have ag: "agreements_inv (mc bz)" using inv by (simp add: chain_inv_def chain_at_def)
  obtain b where b: "Search (nodes bz) (nl_LeaderTreeNodeID msg) = Some b"
    using node by (cases "Search (nodes bz) (nl_LeaderTreeNodeID msg)") (auto simp: Search_None_iff ids_of_def)
  show ?thesis
  proof (cases "\<exists>(i, row) \<in> set (MarketMatching (mc bz)). counts_in (MCRoundNumber bz) row")
    case True
    then obtain bz1 where p: "updateBCPowerRound w (nd_Name b) bz = Inr bz1" and pt: "\<forall>(i, h, p) \<in> set (PowerTable (mc bz1)). p \<noteq> None"
      using power_cases(2) [OF ag, of w "nd_Name b"] by auto
    obtain bz2 bz3 bz' where run: "updateMainChainBCTransactionQueueCollect w bz1 = Inr bz2"
      "(if leader then updateMainChainBCTransactionQueueTake bz2 else Inr bz2) = Inr bz3" "readBCAndSendtoOthers w bz3 = Inr bz'"
      using block_ok [OF inv pay send p pt, of leader] by blast
    have "close_round w leader msg bz = Inr bz'"
      unfolding close_round_def b option.case p bindR_simps run(1) run(2) run(3) ..
    then show ?thesis using True by auto
  next
    case False
    then have "updateBCPowerRound w (nd_Name b) bz = Inl (PanicSql SyntaxError)"
      using power_cases(1) [OF ag, of w "nd_Name b"] by auto
    then show ?thesis using False by (simp add: close_round_def b)
  qed
qed

end
