(* ===== verification/RootRun.thy ===== *)
theory RootRun
  imports RootChain
begin

text \<open>
  The chains in every state the root of a simulation can reach, with the sample simulation of one
  server and one agreement.
\<close>

section \<open>A sample simulation\<close>

definition sample_sim_bz :: ChainBoost where
  "sample_sim_bz = sample_ready\<lparr>mc := mc sample_started\<rparr>"

definition sample_sim :: Root where
  "sample_sim = sample_root sample_sim_bz [StartMain]"

lemma sample_sim_bz_fields:
  "mc sample_sim_bz = mc sample_started" "MCRoundNumber sample_sim_bz = 1" "PayPercentOfTransactions sample_sim_bz = 1 / 50"
  "SimState (cfg sample_sim_bz) = 1" "nodes sample_sim_bz = sample_nodes" "self sample_sim_bz = hd sample_nodes"
  "SummPoRTxs sample_sim_bz = []" "sc sample_sim_bz = sample_scdb" "epochs_set (cfg sample_sim_bz)" "HasLeader sample_sim_bz = False"
  "timers sample_sim_bz = []"
  by (simp_all add: sample_sim_bz_def sample_ready_def sample_bz_def sample_cfg_def epochs_set_def)

lemma sample_sim_start: "sim_start sample_world sample_exconf sample_sim"
proof -
  have "helloChainBoost sample_sim_bz = Inr (sample_sim_bz, [StartMain])" "nd_IsRoot (self sample_sim_bz)" "BlsCosiStarted sample_sim_bz"
    by (simp_all add: helloChainBoost_def sample_sim_bz_def sample_ready_def sample_bz_def sample_nodes_def sample_cfg_def)
  then have "root_start sample_sim"
    unfolding root_start_def sample_sim_def sample_root_def
    by (intro exI [of _ sample_sim_bz] exI [of _ "[StartMain]"]) (simp add: sample_sim_bz_fields)
  moreover have "InitializeSideChainBC None = Inr (sc (rbz sample_sim))"
    by (simp add: sample_sim_def sample_root_def sample_sim_bz_fields sample_scdb_def InitializeSideChainBC_def
        InitalizeSideChainDbTables_def)
  ultimately show ?thesis
    using sample_main_start
    by (auto simp: sim_start_def sample_sim_def sample_root_def sample_sim_bz_fields)
qed

lemma sample_sim_chain: "chain_inv sample_sim_bz"
  using sim_start_chain(1) [OF sample_sim_start] by (simp add: sample_sim_def sample_root_def)

text \<open>Its first block is built.\<close>

lemma sample_first_block: "\<exists>bz'. StartMainChainProtocol sample_world sample_sim_bz = Inr bz'"
proof -
  have ag: "agreements_inv (mc sample_sim_bz)" using sample_sim_chain by (simp add: chain_inv_def chain_at_def)
  have "(1, sample_row True True) \<in> set (MarketMatching (mc sample_sim_bz))"
    by (simp add: sample_sim_bz_fields sample_started)
  moreover have "counts_in 1 (sample_row True True)" by (simp add: counts_in_def sample_row_def)
  ultimately obtain bz1 where p: "updateBCPowerRound sample_world (nd_Name (self sample_sim_bz)) sample_sim_bz = Inr bz1"
    and pt: "\<forall>(i, h, p) \<in> set (PowerTable (mc bz1)). p \<noteq> None"
    using power_cases(2) [OF ag, of sample_world "nd_Name (self sample_sim_bz)"] unfolding sample_sim_bz_fields(2) by blast
  have "epoch_check sample_sim_bz = Inr ()" by (simp add: epoch_check_def sample_sim_bz_fields)
  moreover have "\<And>i. sendOk sample_world i" by (simp add: sample_world_def)
  ultimately show ?thesis
    using block_ok [OF sample_sim_chain _ _ _ p pt, of True] p
    by (auto simp: StartMainChainProtocol_def sample_sim_bz_fields)
qed

section \<open>Properties\<close>

text \<open>
  C2: (invariant) In every state the root of a simulation can reach, whatever the order of messages,
  timers and goroutines of both chains, the round table has exactly one row for each round from 0 to
  the current one, in order: no round is skipped or recorded twice. The row of the current round counts
  no PoR yet, and the overall evaluation has results of earlier rounds only.
\<close>

theorem one_row_per_round:
  assumes "reachable (sim_start w exconf) (\<lambda>s s'. \<exists>w'. root_step w' s s') s"
  shows "1 \<le> MCRoundNumber (rbz s) \<and>
    map (rt_RoundNumber \<circ> snd) (RoundTable (mc (rbz s))) = map int [0..<Suc (nat (MCRoundNumber (rbz s)))] \<and>
    (\<forall>(i, row) \<in> set (RoundTable (mc (rbz s))). rt_RoundNumber row = MCRoundNumber (rbz s) \<longrightarrow> rt_ScPorTx row = 0) \<and>
    (\<forall>(i, res) \<in> set (OverallEvaluation (mc (rbz s))). mo_RoundNbr res < MCRoundNumber (rbz s))"
  using chains.reachable_inv [OF assms] by (fastforce simp: chain_inv_def chain_at_def round_numbers_def)

lemma one_row_per_round_witness:
  "\<exists>s :: Root. map (rt_RoundNumber \<circ> snd) (RoundTable (mc (rbz s))) = [0, 1, 2]"
proof -
  obtain bz' where b: "StartMainChainProtocol sample_world sample_sim_bz = Inr bz'" using sample_first_block by blast
  let ?s = "sample_sim\<lparr>rbz := bz', workers := [] @ []\<rparr>"
  have "root_step sample_world sample_sim ?s"
    using b by (intro root_step.start_main) (simp_all add: sample_sim_def sample_root_def)
  then have "reachable (sim_start sample_world sample_exconf) (\<lambda>s s'. \<exists>w'. root_step w' s s') ?s"
    using at_start [of "sim_start sample_world sample_exconf", OF sample_sim_start] next_step by (smt (verit))
  from one_row_per_round [OF this] start_main_frame [OF b] show ?thesis
    by (intro exI [of _ ?s]) (simp add: sample_sim_bz_fields numeral_eq_Suc)
qed

text \<open>
  C5: (invariant) A PoR is never lost and never counted twice: in every reachable state those that wait in the
  side chain's queue, those counted in the summary, those in sync transactions that wait and those
  recorded in the main chain's round table change together only when a round is built, by the
  number of agreements that issue a PoR for it.
\<close>

theorem pors_conserved:
  assumes "reachable (sim_start w exconf) (\<lambda>s s'. \<exists>w'. root_step w' s s') s" and "root_step w' s s'"
  shows "(let ledger = (\<lambda>bz. int (length (ScFirstQueue (sc bz))) + gmap_total (SummPoRTxs bz) +
        sum_list (map (\<lambda>(i, e). fq_ServAgrId e) (SyncTxQueue (mc bz))) +
        sum_list (map (\<lambda>(i, row). rt_ScPorTx row) (RoundTable (mc bz))))
    in ledger (rbz s') = ledger (rbz s) +
      (if MCRoundNumber (rbz s') = MCRoundNumber (rbz s) \<or> SimState (cfg (rbz s)) \<noteq> 2 then 0
       else int (length (filter (\<lambda>(i, row). is_serving (MCRoundNumber (rbz s)) row) (MarketMatching (mc (rbz s)))))))"
proof -
  have "length (sc_txs w' bz) = (if SimState (cfg bz) \<noteq> 2 then 0
      else length (filter (\<lambda>(i, row). is_serving (MCRoundNumber bz) row) (MarketMatching (mc bz))))" for bz
  proof -
    have "length (concat (map (agr_sc_txs w' bz) t)) = (if SimState (cfg bz) \<noteq> 2 then 0
      else length (filter (\<lambda>(i, row). is_serving (MCRoundNumber bz) row) t))" for t
      by (induction t) (auto simp: agr_sc_txs_def)
    then show ?thesis by (simp add: sc_txs_def)
  qed
  then show ?thesis
    using root_step_chain [OF assms(2) chains.reachable_inv [OF assms(1)]]
    by (simp add: Let_def por_ledger_def)
qed

lemma pors_conserved_witness:
  "\<exists>s' :: Root. root_step sample_world sample_sim s' \<and> MCRoundNumber (rbz s') = 2 \<and> por_ledger (rbz s') = 0"
proof -
  obtain bz' where b: "StartMainChainProtocol sample_world sample_sim_bz = Inr bz'" using sample_first_block by blast
  let ?s = "sample_sim\<lparr>rbz := bz', workers := [] @ []\<rparr>"
  have step: "root_step sample_world sample_sim ?s"
    using b by (intro root_step.start_main) (simp_all add: sample_sim_def sample_root_def)
  have "MCRoundNumber bz' = 2" using start_main_frame [OF b] by (simp add: sample_sim_bz_fields)
  moreover have "por_ledger bz' = 0"
    using pors_conserved [OF at_start [of "sim_start sample_world sample_exconf", OF sample_sim_start] step]
      sim_start_chain(2) [OF sample_sim_start]
    by (simp add: Let_def por_ledger_def sample_sim_def sample_root_def sample_sim_bz_fields)
  ultimately show ?thesis using step by (intro exI [of _ ?s]) simp
qed

text \<open>
  C32: (error) In every reachable state a goroutine about to build a block for a known leader succeeds when at least one agreement has
  not run out, and panics with a syntax error when all have: the power table cannot be rewritten
  with no server. The payments must not be unbounded and all nodes must be reachable.
\<close>

theorem block_fails_iff_no_agreement:
  assumes "reachable (sim_start w exconf) (\<lambda>s s'. \<exists>w'. root_step w' s s') s"
    and "0 < PayPercentOfTransactions (rbz s)" and "PayPercentOfTransactions (rbz s) \<le> 1" and "\<And>i. sendOk w' i"
    and "nl_LeaderTreeNodeID msg \<in> nd_ID ` set (nodes (rbz s))"
  shows "(if \<exists>(i, row) \<in> set (MarketMatching (mc (rbz s))).
        MCRoundNumber (rbz s) - mm_StartedMcRoundNumber row \<le> mm_ServAgrDuration row
    then \<exists>bz'. close_round w' leader msg (rbz s) = Inr bz'
    else close_round w' leader msg (rbz s) = Inl (PanicSql SyntaxError))"
  using close_round_cases [OF chains.reachable_inv [OF assms(1)] assms(2-4)] assms(5)
  by (simp add: ids_of_def counts_in_def)

lemma block_fails_iff_no_agreement_witness:
  "\<exists>bz'. close_round sample_world True (sample_leader 1) (rbz sample_sim) = Inr bz'"
proof -
  have 1: "rbz sample_sim = sample_sim_bz" by (simp add: sample_sim_def sample_root_def)
  have "\<exists>(i, row) \<in> set (MarketMatching (mc (rbz sample_sim))).
      MCRoundNumber (rbz sample_sim) - mm_StartedMcRoundNumber row \<le> mm_ServAgrDuration row"
    by (simp add: 1 sample_sim_bz_fields sample_started sample_row_def)
  then show ?thesis
    using block_fails_iff_no_agreement [OF at_start [of "sim_start sample_world sample_exconf", OF sample_sim_start],
        of sample_world "sample_leader 1" True]
    by (simp add: 1 sample_sim_bz_fields sample_world_def sample_leader_def sample_nodes_def)
qed

end
