(* ===== verification/OnetRoster.thy ===== *)
theory OnetRoster
  imports Prelude Measurements "HOL-Library.Multiset"
begin

text \<open>
  Rosters: the lists of servers a protocol runs on (\<open>Roster\<close> in \<open>onet/tree.go\<close>) and the server
  identities of \<open>onet/network/struct.go\<close>. The points of kyber, SHA-256 and the name-based UUIDs
  are parameters.
\<close>

section \<open>Identities\<close>

type_synonym uuid = "128 word"

text \<open>A nil public key is None.\<close>

record 'p ServiceIdentity =
  sv_Name :: string
  sv_Public :: "'p option"

record 'p ServerIdentity =
  si_Public :: "'p option"
  ServiceIdentities :: "'p ServiceIdentity list"
  si_ID :: uuid
  si_Address :: string

record 'p crypto =
  PointBytes :: "'p \<Rightarrow> bytes"
  PointString :: "'p \<Rightarrow> string"
  PointAdd :: "'p \<Rightarrow> 'p \<Rightarrow> 'p"
  PointNull :: 'p
  UuidURL :: "string \<Rightarrow> uuid"
  UuidString :: "uuid \<Rightarrow> string"
  Sha256Hex :: "bytes \<Rightarrow> string"

definition NamespaceURL :: string where
  "NamespaceURL = ''https://dedis.epfl.ch/''"

text \<open>A method call on a nil interface.\<close>

definition nonnil :: "'a option \<Rightarrow> fault + 'a" where
  "nonnil x = (case x of None \<Rightarrow> Inl NilPanic | Some a \<Rightarrow> Inr a)"

definition si_GetID :: "'p crypto \<Rightarrow> 'p ServerIdentity \<Rightarrow> uuid" where
  "si_GetID c si = (case si_Public si of None \<Rightarrow> 0 | Some p \<Rightarrow> UuidURL c (NamespaceURL @ ''id/'' @ PointString c p))"

definition NewServerIdentity :: "'p crypto \<Rightarrow> 'p option \<Rightarrow> string \<Rightarrow> 'p ServerIdentity" where
  "NewServerIdentity c pub address =
    (let si = \<lparr>si_Public = pub, ServiceIdentities = [], si_ID = 0, si_Address = address\<rparr>
     in si\<lparr>si_ID := si_GetID c si\<rparr>)"

text \<open>Equality of server identities is equality of their public keys.\<close>

definition si_Equal :: "'p ServerIdentity \<Rightarrow> 'p ServerIdentity \<Rightarrow> bool" where
  "si_Equal si e2 = (case (si_Public si, si_Public e2) of (Some p, Some q) \<Rightarrow> p = q | _ \<Rightarrow> False)"

fun service_public :: "string \<Rightarrow> 'p ServiceIdentity list \<Rightarrow> 'p option \<Rightarrow> 'p option" where
  "service_public name [] dflt = dflt"
| "service_public name (sv # svs) dflt = (if sv_Name sv = name then sv_Public sv else service_public name svs dflt)"

definition ServicePublic :: "string \<Rightarrow> 'p ServerIdentity \<Rightarrow> 'p option" where
  "ServicePublic name si = service_public name (ServiceIdentities si) (si_Public si)"

fun has_service_public :: "string \<Rightarrow> 'p ServiceIdentity list \<Rightarrow> bool" where
  "has_service_public name [] = False"
| "has_service_public name (sv # svs) = (if sv_Name sv = name \<and> sv_Public sv \<noteq> None then True else has_service_public name svs)"

definition HasServicePublic :: "string \<Rightarrow> 'p ServerIdentity \<Rightarrow> bool" where
  "HasServicePublic name si = has_service_public name (ServiceIdentities si)"

section \<open>Rosters\<close>

record 'p ORoster =
  ro_ID :: uuid
  ro_List :: "'p ServerIdentity list"
  ro_Aggregate :: "'p option"

text \<open>What is hashed: the server's key and those of its services, for every server.\<close>

fun points_bytes :: "'p crypto \<Rightarrow> 'p option list \<Rightarrow> fault + bytes" where
  "points_bytes c [] = Inr []"
| "points_bytes c (p # ps) =
     bindR (nonnil p) (\<lambda>q. bindR (points_bytes c ps) (\<lambda>bs. Inr (PointBytes c q @ bs)))"

definition hashed_keys :: "'p ServerIdentity list \<Rightarrow> 'p option list" where
  "hashed_keys ids = concat (map (\<lambda>si. si_Public si # map sv_Public (ServiceIdentities si)) ids)"

definition keys_id :: "'p crypto \<Rightarrow> 'p ServerIdentity list \<Rightarrow> fault + uuid" where
  "keys_id c ids = bindR (points_bytes c (hashed_keys ids)) (\<lambda>bs. Inr (UuidURL c (Sha256Hex c bs)))"

definition add_point :: "'p crypto \<Rightarrow> 'p \<Rightarrow> 'p option \<Rightarrow> 'p" where
  "add_point c agg p = (case p of None \<Rightarrow> agg | Some q \<Rightarrow> PointAdd c agg q)"

text \<open>None is the nil roster.\<close>

definition NewRoster :: "'p crypto \<Rightarrow> 'p ServerIdentity list \<Rightarrow> fault + 'p ORoster option" where
  "NewRoster c ids =
    (case ids of
       [] \<Rightarrow> Inr None
     | s # _ \<Rightarrow>
         if si_Public s = None then Inr None
         else bindR (keys_id c ids) (\<lambda>i.
           Inr (Some \<lparr>ro_ID = i, ro_List = ids,
                      ro_Aggregate = Some (foldl (add_point c) (PointNull c) (map si_Public ids))\<rparr>)))"

definition ro_GetID :: "'p crypto \<Rightarrow> 'p ORoster \<Rightarrow> fault + uuid" where
  "ro_GetID c ro = keys_id c (ro_List ro)"

fun search_from :: "nat \<Rightarrow> 'p ServerIdentity list \<Rightarrow> uuid \<Rightarrow> (int \<times> 'p ServerIdentity) option" where
  "search_from i [] eID = None"
| "search_from i (e # es) eID = (if si_ID e = eID then Some (int i, e) else search_from (Suc i) es eID)"

text \<open>None is the result \<open>-1, nil\<close>.\<close>

definition ro_Search :: "'p ORoster \<Rightarrow> uuid \<Rightarrow> (int \<times> 'p ServerIdentity) option" where
  "ro_Search ro eID = search_from 0 (ro_List ro) eID"

definition ro_Get :: "'p ORoster \<Rightarrow> int \<Rightarrow> fault + 'p ServerIdentity option" where
  "ro_Get ro idx =
    (if idx < 0 \<or> idx > int (length (ro_List ro)) then Inr None
     else if idx < int (length (ro_List ro)) then Inr (Some (ro_List ro ! nat idx)) else Inl IndexPanic)"

definition Publics :: "'p ORoster \<Rightarrow> 'p option list" where
  "Publics ro = map si_Public (ro_List ro)"

definition ServicePublics :: "string \<Rightarrow> 'p ORoster \<Rightarrow> 'p option list" where
  "ServicePublics name ro = map (ServicePublic name) (ro_List ro)"

fun add_points :: "'p crypto \<Rightarrow> 'p \<Rightarrow> 'p option list \<Rightarrow> fault + 'p" where
  "add_points c agg [] = Inr agg"
| "add_points c agg (p # ps) = bindR (nonnil p) (\<lambda>q. add_points c (PointAdd c agg q) ps)"

definition ServiceAggregate :: "'p crypto \<Rightarrow> string \<Rightarrow> 'p ORoster \<Rightarrow> fault + 'p" where
  "ServiceAggregate c name ro =
    (if \<exists>si \<in> set (ro_List ro). \<not> HasServicePublic name si then Inl (ErrRet ''not all nodes have this service keypair'')
     else case ro_List ro of
       [] \<Rightarrow> Inl IndexPanic
     | s # _ \<Rightarrow> bindR (nonnil (ServicePublic name s)) (\<lambda>_. add_points c (PointNull c) (ServicePublics name ro)))"

definition NewRosterWithRoot :: "'p crypto \<Rightarrow> 'p ORoster \<Rightarrow> 'p ServerIdentity \<Rightarrow> fault + 'p ORoster option" where
  "NewRosterWithRoot c ro rootSi =
    (case ro_Search ro (si_ID rootSi) of
       None \<Rightarrow> Inr None
     | Some (i, _) \<Rightarrow>
         let l = ro_List ro in NewRoster c (l[0 := l ! nat i, nat i := l ! 0]))"

text \<open>\<open>perm\<close> is the permutation of \<open>securePermute\<close>.\<close>

fun pick_subset :: "'p ServerIdentity list \<Rightarrow> uuid \<Rightarrow> int \<Rightarrow> nat list \<Rightarrow> 'p ServerIdentity list \<Rightarrow> 'p ServerIdentity list" where
  "pick_subset l rid n [] out = out"
| "pick_subset l rid n (p # ps) out =
     (if si_ID (l ! p) \<noteq> rid then
        let out' = out @ [l ! p] in if int (length out') = n + 1 then out' else pick_subset l rid n ps out'
      else pick_subset l rid n ps out)"

definition RandomSubset :: "'p crypto \<Rightarrow> nat list \<Rightarrow> 'p ORoster \<Rightarrow> 'p ServerIdentity \<Rightarrow> int \<Rightarrow> fault + 'p ORoster option" where
  "RandomSubset c perm ro rootSi n =
    (let k = (if n > int (length (ro_List ro)) then int (length (ro_List ro)) else n)
     in if k + 1 < 1 then Inl (PanicMsg ''makeslice: cap out of range'')
        else NewRoster c (pick_subset (ro_List ro) (si_ID rootSi) k perm [rootSi]))"

text \<open>The number of servers of the target in front of the first server of the receiver.\<close>

fun offset_of :: "'p ServerIdentity \<Rightarrow> 'p ServerIdentity list \<Rightarrow> nat" where
  "offset_of s [] = 0"
| "offset_of s (e # es) = (if si_Equal e s then 0 else Suc (offset_of s es))"

definition IsRotation :: "'p ORoster \<Rightarrow> 'p ORoster option \<Rightarrow> bool" where
  "IsRotation ro target =
    (case target of None \<Rightarrow> False
     | Some t \<Rightarrow>
        let n = length (ro_List ro) in
        if n < 2 then False
        else if n \<noteq> length (ro_List t) then False
        else let off = offset_of (hd (ro_List ro)) (ro_List t) in
          if off = 0 \<or> off \<ge> n then False
          else \<forall>i \<in> set [0..<n]. si_Equal (ro_List ro ! i) (ro_List t ! ((i + off) mod n)))"

text \<open>The keys are looked up in a table of the texts of the given keys.\<close>

fun all_in_table :: "'p crypto \<Rightarrow> string list \<Rightarrow> 'p option list \<Rightarrow> fault + bool" where
  "all_in_table c table [] = Inr True"
| "all_in_table c table (p # ps) =
     bindR (nonnil p) (\<lambda>q. if PointString c q \<notin> set table then Inr False else all_in_table c table ps)"

definition Contains :: "'p crypto \<Rightarrow> 'p ORoster \<Rightarrow> 'p list \<Rightarrow> fault + bool" where
  "Contains c ro pubs =
    (if length (ro_List ro) \<noteq> length pubs then Inr False
     else all_in_table c (map (PointString c) pubs) (Publics ro))"

definition ro_Equal :: "'p crypto \<Rightarrow> 'p ORoster \<Rightarrow> 'p ORoster \<Rightarrow> fault + bool" where
  "ro_Equal c ro other = bindR (ro_GetID c ro) (\<lambda>i. bindR (ro_GetID c other) (\<lambda>j. Inr (i = j)))"

text \<open>A nil receiver or roster is dereferenced.\<close>

definition Concat :: "'p crypto \<Rightarrow> 'p ORoster \<Rightarrow> 'p ServerIdentity list \<Rightarrow> fault + 'p ORoster option" where
  "Concat c ro sis =
     bindR (NewRoster c (ro_List ro)) (\<lambda>r. bindR (nonnil r) (\<lambda>tmp.
     NewRoster c (foldl (\<lambda>l si. if search_from 0 l (si_ID si) = None then l @ [si] else l) (ro_List tmp) sis)))"

section \<open>Facts\<close>

lemma search_from_Some:
  "search_from k l eID = Some (i, e) \<Longrightarrow> \<exists>j < length l. i = int (k + j) \<and> l ! j = e \<and> si_ID e = eID \<and> (\<forall>m < j. si_ID (l ! m) \<noteq> eID)"
proof (induction k l eID rule: search_from.induct)
  case (2 k a l eID)
  show ?case
  proof (cases "si_ID a = eID")
    case True
    then show ?thesis using 2 by (intro exI [of _ 0]) auto
  next
    case False
    then obtain j where "j < length l" "i = int (Suc k + j)" "l ! j = e" "si_ID e = eID" "\<forall>m < j. si_ID (l ! m) \<noteq> eID"
      using 2 by auto
    then show ?thesis using False by (intro exI [of _ "Suc j"]) (auto simp: nth_Cons' less_Suc_eq_0_disj)
  qed
qed simp

lemma search_from_None_iff: "search_from k l eID = None \<longleftrightarrow> eID \<notin> si_ID ` set l"
  by (induction k l eID rule: search_from.induct) auto

lemma search_from_distinct:
  assumes "distinct (map si_ID l)" and "j < length l"
  shows "search_from k l (si_ID (l ! j)) = Some (int (k + j), l ! j)"
proof -
  have "search_from k l (si_ID (l ! j)) \<noteq> None" using assms(2) by (auto simp: search_from_None_iff)
  then obtain i e where r: "search_from k l (si_ID (l ! j)) = Some (i, e)" by auto
  from search_from_Some [OF this] obtain m where m: "m < length l" "i = int (k + m)" "l ! m = e" "si_ID e = si_ID (l ! j)" by blast
  then have "m = j" using assms by (metis nth_eq_iff_index_eq nth_map length_map)
  then show ?thesis using r m by simp
qed

definition keyed :: "'p ServerIdentity list \<Rightarrow> bool" where
  "keyed ids \<longleftrightarrow> None \<notin> set (hashed_keys ids)"

lemma points_bytes_ok: "None \<notin> set ps \<Longrightarrow> \<exists>bs. points_bytes c ps = Inr bs"
proof (induction ps)
  case (Cons p ps)
  then obtain q where "p = Some q" by (cases p) auto
  with Cons show ?case by (auto simp: nonnil_def)
qed simp

lemma NewRoster_ok:
  assumes "keyed ids" and "ids \<noteq> []"
  shows "\<exists>r. NewRoster c ids = Inr (Some r) \<and> ro_List r = ids"
proof -
  obtain s rest where ids: "ids = s # rest" using assms(2) by (cases ids) auto
  obtain bs where "points_bytes c (hashed_keys ids) = Inr bs" using points_bytes_ok assms(1) unfolding keyed_def by blast
  moreover have "si_Public s \<noteq> None" using assms(1) by (auto simp: ids keyed_def hashed_keys_def)
  ultimately show ?thesis by (auto simp: NewRoster_def keys_id_def ids)
qed

lemma NewRoster_nil: "keyed ids \<Longrightarrow> NewRoster c ids = Inr None \<longleftrightarrow> ids = []"
  using NewRoster_ok [of ids c] by (cases "ids = []") (auto simp: NewRoster_def)

lemma NewRosterWithRoot_lib:
  assumes "keyed (ro_List ro)" and "rid \<in> si_ID ` set (ro_List ro)" and "si_ID rootSi = rid"
  shows "\<exists>r. NewRosterWithRoot c ro rootSi = Inr (Some r) \<and> mset (ro_List r) = mset (ro_List ro) \<and> si_ID (hd (ro_List r)) = rid"
proof -
  let ?l = "ro_List ro"
  obtain i e where s: "ro_Search ro rid = Some (i, e)"
    using assms(2) search_from_None_iff [of 0 ?l rid] by (cases "ro_Search ro rid") (auto simp: ro_Search_def)
  from search_from_Some [OF s [unfolded ro_Search_def]] obtain j where
    j: "j < length ?l" "i = int j" "?l ! j = e" "si_ID e = rid" by auto
  let ?l' = "?l[0 := ?l ! j, j := ?l ! 0]"
  have "0 < length ?l" using j(1) by linarith
  then have ms: "mset ?l' = mset ?l" using mset_swap [of j ?l 0] j(1) by simp
  have "set ?l' = set ?l" using arg_cong [OF ms, of set_mset] by simp
  then have "keyed ?l'" using assms(1) by (auto simp: keyed_def hashed_keys_def)
  moreover have "?l' \<noteq> []" using j(1) by auto
  ultimately obtain r where "NewRoster c ?l' = Inr (Some r)" "ro_List r = ?l'" using NewRoster_ok by blast
  moreover have "hd ?l' = e"
  proof -
    have "hd ?l' = ?l' ! 0" using \<open>?l' \<noteq> []\<close> by (rule hd_conv_nth)
    also have "\<dots> = (if j = 0 then ?l ! 0 else ?l[0 := ?l ! j] ! 0)"
      using j(1) by (intro nth_list_update) simp
    also have "\<dots> = ?l ! j" using \<open>0 < length ?l\<close> by (cases "j = 0") simp_all
    finally show ?thesis using j(3) by simp
  qed
  ultimately show ?thesis using s ms j by (simp add: NewRosterWithRoot_def assms(3))
qed

section \<open>Rotations, keys and subsets\<close>

definition keys_of :: "'p ServerIdentity list \<Rightarrow> 'p option list" where
  "keys_of l = map si_Public l"

lemma si_Equal_keys: "si_Public a \<noteq> None \<Longrightarrow> si_Equal a b \<longleftrightarrow> si_Public a = si_Public b"
  by (auto simp: si_Equal_def split: option.splits)

lemma offset_of_spec:
  assumes "si_Public s \<noteq> None"
  shows "offset_of s l \<le> length l" and "\<forall>m < offset_of s l. si_Public (l ! m) \<noteq> si_Public s"
    and "offset_of s l < length l \<Longrightarrow> si_Public (l ! offset_of s l) = si_Public s"
proof -
  have eq: "si_Equal e s \<longleftrightarrow> si_Public e = si_Public s" for e :: "'a ServerIdentity"
    using assms by (auto simp: si_Equal_def split: option.splits)
  show "offset_of s l \<le> length l" by (induction l) auto
  show "\<forall>m < offset_of s l. si_Public (l ! m) \<noteq> si_Public s"
    by (induction l) (auto simp: eq nth_Cons' less_Suc_eq_0_disj)
  show "offset_of s l < length l \<Longrightarrow> si_Public (l ! offset_of s l) = si_Public s"
    by (induction l) (auto simp: eq split: if_split_asm)
qed

lemma IsRotation_lib:
  assumes "None \<notin> set (keys_of (ro_List ro))" and "distinct (keys_of (ro_List ro))"
  shows "IsRotation ro (Some t) \<longleftrightarrow> (\<exists>k. 0 < k \<and> k < length (ro_List ro) \<and> keys_of (ro_List ro) = rotate k (keys_of (ro_List t)))"
proof -
  let ?l = "ro_List ro" and ?t = "ro_List t" and ?n = "length (ro_List ro)"
  have pub: "si_Public (?l ! i) \<noteq> None" if "i < ?n" for i
    using assms(1) that by (metis keys_of_def length_map nth_map nth_mem)
  have rot: "(\<forall>i < ?n. si_Equal (?l ! i) (?t ! ((i + k) mod ?n))) \<longleftrightarrow> keys_of ?l = rotate k (keys_of ?t)"
    if n: "length ?t = ?n" for k
  proof -
    have "si_Equal (?l ! i) (?t ! ((i + k) mod ?n)) \<longleftrightarrow> keys_of ?l ! i = keys_of ?t ! ((k + i) mod ?n)" if "i < ?n" for i
    proof -
      have "0 < ?n" using that by linarith
      then have "(i + k) mod ?n < length ?t" using n by simp
      then show ?thesis using si_Equal_keys [OF pub [OF that]] that by (simp add: keys_of_def add.commute)
    qed
    then have "(\<forall>i < ?n. si_Equal (?l ! i) (?t ! ((i + k) mod ?n))) \<longleftrightarrow>
        (\<forall>i < ?n. keys_of ?l ! i = keys_of ?t ! ((k + i) mod ?n))" by simp
    also have "\<dots> \<longleftrightarrow> keys_of ?l = rotate k (keys_of ?t)"
    proof -
      have "length (keys_of ?l) = length (rotate k (keys_of ?t))" using n by (simp add: keys_of_def)
      moreover have "rotate k (keys_of ?t) ! i = keys_of ?t ! ((k + i) mod ?n)" if "i < ?n" for i
        using nth_rotate [of i "keys_of ?t" k] that n by (simp add: keys_of_def)
      ultimately show ?thesis unfolding list_eq_iff_nth_eq by (simp add: keys_of_def)
    qed
    finally show ?thesis .
  qed
  show ?thesis
  proof (cases "2 \<le> ?n \<and> length ?t = ?n")
    case False
    then have "\<not> IsRotation ro (Some t)" by (auto simp: IsRotation_def simp del: set_upt)
    moreover have "length ?t = ?n" if "keys_of ?l = rotate k (keys_of ?t)" for k
      using arg_cong [OF that, of length] by (simp add: keys_of_def)
    ultimately show ?thesis using False by fastforce
  next
    case True
    let ?off = "offset_of (hd ?l) ?t"
    have hd: "hd ?l = ?l ! 0" using True by (intro hd_conv_nth) force
    have "0 < ?n" using True by linarith
    from pub [OF this] have hdp: "si_Public (hd ?l) \<noteq> None" unfolding hd .
    have "IsRotation ro (Some t) \<longleftrightarrow> 0 < ?off \<and> ?off < ?n \<and> keys_of ?l = rotate ?off (keys_of ?t)"
      using True rot [of ?off] by (auto simp: IsRotation_def Let_def)
    moreover have "k = ?off" if k: "k < ?n" "keys_of ?l = rotate k (keys_of ?t)" for k
    proof -
      have "distinct (keys_of ?t)" using assms(2) k(2) by simp
      have 0: "0 < length (keys_of ?t)" using True unfolding keys_of_def length_map by linarith
      have "keys_of ?l ! 0 = keys_of ?t ! k"
        using k True nth_rotate [OF 0, of k] by (simp add: keys_of_def)
      then have pk: "si_Public (hd ?l) = si_Public (?t ! k)" using nth_map [OF \<open>0 < ?n\<close>, of si_Public] True k(1) hd by (simp add: keys_of_def)
      then have "\<not> k < ?off" using offset_of_spec(2) [OF hdp, of ?t] by fastforce
      then have "?off \<le> k" by simp
      moreover from this have "si_Public (?t ! ?off) = si_Public (hd ?l)"
        using offset_of_spec(3) [OF hdp, of ?t] k(1) True by simp
      ultimately show "k = ?off"
        using \<open>distinct (keys_of ?t)\<close> pk k(1) True nth_eq_iff_index_eq [of "keys_of ?t" k ?off]
        by (simp add: keys_of_def)
    qed
    ultimately show ?thesis by auto
  qed
qed

lemma all_in_table_spec:
  assumes "None \<notin> set ps" and "inj (PointString c)"
  shows "all_in_table c (map (PointString c) qs) ps = Inr (set ps \<subseteq> Some ` set qs)"
  using assms(1)
proof (induction ps)
  case (Cons p ps)
  then obtain q where "p = Some q" by (cases p) auto
  with Cons assms(2) show ?case by (auto simp: nonnil_def inj_image_mem_iff dest: injD)
qed simp

lemma Contains_lib:
  assumes "None \<notin> set (Publics ro)" and "inj (PointString c)"
  shows "Contains c ro pubs = Inr (length (ro_List ro) = length pubs \<and> set (Publics ro) \<subseteq> Some ` set pubs)"
  using all_in_table_spec [OF assms] by (simp add: Contains_def)

lemma pick_subset_spec:
  assumes "int (length out) \<le> n" and "1 \<le> n"
  shows "\<exists>m. pick_subset l rid n ps out = out @ take m (filter (\<lambda>e. si_ID e \<noteq> rid) (map (\<lambda>p. l ! p) ps)) \<and>
    int (length (pick_subset l rid n ps out)) = min (n + 1) (int (length out + length (filter (\<lambda>e. si_ID e \<noteq> rid) (map (\<lambda>p. l ! p) ps))))"
  using assms(1)
proof (induction ps arbitrary: out)
  case Nil
  then show ?case by simp
next
  case (Cons p ps)
  show ?case
  proof (cases "si_ID (l ! p) = rid")
    case True
    then show ?thesis using Cons by simp
  next
    case False
    show ?thesis
    proof (cases "int (length (out @ [l ! p])) = n + 1")
      case True
      then show ?thesis using False by (intro exI [of _ 1]) auto
    next
      case ne: False
      then have "int (length (out @ [l ! p])) \<le> n" using Cons.prems by simp
      from Cons.IH [OF this] obtain m where
        "pick_subset l rid n ps (out @ [l ! p]) = (out @ [l ! p]) @ take m (filter (\<lambda>e. si_ID e \<noteq> rid) (map (\<lambda>p. l ! p) ps))"
        "int (length (pick_subset l rid n ps (out @ [l ! p]))) = min (n + 1) (int (length (out @ [l ! p]) + length (filter (\<lambda>e. si_ID e \<noteq> rid) (map (\<lambda>p. l ! p) ps))))"
        by blast
      then show ?thesis using False ne by (intro exI [of _ "Suc m"]) (simp add: Let_def)
    qed
  qed
qed

lemma pick_subset_zero:
  "1 \<le> length out \<Longrightarrow> pick_subset l rid 0 ps out = out @ filter (\<lambda>e. si_ID e \<noteq> rid) (map (\<lambda>p. l ! p) ps)"
  by (induction ps arbitrary: out) (auto simp: Let_def)


section \<open>What rosters promise\<close>

definition sample_crypto :: "nat crypto" where
  "sample_crypto = \<lparr>PointBytes = (\<lambda>p. [of_nat p]), PointString = (\<lambda>p. replicate p CHR ''x''), PointAdd = (+), PointNull = 0,
     UuidURL = (\<lambda>s. of_nat (length s)), UuidString = (\<lambda>_. ''u''), Sha256Hex = (\<lambda>_. ''h'')\<rparr>"

definition sample_server :: "nat \<Rightarrow> nat ServerIdentity" where
  "sample_server k = \<lparr>si_Public = Some k, ServiceIdentities = [], si_ID = of_nat k, si_Address = ''host''\<rparr>"

definition sample_roster :: "nat list \<Rightarrow> nat ORoster" where
  "sample_roster ks = \<lparr>ro_ID = 7, ro_List = map sample_server ks, ro_Aggregate = None\<rparr>"

text \<open>
  \<open>IsRotation\<close> answers whether the keys of the receiver are a proper rotation of the keys of the
  target, for receivers whose servers have keys and pairwise different ones: the scan for the first
  server, the test of the offset and the comparison find every rotation by 1 to n - 1 places and
  nothing else. A nil target is no rotation.
\<close>

theorem rotation_of_keys:
  assumes "None \<notin> set (Publics ro)" and "distinct (Publics ro)"
  shows "(IsRotation ro (Some t) \<longleftrightarrow> (\<exists>k. 0 < k \<and> k < length (ro_List ro) \<and> Publics ro = rotate k (Publics t))) \<and>
    \<not> IsRotation ro None"
  using IsRotation_lib [of ro t] assms by (simp_all add: keys_of_def Publics_def IsRotation_def)

lemma rotation_of_keys_witness:
  "\<exists>k. 0 < k \<and> k < length (ro_List (sample_roster [1, 2, 3])) \<and>
    Publics (sample_roster [1, 2, 3]) = rotate k (Publics (sample_roster [2, 3, 1]))"
proof -
  have "None \<notin> set (Publics (sample_roster [1, 2, 3]))" "distinct (Publics (sample_roster [1, 2, 3]))"
    by (simp_all add: Publics_def sample_roster_def sample_server_def)
  moreover have "IsRotation (sample_roster [1, 2, 3]) (Some (sample_roster [2, 3, 1]))"
    by (simp add: IsRotation_def sample_roster_def sample_server_def si_Equal_def upt_rec)
  ultimately show ?thesis using rotation_of_keys [of "sample_roster [1, 2, 3]" "sample_roster [2, 3, 1]"] by blast
qed

lemma length_filter_perm:
  "mset perm = mset [0..<length l] \<Longrightarrow> mset (filter P (map (\<lambda>p. l ! p) perm)) = mset (filter P l)"
proof -
  assume "mset perm = mset [0..<length l]"
  then have "mset (map (\<lambda>p. l ! p) perm) = mset (map (\<lambda>p. l ! p) [0..<length l])" by (simp only: mset_map)
  then show ?thesis by (simp only: map_nth mset_filter)
qed

lemma keyed_subset: "keyed l \<Longrightarrow> set l' \<subseteq> set l \<Longrightarrow> keyed l'"
  by (auto simp: keyed_def hashed_keys_def)

text \<open>
  \<open>RandomSubset\<close> puts the given root first, behind it servers of the roster other than the root,
  none of them twice when the roster has none twice, and as many as were asked for, or all there are
  when that is less. Asked for none it does not stop where it should: the root alone is never counted
  against the limit, and the roster it returns has every other server.
\<close>

theorem random_subset:
  assumes perm: "mset perm = mset [0..<length (ro_List ro)]" and keys: "keyed (rootSi # ro_List ro)" and n: "0 \<le> n"
  shows "\<exists>r rest. RandomSubset c perm ro rootSi n = Inr (Some r) \<and> ro_List r = rootSi # rest \<and>
    mset rest \<subseteq># mset (filter (\<lambda>e. si_ID e \<noteq> si_ID rootSi) (ro_List ro)) \<and>
    (let others = int (length (filter (\<lambda>e. si_ID e \<noteq> si_ID rootSi) (ro_List ro)))
     in int (length rest) = (if n = 0 then others else min n others))"
proof -
  let ?l = "ro_List ro" and ?P = "\<lambda>e. si_ID e \<noteq> si_ID rootSi"
  let ?k = "if n > int (length ?l) then int (length ?l) else n"
  let ?fs = "filter ?P (map (\<lambda>p. ?l ! p) perm)"
  note ms = length_filter_perm [OF perm, of ?P]
  have len: "length ?fs = length (filter ?P ?l)" by (rule mset_eq_length [OF ms])
  have le: "length (filter ?P ?l) \<le> length ?l" by simp
  have "\<exists>m. pick_subset ?l (si_ID rootSi) ?k perm [rootSi] = rootSi # take m ?fs \<and>
    int (length (take m ?fs)) = (if n = 0 then int (length ?fs) else min n (int (length ?fs)))"
  proof (cases "1 \<le> ?k")
    case True
    from pick_subset_spec [of "[rootSi]" ?k ?l "si_ID rootSi" perm] True obtain m where
      "pick_subset ?l (si_ID rootSi) ?k perm [rootSi] = [rootSi] @ take m ?fs"
      "int (length (pick_subset ?l (si_ID rootSi) ?k perm [rootSi])) = min (?k + 1) (int (length [rootSi] + length ?fs))"
      by auto
    then show ?thesis using True n le len by (intro exI [of _ m]) (simp add: min_def split: if_splits)
  next
    case False
    then have k: "?k = 0" using n by (simp add: Suc_le_eq split: if_splits)
    have "pick_subset ?l (si_ID rootSi) 0 perm [rootSi] = [rootSi] @ ?fs" by (rule pick_subset_zero) simp
    then show ?thesis unfolding k using k le len n by (intro exI [of _ "length ?fs"]) (auto split: if_splits)
  qed
  then obtain m where m: "pick_subset ?l (si_ID rootSi) ?k perm [rootSi] = rootSi # take m ?fs"
    "int (length (take m ?fs)) = (if n = 0 then int (length ?fs) else min n (int (length ?fs)))" by blast
  have sub: "mset (take m ?fs) \<subseteq># mset (filter ?P ?l)"
    unfolding ms [symmetric] by (metis append_take_drop_id mset_append mset_subset_eq_add_left)
  then have "set (take m ?fs) \<subseteq> set ?l" using set_mset_mono [OF sub] by auto
  then have "keyed (rootSi # take m ?fs)" by (intro keyed_subset [OF keys]) auto
  then obtain r where "NewRoster c (rootSi # take m ?fs) = Inr (Some r)" "ro_List r = rootSi # take m ?fs"
    using NewRoster_ok by blast
  moreover have "\<not> ?k + 1 < 1" using n by simp
  ultimately show ?thesis using m sub len by (simp add: RandomSubset_def)
qed

lemma random_subset_witness:
  "(\<exists>r rest. RandomSubset sample_crypto [2, 0, 3, 1] (sample_roster [1, 2, 3, 4]) (sample_server 3) 2 = Inr (Some r) \<and>
    ro_List r = sample_server 3 # rest \<and> length rest = 2)"
proof -
  have "mset [2, 0, 3, 1] = mset [0..<length (ro_List (sample_roster [1, 2, 3, 4]))]"
    by (simp add: sample_roster_def upt_rec add_mset_commute numeral_2_eq_2 numeral_3_eq_3)
  moreover have "keyed (sample_server 3 # ro_List (sample_roster [1, 2, 3, 4]))"
    by (simp add: keyed_def hashed_keys_def sample_roster_def sample_server_def)
  ultimately show ?thesis
    using random_subset [of "[2, 0, 3, 1]" "sample_roster [1, 2, 3, 4]" "sample_server 3" 2 sample_crypto]
    by (fastforce simp: sample_roster_def sample_server_def)
qed

end
