(* ===== verification/OnetTree.thy ===== *)
theory OnetTree
  imports OnetRoster
begin

text \<open>
  Trees over a roster (\<open>onet/tree.go\<close>): nodes, traversals, comparison, the form in which a tree is
  sent, and the tree that is made of it again. A parent is where a node hangs, and the aggregate
  keys are a function of the tree, computed where the code reads them.
\<close>

section \<open>Nodes\<close>

datatype 'p onode = ONode (tn_ID: uuid) (tn_Server: "'p ServerIdentity") (tn_Index: int) (tn_Children: "'p onode list")

definition NewTreeNode :: "'p crypto \<Rightarrow> int \<Rightarrow> 'p ServerIdentity \<Rightarrow> fault + 'p onode" where
  "NewTreeNode c idx ni = bindR (nonnil (si_Public ni)) (\<lambda>p. Inr (ONode (UuidURL c (PointString c p)) ni idx []))"

text \<open>The calls of a traversal: depth and node, in order.\<close>

fun Visit :: "int \<Rightarrow> 'p onode \<Rightarrow> (int \<times> 'p onode) list" where
  "Visit d (ONode i s k cs) = (d, ONode i s k cs) # concat (map (Visit (d + 1)) cs)"

definition IsLeaf :: "'p onode \<Rightarrow> bool" where
  "IsLeaf t \<longleftrightarrow> tn_Children t = []"

definition SubtreeCount :: "'p onode \<Rightarrow> int" where
  "SubtreeCount t = foldl (\<lambda>ret _. ret + 1) (- 1) (Visit 0 t)"

fun node_Equal :: "'p onode \<Rightarrow> 'p onode \<Rightarrow> bool" where
  "node_Equal (ONode i s k cs) (ONode i' s' k' cs') =
    (if i \<noteq> i' \<or> si_ID s \<noteq> si_ID s' then False
     else if length cs \<noteq> length cs' then False
     else list_all2 node_Equal cs cs')"

fun IsNary :: "int \<Rightarrow> 'p onode \<Rightarrow> bool" where
  "IsNary n (ONode i s k cs) =
    (if int (length cs) \<noteq> n \<and> length cs \<noteq> 0 then False else \<forall>x \<in> set cs. IsNary n x)"

text \<open>\<open>AggregatePublic\<close>: a fold over the traversal; \<open>subtree_aggregate\<close> is \<open>computeSubtreeAggregate\<close>.\<close>

definition AggregatePublic :: "'p crypto \<Rightarrow> 'p onode \<Rightarrow> fault + 'p" where
  "AggregatePublic c t = add_points c (PointNull c) (map (\<lambda>(d, n). si_Public (tn_Server n)) (Visit 0 t))"

fun subtree_aggregate :: "'p crypto \<Rightarrow> 'p onode \<Rightarrow> fault + 'p" where
  "subtree_aggregate c (ONode i s k cs) =
     bindR (nonnil (si_Public s)) (\<lambda>p. foldl (\<lambda>r t. bindR r (\<lambda>agg. bindR t (\<lambda>a. Inr (PointAdd c agg a)))) (Inr p)
       (map (subtree_aggregate c) cs))"

section \<open>Trees\<close>

record 'p OTree =
  ot_ID :: uuid
  ot_Roster :: "'p ORoster option"
  ot_Root :: "'p onode"

text \<open>Every leaf adds a byte, so that trees of the same nodes and another shape have other hashes.\<close>

fun visit_bytes :: "'p crypto \<Rightarrow> (int \<times> 'p onode) list \<Rightarrow> fault + bytes" where
  "visit_bytes c [] = Inr []"
| "visit_bytes c ((d, tn) # rest) =
     bindR (nonnil (si_Public (tn_Server tn))) (\<lambda>p.
     bindR (visit_bytes c rest) (\<lambda>bs. Inr (PointBytes c p @ (if IsLeaf tn then [1] else []) @ bs)))"

definition NewTree :: "'p crypto \<Rightarrow> 'p ORoster option \<Rightarrow> 'p onode \<Rightarrow> fault + 'p OTree" where
  "NewTree c ro rootNode =
     bindR (visit_bytes c (Visit 0 rootNode)) (\<lambda>bs.
     bindR (nonnil ro) (\<lambda>r.
     let url = NamespaceURL @ ''tree/'' @ UuidString c (ro_ID r) @ Sha256Hex c bs in
     bindR (subtree_aggregate c rootNode) (\<lambda>_.
     Inr \<lparr>ot_ID = UuidURL c url, ot_Roster = Some r, ot_Root = rootNode\<rparr>)))"

definition ot_Search :: "'p OTree \<Rightarrow> uuid \<Rightarrow> 'p onode option" where
  "ot_Search t tn = foldl (\<lambda>ret (d, tns). if tn_ID tns = tn then Some tns else ret) None (Visit 0 (ot_Root t))"

definition ot_List :: "'p OTree \<Rightarrow> 'p onode list" where
  "ot_List t = foldl (\<lambda>ret (d, tns). ret @ [tns]) [] (Visit 0 (ot_Root t))"

definition ot_Size :: "'p OTree \<Rightarrow> int" where
  "ot_Size t = foldl (\<lambda>n _. n + 1) 0 (Visit 0 (ot_Root t))"

definition UsesList :: "'p OTree \<Rightarrow> fault + bool" where
  "UsesList t = bindR (nonnil (ot_Roster t)) (\<lambda>ro.
     Inr (\<forall>p \<in> set (ro_List ro). \<exists>n \<in> set (ot_List t). si_ID (tn_Server n) = si_ID p))"

text \<open>The rosters are dereferenced only when the IDs of the trees agree.\<close>

definition ot_Equal :: "'p OTree \<Rightarrow> 'p OTree \<Rightarrow> fault + bool" where
  "ot_Equal t t2 =
    (if ot_ID t \<noteq> ot_ID t2 then Inr False
     else bindR (nonnil (ot_Roster t)) (\<lambda>r. bindR (nonnil (ot_Roster t2)) (\<lambda>r2.
       if ro_ID r \<noteq> ro_ID r2 then Inr False else Inr (node_Equal (ot_Root t) (ot_Root t2)))))"

section \<open>The form that is sent\<close>

datatype TreeMarshal = TreeMarshal (tm_TreeNodeID: uuid) (tm_TreeID: uuid) (tm_ServerIdentityID: uuid) (tm_RosterID: uuid)
  (tm_Children: "TreeMarshal list")

fun TreeMarshalCopyTree :: "'p onode \<Rightarrow> TreeMarshal" where
  "TreeMarshalCopyTree (ONode i s k cs) = TreeMarshal i 0 (si_ID s) 0 (map TreeMarshalCopyTree cs)"

definition MakeTreeMarshal :: "'p OTree \<Rightarrow> TreeMarshal" where
  "MakeTreeMarshal t =
    (case ot_Roster t of None \<Rightarrow> TreeMarshal 0 0 0 0 []
     | Some ro \<Rightarrow> TreeMarshal 0 (ot_ID t) 0 (ro_ID ro) [TreeMarshalCopyTree (ot_Root t)])"

fun MakeTreeFromList :: "'p ORoster \<Rightarrow> TreeMarshal \<Rightarrow> fault + 'p onode" where
  "MakeTreeFromList ro (TreeMarshal nid tid sid rid cs) =
    (case ro_Search ro sid of
       None \<Rightarrow> Inl (ErrRet ''didn't find node in roster'')
     | Some (idx, ent) \<Rightarrow>
         bindR (foldl (\<lambda>r m. bindR r (\<lambda>ns. case m of
                 Inl (ErrRet e) \<Rightarrow> Inl (ErrRet ''making tree'')
               | Inl f \<Rightarrow> Inl f
               | Inr ntn \<Rightarrow> Inr (ns @ [ntn]))) (Inr []) (map (MakeTreeFromList ro) cs))
           (\<lambda>kids. Inr (ONode nid ent idx kids)))"

definition MakeTree :: "'p crypto \<Rightarrow> 'p ORoster \<Rightarrow> TreeMarshal \<Rightarrow> fault + 'p OTree" where
  "MakeTree c ro tm =
    (if ro_ID ro \<noteq> tm_RosterID tm then Inl (ErrRet ''Not correct Roster-Id'')
     else case tm_Children tm of
       [] \<Rightarrow> Inl IndexPanic
     | m # _ \<Rightarrow>
        (case MakeTreeFromList ro m of
           Inl (ErrRet e) \<Rightarrow> Inl (ErrRet ''making tree'')
         | Inl f \<Rightarrow> Inl f
         | Inr rootNode \<Rightarrow> bindR (subtree_aggregate c rootNode) (\<lambda>_.
             Inr \<lparr>ot_ID = tm_TreeID tm, ot_Roster = Some ro, ot_Root = rootNode\<rparr>)))"

section \<open>Traversals\<close>

fun preorder :: "'p onode \<Rightarrow> 'p onode list" where
  "preorder (ONode i s k cs) = ONode i s k cs # concat (map preorder cs)"

lemma Visit_preorder: "map snd (Visit d t) = preorder t"
  by (induction t arbitrary: d rule: preorder.induct) (auto simp: map_concat comp_def intro!: arg_cong [where f = concat])

lemma foldl_append_snd: "foldl (\<lambda>ret (d, tns). ret @ [tns]) xs vs = xs @ map snd vs"
  by (induction vs arbitrary: xs) auto

lemma ot_List_preorder: "ot_List t = preorder (ot_Root t)"
  by (simp add: ot_List_def foldl_append_snd Visit_preorder)

lemma foldl_count: "foldl (\<lambda>n _. n + 1) k vs = (k :: int) + int (length vs)"
  by (induction vs arbitrary: k) auto

lemma length_Visit: "length (Visit d t) = length (preorder t)"
  by (metis Visit_preorder length_map)

lemma SubtreeCount_eq: "SubtreeCount t = int (length (preorder t)) - 1"
  by (simp add: SubtreeCount_def foldl_count length_Visit)

section \<open>Comparison\<close>

lemma node_Equal_iff: "node_Equal t t' \<longleftrightarrow> TreeMarshalCopyTree t = TreeMarshalCopyTree t'"
proof (induction t t' rule: node_Equal.induct)
  case (1 i s k cs i' s' k' cs')
  show ?case
  proof (cases "i = i' \<and> si_ID s = si_ID s' \<and> length cs = length cs'")
    case False
    then show ?thesis by (auto dest: map_eq_imp_length_eq)
  next
    case True
    then have "list_all2 node_Equal cs cs' \<longleftrightarrow> list_all2 (\<lambda>a b. TreeMarshalCopyTree a = TreeMarshalCopyTree b) cs cs'"
      using 1 by (intro list.rel_cong) auto
    also have "\<dots> \<longleftrightarrow> map TreeMarshalCopyTree cs = map TreeMarshalCopyTree cs'"
      by (auto simp: list_all2_conv_all_nth list_eq_iff_nth_eq)
    finally show ?thesis using True by simp
  qed
qed

section \<open>Round trip\<close>

text \<open>The nodes of a tree over a roster: every server is the one of its index.\<close>

definition nodes_of :: "'p ORoster \<Rightarrow> 'p onode \<Rightarrow> bool" where
  "nodes_of ro t \<longleftrightarrow> (\<forall>n \<in> set (preorder t). 0 \<le> tn_Index n \<and> tn_Index n < int (length (ro_List ro)) \<and>
     tn_Server n = ro_List ro ! nat (tn_Index n))"

lemma foldl_collect:
  "(\<forall>x \<in> set xs. f x = Inr (g x)) \<Longrightarrow>
   foldl (\<lambda>r m. bindR r (\<lambda>ns. case m of Inl (ErrRet e) \<Rightarrow> Inl (ErrRet z) | Inl f \<Rightarrow> Inl f | Inr ntn \<Rightarrow> Inr (ns @ [ntn])))
     (Inr ns) (map f xs) = Inr (ns @ map g xs)"
  by (induction xs arbitrary: ns) auto

lemma MakeTreeFromList_copy:
  assumes "distinct (map si_ID (ro_List ro))" and "nodes_of ro t"
  shows "MakeTreeFromList ro (TreeMarshalCopyTree t) = Inr t"
  using assms(2)
proof (induction t rule: preorder.induct)
  case (1 i s k cs)
  have k: "0 \<le> k" "k < int (length (ro_List ro))" "s = ro_List ro ! nat k"
    using 1(2) by (simp_all add: nodes_of_def)
  then have "nat k < length (ro_List ro)" by linarith
  from search_from_distinct [OF assms(1) this, of 0] k have s: "ro_Search ro (si_ID s) = Some (k, s)"
    by (simp add: ro_Search_def)
  have "\<forall>x \<in> set cs. MakeTreeFromList ro (TreeMarshalCopyTree x) = Inr x"
    using 1 by (auto simp: nodes_of_def)
  then have "\<forall>x \<in> set (map TreeMarshalCopyTree cs). True" by simp
  have "foldl (\<lambda>r m. bindR r (\<lambda>ns. case m of Inl (ErrRet e) \<Rightarrow> Inl (ErrRet ''making tree'') | Inl f \<Rightarrow> Inl f | Inr ntn \<Rightarrow> Inr (ns @ [ntn])))
     (Inr []) (map (\<lambda>x. MakeTreeFromList ro (TreeMarshalCopyTree x)) cs) = Inr ([] @ map (\<lambda>x. x) cs)"
    using \<open>\<forall>x \<in> set cs. MakeTreeFromList ro (TreeMarshalCopyTree x) = Inr x\<close> by (intro foldl_collect) simp
  then show ?case by (simp add: s comp_def)
qed

section \<open>Trees with keys\<close>

definition keyed_tree :: "'p onode \<Rightarrow> bool" where
  "keyed_tree t \<longleftrightarrow> (\<forall>n \<in> set (preorder t). si_Public (tn_Server n) \<noteq> None)"

lemma visit_bytes_ok: "\<forall>(d, n) \<in> set vs. si_Public (tn_Server n) \<noteq> None \<Longrightarrow> \<exists>bs. visit_bytes c vs = Inr bs"
  by (induction c vs rule: visit_bytes.induct) (auto simp: nonnil_def)

lemma foldl_agg_ok:
  "\<forall>r \<in> set rs. \<exists>a. r = Inr a \<Longrightarrow> \<exists>q. foldl (\<lambda>r t. bindR r (\<lambda>agg. bindR t (\<lambda>a. Inr (PointAdd c agg a)))) (Inr p) rs = Inr q"
  by (induction rs arbitrary: p) auto

lemma subtree_aggregate_ok: "keyed_tree t \<Longrightarrow> \<exists>a. subtree_aggregate c t = Inr a"
proof (induction t rule: preorder.induct)
  case (1 i s k cs)
  obtain p where p: "si_Public s = Some p" using 1(2) by (auto simp: keyed_tree_def)
  have "\<forall>r \<in> set (map (subtree_aggregate c) cs). \<exists>a. r = Inr a"
    using 1 by (auto simp: keyed_tree_def)
  from foldl_agg_ok [OF this] p show ?case by (simp add: nonnil_def)
qed

lemma NewTree_ok:
  assumes "keyed_tree t"
  shows "\<exists>i. NewTree c (Some ro) t = Inr \<lparr>ot_ID = i, ot_Roster = Some ro, ot_Root = t\<rparr>"
proof -
  have "set (map snd (Visit 0 t)) = set (preorder t)" by (simp only: Visit_preorder)
  then have "\<forall>(d, n) \<in> set (Visit 0 t). si_Public (tn_Server n) \<noteq> None"
    using assms by (force simp: keyed_tree_def)
  from visit_bytes_ok [OF this] obtain bs where "visit_bytes c (Visit 0 t) = Inr bs" by blast
  moreover obtain a where "subtree_aggregate c t = Inr a" using subtree_aggregate_ok [OF assms] by blast
  ultimately show ?thesis by (simp add: NewTree_def nonnil_def Let_def)
qed

lemma nodes_of_keyed: "nodes_of ro t \<Longrightarrow> None \<notin> set (Publics ro) \<Longrightarrow> keyed_tree t"
proof -
  assume a: "nodes_of ro t" "None \<notin> set (Publics ro)"
  show "keyed_tree t"
    unfolding keyed_tree_def
  proof
    fix n assume "n \<in> set (preorder t)"
    then have "tn_Server n = ro_List ro ! nat (tn_Index n)" "nat (tn_Index n) < length (ro_List ro)"
      using a(1) by (auto simp: nodes_of_def)
    then have "tn_Server n \<in> set (ro_List ro)" by simp
    then show "si_Public (tn_Server n) \<noteq> None" using a(2) unfolding Publics_def by (metis image_eqI list.set_map)
  qed
qed

lemma MakeTree_copy:
  fixes t :: "'p OTree"
  assumes "distinct (map si_ID (ro_List ro))" and "None \<notin> set (Publics ro)" and "ot_Roster t = Some ro" and "nodes_of ro (ot_Root t)"
  shows "MakeTree c ro (MakeTreeMarshal t) = Inr t"
proof -
  obtain a where "subtree_aggregate c (ot_Root t) = Inr a"
    using subtree_aggregate_ok [OF nodes_of_keyed [OF assms(4,2)]] by blast
  then show ?thesis using MakeTreeFromList_copy [OF assms(1,4)] assms(3) by (simp add: MakeTree_def MakeTreeMarshal_def)
qed

text \<open>
  C39: a tree that was sent is made again: for a tree over a roster whose servers have keys and
  different identities, \<open>MakeTree\<close> of \<open>MakeTreeMarshal\<close> gives the same tree, with its id, its roster,
  every node's id, server, index and order of children; with a roster of another id it is refused.
\<close>

theorem tree_roundtrip:
  fixes t :: "'p OTree"
  assumes "distinct (map si_ID (ro_List ro))" and "None \<notin> set (Publics ro)"
    and "ot_Roster t = Some ro" and "nodes_of ro (ot_Root t)"
  shows "MakeTree c ro (MakeTreeMarshal t) = Inr t \<and>
    (ro_ID ro' \<noteq> ro_ID ro \<longrightarrow> MakeTree c ro' (MakeTreeMarshal t) = Inl (ErrRet ''Not correct Roster-Id''))"
  using MakeTree_copy [OF assms] assms(3) by (simp add: MakeTree_def MakeTreeMarshal_def)

definition sample_tree :: "nat OTree" where
  "sample_tree = \<lparr>ot_ID = 9, ot_Roster = Some (sample_roster [1, 2, 3]),
     ot_Root = ONode 11 (sample_server 1) 0 [ONode 12 (sample_server 2) 1 [ONode 13 (sample_server 1) 0 []], ONode 14 (sample_server 3) 2 []]\<rparr>"

lemma tree_roundtrip_witness:
  "MakeTree sample_crypto (sample_roster [1, 2, 3]) (MakeTreeMarshal sample_tree) = Inr sample_tree"
proof -
  have "distinct (map si_ID (ro_List (sample_roster [1, 2, 3])))" by (simp add: sample_roster_def sample_server_def)
  moreover have "None \<notin> set (Publics (sample_roster [1, 2, 3]))" by (simp add: Publics_def sample_roster_def sample_server_def)
  moreover have "nodes_of (sample_roster [1, 2, 3]) (ot_Root sample_tree)"
    by (simp add: nodes_of_def sample_tree_def sample_roster_def sample_server_def)
  ultimately show ?thesis
    using tree_roundtrip [of "sample_roster [1, 2, 3]" sample_tree sample_crypto "sample_roster []"]
    by (simp add: sample_tree_def)
qed

end
