(* ===== verification/OnetGen.thy ===== *)
theory OnetGen
  imports OnetTree
begin

text \<open>
  The generators of trees in \<open>onet/tree.go\<close>. They build a tree by changing nodes that are already in
  it, so the model keeps the nodes in a store, numbered in the order of their creation; the tree is
  what hangs from node 0.
\<close>

section \<open>The store\<close>

text \<open>
  \<open>kids ! j\<close> are the children of node \<open>j\<close>. A child is younger than its parent, so a depth of the
  number of nodes reaches everything.
\<close>

fun store_tree :: "(nat \<Rightarrow> 'p onode) \<Rightarrow> nat list list \<Rightarrow> nat \<Rightarrow> nat \<Rightarrow> 'p onode" where
  "store_tree node kids 0 j = node j"
| "store_tree node kids (Suc depth) j =
     ONode (tn_ID (node j)) (tn_Server (node j)) (tn_Index (node j)) (map (store_tree node kids depth) (kids ! j))"

text \<open>\<open>SubtreeCount\<close> of a node in the store.\<close>

fun store_visits :: "nat list list \<Rightarrow> nat \<Rightarrow> nat \<Rightarrow> nat" where
  "store_visits kids 0 j = 1"
| "store_visits kids (Suc depth) j = Suc (sum_list (map (store_visits kids depth) (kids ! j)))"

definition add_kid :: "nat \<Rightarrow> nat list list \<Rightarrow> nat list list" where
  "add_kid p kids = kids[p := kids ! p @ [length kids]] @ [[]]"

section \<open>GenerateNaryTreeWithRoot\<close>

record nary =
  na_kids :: "nat list list"
  na_parents :: "nat list"
  na_children :: "nat list"

definition nary_step :: "int \<Rightarrow> nary \<Rightarrow> fault + nary" where
  "nary_step N st =
    (case na_parents st of
       [] \<Rightarrow> Inl IndexPanic
     | p # ps \<Rightarrow>
        let parents = (if int (store_visits (na_kids st) (length (na_kids st)) p) - 1 = N then ps else na_parents st);
            (parents', children) = (if parents = [] then (na_children st, []) else (parents, na_children st))
        in case parents' of
             [] \<Rightarrow> Inl IndexPanic
           | q # _ \<Rightarrow> Inr \<lparr>na_kids = add_kid q (na_kids st), na_parents = parents',
                          na_children = children @ [length (na_kids st)]\<rparr>)"

text \<open>Node \<open>j\<close> is made of the server \<open>j\<close> places after the root; a nil key panics.\<close>

fun nary_loop :: "int \<Rightarrow> 'p ServerIdentity list \<Rightarrow> nary \<Rightarrow> fault + nary" where
  "nary_loop N [] st = Inr st"
| "nary_loop N (s # ss) st =
     bindR (nonnil (si_Public s)) (\<lambda>_. bindR (nary_step N st) (\<lambda>st'. nary_loop N ss st'))"

definition fresh_node :: "'p crypto \<Rightarrow> 'p ServerIdentity \<Rightarrow> nat \<Rightarrow> 'p onode" where
  "fresh_node c s idx = (case NewTreeNode c (int idx) s of Inl f \<Rightarrow> ONode 0 s (int idx) [] | Inr n \<Rightarrow> n)"

text \<open>\<open>rootSi\<close> is None for the nil root. None is the nil tree.\<close>

definition GenerateNaryTreeWithRoot :: "'p crypto \<Rightarrow> 'p ORoster \<Rightarrow> int \<Rightarrow> 'p ServerIdentity option \<Rightarrow> fault + 'p OTree option" where
  "GenerateNaryTreeWithRoot c ro N rootSi =
    (let l = ro_List ro; n = length l;
         found = (case rootSi of
           None \<Rightarrow> (case l of [] \<Rightarrow> Inl IndexPanic | s # _ \<Rightarrow> Inr (Some (0, s)))
         | Some s \<Rightarrow> (case ro_Search ro (si_ID s) of None \<Rightarrow> Inr None | Some (i, _) \<Rightarrow> Inr (Some (nat i, s))))
     in bindR found (\<lambda>r. case r of
          None \<Rightarrow> Inr None
        | Some (rootIndex, s) \<Rightarrow>
            bindR (nonnil (si_Public s)) (\<lambda>_.
            let index = (\<lambda>j. (j + rootIndex) mod n);
                node = (\<lambda>j. if j = 0 then fresh_node c s rootIndex else fresh_node c (l ! index j) (index j))
            in bindR (nary_loop N (map (\<lambda>i. l ! index i) [1..<n]) \<lparr>na_kids = [[]], na_parents = [0], na_children = []\<rparr>) (\<lambda>st.
               bindR (NewTree c (Some ro) (store_tree node (na_kids st) n 0)) (\<lambda>t. Inr (Some t))))))"

definition GenerateNaryTree :: "'p crypto \<Rightarrow> 'p ORoster \<Rightarrow> int \<Rightarrow> fault + 'p OTree option" where
  "GenerateNaryTree c ro N = GenerateNaryTreeWithRoot c ro N None"

definition GenerateBinaryTree :: "'p crypto \<Rightarrow> 'p ORoster \<Rightarrow> fault + 'p OTree option" where
  "GenerateBinaryTree c ro = GenerateNaryTree c ro 2"

definition GenerateStar :: "'p crypto \<Rightarrow> 'p ORoster \<Rightarrow> fault + 'p OTree option" where
  "GenerateStar c ro = GenerateNaryTree c ro (int (length (ro_List ro)) - 1)"

section \<open>GenerateBigNaryTree\<close>

text \<open>
  The loop that looks for the next server: \<open>hosts\<close> are the host names of the roster, \<open>first\<close> the
  index it starts from. A None is a loop that does not end.
\<close>

partial_function (option) big_search :: "string list \<Rightarrow> bool \<Rightarrow> bool list \<Rightarrow> string \<Rightarrow> nat \<Rightarrow> nat \<Rightarrow> string \<Rightarrow> bool \<Rightarrow> nat option" where
  [code]: "big_search hosts useAll used parentHost first roIndex childHost notSameHost =
    (if (notSameHost \<and> childHost = parentHost \<and> 1 < length hosts) \<or> (useAll \<and> used ! roIndex) then
       (let r = (roIndex + 1) mod length hosts in
        if useAll \<and> used ! r then
          big_search hosts useAll used parentHost first r childHost (if r = first then False else notSameHost)
        else if r = first then Some r
        else big_search hosts useAll used parentHost first r (hosts ! r) notSameHost)
     else Some roIndex)"

record big =
  bg_index :: "nat list"
  bg_kids :: "nat list list"
  bg_used :: "bool list"
  bg_next :: nat

definition big_child :: "'p ServerIdentity list \<Rightarrow> string list \<Rightarrow> bool \<Rightarrow> nat \<Rightarrow> big \<Rightarrow> fault + big" where
  "big_child l hosts useAll p st =
    (case big_search hosts useAll (bg_used st) (hosts ! (bg_index st ! p)) (bg_next st) (bg_next st) (hosts ! bg_next st) True of
       None \<Rightarrow> Inl Loops
     | Some r \<Rightarrow> bindR (nonnil (si_Public (l ! r))) (\<lambda>_.
         Inr \<lparr>bg_index = bg_index st @ [r], bg_kids = add_kid p (bg_kids st), bg_used = (bg_used st)[r := True],
              bg_next = (r + 1) mod length l\<rparr>))"

fun big_children :: "'p ServerIdentity list \<Rightarrow> string list \<Rightarrow> bool \<Rightarrow> nat \<Rightarrow> nat \<Rightarrow> big \<Rightarrow> fault + big" where
  "big_children l hosts useAll p 0 st = Inr st"
| "big_children l hosts useAll p (Suc n) st =
     bindR (big_child l hosts useAll p st) (\<lambda>st'. big_children l hosts useAll p n st')"

text \<open>One level: \<open>width\<close> parents, of which \<open>i\<close> have their children.\<close>

fun big_level :: "'p ServerIdentity list \<Rightarrow> string list \<Rightarrow> bool \<Rightarrow> int \<Rightarrow> int \<Rightarrow> nat \<Rightarrow> nat \<Rightarrow> nat list \<Rightarrow> big \<Rightarrow> fault + big" where
  "big_level l hosts useAll N n width i [] st = Inr st"
| "big_level l hosts useAll N n width i (p # ps) st =
     (let k = go_quot ((n - int (length (bg_index st))) * (int i + 1)) (int width);
          children = (if k > N then N else k)
      in bindR (big_children l hosts useAll p (nat children) st) (\<lambda>st'.
         big_level l hosts useAll N n width (Suc i) ps st'))"

text \<open>
  The levels; the new level are the nodes made in it. A negative \<open>N\<close> makes a slice of negative
  length.
\<close>

partial_function (option) big_loop :: "'p ServerIdentity list \<Rightarrow> string list \<Rightarrow> bool \<Rightarrow> int \<Rightarrow> int \<Rightarrow> nat list \<Rightarrow> big \<Rightarrow> (fault + big) option" where
  [code]: "big_loop l hosts useAll N n level st =
    (if int (length (bg_index st)) < n then
       (if int (length level) * N < 0 then Some (Inl (PanicMsg ''makeslice: len out of range''))
        else case big_level l hosts useAll N n (length level) 0 level st of
          Inl f \<Rightarrow> Some (Inl f)
        | Inr st' \<Rightarrow> big_loop l hosts useAll N n [length (bg_index st)..<length (bg_index st')] st')
     else Some (Inr st))"

text \<open>\<open>host\<close> is the host part of an address.\<close>

definition GenerateBigNaryTree :: "'p crypto \<Rightarrow> (string \<Rightarrow> string) \<Rightarrow> 'p ORoster \<Rightarrow> int \<Rightarrow> int \<Rightarrow> fault + 'p OTree" where
  "GenerateBigNaryTree c host ro N n =
    (let l = ro_List ro; hosts = map (\<lambda>s. host (si_Address s)) l; cnt = length l in
     if cnt = 0 then Inl (PanicMsg ''empty roster'')
     else bindR (nonnil (si_Public (l ! 0))) (\<lambda>_.
       case big_loop l hosts (int cnt = n) N n [0]
              \<lparr>bg_index = [0], bg_kids = [[]], bg_used = (replicate cnt False)[0 := True], bg_next = 1 mod cnt\<rparr> of
         None \<Rightarrow> Inl Loops
       | Some r \<Rightarrow> bindR r (\<lambda>st.
           NewTree c (Some ro) (store_tree (\<lambda>j. let k = bg_index st ! j in fresh_node c (l ! k) k) (bg_kids st) (length (bg_index st)) 0))))"

section \<open>What hangs from node 0\<close>

fun store_ids :: "nat list list \<Rightarrow> nat \<Rightarrow> nat \<Rightarrow> nat list" where
  "store_ids kids 0 j = [j]"
| "store_ids kids (Suc depth) j = j # concat (map (store_ids kids depth) (kids ! j))"

definition store_ok :: "nat list list \<Rightarrow> bool" where
  "store_ok kids \<longleftrightarrow> kids \<noteq> [] \<and> (\<forall>p < length kids. \<forall>j \<in> set (kids ! p). p < j \<and> j < length kids) \<and>
     mset (concat kids) = mset [1..<length kids]"

text \<open>What a node is, apart from its children.\<close>

definition label :: "'p onode \<Rightarrow> uuid \<times> 'p ServerIdentity \<times> int" where
  "label n = (tn_ID n, tn_Server n, tn_Index n)"

lemma store_tree_labels:
  assumes "\<And>j. tn_Children (node j) = []"
  shows "map label (preorder (store_tree node kids d j)) = map (\<lambda>i. label (node i)) (store_ids kids d j)"
proof (induction d arbitrary: j)
  case 0
  have "preorder (node j) = [node j]" using assms [of j] by (cases "node j") simp
  then show ?case by simp
next
  case (Suc d)
  have "map label (preorder (store_tree node kids (Suc d) j)) =
      label (node j) # concat (map (\<lambda>i. map label (preorder (store_tree node kids d i))) (kids ! j))"
    by (simp add: map_concat comp_def label_def)
  with Suc show ?case by (simp add: map_concat comp_def)
qed

lemma count_mset_distinct: "distinct xs \<Longrightarrow> count (mset xs) x = (if x \<in> set xs then 1 else 0)"
  by (simp add: distinct_count_atmost_1)

lemma count_concat: "count (mset (concat xss)) k = sum_list (map (\<lambda>xs. count (mset xs) k) xss)"
  by (induction xss) auto

lemma store_okD: "store_ok kids \<Longrightarrow> p < length kids \<Longrightarrow> j \<in> set (kids ! p) \<Longrightarrow> p < j \<and> j < length kids"
  unfolding store_ok_def by blast

lemma store_ok_pos: "store_ok kids \<Longrightarrow> 0 < length kids"
  unfolding store_ok_def by blast

lemma store_ok_kids: "store_ok kids \<Longrightarrow> mset (concat kids) = mset [1..<length kids]"
  unfolding store_ok_def by blast

lemma store_ok_unique:
  assumes "store_ok kids" and "0 < k" and "k < length kids"
  shows "\<exists>p < k. \<forall>j < length kids. count (mset (kids ! j)) k = (if j = p then 1 else 0)"
proof -
  have "count (mset (concat kids)) k = 1"
    unfolding store_ok_kids [OF assms(1)] using assms(2,3) count_mset_distinct [of "[1..<length kids]" k] by simp
  then have sum: "(\<Sum>j < length kids. count (mset (kids ! j)) k) = 1"
    unfolding count_concat by (simp add: sum_list_sum_nth atLeast0LessThan)
  then obtain p where p: "p < length kids" "count (mset (kids ! p)) k \<noteq> 0"
    by (metis (no_types, lifting) lessThan_iff sum.neutral zero_neq_one)
  have "(\<Sum>j < length kids. count (mset (kids ! j)) k) = count (mset (kids ! p)) k + (\<Sum>j \<in> {..<length kids} - {p}. count (mset (kids ! j)) k)"
    using p(1) by (simp add: sum.remove)
  then have "count (mset (kids ! p)) k = 1" "(\<Sum>j \<in> {..<length kids} - {p}. count (mset (kids ! j)) k) = 0"
    using sum p(2) by linarith+
  then have "\<forall>j < length kids. count (mset (kids ! j)) k = (if j = p then 1 else 0)" by auto
  moreover have "k \<in> set (kids ! p)" using p(2) by (simp add: count_eq_zero_iff)
  then have "p < k" using store_okD [OF assms(1) p(1)] by blast
  ultimately show ?thesis by blast
qed

lemma store_ids_count:
  assumes ok: "store_ok kids" and k: "p < k"
    and par: "\<forall>j < length kids. count (mset (kids ! j)) k = (if j = p then 1 else 0)"
  shows "j < length kids \<Longrightarrow> length kids - j \<le> d \<Longrightarrow>
    count (mset (store_ids kids d j)) k = (if j = k then 1 else 0) + count (mset (store_ids kids d j)) p"
proof (induction d arbitrary: j)
  case 0
  then show ?case by simp
next
  case (Suc d)
  have IH: "count (mset (store_ids kids d i)) k = (if i = k then 1 else 0) + count (mset (store_ids kids d i)) p" if "i \<in> set (kids ! j)" for i
  proof (rule Suc.IH)
    have "j < i \<and> i < length kids" by (rule store_okD [OF ok Suc.prems(1) that])
    then show "i < length kids" "length kids - i \<le> d" using Suc.prems(2) by auto
  qed
  have ind: "sum_list (map (\<lambda>i. if i = k then 1 else 0) xs) = count (mset xs) k" for xs :: "nat list"
    by (induction xs) auto
  have "sum_list (map (\<lambda>i. count (mset (store_ids kids d i)) k) (kids ! j)) =
      sum_list (map (\<lambda>i. (if i = k then 1 else 0) + count (mset (store_ids kids d i)) p) (kids ! j))"
    using IH by (metis (no_types, lifting) map_eq_conv)
  also have "\<dots> = count (mset (kids ! j)) k + sum_list (map (\<lambda>i. count (mset (store_ids kids d i)) p) (kids ! j))"
    using ind by (simp add: sum_list_addf)
  also have "count (mset (kids ! j)) k = (if j = p then 1 else 0)" using par Suc.prems(1) by blast
  finally have kids: "sum_list (map (\<lambda>i. count (mset (store_ids kids d i)) k) (kids ! j)) =
      (if j = p then 1 else 0) + sum_list (map (\<lambda>i. count (mset (store_ids kids d i)) p) (kids ! j))" .
  have row: "count (mset (store_ids kids (Suc d) j)) x =
      (if j = x then 1 else 0) + sum_list (map (\<lambda>i. count (mset (store_ids kids d i)) x) (kids ! j))" for x
    using count_concat [of "map (store_ids kids d) (kids ! j)" x] by (auto simp: comp_def simp del: mset_concat)
  show ?case unfolding row kids using k by auto
qed

text \<open>Every node is visited exactly once.\<close>

lemma store_ids_all:
  assumes ok: "store_ok kids"
  shows "mset (store_ids kids (length kids) 0) = mset [0..<length kids]"
proof -
  let ?n = "length kids" and ?ids = "store_ids kids (length kids) 0"
  have n: "0 < ?n" by (rule store_ok_pos [OF ok])
  have range: "i < ?n" if "i \<in> set (store_ids kids d j)" "j < ?n" for i d j
    using that
  proof (induction d arbitrary: j)
    case (Suc d)
    show ?case
    proof (cases "i = j")
      case False
      then obtain m where "m \<in> set (kids ! j)" "i \<in> set (store_ids kids d m)" using Suc.prems(1) by auto
      with store_okD [OF ok Suc.prems(2), of m] Suc.IH [of m] show ?thesis by auto
    qed (use Suc.prems in simp)
  qed simp
  have ge: "j \<le> i" if "i \<in> set (store_ids kids d j)" "j < ?n" for i d j
    using that
  proof (induction d arbitrary: j)
    case (Suc d)
    show ?case
    proof (cases "i = j")
      case False
      then obtain m where "m \<in> set (kids ! j)" "i \<in> set (store_ids kids d m)" using Suc.prems(1) by auto
      with store_okD [OF ok Suc.prems(2), of m] Suc.IH [of m] show ?thesis by auto
    qed (use Suc.prems in simp)
  qed simp
  have zero: "count (mset ?ids) 0 = 1"
  proof -
    obtain d where d: "?n = Suc d" using n by (cases ?n) auto
    have "0 \<notin> set (store_ids kids d i)" if "i \<in> set (kids ! 0)" for i
    proof
      assume "0 \<in> set (store_ids kids d i)"
      moreover have "0 < i" "i < ?n" using store_okD [OF ok n that] by auto
      ultimately show False using ge [of 0 d i] by simp
    qed
    then have "count (mset (concat (map (store_ids kids d) (kids ! 0)))) 0 = 0"
      by (auto simp: count_eq_zero_iff simp del: mset_concat)
    then show ?thesis unfolding d by (simp del: mset_concat)
  qed
  have "count (mset ?ids) k = 1" if "k < ?n" for k
    using that
  proof (induction k rule: less_induct)
    case (less k)
    show ?case
    proof (cases "k = 0")
      case True
      then show ?thesis using zero by simp
    next
      case False
      then obtain p where "p < k" and p: "\<forall>j < ?n. count (mset (kids ! j)) k = (if j = p then 1 else 0)"
        using store_ok_unique [OF ok, of k] less.prems by blast
      then show ?thesis using store_ids_count [OF ok _ p n] less False by simp
    qed
  qed
  moreover have "count (mset ?ids) k = 0" if "\<not> k < ?n" for k
    using range [of k ?n 0] n that by (auto simp: count_eq_zero_iff)
  moreover have "count (mset [0..<?n]) k = (if k < ?n then 1 else 0)" for k
    using count_mset_distinct [of "[0..<?n]" k] by (simp del: mset_upt)
  ultimately show ?thesis by (intro multiset_eqI) metis
qed

end
