(* ===== verification/OnetNary.thy ===== *)
theory OnetNary
  imports OnetGen
begin

text \<open>
  What \<open>GenerateNaryTreeWithRoot\<close> builds: node \<open>j\<close>, counted in the order of creation, has the children
  \<open>j N + 1, ..., j N + N\<close> as far as the roster goes, which is the shape of a heap.
\<close>

section \<open>The store of the loop\<close>

lemma le_mult_N: "1 \<le> N \<Longrightarrow> j \<le> j * (N :: nat)"
  by (metis mult_le_mono2 mult.right_neutral)

definition heap_row :: "nat \<Rightarrow> nat \<Rightarrow> nat \<Rightarrow> nat list" where
  "heap_row N n p = [p * N + 1..<min (p * N + N + 1) n]"

definition heap_kids :: "nat \<Rightarrow> nat \<Rightarrow> nat list list" where
  "heap_kids N n = map (heap_row N n) [0..<n]"

lemma length_heap_kids [simp]: "length (heap_kids N n) = n"
  by (simp add: heap_kids_def)

lemma heap_kids_nth [simp]: "p < n \<Longrightarrow> heap_kids N n ! p = heap_row N n p"
  by (simp add: heap_kids_def)

definition nary_inv :: "nat \<Rightarrow> nary \<Rightarrow> bool" where
  "nary_inv N st \<longleftrightarrow> (\<exists>a. na_kids st = heap_kids N (length (na_kids st)) \<and> na_parents st \<noteq> [] \<and>
     na_parents st @ na_children st = [a..<length (na_kids st)] \<and>
     a * N + 1 \<le> length (na_kids st) \<and> length (na_kids st) \<le> a * N + N + 1)"

lemma heap_row_beyond: "i \<le> a * N + N + 1 \<Longrightarrow> a < k \<Longrightarrow> heap_row N i k = []"
proof -
  assume "i \<le> a * N + N + 1" "a < k"
  then have "i \<le> k * N + 1" using mult_le_mono1 [of "Suc a" k N] by simp
  then show "heap_row N i k = []" by (simp add: heap_row_def)
qed

lemma heap_visits:
  assumes "1 \<le> N" and "a < i" and "i \<le> a * N + N + 1"
  shows "store_visits (heap_kids N i) i a = 1 + length (heap_row N i a)"
proof -
  obtain d where d: "i = Suc d" using assms(2) by (cases i) auto
  have "store_visits (heap_kids N i) d k = 1" if "k \<in> set (heap_row N i a)" for k
  proof -
    have k: "a * N + 1 \<le> k" "k < i" using that by (auto simp: heap_row_def)
    have "a < k" using k le_mult_N [OF assms(1), of a] by linarith
    then have "heap_kids N i ! k = []" using heap_row_beyond [OF assms(3)] k(2) by simp
    then show ?thesis by (cases d) simp_all
  qed
  then have "sum_list (map (store_visits (heap_kids N i) d) (heap_row N i a)) = sum_list (map (\<lambda>_. 1) (heap_row N i a))"
    by (metis (no_types, lifting) map_eq_conv)
  then have "store_visits (heap_kids N i) (Suc d) a = Suc (length (heap_row N i a))"
    using assms(2) by (simp add: sum_list_triv)
  then show ?thesis using d by simp
qed

lemma add_kid_heap:
  assumes "1 \<le> N" and "q < i" and "q * N + 1 \<le> i" and "i < q * N + N + 1"
  shows "add_kid q (heap_kids N i) = heap_kids N (Suc i)"
proof (rule nth_equalityI)
  fix p assume "p < length (add_kid q (heap_kids N i))"
  then have p: "p < Suc i" by (simp add: add_kid_def)
  have new: "heap_row N (Suc i) i = []"
  proof -
    have "min (i * N + N + 1) (Suc i) \<le> i * N + 1" using le_mult_N [OF assms(1), of i] by linarith
    then show ?thesis unfolding heap_row_def upt_eq_Nil_conv by blast
  qed
  show "add_kid q (heap_kids N i) ! p = heap_kids N (Suc i) ! p"
  proof (cases "p = i")
    case True
    then show ?thesis using new by (simp add: add_kid_def nth_append)
  next
    case False
    with p have p': "p < i" by simp
    then have "add_kid q (heap_kids N i) ! p = (if p = q then heap_row N i q @ [i] else heap_row N i p)"
      using assms(2) by (simp add: add_kid_def nth_append)
    also have "\<dots> = heap_row N (Suc i) p"
    proof (cases p q rule: linorder_cases)
      case less
      then have "p * N + N + 1 \<le> i" using mult_le_mono1 [of "Suc p" q N] assms(3) by simp
      then show ?thesis using less by (simp add: heap_row_def min_def)
    next
      case equal
      have "min (q * N + N + 1) i = i" "min (q * N + N + 1) (Suc i) = Suc i" using assms(4) by linarith+
      then show ?thesis using equal assms(3) by (simp add: heap_row_def)
    next
      case greater
      then have "heap_row N (Suc i) p = []" "heap_row N i p = []"
        using heap_row_beyond [of _ q N p] assms(4) by simp_all
      then show ?thesis using greater by simp
    qed
    finally show ?thesis using p by simp
  qed
qed (simp add: add_kid_def)

lemma nary_step_inv:
  assumes "1 \<le> N" and "nary_inv N st"
  shows "\<exists>st'. nary_step (int N) st = Inr st' \<and> nary_inv N st' \<and> length (na_kids st') = Suc (length (na_kids st))"
proof -
  let ?i = "length (na_kids st)"
  obtain a where kids: "na_kids st = heap_kids N ?i" and ne: "na_parents st \<noteq> []"
    and pc: "na_parents st @ na_children st = [a..<?i]" and lo: "a * N + 1 \<le> ?i" and hi: "?i \<le> a * N + N + 1"
    using assms(2) unfolding nary_inv_def by blast
  have ai: "a < ?i" using pc ne by (metis append_is_Nil_conv leI upt_eq_Nil_conv)
  obtain ps where ps: "na_parents st = a # ps" "ps @ na_children st = [Suc a..<?i]"
    using pc ne ai by (cases "na_parents st") (auto simp: upt_conv_Cons)
  have row: "length (heap_row N ?i a) = ?i - (a * N + 1)"
    using hi by (simp add: heap_row_def min_def)
  have full: "int (store_visits (na_kids st) ?i a) - 1 = int N \<longleftrightarrow> ?i = a * N + N + 1"
  proof -
    have "store_visits (na_kids st) ?i a = 1 + (?i - (a * N + 1))"
      using heap_visits [OF assms(1) ai hi] kids row by metis
    then show ?thesis using lo by linarith
  qed
  show ?thesis
  proof (cases "?i = a * N + N + 1")
    case False
    then have "add_kid a (na_kids st) = heap_kids N (Suc ?i)"
      using add_kid_heap [OF assms(1) ai lo] hi kids by simp
    then show ?thesis using False full ps pc lo hi ai
      by (auto simp: nary_step_def nary_inv_def Let_def intro!: exI [of _ a])
  next
    case True
    have q: "Suc a < ?i" "Suc a * N + 1 \<le> ?i" "?i < Suc a * N + N + 1"
      using True assms(1) le_mult_N [OF assms(1), of a] unfolding mult_Suc by linarith+
    have "add_kid (Suc a) (na_kids st) = heap_kids N (Suc ?i)"
      using add_kid_heap [OF assms(1) q] kids by simp
    moreover have "[Suc a..<?i] = Suc a # [Suc (Suc a)..<?i]" using q(1) by (rule upt_conv_Cons)
    ultimately show ?thesis using True full ps q
      by (cases ps) (auto simp: nary_step_def nary_inv_def Let_def Cons_eq_append_conv intro!: exI [of _ "Suc a"])
  qed
qed

lemma nary_loop_inv:
  assumes "1 \<le> N"
  shows "\<forall>s \<in> set ss. si_Public s \<noteq> None \<Longrightarrow> nary_inv N st \<Longrightarrow>
    \<exists>st'. nary_loop (int N) ss st = Inr st' \<and> na_kids st' = heap_kids N (length (na_kids st) + length ss)"
proof (induction ss arbitrary: st)
  case Nil
  then show ?case by (auto simp: nary_inv_def)
next
  case (Cons s ss)
  obtain p where "si_Public s = Some p" using Cons.prems(1) by auto
  moreover obtain st1 where "nary_step (int N) st = Inr st1" "nary_inv N st1" "length (na_kids st1) = Suc (length (na_kids st))"
    using nary_step_inv [OF assms Cons.prems(2)] by blast
  ultimately show ?case using Cons.IH [of st1] Cons.prems by (simp add: nonnil_def)
qed

section \<open>The reference tree\<close>

definition key_uuid :: "'p crypto \<Rightarrow> 'p ServerIdentity \<Rightarrow> uuid" where
  "key_uuid c s = (case si_Public s of None \<Rightarrow> 0 | Some p \<Rightarrow> UuidURL c (PointString c p))"

function heap_tree :: "'p crypto \<Rightarrow> 'p ServerIdentity list \<Rightarrow> nat \<Rightarrow> nat \<Rightarrow> nat \<Rightarrow> 'p onode" where
  "heap_tree c l N r j =
    (let k = (j + r) mod length l
     in ONode (key_uuid c (l ! k)) (l ! k) (int k) (map (heap_tree c l N r) (heap_row N (length l) j)))"
  by pat_completeness auto
termination
proof (relation "measure (\<lambda>(c, l, N, r, j). length l - j)")
  fix c :: "'p crypto" and l :: "'p ServerIdentity list" and N r j k z
  assume "z \<in> set (heap_row N (length l) j)"
  then have z: "j * N + 1 \<le> z" "z < j * N + N + 1" "z < length l" by (auto simp: heap_row_def)
  then have "1 \<le> N" by simp
  then have "j < z" using z(1) le_mult_N [of N j] by linarith
  with z(3) show "((c, l, N, r, z), c, l, N, r, j) \<in> measure (\<lambda>(c, l, N, r, j). length l - j)" by simp
qed simp

declare heap_tree.simps [simp del]

lemma fresh_node_key:
  "si_Public s \<noteq> None \<Longrightarrow> fresh_node c s k = ONode (key_uuid c s) s (int k) []"
  by (auto simp: fresh_node_def NewTreeNode_def nonnil_def key_uuid_def)

lemma store_tree_heap:
  assumes "1 \<le> N" and keys: "\<forall>s \<in> set l. si_Public s \<noteq> None"
    and node: "\<And>i. i < length l \<Longrightarrow> node i = fresh_node c (l ! ((i + r) mod length l)) ((i + r) mod length l)"
  shows "j < length l \<Longrightarrow> length l - j \<le> d \<Longrightarrow> store_tree node (heap_kids N (length l)) d j = heap_tree c l N r j"
proof (induction d arbitrary: j)
  case (Suc d)
  let ?k = "(j + r) mod length l"
  have "0 < length l" using Suc.prems(1) by linarith
  then have k: "?k < length l" by simp
  then have nj: "node j = ONode (key_uuid c (l ! ?k)) (l ! ?k) (int ?k) []"
    using node [OF Suc.prems(1)] keys fresh_node_key by (metis nth_mem)
  have "store_tree node (heap_kids N (length l)) d z = heap_tree c l N r z" if "z \<in> set (heap_row N (length l) j)" for z
  proof (rule Suc.IH)
    have z: "j * N + 1 \<le> z" "z < length l" using that by (auto simp: heap_row_def)
    have "j < z" using z(1) le_mult_N [OF assms(1), of j] by linarith
    then show "z < length l" "length l - z \<le> d" using z(2) Suc.prems by auto
  qed
  then show ?case using nj Suc.prems(1) heap_tree.simps [of c l N r j] by (simp add: Let_def)
qed simp

lemma concat_heap_rows: "1 \<le> n \<Longrightarrow> concat (map (heap_row N n) [0..<m]) = [1..<min (m * N + 1) n]"
proof (induction m)
  case (Suc m)
  show ?case
  proof (cases "m * N + 1 \<le> n")
    case True
    then have "min (m * N + 1) n = m * N + 1" by simp
    moreover have "[1..<m * N + 1] @ [m * N + 1..<min (m * N + N + 1) n] = [1..<min (m * N + N + 1) n]"
      using True upt_add_eq_append [of 1 "m * N + 1" "min (m * N + N + 1) n - (m * N + 1)"] by simp
    ultimately show ?thesis using Suc by (simp add: heap_row_def add.commute add.left_commute)
  next
    case False
    then show ?thesis using Suc by (simp add: heap_row_def min_def)
  qed
qed simp

lemma store_ok_heap:
  assumes "1 \<le> N" and "1 \<le> n"
  shows "store_ok (heap_kids N n)"
  unfolding store_ok_def length_heap_kids
proof (intro conjI allI impI ballI)
  show "heap_kids N n \<noteq> []" using assms(2) by (simp add: heap_kids_def)
  have "min (n * N + 1) n = n" using le_mult_N [OF assms(1), of n] by linarith
  then show "mset (concat (heap_kids N n)) = mset [1..<n]"
    unfolding heap_kids_def concat_heap_rows [OF assms(2)] by (simp only:)
  fix p j
  assume "p < n" and "j \<in> set (heap_kids N n ! p)"
  then have "p * N + 1 \<le> j" "j < n" by (auto simp: heap_row_def)
  then show "p < j" "j < n" using le_mult_N [OF assms(1), of p] by linarith+
qed

lemma preorder_heap:
  assumes "1 \<le> N" and keys: "\<forall>s \<in> set l. si_Public s \<noteq> None" and "l \<noteq> []"
  shows "mset (map label (preorder (heap_tree c l N r 0))) =
    mset (map (\<lambda>i. let k = (i + r) mod length l in (key_uuid c (l ! k), l ! k, int k)) [0..<length l])"
proof -
  let ?n = "length l"
  let ?node = "\<lambda>i. fresh_node c (l ! ((i + r) mod ?n)) ((i + r) mod ?n)"
  have n: "0 < ?n" using assms(3) by simp
  have key: "fresh_node c (l ! ((i + r) mod ?n)) ((i + r) mod ?n) =
      ONode (key_uuid c (l ! ((i + r) mod ?n))) (l ! ((i + r) mod ?n)) (int ((i + r) mod ?n)) []" for i
    using fresh_node_key keys n by (metis mod_less_divisor nth_mem)
  have "store_tree ?node (heap_kids N ?n) ?n 0 = heap_tree c l N r 0"
    using store_tree_heap [OF assms(1) keys, of ?node c r 0 ?n] n by simp
  then have "map label (preorder (heap_tree c l N r 0)) = map (\<lambda>i. label (?node i)) (store_ids (heap_kids N ?n) ?n 0)"
    using store_tree_labels [of ?node "heap_kids N ?n" ?n 0] key by simp
  also have "mset \<dots> = image_mset (\<lambda>i. label (?node i)) (mset (store_ids (heap_kids N ?n) ?n 0))" by simp
  also have "mset (store_ids (heap_kids N ?n) ?n 0) = mset [0..<?n]"
    using store_ids_all [OF store_ok_heap [OF assms(1), of ?n]] n by simp
  also have "image_mset (\<lambda>i. label (?node i)) (mset [0..<?n]) =
      mset (map (\<lambda>i. let k = (i + r) mod ?n in (key_uuid c (l ! k), l ! k, int k)) [0..<?n])"
    by (simp add: key label_def Let_def del: mset_upt)
  finally show ?thesis .
qed


lemma heap_labels:
  assumes "1 \<le> N" and "\<forall>s \<in> set l. si_Public s \<noteq> None" and "l \<noteq> []" and "n \<in> set (preorder (heap_tree c l N r 0))"
  shows "\<exists>k < length l. tn_Index n = int k \<and> tn_Server n = l ! k \<and> tn_ID n = key_uuid c (l ! k)"
proof -
  have "set (map label (preorder (heap_tree c l N r 0))) =
      set (map (\<lambda>i. let k = (i + r) mod length l in (key_uuid c (l ! k), l ! k, int k)) [0..<length l])"
    using arg_cong [OF preorder_heap [OF assms(1-3), of c r], of set_mset] by (simp del: mset_map)
  moreover have "label n \<in> set (map label (preorder (heap_tree c l N r 0)))" using assms(4) by simp
  ultimately have "label n \<in> (\<lambda>i. let k = (i + r) mod length l in (key_uuid c (l ! k), l ! k, int k)) ` {0..<length l}" by simp
  then obtain i where i: "i < length l" "label n = (key_uuid c (l ! ((i + r) mod length l)), l ! ((i + r) mod length l), int ((i + r) mod length l))"
    by (auto simp: Let_def)
  have "(i + r) mod length l < length l" using assms(3) by simp
  then show ?thesis using i(2) by (auto simp: label_def)
qed

lemma keyed_heap:
  assumes "1 \<le> N" and "\<forall>s \<in> set l. si_Public s \<noteq> None" and "l \<noteq> []"
  shows "keyed_tree (heap_tree c l N r 0)"
  unfolding keyed_tree_def using heap_labels [OF assms] assms(2) by (metis nth_mem)

lemma nodes_of_heap:
  assumes "1 \<le> N" and "\<forall>s \<in> set (ro_List ro). si_Public s \<noteq> None" and "ro_List ro \<noteq> []"
  shows "nodes_of ro (heap_tree c (ro_List ro) N r 0)"
  unfolding nodes_of_def
proof
  fix n assume "n \<in> set (preorder (heap_tree c (ro_List ro) N r 0))"
  from heap_labels [OF assms this] show "0 \<le> tn_Index n \<and> tn_Index n < len (ro_List ro) \<and> tn_Server n = ro_List ro ! nat (tn_Index n)"
    by auto
qed

lemma servers_heap:
  assumes "1 \<le> N" and "\<forall>s \<in> set l. si_Public s \<noteq> None" and "l \<noteq> []"
  shows "mset (map tn_Server (preorder (heap_tree c l N r 0))) = mset l"
proof -
  let ?n = "length l"
  have "map tn_Server (preorder (heap_tree c l N r 0)) = map (\<lambda>x. fst (snd x)) (map label (preorder (heap_tree c l N r 0)))"
    by (simp add: label_def comp_def)
  then have "mset (map tn_Server (preorder (heap_tree c l N r 0))) = image_mset (\<lambda>x. fst (snd x)) (mset (map label (preorder (heap_tree c l N r 0))))"
    by (simp only: mset_map)
  also have "\<dots> = mset (map (\<lambda>i. l ! ((i + r) mod ?n)) [0..<?n])"
    unfolding preorder_heap [OF assms] by (simp only: mset_map [symmetric] map_map comp_def Let_def fst_conv snd_conv)
  also have "map (\<lambda>i. l ! ((i + r) mod ?n)) [0..<?n] = rotate r l"
    by (rule nth_equalityI) (simp_all add: nth_rotate add.commute)
  also have "mset (rotate r l) = mset l"
    unfolding rotate_drop_take mset_append
    by (metis add.commute append_take_drop_id mset_append)
  finally show ?thesis .
qed

lemma arity_heap: "n \<in> set (preorder (heap_tree c l N r j)) \<Longrightarrow> length (tn_Children n) \<le> N"
proof (induction c l N r j arbitrary: n rule: heap_tree.induct)
  case (1 c l N r j)
  have "length (heap_row N (length l) j) \<le> N" by (simp add: heap_row_def)
  moreover have "n = heap_tree c l N r j \<or> (\<exists>z \<in> set (heap_row N (length l) j). n \<in> set (preorder (heap_tree c l N r z)))"
    using "1.prems" unfolding heap_tree.simps [of c l N r j] Let_def by auto
  moreover have "length (tn_Children (heap_tree c l N r j)) = length (heap_row N (length l) j)"
    unfolding heap_tree.simps [of c l N r j] Let_def by simp
  ultimately show ?case using "1.IH" by metis
qed

section \<open>The generator\<close>

lemma nary_inv_start: "nary_inv N \<lparr>na_kids = [[]], na_parents = [0], na_children = []\<rparr>"
  by (simp add: nary_inv_def heap_kids_def heap_row_def)

definition nary_result :: "'p crypto \<Rightarrow> 'p ORoster \<Rightarrow> nat \<Rightarrow> nat \<Rightarrow> fault + 'p OTree option \<Rightarrow> bool" where
  "nary_result c ro N r res \<longleftrightarrow>
    (\<exists>i. res = Inr (Some \<lparr>ot_ID = i, ot_Roster = Some ro, ot_Root = heap_tree c (ro_List ro) N r 0\<rparr>))"

lemma nary_generated:
  assumes N: "1 \<le> N" and keys: "None \<notin> set (Publics ro)" and r: "r < length (ro_List ro)"
    and rootSi: "rootSi = None \<and> r = 0 \<or> rootSi = Some (ro_List ro ! r) \<and> distinct (map si_ID (ro_List ro))"
  shows "nary_result c ro N r (GenerateNaryTreeWithRoot c ro (int N) rootSi)"
proof -
  let ?l = "ro_List ro" and ?n = "length (ro_List ro)"
  let ?index = "\<lambda>j. (j + r) mod ?n"
  let ?node = "\<lambda>j. if j = 0 then fresh_node c (?l ! r) r else fresh_node c (?l ! ?index j) (?index j)"
  have key: "\<forall>s \<in> set ?l. si_Public s \<noteq> None" using keys unfolding Publics_def by (metis image_eqI list.set_map)
  have n: "0 < ?n" "?l \<noteq> []" using r by auto
  obtain p where p: "si_Public (?l ! r) = Some p" using key r by (metis not_None_eq nth_mem)
  have found: "(case rootSi of None \<Rightarrow> (case ?l of [] \<Rightarrow> Inl IndexPanic | s # _ \<Rightarrow> Inr (Some (0, s)))
      | Some s \<Rightarrow> (case ro_Search ro (si_ID s) of None \<Rightarrow> Inr None | Some (i, _) \<Rightarrow> Inr (Some (nat i, s)))) = Inr (Some (r, ?l ! r))"
    using rootSi
  proof
    assume "rootSi = None \<and> r = 0"
    then show ?thesis using n by (cases ?l) auto
  next
    assume a: "rootSi = Some (?l ! r) \<and> distinct (map si_ID ?l)"
    then have "ro_Search ro (si_ID (?l ! r)) = Some (int r, ?l ! r)"
      using search_from_distinct [of ?l r 0] r by (simp add: ro_Search_def)
    then show ?thesis using a by simp
  qed
  have "\<forall>s \<in> set (map (\<lambda>i. ?l ! ?index i) [1..<?n]). si_Public s \<noteq> None" using key n(1) by auto
  from nary_loop_inv [OF N this nary_inv_start] obtain st where
    st: "nary_loop (int N) (map (\<lambda>i. ?l ! ?index i) [1..<?n]) \<lparr>na_kids = [[]], na_parents = [0], na_children = []\<rparr> = Inr st"
      "na_kids st = heap_kids N ?n" using n(1) by auto
  have "store_tree ?node (heap_kids N ?n) ?n 0 = heap_tree c ?l N r 0"
  proof (rule store_tree_heap [OF N key _ n(1)])
    fix i assume "i < ?n"
    then show "?node i = fresh_node c (?l ! ?index i) (?index i)" using r by auto
  qed simp
  moreover obtain i where "NewTree c (Some ro) (heap_tree c ?l N r 0) = Inr \<lparr>ot_ID = i, ot_Roster = Some ro, ot_Root = heap_tree c ?l N r 0\<rparr>"
    using NewTree_ok [OF keyed_heap [OF N key n(2)]] by blast
  ultimately show ?thesis
    unfolding nary_result_def GenerateNaryTreeWithRoot_def Let_def found using p st by (simp add: nonnil_def)
qed


text \<open>
  C37: \<open>GenerateNaryTreeWithRoot\<close>, which fills the nodes level by level from two queues, makes the tree
  of the heap: with the server of index r as root, or the first one when none is named, node j is made
  of the server r + j places on, its index is that of the server, and its children are the nodes
  j N + 1 to j N + N, as far as there are servers.
\<close>

theorem nary_tree_is_heap:
  assumes "1 \<le> N" and "None \<notin> set (Publics ro)" and "r < length (ro_List ro)"
    and "rootSi = None \<and> r = 0 \<or> rootSi = Some (ro_List ro ! r) \<and> distinct (map si_ID (ro_List ro))"
  shows "\<exists>i. GenerateNaryTreeWithRoot c ro (int N) rootSi =
    Inr (Some \<lparr>ot_ID = i, ot_Roster = Some ro, ot_Root = heap_tree c (ro_List ro) N r 0\<rparr>)"
  using nary_generated [OF assms] unfolding nary_result_def .

lemma nary_tree_is_heap_witness:
  "\<exists>i. GenerateNaryTreeWithRoot sample_crypto (sample_roster [1, 2, 3, 4, 5, 6]) 2 (Some (sample_server 4)) =
    Inr (Some \<lparr>ot_ID = i, ot_Roster = Some (sample_roster [1, 2, 3, 4, 5, 6]),
      ot_Root = heap_tree sample_crypto (map sample_server [1, 2, 3, 4, 5, 6]) 2 3 0\<rparr>)"
  using nary_tree_is_heap [of 2 "sample_roster [1, 2, 3, 4, 5, 6]" 3 "Some (sample_server 4)" sample_crypto]
  by (simp add: sample_roster_def sample_server_def Publics_def)

text \<open>What a generated tree is, over its roster.\<close>

definition over_roster :: "'p crypto \<Rightarrow> 'p ORoster \<Rightarrow> nat \<Rightarrow> fault + 'p OTree option \<Rightarrow> bool" where
  "over_roster c ro N res \<longleftrightarrow>
    (\<exists>t :: 'p OTree. res = Inr (Some t) \<and> ot_Roster t = Some ro \<and> ot_Root t = heap_tree c (ro_List ro) N 0 0 \<and> nodes_of ro (ot_Root t) \<and>
      mset (map tn_Server (ot_List t)) = mset (ro_List ro) \<and> (\<forall>x \<in> set (ot_List t). length (tn_Children x) \<le> N) \<and>
      (distinct (map si_ID (ro_List ro)) \<longrightarrow> MakeTree c ro (MakeTreeMarshal t) = Inr t))"

lemma over_roster_nary:
  assumes N: "1 \<le> N" and keys: "None \<notin> set (Publics ro)" and ne: "ro_List ro \<noteq> []"
  shows "over_roster c ro N (GenerateNaryTree c ro (int N))"
proof -
  have key: "\<forall>s \<in> set (ro_List ro). si_Public s \<noteq> None" using keys unfolding Publics_def by (metis image_eqI list.set_map)
  obtain i where i: "GenerateNaryTree c ro (int N) =
      Inr (Some \<lparr>ot_ID = i, ot_Roster = Some ro, ot_Root = heap_tree c (ro_List ro) N 0 0\<rparr>)"
    using nary_generated [OF N keys, of 0 None c] ne unfolding nary_result_def GenerateNaryTree_def by auto
  let ?t = "\<lparr>ot_ID = i, ot_Roster = Some ro, ot_Root = heap_tree c (ro_List ro) N 0 0\<rparr>"
  have nodes: "nodes_of ro (ot_Root ?t)" using nodes_of_heap [OF N key ne] by simp
  have "mset (map tn_Server (ot_List ?t)) = mset (ro_List ro)"
    unfolding ot_List_preorder using servers_heap [OF N key ne] by simp
  moreover have "\<forall>x \<in> set (ot_List ?t). length (tn_Children x) \<le> N" unfolding ot_List_preorder by (auto dest: arity_heap)
  moreover have "distinct (map si_ID (ro_List ro)) \<longrightarrow> MakeTree c ro (MakeTreeMarshal ?t) = Inr ?t"
    using MakeTree_copy [OF _ keys _ nodes] by simp
  ultimately show ?thesis unfolding over_roster_def i using nodes by (intro exI [of _ ?t]) simp
qed

text \<open>The star: the first server is the root, the others are its children, in order, and leaves.\<close>

definition star_of :: "'p ORoster \<Rightarrow> 'p OTree \<Rightarrow> bool" where
  "star_of ro t \<longleftrightarrow> tn_Server (ot_Root t) = hd (ro_List ro) \<and> map tn_Server (tn_Children (ot_Root t)) = tl (ro_List ro) \<and>
    (\<forall>x \<in> set (tn_Children (ot_Root t)). tn_Children x = [])"

lemma heap_tree_star:
  assumes "2 \<le> length l" and "\<forall>s \<in> set l. si_Public s \<noteq> None" and "ot_Root t = heap_tree c l (length l - 1) 0 0" and "l = ro_List ro"
  shows "star_of ro t"
proof -
  let ?N = "length l - 1"
  have row: "heap_row ?N (length l) 0 = [1..<length l]"
    using assms(1) unfolding heap_row_def by (intro arg_cong2 [where f = upt]) simp_all
  have leaf: "tn_Children (heap_tree c l ?N 0 z) = []" if "1 \<le> z" for z
  proof -
    have "heap_row ?N (length l) z = []" using that assms(1) heap_row_beyond [of "length l" 0 ?N z] by simp
    then show ?thesis unfolding heap_tree.simps [of c l ?N 0 z] Let_def by simp
  qed
  have srv: "tn_Server (heap_tree c l ?N 0 z) = l ! z" if "z < length l" for z
    using that unfolding heap_tree.simps [of c l ?N 0 z] Let_def by simp
  have kids: "tn_Children (heap_tree c l ?N 0 0) = map (heap_tree c l ?N 0) [1..<length l]"
    unfolding heap_tree.simps [of c l ?N 0 0] Let_def row by simp
  have "map tn_Server (tn_Children (heap_tree c l ?N 0 0)) = tl l"
    unfolding kids by (rule nth_equalityI) (use srv in \<open>auto simp: nth_tl\<close>)
  moreover have "tn_Server (heap_tree c l ?N 0 0) = hd l" using srv [of 0] assms(1) by (cases l) auto
  moreover have "\<forall>x \<in> set (tn_Children (heap_tree c l ?N 0 0)). tn_Children x = []" unfolding kids using leaf by auto
  ultimately show ?thesis by (simp add: star_of_def assms(3) flip: assms(4))
qed

text \<open>
  C40: the trees of \<open>GenerateNaryTree\<close>, \<open>GenerateBinaryTree\<close> and \<open>GenerateStar\<close> are trees over their roster:
  the heap of N children (2 in the binary tree, all the others in the star), every node's server is the
  one of its index, every server of the roster has exactly one node, no node has more than N children,
  and a tree of them that was sent is made again by \<open>MakeTree\<close>. In the star the first server is the
  root and all the others are its children, in the order of the roster, and leaves.
\<close>

theorem generated_trees_over_roster:
  assumes "None \<notin> set (Publics ro)" and "2 \<le> length (ro_List ro)" and "1 \<le> N"
  shows "over_roster c ro N (GenerateNaryTree c ro (int N)) \<and> over_roster c ro 2 (GenerateBinaryTree c ro) \<and>
    over_roster c ro (length (ro_List ro) - 1) (GenerateStar c ro) \<and>
    (\<exists>t. GenerateStar c ro = Inr (Some t) \<and> star_of ro t)"
proof -
  have ne: "ro_List ro \<noteq> []" using assms(2) by auto
  have keys: "\<forall>s \<in> set (ro_List ro). si_Public s \<noteq> None" using assms(1) unfolding Publics_def by (metis image_eqI list.set_map)
  have "over_roster c ro (length (ro_List ro) - 1) (GenerateNaryTree c ro (int (length (ro_List ro) - 1)))"
    using assms(2) by (intro over_roster_nary [OF _ assms(1) ne]) simp
  moreover have "int (length (ro_List ro) - 1) = int (length (ro_List ro)) - 1" using assms(2) by linarith
  ultimately have star: "over_roster c ro (length (ro_List ro) - 1) (GenerateStar c ro)" by (simp add: GenerateStar_def)
  then obtain t where "GenerateStar c ro = Inr (Some t)" "ot_Root t = heap_tree c (ro_List ro) (length (ro_List ro) - 1) 0 0"
    unfolding over_roster_def by blast
  then have "\<exists>t. GenerateStar c ro = Inr (Some t) \<and> star_of ro t" using heap_tree_star [OF assms(2) keys _ refl] by blast
  then show ?thesis
    using star over_roster_nary [OF assms(3,1) ne] over_roster_nary [of 2 ro c, OF _ assms(1) ne]
    by (simp add: GenerateBinaryTree_def)
qed

lemma generated_trees_over_roster_witness:
  "over_roster sample_crypto (sample_roster [1, 2, 3, 4, 5]) 3 (GenerateNaryTree sample_crypto (sample_roster [1, 2, 3, 4, 5]) 3) \<and>
   (\<exists>t. GenerateStar sample_crypto (sample_roster [1, 2, 3, 4, 5]) = Inr (Some t) \<and>
      map tn_Server (tn_Children (ot_Root t)) = map sample_server [2, 3, 4, 5])"
  using generated_trees_over_roster [of "sample_roster [1, 2, 3, 4, 5]" 3 sample_crypto]
  by (auto simp: sample_roster_def sample_server_def Publics_def star_of_def)

end
