(* ===== verification/OnetBig.thy ===== *)
theory OnetBig
  imports OnetNary
begin

text \<open>
  What \<open>GenerateBigNaryTree\<close> builds: the search for the next server ends within two rounds of the
  roster, every level adds nodes, and the tree has the nodes that were asked for.
\<close>

section \<open>The search for a server\<close>

lemma search_unused:
  assumes "first < length hosts" and "\<not> used ! ((i + k) mod length hosts)" and "i < length hosts"
  shows "\<exists>r. big_search hosts True used ph first i ch False = Some r \<and> r < length hosts \<and> \<not> used ! r"
  using assms(2,3)
proof (induction k arbitrary: i ch)
  case 0
  then show ?case by (subst big_search.simps) simp
next
  case (Suc k)
  show ?case
  proof (cases "used ! i")
    case False
    then show ?thesis using Suc.prems by (subst big_search.simps) simp
  next
    case True
    let ?r = "(i + 1) mod length hosts"
    have r: "?r < length hosts" using assms(1) by (intro mod_less_divisor) linarith
    have "(?r + k) mod length hosts = (i + Suc k) mod length hosts" by (simp add: mod_add_left_eq)
    then have "\<not> used ! ((?r + k) mod length hosts)" using Suc.prems(1) by simp
    from Suc.IH [OF this r] have IH: "\<exists>s. big_search hosts True used ph first ?r z False = Some s \<and> s < length hosts \<and> \<not> used ! s" for z .
    show ?thesis
    proof (cases "used ! ?r")
      case u: True
      then show ?thesis using True IH [of ch] by (subst big_search.simps) (simp add: Let_def cong: if_cong)
    next
      case u: False
      then show ?thesis using True IH [of "hosts ! ?r"] r by (subst big_search.simps) (auto simp: Let_def cong: if_cong)
    qed
  qed
qed

lemma search_finds:
  assumes "first < length hosts" and unused: "useAll \<Longrightarrow> u < length hosts \<and> \<not> used ! u"
  shows "k < length hosts \<Longrightarrow>
    \<exists>r. big_search hosts useAll used ph first ((first + k) mod length hosts) ch True = Some r \<and> r < length hosts \<and> (useAll \<longrightarrow> \<not> used ! r)"
proof (induction "length hosts - k" arbitrary: k ch)
  case 0
  then show ?case by simp
next
  case (Suc m)
  let ?i = "(first + k) mod length hosts" and ?r = "((first + k) mod length hosts + 1) mod length hosts"
  have r: "?r < length hosts" "?i < length hosts" using assms(1) mod_less_divisor [of "length hosts"] by (metis gr_implies_not0 neq0_conv)+
  have next': "?r = (first + (k + 1)) mod length hosts" by (simp add: mod_Suc_eq)
  show ?case
  proof (cases "(ch = ph \<and> 1 < length hosts) \<or> (useAll \<and> used ! ?i)")
    case False
    have "big_search hosts useAll used ph first ?i ch True = Some ?i"
      by (subst big_search.simps) (simp only: False simp_thms if_False)
    then show ?thesis using r False by simp
  next
    case go: True
    show ?thesis
    proof (cases "k + 1 < length hosts")
      case True
      then have ne: "?r \<noteq> first" unfolding next'
      proof (cases "first + (k + 1) < length hosts")
        case True
        then show "(first + (k + 1)) mod length hosts \<noteq> first" by simp
      next
        case False
        then have "(first + (k + 1)) mod length hosts = (first + (k + 1) - length hosts) mod length hosts"
          by (intro le_mod_geq) simp
        also have "\<dots> = first + (k + 1) - length hosts" using False True assms(1) by (intro mod_less) linarith
        finally show "(first + (k + 1)) mod length hosts \<noteq> first" using False True by linarith
      qed
      have "m = length hosts - (k + 1)" using Suc.hyps(2) by simp
      from Suc.hyps(1) [OF this True] have IH:
        "\<exists>s. big_search hosts useAll used ph first ?r z True = Some s \<and> s < length hosts \<and> (useAll \<longrightarrow> \<not> used ! s)" for z
        unfolding next' .
      show ?thesis
      proof (cases "useAll \<and> used ! ?r")
        case True
        then have "useAll" by blast
        with go ne True IH [of ch] show ?thesis by (subst big_search.simps) (simp add: Let_def cong: if_cong)
      next
        case False
        with go ne IH [of "hosts ! ?r"] show ?thesis by (subst big_search.simps) (auto simp: Let_def cong: if_cong)
      qed
    next
      case False
      then have "first + (k + 1) = first + length hosts" using Suc.prems by simp
      then have eq: "?r = first" unfolding next' using assms(1) by simp
      show ?thesis
      proof (cases "useAll \<and> used ! first")
        case True
        have u: "u < length hosts" "\<not> used ! u" using unused True by auto
        then have "(first + (u + (length hosts - first))) mod length hosts = u" using assms(1) by simp
        then have "\<not> used ! ((first + (u + (length hosts - first))) mod length hosts)" using u by simp
        from search_unused [OF assms(1) this assms(1)] have
          "\<exists>s. big_search hosts True used ph first first ch False = Some s \<and> s < length hosts \<and> \<not> used ! s" .
        then show ?thesis using True go eq by (subst big_search.simps) (simp add: Let_def cong: if_cong)
      next
        case False
        then show ?thesis using go eq assms(1) by (subst big_search.simps) (auto simp: Let_def cong: if_cong)
      qed
    qed
  qed
qed

section \<open>The nodes made so far\<close>

lemma store_ok_add:
  assumes "store_ok kids" and "p < length kids"
  shows "store_ok (add_kid p kids)"
  unfolding store_ok_def
proof (intro conjI allI impI ballI)
  let ?m = "length kids"
  show "add_kid p kids \<noteq> []" by (simp add: add_kid_def)
  have len: "length (add_kid p kids) = Suc ?m" by (simp add: add_kid_def)
  have upd: "concat (kids[p := kids ! p @ [?m]]) = concat (take p kids) @ (kids ! p @ [?m]) @ concat (drop (Suc p) kids)"
    using assms(2) by (simp add: upd_conv_take_nth_drop)
  have old: "concat kids = concat (take p kids) @ kids ! p @ concat (drop (Suc p) kids)"
    using arg_cong [OF id_take_nth_drop [OF assms(2)], of concat] by simp
  have "mset (concat (add_kid p kids)) = mset (concat (take p kids) @ (kids ! p @ [?m]) @ concat (drop (Suc p) kids))"
    unfolding upd [symmetric] add_kid_def by (simp only: concat_append concat.simps append_Nil append_Nil2)
  also have "\<dots> = add_mset ?m (mset (concat kids))" unfolding old by simp
  also have "\<dots> = mset [1..<Suc ?m]"
    unfolding store_ok_kids [OF assms(1)] using Suc_leI [OF store_ok_pos [OF assms(1)]] by (simp add: upt_Suc del: mset_upt)
  finally show "mset (concat (add_kid p kids)) = mset [1..<length (add_kid p kids)]" unfolding len .
  fix q j assume q: "q < length (add_kid p kids)" and j: "j \<in> set (add_kid p kids ! q)"
  show "q < j" "j < length (add_kid p kids)"
    using j q store_okD [OF assms(1), of q j] assms(2) unfolding len
    by (auto simp: add_kid_def nth_append nth_list_update less_Suc_eq split: if_splits)
qed

definition big_inv :: "nat \<Rightarrow> bool \<Rightarrow> nat \<Rightarrow> big \<Rightarrow> bool" where
  "big_inv cnt useAll N st \<longleftrightarrow>
    length (bg_kids st) = length (bg_index st) \<and> length (bg_used st) = cnt \<and> bg_next st < cnt \<and>
    (\<forall>k \<in> set (bg_index st). k < cnt) \<and> store_ok (bg_kids st) \<and> (\<forall>row \<in> set (bg_kids st). length row \<le> N) \<and>
    (useAll \<longrightarrow> distinct (bg_index st) \<and> (\<forall>k < cnt. bg_used st ! k \<longleftrightarrow> k \<in> set (bg_index st)))"

text \<open>Nodes from \<open>a\<close> on have no children yet.\<close>

definition open_from :: "nat \<Rightarrow> big \<Rightarrow> bool" where
  "open_from a st \<longleftrightarrow> (\<forall>q. a \<le> q \<and> q < length (bg_kids st) \<longrightarrow> bg_kids st ! q = [])"

lemma big_child_step:
  assumes inv: "big_inv (length l) useAll N st" and p: "p < length (bg_kids st)" and room: "length (bg_kids st ! p) < N"
    and all: "useAll \<Longrightarrow> length (bg_index st) < length l"
    and keys: "\<forall>s \<in> set l. si_Public s \<noteq> None" and hosts: "length hosts = length l"
  shows "\<exists>st'. big_child l hosts useAll p st = Inr st' \<and> big_inv (length l) useAll N st' \<and>
    bg_kids st' = add_kid p (bg_kids st)"
proof -
  let ?i = "bg_next st" and ?cnt = "length l"
  have i: "?i < length hosts" using inv hosts by (simp add: big_inv_def)
  have "\<exists>u. useAll \<longrightarrow> u < length hosts \<and> \<not> bg_used st ! u"
  proof (cases useAll)
    case True
    have "\<not> {..<?cnt} \<subseteq> set (bg_index st)"
    proof
      assume "{..<?cnt} \<subseteq> set (bg_index st)"
      then have "?cnt \<le> length (bg_index st)"
        using card_mono [of "set (bg_index st)" "{..<?cnt}"] card_length [of "bg_index st"] by simp
      then show False using all True by simp
    qed
    then obtain u where "u < ?cnt" "u \<notin> set (bg_index st)" by blast
    then show ?thesis using inv hosts True unfolding big_inv_def by metis
  qed simp
  then obtain u where u: "useAll \<Longrightarrow> u < length hosts \<and> \<not> bg_used st ! u" by blast
  from search_finds [OF i, of useAll u "bg_used st" 0 "hosts ! (bg_index st ! p)" "hosts ! ?i"] u i
  obtain r where r: "big_search hosts useAll (bg_used st) (hosts ! (bg_index st ! p)) ?i ?i (hosts ! ?i) True = Some r"
    "r < ?cnt" "useAll \<longrightarrow> \<not> bg_used st ! r" 
    using hosts by (metis gr_implies_not0 mod_less neq0_conv add_0_right)
  obtain q where q: "si_Public (l ! r) = Some q" using keys r(2) by (metis not_None_eq nth_mem)
  let ?st = "\<lparr>bg_index = bg_index st @ [r], bg_kids = add_kid p (bg_kids st), bg_used = (bg_used st)[r := True], bg_next = (r + 1) mod ?cnt\<rparr>"
  have "big_child l hosts useAll p st = Inr ?st" using r q by (simp add: big_child_def nonnil_def)
  moreover have "big_inv ?cnt useAll N ?st"
  proof -
    have "0 < ?cnt" using r(2) by linarith
    moreover have "store_ok (add_kid p (bg_kids st))" using store_ok_add inv p by (simp add: big_inv_def)
    moreover have "\<forall>row \<in> set (add_kid p (bg_kids st)). length row \<le> N"
    proof
      fix row assume "row \<in> set (add_kid p (bg_kids st))"
      then have "row \<in> insert (bg_kids st ! p @ [length (bg_kids st)]) (set (bg_kids st)) \<or> row = []"
        using set_update_subset_insert [of "bg_kids st" p] by (auto simp: add_kid_def)
      then show "length row \<le> N" using inv room by (auto simp: big_inv_def)
    qed
    moreover have "useAll \<longrightarrow> distinct (bg_index st @ [r]) \<and> (\<forall>k < ?cnt. (bg_used st)[r := True] ! k \<longleftrightarrow> k \<in> set (bg_index st @ [r]))"
      using inv r by (auto simp: big_inv_def nth_list_update)
    ultimately show ?thesis using inv r(2) unfolding big_inv_def by (simp add: add_kid_def)
  qed
  ultimately show ?thesis by auto
qed


lemma add_kid_nth: "p < length kids \<Longrightarrow> q < length kids \<Longrightarrow> add_kid p kids ! q = (if q = p then kids ! p @ [length kids] else kids ! q)"
  by (simp add: add_kid_def nth_append)

lemma add_kid_last: "add_kid p kids ! length kids = []"
  by (simp add: add_kid_def nth_append)

lemma length_add_kid: "length (add_kid p kids) = Suc (length kids)"
  by (simp add: add_kid_def)

lemma big_children_steps:
  assumes keys: "\<forall>s \<in> set l. si_Public s \<noteq> None" and hosts: "length hosts = length l"
  shows "big_inv (length l) useAll N st \<Longrightarrow> p < length (bg_kids st) \<Longrightarrow> length (bg_kids st ! p) + k \<le> N \<Longrightarrow>
    (useAll \<Longrightarrow> length (bg_index st) + k \<le> length l) \<Longrightarrow> open_from (Suc p) st \<Longrightarrow>
    \<exists>st'. big_children l hosts useAll p k st = Inr st' \<and> big_inv (length l) useAll N st' \<and>
      length (bg_index st') = length (bg_index st) + k \<and> open_from (Suc p) st'"
proof (induction k arbitrary: st)
  case 0
  then show ?case by simp
next
  case (Suc k)
  have m: "length (bg_kids st) = length (bg_index st)" using Suc.prems(1) by (simp add: big_inv_def)
  have "length (bg_kids st ! p) < N" using Suc.prems(3) by simp
  moreover have "useAll \<Longrightarrow> length (bg_index st) < length l" using Suc.prems(4) by simp
  ultimately obtain st1 where st1: "big_child l hosts useAll p st = Inr st1" "big_inv (length l) useAll N st1"
      "bg_kids st1 = add_kid p (bg_kids st)"
    using big_child_step [OF Suc.prems(1,2) _ _ keys hosts] by blast
  have m1: "length (bg_index st1) = Suc (length (bg_index st))"
    using st1(2,3) m by (simp add: big_inv_def length_add_kid)
  have "open_from (Suc p) st1"
    unfolding open_from_def st1(3) length_add_kid
  proof (intro allI impI)
    fix q assume q: "Suc p \<le> q \<and> q < Suc (length (bg_kids st))"
    show "add_kid p (bg_kids st) ! q = []"
    proof (cases "q = length (bg_kids st)")
      case True
      then show ?thesis by (simp add: add_kid_last)
    next
      case False
      then show ?thesis using q Suc.prems(2,5) by (simp add: add_kid_nth open_from_def)
    qed
  qed
  moreover have "p < length (bg_kids st1)" "length (bg_kids st1 ! p) + k \<le> N"
    using Suc.prems(2,3) by (simp_all add: st1(3) length_add_kid add_kid_nth)
  moreover have "useAll \<Longrightarrow> length (bg_index st1) + k \<le> length l" using Suc.prems(4) m1 by simp
  ultimately obtain st' where "big_children l hosts useAll p k st1 = Inr st'" "big_inv (length l) useAll N st'"
      "length (bg_index st') = length (bg_index st1) + k" "open_from (Suc p) st'"
    using Suc.IH [OF st1(2)] by blast
  then show ?case using st1(1) m1 by simp
qed

section \<open>Levels\<close>

lemma level_share:
  assumes "0 \<le> a" and "i < width"
  shows "0 \<le> go_quot (a * (int i + 1)) (int width)" and "go_quot (a * (int i + 1)) (int width) \<le> a"
    and "Suc i = width \<Longrightarrow> go_quot (a * (int i + 1)) (int width) = a"
proof -
  have w: "0 < int width" using assms(2) by simp
  have q: "go_quot (a * (int i + 1)) (int width) = a * (int i + 1) div int width"
    using assms w by (intro go_quot_nonneg) auto
  show "0 \<le> go_quot (a * (int i + 1)) (int width)" unfolding q using assms w by (simp add: pos_imp_zdiv_nonneg_iff)
  have "a * (int i + 1) \<le> a * int width" using assms by (intro mult_left_mono) auto
  then have "a * (int i + 1) div int width \<le> a * int width div int width" using w by (rule zdiv_mono1)
  then show "go_quot (a * (int i + 1)) (int width) \<le> a" unfolding q using w by simp
  assume "Suc i = width"
  then have "int i + 1 = int width" by simp
  then show "go_quot (a * (int i + 1)) (int width) = a" unfolding q using w by simp
qed

lemma big_level_steps:
  assumes keys: "\<forall>s \<in> set l. si_Public s \<noteq> None" and hosts: "length hosts = length l" and N: "1 \<le> N"
    and all: "useAll \<Longrightarrow> n = length l"
  shows "big_inv (length l) useAll N st \<Longrightarrow> length (bg_index st) \<le> n \<Longrightarrow> ps = [p..<p + (width - i)] \<Longrightarrow> i \<le> width \<Longrightarrow>
    p + (width - i) \<le> length (bg_index st) \<Longrightarrow> open_from p st \<Longrightarrow>
    \<exists>st'. big_level l hosts useAll (int N) (int n) width i ps st = Inr st' \<and> big_inv (length l) useAll N st' \<and>
      length (bg_index st) \<le> length (bg_index st') \<and> length (bg_index st') \<le> n \<and>
      open_from (p + (width - i)) st' \<and> (i < width \<and> length (bg_index st) < n \<longrightarrow> length (bg_index st) < length (bg_index st'))"
proof (induction ps arbitrary: st p i)
  case Nil
  from Nil(3) have "[p..<p + (width - i)] = []" by (rule sym)
  then have "i = width" using Nil(4) unfolding upt_eq_Nil_conv by linarith
  then show ?case using Nil.prems by simp
next
  case (Cons q ps)
  have i: "i < width" using Cons.prems(3,4) by (cases "i = width") auto
  then have qs: "Suc p + (width - Suc i) = p + (width - i)" and "p < p + (width - i)" by auto
  then have "q # ps = p # [Suc p..<Suc p + (width - Suc i)]" using Cons.prems(3) by (simp only: upt_conv_Cons)
  then have q: "q = p" "ps = [Suc p..<Suc p + (width - Suc i)]" by simp_all
  have m: "length (bg_kids st) = length (bg_index st)" using Cons.prems(1) by (simp add: big_inv_def)
  let ?a = "int n - int (length (bg_index st))"
  let ?k = "go_quot (?a * (int i + 1)) (int width)"
  define k where "k = nat (if ?k > int N then int N else ?k)"
  have a: "0 \<le> ?a" using Cons.prems(2) by simp
  note share = level_share [OF a i]
  have kN: "k \<le> N" and kn: "length (bg_index st) + k \<le> n" unfolding k_def using share by auto
  have p: "p < length (bg_kids st)" using Cons.prems(5) i m by simp
  then have "bg_kids st ! p = []" using Cons.prems(6) by (simp add: open_from_def)
  then have "length (bg_kids st ! p) + k \<le> N" using kN by simp
  moreover have "useAll \<Longrightarrow> length (bg_index st) + k \<le> length l" using all kn by simp
  moreover have "open_from (Suc p) st" using Cons.prems(6) by (simp add: open_from_def)
  ultimately obtain st1 where st1: "big_children l hosts useAll p k st = Inr st1" "big_inv (length l) useAll N st1"
      "length (bg_index st1) = length (bg_index st) + k" "open_from (Suc p) st1"
    using big_children_steps [OF keys hosts Cons.prems(1) p] by blast
  have "length (bg_index st1) \<le> n" "Suc i \<le> width" "Suc p + (width - Suc i) \<le> length (bg_index st1)"
    using kn st1(3) i Cons.prems(5) qs by auto
  from Cons.IH [OF st1(2) this(1) q(2) this(2,3) st1(4)] obtain st' where
    st': "big_level l hosts useAll (int N) (int n) width (Suc i) ps st1 = Inr st'" "big_inv (length l) useAll N st'"
      "length (bg_index st1) \<le> length (bg_index st')" "length (bg_index st') \<le> n" "open_from (Suc p + (width - Suc i)) st'"
      "Suc i < width \<and> length (bg_index st1) < n \<longrightarrow> length (bg_index st1) < length (bg_index st')" by blast
  have "length (bg_index st) < length (bg_index st')" if less: "length (bg_index st) < n"
  proof (cases "Suc i < width")
    case True
    then show ?thesis using st'(3,6) st1(3) less by linarith
  next
    case False
    then have "?k = ?a" using share(3) i by simp
    then have "0 < k" unfolding k_def using less N by auto
    then show ?thesis using st'(3) st1(3) by linarith
  qed
  moreover have "big_level l hosts useAll (int N) (int n) width i (q # ps) st = Inr st'"
    using st1(1) st'(1) q(1) by (simp add: k_def Let_def)
  moreover have "open_from (p + (width - i)) st'" using st'(5) unfolding qs .
  moreover have "length (bg_index st) \<le> length (bg_index st')" using st'(3) st1(3) by linarith
  ultimately show ?case using st'(2,4) by blast
qed

lemma big_loop_builds:
  assumes keys: "\<forall>s \<in> set l. si_Public s \<noteq> None" and hosts: "length hosts = length l" and N: "1 \<le> N"
    and all: "useAll \<Longrightarrow> n = length l"
  shows "big_inv (length l) useAll N st \<Longrightarrow> length (bg_index st) \<le> n \<Longrightarrow> a < length (bg_index st) \<Longrightarrow> open_from a st \<Longrightarrow>
    \<exists>st'. big_loop l hosts useAll (int N) (int n) [a..<length (bg_index st)] st = Some (Inr st') \<and>
      big_inv (length l) useAll N st' \<and> length (bg_index st') = n"
proof (induction "n - length (bg_index st)" arbitrary: st a rule: less_induct)
  case less
  let ?m = "length (bg_index st)"
  let ?level = "[a..<length (bg_index st)]"
  show ?case
  proof (cases "?m < n")
    case False
    then show ?thesis using less.prems by (subst big_loop.simps) simp
  next
    case True
    have kids: "length (bg_kids st) = ?m" using less.prems(1) by (simp add: big_inv_def)
    have w: "length ?level = ?m - a" "a + (?m - a - 0) = ?m" using less.prems(3) by simp_all
    then have lev: "?level = [a..<a + (length ?level - 0)]" "a + (length ?level - 0) \<le> ?m" by simp_all
    from big_level_steps [OF keys hosts N all less.prems(1,2) lev(1) _ lev(2) less.prems(4)] obtain st1 where
      st1: "big_level l hosts useAll (int N) (int n) (length ?level) 0 ?level st = Inr st1" "big_inv (length l) useAll N st1"
        "?m \<le> length (bg_index st1)" "length (bg_index st1) \<le> n" "open_from (a + (length ?level - 0)) st1"
        "0 < length ?level \<and> ?m < n \<longrightarrow> ?m < length (bg_index st1)" by blast
    have lt: "?m < length (bg_index st1)" using st1(6) True less.prems(3) by simp
    have op: "open_from ?m st1" using st1(5) w by simp
    have "n - length (bg_index st1) < n - ?m" using lt True by simp
    from less.hyps [OF this st1(2,4) lt op] obtain st' where
      "big_loop l hosts useAll (int N) (int n) [?m..<length (bg_index st1)] st1 = Some (Inr st')"
      "big_inv (length l) useAll N st'" "length (bg_index st') = n" by blast
    moreover have "\<not> int (length ?level) * int N < 0" by (simp add: not_less)
    ultimately show ?thesis using True st1(1) by (subst big_loop.simps) simp
  qed
qed

section \<open>The tree\<close>

lemma arity_store:
  "(\<And>j. tn_Children (node j) = []) \<Longrightarrow> store_ok kids \<Longrightarrow> \<forall>row \<in> set kids. length row \<le> N \<Longrightarrow> j < length kids \<Longrightarrow>
    x \<in> set (preorder (store_tree node kids d j)) \<Longrightarrow> length (tn_Children x) \<le> N"
proof (induction d arbitrary: j x)
  case 0
  have "preorder (node j) = [node j]" using 0(1) [of j] by (cases "node j") simp
  then show ?case using 0 by simp
next
  case (Suc d)
  have row: "length (kids ! j) \<le> N" using Suc.prems(3,4) by simp
  consider "x = store_tree node kids (Suc d) j" | i where "i \<in> set (kids ! j)" "x \<in> set (preorder (store_tree node kids d i))"
    using Suc.prems(5) by auto
  then show ?case
  proof cases
    case 1
    then show ?thesis using row by simp
  next
    case 2
    have "i < length kids" using store_okD [OF Suc.prems(2,4) 2(1)] by blast
    then show ?thesis using Suc.IH [OF Suc.prems(1,2,3) _ 2(2)] by blast
  qed
qed

lemma big_generated:
  assumes N: "1 \<le> N" and n: "1 \<le> n" and keys: "None \<notin> set (Publics ro)" and ne: "ro_List ro \<noteq> []"
  shows "\<exists>i root'. GenerateBigNaryTree c host ro (int N) (int n) = Inr \<lparr>ot_ID = i, ot_Roster = Some ro, ot_Root = root'\<rparr> \<and>
    length (preorder root') = n \<and> nodes_of ro root' \<and> (\<forall>x \<in> set (preorder root'). length (tn_Children x) \<le> N) \<and>
    (n = length (ro_List ro) \<longrightarrow> mset (map tn_Server (preorder root')) = mset (ro_List ro))"
proof -
  let ?l = "ro_List ro" and ?cnt = "length (ro_List ro)" and ?hosts = "map (\<lambda>s. host (si_Address s)) (ro_List ro)"
  let ?useAll = "int (length (ro_List ro)) = int n"
  let ?st0 = "\<lparr>bg_index = [0], bg_kids = [[]], bg_used = (replicate ?cnt False)[0 := True], bg_next = 1 mod ?cnt\<rparr>"
  have key: "\<forall>s \<in> set ?l. si_Public s \<noteq> None" using keys unfolding Publics_def by (metis image_eqI list.set_map)
  have cnt: "0 < ?cnt" using ne by simp
  obtain p where p: "si_Public (?l ! 0) = Some p" using key cnt by (metis not_None_eq nth_mem)
  have inv0: "big_inv ?cnt ?useAll N ?st0"
    using cnt mod_less_divisor [OF cnt, of 1] by (simp add: big_inv_def store_ok_def nth_list_update)
  have op: "open_from 0 ?st0" by (simp add: open_from_def)
  have hosts: "length ?hosts = ?cnt" by simp
  have all: "?useAll \<Longrightarrow> n = ?cnt" by simp
  obtain st where st: "big_loop ?l ?hosts ?useAll (int N) (int n) [0] ?st0 = Some (Inr st)" "big_inv ?cnt ?useAll N st"
      "length (bg_index st) = n"
    using big_loop_builds [OF key hosts N all inv0 _ _ op] n by auto
  define node where "node j = (let k = bg_index st ! j in fresh_node c (?l ! k) k)" for j
  let ?t = "store_tree node (bg_kids st) n 0"
  have ok: "store_ok (bg_kids st)" and kids: "length (bg_kids st) = n" using st by (simp_all add: big_inv_def)
  have leaf: "tn_Children (node j) = []" for j
    by (auto simp: node_def fresh_node_def NewTreeNode_def nonnil_def Let_def split: option.splits)
  have ids: "mset (store_ids (bg_kids st) n 0) = mset [0..<n]" using store_ids_all [OF ok] kids by simp
  then have idset: "set (store_ids (bg_kids st) n 0) = {0..<n}" by (metis mset_eq_setD set_upt)
  have labels: "map label (preorder ?t) = map (\<lambda>i. label (node i)) (store_ids (bg_kids st) n 0)"
    by (rule store_tree_labels [OF leaf])
  have srv: "label (node i) = (key_uuid c (?l ! (bg_index st ! i)), ?l ! (bg_index st ! i), int (bg_index st ! i)) \<and> bg_index st ! i < ?cnt"
    if "i < n" for i
  proof -
    have "bg_index st ! i < ?cnt" using st(2,3) that by (simp add: big_inv_def)
    then show ?thesis using key by (simp add: node_def Let_def fresh_node_key label_def)
  qed
  have lab: "\<exists>k < ?cnt. tn_Index x = int k \<and> tn_Server x = ?l ! k" if "x \<in> set (preorder ?t)" for x
  proof -
    have "label x \<in> set (map label (preorder ?t))" using that by simp
    then obtain i where "i < n" "label x = label (node i)" unfolding labels using idset by auto
    then show ?thesis using srv [of i] by (auto simp: label_def)
  qed
  then have keyed: "keyed_tree ?t" unfolding keyed_tree_def using key by (metis nth_mem)
  have nodes: "nodes_of ro ?t" unfolding nodes_of_def using lab by fastforce
  have len: "length (preorder ?t) = n"
    using arg_cong [OF labels, of length] arg_cong [OF ids, of size] by simp
  have arity: "\<forall>x \<in> set (preorder ?t). length (tn_Children x) \<le> N"
  proof -
    have rows: "\<forall>row \<in> set (bg_kids st). length row \<le> N" using st(2) by (simp add: big_inv_def)
    have "0 < length (bg_kids st)" using kids n by simp
    from arity_store [of node, OF leaf ok rows this] show ?thesis by blast
  qed
  have every: "mset (map tn_Server (preorder ?t)) = mset ?l" if eq: "n = ?cnt"
  proof -
    have "map tn_Server (preorder ?t) = map (\<lambda>x. fst (snd x)) (map label (preorder ?t))" by (simp add: label_def comp_def)
    also have "\<dots> = map (\<lambda>i. fst (snd (label (node i)))) (store_ids (bg_kids st) n 0)" unfolding labels by simp
    also have "\<dots> = map (\<lambda>i. ?l ! (bg_index st ! i)) (store_ids (bg_kids st) n 0)"
      using srv idset by simp
    finally have "mset (map tn_Server (preorder ?t)) = image_mset (\<lambda>i. ?l ! (bg_index st ! i)) (mset (store_ids (bg_kids st) n 0))"
      by (simp only: mset_map)
    also have "\<dots> = mset (map (\<lambda>k. ?l ! k) (map (\<lambda>i. bg_index st ! i) [0..<n]))"
      unfolding ids by (simp only: mset_map [symmetric] map_map comp_def)
    also have "map (\<lambda>i. bg_index st ! i) [0..<n] = bg_index st" using map_nth [of "bg_index st"] st(3) by simp
    also have "mset (bg_index st) = mset [0..<?cnt]"
    proof -
      have d: "distinct (bg_index st)" "set (bg_index st) \<subseteq> {0..<?cnt}" using st(2) eq by (auto simp: big_inv_def)
      then have "card (set (bg_index st)) = ?cnt" using st(3) eq by (simp add: distinct_card)
      then have "set (bg_index st) = {0..<?cnt}" using d(2) by (intro card_subset_eq) auto
      then show ?thesis using d(1) by (simp add: set_eq_iff_mset_eq_distinct [symmetric] del: mset_upt)
    qed
    then have "mset (map (\<lambda>k. ?l ! k) (bg_index st)) = mset (map (\<lambda>k. ?l ! k) [0..<?cnt])" by (simp only: mset_map)
    finally show ?thesis by (simp only: map_nth)
  qed
  obtain i where "NewTree c (Some ro) ?t = Inr \<lparr>ot_ID = i, ot_Roster = Some ro, ot_Root = ?t\<rparr>"
    using NewTree_ok [OF keyed] by blast
  then have "GenerateBigNaryTree c host ro (int N) (int n) = Inr \<lparr>ot_ID = i, ot_Roster = Some ro, ot_Root = ?t\<rparr>"
    using cnt p st by (simp add: GenerateBigNaryTree_def nonnil_def node_def [abs_def])
  with len nodes arity every show ?thesis by blast
qed


text \<open>With \<open>N = 0\<close> no level adds a node, and the loop over the levels does not end.\<close>

lemma big_loop_stuck:
  "big_loop l hosts useAll N n level st = Some r \<Longrightarrow> \<not> (level = [] \<and> int (length (bg_index st)) < n)"
  by (erule big_loop.raw_induct [where P = "\<lambda>l hosts useAll N n level st r. \<not> (level = [] \<and> int (length (bg_index st)) < n)", rotated])
    (fastforce split: if_splits)

lemma big_loop_zero:
  assumes "int (length (bg_index st)) < n"
  shows "big_loop l hosts useAll 0 n [p] st = None"
proof -
  have "big_loop l hosts useAll 0 n [] st = None" using big_loop_stuck [of l hosts useAll 0 n "[]" st] assms by fastforce
  moreover have "0 \<le> go_quot ((n - int (length (bg_index st))) * (int 0 + 1)) (int 1)"
    using level_share(1) [of "n - int (length (bg_index st))" 0 1] assms by simp
  ultimately show ?thesis using assms by (subst big_loop.simps) (simp add: Let_def)
qed

text \<open>
  C38: \<open>GenerateBigNaryTree\<close> ends, whatever the hosts of the servers are, with a tree of exactly the number
  of nodes asked for, over the roster, with at most N children at a node; when as many nodes as servers
  are asked for, every server has exactly one node. Neither the search for a server on another host nor
  the loop over the levels runs for ever. With N = 0 and more than one node asked for, the loop over the
  levels does.
\<close>

theorem big_tree_complete:
  assumes "1 \<le> N" and "1 \<le> n" and "None \<notin> set (Publics ro)" and "ro_List ro \<noteq> []"
  shows "(\<exists>t :: 'p OTree. GenerateBigNaryTree c host ro (int N) (int n) = Inr t \<and> ot_Roster t = Some ro \<and>
      ot_Size t = int n \<and> nodes_of ro (ot_Root t) \<and> (\<forall>x \<in> set (ot_List t). length (tn_Children x) \<le> N) \<and>
      (n = length (ro_List ro) \<longrightarrow> mset (map tn_Server (ot_List t)) = mset (ro_List ro))) \<and>
    (1 < n \<longrightarrow> GenerateBigNaryTree c host ro 0 (int n) = Inl Loops)"
proof
  obtain i rt where "GenerateBigNaryTree c host ro (int N) (int n) = Inr \<lparr>ot_ID = i, ot_Roster = Some ro, ot_Root = rt\<rparr>"
    "length (preorder rt) = n" "nodes_of ro rt" "\<forall>x \<in> set (preorder rt). length (tn_Children x) \<le> N"
    "n = length (ro_List ro) \<longrightarrow> mset (map tn_Server (preorder rt)) = mset (ro_List ro)"
    using big_generated [OF assms, of c host] by blast
  then show "\<exists>t :: 'p OTree. GenerateBigNaryTree c host ro (int N) (int n) = Inr t \<and> ot_Roster t = Some ro \<and>
      ot_Size t = int n \<and> nodes_of ro (ot_Root t) \<and> (\<forall>x \<in> set (ot_List t). length (tn_Children x) \<le> N) \<and>
      (n = length (ro_List ro) \<longrightarrow> mset (map tn_Server (ot_List t)) = mset (ro_List ro))"
    by (intro exI [of _ "\<lparr>ot_ID = i, ot_Roster = Some ro, ot_Root = rt\<rparr>"])
      (simp add: ot_List_preorder ot_Size_def foldl_count length_Visit)
  have "\<exists>p. si_Public (ro_List ro ! 0) = Some p"
    using assms(3,4) unfolding Publics_def by (metis image_eqI length_greater_0_conv list.set_map not_None_eq nth_mem)
  then show "1 < n \<longrightarrow> GenerateBigNaryTree c host ro 0 (int n) = Inl Loops"
    using assms(4) by (auto simp: GenerateBigNaryTree_def nonnil_def big_loop_zero)
qed

lemma big_tree_complete_witness:
  "\<exists>t :: nat OTree. GenerateBigNaryTree sample_crypto (\<lambda>a. a) (sample_roster [1, 2, 3]) 2 5 = Inr t \<and> ot_Size t = 5"
  using big_tree_complete [of 2 5 "sample_roster [1, 2, 3]" sample_crypto "\<lambda>a. a"]
  by (simp add: sample_roster_def sample_server_def Publics_def) blast

end
