(* ===== verification/OnetNode.thy ===== *)
theory OnetNode
  imports OnetTree Transition
begin

text \<open>
  A protocol instance on a node of a tree (\<open>onet/treenode.go\<close>, with the messages of
  \<open>onet/messages.go\<close>): the registration of channels and handlers, the queue of incoming messages and
  the goroutine that reads it, the aggregation of the children's messages, the check of a message's
  sender, and sending.
\<close>

section \<open>Tokens and messages\<close>

record Token =
  tok_Roster :: uuid
  tok_Tree :: uuid
  tok_Proto :: uuid
  tok_Service :: uuid
  tok_Round :: uuid
  tok_Node :: uuid

definition Token_ID :: "'p crypto \<Rightarrow> Token \<Rightarrow> uuid" where
  "Token_ID c t = UuidURL c (NamespaceURL @ ''token/'' @ UuidString c (tok_Roster t) @ UuidString c (tok_Round t) @
     UuidString c (tok_Service t) @ UuidString c (tok_Proto t) @ UuidString c (tok_Tree t) @ UuidString c (tok_Node t))"

definition ChangeTreeNodeID :: "uuid \<Rightarrow> Token \<Rightarrow> Token" where
  "ChangeTreeNodeID i t = t\<lparr>tok_Node := i\<rparr>"

type_synonym GenericConfig = bytes

text \<open>The pointers to tokens and identities can be nil.\<close>

record ('p, 'm) ProtocolMsg =
  pm_From :: "Token option"
  pm_To :: "Token option"
  pm_Server :: "'p ServerIdentity option"
  pm_MsgType :: uuid
  pm_Msg :: 'm
  pm_Size :: u32
  pm_Config :: "GenericConfig option"

section \<open>The instance\<close>

text \<open>What a channel carries or a handler gets: the struct of sender and message, or a slice of them.\<close>

datatype ('p, 'm) arrival = ZeroValue | Arrival "'p onode" 'm

datatype ('p, 'm) delivery = Single "('p, 'm) arrival" | Batch "('p, 'm) arrival list"

record ('p, 'm) channel =
  ch_cap :: int
  ch_buf :: "('p, 'm) delivery list"

text \<open>
  \<open>n_wait\<close> is the buffered token of \<open>msgDispatchQueueWait\<close>, \<open>n_calls\<close> the calls of handlers so far,
  \<open>n_locked\<close> a mutex that was never unlocked.
\<close>

record ('p, 'm) TreeNodeInstance =
  n_token :: Token
  n_treeNode :: "'p onode"
  n_parent :: "'p onode option"
  n_channels :: "uuid \<rightharpoonup> ('p, 'm) channel"
  n_handlers :: "uuid \<Rightarrow> bool"
  n_flags :: "uuid \<Rightarrow> bool"
  n_msgQueue :: "uuid \<rightharpoonup> ('p, 'm) ProtocolMsg list"
  n_dispatchQueue :: "('p, 'm) ProtocolMsg list"
  n_wait :: bool
  n_waitClosed :: bool
  n_closing :: bool
  n_locked :: bool
  n_bound :: bool
  n_config :: "GenericConfig option"
  n_sentTo :: "uuid \<Rightarrow> bool"
  n_tx :: u64
  n_rx :: u64
  n_calls :: "(uuid \<times> ('p, 'm) delivery) list"

definition newTreeNodeInstance :: "Token \<Rightarrow> 'p onode \<Rightarrow> 'p onode option \<Rightarrow> ('p, 'm) TreeNodeInstance" where
  "newTreeNodeInstance tok tn parent =
    \<lparr>n_token = tok, n_treeNode = tn, n_parent = parent, n_channels = Map.empty, n_handlers = (\<lambda>_. False), n_flags = (\<lambda>_. False),
     n_msgQueue = Map.empty, n_dispatchQueue = [], n_wait = False, n_waitClosed = False, n_closing = False, n_locked = False,
     n_bound = False, n_config = None, n_sentTo = (\<lambda>_. False), n_tx = 0, n_rx = 0, n_calls = []\<rparr>"

definition tni_IsRoot :: "('p, 'm) TreeNodeInstance \<Rightarrow> bool" where
  "tni_IsRoot n \<longleftrightarrow> n_parent n = None"

definition tni_Children :: "('p, 'm) TreeNodeInstance \<Rightarrow> 'p onode list" where
  "tni_Children n = tn_Children (n_treeNode n)"

definition tni_IsLeaf :: "('p, 'm) TreeNodeInstance \<Rightarrow> bool" where
  "tni_IsLeaf n \<longleftrightarrow> tni_Children n = []"

text \<open>\<open>Tree()\<close> panics when the store no longer has the tree.\<close>

definition tni_Tree :: "'p OTree option \<Rightarrow> fault + 'p OTree" where
  "tni_Tree stored = (case stored of None \<Rightarrow> Inl (PanicMsg ''tree should never be nil'') | Some t \<Rightarrow> Inr t)"

section \<open>Registration\<close>

text \<open>The Go types that \<open>reflect\<close> tells apart here; \<open>mtid\<close> is the id of a message type.\<close>

datatype gtype = GPtr gtype | GChan gtype | GSlice gtype | GStruct "gtype list" | GFunc "gtype list" "gtype list"
  | GError | GTreeNodePtr | GNamed string

text \<open>The element that \<open>Elem\<close> gives, which panics on other kinds.\<close>

fun g_elem :: "gtype \<Rightarrow> fault + gtype" where
  "g_elem (GPtr t) = Inr t"
| "g_elem (GChan t) = Inr t"
| "g_elem (GSlice t) = Inr t"
| "g_elem GTreeNodePtr = Inr (GNamed ''TreeNode'')"
| "g_elem _ = Inl (PanicMsg ''reflect: Elem of invalid type'')"

fun nillable :: "gtype \<Rightarrow> bool" where
  "nillable (GPtr t) = True"
| "nillable (GChan t) = True"
| "nillable (GSlice t) = True"
| "nillable (GFunc a b) = True"
| "nillable GTreeNodePtr = True"
| "nillable GError = True"
| "nillable _ = False"

definition struct_checks :: "string \<Rightarrow> gtype \<Rightarrow> fault + gtype" where
  "struct_checks what t =
    (case t of
       GStruct fs \<Rightarrow>
         (case fs of
            [f, g] \<Rightarrow> if f \<noteq> GTreeNodePtr then Inl (ErrRet ''no TreeNode as element'') else Inr g
          | _ \<Rightarrow> Inl (ErrRet (what @ '' with 2 elements'')))
     | _ \<Rightarrow> Inl (ErrRet what))"

definition set_channel :: "(gtype \<Rightarrow> uuid) \<Rightarrow> gtype \<Rightarrow> bool \<Rightarrow> int \<Rightarrow> ('p, 'm) TreeNodeInstance \<Rightarrow> ('p, 'm) TreeNodeInstance" where
  "set_channel mtid m agg room n =
    (let typ = mtid m in n\<lparr>n_channels := (n_channels n)(typ \<mapsto> \<lparr>ch_cap = room, ch_buf = []\<rparr>), n_flags := (n_flags n)(typ := agg)\<rparr>)"

text \<open>A channel value: its type, whether it is nil, and its capacity.\<close>

definition RegisterChannelValue :: "(gtype \<Rightarrow> uuid) \<Rightarrow> gtype \<Rightarrow> bool \<Rightarrow> int \<Rightarrow> ('p, 'm) TreeNodeInstance \<Rightarrow> fault + ('p, 'm) TreeNodeInstance" where
  "RegisterChannelValue mtid t isNil room n =
    (if \<not> nillable t then Inl (PanicMsg ''reflect: call of reflect.Value.IsNil'')
     else if isNil then Inl (ErrRet ''Can not Register a (value) channel not initialized'')
     else case t of
       GChan e \<Rightarrow>
         (case e of
            GSlice e' \<Rightarrow> bindR (struct_checks ''Input is not channel of structure'' e') (\<lambda>m. Inr (set_channel mtid m True room n))
          | _ \<Rightarrow> bindR (struct_checks ''Input is not channel of structure'' e) (\<lambda>m. Inr (set_channel mtid m False room n)))
     | _ \<Rightarrow> Inl (ErrRet ''Input is not channel''))"

text \<open>A pointer to a channel is given a fresh channel of the length; only channels can be made.\<close>

definition RegisterChannelLength :: "(gtype \<Rightarrow> uuid) \<Rightarrow> gtype \<Rightarrow> bool \<Rightarrow> int \<Rightarrow> int \<Rightarrow> ('p, 'm) TreeNodeInstance \<Rightarrow> fault + ('p, 'm) TreeNodeInstance" where
  "RegisterChannelLength mtid t isNil cap room n =
    (case t of
       GPtr p \<Rightarrow> if isNil then Inl NilPanic
         else (case p of
           GChan e \<Rightarrow> if room < 0 then Inl (PanicMsg ''reflect.MakeChan: negative buffer size'')
                      else RegisterChannelValue mtid (GChan e) False room n
         | _ \<Rightarrow> Inl (PanicMsg ''reflect.MakeChan of non-chan type''))
     | _ \<Rightarrow> RegisterChannelValue mtid t isNil cap n)"

definition DefaultChannelLength :: int where
  "DefaultChannelLength = 100"

definition RegisterChannel :: "(gtype \<Rightarrow> uuid) \<Rightarrow> gtype \<Rightarrow> bool \<Rightarrow> int \<Rightarrow> ('p, 'm) TreeNodeInstance \<Rightarrow> fault + ('p, 'm) TreeNodeInstance" where
  "RegisterChannel mtid t isNil cap n = RegisterChannelLength mtid t isNil cap DefaultChannelLength n"

fun RegisterChannelsLength :: "(gtype \<Rightarrow> uuid) \<Rightarrow> int \<Rightarrow> (gtype \<times> bool \<times> int) list \<Rightarrow> ('p, 'm) TreeNodeInstance \<Rightarrow> fault + ('p, 'm) TreeNodeInstance" where
  "RegisterChannelsLength mtid room [] n = Inr n"
| "RegisterChannelsLength mtid room ((t, isNil, cap) # cs) n =
     bindR (RegisterChannelLength mtid t isNil cap room n) (\<lambda>n'. RegisterChannelsLength mtid room cs n')"

definition RegisterChannels :: "(gtype \<Rightarrow> uuid) \<Rightarrow> (gtype \<times> bool \<times> int) list \<Rightarrow> ('p, 'm) TreeNodeInstance \<Rightarrow> fault + ('p, 'm) TreeNodeInstance" where
  "RegisterChannels mtid cs n = RegisterChannelsLength mtid DefaultChannelLength cs n"

text \<open>A function without arguments panics in \<open>In(0)\<close>.\<close>

definition RegisterHandler :: "(gtype \<Rightarrow> uuid) \<Rightarrow> gtype \<Rightarrow> ('p, 'm) TreeNodeInstance \<Rightarrow> fault + ('p, 'm) TreeNodeInstance" where
  "RegisterHandler mtid t n =
    (case t of
       GFunc ins outs \<Rightarrow>
         if length outs \<noteq> 1 then Inl (ErrRet ''Need exactly one return argument of type error'')
         else if hd outs \<noteq> GError then Inl (ErrRet ''return-type of message-handler needs to be error'')
         else (case ins of
             [] \<Rightarrow> Inl IndexPanic
           | ci # _ \<Rightarrow>
               let agg = (case ci of GSlice e \<Rightarrow> True | _ \<Rightarrow> False);
                   e = (case ci of GSlice e \<Rightarrow> e | _ \<Rightarrow> ci)
               in bindR (struct_checks ''Input is not a structure'' e) (\<lambda>m.
                  Inr (n\<lparr>n_handlers := (n_handlers n)(mtid m := True), n_flags := (n_flags n)(mtid m := agg)\<rparr>)))
     | _ \<Rightarrow> Inl (ErrRet ''Input is not function''))"

fun RegisterHandlers :: "(gtype \<Rightarrow> uuid) \<Rightarrow> gtype list \<Rightarrow> ('p, 'm) TreeNodeInstance \<Rightarrow> fault + ('p, 'm) TreeNodeInstance" where
  "RegisterHandlers mtid [] n = Inr n"
| "RegisterHandlers mtid (t # ts) n = bindR (RegisterHandler mtid t n) (\<lambda>n'. RegisterHandlers mtid ts n')"

section \<open>Dispatching\<close>

text \<open>
  The sender's node is looked up in the tree. A sender that is not in the tree leaves the zero value
  of the struct, whose node is nil.
\<close>

definition createValueAndVerify :: "'p OTree option \<Rightarrow> ('p, 'm) ProtocolMsg \<Rightarrow> fault + ('p, 'm) arrival" where
  "createValueAndVerify stored msg =
     bindR (tni_Tree stored) (\<lambda>tr.
     bindR (nonnil (pm_From msg)) (\<lambda>from.
     case ot_Search tr (tok_Node from) of
       None \<Rightarrow> Inr ZeroValue
     | Some tn \<Rightarrow>
         (case pm_Server msg of
            Some si \<Rightarrow> if \<not> si_Equal (tn_Server tn) si then Inl (ErrRet ''ServerIdentity does not match'')
                       else Inr (Arrival tn (pm_Msg msg))
          | None \<Rightarrow> Inr (Arrival tn (pm_Msg msg)))))"

fun create_values :: "'p OTree option \<Rightarrow> ('p, 'm) ProtocolMsg list \<Rightarrow> fault + ('p, 'm) arrival list" where
  "create_values stored [] = Inr []"
| "create_values stored (m # ms) =
     bindR (createValueAndVerify stored m) (\<lambda>v. bindR (create_values stored ms) (\<lambda>vs. Inr (v # vs)))"

definition push_chan :: "uuid \<Rightarrow> ('p, 'm) channel \<Rightarrow> ('p, 'm) delivery \<Rightarrow> ('p, 'm) TreeNodeInstance \<Rightarrow> ('p, 'm) TreeNodeInstance" where
  "push_chan mt ch d n = n\<lparr>n_channels := (n_channels n)(mt \<mapsto> ch\<lparr>ch_buf := ch_buf ch @ [d]\<rparr>)\<rparr>"

text \<open>
  Results: an error returned, if any, and the instance after the call. A panic inside is recovered and
  no error is returned. None is a send that waits: for room in the channel, or for the mutex.
\<close>

fun send_singles :: "'p OTree option \<Rightarrow> uuid \<Rightarrow> ('p, 'm) ProtocolMsg list \<Rightarrow> ('p, 'm) TreeNodeInstance \<Rightarrow> string option \<times> ('p, 'm) TreeNodeInstance" where
  "send_singles stored mt [] n = (None, n)"
| "send_singles stored mt (m # ms) n =
    (case n_channels n mt of
       None \<Rightarrow> (None, n)
     | Some ch \<Rightarrow>
        (case createValueAndVerify stored m of
           Inl (ErrRet e) \<Rightarrow> (Some ''processing message'', n)
         | Inl _ \<Rightarrow> (None, n)
         | Inr v \<Rightarrow>
             if int (length (ch_buf ch)) < ch_cap ch then
               send_singles stored mt ms (if n_closing n then n else push_chan mt ch (Single v) n)
             else (Some ''channel too small for msg'', n)))"

definition dispatchChannel :: "'p OTree option \<Rightarrow> uuid \<Rightarrow> ('p, 'm) ProtocolMsg list \<Rightarrow> ('p, 'm) TreeNodeInstance \<Rightarrow> (string option \<times> ('p, 'm) TreeNodeInstance) option" where
  "dispatchChannel stored mt msgs n =
    (if n_flags n mt then
       (case n_channels n mt of
          None \<Rightarrow> Some (None, n)
        | Some ch \<Rightarrow>
           (case create_values stored msgs of
              Inl (ErrRet e) \<Rightarrow> Some (Some ''processing message'', n)
            | Inl _ \<Rightarrow> Some (None, n)
            | Inr vs \<Rightarrow> if int (length (ch_buf ch)) < ch_cap ch then Some (None, push_chan mt ch (Batch vs) n) else None))
     else if n_locked n then None
     else Some (send_singles stored mt msgs n))"

text \<open>
  \<open>herr\<close> is whether the protocol's handler returns an error. A panic here ends the goroutine, and with
  it the process.
\<close>

fun call_singles :: "(uuid \<Rightarrow> ('p, 'm) delivery \<Rightarrow> bool) \<Rightarrow> 'p OTree option \<Rightarrow> uuid \<Rightarrow> ('p, 'm) ProtocolMsg list \<Rightarrow> bool \<Rightarrow>
    ('p, 'm) TreeNodeInstance \<Rightarrow> fault + string option \<times> ('p, 'm) TreeNodeInstance" where
  "call_singles herr stored mt [] err n = Inr (if err then Some ''handler'' else None, n)"
| "call_singles herr stored mt (m # ms) err n =
    (case createValueAndVerify stored m of
       Inl (ErrRet e) \<Rightarrow> Inr (Some ''processing message'', n)
     | Inl f \<Rightarrow> Inl f
     | Inr v \<Rightarrow> call_singles herr stored mt ms (herr mt (Single v)) (n\<lparr>n_calls := n_calls n @ [(mt, Single v)]\<rparr>))"

definition dispatchHandler :: "(uuid \<Rightarrow> ('p, 'm) delivery \<Rightarrow> bool) \<Rightarrow> 'p OTree option \<Rightarrow> uuid \<Rightarrow> ('p, 'm) ProtocolMsg list \<Rightarrow>
    ('p, 'm) TreeNodeInstance \<Rightarrow> fault + string option \<times> ('p, 'm) TreeNodeInstance" where
  "dispatchHandler herr stored mt msgs n =
    (if n_flags n mt then
       (case create_values stored msgs of
          Inl (ErrRet e) \<Rightarrow> Inr (Some ''processing message'', n)
        | Inl f \<Rightarrow> Inl f
        | Inr vs \<Rightarrow> Inr (if herr mt (Batch vs) then Some ''handler'' else None, n\<lparr>n_calls := n_calls n @ [(mt, Batch vs)]\<rparr>))
     else call_singles herr stored mt msgs False n)"

text \<open>None is an aggregation that still waits.\<close>

definition aggregate :: "('p, 'm) ProtocolMsg \<Rightarrow> ('p, 'm) TreeNodeInstance \<Rightarrow> fault + ('p, 'm) ProtocolMsg list option \<times> ('p, 'm) TreeNodeInstance" where
  "aggregate msg n =
    (let mt = pm_MsgType msg in
     bindR (case n_parent n of None \<Rightarrow> Inr False | Some p \<Rightarrow> bindR (nonnil (pm_From msg)) (\<lambda>from. Inr (tok_Node from = tn_ID p)))
       (\<lambda>fromParent.
        if fromParent \<or> \<not> n_flags n mt then Inr (Some [msg], n)
        else
          let msgs = (case n_msgQueue n mt of None \<Rightarrow> [] | Some q \<Rightarrow> q) @ [msg] in
          if length msgs = length (tni_Children n) then Inr (Some msgs, n\<lparr>n_msgQueue := (n_msgQueue n)(mt := None)\<rparr>)
          else Inr (None, n\<lparr>n_msgQueue := (n_msgQueue n)(mt \<mapsto> msgs)\<rparr>)))"

definition dispatchMsgToProtocol :: "(uuid \<Rightarrow> ('p, 'm) delivery \<Rightarrow> bool) \<Rightarrow> 'p OTree option \<Rightarrow> ('p, 'm) ProtocolMsg \<Rightarrow>
    ('p, 'm) TreeNodeInstance \<Rightarrow> (fault + string option \<times> ('p, 'm) TreeNodeInstance) option" where
  "dispatchMsgToProtocol herr stored msg n0 =
    (let n = n0\<lparr>n_rx := n_rx n0 + ucast (pm_Size msg)\<rparr>; mt = pm_MsgType msg in
     case aggregate msg n of
       Inl f \<Rightarrow> Some (Inl f)
     | Inr (None, n') \<Rightarrow> Some (Inr (None, n'))
     | Inr (Some msgs, n') \<Rightarrow>
         if n_channels n' mt \<noteq> None then map_option Inr (dispatchChannel stored mt msgs n')
         else if n_handlers n' mt then Some (dispatchHandler herr stored mt msgs n')
         else Some (Inr (Some ''message-type not handled by the protocol'', n')))"

section \<open>The queue and its reader\<close>

definition notifyDispatch :: "('p, 'm) TreeNodeInstance \<Rightarrow> ('p, 'm) TreeNodeInstance" where
  "notifyDispatch n = n\<lparr>n_wait := True\<rparr>"

definition ProcessProtocolMsg :: "('p, 'm) ProtocolMsg \<Rightarrow> ('p, 'm) TreeNodeInstance \<Rightarrow> ('p, 'm) TreeNodeInstance" where
  "ProcessProtocolMsg msg n =
    (if n_closing n then n else notifyDispatch (n\<lparr>n_dispatchQueue := n_dispatchQueue n @ [msg]\<rparr>))"

text \<open>
  Closing the channel a second time panics before the mutex is unlocked; the deferred recover returns,
  and the mutex stays locked. \<open>serr\<close> is whether the protocol's \<open>Shutdown\<close> returns an error.
\<close>

definition closeDispatch :: "bool \<Rightarrow> ('p, 'm) TreeNodeInstance \<Rightarrow> string option \<times> ('p, 'm) TreeNodeInstance" where
  "closeDispatch serr n =
    (let n' = n\<lparr>n_closing := True\<rparr> in
     if n_waitClosed n then (None, n'\<lparr>n_locked := True\<rparr>)
     else (if \<not> n_bound n then Some ''Can't shutdown empty ProtocolInstance'' else if serr then Some ''shutdown'' else None,
           n'\<lparr>n_waitClosed := True\<rparr>))"

text \<open>Where the reader's goroutine is: before the lock, with a message in hand, in its select, or gone.\<close>

datatype ('p, 'm) reader = AtTop | InHand "('p, 'm) ProtocolMsg" | Waiting | Ended | Crashed fault

definition reader_top :: "('p, 'm) TreeNodeInstance \<Rightarrow> ('p, 'm) reader \<times> ('p, 'm) TreeNodeInstance" where
  "reader_top n =
    (if n_closing n then (Ended, n)
     else case n_dispatchQueue n of
       msg # rest \<Rightarrow> (InHand msg, n\<lparr>n_dispatchQueue := rest\<rparr>)
     | [] \<Rightarrow> (Waiting, n))"

section \<open>Sending\<close>

text \<open>
  What an instance hands to the overlay: the token of the receiver, the message, and the config that
  goes with the first message to a node. \<open>wire\<close> is the outcome: bytes sent and an error.
\<close>

record ('p, 'm) outgoing =
  og_token :: Token
  og_node :: "'p onode"
  og_msg :: 'm
  og_config :: "GenericConfig option"

definition SendTo :: "(('p, 'm) outgoing \<Rightarrow> u64 \<times> bool) \<Rightarrow> 'p onode option \<Rightarrow> 'm \<Rightarrow> ('p, 'm) TreeNodeInstance \<Rightarrow>
    string option \<times> ('p, 'm) outgoing list \<times> ('p, 'm) TreeNodeInstance" where
  "SendTo wire to msg n =
    (case to of
       None \<Rightarrow> (Some ''Sent to a nil TreeNode'', [], n)
     | Some tn \<Rightarrow>
         if n_closing n then (Some ''is closing'', [], n)
         else
           let c = (if n_sentTo n (tn_ID tn) then None else n_config n);
               out = \<lparr>og_token = ChangeTreeNodeID (tn_ID tn) (n_token n), og_node = tn, og_msg = msg, og_config = c\<rparr>;
               (sentLen, err) = wire out
           in (if err then Some ''sending'' else None, [out],
               n\<lparr>n_sentTo := (n_sentTo n)(tn_ID tn := True), n_tx := n_tx n + sentLen\<rparr>))"

definition SendToParent :: "(('p, 'm) outgoing \<Rightarrow> u64 \<times> bool) \<Rightarrow> 'm \<Rightarrow> ('p, 'm) TreeNodeInstance \<Rightarrow>
    string option \<times> ('p, 'm) outgoing list \<times> ('p, 'm) TreeNodeInstance" where
  "SendToParent wire msg n = (if tni_IsRoot n then (None, [], n) else SendTo wire (n_parent n) msg n)"

text \<open>The loop stops at the first error.\<close>

fun send_until :: "(('p, 'm) outgoing \<Rightarrow> u64 \<times> bool) \<Rightarrow> 'm \<Rightarrow> 'p onode list \<Rightarrow> ('p, 'm) TreeNodeInstance \<Rightarrow>
    string option \<times> ('p, 'm) outgoing list \<times> ('p, 'm) TreeNodeInstance" where
  "send_until wire msg [] n = (None, [], n)"
| "send_until wire msg (t # ts) n =
    (case SendTo wire (Some t) msg n of
       (Some e, outs, n') \<Rightarrow> (Some ''sending'', outs, n')
     | (None, outs, n') \<Rightarrow> (case send_until wire msg ts n' of (e, outs', n'') \<Rightarrow> (e, outs @ outs', n'')))"

definition SendToChildren :: "(('p, 'm) outgoing \<Rightarrow> u64 \<times> bool) \<Rightarrow> 'm \<Rightarrow> ('p, 'm) TreeNodeInstance \<Rightarrow>
    string option \<times> ('p, 'm) outgoing list \<times> ('p, 'm) TreeNodeInstance" where
  "SendToChildren wire msg n = (if tni_IsLeaf n then (None, [], n) else send_until wire msg (tni_Children n) n)"

text \<open>All of them, with the errors collected.\<close>

fun Multicast :: "(('p, 'm) outgoing \<Rightarrow> u64 \<times> bool) \<Rightarrow> 'm \<Rightarrow> 'p onode list \<Rightarrow> ('p, 'm) TreeNodeInstance \<Rightarrow>
    string list \<times> ('p, 'm) outgoing list \<times> ('p, 'm) TreeNodeInstance" where
  "Multicast wire msg [] n = ([], [], n)"
| "Multicast wire msg (t # ts) n =
    (case SendTo wire (Some t) msg n of
       (e, outs, n') \<Rightarrow>
         (case Multicast wire msg ts n' of
            (es, outs', n'') \<Rightarrow> ((case e of None \<Rightarrow> [] | Some x \<Rightarrow> [''sending'']) @ es, outs @ outs', n'')))"

definition Broadcast :: "(('p, 'm) outgoing \<Rightarrow> u64 \<times> bool) \<Rightarrow> 'm \<Rightarrow> 'p OTree \<Rightarrow> ('p, 'm) TreeNodeInstance \<Rightarrow>
    string list \<times> ('p, 'm) outgoing list \<times> ('p, 'm) TreeNodeInstance" where
  "Broadcast wire msg tr n = Multicast wire msg (filter (\<lambda>t. \<not> node_Equal t (n_treeNode n)) (ot_List tr)) n"

text \<open>The goroutines of \<open>SendToChildrenInParallel\<close> run in any order; \<open>order\<close> is a permutation of the children.\<close>

definition SendToChildrenInParallel :: "(('p, 'm) outgoing \<Rightarrow> u64 \<times> bool) \<Rightarrow> 'p onode list \<Rightarrow> 'm \<Rightarrow> ('p, 'm) TreeNodeInstance \<Rightarrow>
    string list \<times> ('p, 'm) outgoing list \<times> ('p, 'm) TreeNodeInstance" where
  "SendToChildrenInParallel wire order msg n = (if tni_IsLeaf n then ([], [], n) else Multicast wire msg order n)"

definition SetConfig :: "GenericConfig \<Rightarrow> ('p, 'm) TreeNodeInstance \<Rightarrow> string option \<times> ('p, 'm) TreeNodeInstance" where
  "SetConfig c n = (if n_config n \<noteq> None then (Some ''Can't set config twice'', n) else (None, n\<lparr>n_config := Some c\<rparr>))"

end
