(* ===== verification/OnetNodeRun.thy ===== *)
theory OnetNodeRun
  imports OnetNode
begin

text \<open>
  An instance, its reader goroutine, and the others that hand it messages, close it, register channels
  and handlers, send, and receive from its channels: a step is what one of them does under the mutex or
  between two blocking points.
\<close>

section \<open>Steps\<close>

text \<open>\<open>ns_accepted\<close>, \<open>ns_dispatched\<close> and \<open>ns_received\<close> are what happened so far.\<close>

record ('p, 'm) node_sys =
  ns_node :: "('p, 'm) TreeNodeInstance"
  ns_reader :: "('p, 'm) reader"
  ns_accepted :: "('p, 'm) ProtocolMsg list"
  ns_dispatched :: "('p, 'm) ProtocolMsg list"
  ns_received :: "(uuid \<times> ('p, 'm) delivery) list"

definition node_start :: "Token \<Rightarrow> 'p onode \<Rightarrow> 'p onode option \<Rightarrow> ('p, 'm) node_sys" where
  "node_start tok tn parent = \<lparr>ns_node = newTreeNodeInstance tok tn parent, ns_reader = AtTop, ns_accepted = [], ns_dispatched = [], ns_received = []\<rparr>"

definition accept_msg :: "('p, 'm) ProtocolMsg \<Rightarrow> ('p, 'm) node_sys \<Rightarrow> ('p, 'm) node_sys" where
  "accept_msg msg s = s\<lparr>ns_node := ProcessProtocolMsg msg (ns_node s),
     ns_accepted := (if n_closing (ns_node s) then ns_accepted s else ns_accepted s @ [msg])\<rparr>"

definition finish_msg :: "('p, 'm) ProtocolMsg \<Rightarrow> fault + string option \<times> ('p, 'm) TreeNodeInstance \<Rightarrow> ('p, 'm) node_sys \<Rightarrow> ('p, 'm) node_sys" where
  "finish_msg msg r s =
    (case r of
       Inl f \<Rightarrow> s\<lparr>ns_reader := Crashed f, ns_dispatched := ns_dispatched s @ [msg]\<rparr>
     | Inr (_, n) \<Rightarrow> s\<lparr>ns_node := n, ns_reader := AtTop, ns_dispatched := ns_dispatched s @ [msg]\<rparr>)"

inductive node_step :: "'p OTree \<Rightarrow> ('p, 'm) node_sys \<Rightarrow> ('p, 'm) node_sys \<Rightarrow> bool" for tr :: "'p OTree" where
  accept: "\<not> n_locked (ns_node s) \<Longrightarrow> node_step tr s (accept_msg msg s)"
| take: "ns_reader s = AtTop \<Longrightarrow> \<not> n_locked (ns_node s) \<Longrightarrow> reader_top (ns_node s) = (r, n) \<Longrightarrow>
    node_step tr s (s\<lparr>ns_reader := r, ns_node := n\<rparr>)"
| wake: "ns_reader s = Waiting \<Longrightarrow> n_wait (ns_node s) \<or> n_waitClosed (ns_node s) \<Longrightarrow>
    node_step tr s (s\<lparr>ns_reader := AtTop, ns_node := (ns_node s)\<lparr>n_wait := False\<rparr>\<rparr>)"
| run: "ns_reader s = InHand msg \<Longrightarrow> stored = Some tr \<or> stored = None \<Longrightarrow>
    dispatchMsgToProtocol herr stored msg (ns_node s) = Some r \<Longrightarrow> node_step tr s (finish_msg msg r s)"
| receive: "n_channels (ns_node s) mt = Some ch \<Longrightarrow> ch_buf ch = d # ds \<Longrightarrow>
    node_step tr s (s\<lparr>ns_node := (ns_node s)\<lparr>n_channels := (n_channels (ns_node s))(mt \<mapsto> ch\<lparr>ch_buf := ds\<rparr>)\<rparr>, ns_received := ns_received s @ [(mt, d)]\<rparr>)"
| shut: "\<not> n_locked (ns_node s) \<Longrightarrow> node_step tr s (s\<lparr>ns_node := snd (closeDispatch serr (ns_node s))\<rparr>)"
| channel: "RegisterChannelLength mtid t isNil cap k (ns_node s) = Inr n \<Longrightarrow> node_step tr s (s\<lparr>ns_node := n\<rparr>)"
| handler: "RegisterHandler mtid t (ns_node s) = Inr n \<Longrightarrow> node_step tr s (s\<lparr>ns_node := n\<rparr>)"
| bound: "node_step tr s (s\<lparr>ns_node := (ns_node s)\<lparr>n_bound := True\<rparr>\<rparr>)"
| configure: "node_step tr s (s\<lparr>ns_node := snd (SetConfig c (ns_node s))\<rparr>)"
| send: "\<not> n_locked (ns_node s) \<Longrightarrow> SendTo wire to payload (ns_node s) = (e, outs, n) \<Longrightarrow> node_step tr s (s\<lparr>ns_node := n\<rparr>)"

inductive_cases node_stepE: "node_step tr s s'"

section \<open>Frames\<close>

text \<open>What a dispatch leaves alone: the queue and what the reader waits on.\<close>

definition queue_of :: "('p, 'm) TreeNodeInstance \<Rightarrow> ('p, 'm) ProtocolMsg list \<times> bool \<times> bool \<times> bool" where
  "queue_of n = (n_dispatchQueue n, n_wait n, n_waitClosed n, n_closing n)"

lemma queue_of_simps [simp]:
  "queue_of (n_channels_update f n) = queue_of n" "queue_of (n_calls_update g n) = queue_of n"
  "queue_of (n_msgQueue_update h n) = queue_of n" "queue_of (n_rx_update k n) = queue_of n"
  "queue_of (n_handlers_update k1 n) = queue_of n" "queue_of (n_flags_update k2 n) = queue_of n"
  "queue_of (n_bound_update k3 n) = queue_of n" "queue_of (n_config_update k4 n) = queue_of n"
  "queue_of (n_sentTo_update k5 n) = queue_of n" "queue_of (n_tx_update k6 n) = queue_of n"
  by (simp_all add: queue_of_def)

lemma send_singles_queue: "send_singles stored mt ms n = (e, n') \<Longrightarrow> queue_of n' = queue_of n"
  by (induction stored mt ms n rule: send_singles.induct)
    (auto simp: push_chan_def split: option.splits sum.splits fault.splits if_splits)

lemma call_singles_queue: "call_singles herr stored mt ms err n = Inr (e, n') \<Longrightarrow> queue_of n' = queue_of n"
  by (induction herr stored mt ms err n rule: call_singles.induct) (auto split: sum.splits fault.splits)

lemma dispatchChannel_queue: "dispatchChannel stored mt ms n = Some (e, n') \<Longrightarrow> queue_of n' = queue_of n"
  by (auto simp: dispatchChannel_def push_chan_def dest: send_singles_queue split: option.splits sum.splits fault.splits if_splits)

lemma dispatchHandler_queue: "dispatchHandler herr stored mt ms n = Inr (e, n') \<Longrightarrow> queue_of n' = queue_of n"
  by (auto simp: dispatchHandler_def dest: call_singles_queue split: sum.splits fault.splits if_splits)

lemma aggregate_queue: "aggregate msg n = Inr (r, n') \<Longrightarrow> queue_of n' = queue_of n"
  by (auto simp: aggregate_def Let_def bindR_Inr_iff split: if_splits)

lemma dispatch_queue:
  assumes "dispatchMsgToProtocol herr stored msg n = Some (Inr (e, n'))"
  shows "queue_of n' = queue_of n"
proof -
  obtain r n1 where agg: "aggregate msg (n\<lparr>n_rx := n_rx n + ucast (pm_Size msg)\<rparr>) = Inr (r, n1)"
    using assms by (cases "aggregate msg (n\<lparr>n_rx := n_rx n + ucast (pm_Size msg)\<rparr>)") (auto simp: dispatchMsgToProtocol_def Let_def)
  then have n1: "queue_of n1 = queue_of n" using aggregate_queue by fastforce
  show ?thesis
  proof (cases r)
    case None
    then show ?thesis using assms agg n1 by (simp add: dispatchMsgToProtocol_def Let_def)
  next
    case (Some msgs)
    then show ?thesis using assms agg n1
      by (auto simp: dispatchMsgToProtocol_def Let_def dest: dispatchChannel_queue dispatchHandler_queue split: if_splits)
  qed
qed

lemma set_channel_queue: "queue_of (set_channel mtid m agg room n) = queue_of n"
  by (simp add: set_channel_def Let_def)

lemma RegisterChannelValue_queue: "RegisterChannelValue mtid t isNil room n = Inr n' \<Longrightarrow> queue_of n' = queue_of n"
  by (auto simp: RegisterChannelValue_def bindR_Inr_iff set_channel_queue split: gtype.splits if_splits)

lemma RegisterChannelLength_queue: "RegisterChannelLength mtid t isNil cap k n = Inr n' \<Longrightarrow> queue_of n' = queue_of n"
  by (auto simp: RegisterChannelLength_def dest: RegisterChannelValue_queue split: gtype.splits if_splits)

lemma RegisterHandler_queue: "RegisterHandler mtid t n = Inr n' \<Longrightarrow> queue_of n' = queue_of n"
  by (auto simp: RegisterHandler_def Let_def bindR_Inr_iff split: gtype.splits list.splits if_splits)

lemma SendTo_queue: "SendTo wire to payload n = (e, outs, n') \<Longrightarrow> queue_of n' = queue_of n"
  by (auto simp: SendTo_def Let_def split: option.splits prod.splits if_splits)

lemma SetConfig_queue: "queue_of (snd (SetConfig c n)) = queue_of n"
  by (simp add: SetConfig_def)

section \<open>The queue\<close>

fun in_hand :: "('p, 'm) reader \<Rightarrow> ('p, 'm) ProtocolMsg list" where
  "in_hand (InHand msg) = [msg]"
| "in_hand _ = []"

definition queue_inv :: "('p, 'm) node_sys \<Rightarrow> bool" where
  "queue_inv s \<longleftrightarrow> (case queue_of (ns_node s) of (q, wait, wclosed, closing) \<Rightarrow>
     ns_accepted s = ns_dispatched s @ in_hand (ns_reader s) @ q \<and>
     (ns_reader s = Waiting \<longrightarrow> q \<noteq> [] \<longrightarrow> wait \<or> wclosed) \<and> (closing \<longrightarrow> wclosed))"

lemma queue_inv_frame:
  "queue_inv s \<Longrightarrow> queue_of n = queue_of (ns_node s) \<Longrightarrow> queue_inv (s\<lparr>ns_node := n\<rparr>)"
  by (simp add: queue_inv_def)

lemma queue_inv_start: "queue_inv (node_start tok tn parent)"
  by (simp add: queue_inv_def node_start_def newTreeNodeInstance_def queue_of_def)

lemma node_step_queue: "node_step tr s s' \<Longrightarrow> queue_inv s \<Longrightarrow> queue_inv s'"
proof (induction rule: node_step.induct)
  case (run s msg stored herr r)
  show ?case
  proof (cases r)
    case (Inl f)
    then show ?thesis using run by (simp add: queue_inv_def finish_msg_def queue_of_def)
  next
    case (Inr en)
    obtain e n where en: "en = (e, n)" by fastforce
    then have "queue_of n = queue_of (ns_node s)" using dispatch_queue run(3) Inr by blast
    then show ?thesis using run Inr en by (simp add: queue_inv_def finish_msg_def queue_of_def)
  qed
next
  case (receive s mt ch d ds)
  then show ?case by (simp add: queue_inv_def queue_of_def)
next
  case (take s r n)
  then show ?case by (auto simp: reader_top_def queue_inv_def queue_of_def split: if_splits list.splits)
next
  case (channel mtid t isNil cap k s n)
  then show ?case using queue_inv_frame RegisterChannelLength_queue by metis
next
  case (handler mtid t s n)
  then show ?case using queue_inv_frame RegisterHandler_queue by metis
next
  case (send s wire to payload e outs n)
  then show ?case using queue_inv_frame SendTo_queue by metis
next
  case (configure s c)
  then show ?case using queue_inv_frame SetConfig_queue by metis
qed (auto simp: queue_inv_def queue_of_def accept_msg_def ProcessProtocolMsg_def notifyDispatch_def closeDispatch_def Let_def)

interpretation queue: invariant_system "\<lambda>s. \<exists>tok tn parent. s = node_start tok tn parent" "node_step tr" queue_inv for tr
  by unfold_locales (auto intro: queue_inv_start node_step_queue)

abbreviation node_reachable :: "'p OTree \<Rightarrow> ('p, 'm) node_sys \<Rightarrow> bool" where
  "node_reachable tr \<equiv> reachable (\<lambda>s. \<exists>tok tn parent. s = node_start tok tn parent) (node_step tr)"

text \<open>
  C11: an instance handles its messages one at a time, in the order in which they were accepted, none
  twice and none left out: what was accepted is what was dispatched, the message in the reader's hand
  and the queue. And the reader does not sleep over them: although \<open>notifyDispatch\<close> drops the token when
  one is already there, a waiting reader with messages in its queue, or whose instance is closing, can
  always be woken.
\<close>

theorem messages_in_order:
  assumes "node_reachable tr s"
  shows "ns_accepted s = ns_dispatched s @ in_hand (ns_reader s) @ n_dispatchQueue (ns_node s) \<and>
    (ns_reader s = Waiting \<and> (n_dispatchQueue (ns_node s) \<noteq> [] \<or> n_closing (ns_node s)) \<longrightarrow>
       node_step tr s (s\<lparr>ns_reader := AtTop, ns_node := (ns_node s)\<lparr>n_wait := False\<rparr>\<rparr>))"
proof -
  have "queue_inv s" by (rule queue.reachable_inv [OF assms])
  then show ?thesis by (auto simp: queue_inv_def queue_of_def intro!: node_step.wake)
qed

definition sample_msg :: "nat \<Rightarrow> (nat, nat) ProtocolMsg" where
  "sample_msg k = \<lparr>pm_From = Some \<lparr>tok_Roster = 7, tok_Tree = 9, tok_Proto = 1, tok_Service = 0, tok_Round = 1, tok_Node = 12\<rparr>,
     pm_To = None, pm_Server = Some (sample_server 2), pm_MsgType = 5, pm_Msg = k, pm_Size = 10, pm_Config = None\<rparr>"

definition sample_node :: "(nat, nat) node_sys" where
  "sample_node = node_start \<lparr>tok_Roster = 7, tok_Tree = 9, tok_Proto = 1, tok_Service = 0, tok_Round = 1, tok_Node = 11\<rparr> (ot_Root sample_tree) None"

lemma sample_node_reachable: "node_reachable sample_tree (accept_msg (sample_msg 1) (sample_node\<lparr>ns_reader := Waiting\<rparr>))"
proof (rule next_step [OF next_step [OF at_start]])
  show "\<exists>tok tn parent. sample_node = node_start tok tn parent" by (auto simp: sample_node_def)
  have "node_step sample_tree sample_node (sample_node\<lparr>ns_reader := Waiting, ns_node := ns_node sample_node\<rparr>)"
    by (rule node_step.take) (simp_all add: sample_node_def node_start_def newTreeNodeInstance_def reader_top_def)
  then show "node_step sample_tree sample_node (sample_node\<lparr>ns_reader := Waiting\<rparr>)" by simp
  show "node_step sample_tree (sample_node\<lparr>ns_reader := Waiting\<rparr>) (accept_msg (sample_msg 1) (sample_node\<lparr>ns_reader := Waiting\<rparr>))"
    by (rule node_step.accept) (simp add: sample_node_def node_start_def newTreeNodeInstance_def)
qed

lemma messages_in_order_witness:
  "node_step sample_tree (accept_msg (sample_msg 1) (sample_node\<lparr>ns_reader := Waiting\<rparr>))
     ((accept_msg (sample_msg 1) (sample_node\<lparr>ns_reader := Waiting\<rparr>))\<lparr>ns_reader := AtTop,
        ns_node := (ns_node (accept_msg (sample_msg 1) (sample_node\<lparr>ns_reader := Waiting\<rparr>)))\<lparr>n_wait := False\<rparr>\<rparr>)"
  using messages_in_order [OF sample_node_reachable]
  by (simp add: accept_msg_def ProcessProtocolMsg_def notifyDispatch_def sample_node_def node_start_def newTreeNodeInstance_def)

end
