(* ===== verification/OnetNodeAuth.thy ===== *)
theory OnetNodeAuth
  imports OnetNodeRun
begin

text \<open>
  Who sent what a protocol receives, and how the messages of a node's children are gathered.
\<close>

section \<open>What deliveries are made from\<close>

fun values_of :: "('p, 'm) delivery \<Rightarrow> ('p, 'm) arrival set" where
  "values_of (Single v) = {v}"
| "values_of (Batch vs) = set vs"

definition made_from :: "'p OTree option \<Rightarrow> ('p, 'm) ProtocolMsg set \<Rightarrow> ('p, 'm) delivery \<Rightarrow> bool" where
  "made_from stored msgs d \<longleftrightarrow> (\<forall>v \<in> values_of d. \<exists>m \<in> msgs. createValueAndVerify stored m = Inr v)"

definition deliveries :: "('p, 'm) TreeNodeInstance \<Rightarrow> ('p, 'm) delivery set" where
  "deliveries n = {d. (\<exists>mt ch. n_channels n mt = Some ch \<and> d \<in> set (ch_buf ch)) \<or> (\<exists>mt. (mt, d) \<in> set (n_calls n))}"

definition waiting_msgs :: "('p, 'm) TreeNodeInstance \<Rightarrow> ('p, 'm) ProtocolMsg set" where
  "waiting_msgs n = {m. \<exists>mt q. n_msgQueue n mt = Some q \<and> m \<in> set q}"

lemma deliveries_simps [simp]:
  "deliveries (n_msgQueue_update h n) = deliveries n" "deliveries (n_rx_update k n) = deliveries n"
  "deliveries (n_handlers_update k1 n) = deliveries n" "deliveries (n_flags_update k2 n) = deliveries n"
  "deliveries (n_bound_update k3 n) = deliveries n" "deliveries (n_config_update k4 n) = deliveries n"
  "deliveries (n_sentTo_update k5 n) = deliveries n" "deliveries (n_tx_update k6 n) = deliveries n"
  "deliveries (n_wait_update k7 n) = deliveries n" "deliveries (n_dispatchQueue_update k8 n) = deliveries n"
  "deliveries (n_closing_update k9 n) = deliveries n" "deliveries (n_locked_update l1 n) = deliveries n"
  "deliveries (n_waitClosed_update l2 n) = deliveries n"
  by (simp_all add: deliveries_def)

lemma waiting_simps [simp]:
  "waiting_msgs (n_channels_update h n) = waiting_msgs n" "waiting_msgs (n_rx_update k n) = waiting_msgs n"
  "waiting_msgs (n_handlers_update k1 n) = waiting_msgs n" "waiting_msgs (n_flags_update k2 n) = waiting_msgs n"
  "waiting_msgs (n_bound_update k3 n) = waiting_msgs n" "waiting_msgs (n_config_update k4 n) = waiting_msgs n"
  "waiting_msgs (n_sentTo_update k5 n) = waiting_msgs n" "waiting_msgs (n_tx_update k6 n) = waiting_msgs n"
  "waiting_msgs (n_wait_update k7 n) = waiting_msgs n" "waiting_msgs (n_dispatchQueue_update k8 n) = waiting_msgs n"
  "waiting_msgs (n_closing_update k9 n) = waiting_msgs n" "waiting_msgs (n_locked_update l1 n) = waiting_msgs n"
  "waiting_msgs (n_waitClosed_update l2 n) = waiting_msgs n" "waiting_msgs (n_calls_update l3 n) = waiting_msgs n"
  by (simp_all add: waiting_msgs_def)

lemma create_values_from: "create_values stored ms = Inr vs \<Longrightarrow> v \<in> set vs \<Longrightarrow> \<exists>m \<in> set ms. createValueAndVerify stored m = Inr v"
  by (induction stored ms arbitrary: vs rule: create_values.induct) (auto simp: bindR_Inr_iff)

lemma push_chan_deliveries: "n_channels n mt = Some ch \<Longrightarrow> x \<in> deliveries (push_chan mt ch d n) \<Longrightarrow> x \<in> deliveries n \<or> x = d"
  by (auto simp: push_chan_def deliveries_def split: if_splits)

lemma call_deliveries: "x \<in> deliveries (n\<lparr>n_calls := n_calls n @ [(mt, d)]\<rparr>) \<Longrightarrow> x \<in> deliveries n \<or> x = d"
  by (auto simp: deliveries_def)

lemma made_from_mono: "made_from stored A d \<Longrightarrow> A \<subseteq> B \<Longrightarrow> made_from stored B d"
  by (fastforce simp: made_from_def)

text \<open>A call that only adds deliveries made from the given messages, and leaves the gathered ones.\<close>

definition adds_from :: "'p OTree option \<Rightarrow> ('p, 'm) ProtocolMsg set \<Rightarrow> ('p, 'm) TreeNodeInstance \<Rightarrow> ('p, 'm) TreeNodeInstance \<Rightarrow> bool" where
  "adds_from stored msgs n n' \<longleftrightarrow> waiting_msgs n' = waiting_msgs n \<and> (\<forall>d \<in> deliveries n'. d \<in> deliveries n \<or> made_from stored msgs d)"

lemma adds_from_refl [simp]: "adds_from stored msgs n n"
  by (simp add: adds_from_def)

lemma adds_from_trans: "adds_from stored A n n1 \<Longrightarrow> adds_from stored B n1 n2 \<Longrightarrow> A \<subseteq> C \<Longrightarrow> B \<subseteq> C \<Longrightarrow> adds_from stored C n n2"
  unfolding adds_from_def using made_from_mono by metis

lemma adds_push: "n_channels n mt = Some ch \<Longrightarrow> made_from stored msgs d \<Longrightarrow> adds_from stored msgs n (push_chan mt ch d n)"
  unfolding adds_from_def using push_chan_deliveries by (fastforce simp: push_chan_def)

lemma adds_call: "made_from stored msgs d \<Longrightarrow> adds_from stored msgs n (n\<lparr>n_calls := n_calls n @ [(mt, d)]\<rparr>)"
  unfolding adds_from_def using call_deliveries by fastforce

lemma made_single: "createValueAndVerify stored m = Inr v \<Longrightarrow> made_from stored {m} (Single v)"
  by (simp add: made_from_def)

lemma made_batch: "create_values stored ms = Inr vs \<Longrightarrow> made_from stored (set ms) (Batch vs)"
  using create_values_from by (fastforce simp: made_from_def)

lemma send_singles_adds: "send_singles stored mt ms n = (e, n') \<Longrightarrow> adds_from stored (set ms) n n'"
proof (induction stored mt ms n rule: send_singles.induct)
  case (2 stored mt m ms n)
  show ?case
  proof (cases "\<exists>ch v. n_channels n mt = Some ch \<and> createValueAndVerify stored m = Inr v \<and> int (length (ch_buf ch)) < ch_cap ch")
    case False
    then have "n' = n" using 2(2) by (auto split: option.splits sum.splits fault.splits if_splits)
    then show ?thesis by simp
  next
    case True
    then obtain ch v where c: "n_channels n mt = Some ch" "createValueAndVerify stored m = Inr v" "int (length (ch_buf ch)) < ch_cap ch" by blast
    let ?n = "if n_closing n then n else push_chan mt ch (Single v) n"
    have "adds_from stored {m} n ?n" using adds_push [OF c(1) made_single [OF c(2)]] by simp
    moreover have "adds_from stored (set ms) ?n n'" using 2 c by simp
    ultimately show ?thesis by (rule adds_from_trans) auto
  qed
qed simp

lemma call_singles_adds: "call_singles herr stored mt ms err n = Inr (e, n') \<Longrightarrow> adds_from stored (set ms) n n'"
proof (induction herr stored mt ms err n rule: call_singles.induct)
  case (2 herr stored mt m ms err n)
  show ?case
  proof (cases "createValueAndVerify stored m")
    case (Inl f)
    then have "n' = n" using 2(2) by (auto split: fault.splits)
    then show ?thesis by simp
  next
    case (Inr v)
    have "adds_from stored {m} n (n\<lparr>n_calls := n_calls n @ [(mt, Single v)]\<rparr>)" by (rule adds_call [OF made_single [OF Inr]])
    moreover have "adds_from stored (set ms) (n\<lparr>n_calls := n_calls n @ [(mt, Single v)]\<rparr>) n'" using 2 Inr by simp
    ultimately show ?thesis by (rule adds_from_trans) auto
  qed
qed simp

lemma dispatchChannel_adds: "dispatchChannel stored mt ms n = Some (e, n') \<Longrightarrow> adds_from stored (set ms) n n'"
  by (auto simp: dispatchChannel_def dest: send_singles_adds intro: adds_push made_batch split: option.splits sum.splits fault.splits if_splits)

lemma dispatchHandler_adds: "dispatchHandler herr stored mt ms n = Inr (e, n') \<Longrightarrow> adds_from stored (set ms) n n'"
  by (auto simp: dispatchHandler_def dest: call_singles_adds intro: adds_call made_batch split: sum.splits fault.splits if_splits)

definition gathered :: "uuid \<Rightarrow> ('p, 'm) TreeNodeInstance \<Rightarrow> ('p, 'm) ProtocolMsg list" where
  "gathered mt n = (case n_msgQueue n mt of None \<Rightarrow> [] | Some q \<Rightarrow> q)"

lemma gathered_waiting: "m \<in> set (gathered mt n) \<Longrightarrow> m \<in> waiting_msgs n"
  unfolding gathered_def waiting_msgs_def by (cases "n_msgQueue n mt") auto

lemma waiting_delete: "waiting_msgs (n\<lparr>n_msgQueue := (n_msgQueue n)(mt := None)\<rparr>) \<subseteq> waiting_msgs n"
  unfolding waiting_msgs_def by (auto split: if_splits)

lemma waiting_update: "waiting_msgs (n\<lparr>n_msgQueue := (n_msgQueue n)(mt \<mapsto> q)\<rparr>) \<subseteq> set q \<union> waiting_msgs n"
  unfolding waiting_msgs_def by (auto split: if_splits)

lemma aggregate_cases:
  assumes "aggregate msg n = Inr (r, n')"
  shows "r = Some [msg] \<and> n' = n \<or>
    r = Some (gathered (pm_MsgType msg) n @ [msg]) \<and> n' = n\<lparr>n_msgQueue := (n_msgQueue n)(pm_MsgType msg := None)\<rparr> \<or>
    r = None \<and> n' = n\<lparr>n_msgQueue := (n_msgQueue n)(pm_MsgType msg \<mapsto> gathered (pm_MsgType msg) n @ [msg])\<rparr>"
  using assms unfolding aggregate_def Let_def gathered_def [symmetric] bindR_Inr_iff by (auto split: if_splits)

lemma aggregate_msgs:
  assumes "aggregate msg n = Inr (r, n')"
  shows "(case r of None \<Rightarrow> {} | Some ms \<Rightarrow> set ms) \<union> waiting_msgs n' \<subseteq> insert msg (waiting_msgs n) \<and> deliveries n' = deliveries n"
  using aggregate_cases [OF assms] gathered_waiting [of _ "pm_MsgType msg" n] waiting_delete [of n "pm_MsgType msg"]
    waiting_update [of n "pm_MsgType msg" "gathered (pm_MsgType msg) n @ [msg]"] by auto

lemma dispatch_adds:
  assumes "dispatchMsgToProtocol herr stored msg n = Some (Inr (e, n'))"
  shows "waiting_msgs n' \<subseteq> insert msg (waiting_msgs n) \<and>
    (\<forall>d \<in> deliveries n'. d \<in> deliveries n \<or> made_from stored (insert msg (waiting_msgs n)) d)"
proof -
  let ?n = "n\<lparr>n_rx := n_rx n + ucast (pm_Size msg)\<rparr>"
  obtain r n1 where agg: "aggregate msg ?n = Inr (r, n1)"
    using assms by (cases "aggregate msg ?n") (auto simp: dispatchMsgToProtocol_def Let_def)
  note a = aggregate_msgs [OF agg]
  show ?thesis
  proof (cases r)
    case None
    then show ?thesis using assms agg a by (simp add: dispatchMsgToProtocol_def Let_def)
  next
    case (Some msgs)
    then have "adds_from stored (set msgs) n1 n'" using assms agg
      by (auto simp: dispatchMsgToProtocol_def Let_def dest: dispatchChannel_adds dispatchHandler_adds split: if_splits)
    moreover have "set msgs \<subseteq> insert msg (waiting_msgs n)" using a Some by simp
    ultimately show ?thesis using a made_from_mono unfolding adds_from_def by (metis (no_types, lifting) Un_subset_iff deliveries_simps(2) waiting_simps(2))
  qed
qed

section \<open>Senders\<close>

definition auth_inv :: "'p OTree \<Rightarrow> ('p, 'm) node_sys \<Rightarrow> bool" where
  "auth_inv tr s \<longleftrightarrow> waiting_msgs (ns_node s) \<subseteq> set (ns_dispatched s) \<and>
    (\<forall>d \<in> deliveries (ns_node s) \<union> snd ` set (ns_received s). made_from (Some tr) (set (ns_dispatched s)) d)"

lemma auth_inv_frame:
  "auth_inv tr s \<Longrightarrow> waiting_msgs n = waiting_msgs (ns_node s) \<Longrightarrow> deliveries n \<subseteq> deliveries (ns_node s) \<Longrightarrow> auth_inv tr (s\<lparr>ns_node := n\<rparr>)"
  by (fastforce simp: auth_inv_def)

lemma auth_inv_start: "auth_inv tr (node_start tok tn parent)"
  by (simp add: auth_inv_def node_start_def newTreeNodeInstance_def deliveries_def waiting_msgs_def)

lemma no_tree_makes: "made_from None msgs d \<Longrightarrow> made_from stored msgs' d"
  by (fastforce simp: made_from_def createValueAndVerify_def tni_Tree_def)

lemma set_channel_delivers: "deliveries (set_channel mtid m agg room n) \<subseteq> deliveries n" "waiting_msgs (set_channel mtid m agg room n) = waiting_msgs n"
  by (auto simp: set_channel_def Let_def deliveries_def split: if_splits)

lemma RegisterChannelValue_sets: "RegisterChannelValue mtid t isNil room n = Inr n' \<Longrightarrow> \<exists>m agg. n' = set_channel mtid m agg room n"
  unfolding RegisterChannelValue_def by (auto simp: bindR_Inr_iff split: gtype.splits if_splits)

lemma RegisterChannelLength_sets:
  assumes "RegisterChannelLength mtid t isNil cap k n = Inr n'"
  shows "\<exists>m agg room. n' = set_channel mtid m agg room n"
proof -
  have "\<exists>t' isNil' room. RegisterChannelValue mtid t' isNil' room n = Inr n'"
    using assms unfolding RegisterChannelLength_def by (simp split: gtype.splits if_splits) blast+
  then show ?thesis using RegisterChannelValue_sets by blast
qed

lemma RegisterChannelLength_delivers:
  "RegisterChannelLength mtid t isNil cap k n = Inr n' \<Longrightarrow> deliveries n' \<subseteq> deliveries n \<and> waiting_msgs n' = waiting_msgs n"
  using RegisterChannelLength_sets set_channel_delivers by metis

lemma RegisterHandler_delivers:
  "RegisterHandler mtid t n = Inr n' \<Longrightarrow> deliveries n' = deliveries n \<and> waiting_msgs n' = waiting_msgs n"
  by (auto simp: RegisterHandler_def Let_def bindR_Inr_iff split: gtype.splits list.splits if_splits)

lemma SendTo_delivers: "SendTo wire to payload n = (e, outs, n') \<Longrightarrow> deliveries n' = deliveries n \<and> waiting_msgs n' = waiting_msgs n"
  by (auto simp: SendTo_def Let_def split: option.splits prod.splits if_splits)

lemma node_step_auth: "node_step tr s s' \<Longrightarrow> auth_inv tr s \<Longrightarrow> auth_inv tr s'"
proof (induction rule: node_step.induct)
  case (run s msg stored herr r)
  show ?case
  proof (cases r)
    case (Inl f)
    have "made_from (Some tr) (set (ns_dispatched s @ [msg])) x" if "made_from (Some tr) (set (ns_dispatched s)) x" for x
      using made_from_mono [OF that] by auto
    then show ?thesis using run(4) Inl by (auto simp: auth_inv_def finish_msg_def)
  next
    case (Inr en)
    obtain e n where en: "en = (e, n)" by fastforce
    note d = dispatch_adds [OF run(3) [unfolded Inr en]]
    have w: "insert msg (waiting_msgs (ns_node s)) \<subseteq> set (ns_dispatched s @ [msg])" using run(4) by (auto simp: auth_inv_def)
    have made: "made_from (Some tr) (set (ns_dispatched s @ [msg])) x" if "made_from stored (insert msg (waiting_msgs (ns_node s))) x" for x
      using that run(2) no_tree_makes made_from_mono [OF _ w] by metis
    have old: "made_from (Some tr) (set (ns_dispatched s @ [msg])) x" if "made_from (Some tr) (set (ns_dispatched s)) x" for x
      using made_from_mono [OF that] by auto
    have "auth_inv tr (finish_msg msg (Inr (e, n)) s)"
      unfolding auth_inv_def finish_msg_def
    proof (intro conjI ballI)
      show "waiting_msgs (ns_node (case Inr (e, n) of Inl f \<Rightarrow> s\<lparr>ns_reader := Crashed f, ns_dispatched := ns_dispatched s @ [msg]\<rparr>
          | Inr (u, n) \<Rightarrow> s\<lparr>ns_node := n, ns_reader := AtTop, ns_dispatched := ns_dispatched s @ [msg]\<rparr>)) \<subseteq>
        set (ns_dispatched (case Inr (e, n) of Inl f \<Rightarrow> s\<lparr>ns_reader := Crashed f, ns_dispatched := ns_dispatched s @ [msg]\<rparr>
          | Inr (u, n) \<Rightarrow> s\<lparr>ns_node := n, ns_reader := AtTop, ns_dispatched := ns_dispatched s @ [msg]\<rparr>))"
        using d w by auto
    next
      fix x assume "x \<in> deliveries (ns_node (case Inr (e, n) of Inl f \<Rightarrow> s\<lparr>ns_reader := Crashed f, ns_dispatched := ns_dispatched s @ [msg]\<rparr>
          | Inr (u, n) \<Rightarrow> s\<lparr>ns_node := n, ns_reader := AtTop, ns_dispatched := ns_dispatched s @ [msg]\<rparr>)) \<union>
        snd ` set (ns_received (case Inr (e, n) of Inl f \<Rightarrow> s\<lparr>ns_reader := Crashed f, ns_dispatched := ns_dispatched s @ [msg]\<rparr>
          | Inr (u, n) \<Rightarrow> s\<lparr>ns_node := n, ns_reader := AtTop, ns_dispatched := ns_dispatched s @ [msg]\<rparr>))"
      then have "x \<in> deliveries n \<or> x \<in> snd ` set (ns_received s)" by simp
      then have "made_from (Some tr) (set (ns_dispatched s @ [msg])) x"
        using d made old run(4) unfolding auth_inv_def by blast
      then show "made_from (Some tr) (set (ns_dispatched (case Inr (e, n) of Inl f \<Rightarrow> s\<lparr>ns_reader := Crashed f, ns_dispatched := ns_dispatched s @ [msg]\<rparr>
          | Inr (u, n) \<Rightarrow> s\<lparr>ns_node := n, ns_reader := AtTop, ns_dispatched := ns_dispatched s @ [msg]\<rparr>))) x" by simp
    qed
    then show ?thesis using Inr en by simp
  qed
next
  case (receive s mt ch d ds)
  then have "d \<in> deliveries (ns_node s)" unfolding deliveries_def by fastforce
  moreover have "deliveries ((ns_node s)\<lparr>n_channels := (n_channels (ns_node s))(mt \<mapsto> ch\<lparr>ch_buf := ds\<rparr>)\<rparr>) \<subseteq> deliveries (ns_node s)"
    using receive(1,2) by (auto simp: deliveries_def split: if_splits) (metis list.set_intros(2))
  ultimately show ?case using receive(3) by (auto simp: auth_inv_def)
next
  case (take s r n)
  then show ?case by (auto simp: reader_top_def auth_inv_def split: if_splits list.splits)
next
  case (channel mtid t isNil cap k s n)
  then show ?case using auth_inv_frame RegisterChannelLength_delivers by metis
next
  case (handler mtid t s n)
  then show ?case using auth_inv_frame RegisterHandler_delivers by (metis order_refl)
next
  case (send s wire to payload e outs n)
  then show ?case using auth_inv_frame SendTo_delivers by (metis order_refl)
qed (auto simp: auth_inv_def accept_msg_def ProcessProtocolMsg_def notifyDispatch_def closeDispatch_def Let_def SetConfig_def)

interpretation senders: invariant_system "\<lambda>s. \<exists>tok tn parent. s = node_start tok tn parent" "node_step tr" "auth_inv tr" for tr
  by unfold_locales (auto intro: auth_inv_start node_step_auth)


text \<open>
  C10: what a protocol gets, in a call of a handler or from a channel, comes from a message that was
  dispatched, and the node it names is the one the message's token names in the tree: its key is the
  key of the server the message came from, whenever the network layer recorded one. A message whose
  token names no node of the tree is not refused, though: the protocol gets the zero value, with a nil
  node.
\<close>

theorem senders_authentic:
  assumes "node_reachable tr s" and "(mt, d) \<in> set (ns_received s) \<union> set (n_calls (ns_node s))" and "v \<in> values_of d"
  shows "\<exists>msg \<in> set (ns_dispatched s). \<exists>from. pm_From msg = Some from \<and>
    (case v of
       ZeroValue \<Rightarrow> ot_Search tr (tok_Node from) = None
     | Arrival tn m \<Rightarrow> m = pm_Msg msg \<and> ot_Search tr (tok_Node from) = Some tn \<and>
         (\<forall>si. pm_Server msg = Some si \<longrightarrow> si_Equal (tn_Server tn) si))"
proof -
  have "d \<in> deliveries (ns_node s) \<union> snd ` set (ns_received s)"
    using assms(2) by (auto simp: deliveries_def image_iff) force
  then have "made_from (Some tr) (set (ns_dispatched s)) d"
    using senders.reachable_inv [OF assms(1)] unfolding auth_inv_def by blast
  then obtain msg where "msg \<in> set (ns_dispatched s)" "createValueAndVerify (Some tr) msg = Inr v"
    using assms(3) unfolding made_from_def by blast
  then show ?thesis
    by (intro bexI [of _ msg])
      (auto simp: createValueAndVerify_def tni_Tree_def bindR_Inr_iff nonnil_def split: option.splits if_splits)
qed

definition sample_handling :: "(nat, nat) node_sys" where
  "sample_handling = sample_node\<lparr>ns_node := (ns_node sample_node)\<lparr>n_handlers := (\<lambda>mt. mt = 5)\<rparr>\<rparr>"

definition sample_called :: "(nat, nat) node_sys" where
  "sample_called = sample_handling\<lparr>ns_node := (ns_node sample_handling)\<lparr>n_wait := True, n_rx := 10,
     n_calls := [(5, Single (Arrival (ONode 12 (sample_server 2) 1 [ONode 13 (sample_server 1) 0 []]) 1))]\<rparr>,
     ns_accepted := [sample_msg 1], ns_dispatched := [sample_msg 1]\<rparr>"

lemmas sample_node_defs = sample_handling_def sample_called_def sample_node_def node_start_def newTreeNodeInstance_def

lemma sample_called_reachable: "node_reachable sample_tree sample_called"
proof (rule next_step [OF next_step [OF next_step [OF next_step [OF at_start]]]])
  show "\<exists>tok tn parent. sample_node = node_start tok tn parent" by (auto simp: sample_node_def)
  have "RegisterHandler (\<lambda>_. 5) (GFunc [GStruct [GTreeNodePtr, GNamed ''m'']] [GError]) (ns_node sample_node) = Inr (ns_node sample_handling)"
    by (auto simp: RegisterHandler_def struct_checks_def sample_node_defs fun_eq_iff)
  from node_step.handler [OF this, of sample_tree] show "node_step sample_tree sample_node sample_handling"
    by (simp add: sample_handling_def)
  show "node_step sample_tree sample_handling (accept_msg (sample_msg 1) sample_handling)"
    by (rule node_step.accept) (simp add: sample_node_defs)
  let ?n = "(ns_node sample_handling)\<lparr>n_wait := True\<rparr>"
  let ?s = "sample_handling\<lparr>ns_node := ?n, ns_reader := InHand (sample_msg 1), ns_accepted := [sample_msg 1]\<rparr>"
  have "reader_top (ns_node (accept_msg (sample_msg 1) sample_handling)) = (InHand (sample_msg 1), ?n)"
    by (simp add: reader_top_def accept_msg_def ProcessProtocolMsg_def notifyDispatch_def sample_node_defs)
  from node_step.take [OF _ _ this, of sample_tree]
  show "node_step sample_tree (accept_msg (sample_msg 1) sample_handling) ?s"
    by (simp add: accept_msg_def sample_node_defs ProcessProtocolMsg_def notifyDispatch_def)
  have "dispatchMsgToProtocol (\<lambda>_ _. False) (Some sample_tree) (sample_msg 1) (ns_node ?s) = Some (Inr (None, ns_node sample_called))"
    by (simp add: dispatchMsgToProtocol_def aggregate_def dispatchHandler_def createValueAndVerify_def tni_Tree_def nonnil_def
        ot_Search_def sample_tree_def sample_msg_def sample_server_def si_Equal_def sample_node_defs Let_def)
  from node_step.run [where tr = sample_tree, OF _ _ this] show "node_step sample_tree ?s sample_called"
    by (simp add: finish_msg_def sample_node_defs)
qed

lemma senders_authentic_witness:
  "\<exists>msg \<in> set (ns_dispatched sample_called). \<exists>from. pm_From msg = Some from \<and>
    (\<forall>si. pm_Server msg = Some si \<longrightarrow> si_Equal (sample_server 2) si)"
  using senders_authentic [OF sample_called_reachable, of 5 "Single (Arrival (ONode 12 (sample_server 2) 1 [ONode 13 (sample_server 1) 0 []]) 1)"
      "Arrival (ONode 12 (sample_server 2) 1 [ONode 13 (sample_server 1) 0 []]) 1"]
  by (auto simp: sample_called_def)

section \<open>Aggregation\<close>

definition from_parent :: "('p, 'm) TreeNodeInstance \<Rightarrow> ('p, 'm) ProtocolMsg \<Rightarrow> bool" where
  "from_parent n msg \<longleftrightarrow> (\<exists>p from. n_parent n = Some p \<and> pm_From msg = Some from \<and> tok_Node from = tn_ID p)"

definition gathers :: "uuid \<Rightarrow> ('p, 'm) TreeNodeInstance \<Rightarrow> ('p, 'm) ProtocolMsg \<Rightarrow> bool" where
  "gathers mt n msg \<longleftrightarrow> pm_MsgType msg = mt \<and> \<not> from_parent n msg"

text \<open>A list of messages, one after the other: the groups that leave on messages of the children of one type.\<close>

fun aggregate_all :: "uuid \<Rightarrow> ('p, 'm) ProtocolMsg list \<Rightarrow> ('p, 'm) TreeNodeInstance \<Rightarrow> fault + ('p, 'm) ProtocolMsg list list \<times> ('p, 'm) TreeNodeInstance" where
  "aggregate_all mt [] n = Inr ([], n)"
| "aggregate_all mt (m # ms) n =
     bindR (aggregate m n) (\<lambda>(r, n1). bindR (aggregate_all mt ms n1) (\<lambda>(gs, n2).
       Inr ((case r of None \<Rightarrow> [] | Some g \<Rightarrow> if gathers mt n m then [g] else []) @ gs, n2)))"

lemma aggregate_spec:
  assumes "pm_From msg \<noteq> None"
  shows "aggregate msg n =
    (if from_parent n msg \<or> \<not> n_flags n (pm_MsgType msg) then Inr (Some [msg], n)
     else let q = gathered (pm_MsgType msg) n @ [msg] in
       if length q = length (tni_Children n) then Inr (Some q, n\<lparr>n_msgQueue := (n_msgQueue n)(pm_MsgType msg := None)\<rparr>)
       else Inr (None, n\<lparr>n_msgQueue := (n_msgQueue n)(pm_MsgType msg \<mapsto> q)\<rparr>))"
  using assms unfolding aggregate_def gathered_def from_parent_def Let_def
  by (cases "n_parent n") (auto simp: nonnil_def)

lemma aggregate_keeps:
  "aggregate msg n = Inr (r, n') \<Longrightarrow> n_parent n' = n_parent n \<and> n_flags n' = n_flags n \<and> tni_Children n' = tni_Children n"
  using aggregate_cases [of msg n r n'] by (auto simp: tni_Children_def)

lemma aggregate_step:
  assumes "n_flags n mt" and "pm_From m \<noteq> None" and "length (gathered mt n) < length (tni_Children n)"
  shows "\<exists>r n1. aggregate m n = Inr (r, n1) \<and> length (gathered mt n1) < length (tni_Children n) \<and>
    (let gs = (case r of None \<Rightarrow> [] | Some g \<Rightarrow> if gathers mt n m then [g] else []) in
     concat gs @ gathered mt n1 = gathered mt n @ filter (gathers mt n) [m] \<and> (\<forall>g \<in> set gs. length g = length (tni_Children n)))"
proof (cases "gathers mt n m")
  case True
  then have a: "pm_MsgType m = mt" "\<not> from_parent n m" by (simp_all add: gathers_def)
  have nonempty: "0 < length (tni_Children n)" using assms(3) by linarith
  show ?thesis
  proof (cases "length (gathered mt n @ [m]) = length (tni_Children n)")
    case full: True
    then have "aggregate m n = Inr (Some (gathered mt n @ [m]), n\<lparr>n_msgQueue := (n_msgQueue n)(mt := None)\<rparr>)"
      using a assms(1) unfolding aggregate_spec [OF assms(2)] by (simp add: Let_def)
    then show ?thesis using True full nonempty by (simp add: gathered_def Let_def)
  next
    case False
    then have "aggregate m n = Inr (None, n\<lparr>n_msgQueue := (n_msgQueue n)(mt \<mapsto> gathered mt n @ [m])\<rparr>)"
      using a assms(1) unfolding aggregate_spec [OF assms(2)] by (simp add: Let_def)
    moreover have "length (gathered mt n @ [m]) < length (tni_Children n)" using False assms(3) by simp
    ultimately show ?thesis using True by (simp add: gathered_def Let_def)
  qed
next
  case False
  have "\<exists>r n1. aggregate m n = Inr (r, n1) \<and> gathered mt n1 = gathered mt n"
  proof (cases "from_parent n m \<or> \<not> n_flags n (pm_MsgType m)")
    case True
    then show ?thesis unfolding aggregate_spec [OF assms(2)] by simp
  next
    case other: False
    then have "pm_MsgType m \<noteq> mt" using False by (simp add: gathers_def)
    then show ?thesis using other unfolding aggregate_spec [OF assms(2)] by (simp add: Let_def gathered_def)
  qed
  then show ?thesis using False assms(3) by (fastforce simp: Let_def split: option.splits)
qed

lemma aggregate_all_groups:
  assumes "n_flags n mt" and "\<forall>m \<in> set msgs. pm_From m \<noteq> None" and "length (gathered mt n) < length (tni_Children n)"
  shows "\<exists>gs n'. aggregate_all mt msgs n = Inr (gs, n') \<and>
    concat gs @ gathered mt n' = gathered mt n @ filter (gathers mt n) msgs \<and>
    (\<forall>g \<in> set gs. length g = length (tni_Children n)) \<and> length (gathered mt n') < length (tni_Children n)"
  using assms
proof (induction msgs arbitrary: n)
  case Nil
  then show ?case by simp
next
  case (Cons m ms)
  have "pm_From m \<noteq> None" using Cons.prems(2) by simp
  from aggregate_step [OF Cons.prems(1) this Cons.prems(3)] obtain r n1 where agg: "aggregate m n = Inr (r, n1)"
    and lt: "length (gathered mt n1) < length (tni_Children n)"
    and one: "concat (case r of None \<Rightarrow> [] | Some g \<Rightarrow> if gathers mt n m then [g] else []) @ gathered mt n1 = gathered mt n @ filter (gathers mt n) [m]"
      "\<forall>g \<in> set (case r of None \<Rightarrow> [] | Some g \<Rightarrow> if gathers mt n m then [g] else []). length g = length (tni_Children n)"
    unfolding Let_def by blast
  note keeps = aggregate_keeps [OF agg]
  have same: "gathers mt n1 = gathers mt n" using keeps by (auto simp: gathers_def from_parent_def)
  have "n_flags n1 mt" "\<forall>m \<in> set ms. pm_From m \<noteq> None" "length (gathered mt n1) < length (tni_Children n1)"
    using Cons.prems keeps lt by simp_all
  from Cons.IH [OF this] obtain gs n' where IH: "aggregate_all mt ms n1 = Inr (gs, n')"
    "concat gs @ gathered mt n' = gathered mt n1 @ filter (gathers mt n) ms"
    "\<forall>g \<in> set gs. length g = length (tni_Children n)" "length (gathered mt n') < length (tni_Children n)"
    unfolding same using keeps by auto
  let ?gs = "(case r of None \<Rightarrow> [] | Some g \<Rightarrow> if gathers mt n m then [g] else []) @ gs"
  have "aggregate_all mt (m # ms) n = Inr (?gs, n')" using agg IH(1) by simp
  moreover have "concat ?gs @ gathered mt n' = gathered mt n @ filter (gathers mt n) (m # ms)"
  proof -
    have "concat ?gs @ gathered mt n' = concat (case r of None \<Rightarrow> [] | Some g \<Rightarrow> if gathers mt n m then [g] else []) @ gathered mt n1 @ filter (gathers mt n) ms"
      using IH(2) by simp
    also have "\<dots> = (gathered mt n @ filter (gathers mt n) [m]) @ filter (gathers mt n) ms" unfolding one(1) [symmetric] by simp
    finally show ?thesis by simp
  qed
  moreover have "\<forall>g \<in> set ?gs. length g = length (tni_Children n)" using one(2) IH(3) by auto
  ultimately show ?case using IH(4) by blast
qed

lemma leaf_waits:
  "n_flags n mt \<Longrightarrow> \<forall>m \<in> set msgs. pm_From m \<noteq> None \<Longrightarrow> tni_Children n = [] \<Longrightarrow>
    \<exists>n'. aggregate_all mt msgs n = Inr ([], n') \<and> gathered mt n' = gathered mt n @ filter (gathers mt n) msgs"
proof (induction msgs arbitrary: n)
  case Nil
  then show ?case by simp
next
  case (Cons m ms)
  have m: "pm_From m \<noteq> None" using Cons.prems(2) by simp
  have "\<exists>r n1. aggregate m n = Inr (r, n1) \<and> gathered mt n1 = gathered mt n @ filter (gathers mt n) [m] \<and> (gathers mt n m \<longrightarrow> r = None)"
    using Cons.prems unfolding aggregate_spec [OF m] by (auto simp: gathers_def gathered_def Let_def)
  then obtain r n1 where agg: "aggregate m n = Inr (r, n1)" "gathered mt n1 = gathered mt n @ filter (gathers mt n) [m]"
    "gathers mt n m \<longrightarrow> r = None" by blast
  note keeps = aggregate_keeps [OF agg(1)]
  have same: "gathers mt n1 = gathers mt n" using keeps by (auto simp: gathers_def from_parent_def)
  obtain n' where "aggregate_all mt ms n1 = Inr ([], n')" "gathered mt n' = gathered mt n1 @ filter (gathers mt n) ms"
    using Cons.IH [of n1] Cons.prems keeps same by auto
  then show ?case using agg by (auto split: option.splits)
qed

text \<open>
  Messages of an aggregated type that do not come from the parent leave in groups of exactly as many
  as the node has children, in their order, each message in one group: after any sequence of messages,
  also of other types and from the parent, the groups and the messages that still wait are the messages
  that waited before and those of the type. Who sent them is not looked at: any of them counts for any
  child. At a leaf no group ever leaves.
\<close>

theorem aggregation_groups:
  assumes "n_flags n mt" and "\<forall>m \<in> set msgs. pm_From m \<noteq> None" and "n_msgQueue n mt = None"
  shows "(tni_Children n \<noteq> [] \<longrightarrow> (\<exists>gs n'. aggregate_all mt msgs n = Inr (gs, n') \<and>
      concat gs @ gathered mt n' = filter (gathers mt n) msgs \<and>
      (\<forall>g \<in> set gs. length g = length (tni_Children n)) \<and> length gs = length (filter (gathers mt n) msgs) div length (tni_Children n))) \<and>
    (tni_Children n = [] \<longrightarrow> (\<exists>n'. aggregate_all mt msgs n = Inr ([], n') \<and> gathered mt n' = filter (gathers mt n) msgs))"
proof (intro conjI impI)
  assume kids: "tni_Children n \<noteq> []"
  have "gathered mt n = []" using assms(3) by (simp add: gathered_def)
  with aggregate_all_groups [OF assms(1,2)] kids obtain gs n' where gs: "aggregate_all mt msgs n = Inr (gs, n')"
    "concat gs @ gathered mt n' = filter (gathers mt n) msgs" "\<forall>g \<in> set gs. length g = length (tni_Children n)"
    "length (gathered mt n') < length (tni_Children n)" by auto
  have "length (concat gs) = length gs * length (tni_Children n)"
    using gs(3) by (induction gs) auto
  then have "length (filter (gathers mt n) msgs) = length gs * length (tni_Children n) + length (gathered mt n')"
    using arg_cong [OF gs(2), of length] by simp
  then have "length (filter (gathers mt n) msgs) div length (tni_Children n) = length gs"
    using gs(4) by (intro div_nat_eqI) (simp_all add: mult.commute)
  then show "\<exists>gs n'. aggregate_all mt msgs n = Inr (gs, n') \<and> concat gs @ gathered mt n' = filter (gathers mt n) msgs \<and>
      (\<forall>g \<in> set gs. length g = length (tni_Children n)) \<and> length gs = length (filter (gathers mt n) msgs) div length (tni_Children n)"
    using gs by auto
next
  assume "tni_Children n = []"
  then have "\<exists>n'. aggregate_all mt msgs n = Inr ([], n') \<and> gathered mt n' = gathered mt n @ filter (gathers mt n) msgs"
    using leaf_waits [OF assms(1,2)] by blast
  then show "\<exists>n'. aggregate_all mt msgs n = Inr ([], n') \<and> gathered mt n' = filter (gathers mt n) msgs"
    using assms(3) by (simp add: gathered_def)
qed

definition sample_aggregate :: "(nat, nat) TreeNodeInstance" where
  "sample_aggregate = (ns_node sample_node)\<lparr>n_flags := (\<lambda>mt. mt = 5)\<rparr>"

lemma aggregation_groups_witness:
  "\<exists>gs n'. aggregate_all 5 [sample_msg 1, sample_msg 2, sample_msg 3] sample_aggregate = Inr (gs, n') \<and> length gs = 1"
proof -
  have "gathers 5 sample_aggregate (sample_msg k)" for k
    by (simp add: gathers_def from_parent_def sample_aggregate_def sample_node_def node_start_def newTreeNodeInstance_def sample_msg_def)
  moreover have "length (tni_Children sample_aggregate) = 2" "n_flags sample_aggregate 5" "n_msgQueue sample_aggregate 5 = None"
    by (simp_all add: sample_aggregate_def sample_node_def node_start_def newTreeNodeInstance_def tni_Children_def sample_tree_def)
  moreover have "\<forall>m \<in> set [sample_msg 1, sample_msg 2, sample_msg 3]. pm_From m \<noteq> None" by (simp add: sample_msg_def)
  ultimately show ?thesis
    using aggregation_groups [of sample_aggregate 5 "[sample_msg 1, sample_msg 2, sample_msg 3]"] by fastforce
qed

end
