(* ===== verification/OnetStorage.thy ===== *)
theory OnetStorage
  imports OnetTree Transition
begin

text \<open>
  The store of the trees a server knows (\<open>onet/treestorage.go\<close>). A tree that is no longer used is not
  deleted at once: \<open>Remove\<close> starts a goroutine that waits for a timeout or for a cancellation. The
  steps below are the sections under the lock, the two ways a goroutine leaves its select, and the two
  ends of \<open>Close\<close>, which keeps the lock while it waits. Time is left out: a timer may fire at any
  moment.
\<close>

section \<open>The store\<close>

text \<open>
  Channels are numbered. A goroutine of \<open>Remove\<close> is its channel, the tree it is to delete, and whether
  its timer has fired: then it waits for the lock. \<open>ts_holds\<close> is a \<open>Close\<close> that holds the lock.
\<close>

record remover =
  rm_chan :: nat
  rm_tree :: uuid
  rm_fired :: bool

record 'p treeStorage =
  ts_trees :: "uuid \<rightharpoonup> 'p OTree option"
  ts_cancellations :: "uuid \<rightharpoonup> nat"
  ts_closed :: bool
  ts_wg :: int
  ts_closed_chans :: "nat set"
  ts_next :: nat
  ts_removers :: "remover list"
  ts_holds :: bool

definition newTreeStorage :: "'p treeStorage" where
  "newTreeStorage = \<lparr>ts_trees = Map.empty, ts_cancellations = Map.empty, ts_closed = False, ts_wg = 0, ts_closed_chans = {},
     ts_next = 0, ts_removers = [], ts_holds = False\<rparr>"

definition ts_Register :: "uuid \<Rightarrow> 'p treeStorage \<Rightarrow> 'p treeStorage" where
  "ts_Register i ts = ts\<lparr>ts_trees := (ts_trees ts)(i \<mapsto> None)\<rparr>"

text \<open>Reading a missing key gives the nil tree.\<close>

definition ts_Get :: "uuid \<Rightarrow> 'p treeStorage \<Rightarrow> 'p OTree option" where
  "ts_Get i ts = (case ts_trees ts i of None \<Rightarrow> None | Some t \<Rightarrow> t)"

definition ts_Unregister :: "uuid \<Rightarrow> 'p treeStorage \<Rightarrow> 'p treeStorage" where
  "ts_Unregister i ts = (if ts_Get i ts = None then ts\<lparr>ts_trees := (ts_trees ts)(i := None)\<rparr> else ts)"

definition ts_IsRegistered :: "uuid \<Rightarrow> 'p treeStorage \<Rightarrow> bool" where
  "ts_IsRegistered i ts \<longleftrightarrow> ts_trees ts i \<noteq> None"

definition cancelDeletion :: "uuid \<Rightarrow> 'p treeStorage \<Rightarrow> 'p treeStorage" where
  "cancelDeletion i ts =
    (case ts_cancellations ts i of
       None \<Rightarrow> ts
     | Some c \<Rightarrow> ts\<lparr>ts_closed_chans := insert c (ts_closed_chans ts), ts_cancellations := (ts_cancellations ts)(i := None)\<rparr>)"

definition ts_getAndRefresh :: "uuid \<Rightarrow> 'p treeStorage \<Rightarrow> 'p OTree option \<times> 'p treeStorage" where
  "ts_getAndRefresh i ts = (let ts' = cancelDeletion i ts in (ts_Get i ts', ts'))"

definition ts_Set :: "'p OTree \<Rightarrow> 'p treeStorage \<Rightarrow> 'p treeStorage" where
  "ts_Set t ts = (let ts' = cancelDeletion (ot_ID t) ts in ts'\<lparr>ts_trees := (ts_trees ts')(ot_ID t \<mapsto> Some t)\<rparr>)"

definition ts_Remove :: "uuid \<Rightarrow> 'p treeStorage \<Rightarrow> 'p treeStorage" where
  "ts_Remove i ts =
    (if ts_closed ts then ts
     else if ts_cancellations ts i \<noteq> None then ts
     else ts\<lparr>ts_wg := ts_wg ts + 1, ts_next := Suc (ts_next ts), ts_cancellations := (ts_cancellations ts)(i \<mapsto> ts_next ts),
             ts_removers := ts_removers ts @ [\<lparr>rm_chan = ts_next ts, rm_tree = i, rm_fired = False\<rparr>]\<rparr>)"

text \<open>
  The loop over the map of the trees, whose order Go leaves open: \<open>order\<close> are its keys. A registered
  tree that is not known yet is nil, and reading its roster panics.
\<close>

fun ts_GetRoster :: "uuid list \<Rightarrow> uuid \<Rightarrow> 'p treeStorage \<Rightarrow> fault + 'p ORoster option" where
  "ts_GetRoster [] rid ts = Inr None"
| "ts_GetRoster (i # is) rid ts =
    (case ts_Get i ts of
       None \<Rightarrow> Inl NilPanic
     | Some t \<Rightarrow> bindR (nonnil (ot_Roster t)) (\<lambda>ro. if ro_ID ro = rid then Inr (Some ro) else ts_GetRoster is rid ts))"

text \<open>\<open>Close\<close> up to its wait.\<close>

definition ts_Close :: "'p treeStorage \<Rightarrow> 'p treeStorage" where
  "ts_Close ts = ts\<lparr>ts_closed := True, ts_closed_chans := ts_closed_chans ts \<union> ran (ts_cancellations ts),
     ts_cancellations := Map.empty, ts_holds := True\<rparr>"

section \<open>The goroutines\<close>

definition without_remover :: "nat \<Rightarrow> remover list \<Rightarrow> remover list" where
  "without_remover c rs = filter (\<lambda>r. rm_chan r \<noteq> c) rs"

text \<open>The timer's case of the select, and what it does once it has the lock.\<close>

definition timer_fires :: "remover \<Rightarrow> 'p treeStorage \<Rightarrow> 'p treeStorage" where
  "timer_fires r ts = ts\<lparr>ts_removers := map (\<lambda>q. if rm_chan q = rm_chan r then q\<lparr>rm_fired := True\<rparr> else q) (ts_removers ts)\<rparr>"

definition delete_tree :: "remover \<Rightarrow> 'p treeStorage \<Rightarrow> 'p treeStorage" where
  "delete_tree r ts = ts\<lparr>ts_trees := (ts_trees ts)(rm_tree r := None), ts_cancellations := (ts_cancellations ts)(rm_tree r := None),
     ts_removers := without_remover (rm_chan r) (ts_removers ts), ts_wg := ts_wg ts - 1\<rparr>"

text \<open>The cancellation's case.\<close>

definition stop_timer :: "remover \<Rightarrow> 'p treeStorage \<Rightarrow> 'p treeStorage" where
  "stop_timer r ts = ts\<lparr>ts_removers := without_remover (rm_chan r) (ts_removers ts), ts_wg := ts_wg ts - 1\<rparr>"

datatype 'p ts_event =
    EvRegister uuid
  | EvUnregister uuid
  | EvRefresh uuid
  | EvSet "'p OTree"
  | EvRemove uuid
  | EvFire remover
  | EvDelete remover
  | EvStop remover
  | EvClose
  | EvClosed

text \<open>Receiving from a closed channel succeeds at once; with both cases ready the select takes either.\<close>

inductive ts_step :: "'p ts_event \<Rightarrow> 'p treeStorage \<Rightarrow> 'p treeStorage \<Rightarrow> bool" where
  register: "\<not> ts_holds ts \<Longrightarrow> ts_step (EvRegister i) ts (ts_Register i ts)"
| unregister: "\<not> ts_holds ts \<Longrightarrow> ts_step (EvUnregister i) ts (ts_Unregister i ts)"
| refresh: "\<not> ts_holds ts \<Longrightarrow> ts_step (EvRefresh i) ts (snd (ts_getAndRefresh i ts))"
| set_tree: "\<not> ts_holds ts \<Longrightarrow> ts_step (EvSet t) ts (ts_Set t ts)"
| remove: "\<not> ts_holds ts \<Longrightarrow> ts_step (EvRemove i) ts (ts_Remove i ts)"
| fire: "r \<in> set (ts_removers ts) \<Longrightarrow> \<not> rm_fired r \<Longrightarrow> ts_step (EvFire r) ts (timer_fires r ts)"
| delete: "r \<in> set (ts_removers ts) \<Longrightarrow> rm_fired r \<Longrightarrow> \<not> ts_holds ts \<Longrightarrow> ts_step (EvDelete r) ts (delete_tree r ts)"
| stop: "r \<in> set (ts_removers ts) \<Longrightarrow> \<not> rm_fired r \<Longrightarrow> rm_chan r \<in> ts_closed_chans ts \<Longrightarrow> ts_step (EvStop r) ts (stop_timer r ts)"
| close: "\<not> ts_holds ts \<Longrightarrow> ts_step EvClose ts (ts_Close ts)"
| closed: "ts_holds ts \<Longrightarrow> ts_wg ts = 0 \<Longrightarrow> ts_step EvClosed ts (ts\<lparr>ts_holds := False\<rparr>)"

inductive_cases ts_stepE: "ts_step e ts ts'"

inductive ts_run :: "'p ts_event list \<Rightarrow> 'p treeStorage \<Rightarrow> 'p treeStorage \<Rightarrow> bool" where
  no_event: "ts_run [] ts ts"
| event: "ts_step e ts ts' \<Longrightarrow> ts_run es ts' ts'' \<Longrightarrow> ts_run (e # es) ts ts''"

inductive_cases ts_run_ConsE: "ts_run (e # es) ts ts'"
inductive_simps ts_run_Nil [simp]: "ts_run [] ts ts'"

lemma ts_run_one: "ts_step e ts ts' \<Longrightarrow> ts_run [e] ts ts'"
  by (auto intro: ts_run.event)

section \<open>Bookkeeping\<close>

definition ts_inv :: "'p treeStorage \<Rightarrow> bool" where
  "ts_inv ts \<longleftrightarrow>
    ts_wg ts = int (length (ts_removers ts)) \<and>
    distinct (map rm_chan (ts_removers ts)) \<and>
    (\<forall>r \<in> set (ts_removers ts). rm_chan r < ts_next ts) \<and>
    (\<forall>c \<in> ts_closed_chans ts. c < ts_next ts) \<and>
    (\<forall>i c. ts_cancellations ts i = Some c \<longrightarrow>
       c \<notin> ts_closed_chans ts \<and> (\<exists>r \<in> set (ts_removers ts). rm_chan r = c \<and> rm_tree r = i)) \<and>
    (ts_holds ts \<longrightarrow> ts_closed ts \<and> ts_cancellations ts = Map.empty)"

lemma ts_inv_start: "ts_inv newTreeStorage"
  by (simp add: ts_inv_def newTreeStorage_def)

lemma remover_unique:
  "distinct (map rm_chan rs) \<Longrightarrow> r \<in> set rs \<Longrightarrow> q \<in> set rs \<Longrightarrow> rm_chan r = rm_chan q \<Longrightarrow> r = q"
  by (meson distinct_map inj_onD)

lemma length_without_remover:
  "distinct (map rm_chan rs) \<Longrightarrow> r \<in> set rs \<Longrightarrow> int (length (without_remover (rm_chan r) rs)) = int (length rs) - 1"
  unfolding without_remover_def
proof (induction rs)
  case (Cons a rs)
  show ?case
  proof (cases "a = r")
    case True
    have "rm_chan a \<notin> rm_chan ` set rs" using Cons.prems(1) by simp
    then have "filter (\<lambda>q. rm_chan q \<noteq> rm_chan r) rs = rs" unfolding True by (intro filter_True) (auto simp: image_iff)
    then show ?thesis using True by simp
  next
    case False
    then show ?thesis using Cons by auto
  qed
qed simp

lemma ts_inv_cancelD:
  "ts_inv ts \<Longrightarrow> ts_cancellations ts i = Some c \<Longrightarrow>
    c \<notin> ts_closed_chans ts \<and> (\<exists>r \<in> set (ts_removers ts). rm_chan r = c \<and> rm_tree r = i)"
  unfolding ts_inv_def by blast

lemma ts_inv_distinct: "ts_inv ts \<Longrightarrow> distinct (map rm_chan (ts_removers ts))"
  unfolding ts_inv_def by blast

lemma ts_inv_next: "ts_inv ts \<Longrightarrow> r \<in> set (ts_removers ts) \<Longrightarrow> rm_chan r < ts_next ts"
  unfolding ts_inv_def by blast

lemma cancelled_chan:
  assumes "ts_inv ts" and "ts_cancellations ts i = Some c" and "r \<in> set (ts_removers ts)" and "rm_chan r = c"
  shows "i = rm_tree r"
proof -
  obtain q where q: "q \<in> set (ts_removers ts)" "rm_chan q = c" "rm_tree q = i" using ts_inv_cancelD [OF assms(1,2)] by blast
  have "r = q" using remover_unique [OF ts_inv_distinct [OF assms(1)] assms(3) q(1)] q(2) assms(4) by simp
  then show ?thesis using q(3) by simp
qed

lemma cancelDeletion_inv: "ts_inv ts \<Longrightarrow> \<not> ts_holds ts \<Longrightarrow> ts_inv (cancelDeletion i ts)"
proof (cases "ts_cancellations ts i")
  case (Some c)
  assume inv: "ts_inv ts" and holds: "\<not> ts_holds ts"
  obtain r where r: "r \<in> set (ts_removers ts)" "rm_chan r = c" "rm_tree r = i" using ts_inv_cancelD [OF inv Some] by blast
  have "c < ts_next ts" using ts_inv_next [OF inv r(1)] r(2) by simp
  moreover have "c' \<noteq> c" if "ts_cancellations ts j = Some c'" "j \<noteq> i" for j c'
    using cancelled_chan [OF inv that(1) r(1)] r that(2) by blast
  ultimately show ?thesis using inv holds Some by (auto simp: ts_inv_def cancelDeletion_def)
qed (simp add: cancelDeletion_def)

lemma ts_holds_cancel [simp]: "ts_holds (cancelDeletion i ts) = ts_holds ts"
  by (simp add: cancelDeletion_def split: option.splits)

lemma ts_inv_trees: "ts_inv (ts_trees_update f ts) = ts_inv ts"
  by (simp add: ts_inv_def)

lemma ts_Remove_inv: "ts_inv ts \<Longrightarrow> \<not> ts_holds ts \<Longrightarrow> ts_inv (ts_Remove i ts)"
  by (fastforce simp: ts_inv_def ts_Remove_def less_Suc_eq)

definition fire_in :: "remover \<Rightarrow> remover \<Rightarrow> remover" where
  "fire_in r q = (if rm_chan q = rm_chan r then q\<lparr>rm_fired := True\<rparr> else q)"

lemma fire_in [simp]: "rm_chan (fire_in r q) = rm_chan q" "rm_tree (fire_in r q) = rm_tree q"
  by (simp_all add: fire_in_def)

lemma timer_fires_alt: "timer_fires r ts = ts\<lparr>ts_removers := map (fire_in r) (ts_removers ts)\<rparr>"
  by (simp add: timer_fires_def fire_in_def [abs_def])

lemma timer_fires_inv: "ts_inv ts \<Longrightarrow> ts_inv (timer_fires r ts)"
  unfolding ts_inv_def timer_fires_alt by (auto simp: comp_def)

lemma finished_inv:
  assumes "ts_inv ts" and "r \<in> set (ts_removers ts)"
    and "\<And>i c. cs i = Some c \<Longrightarrow> ts_cancellations ts i = Some c \<and> c \<noteq> rm_chan r" and "ts_holds ts \<Longrightarrow> cs = Map.empty"
  shows "ts_inv (ts\<lparr>ts_cancellations := cs, ts_removers := without_remover (rm_chan r) (ts_removers ts), ts_wg := ts_wg ts - 1\<rparr>)"
proof -
  have "int (length (without_remover (rm_chan r) (ts_removers ts))) = ts_wg ts - 1"
    using length_without_remover [OF _ assms(2)] assms(1) by (simp add: ts_inv_def)
  moreover have "distinct (map rm_chan (without_remover (rm_chan r) (ts_removers ts)))"
    using assms(1) by (simp add: ts_inv_def without_remover_def distinct_map_filter)
  moreover have "c \<notin> ts_closed_chans ts \<and> (\<exists>q \<in> set (without_remover (rm_chan r) (ts_removers ts)). rm_chan q = c \<and> rm_tree q = i)"
    if "cs i = Some c" for i c
    using assms(1) assms(3) [OF that] by (fastforce simp: ts_inv_def without_remover_def)
  ultimately show ?thesis using assms(1,4) unfolding ts_inv_def by (auto simp: without_remover_def)
qed

lemma ts_step_inv: "ts_step e ts ts' \<Longrightarrow> ts_inv ts \<Longrightarrow> ts_inv ts'"
proof (induction rule: ts_step.induct)
  case (delete r ts)
  have "ts_inv (ts\<lparr>ts_cancellations := (ts_cancellations ts)(rm_tree r := None),
      ts_removers := without_remover (rm_chan r) (ts_removers ts), ts_wg := ts_wg ts - 1\<rparr>)"
    using delete cancelled_chan by (intro finished_inv) (auto split: if_splits)
  then show ?case by (simp add: delete_tree_def ts_inv_def)
next
  case (stop r ts)
  have "ts_inv (ts\<lparr>ts_cancellations := ts_cancellations ts, ts_removers := without_remover (rm_chan r) (ts_removers ts), ts_wg := ts_wg ts - 1\<rparr>)"
    using stop by (intro finished_inv) (auto simp: ts_inv_def)
  then show ?case by (simp add: stop_timer_def)
next
  case (close ts)
  then have "\<forall>c \<in> ran (ts_cancellations ts). c < ts_next ts" unfolding ts_inv_def ran_def by fastforce
  then show ?case using close by (auto simp: ts_inv_def ts_Close_def)
qed (auto simp: ts_Register_def ts_Unregister_def ts_inv_trees ts_getAndRefresh_def ts_Set_def Let_def cancelDeletion_inv
    ts_Remove_inv timer_fires_inv, simp add: ts_inv_def)

interpretation storage: invariant_system "\<lambda>ts. ts = newTreeStorage" "\<lambda>ts ts'. \<exists>e. ts_step e ts ts'" ts_inv
  by unfold_locales (auto intro: ts_inv_start ts_step_inv)


abbreviation ts_reachable :: "'p treeStorage \<Rightarrow> bool" where
  "ts_reachable \<equiv> reachable (\<lambda>ts. ts = newTreeStorage) (\<lambda>ts ts'. \<exists>e. ts_step e ts ts')"

section \<open>When a tree leaves the store\<close>

text \<open>Events that put something else under an id, or plan its removal.\<close>

fun touches :: "uuid \<Rightarrow> 'p ts_event \<Rightarrow> bool" where
  "touches i (EvRegister j) \<longleftrightarrow> i = j"
| "touches i (EvSet t) \<longleftrightarrow> i = ot_ID t"
| "touches i (EvRemove j) \<longleftrightarrow> i = j"
| "touches i _ \<longleftrightarrow> False"

definition quiet :: "uuid \<Rightarrow> 'p treeStorage \<Rightarrow> bool" where
  "quiet i ts \<longleftrightarrow> (\<forall>r \<in> set (ts_removers ts). rm_tree r \<noteq> i)"

lemma cancelDeletion_fields [simp]:
  "ts_trees (cancelDeletion i ts) = ts_trees ts" "ts_removers (cancelDeletion i ts) = ts_removers ts"
  by (simp_all add: cancelDeletion_def split: option.splits)

lemma quiet_step:
  "ts_step e ts ts' \<Longrightarrow> \<not> touches i e \<Longrightarrow> quiet i ts \<Longrightarrow> ts_Get i ts = Some t \<Longrightarrow> quiet i ts' \<and> ts_Get i ts' = Some t"
  by (induction rule: ts_step.induct)
    (auto simp: quiet_def ts_Get_def ts_Register_def ts_Unregister_def ts_getAndRefresh_def ts_Set_def Let_def ts_Remove_def
      timer_fires_alt delete_tree_def stop_timer_def ts_Close_def without_remover_def)

lemma quiet_run:
  "ts_run es ts ts' \<Longrightarrow> \<forall>e \<in> set es. \<not> touches i e \<Longrightarrow> quiet i ts \<Longrightarrow> ts_Get i ts = Some t \<Longrightarrow> ts_Get i ts' = Some t"
  by (induction rule: ts_run.induct) (auto dest: quiet_step)

lemma unquiet_deletes:
  assumes "r \<in> set (ts_removers ts)" and "rm_tree r = i" and "\<not> ts_holds ts"
  shows "\<exists>es ts'. ts_run es ts ts' \<and> (\<forall>e \<in> set es. \<not> touches i e) \<and> ts_Get i ts' = None"
proof (cases "rm_fired r")
  case True
  have "ts_run [EvDelete r] ts (delete_tree r ts)" using assms True by (intro ts_run_one ts_step.delete)
  then show ?thesis using assms(2) by (intro exI [of _ "[EvDelete r]"]) (auto simp: delete_tree_def ts_Get_def)
next
  case False
  let ?ts = "timer_fires r ts" and ?r = "fire_in r r"
  have "?r \<in> set (ts_removers ?ts)" "rm_fired ?r" using assms(1) by (auto simp: timer_fires_alt fire_in_def)
  then have "ts_run [EvFire r, EvDelete ?r] ts (delete_tree ?r ?ts)"
    using assms False by (intro ts_run.event [OF ts_step.fire] ts_run_one ts_step.delete) (simp_all add: timer_fires_def)
  then show ?thesis using assms(2) by (intro exI [of _ "[EvFire r, EvDelete ?r]"]) (auto simp: delete_tree_def ts_Get_def)
qed

text \<open>
  The method \<open>getAndRefresh\<close> does not always keep the tree it returns. After the refresh of a stored tree the
  tree can leave the store, with no later removal planned and nothing else stored under its id, exactly
  when a goroutine of an earlier \<open>Remove\<close> of that tree has not ended yet: cancelling closes its channel,
  but it may have taken the timer's case of its select already, or still take it. When there is none, the
  tree stays through every run.
\<close>

theorem refreshed_tree_vanishes_iff:
  fixes ts :: "'p treeStorage"
  assumes "ts_reachable ts" and "\<not> ts_holds ts" and "ts_getAndRefresh i ts = (Some t, ts')"
  shows "(\<exists>es ts''. ts_run es ts' ts'' \<and> (\<forall>e \<in> set es. \<not> touches i e) \<and> ts_Get i ts'' = None) \<longleftrightarrow>
    (\<exists>r \<in> set (ts_removers ts). rm_tree r = i)"
proof -
  have ts': "ts_removers ts' = ts_removers ts" "\<not> ts_holds ts'" "ts_Get i ts' = Some t"
    using assms(2,3) by (auto simp: ts_getAndRefresh_def Let_def)
  show ?thesis
  proof
    assume "\<exists>es ts''. ts_run es ts' ts'' \<and> (\<forall>e \<in> set es. \<not> touches i e) \<and> ts_Get i ts'' = None"
    then have "\<not> quiet i ts'" using quiet_run ts'(3) by fastforce
    then show "\<exists>r \<in> set (ts_removers ts). rm_tree r = i" unfolding quiet_def ts'(1) by blast
  next
    assume "\<exists>r \<in> set (ts_removers ts). rm_tree r = i"
    then show "\<exists>es ts''. ts_run es ts' ts'' \<and> (\<forall>e \<in> set es. \<not> touches i e) \<and> ts_Get i ts'' = None"
      using unquiet_deletes [OF _ _ ts'(2)] ts'(1) by metis
  qed
qed

definition sample_store :: "nat treeStorage" where
  "sample_store = ts_Remove 9 (ts_Set sample_tree newTreeStorage)"

lemma sample_store_reachable: "ts_reachable sample_store"
  unfolding sample_store_def
proof (rule next_step [OF next_step [OF at_start]])
  show "\<exists>e. ts_step e newTreeStorage (ts_Set sample_tree newTreeStorage)"
    using ts_step.set_tree [of newTreeStorage sample_tree] by (auto simp: newTreeStorage_def)
  have "\<not> ts_holds (ts_Set sample_tree newTreeStorage)" by (simp add: ts_Set_def newTreeStorage_def)
  then show "\<exists>e. ts_step e (ts_Set sample_tree newTreeStorage) (ts_Remove 9 (ts_Set sample_tree newTreeStorage))"
    using ts_step.remove by blast
qed simp

lemma sample_store_fields:
  "ts_removers sample_store = [\<lparr>rm_chan = 0, rm_tree = 9, rm_fired = False\<rparr>]" "\<not> ts_holds sample_store"
  "ts_Get 9 sample_store = Some sample_tree" "ts_cancellations sample_store = [9 \<mapsto> 0]"
  by (simp_all add: sample_store_def ts_Remove_def ts_Set_def newTreeStorage_def cancelDeletion_def ts_Get_def sample_tree_def)

lemma refreshed_tree_vanishes_iff_witness:
  "\<exists>es ts''. ts_run es (snd (ts_getAndRefresh 9 sample_store)) ts'' \<and> (\<forall>e \<in> set es. \<not> touches 9 e) \<and> ts_Get 9 ts'' = None"
proof -
  have "ts_getAndRefresh 9 sample_store = (Some sample_tree, snd (ts_getAndRefresh 9 sample_store))"
    using sample_store_fields by (simp add: ts_getAndRefresh_def Let_def ts_Get_def)
  from refreshed_tree_vanishes_iff [OF sample_store_reachable sample_store_fields(2) this] show ?thesis
    using sample_store_fields(1) by auto
qed

section \<open>Closing\<close>

text \<open>A goroutine that can no longer end while \<open>Close\<close> holds the lock.\<close>

definition lingers :: "'p treeStorage \<Rightarrow> remover \<Rightarrow> bool" where
  "lingers ts r \<longleftrightarrow> r \<in> set (ts_removers ts) \<and> (rm_fired r \<or> rm_chan r \<notin> ts_closed_chans ts)"

lemma lingers_step:
  assumes "ts_step e ts ts'" and "ts_inv ts" and "ts_holds ts" and "\<exists>r. lingers ts r"
  shows "ts_holds ts' \<and> (\<exists>r. lingers ts' r)"
  using assms
proof (induction rule: ts_step.induct)
  case (fire r ts)
  then obtain q where "lingers ts q" by blast
  then have "lingers (timer_fires r ts) (fire_in r q)"
    by (auto simp: lingers_def timer_fires_alt fire_in_def)
  then show ?case using fire(4) by (auto simp: timer_fires_def)
next
  case (stop r ts)
  then obtain q where q: "lingers ts q" by blast
  have "rm_chan q \<noteq> rm_chan r"
    using q stop remover_unique [OF ts_inv_distinct [OF stop(4)], of q r] by (auto simp: lingers_def)
  then have "lingers (stop_timer r ts) q" using q by (auto simp: lingers_def stop_timer_def without_remover_def)
  then show ?case using stop(5) by (auto simp: stop_timer_def)
next
  case (closed ts)
  then show ?case by (auto simp: ts_inv_def lingers_def)
qed auto

lemma lingers_run:
  "ts_run es ts ts' \<Longrightarrow> ts_inv ts \<Longrightarrow> ts_holds ts \<Longrightarrow> \<exists>r. lingers ts r \<Longrightarrow> ts_holds ts'"
  by (induction rule: ts_run.induct) (simp, meson lingers_step ts_step_inv)

lemma close_ends:
  "ts_inv ts \<Longrightarrow> ts_holds ts \<Longrightarrow> \<nexists>r. lingers ts r \<Longrightarrow> \<exists>es ts'. ts_run es ts ts' \<and> \<not> ts_holds ts'"
proof (induction "length (ts_removers ts)" arbitrary: ts)
  case 0
  then have "ts_step EvClosed ts (ts\<lparr>ts_holds := False\<rparr>)" by (intro ts_step.closed) (simp_all add: ts_inv_def)
  then have "ts_run [EvClosed] ts (ts\<lparr>ts_holds := False\<rparr>)" by (rule ts_run_one)
  then show ?case by fastforce
next
  case (Suc n)
  then obtain r rs where rs: "ts_removers ts = r # rs" by (cases "ts_removers ts") auto
  then have r: "r \<in> set (ts_removers ts)" "\<not> rm_fired r" "rm_chan r \<in> ts_closed_chans ts"
    using Suc.prems(3) by (auto simp: lingers_def)
  then have step: "ts_step (EvStop r) ts (stop_timer r ts)" by (rule ts_step.stop)
  have "int (length (ts_removers (stop_timer r ts))) = int (length (ts_removers ts)) - 1"
    using length_without_remover [OF ts_inv_distinct [OF Suc.prems(1)] r(1)] by (simp add: stop_timer_def)
  then have "n = length (ts_removers (stop_timer r ts))" using Suc.hyps(2) by simp
  moreover have "\<nexists>q. lingers (stop_timer r ts) q"
    using Suc.prems(3) by (auto simp: lingers_def stop_timer_def without_remover_def)
  moreover have "ts_holds (stop_timer r ts)" using Suc.prems(2) by (simp add: stop_timer_def)
  ultimately obtain es ts' where "ts_run es (stop_timer r ts) ts'" "\<not> ts_holds ts'"
    using Suc.hyps(1) ts_step_inv [OF step Suc.prems(1)] by blast
  then show ?case using step ts_run.event by blast
qed

text \<open>
  C16: \<open>Close\<close> can return exactly when every goroutine of a \<open>Remove\<close> that has not ended is still in its
  select and either cancelled already or the one that \<open>Close\<close> cancels. \<open>Close\<close> waits for the goroutines
  with the lock held, so a goroutine whose timer has fired and that waits for the lock, or one whose
  entry an earlier deletion of the same tree has dropped, keeps it from ever returning.
\<close>

theorem close_can_end_iff:
  fixes ts :: "'p treeStorage"
  assumes "ts_reachable ts" and "\<not> ts_holds ts"
  shows "(\<exists>es ts'. ts_run es (ts_Close ts) ts' \<and> \<not> ts_holds ts') \<longleftrightarrow>
    (\<forall>r \<in> set (ts_removers ts). \<not> rm_fired r \<and>
       (rm_chan r \<in> ts_closed_chans ts \<or> ts_cancellations ts (rm_tree r) = Some (rm_chan r)))"
proof -
  have inv0: "ts_inv ts" by (rule storage.reachable_inv [OF assms(1)])
  have inv: "ts_inv (ts_Close ts)" and holds: "ts_holds (ts_Close ts)"
    using ts_step_inv [OF ts_step.close [OF assms(2)] inv0] by (simp_all add: ts_Close_def)
  have ran: "rm_chan r \<in> ran (ts_cancellations ts) \<longleftrightarrow> ts_cancellations ts (rm_tree r) = Some (rm_chan r)"
    if "r \<in> set (ts_removers ts)" for r
  proof
    assume "rm_chan r \<in> ran (ts_cancellations ts)"
    then obtain i where i: "ts_cancellations ts i = Some (rm_chan r)" by (auto simp: ran_def)
    then have "i = rm_tree r" using cancelled_chan [OF inv0 _ that] by blast
    then show "ts_cancellations ts (rm_tree r) = Some (rm_chan r)" using i by simp
  qed (auto simp: ran_def)
  have "(\<exists>es ts'. ts_run es (ts_Close ts) ts' \<and> \<not> ts_holds ts') \<longleftrightarrow> (\<nexists>r. lingers (ts_Close ts) r)"
    using close_ends [OF inv holds] lingers_run [OF _ inv holds] by blast
  also have "\<dots> \<longleftrightarrow> (\<forall>r \<in> set (ts_removers ts). \<not> rm_fired r \<and>
       (rm_chan r \<in> ts_closed_chans ts \<or> ts_cancellations ts (rm_tree r) = Some (rm_chan r)))"
    using ran by (auto simp: lingers_def ts_Close_def)
  finally show ?thesis .
qed

lemma close_can_end_iff_witness:
  "\<exists>es ts'. ts_run es (ts_Close sample_store) ts' \<and> \<not> ts_holds ts'"
  using close_can_end_iff [OF sample_store_reachable sample_store_fields(2)] sample_store_fields by simp

end
