(* ===== verification/OnetOverlay.thy ===== *)
theory OnetOverlay
  imports OnetStorage OnetNode "HOL-Library.AList" "HOL-Library.Multiset"
begin

text \<open>
  The overlay of a server (\<open>onet/overlay.go\<close>): it keeps the instances of protocols, hands them their
  messages, asks other servers for trees it does not know, and keeps messages until their tree is
  there. Marshalling to bytes is outside: a packet is what \<open>Wrap\<close> makes, before its encoding.
\<close>

section \<open>State\<close>

datatype ('p, 'm) packet =
    RequestTree uuid u32
  | ResponseTree "TreeMarshal option" "'p ORoster option"
  | SendTree TreeMarshal
  | RequestRoster uuid
  | SendRoster "'p ORoster"
  | ConfigMsg GenericConfig uuid
  | ProtoPacket "('p, 'm) ProtocolMsg"

text \<open>\<open>ov_treeLocked\<close> is \<open>pendingTreeLock\<close>, when it was left locked.\<close>

record ('p, 'm) Overlay =
  ov_store :: "'p treeStorage"
  ov_instances :: "(uuid \<times> ('p, 'm) TreeNodeInstance) list"
  ov_done :: "uuid \<Rightarrow> bool"
  ov_protos :: "uuid \<Rightarrow> bool"
  ov_pendingTree :: "uuid \<rightharpoonup> TreeMarshal list"
  ov_treeLocked :: bool
  ov_pendingMsg :: "('p, 'm) ProtocolMsg list"
  ov_pendingConfigs :: "uuid \<rightharpoonup> GenericConfig"
  ov_sent :: "('p ServerIdentity option \<times> ('p, 'm) packet) list"

definition NewOverlay :: "('p, 'm) Overlay" where
  "NewOverlay = \<lparr>ov_store = newTreeStorage, ov_instances = [], ov_done = (\<lambda>_. False), ov_protos = (\<lambda>_. False),
     ov_pendingTree = Map.empty, ov_treeLocked = False, ov_pendingMsg = [], ov_pendingConfigs = Map.empty, ov_sent = []\<rparr>"

definition ov_send :: "'p ServerIdentity option \<Rightarrow> ('p, 'm) packet \<Rightarrow> ('p, 'm) Overlay \<Rightarrow> ('p, 'm) Overlay" where
  "ov_send si pkt o' = o'\<lparr>ov_sent := ov_sent o' @ [(si, pkt)]\<rparr>"

section \<open>Instances\<close>

text \<open>A node of the tree with its parent: the last one of the traversal with the id.\<close>

fun visit_parents :: "'p onode option \<Rightarrow> 'p onode \<Rightarrow> ('p onode option \<times> 'p onode) list" where
  "visit_parents par (ONode i s k cs) = (par, ONode i s k cs) # concat (map (visit_parents (Some (ONode i s k cs))) cs)"

definition TreeNodeFromTree :: "'p OTree \<Rightarrow> uuid \<Rightarrow> string + ('p onode option \<times> 'p onode)" where
  "TreeNodeFromTree t i =
    (case foldl (\<lambda>ret (par, tn). if tn_ID tn = i then Some (par, tn) else ret) None (visit_parents None (ot_Root t)) of
       None \<Rightarrow> Inl ''didn't find treenode'' | Some r \<Rightarrow> Inr r)"

definition TreeNodeFromToken :: "Token option \<Rightarrow> ('p, 'm) Overlay \<Rightarrow> string + ('p onode option \<times> 'p onode)" where
  "TreeNodeFromToken tok o' =
    (case tok of
       None \<Rightarrow> Inl ''didn't find tree-node: No token given''
     | Some t \<Rightarrow> (case ts_Get (tok_Tree t) (ov_store o') of
         None \<Rightarrow> Inl ''didn't find tree'' | Some tr \<Rightarrow> TreeNodeFromTree tr (tok_Node t)))"

definition newTreeNodeInstanceFromToken :: "'p crypto \<Rightarrow> 'p onode option \<times> 'p onode \<Rightarrow> Token \<Rightarrow> ('p, 'm) Overlay \<Rightarrow> ('p, 'm) Overlay" where
  "newTreeNodeInstanceFromToken c ptn tok o' =
    o'\<lparr>ov_instances := AList.update (Token_ID c tok) (newTreeNodeInstance tok (snd ptn) (fst ptn)) (ov_instances o')\<rparr>"

definition RegisterProtocolInstance :: "'p crypto \<Rightarrow> Token \<Rightarrow> ('p, 'm) Overlay \<Rightarrow> string option \<times> ('p, 'm) Overlay" where
  "RegisterProtocolInstance c tok o' =
    (let i = Token_ID c tok in
     case map_of (ov_instances o') i of
       None \<Rightarrow> (Some ''This TreeNodeInstance doesn't exist'', o')
     | Some tni \<Rightarrow>
         if n_bound tni then (Some ''a ProtocolInstance already has been registered'', o')
         else (None, o'\<lparr>ov_instances := AList.update i (tni\<lparr>n_bound := True\<rparr>) (ov_instances o'), ov_protos := (ov_protos o')(i := True)\<rparr>))"

definition cleanTreeStorage :: "Token \<Rightarrow> ('p, 'm) Overlay \<Rightarrow> ('p, 'm) Overlay" where
  "cleanTreeStorage tok o' =
    (if \<exists>(i, inst) \<in> set (ov_instances o'). tok_Tree (n_token inst) = tok_Tree tok then o'
     else o'\<lparr>ov_store := ts_Remove (tok_Tree tok) (ov_store o')\<rparr>)"

text \<open>Closing an instance ends its goroutine; what its \<open>Shutdown\<close> returns is only logged.\<close>

definition nodeDelete :: "'p crypto \<Rightarrow> Token \<Rightarrow> ('p, 'm) Overlay \<Rightarrow> ('p, 'm) Overlay" where
  "nodeDelete c tok o' =
    (let i = Token_ID c tok in
     case map_of (ov_instances o') i of
       None \<Rightarrow> o'
     | Some tni \<Rightarrow>
         let o1 = cleanTreeStorage tok (o'\<lparr>ov_protos := (ov_protos o')(i := False), ov_instances := AList.delete i (ov_instances o')\<rparr>)
         in o1\<lparr>ov_done := (ov_done o1)(i := True)\<rparr>)"

definition nodeDone :: "'p crypto \<Rightarrow> Token \<Rightarrow> ('p, 'm) Overlay \<Rightarrow> ('p, 'm) Overlay" where
  "nodeDone c tok o' = nodeDelete c tok o'"

definition Overlay_Close :: "'p crypto \<Rightarrow> ('p, 'm) Overlay \<Rightarrow> ('p, 'm) Overlay" where
  "Overlay_Close c o' =
    (let o1 = foldl (\<lambda>o1 (i, tni). nodeDelete c (n_token tni) o1) o' (ov_instances o')
     in o1\<lparr>ov_store := ts_Close (ov_store o1)\<rparr>)"

section \<open>Configs and pending messages\<close>

definition handleConfigMessage :: "GenericConfig \<Rightarrow> uuid \<Rightarrow> ('p, 'm) Overlay \<Rightarrow> ('p, 'm) Overlay" where
  "handleConfigMessage conf dest o' = o'\<lparr>ov_pendingConfigs := (ov_pendingConfigs o')(dest \<mapsto> conf)\<rparr>"

definition getConfig :: "uuid \<Rightarrow> ('p, 'm) Overlay \<Rightarrow> GenericConfig option \<times> ('p, 'm) Overlay" where
  "getConfig i o' = (ov_pendingConfigs o' i, o'\<lparr>ov_pendingConfigs := (ov_pendingConfigs o')(i := None)\<rparr>)"

definition savePendingMsg :: "('p, 'm) ProtocolMsg \<Rightarrow> ('p, 'm) Overlay \<Rightarrow> ('p, 'm) Overlay" where
  "savePendingMsg msg o' = o'\<lparr>ov_pendingMsg := ov_pendingMsg o' @ [msg]\<rparr>"

text \<open>The section of \<open>checkPendingMessages\<close> under the lock: the messages of the tree leave the list.\<close>

definition for_tree :: "uuid \<Rightarrow> ('p, 'm) ProtocolMsg \<Rightarrow> bool" where
  "for_tree i msg \<longleftrightarrow> (case pm_To msg of None \<Rightarrow> False | Some tok \<Rightarrow> tok_Tree tok = i)"

definition take_pending :: "'p OTree \<Rightarrow> ('p, 'm) Overlay \<Rightarrow> ('p, 'm) ProtocolMsg list \<times> ('p, 'm) Overlay" where
  "take_pending t o' =
    (filter (for_tree (ot_ID t)) (ov_pendingMsg o'), o'\<lparr>ov_pendingMsg := filter (\<lambda>m. \<not> for_tree (ot_ID t) m) (ov_pendingMsg o')\<rparr>)"

text \<open>\<open>RegisterTree\<close> up to the goroutine it starts.\<close>

definition RegisterTree :: "'p OTree \<Rightarrow> ('p, 'm) Overlay \<Rightarrow> ('p, 'm) Overlay" where
  "RegisterTree t o' = o'\<lparr>ov_store := ts_Set t (ov_store o')\<rparr>"

section \<open>TransmitMsg under its mutex\<close>

text \<open>What the service manager's \<open>newProtocol\<close> returns, and what becomes of the message.\<close>

datatype new_protocol = NewError | NewNil | NewInstance

datatype ('p, 'm) fate = Delivered uuid | Dropped string

definition deliver :: "uuid \<Rightarrow> ('p, 'm) ProtocolMsg \<Rightarrow> ('p, 'm) Overlay \<Rightarrow> ('p, 'm) Overlay" where
  "deliver i msg o' =
    (case map_of (ov_instances o') i of
       None \<Rightarrow> o'
     | Some tni \<Rightarrow> o'\<lparr>ov_instances := AList.update i (ProcessProtocolMsg msg tni) (ov_instances o')\<rparr>)"

definition set_config :: "uuid \<Rightarrow> GenericConfig option \<Rightarrow> ('p, 'm) Overlay \<Rightarrow> ('p, 'm) Overlay" where
  "set_config i conf o' =
    (case map_of (ov_instances o') i of
       None \<Rightarrow> o'
     | Some tni \<Rightarrow> o'\<lparr>ov_instances := AList.update i (tni\<lparr>n_config := conf\<rparr>) (ov_instances o')\<rparr>)"

definition transmit_locked :: "'p crypto \<Rightarrow> new_protocol \<Rightarrow> 'p OTree \<Rightarrow> Token \<Rightarrow> ('p, 'm) ProtocolMsg \<Rightarrow> ('p, 'm) Overlay \<Rightarrow>
    ('p, 'm) fate \<times> ('p, 'm) Overlay" where
  "transmit_locked c np tree tok msg o' =
    (let i = Token_ID c tok in
     if ov_done o' i then (Dropped ''already finished'', o')
     else if ov_protos o' i then (Delivered i, deliver i msg o')
     else case TreeNodeFromTree tree (tok_Node tok) of
       Inl e \<Rightarrow> (Dropped ''No TreeNode defined in this tree here'', o')
     | Inr ptn \<Rightarrow>
        let o1 = newTreeNodeInstanceFromToken c ptn tok o';
            (pending, o2) = getConfig i o1;
            conf = (if pending = None then pm_Config msg else pending);
            o3 = set_config i conf o2
        in case np of
          NewError \<Rightarrow> (Dropped ''creating protocol'', nodeDelete c tok o3)
        | NewNil \<Rightarrow> (Dropped ''no protocol'', o3)
        | NewInstance \<Rightarrow>
            (case RegisterProtocolInstance c tok o3 of
               (Some e, o4) \<Rightarrow> (Dropped ''Error Binding TreeNodeInstance and ProtocolInstance'', o4)
             | (None, o4) \<Rightarrow> (Delivered i, deliver i msg o4)))"

section \<open>Handlers of the overlay's own messages\<close>

definition handleRequestTree :: "'p ServerIdentity option \<Rightarrow> uuid \<Rightarrow> u32 \<Rightarrow> ('p, 'm) Overlay \<Rightarrow> ('p, 'm) Overlay" where
  "handleRequestTree si i version o' =
    (case ts_Get i (ov_store o') of
       None \<Rightarrow> o'
     | Some t \<Rightarrow>
         let treeM = MakeTreeMarshal t in
         if version = 0 then ov_send si (SendTree treeM) o'
         else ov_send si (ResponseTree (Some treeM) (ot_Roster t)) o')"

definition handleSendTree :: "'p crypto \<Rightarrow> TreeMarshal option \<Rightarrow> 'p ORoster option \<Rightarrow> ('p, 'm) Overlay \<Rightarrow> fault + 'p OTree option \<times> ('p, 'm) Overlay" where
  "handleSendTree c tm ro o' =
    (case tm of
       None \<Rightarrow> Inr (None, o')
     | Some m \<Rightarrow>
         if tm_TreeID m = 0 then Inr (None, o')
         else case ro of
           None \<Rightarrow> Inr (None, o')
         | Some r \<Rightarrow>
             if \<not> ts_IsRegistered (tm_TreeID m) (ov_store o') then Inr (None, o')
             else case MakeTree c r m of
               Inl (ErrRet e) \<Rightarrow> Inr (None, o')
             | Inl f \<Rightarrow> Inl f
             | Inr tree \<Rightarrow> Inr (Some tree, RegisterTree tree o'))"

text \<open>The lock of the pending trees is not given back when there is none for the roster.\<close>

definition addPendingTreeMarshal :: "TreeMarshal \<Rightarrow> ('p, 'm) Overlay \<Rightarrow> fault + ('p, 'm) Overlay" where
  "addPendingTreeMarshal tm o' =
    (if ov_treeLocked o' then Inl Loops
     else Inr (o'\<lparr>ov_pendingTree := (ov_pendingTree o')(tm_RosterID tm \<mapsto>
       (case ov_pendingTree o' (tm_RosterID tm) of None \<Rightarrow> [] | Some sl \<Rightarrow> sl) @ [tm])\<rparr>))"

fun make_pending :: "'p crypto \<Rightarrow> 'p ORoster \<Rightarrow> TreeMarshal list \<Rightarrow> ('p, 'm) Overlay \<Rightarrow> fault + 'p OTree list \<times> ('p, 'm) Overlay" where
  "make_pending c el [] o' = Inr ([], o')"
| "make_pending c el (tm # tms) o' =
    (case MakeTree c el tm of
       Inl (ErrRet e) \<Rightarrow> make_pending c el tms o'
     | Inl f \<Rightarrow> Inl f
     | Inr tree \<Rightarrow> bindR (make_pending c el tms (RegisterTree tree o')) (\<lambda>(ts, o2). Inr (tree # ts, o2)))"

definition checkPendingTreeMarshal :: "'p crypto \<Rightarrow> 'p ORoster \<Rightarrow> ('p, 'm) Overlay \<Rightarrow> fault + 'p OTree list \<times> ('p, 'm) Overlay" where
  "checkPendingTreeMarshal c el o' =
    (if ov_treeLocked o' then Inl Loops
     else case ov_pendingTree o' (ro_ID el) of
       None \<Rightarrow> Inr ([], o'\<lparr>ov_treeLocked := True\<rparr>)
     | Some sl \<Rightarrow> make_pending c el sl o')"

definition handleSendRoster :: "'p crypto \<Rightarrow> 'p ORoster \<Rightarrow> ('p, 'm) Overlay \<Rightarrow> fault + 'p OTree list \<times> ('p, 'm) Overlay" where
  "handleSendRoster c ro o' = (if ro_ID ro = 0 then Inr ([], o') else checkPendingTreeMarshal c ro o')"

text \<open>The roster of an instance of the tree; \<open>Roster()\<close> of an instance without its tree panics.\<close>

fun instance_roster :: "uuid \<Rightarrow> (uuid \<times> ('p, 'm) TreeNodeInstance) list \<Rightarrow> 'p treeStorage \<Rightarrow> 'p ORoster option \<Rightarrow> fault + 'p ORoster option" where
  "instance_roster rid [] ts ro = Inr ro"
| "instance_roster rid ((i, inst) # is) ts ro =
     bindR (tni_Tree (ts_Get (tok_Tree (n_token inst)) ts)) (\<lambda>t. bindR (nonnil (ot_Roster t)) (\<lambda>r.
       instance_roster rid is ts (if ro_ID r = rid then Some r else ro)))"

definition handleSendTreeMarshal :: "'p crypto \<Rightarrow> 'p ServerIdentity option \<Rightarrow> TreeMarshal \<Rightarrow> ('p, 'm) Overlay \<Rightarrow> fault + 'p OTree option \<times> ('p, 'm) Overlay" where
  "handleSendTreeMarshal c si tm o' =
    (if tm_TreeID tm = 0 then Inr (None, o')
     else if \<not> ts_IsRegistered (tm_TreeID tm) (ov_store o') then Inr (None, o')
     else bindR (instance_roster (tm_RosterID tm) (ov_instances o') (ov_store o') None) (\<lambda>ro.
       case ro of
         None \<Rightarrow> bindR (addPendingTreeMarshal tm (ov_send si (RequestRoster (tm_RosterID tm)) o')) (\<lambda>o2. Inr (None, o2))
       | Some r \<Rightarrow> handleSendTree c (Some tm) (Some r) o'))"

definition handleRequestRoster :: "uuid list \<Rightarrow> 'p ServerIdentity option \<Rightarrow> uuid \<Rightarrow> ('p, 'm) Overlay \<Rightarrow> fault + ('p, 'm) Overlay" where
  "handleRequestRoster order si rid o' =
     bindR (ts_GetRoster order rid (ov_store o')) (\<lambda>ro.
       Inr (ov_send si (SendRoster (case ro of None \<Rightarrow> \<lparr>ro_ID = 0, ro_List = [], ro_Aggregate = None\<rparr> | Some r \<Rightarrow> r)) o'))"

section \<open>Sending to a node and starting protocols\<close>

text \<open>The config goes ahead in a message of its own, and once more with the message.\<close>

definition SendToTreeNode :: "'p crypto \<Rightarrow> Token \<Rightarrow> 'p onode \<Rightarrow> uuid \<Rightarrow> 'm \<Rightarrow> GenericConfig option \<Rightarrow> ('p, 'm) Overlay \<Rightarrow> ('p, 'm) Overlay" where
  "SendToTreeNode c from to mt msg conf o' =
    (let tokenTo = ChangeTreeNodeID (tn_ID to) from;
         final = ProtoPacket \<lparr>pm_From = Some from, pm_To = Some tokenTo, pm_Server = None, pm_MsgType = mt, pm_Msg = msg, pm_Size = 0, pm_Config = conf\<rparr>
     in case conf of
          None \<Rightarrow> ov_send (Some (tn_Server to)) final o'
        | Some g \<Rightarrow> ov_send (Some (tn_Server to)) final (ov_send (Some (tn_Server to)) (ConfigMsg g (Token_ID c tokenTo)) o'))"

text \<open>\<open>roundId\<close> is the fresh random id of the run.\<close>

definition NewTreeNodeInstanceFromService :: "'p crypto \<Rightarrow> 'p OTree \<Rightarrow> uuid \<Rightarrow> uuid \<Rightarrow> uuid \<Rightarrow> ('p, 'm) Overlay \<Rightarrow> fault + Token \<times> ('p, 'm) Overlay" where
  "NewTreeNodeInstanceFromService c t protoID servID roundId o' =
     bindR (nonnil (ot_Roster t)) (\<lambda>ro.
     let tok = \<lparr>tok_Roster = ro_ID ro, tok_Tree = ot_ID t, tok_Proto = protoID, tok_Service = servID, tok_Round = roundId, tok_Node = tn_ID (ot_Root t)\<rparr>
     in Inr (tok, RegisterTree t (newTreeNodeInstanceFromToken c (None, ot_Root t) tok o')))"

definition NewTreeNodeInstanceFromProtocol :: "'p crypto \<Rightarrow> 'p OTree \<Rightarrow> uuid \<Rightarrow> uuid \<Rightarrow> ('p, 'm) Overlay \<Rightarrow> fault + Token \<times> ('p, 'm) Overlay" where
  "NewTreeNodeInstanceFromProtocol c t protoID roundId o' = NewTreeNodeInstanceFromService c t protoID 0 roundId o'"

text \<open>\<open>ok\<close> is whether the protocol could be instantiated.\<close>

definition CreateProtocol :: "'p crypto \<Rightarrow> bool \<Rightarrow> 'p OTree \<Rightarrow> uuid \<Rightarrow> uuid \<Rightarrow> uuid \<Rightarrow> ('p, 'm) Overlay \<Rightarrow> fault + (string option \<times> Token) \<times> ('p, 'm) Overlay" where
  "CreateProtocol c ok t protoID sid roundId o' =
     bindR (NewTreeNodeInstanceFromService c t protoID sid roundId o') (\<lambda>(tok, o1).
       if \<not> ok then Inr ((Some ''instantiating protocol'', tok), o1)
       else case RegisterProtocolInstance c tok o1 of
         (Some e, o2) \<Rightarrow> Inr ((Some ''registering protocol instance'', tok), o2)
       | (None, o2) \<Rightarrow> Inr ((None, tok), o2))"

end
