(* ===== verification/OnetOverlayRun.thy ===== *)
theory OnetOverlayRun
  imports OnetOverlay
begin

text \<open>
  The overlay at work: every call of \<open>TransmitMsg\<close> and every \<open>checkPendingMessages\<close> is a goroutine, and
  a step is one section under a lock. The section under \<open>transmitMux\<close> is one step.
\<close>

section \<open>Goroutines\<close>

text \<open>
  Where \<open>TransmitMsg\<close> is: before it looks up the tree, with a nil tree, in the parts of \<open>requestTree\<close>,
  with a tree, or between two messages of the loop of \<open>checkPendingMessages\<close>.
\<close>

datatype ('p, 'm) go =
    GTransmit "('p, 'm) ProtocolMsg"
  | GSave "('p, 'm) ProtocolMsg"
  | GAsk uuid "'p ServerIdentity option"
  | GRegister uuid "'p ServerIdentity option"
  | GSend uuid "'p ServerIdentity option"
  | GUnregister uuid
  | GLocked "'p OTree" "('p, 'm) ProtocolMsg"
  | GCheck "'p OTree"
  | GNext

type_synonym ('p, 'm) goroutine = "('p, 'm) go \<times> ('p, 'm) ProtocolMsg list"

definition with_store :: "('p treeStorage \<Rightarrow> 'p treeStorage) \<Rightarrow> ('p, 'm) Overlay \<Rightarrow> ('p, 'm) Overlay" where
  "with_store f ov = ov\<lparr>ov_store := f (ov_store ov)\<rparr>"

text \<open>
  A step of a goroutine: what it becomes, the overlay after it, what became of the message it had, and
  the instance it created, if any. A message without a token for its receiver ends the process.
\<close>

inductive go_step :: "'p crypto \<Rightarrow> ('p, 'm) goroutine \<Rightarrow> ('p, 'm) Overlay \<Rightarrow> ('p, 'm) goroutine list \<Rightarrow> ('p, 'm) Overlay \<Rightarrow>
    (('p, 'm) fate \<times> ('p, 'm) ProtocolMsg) list \<Rightarrow> uuid list \<Rightarrow> bool" for c :: "'p crypto" where
  found: "pm_To msg = Some tok \<Longrightarrow> ts_getAndRefresh (tok_Tree tok) (ov_store ov) = (Some t, ts) \<Longrightarrow>
    go_step c (GTransmit msg, rest) ov [(GLocked t msg, rest)] (ov\<lparr>ov_store := ts\<rparr>) [] []"
| missing: "pm_To msg = Some tok \<Longrightarrow> ts_getAndRefresh (tok_Tree tok) (ov_store ov) = (None, ts) \<Longrightarrow>
    go_step c (GTransmit msg, rest) ov [(GSave msg, rest)] (ov\<lparr>ov_store := ts\<rparr>) [] []"
| save: "pm_To msg = Some tok \<Longrightarrow>
    go_step c (GSave msg, rest) ov [(GAsk (tok_Tree tok) (pm_Server msg), rest)] (savePendingMsg msg ov) [] []"
| known: "ts_IsRegistered i (ov_store ov) \<Longrightarrow> go_step c (GAsk i si, rest) ov [(GNext, rest)] ov [] []"
| unknown: "\<not> ts_IsRegistered i (ov_store ov) \<Longrightarrow> go_step c (GAsk i si, rest) ov [(GRegister i si, rest)] ov [] []"
| register: "go_step c (GRegister i si, rest) ov [(GSend i si, rest)] (with_store (ts_Register i) ov) [] []"
| sent: "go_step c (GSend i si, rest) ov [(GNext, rest)] (ov_send si (RequestTree i 1) ov) [] []"
| failed: "go_step c (GSend i si, rest) ov [(GUnregister i, rest)] ov [] []"
| unregister: "go_step c (GUnregister i, rest) ov [(GNext, rest)] (with_store (ts_Unregister i) ov) [] []"
| locked: "pm_To msg = Some tok \<Longrightarrow> transmit_locked c np t tok msg ov = (fate, ov') \<Longrightarrow>
    go_step c (GLocked t msg, rest) ov [(GNext, rest)] ov' [(fate, msg)]
      (if fate = Delivered (Token_ID c tok) \<and> \<not> ov_protos ov (Token_ID c tok) then [Token_ID c tok] else [])"
| check: "take_pending t ov = (msgs, ov') \<Longrightarrow> go_step c (GCheck t, rest) ov [(GNext, msgs @ rest)] ov' [] []"
| next_msg: "go_step c (GNext, msg # rest) ov [(GTransmit msg, rest)] ov [] []"
| ended: "go_step c (GNext, []) ov [] ov [] []"

inductive_cases go_stepE: "go_step c g ov gs ov' outs made"

section \<open>The system\<close>

record ('p, 'm) ov_sys =
  os_ov :: "('p, 'm) Overlay"
  os_gos :: "('p, 'm) goroutine list"
  os_entered :: "('p, 'm) ProtocolMsg list"
  os_fates :: "(('p, 'm) fate \<times> ('p, 'm) ProtocolMsg) list"
  os_created :: "uuid list"
  os_taken :: "(uuid \<times> ('p, 'm) ProtocolMsg) list"

definition ov_start :: "('p, 'm) ov_sys" where
  "ov_start = \<lparr>os_ov = NewOverlay, os_gos = [], os_entered = [], os_fates = [], os_created = [], os_taken = []\<rparr>"

text \<open>What happens: a tree is registered, a goroutine takes a step, or anything else.\<close>

datatype ov_label = LTrees "uuid list" | LGo | LOther

definition registered :: "'p OTree list \<Rightarrow> ('p, 'm) Overlay \<Rightarrow> ('p, 'm) ov_sys \<Rightarrow> ('p, 'm) ov_sys" where
  "registered ts ov s = s\<lparr>os_ov := ov, os_gos := os_gos s @ map (\<lambda>t. (GCheck t, [])) ts\<rparr>"

definition one_tree :: "'a option \<Rightarrow> 'a list" where
  "one_tree r = (case r of None \<Rightarrow> [] | Some t \<Rightarrow> [t])"

fun of_goroutine :: "'p ts_event \<Rightarrow> bool" where
  "of_goroutine (EvFire r) = True"
| "of_goroutine (EvDelete r) = True"
| "of_goroutine (EvStop r) = True"
| "of_goroutine _ = False"

text \<open>
  The id of a run started here is random: its token is taken to be new. The reader of an instance takes
  the first message of its queue, which \<open>os_taken\<close> records; any other step of an instance leaves its
  token, its binding and its queue, and only the overlay closes it.
\<close>

inductive ov_step :: "'p crypto \<Rightarrow> ov_label \<Rightarrow> ('p, 'm) ov_sys \<Rightarrow> ('p, 'm) ov_sys \<Rightarrow> bool" for c :: "'p crypto" where
  arrive: "ov_step c LOther s (s\<lparr>os_gos := os_gos s @ [(GTransmit msg, [])], os_entered := os_entered s @ [msg]\<rparr>)"
| goroutine: "os_gos s = A @ g # B \<Longrightarrow> go_step c g (os_ov s) gs ov' outs made \<Longrightarrow>
    ov_step c LGo s (s\<lparr>os_ov := ov', os_gos := A @ gs @ B, os_fates := os_fates s @ outs, os_created := os_created s @ made\<rparr>)"
| tree_sent: "handleSendTree c tm ro (os_ov s) = Inr (r, ov') \<Longrightarrow>
    ov_step c (LTrees (map ot_ID (one_tree r))) s (registered (one_tree r) ov' s)"
| marshal_sent: "handleSendTreeMarshal c si m (os_ov s) = Inr (r, ov') \<Longrightarrow>
    ov_step c (LTrees (map ot_ID (one_tree r))) s (registered (one_tree r) ov' s)"
| roster_sent: "handleSendRoster c el (os_ov s) = Inr (ts, ov') \<Longrightarrow> ov_step c (LTrees (map ot_ID ts)) s (registered ts ov' s)"
| tree_local: "ov_step c (LTrees [ot_ID t]) s (registered [t] (RegisterTree t (os_ov s)) s)"
| create: "CreateProtocol c ok t protoID sid roundId (os_ov s) = Inr ((err, tok), ov') \<Longrightarrow>
    Token_ID c tok \<notin> set (os_created s) \<Longrightarrow>
    ov_step c (LTrees [ot_ID t]) s ((registered [t] ov' s)\<lparr>os_created := os_created s @ (if err = None then [Token_ID c tok] else [])\<rparr>)"
| node_done: "ov_step c LOther s (s\<lparr>os_ov := nodeDone c tok (os_ov s)\<rparr>)"
| config: "ov_step c LOther s (s\<lparr>os_ov := handleConfigMessage conf dest (os_ov s)\<rparr>)"
| request: "ov_step c LOther s (s\<lparr>os_ov := handleRequestTree si i version (os_ov s)\<rparr>)"
| ask_roster: "handleRequestRoster order si rid (os_ov s) = Inr ov' \<Longrightarrow> ov_step c LOther s (s\<lparr>os_ov := ov'\<rparr>)"
| storage: "ts_step e (ov_store (os_ov s)) ts \<Longrightarrow> of_goroutine e \<Longrightarrow> ov_step c LOther s (s\<lparr>os_ov := (os_ov s)\<lparr>ov_store := ts\<rparr>\<rparr>)"
| instance_takes: "map_of (ov_instances (os_ov s)) i = Some tni \<Longrightarrow> reader_top tni = (InHand msg, tni') \<Longrightarrow>
    ov_step c LOther s (s\<lparr>os_ov := (os_ov s)\<lparr>ov_instances := AList.update i tni' (ov_instances (os_ov s))\<rparr>, os_taken := os_taken s @ [(i, msg)]\<rparr>)"
| instance_step: "map_of (ov_instances (os_ov s)) i = Some tni \<Longrightarrow> n_token tni' = n_token tni \<Longrightarrow> n_bound tni' = n_bound tni \<Longrightarrow>
    n_dispatchQueue tni' = n_dispatchQueue tni \<Longrightarrow> n_closing tni' = n_closing tni \<Longrightarrow>
    ov_step c LOther s (s\<lparr>os_ov := (os_ov s)\<lparr>ov_instances := AList.update i tni' (ov_instances (os_ov s))\<rparr>\<rparr>)"

abbreviation ov_reachable :: "'p crypto \<Rightarrow> ('p, 'm) ov_sys \<Rightarrow> bool" where
  "ov_reachable c \<equiv> reachable (\<lambda>s. s = ov_start) (\<lambda>s s'. \<exists>l. ov_step c l s s')"

section \<open>Where messages are\<close>

fun go_holds :: "('p, 'm) go \<Rightarrow> ('p, 'm) ProtocolMsg list" where
  "go_holds (GTransmit m) = [m]"
| "go_holds (GSave m) = [m]"
| "go_holds (GLocked t m) = [m]"
| "go_holds _ = []"

definition gos_hold :: "('p, 'm) goroutine list \<Rightarrow> ('p, 'm) ProtocolMsg list" where
  "gos_hold gs = concat (map (\<lambda>(g, rest). go_holds g @ rest) gs)"

lemma gos_hold_simps [simp]:
  "gos_hold [] = []" "gos_hold ((g, rest) # gs) = go_holds g @ rest @ gos_hold gs" "gos_hold (A @ B) = gos_hold A @ gos_hold B"
  by (simp_all add: gos_hold_def)

lemma nodeDelete_pending [simp]: "ov_pendingMsg (nodeDelete c tok ov) = ov_pendingMsg ov"
  by (simp add: nodeDelete_def cleanTreeStorage_def Let_def split: option.splits)

lemma RegisterProtocolInstance_pending: "RegisterProtocolInstance c tok ov = (e, ov') \<Longrightarrow> ov_pendingMsg ov' = ov_pendingMsg ov"
  by (auto simp: RegisterProtocolInstance_def Let_def split: option.splits if_splits)

lemma deliver_pending [simp]: "ov_pendingMsg (deliver i msg ov) = ov_pendingMsg ov"
  by (simp add: deliver_def split: option.splits)

lemma set_config_pending [simp]: "ov_pendingMsg (set_config i conf ov) = ov_pendingMsg ov"
  by (simp add: set_config_def split: option.splits)

lemma transmit_locked_pending: "transmit_locked c np t tok msg ov = (fate, ov') \<Longrightarrow> ov_pendingMsg ov' = ov_pendingMsg ov"
  by (auto simp: transmit_locked_def Let_def getConfig_def newTreeNodeInstanceFromToken_def
      dest!: RegisterProtocolInstance_pending split: if_splits sum.splits new_protocol.splits prod.splits option.splits)

lemma handleRequestTree_pending [simp]: "ov_pendingMsg (handleRequestTree si i version ov) = ov_pendingMsg ov"
  by (simp add: handleRequestTree_def ov_send_def Let_def split: option.splits)

lemma handleSendTree_pending: "handleSendTree c tm ro ov = Inr (r, ov') \<Longrightarrow> ov_pendingMsg ov' = ov_pendingMsg ov"
  by (auto simp: handleSendTree_def RegisterTree_def split: option.splits if_splits sum.splits fault.splits)

lemma CreateProtocol_pending: "CreateProtocol c ok t protoID sid roundId ov = Inr (r, ov') \<Longrightarrow> ov_pendingMsg ov' = ov_pendingMsg ov"
  by (auto simp: CreateProtocol_def NewTreeNodeInstanceFromService_def bindR_Inr_iff Let_def RegisterTree_def newTreeNodeInstanceFromToken_def
      dest!: RegisterProtocolInstance_pending split: if_splits prod.splits option.splits)

lemma make_pending_pending: "make_pending c el tms ov = Inr (ts, ov') \<Longrightarrow> ov_pendingMsg ov' = ov_pendingMsg ov"
  by (induction c el tms ov arbitrary: ts ov' rule: make_pending.induct)
    (auto simp: bindR_Inr_iff RegisterTree_def split: sum.splits fault.splits)

lemma handleSendRoster_pending: "handleSendRoster c ro ov = Inr (ts, ov') \<Longrightarrow> ov_pendingMsg ov' = ov_pendingMsg ov"
  by (auto simp: handleSendRoster_def checkPendingTreeMarshal_def dest: make_pending_pending split: if_splits option.splits)

lemma addPendingTreeMarshal_pending: "addPendingTreeMarshal tm ov = Inr ov' \<Longrightarrow> ov_pendingMsg ov' = ov_pendingMsg ov"
  by (auto simp: addPendingTreeMarshal_def split: if_splits)

lemma handleSendTreeMarshal_pending: "handleSendTreeMarshal c si tm ov = Inr (r, ov') \<Longrightarrow> ov_pendingMsg ov' = ov_pendingMsg ov"
  by (auto simp: handleSendTreeMarshal_def bindR_Inr_iff ov_send_def
      dest!: addPendingTreeMarshal_pending handleSendTree_pending split: if_splits option.splits)

lemma handleRequestRoster_pending: "handleRequestRoster order si rid ov = Inr ov' \<Longrightarrow> ov_pendingMsg ov' = ov_pendingMsg ov"
  by (auto simp: handleRequestRoster_def bindR_Inr_iff ov_send_def)

definition msg_inv :: "('p, 'm) ov_sys \<Rightarrow> bool" where
  "msg_inv s \<longleftrightarrow> mset (os_entered s) =
     mset (map snd (os_fates s)) + mset (ov_pendingMsg (os_ov s)) + mset (gos_hold (os_gos s))"

lemma go_step_msgs:
  "go_step c g ov gs ov' outs made \<Longrightarrow>
    mset (gos_hold [g]) + mset (ov_pendingMsg ov) = mset (map snd outs) + mset (ov_pendingMsg ov') + mset (gos_hold gs)"
proof (induction rule: go_step.induct)
  case (locked msg tok np t ov fate ov' rest)
  then show ?case using transmit_locked_pending by fastforce
next
  case (check t ov msgs ov' rest)
  have "mset (ov_pendingMsg ov) = mset (filter (for_tree (ot_ID t)) (ov_pendingMsg ov)) + mset (filter (\<lambda>m. \<not> for_tree (ot_ID t) m) (ov_pendingMsg ov))"
    by (simp add: multiset_partition)
  then show ?case using check by (auto simp: take_pending_def)
qed (simp_all add: savePendingMsg_def with_store_def ov_send_def)

lemma gos_hold_checks [simp]: "gos_hold (map (\<lambda>t. (GCheck t, [])) ts) = []"
  by (induction ts) auto

lemma registered_msgs: "ov_pendingMsg ov = ov_pendingMsg (os_ov s) \<Longrightarrow> msg_inv s \<Longrightarrow> msg_inv (registered ts ov s)"
  by (simp add: msg_inv_def registered_def)

lemma ov_step_msgs: "ov_step c l s s' \<Longrightarrow> msg_inv s \<Longrightarrow> msg_inv s'"
proof (induction rule: ov_step.induct)
  case (goroutine s A g B gs ov' outs made)
  then show ?case using go_step_msgs [OF goroutine(2)] by (cases g) (simp add: msg_inv_def ac_simps)
next
  case (create ok t protoID sid roundId s err tok ov')
  then have "msg_inv (registered [t] ov' s)" using CreateProtocol_pending registered_msgs by metis
  then show ?case by (simp add: msg_inv_def)
next
  case (ask_roster order si rid s ov')
  then show ?case by (simp add: msg_inv_def handleRequestRoster_pending)
qed (auto dest!: handleSendTree_pending handleSendTreeMarshal_pending handleSendRoster_pending
    simp: msg_inv_def registered_def RegisterTree_def nodeDone_def handleConfigMessage_def)

lemma msg_inv_start: "msg_inv ov_start"
  by (simp add: msg_inv_def ov_start_def NewOverlay_def)

interpretation transport: invariant_system "\<lambda>s. s = ov_start" "\<lambda>s s'. \<exists>l. ov_step c l s s'" msg_inv for c
  by unfold_locales (use msg_inv_start ov_step_msgs in blast)+

definition sample_token :: Token where
  "sample_token = \<lparr>tok_Roster = 7, tok_Tree = 9, tok_Proto = 1, tok_Service = 0, tok_Round = 1, tok_Node = 11\<rparr>"

definition sample_to :: "nat \<Rightarrow> (nat, nat) ProtocolMsg" where
  "sample_to k = \<lparr>pm_From = Some sample_token, pm_To = Some sample_token, pm_Server = Some (sample_server 2), pm_MsgType = 5,
     pm_Msg = k, pm_Size = 10, pm_Config = None\<rparr>"

lemma arrived_reachable:
  "ov_reachable sample_crypto (ov_start\<lparr>os_gos := [(GTransmit (sample_to 1), [])], os_entered := [sample_to 1]\<rparr>)"
proof (rule next_step [OF at_start])
  have "ov_step sample_crypto LOther ov_start
      (ov_start\<lparr>os_gos := os_gos ov_start @ [(GTransmit (sample_to 1), [])], os_entered := os_entered ov_start @ [sample_to 1]\<rparr>)"
    by (rule ov_step.arrive)
  then show "\<exists>l. ov_step sample_crypto l ov_start (ov_start\<lparr>os_gos := [(GTransmit (sample_to 1), [])], os_entered := [sample_to 1]\<rparr>)"
    by (auto simp: ov_start_def)
qed simp

section \<open>One instance for a token\<close>

definition created_inv :: "('p, 'm) ov_sys \<Rightarrow> bool" where
  "created_inv s \<longleftrightarrow> distinct (os_created s) \<and> (\<forall>i \<in> set (os_created s). ov_protos (os_ov s) i \<or> ov_done (os_ov s) i)"

text \<open>What every operation keeps of the instances: a finished one stays finished, a registered one is registered or finished.\<close>

definition keeps_used :: "('p, 'm) Overlay \<Rightarrow> ('p, 'm) Overlay \<Rightarrow> bool" where
  "keeps_used ov ov' \<longleftrightarrow> (\<forall>i. (ov_protos ov i \<longrightarrow> ov_protos ov' i \<or> ov_done ov' i) \<and> (ov_done ov i \<longrightarrow> ov_done ov' i))"

lemma keeps_refl [simp]: "keeps_used ov ov"
  by (simp add: keeps_used_def)

lemma keeps_same: "ov_protos ov' = ov_protos ov \<Longrightarrow> ov_done ov' = ov_done ov \<Longrightarrow> keeps_used ov ov'"
  by (simp add: keeps_used_def)

lemma keeps_trans: "keeps_used a b \<Longrightarrow> keeps_used b d \<Longrightarrow> keeps_used a d"
  by (auto simp: keeps_used_def)

lemma nodeDelete_keeps: "keeps_used ov (nodeDelete c tok ov)"
  by (auto simp: keeps_used_def nodeDelete_def cleanTreeStorage_def Let_def split: option.splits)

lemma RegisterProtocolInstance_keeps: "RegisterProtocolInstance c tok ov = (e, ov') \<Longrightarrow>
    keeps_used ov ov' \<and> (e = None \<longrightarrow> ov_protos ov' (Token_ID c tok))"
  by (auto simp: RegisterProtocolInstance_def keeps_used_def Let_def split: option.splits if_splits)

lemma deliver_fields [simp]: "ov_protos (deliver i msg ov) = ov_protos ov" "ov_done (deliver i msg ov) = ov_done ov"
  by (simp_all add: deliver_def split: option.splits)

lemma set_config_fields [simp]: "ov_protos (set_config i conf ov) = ov_protos ov" "ov_done (set_config i conf ov) = ov_done ov"
  by (simp_all add: set_config_def split: option.splits)

lemma transmit_locked_keeps:
  assumes "transmit_locked c np t tok msg ov = (fate, ov')"
  shows "keeps_used ov ov' \<and> (\<forall>i. fate = Delivered i \<longrightarrow> i = Token_ID c tok \<and> \<not> ov_done ov i \<and> ov_protos ov' i)"
proof (cases "ov_done ov (Token_ID c tok) \<or> ov_protos ov (Token_ID c tok)")
  case True
  then show ?thesis using assms by (auto simp: transmit_locked_def Let_def keeps_same split: if_splits)
next
  case False
  show ?thesis
  proof (cases "TreeNodeFromTree t (tok_Node tok)")
    case (Inl e)
    then show ?thesis using assms False by (auto simp: transmit_locked_def Let_def)
  next
    case (Inr ptn)
    let ?o1 = "newTreeNodeInstanceFromToken c ptn tok ov"
    obtain pc o2 where gc: "getConfig (Token_ID c tok) ?o1 = (pc, o2)" by fastforce
    let ?o3 = "set_config (Token_ID c tok) (if pc = None then pm_Config msg else pc) o2"
    have o3: "ov_protos ?o3 = ov_protos ov" "ov_done ?o3 = ov_done ov"
      using gc by (auto simp: getConfig_def newTreeNodeInstanceFromToken_def)
    have k: "keeps_used ov ?o3" by (rule keeps_same [OF o3])
    show ?thesis
    proof (cases np)
      case NewError
      then have "fate = Dropped ''creating protocol''" "ov' = nodeDelete c tok ?o3"
        using assms False Inr gc by (simp_all add: transmit_locked_def Let_def)
      then show ?thesis using keeps_trans [OF k nodeDelete_keeps] by simp
    next
      case NewNil
      then have "fate = Dropped ''no protocol''" "ov' = ?o3"
        using assms False Inr gc by (simp_all add: transmit_locked_def Let_def)
      then show ?thesis using k by simp
    next
      case NewInstance
      obtain e o4 where r: "RegisterProtocolInstance c tok ?o3 = (e, o4)" by fastforce
      note keep = RegisterProtocolInstance_keeps [OF r]
      have "(fate, ov') = (case e of Some x \<Rightarrow> (Dropped ''Error Binding TreeNodeInstance and ProtocolInstance'', o4)
          | None \<Rightarrow> (Delivered (Token_ID c tok), deliver (Token_ID c tok) msg o4))"
        using assms False Inr NewInstance r gc by (simp add: transmit_locked_def Let_def)
      moreover have "keeps_used ov o4" using keeps_trans [OF k] keep by blast
      moreover have "keeps_used o4 (deliver (Token_ID c tok) msg o4)" by (rule keeps_same) simp_all
      ultimately show ?thesis using keeps_trans [of ov o4] keep False by (cases e) auto
    qed
  qed
qed

lemma go_step_created:
  assumes "go_step c g ov gs ov' outs made"
  shows "keeps_used ov ov' \<and> (made = [] \<or> (\<exists>i. made = [i] \<and> \<not> ov_protos ov i \<and> \<not> ov_done ov i \<and> ov_protos ov' i))"
  using assms
proof (induction rule: go_step.induct)
  case (locked msg tok np t ov fate ov' rest)
  note k = transmit_locked_keeps [OF locked(2)]
  show ?case
  proof (cases "fate = Delivered (Token_ID c tok) \<and> \<not> ov_protos ov (Token_ID c tok)")
    case True
    then show ?thesis unfolding if_P [OF True] using k by blast
  next
    case False
    then show ?thesis unfolding if_not_P [OF False] using k by blast
  qed
qed (auto simp: savePendingMsg_def with_store_def ov_send_def take_pending_def intro!: keeps_same)


lemma make_pending_keeps: "make_pending c el tms ov = Inr (ts, ov') \<Longrightarrow> keeps_used ov ov'"
  by (induction c el tms ov arbitrary: ts ov' rule: make_pending.induct)
    (auto simp: bindR_Inr_iff RegisterTree_def keeps_used_def split: sum.splits fault.splits)

lemma handleSendTree_keeps: "handleSendTree c tm ro ov = Inr (r, ov') \<Longrightarrow> keeps_used ov ov'"
  by (auto simp: handleSendTree_def RegisterTree_def keeps_used_def split: option.splits if_splits sum.splits fault.splits)

lemma handleSendRoster_keeps: "handleSendRoster c ro ov = Inr (ts, ov') \<Longrightarrow> keeps_used ov ov'"
  by (auto simp: handleSendRoster_def checkPendingTreeMarshal_def keeps_used_def dest!: make_pending_keeps split: if_splits option.splits)

lemma addPendingTreeMarshal_keeps: "addPendingTreeMarshal tm (ov_send si pkt ov) = Inr ov' \<Longrightarrow> keeps_used ov ov'"
  by (auto simp: addPendingTreeMarshal_def ov_send_def keeps_used_def split: if_splits)

lemma handleSendTreeMarshal_keeps: "handleSendTreeMarshal c si tm ov = Inr (r, ov') \<Longrightarrow> keeps_used ov ov'"
  unfolding handleSendTreeMarshal_def bindR_Inr_iff
  by (auto dest: handleSendTree_keeps addPendingTreeMarshal_keeps split: if_splits option.splits simp: bindR_Inr_iff)

lemma CreateProtocol_keeps: "CreateProtocol c ok t protoID sid roundId ov = Inr ((err, tok), ov') \<Longrightarrow>
    keeps_used ov ov' \<and> (err = None \<longrightarrow> ov_protos ov' (Token_ID c tok))"
  unfolding CreateProtocol_def NewTreeNodeInstanceFromService_def Let_def bindR_Inr_iff
  by (auto simp: RegisterTree_def newTreeNodeInstanceFromToken_def keeps_used_def
      dest!: RegisterProtocolInstance_keeps split: if_splits prod.splits option.splits)

lemma created_inv_keeps:
  "created_inv s \<Longrightarrow> keeps_used (os_ov s) (os_ov s') \<Longrightarrow> os_created s' = os_created s \<Longrightarrow> created_inv s'"
  by (auto simp: created_inv_def keeps_used_def)

lemma ov_step_created: "ov_step c l s s' \<Longrightarrow> created_inv s \<Longrightarrow> created_inv s'"
proof (induction rule: ov_step.induct)
  case (goroutine s A g B gs ov' outs made)
  then show ?case using go_step_created [OF goroutine(2)] by (fastforce simp: created_inv_def keeps_used_def)
next
  case (create ok t protoID sid roundId s err tok ov')
  then show ?case using CreateProtocol_keeps [OF create(1)] by (auto simp: created_inv_def keeps_used_def registered_def)
next
  case (tree_sent tm ro s r ov')
  then show ?case by (auto simp: registered_def elim!: created_inv_keeps dest: handleSendTree_keeps)
next
  case (marshal_sent si m s r ov')
  then show ?case by (auto simp: registered_def elim!: created_inv_keeps dest: handleSendTreeMarshal_keeps)
next
  case (roster_sent el s ts ov')
  then show ?case by (auto simp: registered_def elim!: created_inv_keeps dest: handleSendRoster_keeps)
next
  case (node_done s tok)
  show ?case by (rule created_inv_keeps [OF node_done]) (simp_all add: nodeDone_def nodeDelete_keeps)
next
  case (ask_roster order si rid s ov')
  then show ?case by (auto simp: handleRequestRoster_def bindR_Inr_iff ov_send_def elim!: created_inv_keeps intro!: keeps_same)
next
  case (request s si i version)
  then show ?case by (auto simp: handleRequestTree_def ov_send_def Let_def elim!: created_inv_keeps intro!: keeps_same split: option.splits)
qed (auto simp: registered_def RegisterTree_def handleConfigMessage_def elim!: created_inv_keeps intro!: keeps_same)

lemma created_inv_start: "created_inv ov_start"
  by (simp add: created_inv_def ov_start_def)

interpretation instances: invariant_system "\<lambda>s. s = ov_start" "\<lambda>s s'. \<exists>l. ov_step c l s s'" created_inv for c
  by unfold_locales (use created_inv_start ov_step_created in blast)+


lemma ov_step_done:
  assumes "ov_step c l s s'" and "ov_done (os_ov s) i"
  shows "ov_done (os_ov s') i \<and> (\<exists>new. os_fates s' = os_fates s @ new \<and> Delivered i \<notin> fst ` set new)"
  using assms
proof (induction rule: ov_step.induct)
  case (goroutine s A g B gs ov' outs made)
  have "ov_done ov' i" using go_step_created [OF goroutine(2)] goroutine(3) by (simp add: keeps_used_def)
  moreover have "Delivered i \<notin> fst ` set outs"
    using goroutine(2,3) by (cases rule: go_step.cases) (auto dest: transmit_locked_keeps)
  ultimately show ?case by auto
next
  case (create ok t protoID sid roundId s err tok ov')
  then show ?case using CreateProtocol_keeps [OF create(1)] by (auto simp: keeps_used_def registered_def)
next
  case (tree_sent tm ro s r ov')
  then show ?case using handleSendTree_keeps [OF tree_sent(1)] by (auto simp: registered_def keeps_used_def)
next
  case (marshal_sent si m s r ov')
  then show ?case using handleSendTreeMarshal_keeps [OF marshal_sent(1)] by (auto simp: registered_def keeps_used_def)
next
  case (roster_sent el s ts ov')
  then show ?case using handleSendRoster_keeps [OF roster_sent(1)] by (auto simp: registered_def keeps_used_def)
next
  case (node_done s tok)
  then show ?case using nodeDelete_keeps [of "os_ov s" c tok] by (auto simp: nodeDone_def keeps_used_def)
next
  case (ask_roster order si rid s ov')
  then show ?case by (auto simp: handleRequestRoster_def bindR_Inr_iff ov_send_def)
next
  case (request s si i version)
  then show ?case by (auto simp: handleRequestTree_def ov_send_def Let_def split: option.splits)
qed (auto simp: registered_def RegisterTree_def handleConfigMessage_def)

text \<open>
  C3: for a token at most one protocol instance is ever created, whichever goroutines bring its first
  messages at once and whether it was started here or by a message: a token that has an instance, or
  that is finished, gets no other one. And once an instance is done, its token stays finished, and no
  later step delivers a message to it.
\<close>

theorem instance_created_once:
  assumes "ov_reachable c s"
  shows "distinct (os_created s) \<and> (\<forall>i \<in> set (os_created s). ov_protos (os_ov s) i \<or> ov_done (os_ov s) i) \<and>
    (\<forall>i l s'. ov_done (os_ov s) i \<and> ov_step c l s s' \<longrightarrow>
       ov_done (os_ov s') i \<and> (\<exists>new. os_fates s' = os_fates s @ new \<and> Delivered i \<notin> fst ` set new))"
proof (intro conjI allI impI)
  have "created_inv s" by (rule instances.reachable_inv [OF assms])
  then show "distinct (os_created s)" "\<forall>i \<in> set (os_created s). ov_protos (os_ov s) i \<or> ov_done (os_ov s) i"
    by (simp_all add: created_inv_def)
  fix i l s' assume "ov_done (os_ov s) i \<and> ov_step c l s s'"
  then show "ov_done (os_ov s') i" "\<exists>new. os_fates s' = os_fates s @ new \<and> Delivered i \<notin> fst ` set new"
    using ov_step_done by blast+
qed

definition sample_run_token :: Token where
  "sample_run_token = \<lparr>tok_Roster = 7, tok_Tree = 9, tok_Proto = 3, tok_Service = 0, tok_Round = 1, tok_Node = 11\<rparr>"

lemma instance_created_once_witness:
  "\<exists>s :: (nat, nat) ov_sys. ov_reachable sample_crypto s \<and> os_created s = [Token_ID sample_crypto sample_run_token] \<and>
     distinct (os_created s)"
proof -
  obtain ov' :: "(nat, nat) Overlay" where
    c: "CreateProtocol sample_crypto True sample_tree 3 0 1 NewOverlay = Inr ((None, sample_run_token), ov')"
    by (simp add: CreateProtocol_def NewTreeNodeInstanceFromService_def sample_tree_def sample_run_token_def nonnil_def
        sample_roster_def RegisterProtocolInstance_def newTreeNodeInstanceFromToken_def RegisterTree_def newTreeNodeInstance_def NewOverlay_def Let_def)
  let ?s = "(registered [sample_tree] ov' ov_start)\<lparr>os_created := [Token_ID sample_crypto sample_run_token]\<rparr> :: (nat, nat) ov_sys"
  have "ov_step sample_crypto (LTrees [ot_ID sample_tree]) ov_start ?s"
    using ov_step.create [of sample_crypto True sample_tree 3 0 1 ov_start None sample_run_token ov'] c by (simp add: ov_start_def)
  then have "ov_reachable sample_crypto ?s" by (intro next_step [OF at_start]) blast+
  then show ?thesis using instance_created_once [of sample_crypto ?s] by (intro exI [of _ ?s]) simp
qed

section \<open>The queues of the instances\<close>

text \<open>What an instance was handed, what it took, and what the overlay holds of it: whether it is closing, and its queue.\<close>

definition delivered_to :: "uuid \<Rightarrow> ('p, 'm) ov_sys \<Rightarrow> ('p, 'm) ProtocolMsg list" where
  "delivered_to i s = map snd (filter (\<lambda>(f, m). f = Delivered i) (os_fates s))"

definition taken_by :: "uuid \<Rightarrow> ('p, 'm) ov_sys \<Rightarrow> ('p, 'm) ProtocolMsg list" where
  "taken_by i s = map snd (filter (\<lambda>(j, m). j = i) (os_taken s))"

definition inst_view :: "('p, 'm) Overlay \<Rightarrow> uuid \<Rightarrow> (bool \<times> ('p, 'm) ProtocolMsg list) option" where
  "inst_view ov i = map_option (\<lambda>n. (n_closing n, n_dispatchQueue n)) (map_of (ov_instances ov) i)"

definition same_views :: "('p, 'm) Overlay \<Rightarrow> ('p, 'm) Overlay \<Rightarrow> bool" where
  "same_views ov ov' \<longleftrightarrow> inst_view ov' = inst_view ov \<and> ov_protos ov' = ov_protos ov \<and> ov_done ov' = ov_done ov"

lemma inst_view_cong: "ov_instances ov' = ov_instances ov \<Longrightarrow> inst_view ov' = inst_view ov"
  by (simp add: inst_view_def fun_eq_iff)

lemma inst_view_deliver:
  "inst_view (deliver i msg ov) = (inst_view ov)(i := map_option (\<lambda>(cl, q). (cl, if cl then q else q @ [msg])) (inst_view ov i))"
  by (auto simp: inst_view_def deliver_def fun_eq_iff update_conv' ProcessProtocolMsg_def notifyDispatch_def split: option.splits)

lemma inst_view_set_config [simp]: "inst_view (set_config i conf ov) = inst_view ov"
  by (auto simp: inst_view_def set_config_def fun_eq_iff update_conv' split: option.splits)

lemma inst_view_new [simp]: "inst_view (newTreeNodeInstanceFromToken c ptn tok ov) = (inst_view ov)(Token_ID c tok \<mapsto> (False, []))"
  by (auto simp: inst_view_def newTreeNodeInstanceFromToken_def newTreeNodeInstance_def fun_eq_iff update_conv')

lemma inst_view_done: "inst_view (nodeDelete c tok ov) = (inst_view ov)(Token_ID c tok := None)"
  by (auto simp: inst_view_def nodeDelete_def cleanTreeStorage_def Let_def fun_eq_iff delete_conv' split: option.splits)

lemma nodeDelete_marks: "inst_view ov (Token_ID c tok) \<noteq> None \<Longrightarrow>
    ov_protos (nodeDelete c tok ov) = (ov_protos ov)(Token_ID c tok := False) \<and> ov_done (nodeDelete c tok ov) = (ov_done ov)(Token_ID c tok := True)"
  by (auto simp: inst_view_def nodeDelete_def cleanTreeStorage_def Let_def split: option.splits)

lemma nodeDelete_absent: "inst_view ov (Token_ID c tok) = None \<Longrightarrow> nodeDelete c tok ov = ov"
  by (simp add: inst_view_def nodeDelete_def Let_def)

lemma inst_view_register:
  assumes "RegisterProtocolInstance c tok ov = (e, ov')"
  shows "inst_view ov' = inst_view ov \<and> ov_done ov' = ov_done ov \<and>
    ov_protos ov' = (if e = None then (ov_protos ov)(Token_ID c tok := True) else ov_protos ov)"
proof (cases "\<exists>tni. map_of (ov_instances ov) (Token_ID c tok) = Some tni \<and> \<not> n_bound tni")
  case True
  then obtain tni where t: "map_of (ov_instances ov) (Token_ID c tok) = Some tni" "\<not> n_bound tni" by blast
  then have o': "e = None" "ov' = ov\<lparr>ov_instances := AList.update (Token_ID c tok) (tni\<lparr>n_bound := True\<rparr>) (ov_instances ov),
      ov_protos := (ov_protos ov)(Token_ID c tok := True)\<rparr>"
    using assms by (auto simp: RegisterProtocolInstance_def Let_def)
  then show ?thesis using t(1) by (simp add: inst_view_def fun_eq_iff update_conv')
next
  case False
  then have "ov' = ov \<and> e \<noteq> None" using assms by (auto simp: RegisterProtocolInstance_def Let_def split: option.splits)
  then show ?thesis by auto
qed

lemma same_views_refl [simp]: "same_views ov ov"
  by (simp add: same_views_def)

lemma same_viewsI: "ov_instances ov' = ov_instances ov \<Longrightarrow> ov_protos ov' = ov_protos ov \<Longrightarrow> ov_done ov' = ov_done ov \<Longrightarrow> same_views ov ov'"
  using inst_view_cong [of ov' ov] by (simp add: same_views_def)

lemma same_views_trans: "same_views a b \<Longrightarrow> same_views b d \<Longrightarrow> same_views a d"
  by (simp add: same_views_def)

text \<open>
  The queue of an instance is what was handed to it and not yet taken; what was handed to an instance
  that is gone begins with what it took.
\<close>

definition fifo_at :: "bool \<Rightarrow> bool \<Rightarrow> (bool \<times> 'a list) option \<Rightarrow> 'a list \<Rightarrow> 'a list \<Rightarrow> bool" where
  "fifo_at bound made view given took \<longleftrightarrow> (bound \<longrightarrow> made \<and> view \<noteq> None) \<and> (given \<noteq> [] \<longrightarrow> made) \<and>
     (case view of None \<Rightarrow> \<exists>q. given = took @ q | Some (cl, q) \<Rightarrow> \<not> cl \<and> given = took @ q)"

definition fifo_inv :: "('p, 'm) ov_sys \<Rightarrow> bool" where
  "fifo_inv s \<longleftrightarrow> (\<forall>i. fifo_at (ov_protos (os_ov s) i) (i \<in> set (os_created s)) (inst_view (os_ov s) i) (delivered_to i s) (taken_by i s))"

lemma fifo_at_simps:
  "fifo_at p m None [] t \<longleftrightarrow> \<not> p \<and> t = []" "fifo_at p m (Some (cl, q)) [] t \<longleftrightarrow> (p \<longrightarrow> m) \<and> \<not> cl \<and> t = [] \<and> q = []"
  "fifo_at p m (Some (cl, q)) (x # g) t \<longleftrightarrow> m \<and> \<not> cl \<and> x # g = t @ q"
  by (auto simp: fifo_at_def)

lemma fifo_at_hand: "fifo_at True m v g t \<Longrightarrow> fifo_at True m (map_option (\<lambda>(cl, q). (cl, if cl then q else q @ [msg])) v) (g @ [msg]) t"
  by (auto simp: fifo_at_def)

lemma fifo_at_take: "fifo_at p m (Some (cl, msg # q)) g t \<Longrightarrow> fifo_at p m (Some (cl, q)) g (t @ [msg])"
  by (simp add: fifo_at_def)

lemma fifo_at_gone: "fifo_at p m v g t \<Longrightarrow> fifo_at False m None g t"
  by (auto simp: fifo_at_def split: option.splits)

lemma transmit_locked_view:
  assumes "transmit_locked c np t tok msg ov = (fate, ov')" and "i = Token_ID c tok"
  shows "(\<forall>j. j \<noteq> i \<longrightarrow> inst_view ov' j = inst_view ov j \<and> ov_protos ov' j = ov_protos ov j) \<and>
    (fate = Delivered i \<and> ov_protos ov i \<and> \<not> ov_done ov i \<and> ov' = deliver i msg ov \<or>
     fate = Delivered i \<and> \<not> ov_protos ov i \<and> \<not> ov_done ov i \<and> inst_view ov' i = Some (False, [msg]) \<or>
     (\<forall>j. fate \<noteq> Delivered j) \<and> (ov' = ov \<or> \<not> ov_protos ov i \<and> \<not> ov_done ov i \<and> \<not> ov_protos ov' i \<and> inst_view ov' i \<in> {None, Some (False, [])}))"
proof (cases "ov_done ov i \<or> ov_protos ov i")
  case True
  then show ?thesis using assms by (auto simp: transmit_locked_def Let_def inst_view_deliver split: if_splits)
next
  case False
  show ?thesis
  proof (cases "TreeNodeFromTree t (tok_Node tok)")
    case (Inl e)
    then show ?thesis using assms False by (auto simp: transmit_locked_def Let_def)
  next
    case (Inr ptn)
    let ?o1 = "newTreeNodeInstanceFromToken c ptn tok ov"
    obtain pc o2 where gc: "getConfig i ?o1 = (pc, o2)" by fastforce
    let ?o3 = "set_config i (if pc = None then pm_Config msg else pc) o2"
    have "inst_view o2 = inst_view ?o1" by (rule inst_view_cong) (use gc in \<open>auto simp: getConfig_def\<close>)
    then have o3: "ov_protos ?o3 = ov_protos ov" "ov_done ?o3 = ov_done ov" "inst_view ?o3 = (inst_view ov)(i \<mapsto> (False, []))"
      using gc by (auto simp: assms(2)) (auto simp: getConfig_def newTreeNodeInstanceFromToken_def)
    have t: "(fate, ov') = (case np of
          NewError \<Rightarrow> (Dropped ''creating protocol'', nodeDelete c tok ?o3)
        | NewNil \<Rightarrow> (Dropped ''no protocol'', ?o3)
        | NewInstance \<Rightarrow> (case RegisterProtocolInstance c tok ?o3 of
               (Some e, o4) \<Rightarrow> (Dropped ''Error Binding TreeNodeInstance and ProtocolInstance'', o4)
             | (None, o4) \<Rightarrow> (Delivered i, deliver i msg o4)))"
      using assms(1) False Inr gc by (simp add: transmit_locked_def Let_def flip: assms(2))
    show ?thesis
    proof (cases np)
      case NewInstance
      obtain e o4 where r: "RegisterProtocolInstance c tok ?o3 = (e, o4)" by fastforce
      then show ?thesis using t NewInstance False inst_view_register [OF r] o3 assms(2)
        by (cases e) (auto simp: inst_view_deliver)
    qed (use t o3 False assms(2) nodeDelete_marks [of ?o3 c tok] in \<open>auto simp: inst_view_done\<close>)
  qed
qed

lemma RegisterTree_views [simp]: "same_views ov (RegisterTree t ov)" "inst_view (RegisterTree t ov) = inst_view ov"
proof -
  show "same_views ov (RegisterTree t ov)" by (rule same_viewsI) (simp_all add: RegisterTree_def)
  then show "inst_view (RegisterTree t ov) = inst_view ov" by (simp add: same_views_def)
qed

lemma CreateProtocol_view:
  assumes "CreateProtocol c ok t protoID sid roundId ov = Inr ((err, tok), ov')"
  shows "inst_view ov' = (inst_view ov)(Token_ID c tok \<mapsto> (False, [])) \<and> ov_done ov' = ov_done ov \<and>
    ov_protos ov' = (if err = None then (ov_protos ov)(Token_ID c tok := True) else ov_protos ov)"
proof -
  obtain tok1 o1 where n: "NewTreeNodeInstanceFromService c t protoID sid roundId ov = Inr (tok1, o1)"
    using assms by (cases "NewTreeNodeInstanceFromService c t protoID sid roundId ov") (auto simp: CreateProtocol_def)
  have o1: "inst_view o1 = (inst_view ov)(Token_ID c tok1 \<mapsto> (False, []))" "ov_protos o1 = ov_protos ov" "ov_done o1 = ov_done ov"
    using n by (auto simp: NewTreeNodeInstanceFromService_def bindR_Inr_iff Let_def)
      (auto simp: RegisterTree_def newTreeNodeInstanceFromToken_def)
  show ?thesis
  proof (cases ok)
    case True
    obtain e o2 where r: "RegisterProtocolInstance c tok1 o1 = (e, o2)" by fastforce
    then show ?thesis using assms n True o1 inst_view_register [OF r] by (cases e) (auto simp: CreateProtocol_def)
  qed (use assms n o1 in \<open>auto simp: CreateProtocol_def\<close>)
qed

lemma make_pending_views: "make_pending c el tms ov = Inr (ts, ov') \<Longrightarrow> same_views ov ov'"
proof (induction c el tms ov arbitrary: ts ov' rule: make_pending.induct)
  case (2 c el tm tms ov)
  show ?case using 2 by (auto simp: bindR_Inr_iff intro: same_views_trans [OF RegisterTree_views(1)] split: sum.splits fault.splits)
qed simp

lemma handleSendTree_views: "handleSendTree c tm ro ov = Inr (r, ov') \<Longrightarrow> same_views ov ov'"
  by (auto simp: handleSendTree_def split: option.splits if_splits sum.splits fault.splits)

lemma handleSendRoster_views: "handleSendRoster c ro ov = Inr (ts, ov') \<Longrightarrow> same_views ov ov'"
  by (auto simp: handleSendRoster_def checkPendingTreeMarshal_def intro: make_pending_views same_viewsI split: if_splits option.splits)

lemma addPendingTreeMarshal_views: "addPendingTreeMarshal tm (ov_send si pkt ov) = Inr ov' \<Longrightarrow> same_views ov ov'"
  by (auto simp: addPendingTreeMarshal_def ov_send_def intro!: same_viewsI split: if_splits)

lemma handleSendTreeMarshal_views: "handleSendTreeMarshal c si tm ov = Inr (r, ov') \<Longrightarrow> same_views ov ov'"
  unfolding handleSendTreeMarshal_def bindR_Inr_iff
  by (auto dest: handleSendTree_views addPendingTreeMarshal_views split: if_splits option.splits simp: bindR_Inr_iff)

lemma handleRequestRoster_views: "handleRequestRoster order si rid ov = Inr ov' \<Longrightarrow> same_views ov ov'"
  by (auto simp: handleRequestRoster_def bindR_Inr_iff ov_send_def intro!: same_viewsI)

lemma handleRequestTree_views: "same_views ov (handleRequestTree si i version ov)"
  by (auto simp: handleRequestTree_def ov_send_def Let_def intro!: same_viewsI split: option.splits)

text \<open>The invariant of a step that adds no message to the fates and takes none.\<close>

lemma fifo_frame:
  "fifo_inv s \<Longrightarrow> same_views (os_ov s) (os_ov s') \<Longrightarrow> os_fates s' = os_fates s \<Longrightarrow> os_taken s' = os_taken s \<Longrightarrow> os_created s' = os_created s \<Longrightarrow> fifo_inv s'"
  by (simp add: fifo_inv_def same_views_def delivered_to_def taken_by_def)

lemma fifo_registered: "fifo_inv s \<Longrightarrow> same_views (os_ov s) ov \<Longrightarrow> fifo_inv (registered ts ov s)"
  by (erule fifo_frame) (simp_all add: registered_def)

lemma fifo_unused:
  assumes "created_inv s" and "fifo_inv s" and "\<not> ov_protos (os_ov s) i" and "\<not> ov_done (os_ov s) i"
  shows "delivered_to i s = [] \<and> taken_by i s = [] \<and> i \<notin> set (os_created s)"
proof -
  have i: "i \<notin> set (os_created s)" using assms(1,3,4) by (auto simp: created_inv_def)
  have "fifo_at (ov_protos (os_ov s) i) (i \<in> set (os_created s)) (inst_view (os_ov s) i) (delivered_to i s) (taken_by i s)"
    using assms(2) by (simp add: fifo_inv_def)
  then show ?thesis using i by (auto simp: fifo_at_def split: option.splits)
qed

lemma go_step_other_views:
  assumes "go_step c g ov gs ov' outs made" and "\<And>t msg rest. g \<noteq> (GLocked t msg, rest)"
  shows "same_views ov ov' \<and> outs = [] \<and> made = []"
  using assms
  by (induction rule: go_step.induct)
    (auto simp: savePendingMsg_def with_store_def ov_send_def take_pending_def intro!: same_viewsI)

lemma go_step_fifo:
  assumes "go_step c g (os_ov s) gs ov' outs made" and "created_inv s" and "fifo_inv s"
    and s': "s' = s\<lparr>os_ov := ov', os_gos := gos, os_fates := os_fates s @ outs, os_created := os_created s @ made\<rparr>"
  shows "fifo_inv s'"
proof (cases "\<exists>t msg rest. g = (GLocked t msg, rest)")
  case False
  then have "same_views (os_ov s) ov' \<and> outs = [] \<and> made = []" using go_step_other_views [OF assms(1)] by blast
  then show ?thesis using fifo_frame [OF assms(3), of s'] s' by simp
next
  case True
  then obtain t msg rest where g: "g = (GLocked t msg, rest)" by blast
  from assms(1)[unfolded g] obtain tok np fate where l: "transmit_locked c np t tok msg (os_ov s) = (fate, ov')"
    and o: "outs = [(fate, msg)]" "made = (if fate = Delivered (Token_ID c tok) \<and> \<not> ov_protos (os_ov s) (Token_ID c tok) then [Token_ID c tok] else [])"
    by (cases rule: go_step.cases) auto
  let ?i = "Token_ID c tok"
  note v = transmit_locked_view [OF l refl]
  have k: "keeps_used (os_ov s) ov'" using transmit_locked_keeps [OF l] by blast
  have del: "delivered_to j s' = delivered_to j s @ (if fate = Delivered j then [msg] else [])" "taken_by j s' = taken_by j s" for j
    by (simp_all add: delivered_to_def taken_by_def s' o)
  have inv: "fifo_at (ov_protos (os_ov s) j) (j \<in> set (os_created s)) (inst_view (os_ov s) j) (delivered_to j s) (taken_by j s)" for j
    using assms(3) by (simp add: fifo_inv_def)
  note unused = fifo_unused [OF assms(2,3), of ?i]
  have "fifo_at (ov_protos ov' j) (j \<in> set (os_created s @ made)) (inst_view ov' j) (delivered_to j s') (taken_by j s')" for j
  proof (cases "j = ?i")
    case False
    then have "j \<in> set (os_created s @ made) \<longleftrightarrow> j \<in> set (os_created s)" "fate \<noteq> Delivered j" using v by (auto simp: o)
    then show ?thesis using inv [of j] v False by (simp add: del)
  next
    case True
    show ?thesis using v unfolding True
    proof (elim conjE disjE)
      assume a: "fate = Delivered ?i" "ov_protos (os_ov s) ?i" "ov' = deliver ?i msg (os_ov s)"
      have "fifo_at True (?i \<in> set (os_created s)) (inst_view (os_ov s) ?i) (delivered_to ?i s) (taken_by ?i s)" using inv [of ?i] a(2) by simp
      then show "fifo_at (ov_protos ov' ?i) (?i \<in> set (os_created s @ made)) (inst_view ov' ?i) (delivered_to ?i s') (taken_by ?i s')"
        using fifo_at_hand a by (simp add: del o inst_view_deliver)
    next
      assume a: "fate = Delivered ?i" "\<not> ov_protos (os_ov s) ?i" "\<not> ov_done (os_ov s) ?i" "inst_view ov' ?i = Some (False, [msg])"
      show "fifo_at (ov_protos ov' ?i) (?i \<in> set (os_created s @ made)) (inst_view ov' ?i) (delivered_to ?i s') (taken_by ?i s')"
        using unused [OF a(2,3)] a by (simp add: del o fifo_at_simps)
    next
      assume a: "\<forall>j. fate \<noteq> Delivered j" "ov' = os_ov s"
      then show "fifo_at (ov_protos ov' ?i) (?i \<in> set (os_created s @ made)) (inst_view ov' ?i) (delivered_to ?i s') (taken_by ?i s')"
        using inv [of ?i] by (simp add: del o)
    next
      assume a: "\<forall>j. fate \<noteq> Delivered j" "\<not> ov_protos (os_ov s) ?i" "\<not> ov_done (os_ov s) ?i" "\<not> ov_protos ov' ?i"
        "inst_view ov' ?i \<in> {None, Some (False, [])}"
      show "fifo_at (ov_protos ov' ?i) (?i \<in> set (os_created s @ made)) (inst_view ov' ?i) (delivered_to ?i s') (taken_by ?i s')"
        using unused [OF a(2,3)] a by (auto simp: del o fifo_at_simps)
    qed
  qed
  then show ?thesis by (simp add: fifo_inv_def s')
qed

lemma fifo_update:
  assumes "fifo_inv s" and "map_of (ov_instances (os_ov s)) i = Some tni" and "n_dispatchQueue tni' = n_dispatchQueue tni" and "n_closing tni' = n_closing tni"
  shows "fifo_inv (s\<lparr>os_ov := (os_ov s)\<lparr>ov_instances := AList.update i tni' (ov_instances (os_ov s))\<rparr>\<rparr>)"
  by (rule fifo_frame [OF assms(1)]) (use assms(2-4) in \<open>auto simp: same_views_def inst_view_def fun_eq_iff update_conv'\<close>)

lemma fifo_takes:
  assumes "fifo_inv s" and "map_of (ov_instances (os_ov s)) i = Some tni" and "reader_top tni = (InHand msg, tni')"
    and s': "s' = s\<lparr>os_ov := (os_ov s)\<lparr>ov_instances := AList.update i tni' (ov_instances (os_ov s))\<rparr>, os_taken := os_taken s @ [(i, msg)]\<rparr>"
  shows "fifo_inv s'"
proof -
  obtain q where q: "n_dispatchQueue tni = msg # q" "tni' = tni\<lparr>n_dispatchQueue := q\<rparr>"
    using assms(3) by (auto simp: reader_top_def split: if_splits list.splits)
  have v: "inst_view (os_ov s) i = Some (n_closing tni, msg # q)" using assms(2) q by (simp add: inst_view_def)
  have v': "inst_view (os_ov s') = (inst_view (os_ov s))(i \<mapsto> (n_closing tni, q))"
    using q(2) by (simp add: inst_view_def fun_eq_iff update_conv' s')
  have t: "taken_by j s' = taken_by j s @ (if j = i then [msg] else [])" "delivered_to j s' = delivered_to j s" for j
    by (simp_all add: taken_by_def delivered_to_def s')
  have inv: "fifo_at (ov_protos (os_ov s) j) (j \<in> set (os_created s)) (inst_view (os_ov s) j) (delivered_to j s) (taken_by j s)" for j
    using assms(1) by (simp add: fifo_inv_def)
  have "fifo_at (ov_protos (os_ov s) j) (j \<in> set (os_created s)) (inst_view (os_ov s') j) (delivered_to j s') (taken_by j s')" for j
    using inv [of j] fifo_at_take v by (cases "j = i") (simp_all add: v' t)
  moreover have "ov_protos (os_ov s') = ov_protos (os_ov s)" "os_created s' = os_created s" by (simp_all add: s')
  ultimately show ?thesis by (simp add: fifo_inv_def)
qed

lemma fifo_node_done:
  assumes "fifo_inv s"
  shows "fifo_inv (s\<lparr>os_ov := nodeDone c tok (os_ov s)\<rparr>)"
proof (cases "inst_view (os_ov s) (Token_ID c tok) = None")
  case True
  then show ?thesis using assms nodeDelete_absent by (metis fifo_frame nodeDone_def ov_sys.select_convs(1) ov_sys.surjective ov_sys.update_convs(1))
next
  case False
  let ?i = "Token_ID c tok" and ?s' = "s\<lparr>os_ov := nodeDone c tok (os_ov s)\<rparr>"
  have inv: "fifo_at (ov_protos (os_ov s) j) (j \<in> set (os_created s)) (inst_view (os_ov s) j) (delivered_to j s) (taken_by j s)" for j
    using assms by (simp add: fifo_inv_def)
  have s: "delivered_to j ?s' = delivered_to j s" "taken_by j ?s' = taken_by j s" for j by (simp_all add: delivered_to_def taken_by_def)
  have "fifo_at (ov_protos (nodeDone c tok (os_ov s)) j) (j \<in> set (os_created s)) (inst_view (nodeDone c tok (os_ov s)) j) (delivered_to j s) (taken_by j s)" for j
    using inv [of j] fifo_at_gone [OF inv [of ?i]] by (cases "j = ?i") (simp_all add: nodeDone_def inst_view_done nodeDelete_marks [OF False])
  then show ?thesis unfolding fifo_inv_def s by simp
qed

lemma fifo_create:
  assumes "fifo_inv s" and "CreateProtocol c ok t protoID sid roundId (os_ov s) = Inr ((err, tok), ov')" and "Token_ID c tok \<notin> set (os_created s)"
  shows "fifo_inv ((registered [t] ov' s)\<lparr>os_created := os_created s @ (if err = None then [Token_ID c tok] else [])\<rparr>)" (is "fifo_inv ?s'")
proof -
  let ?i = "Token_ID c tok"
  have inv: "fifo_at (ov_protos (os_ov s) j) (j \<in> set (os_created s)) (inst_view (os_ov s) j) (delivered_to j s) (taken_by j s)" for j
    using assms(1) by (simp add: fifo_inv_def)
  have s: "delivered_to j ?s' = delivered_to j s" "taken_by j ?s' = taken_by j s" for j by (simp_all add: delivered_to_def taken_by_def registered_def)
  have new: "delivered_to ?i s = []" "taken_by ?i s = []" "\<not> ov_protos (os_ov s) ?i"
    using inv [of ?i] assms(3) by (auto simp: fifo_at_def split: option.splits)
  note v = CreateProtocol_view [OF assms(2)]
  have "fifo_at (ov_protos ov' j) (j \<in> set (os_created ?s')) (inst_view ov' j) (delivered_to j s) (taken_by j s)" for j
  proof (cases "j = ?i")
    case True
    then show ?thesis using v new by (cases err) (simp_all add: fifo_at_simps registered_def)
  next
    case False
    then have "ov_protos ov' j = ov_protos (os_ov s) j" "inst_view ov' j = inst_view (os_ov s) j" "j \<in> set (os_created ?s') \<longleftrightarrow> j \<in> set (os_created s)"
      using v by (simp_all add: registered_def)
    then show ?thesis using inv [of j] by (simp only:)
  qed
  then show ?thesis unfolding fifo_inv_def s by (simp add: registered_def)
qed

lemma ov_step_fifo: "ov_step c l s s' \<Longrightarrow> created_inv s \<Longrightarrow> fifo_inv s \<Longrightarrow> fifo_inv s'"
proof (induction rule: ov_step.induct)
  case (arrive s msg)
  show ?case by (rule fifo_frame [OF arrive(2)]) simp_all
next
  case (goroutine s A g B gs ov' outs made)
  show ?case by (rule go_step_fifo [OF goroutine(2-4) refl])
next
  case (tree_sent tm ro s r ov')
  then show ?case by (intro fifo_registered handleSendTree_views)
next
  case (marshal_sent si m s r ov')
  then show ?case by (intro fifo_registered handleSendTreeMarshal_views)
next
  case (roster_sent el s ts ov')
  then show ?case by (intro fifo_registered handleSendRoster_views)
next
  case (tree_local t s)
  then show ?case by (intro fifo_registered RegisterTree_views(1))
next
  case (create ok t protoID sid roundId s err tok ov')
  show ?case by (rule fifo_create [OF create(4,1,2)])
next
  case (node_done s tok)
  then show ?case by (intro fifo_node_done)
next
  case (config s conf dest)
  show ?case by (rule fifo_frame [OF config(2)]) (simp_all add: handleConfigMessage_def same_viewsI)
next
  case (request s si i version)
  show ?case by (rule fifo_frame [OF request(2)]) (simp_all add: handleRequestTree_views)
next
  case (ask_roster order si rid s ov')
  show ?case by (rule fifo_frame [OF ask_roster(3)]) (use ask_roster in \<open>simp_all add: handleRequestRoster_views\<close>)
next
  case (storage e s ts)
  show ?case by (rule fifo_frame [OF storage(4)]) (simp_all add: same_viewsI)
next
  case (instance_takes s i tni msg tni')
  show ?case by (rule fifo_takes [OF instance_takes(4,1,2) refl])
next
  case (instance_step s i tni tni')
  then show ?case by (intro fifo_update)
qed

lemma fifo_inv_start: "fifo_inv ov_start"
  by (simp add: fifo_inv_def fifo_at_def ov_start_def NewOverlay_def inst_view_def delivered_to_def taken_by_def)

interpretation queues: invariant_system "\<lambda>s. s = ov_start" "\<lambda>s s'. \<exists>l. ov_step c l s s'" "\<lambda>s. created_inv s \<and> fifo_inv s" for c
  by unfold_locales (use created_inv_start fifo_inv_start ov_step_created ov_step_fifo in blast)+

text \<open>
  C4: the overlay neither loses nor duplicates a message, however its goroutines are interleaved. At any
  moment the messages that came in are, each once, those that were handed to an instance or dropped
  with a reason, those pending for a tree, and those in the hands of a goroutine. And what was handed to
  an instance is, in that order, what its reader has taken followed by what is in its queue; only when
  an instance is done is what it has not taken lost.
\<close>

theorem messages_conserved:
  assumes "ov_reachable c s"
  shows "mset (os_entered s) = mset (map snd (os_fates s)) + mset (ov_pendingMsg (os_ov s)) + mset (gos_hold (os_gos s)) \<and>
    (\<forall>i. case map_of (ov_instances (os_ov s)) i of
       Some n \<Rightarrow> delivered_to i s = taken_by i s @ n_dispatchQueue n
     | None \<Rightarrow> delivered_to i s = [] \<or> ov_done (os_ov s) i \<and> (\<exists>lost. delivered_to i s = taken_by i s @ lost))"
proof (intro conjI allI)
  show "mset (os_entered s) = mset (map snd (os_fates s)) + mset (ov_pendingMsg (os_ov s)) + mset (gos_hold (os_gos s))"
    using transport.reachable_inv [OF assms] unfolding msg_inv_def .
  have inv: "created_inv s" "fifo_inv s" using queues.reachable_inv [OF assms] by blast+
  fix i
  have f: "fifo_at (ov_protos (os_ov s) i) (i \<in> set (os_created s)) (inst_view (os_ov s) i) (delivered_to i s) (taken_by i s)"
    using inv(2) by (simp add: fifo_inv_def)
  have used: "i \<in> set (os_created s) \<Longrightarrow> ov_protos (os_ov s) i \<or> ov_done (os_ov s) i" using inv(1) by (auto simp: created_inv_def)
  show "case map_of (ov_instances (os_ov s)) i of Some n \<Rightarrow> delivered_to i s = taken_by i s @ n_dispatchQueue n
     | None \<Rightarrow> delivered_to i s = [] \<or> ov_done (os_ov s) i \<and> (\<exists>lost. delivered_to i s = taken_by i s @ lost)"
    using f used by (cases "map_of (ov_instances (os_ov s)) i") (auto simp: fifo_at_def inst_view_def)
qed

definition sample_handed :: "(nat, nat) ProtocolMsg" where
  "sample_handed = (sample_to 1)\<lparr>pm_To := Some sample_run_token\<rparr>"

lemma messages_conserved_witness:
  "\<exists>s n. ov_reachable sample_crypto s \<and> delivered_to (Token_ID sample_crypto sample_run_token) s = [sample_handed] \<and>
     map_of (ov_instances (os_ov s)) (Token_ID sample_crypto sample_run_token) = Some n \<and> n_dispatchQueue n = [sample_handed]"
proof -
  let ?c = sample_crypto and ?m = sample_handed and ?i = "Token_ID sample_crypto sample_run_token"
  have m: "pm_To ?m = Some sample_run_token" "tok_Tree sample_run_token = 9" by (simp_all add: sample_handed_def sample_run_token_def)
  obtain ov1 :: "(nat, nat) Overlay" where
    c: "CreateProtocol ?c True sample_tree 3 0 1 NewOverlay = Inr ((None, sample_run_token), ov1)" and
    st: "ov_store ov1 = ts_Set sample_tree newTreeStorage"
    by (simp add: CreateProtocol_def NewTreeNodeInstanceFromService_def sample_tree_def sample_run_token_def nonnil_def
        sample_roster_def RegisterProtocolInstance_def newTreeNodeInstanceFromToken_def RegisterTree_def newTreeNodeInstance_def NewOverlay_def Let_def)
  note v1 = CreateProtocol_view [OF c]
  let ?ck = "(GCheck sample_tree, [])"
  let ?s = "\<lambda>ov gos ent fates. \<lparr>os_ov = ov, os_gos = gos, os_entered = ent, os_fates = fates, os_created = [?i], os_taken = []\<rparr> :: (nat, nat) ov_sys"
  have "ov_step ?c (LTrees [ot_ID sample_tree]) ov_start (?s ov1 [?ck] [] [])"
    using ov_step.create [of ?c True sample_tree 3 0 1 ov_start None sample_run_token ov1] c by (simp add: ov_start_def registered_def)
  then have 1: "ov_reachable ?c (?s ov1 [?ck] [] [])" by (intro next_step [OF at_start]) blast+
  have "ov_step ?c LOther (?s ov1 [?ck] [] []) (?s ov1 [?ck, (GTransmit ?m, [])] [?m] [])"
    using ov_step.arrive [of ?c "?s ov1 [?ck] [] []" ?m] by simp
  then have 2: "ov_reachable ?c (?s ov1 [?ck, (GTransmit ?m, [])] [?m] [])" using next_step [OF 1] by blast
  have "ts_getAndRefresh (tok_Tree sample_run_token) (ov_store ov1) = (Some sample_tree, ov_store ov1)"
    by (simp add: m(2) st ts_getAndRefresh_def Let_def cancelDeletion_def newTreeStorage_def ts_Get_def ts_Set_def sample_tree_def)
  then have "go_step ?c (GTransmit ?m, []) ov1 [(GLocked sample_tree ?m, [])] ov1 [] []"
    using go_step.found [OF m(1), of ov1 sample_tree "ov_store ov1" ?c "[]"] by simp
  then have "ov_step ?c LGo (?s ov1 [?ck, (GTransmit ?m, [])] [?m] []) (?s ov1 [?ck, (GLocked sample_tree ?m, [])] [?m] [])"
    using ov_step.goroutine [of "?s ov1 [?ck, (GTransmit ?m, [])] [?m] []" "[?ck]" "(GTransmit ?m, [])" "[]" ?c] by fastforce
  then have 3: "ov_reachable ?c (?s ov1 [?ck, (GLocked sample_tree ?m, [])] [?m] [])" using next_step [OF 2] by blast
  have b: "ov_protos ov1 ?i" "\<not> ov_done ov1 ?i" using v1 by (simp_all add: NewOverlay_def)
  then have "transmit_locked ?c NewInstance sample_tree sample_run_token ?m ov1 = (Delivered ?i, deliver ?i ?m ov1)"
    by (simp add: transmit_locked_def Let_def)
  from go_step.locked [OF m(1) this, of "[]"]
  have "go_step ?c (GLocked sample_tree ?m, []) ov1 [(GNext, [])] (deliver ?i ?m ov1) [(Delivered ?i, ?m)] []" using b by simp
  then have "ov_step ?c LGo (?s ov1 [?ck, (GLocked sample_tree ?m, [])] [?m] []) (?s (deliver ?i ?m ov1) [?ck, (GNext, [])] [?m] [(Delivered ?i, ?m)])"
    using ov_step.goroutine [of "?s ov1 [?ck, (GLocked sample_tree ?m, [])] [?m] []" "[?ck]" "(GLocked sample_tree ?m, [])" "[]" ?c] by fastforce
  then have 4: "ov_reachable ?c (?s (deliver ?i ?m ov1) [?ck, (GNext, [])] [?m] [(Delivered ?i, ?m)])" (is "ov_reachable ?c ?s4")
    using next_step [OF 3] by blast
  have "inst_view (os_ov ?s4) ?i \<noteq> None" using v1 by (simp add: inst_view_deliver)
  then obtain n where n: "map_of (ov_instances (os_ov ?s4)) ?i = Some n" by (auto simp: inst_view_def)
  have d: "delivered_to ?i ?s4 = [?m]" "taken_by ?i ?s4 = []" by (simp_all add: delivered_to_def taken_by_def)
  then have "n_dispatchQueue n = [?m]" using messages_conserved [OF 4] n by (auto elim!: allE [of _ ?i])
  then show ?thesis using 4 n d(1) by (intro exI [of _ ?s4] exI [of _ n]) simp
qed

section \<open>A message that waits for a tree that is there\<close>

text \<open>
  A message is pending, its tree is in the store, and no goroutine is going to look at the pending
  messages of that tree.
\<close>

definition stranded :: "uuid \<Rightarrow> ('p, 'm) ProtocolMsg \<Rightarrow> ('p, 'm) ov_sys \<Rightarrow> bool" where
  "stranded i msg s \<longleftrightarrow> msg \<in> set (ov_pendingMsg (os_ov s)) \<and> for_tree i msg \<and>
    \<not> (\<exists>t rest. (GCheck t, rest) \<in> set (os_gos s) \<and> ot_ID t = i)"

inductive ov_run :: "'p crypto \<Rightarrow> ov_label list \<Rightarrow> ('p, 'm) ov_sys \<Rightarrow> ('p, 'm) ov_sys \<Rightarrow> bool" for c :: "'p crypto" where
  no_step: "ov_run c [] s s"
| steps: "ov_step c l s s' \<Longrightarrow> ov_run c ls s' s'' \<Longrightarrow> ov_run c (l # ls) s s''"

lemma ov_run_reachable: "ov_run c ls s s' \<Longrightarrow> ov_reachable c s \<Longrightarrow> ov_reachable c s'"
  by (induction rule: ov_run.induct) (auto intro: next_step)

fun registers :: "uuid \<Rightarrow> ov_label \<Rightarrow> bool" where
  "registers i (LTrees is) \<longleftrightarrow> i \<in> set is"
| "registers i _ \<longleftrightarrow> False"

lemma go_step_stranded:
  assumes "go_step c (g, rest) ov gs ov' outs made" and "for_tree i msg" and "msg \<in> set (ov_pendingMsg ov)" and "\<forall>t. g = GCheck t \<longrightarrow> ot_ID t \<noteq> i"
  shows "msg \<in> set (ov_pendingMsg ov') \<and> \<not> (\<exists>t rest. (GCheck t, rest) \<in> set gs)"
  using assms
proof (cases rule: go_step.cases)
  case (locked msg' tok np t fate)
  then show ?thesis using assms(3) transmit_locked_pending by fastforce
next
  case (check t msgs)
  then have "\<not> for_tree (ot_ID t) msg" using assms(2,4) by (auto simp: for_tree_def split: option.splits)
  then show ?thesis using check assms(3) by (auto simp: take_pending_def)
qed (auto simp: savePendingMsg_def with_store_def ov_send_def)

lemma registered_stranded:
  "stranded i msg s \<Longrightarrow> ov_pendingMsg ov = ov_pendingMsg (os_ov s) \<Longrightarrow> i \<notin> ot_ID ` set ts \<Longrightarrow> stranded i msg (registered ts ov s)"
  by (auto simp: stranded_def registered_def)

lemma stranded_step: "ov_step c l s s' \<Longrightarrow> stranded i msg s \<Longrightarrow> \<not> registers i l \<Longrightarrow> stranded i msg s'"
proof (induction rule: ov_step.induct)
  case (goroutine s A g B gs ov' outs made)
  obtain g0 rest where g: "g = (g0, rest)" by fastforce
  have "(g0, rest) \<in> set (os_gos s)" using goroutine(1) g by simp
  then have "\<forall>t. g0 = GCheck t \<longrightarrow> ot_ID t \<noteq> i" using goroutine(3) unfolding stranded_def by blast
  then show ?case using go_step_stranded [of c g0 rest "os_ov s" gs ov' outs made i msg] goroutine g
    unfolding stranded_def by auto
next
  case (create ok t protoID sid roundId s err tok ov')
  have "stranded i msg (registered [t] ov' s)"
    using create registered_stranded [OF create(3) CreateProtocol_pending [OF create(1)]] by simp
  then show ?case by (simp add: stranded_def)
next
  case (tree_sent tm ro s r ov')
  then show ?case by (intro registered_stranded handleSendTree_pending) auto
next
  case (marshal_sent si m s r ov')
  then show ?case by (intro registered_stranded handleSendTreeMarshal_pending) auto
next
  case (roster_sent el s ts ov')
  then show ?case by (intro registered_stranded handleSendRoster_pending) auto
next
  case (tree_local t s)
  then show ?case by (intro registered_stranded) (auto simp: RegisterTree_def)
next
  case (ask_roster order si rid s ov')
  then show ?case by (auto simp: stranded_def handleRequestRoster_pending)
qed (auto simp: stranded_def nodeDone_def handleConfigMessage_def)

lemma stranded_run: "ov_run c ls s s' \<Longrightarrow> stranded i msg s \<Longrightarrow> \<forall>l \<in> set ls. \<not> registers i l \<Longrightarrow> msg \<in> set (ov_pendingMsg (os_ov s'))"
  by (induction rule: ov_run.induct) (auto simp: stranded_def dest: stranded_step)

text \<open>The run: a message finds no tree; before it is saved the tree is registered and its check has run.\<close>

definition sample_late :: "(nat, nat) ov_sys" where
  "sample_late = \<lparr>os_ov = NewOverlay\<lparr>ov_store := ts_Set sample_tree newTreeStorage, ov_pendingMsg := [sample_to 1]\<rparr>, os_gos = [],
     os_entered = [sample_to 1], os_fates = [], os_created = [], os_taken = []\<rparr>"

lemma sample_late_reachable: "ov_reachable sample_crypto sample_late"
proof -
  let ?c = sample_crypto and ?m = "sample_to 1" and ?st = "ts_Set sample_tree newTreeStorage"
  let ?ov1 = "NewOverlay\<lparr>ov_store := ?st\<rparr>" and ?ov2 = "NewOverlay\<lparr>ov_store := ?st, ov_pendingMsg := [?m]\<rparr>"
  let ?s = "\<lambda>ov gos. \<lparr>os_ov = ov, os_gos = gos, os_entered = [?m], os_fates = [], os_created = [], os_taken = []\<rparr> :: (nat, nat) ov_sys"
  have m: "pm_To ?m = Some sample_token" "tok_Tree sample_token = 9" by (simp_all add: sample_to_def sample_token_def)
  have 1: "ov_reachable ?c (?s NewOverlay [(GTransmit ?m, [])])"
    using arrived_reachable by (simp add: ov_start_def)
  have step: "ov_reachable ?c (?s ov' (A @ gs @ B))" if "ov_reachable ?c (?s ov (A @ g # B))" "go_step ?c g ov gs ov' [] []" for ov A g B gs ov'
    using next_step [OF that(1), of "?s ov' (A @ gs @ B)"] ov_step.goroutine [of "?s ov (A @ g # B)" A g B ?c gs ov' "[]" "[]"] that(2) by auto
  have same: "NewOverlay\<lparr>ov_store := ov_store NewOverlay\<rparr> = NewOverlay" by (simp add: NewOverlay_def)
  have "ts_getAndRefresh 9 (ov_store NewOverlay) = (None, ov_store NewOverlay)"
    by (simp add: ts_getAndRefresh_def Let_def cancelDeletion_def NewOverlay_def newTreeStorage_def ts_Get_def)
  then have "ts_getAndRefresh (tok_Tree sample_token) (ov_store NewOverlay) = (None, ov_store NewOverlay)" by (simp only: m(2))
  from go_step.missing [OF m(1) this, of ?c "[]"]
  have "go_step ?c (GTransmit ?m, []) NewOverlay [(GSave ?m, [])] NewOverlay [] []" unfolding same .
  from step [of NewOverlay "[]" "(GTransmit ?m, [])" "[]", OF _ this] 1 have 2: "ov_reachable ?c (?s NewOverlay [(GSave ?m, [])])" by simp
  have "ov_step ?c (LTrees [9]) (?s NewOverlay [(GSave ?m, [])]) (?s ?ov1 [(GSave ?m, []), (GCheck sample_tree, [])])"
    using ov_step.tree_local [of ?c sample_tree "?s NewOverlay [(GSave ?m, [])]"]
    by (simp add: registered_def RegisterTree_def sample_tree_def NewOverlay_def)
  then have 3: "ov_reachable ?c (?s ?ov1 [(GSave ?m, []), (GCheck sample_tree, [])])" using next_step [OF 2] by blast
  have "go_step ?c (GCheck sample_tree, []) ?ov1 [(GNext, [])] ?ov1 [] []"
    using go_step.check [of sample_tree ?ov1 "[]" ?ov1 ?c "[]"] by (simp add: take_pending_def NewOverlay_def)
  from step [of ?ov1 "[(GSave ?m, [])]" "(GCheck sample_tree, [])" "[]", OF _ this] 3
  have 4: "ov_reachable ?c (?s ?ov1 [(GSave ?m, []), (GNext, [])])" by simp
  from step [of ?ov1 "[(GSave ?m, [])]" "(GNext, [])" "[]", OF _ go_step.ended] 4
  have 5: "ov_reachable ?c (?s ?ov1 [(GSave ?m, [])])" by simp
  have "go_step ?c (GSave ?m, []) ?ov1 [(GAsk 9 (pm_Server ?m), [])] ?ov2 [] []"
    using go_step.save [OF m(1), of ?c "[]" ?ov1] m(2) by (simp add: savePendingMsg_def NewOverlay_def)
  from step [of ?ov1 "[]" "(GSave ?m, [])" "[]", OF _ this] 5 have 6: "ov_reachable ?c (?s ?ov2 [(GAsk 9 (pm_Server ?m), [])])" by simp
  have "ts_IsRegistered 9 (ov_store ?ov2)" by (simp add: ts_IsRegistered_def ts_Set_def Let_def sample_tree_def)
  from step [of ?ov2 "[]" "(GAsk 9 (pm_Server ?m), [])" "[]", OF _ go_step.known [OF this]] 6
  have 7: "ov_reachable ?c (?s ?ov2 [(GNext, [])])" by simp
  from step [of ?ov2 "[]" "(GNext, [])" "[]", OF _ go_step.ended] 7 show ?thesis by (simp add: sample_late_def)
qed

text \<open>
  C17: a message can be left waiting for a tree that is already there. The tree is looked up, the message
  saved, and the store asked again whether the tree is known, each under its own lock. When the tree is
  registered in between, and the check of its pending messages runs before the message is saved, the
  message stays pending with nobody to take it: no request is sent for a known tree, and no step but a
  new registration of that tree, whatever else comes in, gets it out.
\<close>

theorem message_can_be_stranded:
  "(\<exists>s :: (nat, nat) ov_sys. ov_reachable sample_crypto s \<and> os_gos s = [] \<and> stranded 9 (sample_to 1) s \<and>
      ts_Get 9 (ov_store (os_ov s)) = Some sample_tree \<and> ov_sent (os_ov s) = []) \<and>
   (\<forall>c s s' ls i msg. stranded i msg s \<and> ov_run c ls s s' \<and> (\<forall>l \<in> set ls. \<not> registers i l) \<longrightarrow> msg \<in> set (ov_pendingMsg (os_ov s')))"
proof (intro conjI allI impI)
  have "stranded 9 (sample_to 1) sample_late"
    by (simp add: stranded_def sample_late_def NewOverlay_def for_tree_def sample_to_def sample_token_def)
  moreover have "ts_Get 9 (ov_store (os_ov sample_late)) = Some sample_tree"
    by (simp add: sample_late_def ts_Get_def ts_Set_def Let_def sample_tree_def)
  ultimately show "\<exists>s :: (nat, nat) ov_sys. ov_reachable sample_crypto s \<and> os_gos s = [] \<and> stranded 9 (sample_to 1) s \<and>
      ts_Get 9 (ov_store (os_ov s)) = Some sample_tree \<and> ov_sent (os_ov s) = []"
    using sample_late_reachable by (intro exI [of _ sample_late]) (simp add: sample_late_def NewOverlay_def)
qed (use stranded_run in blast)

lemma message_can_be_stranded_witness:
  "sample_to 1 \<in> set (ov_pendingMsg (os_ov (sample_late\<lparr>os_gos := [(GTransmit (sample_to 2), [])], os_entered := [sample_to 1, sample_to 2]\<rparr>)))"
proof -
  let ?s' = "sample_late\<lparr>os_gos := [(GTransmit (sample_to 2), [])], os_entered := [sample_to 1, sample_to 2]\<rparr>"
  have "ov_step sample_crypto LOther sample_late ?s'"
    using ov_step.arrive [of sample_crypto sample_late "sample_to 2"] by (simp add: sample_late_def)
  then have "ov_run sample_crypto [LOther] sample_late ?s'" by (auto intro: ov_run.intros)
  moreover have "stranded 9 (sample_to 1) sample_late"
    by (simp add: stranded_def sample_late_def NewOverlay_def for_tree_def sample_to_def sample_token_def)
  ultimately show ?thesis using message_can_be_stranded by fastforce
qed

end
