(* ===== verification/NetEncoding.thy ===== *)
theory NetEncoding
  imports OnetRoster
begin

text \<open>
  The encoding of messages (\<open>onet/network/encoding.go\<close>): the registry of message types, and the bytes
  of a message, which are the 16 bytes of its type and its protobuf encoding. Protobuf is a parameter.
\<close>

section \<open>Integers in network order\<close>

fun be_bytes :: "nat \<Rightarrow> nat \<Rightarrow> bytes" where
  "be_bytes 0 n = []"
| "be_bytes (Suc k) n = be_bytes k (n div 256) @ [word_of_nat n]"

definition be_nat :: "bytes \<Rightarrow> nat" where
  "be_nat bs = foldl (\<lambda>a b. 256 * a + unat b) 0 bs"

lemma length_be_bytes [simp]: "length (be_bytes k n) = k"
  by (induction k arbitrary: n) auto

lemma be_nat_snoc: "be_nat (bs @ [b]) = 256 * be_nat bs + unat b"
  by (simp add: be_nat_def)

lemma be_nat_be_bytes: "n < 256 ^ k \<Longrightarrow> be_nat (be_bytes k n) = n"
proof (induction k arbitrary: n)
  case (Suc k)
  have "n div 256 < 256 ^ k" using Suc.prems by (simp add: less_mult_imp_div_less mult.commute)
  then show ?case using Suc.IH by (simp add: be_nat_snoc unat_of_nat)
qed (simp add: be_nat_def)

declare be_bytes.simps [simp del]

section \<open>The registry of message types\<close>

text \<open>A Go type has its import path; \<open>String\<close> of \<open>reflect.Type\<close> gives the package's name only.\<close>

record GoType =
  ty_Path :: string
  ty_Package :: string
  ty_Name :: string

definition ty_String :: "GoType \<Rightarrow> string" where
  "ty_String t = ty_Package t @ ''.'' @ ty_Name t"

definition NamespaceBodyType :: string where
  "NamespaceBodyType = NamespaceURL @ ''/protocolType/''"

definition computeMessageType :: "'p crypto \<Rightarrow> GoType \<Rightarrow> uuid" where
  "computeMessageType c t = UuidURL c (NamespaceBodyType @ ty_String t)"

type_synonym typeRegistry = "uuid \<rightharpoonup> GoType"

definition newTypeRegistry :: typeRegistry where
  "newTypeRegistry = Map.empty"

definition reg_get :: "uuid \<Rightarrow> typeRegistry \<Rightarrow> GoType option" where
  "reg_get i reg = reg i"

definition reg_put :: "uuid \<Rightarrow> GoType \<Rightarrow> typeRegistry \<Rightarrow> typeRegistry" where
  "reg_put i t reg = reg(i \<mapsto> t)"

definition RegisterMessage :: "'p crypto \<Rightarrow> GoType \<Rightarrow> typeRegistry \<Rightarrow> uuid \<times> typeRegistry" where
  "RegisterMessage c t reg = (let i = computeMessageType c t in (i, reg_put i t reg))"

fun RegisterMessages :: "'p crypto \<Rightarrow> GoType list \<Rightarrow> typeRegistry \<Rightarrow> uuid list \<times> typeRegistry" where
  "RegisterMessages c [] reg = ([], reg)"
| "RegisterMessages c (t # ts) reg =
    (let (i, reg1) = RegisterMessage c t reg; (is, reg2) = RegisterMessages c ts reg1 in (i # is, reg2))"

text \<open>\<open>ErrorType\<close> is the nil id.\<close>

definition MessageType :: "'p crypto \<Rightarrow> GoType \<Rightarrow> typeRegistry \<Rightarrow> uuid" where
  "MessageType c t reg = (let i = computeMessageType c t in if reg_get i reg = None then 0 else i)"

section \<open>Marshalling\<close>

record 'm codec =
  TypeOf :: "'m \<Rightarrow> GoType"
  PbEncode :: "'m \<Rightarrow> bytes option"
  PbDecode :: "GoType \<Rightarrow> bytes \<Rightarrow> 'm option"

definition Marshal :: "'p crypto \<Rightarrow> 'm codec \<Rightarrow> typeRegistry \<Rightarrow> 'm \<Rightarrow> string + bytes" where
  "Marshal c cd reg m =
    (let i = MessageType c (TypeOf cd m) reg in
     if i = 0 then Inl ''type of message not registered to the network library''
     else case PbEncode cd m of
       None \<Rightarrow> Inl ''encoding''
     | Some buf \<Rightarrow> Inr (be_bytes 16 (unat i) @ buf))"

definition Unmarshal :: "'m codec \<Rightarrow> typeRegistry \<Rightarrow> bytes \<Rightarrow> string + uuid \<times> 'm" where
  "Unmarshal cd reg buf =
    (if length buf < 16 then Inl ''buffer read''
     else let i = word_of_nat (be_nat (take 16 buf)) in
       case reg_get i reg of
         None \<Rightarrow> Inl ''type not registered''
       | Some t \<Rightarrow> (case PbDecode cd t (drop 16 buf) of None \<Rightarrow> Inl ''decoding'' | Some m \<Rightarrow> Inr (i, m)))"

lemma uuid_bytes: "word_of_nat (be_nat (be_bytes 16 (unat (i :: uuid)))) = i"
proof -
  have "unat i < 256 ^ 16" using unsigned_less [of i] by simp
  then show ?thesis by (simp add: be_nat_be_bytes del: be_bytes.simps)
qed

lemma Unmarshal_Marshal:
  assumes "Marshal c cd reg m = Inr buf" and "PbEncode cd m = Some b"
  shows "Unmarshal cd reg buf =
    (case reg (computeMessageType c (TypeOf cd m)) of
       None \<Rightarrow> Inl ''type not registered''
     | Some t \<Rightarrow> (case PbDecode cd t b of None \<Rightarrow> Inl ''decoding'' | Some m' \<Rightarrow> Inr (computeMessageType c (TypeOf cd m), m')))"
  using assms
  by (auto simp: Marshal_def Unmarshal_def MessageType_def reg_get_def Let_def uuid_bytes
      simp del: be_bytes.simps split: if_splits option.splits)

text \<open>Registering in order: of the types with an id, the last one is found under it.\<close>

fun registered_last :: "'p crypto \<Rightarrow> uuid \<Rightarrow> GoType list \<Rightarrow> GoType option \<Rightarrow> GoType option" where
  "registered_last c i [] t0 = t0"
| "registered_last c i (t # ts) t0 = registered_last c i ts (if computeMessageType c t = i then Some t else t0)"

lemma RegisterMessages_lookup: "snd (RegisterMessages c ts reg) i = registered_last c i ts (reg i)"
  by (induction ts arbitrary: reg) (simp_all add: RegisterMessage_def reg_put_def Let_def split_beta)

lemma registered_last_unique:
  "t \<in> set ts \<or> t0 = Some t \<Longrightarrow> \<forall>t' \<in> set ts. computeMessageType c t' = computeMessageType c t \<longrightarrow> t' = t \<Longrightarrow>
    registered_last c (computeMessageType c t) ts t0 = Some t"
  by (induction ts arbitrary: t0) auto

text \<open>
  What is marshalled is unmarshalled to the same message and its type, after any registrations:
  when the type of the message has been registered and no other registered type has its package name and
  type name, and protobuf decodes what it encoded, \<open>Unmarshal\<close> gives back the message.
\<close>

theorem marshal_roundtrip:
  assumes "reg = snd (RegisterMessages c ts newTypeRegistry)" and "TypeOf cd m \<in> set ts"
    and "\<forall>t \<in> set ts. computeMessageType c t = computeMessageType c (TypeOf cd m) \<longrightarrow> t = TypeOf cd m"
    and "computeMessageType c (TypeOf cd m) \<noteq> 0"
    and "PbEncode cd m = Some b" and "PbDecode cd (TypeOf cd m) b = Some m"
  shows "\<exists>buf. Marshal c cd reg m = Inr buf \<and> length buf = 16 + length b \<and>
    Unmarshal cd reg buf = Inr (computeMessageType c (TypeOf cd m), m)"
proof -
  let ?i = "computeMessageType c (TypeOf cd m)"
  have reg: "reg ?i = Some (TypeOf cd m)"
    unfolding assms(1) RegisterMessages_lookup by (rule registered_last_unique [OF _ assms(3)]) (simp add: assms(2))
  then have M: "Marshal c cd reg m = Inr (be_bytes 16 (unat ?i) @ b)"
    unfolding Marshal_def MessageType_def reg_get_def Let_def reg using assms(4,5) by simp
  have "Unmarshal cd reg (be_bytes 16 (unat ?i) @ b) = Inr (?i, m)"
    unfolding Unmarshal_Marshal [OF M assms(5)] reg using assms(6) by simp
  with M show ?thesis by (intro exI [of _ "be_bytes 16 (unat ?i) @ b"] conjI) simp_all
qed

definition sample_type :: "nat \<Rightarrow> GoType" where
  "sample_type k = \<lparr>ty_Path = ''onet'', ty_Package = ''onet'', ty_Name = replicate k CHR ''T''\<rparr>"

definition sample_codec :: "nat codec" where
  "sample_codec = \<lparr>TypeOf = (\<lambda>m. sample_type 1), PbEncode = (\<lambda>m. Some [word_of_nat m]),
     PbDecode = (\<lambda>t bs. if length bs = 1 then Some (unat (hd bs)) else None)\<rparr>"

definition sample_enc_crypto :: "nat crypto" where
  "sample_enc_crypto = \<lparr>PointBytes = (\<lambda>p. [word_of_nat p]), PointString = (\<lambda>p. replicate p CHR ''p''), PointAdd = (+), PointNull = 0,
     UuidURL = (\<lambda>s. word_of_nat (length s)), UuidString = (\<lambda>u. []), Sha256Hex = (\<lambda>bs. [])\<rparr>"

lemma marshal_roundtrip_witness:
  "\<exists>buf. Marshal sample_enc_crypto sample_codec
      (snd (RegisterMessages sample_enc_crypto [sample_type 1, sample_type 0] newTypeRegistry)) 5 = Inr buf \<and> length buf = 17"
proof -
  have "\<exists>buf. Marshal sample_enc_crypto sample_codec
      (snd (RegisterMessages sample_enc_crypto [sample_type 1, sample_type 0] newTypeRegistry)) 5 = Inr buf \<and> length buf = 16 + length [5 :: 8 word] \<and>
      Unmarshal sample_codec (snd (RegisterMessages sample_enc_crypto [sample_type 1, sample_type 0] newTypeRegistry)) buf =
        Inr (computeMessageType sample_enc_crypto (TypeOf sample_codec 5), 5)"
    by (rule marshal_roundtrip [OF refl])
      (simp_all add: sample_codec_def sample_type_def sample_enc_crypto_def computeMessageType_def NamespaceBodyType_def
        NamespaceURL_def ty_String_def)
  then show ?thesis by auto
qed

end
