(* ===== verification/NetAddress.thy ===== *)
theory NetAddress
  imports Prelude
begin

text \<open>
  Network addresses (\<open>onet/network/address.go\<close>), with the functions of Go's standard library they are
  parsed with. Addresses are ASCII. The resolver of the host is a parameter: the first address of a host
  name, or an error.
\<close>

section \<open>Strings\<close>

fun prefix_of :: "string \<Rightarrow> string \<Rightarrow> bool" where
  "prefix_of [] t = True"
| "prefix_of (a # s) [] = False"
| "prefix_of (a # s) (b # t) = (a = b \<and> prefix_of s t)"

text \<open>\<open>strings.Split\<close> with a separator that is not empty; \<open>acc\<close> is the part read so far, backwards.\<close>

function split_go :: "string \<Rightarrow> string \<Rightarrow> string \<Rightarrow> string list" where
  "split_go sep acc [] = [rev acc]"
| "split_go sep acc (a # s) =
    (if prefix_of sep (a # s) then rev acc # split_go sep [] (drop (length sep - 1) s) else split_go sep (a # acc) s)"
  by pat_completeness auto

termination by (relation "measure (\<lambda>(sep, acc, s). length s)") auto

definition strings_Split :: "string \<Rightarrow> string \<Rightarrow> string list" where
  "strings_Split s sep = split_go sep [] s"

fun index_from :: "nat \<Rightarrow> char \<Rightarrow> string \<Rightarrow> nat option" where
  "index_from i c [] = None"
| "index_from i c (a # s) = (if a = c then Some i else index_from (Suc i) c s)"

definition IndexByte :: "string \<Rightarrow> char \<Rightarrow> nat option" where
  "IndexByte s c = index_from 0 c s"

fun last_index_from :: "nat \<Rightarrow> char \<Rightarrow> string \<Rightarrow> nat option" where
  "last_index_from i c [] = None"
| "last_index_from i c (a # s) =
    (case last_index_from (Suc i) c s of Some j \<Rightarrow> Some j | None \<Rightarrow> if a = c then Some i else None)"

definition LastIndexByte :: "string \<Rightarrow> char \<Rightarrow> nat option" where
  "LastIndexByte s c = last_index_from 0 c s"

definition is_digit :: "char \<Rightarrow> bool" where
  "is_digit c \<longleftrightarrow> 48 \<le> (of_char c :: nat) \<and> (of_char c :: nat) \<le> 57"

definition is_lower :: "char \<Rightarrow> bool" where
  "is_lower c \<longleftrightarrow> 97 \<le> (of_char c :: nat) \<and> (of_char c :: nat) \<le> 122"

definition is_hex :: "char \<Rightarrow> bool" where
  "is_hex c \<longleftrightarrow> is_digit c \<or> (97 \<le> (of_char c :: nat) \<and> (of_char c :: nat) \<le> 102) \<or> (65 \<le> (of_char c :: nat) \<and> (of_char c :: nat) \<le> 70)"

definition to_lower :: "char \<Rightarrow> char" where
  "to_lower c = (if 65 \<le> (of_char c :: nat) \<and> (of_char c :: nat) \<le> 90 then char_of ((of_char c :: nat) + 32) else c)"

text \<open>Hexadecimal, as \<open>encoding/hex\<close> has it.\<close>

definition hex_digit :: "char \<Rightarrow> nat" where
  "hex_digit c = (if is_digit c then of_char c - 48 else of_char (to_lower c) - 87)"

fun hex_decode :: "string \<Rightarrow> 8 word list option" where
  "hex_decode [] = Some []"
| "hex_decode [c] = None"
| "hex_decode (c # d # s) =
    (if is_hex c \<and> is_hex d then map_option ((#) (word_of_nat (16 * hex_digit c + hex_digit d))) (hex_decode s) else None)"

definition digits_value :: "string \<Rightarrow> nat" where
  "digits_value s = foldl (\<lambda>n c. 10 * n + (of_char c - 48)) 0 s"

text \<open>\<open>strconv.Atoi\<close>: a sign is allowed.\<close>

definition decimal :: "string \<Rightarrow> nat option" where
  "decimal s = (if s \<noteq> [] \<and> list_all is_digit s then Some (digits_value s) else None)"

fun Atoi :: "string \<Rightarrow> int option" where
  "Atoi [] = None"
| "Atoi (c # s) =
    (case decimal (if c = CHR ''-'' \<or> c = CHR ''+'' then s else c # s) of
       None \<Rightarrow> None
     | Some n \<Rightarrow>
         if c = CHR ''-'' then (if n \<le> 2 ^ 63 then Some (- int n) else None)
         else if n < 2 ^ 63 then Some (int n) else None)"

section \<open>net.SplitHostPort and net.ParseIP\<close>

text \<open>None is an error. The port starts after the last colon; a host with colons is in brackets.\<close>

definition SplitHostPort :: "string \<Rightarrow> (string \<times> string) option" where
  "SplitHostPort hostport =
    (case LastIndexByte hostport CHR '':'' of
       None \<Rightarrow> None
     | Some i \<Rightarrow>
         if hd hostport = CHR ''['' then
           (case IndexByte hostport CHR '']'' of
              None \<Rightarrow> None
            | Some e \<Rightarrow>
                if e + 1 \<noteq> i then None
                else if CHR ''['' \<in> set (drop 1 hostport) \<or> CHR '']'' \<in> set (drop (e + 1) hostport) then None
                else Some (drop 1 (take e hostport), drop (i + 1) hostport))
         else
           let host = take i hostport in
           if CHR '':'' \<in> set host then None
           else if CHR ''['' \<in> set hostport \<or> CHR '']'' \<in> set hostport then None
           else Some (host, drop (i + 1) hostport))"

definition octet_ok :: "string \<Rightarrow> bool" where
  "octet_ok s \<longleftrightarrow> (case decimal s of None \<Rightarrow> False | Some n \<Rightarrow> n \<le> 255 \<and> \<not> (1 < length s \<and> hd s = CHR ''0''))"

definition parseIPv4 :: "string \<Rightarrow> bool" where
  "parseIPv4 s \<longleftrightarrow> (let parts = strings_Split s ''.'' in length parts = 4 \<and> list_all octet_ok parts)"

definition group_ok :: "string \<Rightarrow> bool" where
  "group_ok s \<longleftrightarrow> s \<noteq> [] \<and> length s \<le> 4 \<and> list_all is_hex s"

text \<open>The number of 16-bit groups of one side of the ellipsis, whose last one may be an IPv4 address.\<close>

definition groups :: "bool \<Rightarrow> string \<Rightarrow> nat option" where
  "groups v4 s =
    (if s = [] then Some 0
     else let parts = strings_Split s '':'' in
       if list_all group_ok parts then Some (length parts)
       else if v4 \<and> list_all group_ok (butlast parts) \<and> parseIPv4 (last parts) then Some (length parts + 1)
       else None)"

definition parseIPv6 :: "string \<Rightarrow> bool" where
  "parseIPv6 s \<longleftrightarrow>
    (case strings_Split s ''::'' of
       [one] \<Rightarrow> groups True one = Some 8
     | [l, r] \<Rightarrow> (case (groups False l, groups True r) of (Some m, Some n) \<Rightarrow> m + n \<le> 7 | _ \<Rightarrow> False)
     | _ \<Rightarrow> False)"

text \<open>Whether \<open>net.ParseIP\<close> gives an address: the first dot or colon tells which form is tried.\<close>

fun first_separator :: "string \<Rightarrow> char option" where
  "first_separator [] = None"
| "first_separator (a # s) = (if a = CHR ''.'' \<or> a = CHR '':'' then Some a else first_separator s)"

definition ParseIP :: "string \<Rightarrow> bool" where
  "ParseIP s \<longleftrightarrow>
    (case first_separator s of None \<Rightarrow> False | Some c \<Rightarrow> if c = CHR ''.'' then parseIPv4 s else parseIPv6 s)"

definition JoinHostPort :: "string \<Rightarrow> string \<Rightarrow> string" where
  "JoinHostPort host port = (if CHR '':'' \<in> set host then ''['' @ host @ '']:'' @ port else host @ '':'' @ port)"

section \<open>Addresses\<close>

definition PlainTCP :: string where "PlainTCP = ''tcp''"
definition TLS :: string where "TLS = ''tls''"
definition Local :: string where "Local = ''local''"
definition InvalidConnType :: string where "InvalidConnType = ''wrong''"

definition typeAddressSep :: string where
  "typeAddressSep = ''://''"

definition connType :: "string \<Rightarrow> string" where
  "connType t = (if t \<in> {PlainTCP, TLS, Local} then t else InvalidConnType)"

definition label_ok :: "string \<Rightarrow> bool" where
  "label_ok s \<longleftrightarrow> s \<noteq> [] \<and> list_all (\<lambda>c. is_lower c \<or> is_digit c \<or> c = CHR ''-'') s \<and> hd s \<noteq> CHR ''-'' \<and> last s \<noteq> CHR ''-''"

text \<open>The regular expression of \<open>validHostname\<close>: labels, and a last one of letters.\<close>

definition hostname_regexp :: "string \<Rightarrow> bool" where
  "hostname_regexp s \<longleftrightarrow>
    (let labels = strings_Split s ''.'' in list_all label_ok (butlast labels) \<and> last labels \<noteq> [] \<and> list_all is_lower (last labels))"

definition validHostname :: "string \<Rightarrow> bool" where
  "validHostname s0 \<longleftrightarrow>
    (if s0 = [] then False
     else let s1 = map to_lower s0;
              maxLength = (if last s1 = CHR ''.'' then 254 else 253 :: nat);
              s = (if last s1 = CHR ''.'' then butlast s1 else s1)
       in if maxLength < length s then False
          else if list_ex (\<lambda>l. length l < 1 \<or> 63 < length l) (strings_Split s ''.'') then False
          else hostname_regexp s \<or> CHR ''.'' \<notin> set s)"

definition Valid :: "string \<Rightarrow> bool" where
  "Valid a \<longleftrightarrow>
    (case strings_Split a typeAddressSep of
       [t, na] \<Rightarrow>
         connType t \<noteq> InvalidConnType \<and>
         (case SplitHostPort na of
            None \<Rightarrow> False
          | Some (ip, port) \<Rightarrow>
              (case Atoi port of
                 None \<Rightarrow> False
               | Some p \<Rightarrow> 0 \<le> p \<and> p \<le> 65535 \<and> (ip = [] \<or> ParseIP ip \<or> validHostname ip)))
     | _ \<Rightarrow> False)"

definition ConnType :: "string \<Rightarrow> string" where
  "ConnType a = (if \<not> Valid a then InvalidConnType else connType (strings_Split a typeAddressSep ! 0))"

definition NetworkAddress :: "string \<Rightarrow> string" where
  "NetworkAddress a = (if \<not> Valid a then [] else strings_Split a typeAddressSep ! 1)"

definition Host :: "string \<Rightarrow> string" where
  "Host a =
    (let na = NetworkAddress a in
     if na = [] then [] else case SplitHostPort na of None \<Rightarrow> [] | Some (h, p) \<Rightarrow> h)"

definition Port :: "string \<Rightarrow> string" where
  "Port a =
    (let na = NetworkAddress a in
     if na = [] then [] else case SplitHostPort na of None \<Rightarrow> [] | Some (h, p) \<Rightarrow> p)"

definition IsHostname :: "string \<Rightarrow> bool" where
  "IsHostname a \<longleftrightarrow> validHostname (Host a) \<and> \<not> ParseIP (Host a)"

definition Resolve :: "(string \<Rightarrow> string option) \<Rightarrow> string \<Rightarrow> string" where
  "Resolve lookupHost a =
    (if \<not> Valid a then []
     else let host = Host a in
       if host = ''[::]'' then ''::''
       else if ParseIP host then host
       else if \<not> IsHostname a then []
       else case lookupHost host of None \<Rightarrow> [] | Some ip \<Rightarrow> ip)"

definition NetworkAddressResolved :: "(string \<Rightarrow> string option) \<Rightarrow> string \<Rightarrow> string" where
  "NetworkAddressResolved lookupHost a =
    (if \<not> Valid a then [] else JoinHostPort (Resolve lookupHost a) (Port a))"

text \<open>The private networks, as the alternatives of the regular expression.\<close>

definition private_network :: "string \<Rightarrow> bool" where
  "private_network s \<longleftrightarrow>
    prefix_of ''127.'' s \<or> prefix_of ''10.'' s \<or>
    list_ex (\<lambda>d. prefix_of (''172.1'' @ [d] @ ''.'') s) ''6789'' \<or>
    list_ex (\<lambda>d. prefix_of (''172.2'' @ [d] @ ''.'') s) ''0123456789'' \<or>
    list_ex (\<lambda>d. prefix_of (''172.3'' @ [d] @ ''.'') s) ''01'' \<or>
    prefix_of ''192.168.'' s \<or> prefix_of ''169.254'' s \<or> prefix_of ''[::1]'' s \<or>
    (prefix_of ''[fd'' s \<and> CHR '':'' \<in> set (take 3 (drop 3 s)))"

definition Public :: "(string \<Rightarrow> string option) \<Rightarrow> string \<Rightarrow> bool" where
  "Public lookupHost a \<longleftrightarrow> \<not> private_network (NetworkAddressResolved lookupHost a) \<and> Valid a"

definition NewAddress :: "string \<Rightarrow> string \<Rightarrow> string" where
  "NewAddress t network = t @ typeAddressSep @ network"

definition GlobalBind :: "string \<Rightarrow> string + string" where
  "GlobalBind address = (case SplitHostPort address of None \<Rightarrow> Inl ''invalid address'' | Some (h, port) \<Rightarrow> Inr ('':'' @ port))"

text \<open>The address a TCP listener binds (\<open>onet/network/tcp.go\<close>).\<close>

definition getListenAddress :: "string \<Rightarrow> string \<Rightarrow> string + string" where
  "getListenAddress addr listenAddr =
    (if listenAddr = [] then GlobalBind (NetworkAddress addr)
     else case SplitHostPort (NetworkAddress addr) of
       None \<Rightarrow> Inl ''invalid address''
     | Some (h, port) \<Rightarrow>
         let splitted = strings_Split listenAddr '':'' in
         if length splitted = 1 \<and> port \<noteq> [] then Inr (splitted ! 0 @ '':'' @ port)
         else case SplitHostPort listenAddr of
           None \<Rightarrow> Inl ''invalid address''
         | Some (hostListen, portListen) \<Rightarrow>
             if hostListen \<noteq> [] \<and> portListen \<noteq> [] then Inr listenAddr
             else Inl ''Invalid combination of 'addr' and 'listenAddr' '')"

section \<open>Splitting and joining\<close>

fun strings_Join :: "string list \<Rightarrow> string \<Rightarrow> string" where
  "strings_Join [] sep = []"
| "strings_Join [p] sep = p"
| "strings_Join (p # q # ps) sep = p @ sep @ strings_Join (q # ps) sep"

lemma prefix_of_append: "prefix_of p s \<Longrightarrow> s = p @ drop (length p) s"
  by (induction p s rule: prefix_of.induct) auto

lemma prefix_of_set: "prefix_of p s \<Longrightarrow> set p \<subseteq> set s"
  using prefix_of_append by (metis Un_upper1 set_append)

lemma split_go_nonempty [simp]: "split_go sep acc s \<noteq> []"
  by (induction sep acc s rule: split_go.induct) auto

lemma Join_Cons: "ps \<noteq> [] \<Longrightarrow> strings_Join (p # ps) sep = p @ sep @ strings_Join ps sep"
  by (cases ps) auto

lemma Join_split_go: "sep \<noteq> [] \<Longrightarrow> strings_Join (split_go sep acc s) sep = rev acc @ s"
proof (induction sep acc s rule: split_go.induct)
  case (2 sep acc a s)
  show ?case
  proof (cases "prefix_of sep (a # s)")
    case True
    have "a # s = sep @ drop (length sep - 1) s"
      using prefix_of_append [OF True] 2(3) by (cases "length sep") auto
    have "strings_Join (split_go sep acc (a # s)) sep = rev acc @ sep @ strings_Join (split_go sep [] (drop (length sep - 1) s)) sep"
      using True by (simp add: Join_Cons)
    also have "\<dots> = rev acc @ sep @ drop (length sep - 1) s" using 2(1) [OF True 2(3)] by simp
    also have "\<dots> = rev acc @ a # s" using \<open>a # s = _\<close> by simp
    finally show ?thesis .
  next
    case False
    then show ?thesis using 2 by simp
  qed
qed simp

lemma Join_Split: "sep \<noteq> [] \<Longrightarrow> strings_Join (strings_Split s sep) sep = s"
  by (simp add: strings_Split_def Join_split_go)

lemma split_go_none: "c \<in> set sep \<Longrightarrow> c \<notin> set s \<Longrightarrow> split_go sep acc s = [rev acc @ s]"
proof (induction sep acc s rule: split_go.induct)
  case (2 sep acc a s)
  have "\<not> prefix_of sep (a # s)" using prefix_of_set 2(3,4) by blast
  then show ?case using 2 by simp
qed simp

lemma last_index_from_app: "c \<notin> set p \<Longrightarrow> last_index_from i c (h @ c # p) = Some (i + length h)"
proof -
  assume p: "c \<notin> set p"
  have none: "last_index_from j c p = None" for j using p by (induction p arbitrary: j) auto
  show ?thesis by (induction h arbitrary: i) (simp_all add: none)
qed

lemma index_from_app: "c \<notin> set h \<Longrightarrow> index_from i c (h @ c # p) = Some (i + length h)"
  by (induction h arbitrary: i) auto

lemma is_digit_not: "is_digit c \<Longrightarrow> c \<noteq> CHR '':'' \<and> c \<noteq> CHR ''/'' \<and> c \<noteq> CHR ''['' \<and> c \<noteq> CHR '']'' \<and> c \<noteq> CHR ''-'' \<and> c \<noteq> CHR ''+''"
  by (auto simp: is_digit_def)

lemma decimal_digits: "decimal s = Some n \<Longrightarrow> s \<noteq> [] \<and> (\<forall>c \<in> set s. is_digit c)"
  by (auto simp: decimal_def list_all_iff split: if_splits)

lemma Atoi_decimal: "decimal s = Some n \<Longrightarrow> n < 2 ^ 63 \<Longrightarrow> Atoi s = Some (int n)"
proof -
  assume d: "decimal s = Some n" "n < 2 ^ 63"
  obtain c s' where s: "s = c # s'" using decimal_digits [OF d(1)] by (cases s) auto
  have "c \<noteq> CHR ''-'' \<and> c \<noteq> CHR ''+''" using decimal_digits [OF d(1)] is_digit_not s by auto
  then show ?thesis using d s by simp
qed

lemma SplitHostPort_Join:
  assumes "CHR ''['' \<notin> set host" and "CHR '']'' \<notin> set host" and "\<forall>c \<in> set port. is_digit c"
  shows "SplitHostPort (JoinHostPort host port) = Some (host, port)"
proof -
  have port: "CHR '':'' \<notin> set port" "CHR ''['' \<notin> set port" "CHR '']'' \<notin> set port" using assms(3) is_digit_not by blast+
  show ?thesis
  proof (cases "CHR '':'' \<in> set host")
    case True
    let ?s = "CHR ''['' # host @ CHR '']'' # CHR '':'' # port"
    have "LastIndexByte ?s CHR '':'' = Some (length host + 2)"
      using last_index_from_app [OF port(1), of 0 "CHR ''['' # host @ [CHR '']'']"] by (simp add: LastIndexByte_def)
    moreover have "IndexByte ?s CHR '']'' = Some (length host + 1)"
      using index_from_app [of "CHR '']''" "CHR ''['' # host" 0 "CHR '':'' # port"] assms(2) by (simp add: IndexByte_def)
    ultimately show ?thesis using True assms port by (simp add: SplitHostPort_def JoinHostPort_def)
  next
    case False
    have "LastIndexByte (host @ CHR '':'' # port) CHR '':'' = Some (length host)"
      using last_index_from_app [OF port(1), of 0 host] by (simp add: LastIndexByte_def)
    moreover have "hd (host @ CHR '':'' # port) \<noteq> CHR ''[''" using assms(1) by (cases host) auto
    ultimately show ?thesis using False assms port by (simp add: SplitHostPort_def JoinHostPort_def)
  qed
qed

lemma Split_NewAddress:
  "t \<in> {PlainTCP, TLS, Local} \<Longrightarrow> CHR ''/'' \<notin> set na \<Longrightarrow> strings_Split (NewAddress t na) typeAddressSep = [t, na]"
proof -
  assume t: "t \<in> {PlainTCP, TLS, Local}" and na: "CHR ''/'' \<notin> set na"
  have "split_go ''://'' [] na = [na]" using split_go_none [of "CHR ''/''" "''://''" na "[]"] na by simp
  then show ?thesis using t by (auto simp: strings_Split_def NewAddress_def typeAddressSep_def PlainTCP_def TLS_def Local_def)
qed

text \<open>A valid address is its type and its network address.\<close>

lemma valid_address_parts:
  assumes "Valid a"
  shows "NewAddress (ConnType a) (NetworkAddress a) = a"
proof -
  obtain t na where s: "strings_Split a typeAddressSep = [t, na]" and t: "connType t \<noteq> InvalidConnType"
    using assms by (auto simp: Valid_def split: list.splits)
  have "a = t @ typeAddressSep @ na" using Join_Split [of typeAddressSep a] s by (simp add: typeAddressSep_def)
  moreover have "connType t = t" using t by (auto simp: connType_def)
  ultimately show ?thesis using assms s by (simp add: ConnType_def NetworkAddress_def NewAddress_def)
qed

text \<open>
  An address is parsed to the parts it is made of. With a known connection type, a host that is
  empty, an IP address (in brackets when it has colons) or a valid host name, and a decimal port up to
  65535, \<open>NewAddress\<close> gives a valid address, whose type, host and port are those; and it is made again
  from its type and its network address.
\<close>

theorem address_roundtrip:
  assumes "t \<in> {PlainTCP, TLS, Local}" and "set host \<inter> {CHR ''['', CHR '']'', CHR ''/''} = {}"
    and "host = [] \<or> ParseIP host \<or> validHostname host" and "decimal port = Some n" and "n \<le> 65535"
  shows "let a = NewAddress t (JoinHostPort host port) in
    Valid a \<and> ConnType a = t \<and> NetworkAddress a = JoinHostPort host port \<and> Host a = host \<and> Port a = port \<and>
    NewAddress (ConnType a) (NetworkAddress a) = a"
proof -
  let ?na = "JoinHostPort host port" let ?a = "NewAddress t ?na"
  have digits: "\<forall>c \<in> set port. is_digit c" using decimal_digits [OF assms(4)] by blast
  then have "CHR ''/'' \<notin> set port" using is_digit_not by blast
  then have "CHR ''/'' \<notin> set ?na" using assms(2) by (auto simp: JoinHostPort_def)
  then have s: "strings_Split ?a typeAddressSep = [t, ?na]" by (rule Split_NewAddress [OF assms(1)])
  have h: "SplitHostPort ?na = Some (host, port)" using SplitHostPort_Join [OF _ _ digits] assms(2) by blast
  have t: "connType t = t" "t \<noteq> InvalidConnType"
    using assms(1) by (auto simp: connType_def PlainTCP_def TLS_def Local_def InvalidConnType_def)
  have v: "Valid ?a" using s h t assms(3,5) Atoi_decimal [OF assms(4)] by (simp add: Valid_def)
  have na: "NetworkAddress ?a = ?na" using v s by (simp add: NetworkAddress_def)
  have "?na \<noteq> []" by (simp add: JoinHostPort_def)
  then have "Host ?a = host" "Port ?a = port" using na h by (simp_all add: Host_def Port_def)
  moreover have "ConnType ?a = t" using v s t by (simp add: ConnType_def)
  ultimately show ?thesis using v na valid_address_parts [OF v] by simp
qed

lemma address_roundtrip_witness:
  "let a = NewAddress TLS (JoinHostPort ''192.168.1.10'' ''5678'') in
    Valid a \<and> ConnType a = TLS \<and> NetworkAddress a = ''192.168.1.10:5678'' \<and> Host a = ''192.168.1.10'' \<and> Port a = ''5678'' \<and>
    NewAddress (ConnType a) (NetworkAddress a) = a"
proof -
  have "ParseIP ''192.168.1.10''"
    by (simp add: ParseIP_def parseIPv4_def strings_Split_def octet_ok_def decimal_def is_digit_def digits_value_def)
  moreover have "decimal ''5678'' = Some 5678" by (simp add: decimal_def is_digit_def digits_value_def)
  moreover have "JoinHostPort ''192.168.1.10'' ''5678'' = ''192.168.1.10:5678''" by (simp add: JoinHostPort_def)
  ultimately show ?thesis using address_roundtrip [of TLS "''192.168.1.10''" "''5678''" 5678] by simp
qed

end
