(* ===== verification/NetTcp.thy ===== *)
theory NetTcp
  imports NetEncoding NetAddress
begin

text \<open>
  The framing of \<open>onet/network/tcp.go\<close>: a message goes over a connection as four bytes of its length
  and its bytes, in as many writes and reads as the network takes. The counters of
  \<open>onet/network/struct.go\<close>.
\<close>

section \<open>Errors of the network\<close>

datatype net_error = ErrClosed | ErrEOF | ErrCanceled | ErrTimeout | ErrUnknown

text \<open>A Go error: its text, whether it is \<open>io.EOF\<close>, and if it is a \<open>net.Error\<close> whether it is a timeout.\<close>

record go_error =
  er_text :: string
  er_eof :: bool
  er_timeout :: "bool option"

fun strings_contains :: "string \<Rightarrow> string \<Rightarrow> bool" where
  "strings_contains s [] = (s = [])"
| "strings_contains s (b # t) = (prefix_of s (b # t) \<or> strings_contains s t)"

definition handleError :: "go_error \<Rightarrow> net_error" where
  "handleError err =
    (if strings_contains ''use of closed'' (er_text err) \<or> strings_contains ''broken pipe'' (er_text err) then ErrClosed
     else if strings_contains ''canceled'' (er_text err) then ErrCanceled
     else if er_eof err \<or> strings_contains ''EOF'' (er_text err) then ErrEOF
     else case er_timeout err of
       None \<Rightarrow> ErrUnknown
     | Some t \<Rightarrow> if t then ErrTimeout else ErrUnknown)"

section \<open>Counters\<close>

record counterSafe =
  cs_tx :: u64
  cs_rx :: u64

definition updateTx :: "u64 \<Rightarrow> counterSafe \<Rightarrow> counterSafe" where
  "updateTx delta cs = cs\<lparr>cs_tx := cs_tx cs + delta\<rparr>"

definition updateRx :: "u64 \<Rightarrow> counterSafe \<Rightarrow> counterSafe" where
  "updateRx delta cs = cs\<lparr>cs_rx := cs_rx cs + delta\<rparr>"

section \<open>The connection\<close>

text \<open>
  \<open>tc_in\<close> is what the peer has written and is not read yet, \<open>tc_out\<close> what was written here.
\<close>

record TCPConn =
  tc_closed :: bool
  tc_count :: counterSafe
  tc_in :: bytes
  tc_out :: bytes

definition MaxPacketSize :: u32 where
  "MaxPacketSize = 10 * 1024 * 1024"

text \<open>What the operating system answers to one call: so many bytes were taken, or an error after so many.\<close>

datatype io_event = Took nat | Failed nat go_error

fun tcp_Close :: "go_error option \<Rightarrow> TCPConn \<Rightarrow> net_error option \<times> TCPConn" where
  "tcp_Close os c =
    (if tc_closed c then (Some ErrClosed, c)
     else (map_option handleError os, c\<lparr>tc_closed := True\<rparr>))"

section \<open>Sending\<close>

datatype send_error = HeaderError | BodyError net_error

text \<open>
  None is a send that still waits. An error after some bytes: they are on the wire and not counted.
\<close>

fun write_loop :: "io_event list \<Rightarrow> u32 \<Rightarrow> u32 \<Rightarrow> bytes \<Rightarrow> TCPConn \<Rightarrow> ((u64 \<times> send_error option) \<times> TCPConn) option" where
  "write_loop evs packetSize sent b c =
    (if \<not> sent < packetSize then
       (let sentLen = 4 + ucast sent in Some ((sentLen, None), c\<lparr>tc_count := updateTx sentLen (tc_count c)\<rparr>))
     else case evs of
       [] \<Rightarrow> None
     | Failed n err # _ \<Rightarrow>
         (let sentLen = 4 + ucast sent in
          Some ((sentLen, Some (BodyError (handleError err))),
                c\<lparr>tc_count := updateTx sentLen (tc_count c), tc_out := tc_out c @ take n (drop (unat sent) b)\<rparr>))
     | Took n # evs' \<Rightarrow>
         (let k = min n (length b - unat sent) in
          write_loop evs' packetSize (sent + word_of_nat k) b (c\<lparr>tc_out := tc_out c @ take k (drop (unat sent) b)\<rparr>)))"

definition sendRaw :: "go_error option \<Rightarrow> io_event list \<Rightarrow> bytes \<Rightarrow> TCPConn \<Rightarrow> ((u64 \<times> send_error option) \<times> TCPConn) option" where
  "sendRaw header evs b c =
    (let packetSize = word_of_nat (length b) in
     case header of
       Some err \<Rightarrow> Some ((0, Some HeaderError), c)
     | None \<Rightarrow> write_loop evs packetSize 0 b (c\<lparr>tc_out := tc_out c @ be_bytes 4 (unat packetSize)\<rparr>))"

section \<open>Receiving\<close>

datatype recv_error = NetError net_error | TooBig | BadMessage string

text \<open>
  \<open>Read\<close> gives at least one byte when there is one. The buffer has room for what is missing of the packet.
\<close>

fun read_loop :: "io_event list \<Rightarrow> u32 \<Rightarrow> u32 \<Rightarrow> bytes \<Rightarrow> TCPConn \<Rightarrow> ((recv_error + bytes) \<times> TCPConn) option" where
  "read_loop evs packetSize got buffer c =
    (if \<not> got < packetSize then Some (Inr buffer, c\<lparr>tc_count := updateRx (4 + ucast got) (tc_count c)\<rparr>)
     else case evs of
       [] \<Rightarrow> None
     | Failed n err # _ \<Rightarrow>
         Some (Inl (NetError (handleError err)), c\<lparr>tc_count := updateRx (4 + ucast got) (tc_count c)\<rparr>)
     | Took n # evs' \<Rightarrow>
         (let k = min n (min (unat packetSize - unat got) (length (tc_in c))) in
          read_loop evs' packetSize (got + word_of_nat k) (buffer @ take k (tc_in c)) (c\<lparr>tc_in := drop k (tc_in c)\<rparr>)))"

declare write_loop.simps [simp del] read_loop.simps [simp del]

text \<open>\<open>header\<close> is an error while the four bytes of the length are read.\<close>

definition receiveRawProd :: "go_error option \<Rightarrow> io_event list \<Rightarrow> TCPConn \<Rightarrow> ((recv_error + bytes) \<times> TCPConn) option" where
  "receiveRawProd header evs c =
    (case header of
       Some err \<Rightarrow> Some (Inl (NetError (handleError err)), c)
     | None \<Rightarrow>
         if length (tc_in c) < 4 then None
         else let total = word_of_nat (be_nat (take 4 (tc_in c))); c' = c\<lparr>tc_in := drop 4 (tc_in c)\<rparr> in
           if MaxPacketSize < total then Some (Inl TooBig, c')
           else read_loop evs total 0 [] c')"

section \<open>Messages\<close>

record 'm envelope =
  ev_MsgType :: uuid
  ev_Msg :: "'m option"
  ev_Size :: u32

definition tcp_Send :: "'p crypto \<Rightarrow> 'm codec \<Rightarrow> typeRegistry \<Rightarrow> go_error option \<Rightarrow> io_event list \<Rightarrow> 'm \<Rightarrow> TCPConn \<Rightarrow>
    ((u64 \<times> send_error option) \<times> TCPConn) option" where
  "tcp_Send c cd reg header evs m conn =
    (case Marshal c cd reg m of
       Inl e \<Rightarrow> Some ((0, Some HeaderError), conn)
     | Inr b \<Rightarrow> sendRaw header evs b conn)"

text \<open>A packet that does not decode gives an envelope and an error.\<close>

definition tcp_Receive :: "'m codec \<Rightarrow> typeRegistry \<Rightarrow> go_error option \<Rightarrow> io_event list \<Rightarrow> TCPConn \<Rightarrow>
    (('m envelope option \<times> recv_error option) \<times> TCPConn) option" where
  "tcp_Receive cd reg header evs conn =
    (case receiveRawProd header evs conn of
       None \<Rightarrow> None
     | Some (Inl e, conn') \<Rightarrow> Some ((None, Some e), conn')
     | Some (Inr buff, conn') \<Rightarrow>
         (case Unmarshal cd reg buff of
            Inl e \<Rightarrow> Some ((Some \<lparr>ev_MsgType = 0, ev_Msg = None, ev_Size = word_of_nat (length buff)\<rparr>, Some (BadMessage e)), conn')
          | Inr (i, body) \<Rightarrow> Some ((Some \<lparr>ev_MsgType = i, ev_Msg = Some body, ev_Size = word_of_nat (length buff)\<rparr>, None), conn')))"

section \<open>Frames\<close>

definition frame :: "bytes \<Rightarrow> bytes" where
  "frame b = be_bytes 4 (length b) @ b"

abbreviation u32_len :: "bytes \<Rightarrow> bool" where
  "u32_len b \<equiv> length b < 2 ^ 32"

lemma unat_u32 [simp]: "n < 2 ^ 32 \<Longrightarrow> unat (word_of_nat n :: u32) = n"
  by (simp add: unat_of_nat)

lemma ucast_u32: "n < 2 ^ 32 \<Longrightarrow> ucast (word_of_nat n :: u32) = (word_of_nat n :: u64)"
  by (simp add: unsigned_of_nat take_bit_nat_eq_self)

lemma u32_less: "m < 2 ^ 32 \<Longrightarrow> n < 2 ^ 32 \<Longrightarrow> (word_of_nat m :: u32) < word_of_nat n \<longleftrightarrow> m < n"
  by (simp add: word_less_nat_alt)

lemma write_loop_done:
  assumes "write_loop evs (word_of_nat (length b)) (word_of_nat n) b c = Some ((sent, None), c')"
    and "u32_len b" and "n \<le> length b"
  shows "c' = c\<lparr>tc_out := tc_out c @ drop n b, tc_count := updateTx (word_of_nat (4 + length b)) (tc_count c)\<rparr> \<and>
    sent = word_of_nat (4 + length b)"
  using assms
proof (induction evs arbitrary: n c)
  case Nil
  then show ?case by (subst (asm) write_loop.simps) (auto simp: u32_less ucast_u32 Let_def split: if_splits)
next
  case (Cons e evs)
  show ?case
  proof (cases "n < length b")
    case True
    have "e \<noteq> Failed i err" for i err
    proof
      assume e: "e = Failed i err"
      show False using Cons.prems True unfolding e by (subst (asm) write_loop.simps) (simp add: u32_less Let_def)
    qed
    then obtain k where e: "e = Took k" by (cases e) auto
    let ?k = "min k (length b - n)"
    have u: "unat (word_of_nat n :: u32) = n" using Cons.prems by (intro unat_u32) linarith
    have "write_loop evs (word_of_nat (length b)) (word_of_nat (n + ?k)) b
        (c\<lparr>tc_out := tc_out c @ take ?k (drop n b)\<rparr>) = Some ((sent, None), c')"
      using Cons.prems True unfolding e by (subst (asm) write_loop.simps) (simp add: u u32_less Let_def)
    from Cons.IH [OF this] Cons.prems(2) True
    have "c' = c\<lparr>tc_out := tc_out c @ take ?k (drop n b) @ drop (n + ?k) b, tc_count := updateTx (word_of_nat (4 + length b)) (tc_count c)\<rparr> \<and>
        sent = word_of_nat (4 + length b)" by simp
    moreover have "take ?k (drop n b) @ drop (n + ?k) b = drop n b"
      using append_take_drop_id [of ?k "drop n b"] by (simp add: add.commute)
    ultimately show ?thesis by simp
  next
    case False
    then show ?thesis using Cons.prems by (subst (asm) write_loop.simps) (auto simp: u32_less ucast_u32 Let_def)
  qed
qed

lemma sendRaw_done:
  assumes "sendRaw None evs b c = Some ((sent, None), c')" and "u32_len b"
  shows "tc_out c' = tc_out c @ frame b \<and> sent = word_of_nat (4 + length b) \<and>
    tc_count c' = updateTx (word_of_nat (4 + length b)) (tc_count c)"
  using write_loop_done [of evs b 0 "c\<lparr>tc_out := tc_out c @ be_bytes 4 (length b)\<rparr>" sent c'] assms
  by (simp add: sendRaw_def Let_def frame_def)

lemma sendRaw_one:
  "u32_len b \<Longrightarrow> b \<noteq> [] \<Longrightarrow> length b \<le> k \<Longrightarrow> sendRaw None [Took k] b c =
    Some ((word_of_nat (4 + length b), None), c\<lparr>tc_out := tc_out c @ frame b, tc_count := updateTx (word_of_nat (4 + length b)) (tc_count c)\<rparr>)"
  unfolding sendRaw_def Let_def
  by (subst write_loop.simps, subst write_loop.simps)
    (simp add: Let_def frame_def ucast_u32 word_less_nat_alt min_absorb2 length_greater_0_conv [symmetric] del: length_greater_0_conv)

text \<open>Enough reads for a packet: each gets something, and there are as many as bytes.\<close>

fun gets_something :: "io_event \<Rightarrow> bool" where
  "gets_something (Took k) \<longleftrightarrow> 0 < k"
| "gets_something (Failed k err) \<longleftrightarrow> False"

definition patient :: "io_event list \<Rightarrow> nat \<Rightarrow> bool" where
  "patient evs n \<longleftrightarrow> n \<le> length evs \<and> list_all gets_something evs"

lemma read_loop_patient:
  assumes "patient evs (m - n)" and "n \<le> m" and "m < 2 ^ 32" and "m - n \<le> length (tc_in c)"
  shows "read_loop evs (word_of_nat m) (word_of_nat n) buf c =
    Some (Inr (buf @ take (m - n) (tc_in c)), c\<lparr>tc_in := drop (m - n) (tc_in c), tc_count := updateRx (word_of_nat (4 + m)) (tc_count c)\<rparr>)"
  using assms
proof (induction evs arbitrary: n buf c)
  case Nil
  then show ?case by (subst read_loop.simps) (auto simp: patient_def u32_less ucast_u32)
next
  case (Cons e evs)
  show ?case
  proof (cases "n < m")
    case True
    obtain k where e: "e = Took k" "0 < k" using Cons.prems(1) by (cases e) (auto simp: patient_def)
    have u: "unat (word_of_nat n :: u32) = n" "unat (word_of_nat m :: u32) = m" using Cons.prems by (auto intro!: unat_u32)
    define kk where kk: "kk = min k (min (m - n) (length (tc_in c)))"
    have k: "0 < kk" "kk \<le> m - n" using True Cons.prems(4) e(2) unfolding kk by auto
    let ?c = "c\<lparr>tc_in := drop kk (tc_in c)\<rparr>"
    have "m - (n + kk) \<le> length evs" 
    proof -
      have "m - n \<le> Suc (length evs)" using Cons.prems(1) by (simp add: patient_def)
      then show ?thesis using k(1) by arith
    qed
    then have "patient evs (m - (n + kk))" using Cons.prems(1) by (simp add: patient_def)
    moreover have "m - (n + kk) \<le> length (tc_in ?c)" using Cons.prems(4) k by simp
    ultimately have "read_loop evs (word_of_nat m) (word_of_nat (n + kk)) (buf @ take kk (tc_in c)) ?c =
        Some (Inr ((buf @ take kk (tc_in c)) @ take (m - (n + kk)) (tc_in ?c)),
          ?c\<lparr>tc_in := drop (m - (n + kk)) (tc_in ?c), tc_count := updateRx (word_of_nat (4 + m)) (tc_count ?c)\<rparr>)"
      using Cons.IH [of "n + kk" ?c] Cons.prems k by simp
    moreover have "read_loop (e # evs) (word_of_nat m) (word_of_nat n) buf c =
        read_loop evs (word_of_nat m) (word_of_nat (n + kk)) (buf @ take kk (tc_in c)) ?c"
      using True Cons.prems unfolding e(1) by (subst read_loop.simps) (simp add: u u32_less Let_def kk)
    moreover have "take kk (tc_in c) @ take (m - (n + kk)) (drop kk (tc_in c)) = take (m - n) (tc_in c)"
      using take_add [of kk "m - (n + kk)" "tc_in c"] k by simp
    moreover have "drop (m - (n + kk)) (drop kk (tc_in c)) = drop (m - n) (tc_in c)" using k by simp
    ultimately show ?thesis by simp
  next
    case False
    then show ?thesis using Cons.prems by (subst read_loop.simps) (auto simp: u32_less ucast_u32)
  qed
qed

section \<open>Streams\<close>

text \<open>
  A parser of the front of a stream, and the bytes that stand for an item: items one after the other are
  read one after the other.
\<close>

fun parse_many :: "('a list \<Rightarrow> ('x \<times> 'a list) option) \<Rightarrow> nat \<Rightarrow> 'a list \<Rightarrow> ('x list \<times> 'a list) option" where
  "parse_many parse 0 s = Some ([], s)"
| "parse_many parse (Suc n) s =
    (case parse s of None \<Rightarrow> None | Some (x, s') \<Rightarrow>
      (case parse_many parse n s' of None \<Rightarrow> None | Some (xs, s'') \<Rightarrow> Some (x # xs, s'')))"

locale stream_parser =
  fixes parse :: "'a list \<Rightarrow> ('x \<times> 'a list) option" and emit :: "'x \<Rightarrow> 'a list" and ok :: "'x \<Rightarrow> bool"
  assumes parse_emit: "ok x \<Longrightarrow> parse (emit x @ rest) = Some (x, rest)"
begin

lemma parse_stream: "\<forall>x \<in> set xs. ok x \<Longrightarrow> parse_many parse (length xs) (concat (map emit xs) @ rest) = Some (xs, rest)"
  by (induction xs) (simp_all add: parse_emit)

lemma emit_injective:
  assumes "\<forall>x \<in> set xs. ok x" and "\<forall>y \<in> set ys. ok y" and "length xs = length ys"
    and "concat (map emit xs) @ r = concat (map emit ys) @ r'"
  shows "xs = ys \<and> r = r'"
proof -
  have "Some (xs, r) = Some (ys, r')"
    unfolding parse_stream [OF assms(1), of r, symmetric] parse_stream [OF assms(2), of r', symmetric] assms(3,4) by (rule refl)
  then show ?thesis by simp
qed

end

text \<open>What the receiver reads at the front of the bytes: a packet, or a length that is too big.\<close>

definition parse_frame :: "bytes \<Rightarrow> ((nat + bytes) \<times> bytes) option" where
  "parse_frame s =
    (if length s < 4 then None
     else let n = be_nat (take 4 s); s' = drop 4 s in
       if unat MaxPacketSize < n then Some (Inl n, s')
       else if length s' < n then None else Some (Inr (take n s'), drop n s'))"

fun emit_frame :: "nat + bytes \<Rightarrow> bytes" where
  "emit_frame (Inl n) = be_bytes 4 n"
| "emit_frame (Inr b) = frame b"

fun frame_ok :: "nat + bytes \<Rightarrow> bool" where
  "frame_ok (Inl n) \<longleftrightarrow> unat MaxPacketSize < n \<and> n < 2 ^ 32"
| "frame_ok (Inr b) \<longleftrightarrow> length b \<le> unat MaxPacketSize"

lemma unat_MaxPacketSize: "unat MaxPacketSize = 10485760"
  by (simp add: MaxPacketSize_def)

lemma be_nat_4: "n < 2 ^ 32 \<Longrightarrow> be_nat (be_bytes 4 n) = n"
  by (rule be_nat_be_bytes) simp

interpretation frames: stream_parser parse_frame emit_frame frame_ok
proof
  fix x rest assume "frame_ok x"
  then show "parse_frame (emit_frame x @ rest) = Some (x, rest)"
    by (cases x) (simp_all add: parse_frame_def frame_def be_nat_4 Let_def unat_MaxPacketSize)
qed

definition as_result :: "nat + bytes \<Rightarrow> recv_error + bytes" where
  "as_result x = (case x of Inl n \<Rightarrow> Inl TooBig | Inr b \<Rightarrow> Inr b)"

fun needs :: "nat + bytes \<Rightarrow> nat" where
  "needs (Inl n) = 0"
| "needs (Inr b) = length b"

fun frame_count :: "nat + bytes \<Rightarrow> nat" where
  "frame_count (Inl n) = 0"
| "frame_count (Inr b) = 4 + length b"

lemma be_nat_bound: "be_nat bs < 256 ^ length bs"
proof (induction bs rule: rev_induct)
  case (snoc b bs)
  have "unat b < 256" using unsigned_less [of b] by simp
  then show ?case using snoc by (simp add: be_nat_snoc)
qed (simp add: be_nat_def)

text \<open>\<open>receiveRaw\<close> refines the parser, however the reads are cut.\<close>

lemma receiveRaw_parse:
  assumes "parse_frame (tc_in c) = Some (x, rest)" and "patient evs (needs x)"
  shows "\<exists>c'. receiveRawProd None evs c = Some (as_result x, c') \<and> tc_in c' = rest \<and>
    tc_count c' = updateRx (word_of_nat (frame_count x)) (tc_count c)"
proof -
  have l: "\<not> length (tc_in c) < 4" using assms(1) by (auto simp: parse_frame_def)
  define n where "n = be_nat (take 4 (tc_in c))"
  have n: "n < 2 ^ 32" using be_nat_bound [of "take 4 (tc_in c)"] l unfolding n_def by simp
  have p: "parse_frame (tc_in c) = (if unat MaxPacketSize < n then Some (Inl n, drop 4 (tc_in c))
      else if length (drop 4 (tc_in c)) < n then None else Some (Inr (take n (drop 4 (tc_in c))), drop n (drop 4 (tc_in c))))"
    using l unfolding parse_frame_def Let_def n_def [symmetric] by simp
  have big: "MaxPacketSize < word_of_nat n \<longleftrightarrow> unat MaxPacketSize < n" using n by (simp add: word_less_nat_alt)
  let ?c = "c\<lparr>tc_in := drop 4 (tc_in c)\<rparr>"
  have r: "receiveRawProd None evs c =
      (if unat MaxPacketSize < n then Some (Inl TooBig, ?c) else read_loop evs (word_of_nat n) 0 [] ?c)"
    using l unfolding receiveRawProd_def Let_def n_def [symmetric] big by simp
  show ?thesis
  proof (cases "unat MaxPacketSize < n")
    case True
    then have "x = Inl n" "rest = drop 4 (tc_in c)" using assms(1) unfolding p by simp_all
    then show ?thesis using True unfolding r by (simp add: as_result_def updateRx_def)
  next
    case False
    then have x: "x = Inr (take n (drop 4 (tc_in c)))" "rest = drop n (drop 4 (tc_in c))" and
      ln: "n \<le> length (drop 4 (tc_in c))"
      using assms(1) unfolding p by (auto split: if_splits)
    have "patient evs (n - 0)" using assms(2) x(1) ln by simp
    from read_loop_patient [OF this _ n, of ?c "[]"] ln
    have "read_loop evs (word_of_nat n) 0 [] ?c =
      Some (Inr (take n (tc_in ?c)), ?c\<lparr>tc_in := drop n (tc_in ?c), tc_count := updateRx (word_of_nat (4 + n)) (tc_count ?c)\<rparr>)"
      by simp
    then show ?thesis using False x ln unfolding r by (simp add: as_result_def)
  qed
qed

section \<open>A connection\<close>

text \<open>A run of sends that all succeed, and a run of receives.\<close>

fun send_all :: "io_event list list \<Rightarrow> bytes list \<Rightarrow> TCPConn \<Rightarrow> TCPConn option" where
  "send_all evss [] c = Some c"
| "send_all [] (b # bs) c = None"
| "send_all (evs # evss) (b # bs) c =
    (case sendRaw None evs b c of Some ((n, None), c') \<Rightarrow> send_all evss bs c' | _ \<Rightarrow> None)"

fun receive_all :: "io_event list list \<Rightarrow> TCPConn \<Rightarrow> ((recv_error + bytes) list \<times> TCPConn) option" where
  "receive_all [] c = Some ([], c)"
| "receive_all (evs # evss) c =
    (case receiveRawProd None evs c of
       None \<Rightarrow> None
     | Some (r, c') \<Rightarrow> (case receive_all evss c' of None \<Rightarrow> None | Some (rs, c'') \<Rightarrow> Some (r # rs, c'')))"

lemma send_all_out:
  "send_all evss bs c = Some c' \<Longrightarrow> \<forall>b \<in> set bs. u32_len b \<Longrightarrow> tc_out c' = tc_out c @ concat (map frame bs)"
proof (induction evss bs c rule: send_all.induct)
  case (3 evs evss b bs c)
  then obtain n c1 where s: "sendRaw None evs b c = Some ((n, None), c1)" and r: "send_all evss bs c1 = Some c'"
    by (auto split: option.splits prod.splits)
  have "tc_out c1 = tc_out c @ frame b" using sendRaw_done [OF s] 3(3) by simp
  moreover have "tc_out c' = tc_out c1 @ concat (map frame bs)"
    using 3(1) [OF s _ _ _ r] 3(3) by simp
  ultimately show ?case by simp
qed auto

lemma receive_all_parse:
  "parse_many parse_frame (length xs) (tc_in c) = Some (xs, rest) \<Longrightarrow> list_all2 (\<lambda>evs x. patient evs (needs x)) evss xs \<Longrightarrow>
    \<exists>c'. receive_all evss c = Some (map as_result xs, c') \<and> tc_in c' = rest \<and>
      cs_rx (tc_count c') = cs_rx (tc_count c) + word_of_nat (sum_list (map frame_count xs))"
proof (induction xs arbitrary: c evss)
  case (Cons x xs)
  obtain s' where p: "parse_frame (tc_in c) = Some (x, s')" and ps: "parse_many parse_frame (length xs) s' = Some (xs, rest)"
    using Cons.prems(1) by (auto split: option.splits prod.splits)
  obtain evs evss' where e: "evss = evs # evss'" "patient evs (needs x)" "list_all2 (\<lambda>evs x. patient evs (needs x)) evss' xs"
    using Cons.prems(2) by (cases evss) auto
  obtain c1 where c1: "receiveRawProd None evs c = Some (as_result x, c1)" "tc_in c1 = s'"
      "tc_count c1 = updateRx (word_of_nat (frame_count x)) (tc_count c)"
    using receiveRaw_parse [OF p e(2)] by blast
  obtain c' where c': "receive_all evss' c1 = Some (map as_result xs, c')" "tc_in c' = rest"
      "cs_rx (tc_count c') = cs_rx (tc_count c1) + word_of_nat (sum_list (map frame_count xs))"
    using Cons.IH [of c1 evss'] ps c1(2) e(3) by auto
  have "receive_all evss c = Some (as_result x # map as_result xs, c')" using c1(1) c'(1) e(1) by simp
  moreover have "cs_rx (tc_count c') = cs_rx (tc_count c) + word_of_nat (sum_list (map frame_count (x # xs)))"
    using c'(3) c1(3) by (simp add: updateRx_def add.assoc)
  ultimately show ?case using c'(2) by (intro exI [of _ c']) simp
qed simp

lemma emit_frames: "concat (map emit_frame (map Inr bs)) = concat (map frame bs)"
  by (induction bs) simp_all

text \<open>
  C8: messages go over a TCP connection in order and unchanged, however the writes and the reads are cut
  into pieces. When the sends succeed on the messages, none above \<open>MaxPacketSize\<close>, a peer that reads
  long enough receives exactly those messages, one by one, with nothing of what follows, and counts their
  bytes and four for each.
\<close>

theorem tcp_stream_roundtrip:
  assumes "send_all wevss bs snd_conn = Some snd_conn'" and "\<forall>b \<in> set bs. length b \<le> unat MaxPacketSize"
    and "tc_in rcv_conn = drop (length (tc_out snd_conn)) (tc_out snd_conn') @ rest"
    and "list_all2 (\<lambda>evs b. patient evs (length b)) revss bs"
  shows "\<exists>rcv_conn'. receive_all revss rcv_conn = Some (map Inr bs, rcv_conn') \<and> tc_in rcv_conn' = rest \<and>
    cs_rx (tc_count rcv_conn') = cs_rx (tc_count rcv_conn) + word_of_nat (\<Sum>b\<leftarrow>bs. 4 + length b)"
proof -
  let ?xs = "map Inr bs :: (nat + bytes) list"
  have "tc_out snd_conn' = tc_out snd_conn @ concat (map frame bs)"
    by (rule send_all_out [OF assms(1)]) (use assms(2) in \<open>auto simp: unat_MaxPacketSize\<close>)
  then have i: "tc_in rcv_conn = concat (map emit_frame ?xs) @ rest" using assms(3) unfolding emit_frames by simp
  have "\<forall>x \<in> set ?xs. frame_ok x" using assms(2) by auto
  then have p: "parse_many parse_frame (length ?xs) (tc_in rcv_conn) = Some (?xs, rest)"
    unfolding i by (rule frames.parse_stream)
  have "list_all2 (\<lambda>evs x. patient evs (needs x)) revss ?xs" using assms(4) by (simp add: list_all2_map2)
  from receive_all_parse [OF p this] show ?thesis by (simp add: comp_def as_result_def)
qed

definition sample_conn :: "bytes \<Rightarrow> TCPConn" where
  "sample_conn s = \<lparr>tc_closed = False, tc_count = \<lparr>cs_tx = 0, cs_rx = 0\<rparr>, tc_in = s, tc_out = []\<rparr>"

lemma four_bytes: "n < 256 \<Longrightarrow> be_bytes 4 n = [0, 0, 0, word_of_nat n]"
proof -
  assume n: "n < 256"
  have "be_bytes 4 n = be_bytes (Suc (Suc (Suc (Suc 0)))) n" by (simp add: eval_nat_numeral)
  then show ?thesis using n by (simp add: be_bytes.simps)
qed

lemma tcp_stream_roundtrip_witness:
  "\<exists>c'. receive_all [[Took 1, Took 2], [Took 7]] (sample_conn ([0, 0, 0, 2, 8, 9, 0, 0, 0, 1, 7] @ [5])) = Some ([Inr [8, 9], Inr [7]], c') \<and>
    tc_in c' = [5] \<and> cs_rx (tc_count c') = 11"
proof -
  let ?s' = "(sample_conn [])\<lparr>tc_out := [0, 0, 0, 2, 8, 9, 0, 0, 0, 1, 7], tc_count := \<lparr>cs_tx = 11, cs_rx = 0\<rparr>\<rparr>"
  have f: "frame [8, 9] = [0, 0, 0, 2, 8, 9]" "frame [7] = [0, 0, 0, 1, 7]" by (simp_all add: frame_def four_bytes)
  have 1: "send_all [[Took 2], [Took 1]] [[8, 9], [7]] (sample_conn []) = Some ?s'"
    unfolding send_all.simps by (subst sendRaw_one; simp add: f sample_conn_def updateTx_def)+
  have 2: "\<forall>b \<in> set [[8, 9], [7 :: 8 word]]. length b \<le> unat MaxPacketSize" by (simp add: unat_MaxPacketSize)
  have 3: "list_all2 (\<lambda>evs b. patient evs (length b)) [[Took 1, Took 2], [Took 7]] [[8, 9], [7 :: 8 word]]"
    by (simp add: patient_def)
  from tcp_stream_roundtrip [OF 1 2 _ 3, of "sample_conn ([0, 0, 0, 2, 8, 9, 0, 0, 0, 1, 7] @ [5])" "[5]"]
  show ?thesis by (simp add: sample_conn_def)
qed

text \<open>
  A packet that is too big is not skipped: \<open>receiveRaw\<close> refuses it after the four bytes of its length
  and leaves its bytes in the connection, where the next receive takes them for lengths and packets.
\<close>

lemma oversized_receive:
  assumes "unat MaxPacketSize < length b" and "u32_len b" and "b = concat (map frame inner) @ pad"
    and "\<forall>i \<in> set inner. length i \<le> unat MaxPacketSize"
    and "sendRaw None wevs b snd_conn = Some ((sent, None), snd_conn')"
    and "tc_in rcv_conn = drop (length (tc_out snd_conn)) (tc_out snd_conn')"
    and "list_all2 (\<lambda>evs i. patient evs (length i)) revss inner"
  shows "\<exists>rcv_conn'. receive_all ([] # revss) rcv_conn = Some (Inl TooBig # map Inr inner, rcv_conn') \<and> tc_in rcv_conn' = pad"
proof -
  let ?xs = "Inl (length b) # map Inr inner :: (nat + bytes) list"
  have "tc_in rcv_conn = frame b" using sendRaw_done [OF assms(5,2)] assms(6) by simp
  then have i: "tc_in rcv_conn = concat (map emit_frame ?xs) @ pad"
    using assms(3) unfolding list.map concat.simps emit_frames by (simp add: frame_def)
  have "\<forall>x \<in> set ?xs. frame_ok x" using assms(1,2,4) by auto
  then have p: "parse_many parse_frame (length ?xs) (tc_in rcv_conn) = Some (?xs, pad)"
    unfolding i by (rule frames.parse_stream)
  have "list_all2 (\<lambda>evs x. patient evs (needs x)) ([] # revss) ?xs"
    using assms(7) by (simp add: list_all2_map2 patient_def)
  from receive_all_parse [OF p this] show ?thesis by (auto simp: comp_def as_result_def)
qed

end
