(* ===== verification/NetRouter.thy ===== *)
theory NetRouter
  imports NetTcp
begin

text \<open>
  The router of a server (\<open>onet/network/router.go\<close>) and the dispatcher it gives messages to
  (\<open>onet/network/dispatch.go\<close>): the filter of valid peers, the exchange of identities, the connections
  of each server, sending with reconnection, and what a receiving goroutine does with what it gets.
\<close>

section \<open>The dispatcher\<close>

text \<open>An envelope with the sender the router puts on it.\<close>

record ('p, 'm) Envelope =
  en_Server :: "'p ServerIdentity option"
  en_MsgType :: uuid
  en_Msg :: 'm
  en_Size :: u32

type_synonym 'x procs = "uuid \<rightharpoonup> 'x"

fun RegisterProcessor :: "'x \<Rightarrow> uuid list \<Rightarrow> 'x procs \<Rightarrow> 'x procs" where
  "RegisterProcessor p [] d = d"
| "RegisterProcessor p (t # ts) d = RegisterProcessor p ts (d(t \<mapsto> p))"

text \<open>The processor that is called, or an error. The blocking dispatcher calls it, the other one in a goroutine.\<close>

definition Dispatch :: "'x procs \<Rightarrow> ('p, 'm) Envelope \<Rightarrow> string + 'x" where
  "Dispatch d packet = (case d (en_MsgType packet) of None \<Rightarrow> Inl ''No Processor attached to this message type'' | Some p \<Rightarrow> Inr p)"

section \<open>Valid peers\<close>

type_synonym peerSetID = bytes

text \<open>\<open>copy\<close> into 32 bytes.\<close>

definition NewPeerSetID :: "bytes \<Rightarrow> peerSetID" where
  "NewPeerSetID data = take 32 data @ replicate (32 - length data) 0"

text \<open>None is the nil map, of peers that were never set.\<close>

type_synonym validPeers = "(peerSetID \<rightharpoonup> uuid set) option"

definition vp_set :: "peerSetID \<Rightarrow> 'p ServerIdentity list \<Rightarrow> validPeers \<Rightarrow> validPeers" where
  "vp_set i peers vp = Some ((case vp of None \<Rightarrow> Map.empty | Some m \<Rightarrow> m)(i \<mapsto> si_ID ` set peers))"

definition vp_get :: "peerSetID \<Rightarrow> validPeers \<Rightarrow> uuid set option" where
  "vp_get i vp = (case vp of None \<Rightarrow> None | Some m \<Rightarrow> Some (case m i of None \<Rightarrow> {} | Some s \<Rightarrow> s))"

definition vp_isValid :: "'p ServerIdentity \<Rightarrow> validPeers \<Rightarrow> bool" where
  "vp_isValid peer vp = (case vp of None \<Rightarrow> True | Some m \<Rightarrow> \<exists>s \<in> ran m. si_ID peer \<in> s)"

section \<open>The router\<close>

text \<open>
  Connections are numbers; \<open>rt_open\<close> are those nobody has closed here. \<open>rt_sent\<close> is what was given
  to connections, in order.
\<close>

record ('p, 'm) Router =
  rt_Server :: "'p ServerIdentity"
  rt_conns :: "uuid \<Rightarrow> nat list"
  rt_isClosed :: bool
  rt_wg :: int
  rt_handlers :: "('p ServerIdentity \<times> nat) list"
  rt_traffic :: counterSafe
  rt_msgTraffic :: counterSafe
  rt_paused :: bool
  rt_validPeers :: validPeers
  rt_open :: "nat set"
  rt_next :: nat
  rt_sent :: "(nat \<times> 'm) list"

definition NewRouter :: "'p ServerIdentity \<Rightarrow> ('p, 'm) Router" where
  "NewRouter own =
    \<lparr>rt_Server = own, rt_conns = (\<lambda>_. []), rt_isClosed = False, rt_wg = 0, rt_handlers = [],
     rt_traffic = \<lparr>cs_tx = 0, cs_rx = 0\<rparr>, rt_msgTraffic = \<lparr>cs_tx = 0, cs_rx = 0\<rparr>, rt_paused = False, rt_validPeers = None,
     rt_open = {}, rt_next = 0, rt_sent = []\<rparr>"

definition SetValidPeers :: "peerSetID \<Rightarrow> 'p ServerIdentity list \<Rightarrow> ('p, 'm) Router \<Rightarrow> ('p, 'm) Router" where
  "SetValidPeers i peers r = r\<lparr>rt_validPeers := vp_set i peers (rt_validPeers r)\<rparr>"

definition isPeerValid :: "'p ServerIdentity \<Rightarrow> ('p, 'm) Router \<Rightarrow> bool" where
  "isPeerValid peer r = vp_isValid peer (rt_validPeers r)"

definition Pause :: "('p, 'm) Router \<Rightarrow> ('p, 'm) Router" where
  "Pause r = r\<lparr>rt_paused := True\<rparr>"

definition Unpause :: "('p, 'm) Router \<Rightarrow> ('p, 'm) Router" where
  "Unpause r = r\<lparr>rt_paused := False\<rparr>"

definition connection :: "uuid \<Rightarrow> ('p, 'm) Router \<Rightarrow> nat option" where
  "connection sid r = (case rt_conns r sid of [] \<Rightarrow> None | k # _ \<Rightarrow> Some k)"

definition registerConnection :: "'p crypto \<Rightarrow> 'p ServerIdentity \<Rightarrow> nat \<Rightarrow> ('p, 'm) Router \<Rightarrow> string + ('p, 'm) Router" where
  "registerConnection c remote k r =
    (if rt_isClosed r then Inl ''closing''
     else Inr (r\<lparr>rt_conns := (rt_conns r)(si_GetID c remote := rt_conns r (si_GetID c remote) @ [k])\<rparr>))"

definition launchHandleRoutine :: "'p ServerIdentity \<Rightarrow> nat \<Rightarrow> ('p, 'm) Router \<Rightarrow> string + ('p, 'm) Router" where
  "launchHandleRoutine dst k r =
    (if rt_isClosed r then Inl ''closing''
     else Inr (r\<lparr>rt_wg := rt_wg r + 1, rt_handlers := rt_handlers r @ [(dst, k)]\<rparr>))"

text \<open>The last occurrence is overwritten by the last element, which is dropped.\<close>

fun last_position :: "nat \<Rightarrow> nat \<Rightarrow> nat list \<Rightarrow> nat option" where
  "last_position i k [] = None"
| "last_position i k (a # ks) =
    (case last_position (Suc i) k ks of Some j \<Rightarrow> Some j | None \<Rightarrow> if a = k then Some i else None)"

definition remove_conn :: "nat \<Rightarrow> nat list \<Rightarrow> nat list" where
  "remove_conn k ks =
    (case last_position 0 k ks of None \<Rightarrow> ks | Some toDelete \<Rightarrow> butlast (ks[toDelete := last ks]))"

definition removeConnection :: "'p crypto \<Rightarrow> 'p ServerIdentity \<Rightarrow> nat \<Rightarrow> ('p, 'm) Router \<Rightarrow> ('p, 'm) Router" where
  "removeConnection c si k r =
    r\<lparr>rt_conns := (rt_conns r)(si_GetID c si := remove_conn k (rt_conns r (si_GetID c si)))\<rparr>"

section \<open>Exchange of identities\<close>

text \<open>A connection is plain, or TLS with the names in the certificates of the peer.\<close>

datatype transport = PlainConn | TlsConn "string list" | OtherConn

text \<open>
  The identity is what the peer sends. Over TLS its public key has to be the one of the first
  certificate; \<open>pubFromCN\<close> reads a key from a name, and only holders of a key get a certificate for it.
\<close>

definition receiveServerIdentity :: "(string \<Rightarrow> string + 'p) \<Rightarrow> uuid \<Rightarrow> transport \<Rightarrow> string + uuid \<times> 'p ServerIdentity \<Rightarrow>
    fault + 'p ServerIdentity" where
  "receiveServerIdentity pubFromCN serverIdentityType tr received =
    (case received of
       Inl e \<Rightarrow> Inl (ErrRet ''Error while receiving ServerIdentity during negotiation'')
     | Inr (mt, dst) \<Rightarrow>
         if mt \<noteq> serverIdentityType then Inl (ErrRet ''Received wrong type during negotiation'')
         else case tr of
           TlsConn cns \<Rightarrow>
             (case cns of
                [] \<Rightarrow> Inl (ErrRet ''TLS connection with no peer certs?'')
              | cn # _ \<Rightarrow>
                 (case pubFromCN cn of
                    Inl e \<Rightarrow> Inl (ErrRet ''decoding key'')
                  | Inr pub \<Rightarrow>
                      bindR (nonnil (si_Public dst)) (\<lambda>q.
                        if pub \<noteq> q then Inl (ErrRet ''mismatch between certificate CommonName and ServerIdentity.Public'') else Inr dst)))
         | _ \<Rightarrow> Inr dst)"

text \<open>
  What the router does with an incoming connection, up to its registration: the identity it keeps, or
  the error after which it closes the connection.
\<close>

definition accept_peer :: "(string \<Rightarrow> string + 'p) \<Rightarrow> uuid \<Rightarrow> transport \<Rightarrow> string + uuid \<times> 'p ServerIdentity \<Rightarrow> ('p, 'm) Router \<Rightarrow>
    fault + 'p ServerIdentity" where
  "accept_peer pubFromCN sit tr received r =
     bindR (receiveServerIdentity pubFromCN sit tr received) (\<lambda>dst.
       if \<not> isPeerValid dst r then Inl (ErrRet ''rejecting incoming connection: invalid peer'') else Inr dst)"

section \<open>Sending\<close>

text \<open>What the network answers: to a dial with the sending of our identity, and to a send.\<close>

datatype dial = DialFails | IdentityFails u64 | Dialed u64

datatype net_answer = SendOk u64 | SendFails u64 | DialAnswer dial

text \<open>A connection that cannot be registered is returned as an error, and stays open.\<close>

definition connect :: "'p crypto \<Rightarrow> dial \<Rightarrow> 'p ServerIdentity \<Rightarrow> ('p, 'm) Router \<Rightarrow> ((string + nat) \<times> u64) \<times> ('p, 'm) Router" where
  "connect c d si r =
    (case d of
       DialFails \<Rightarrow> ((Inl ''connecting'', 0), r)
     | IdentityFails n \<Rightarrow> ((Inl ''sending'', n), r\<lparr>rt_next := rt_next r + 1, rt_open := insert (rt_next r) (rt_open r)\<rparr>)
     | Dialed n \<Rightarrow>
         let k = rt_next r; r1 = r\<lparr>rt_next := k + 1, rt_open := insert k (rt_open r)\<rparr> in
         (case registerConnection c si k r1 of
            Inl e \<Rightarrow> ((Inl ''register connection'', n), r1)
          | Inr r2 \<Rightarrow>
             (case launchHandleRoutine si k r2 of
                Inl e \<Rightarrow> ((Inl ''handling routine'', n), r2)
              | Inr r3 \<Rightarrow> ((Inr k, n), r3))))"

definition log_sent :: "nat \<Rightarrow> 'm \<Rightarrow> ('p, 'm) Router \<Rightarrow> ('p, 'm) Router" where
  "log_sent k m r = r\<lparr>rt_sent := rt_sent r @ [(k, m)]\<rparr>"

text \<open>
  The loop over the messages. The connection made after a failure is a variable of the loop's body: the
  next message is tried on the first one again. None is a call that still waits.
\<close>

fun send_msgs :: "'p crypto \<Rightarrow> 'p ServerIdentity \<Rightarrow> net_answer list \<Rightarrow> 'm list \<Rightarrow> nat \<Rightarrow> u64 \<Rightarrow> ('p, 'm) Router \<Rightarrow>
    ((u64 \<times> string option) \<times> ('p, 'm) Router) option" where
  "send_msgs c e ans [] k tot r = Some ((tot, None), r)"
| "send_msgs c e (SendOk n # ans) (m # ms) k tot r = send_msgs c e ans ms k (tot + n) (log_sent k m r)"
| "send_msgs c e (SendFails n # DialAnswer d # ans) (m # ms) k tot r =
    (case connect c d e r of
       ((Inl err, n'), r') \<Rightarrow> Some ((tot + n + n', Some ''connecting''), r')
     | ((Inr k', n'), r') \<Rightarrow>
         (case ans of
            SendOk n'' # ans' \<Rightarrow> send_msgs c e ans' ms k (tot + n + n' + n'') (log_sent k' m r')
          | SendFails n'' # ans' \<Rightarrow> Some ((tot + n + n' + n'', Some ''connecting''), r')
          | _ \<Rightarrow> None))"
| "send_msgs c e _ (m # ms) k tot r = None"

text \<open>\<open>None\<close> among the messages is nil.\<close>

definition send_other :: "'p crypto \<Rightarrow> 'p ServerIdentity \<Rightarrow> net_answer list \<Rightarrow> 'm list \<Rightarrow> ('p, 'm) Router \<Rightarrow>
    ((u64 \<times> string option) \<times> ('p, 'm) Router) option" where
  "send_other c e ans ms r =
    (case connection (si_GetID c e) r of
       Some k \<Rightarrow> send_msgs c e ans ms k 0 r
     | None \<Rightarrow>
        (case ans of
           DialAnswer d # ans' \<Rightarrow>
             (case connect c d e r of
                ((Inl err, n), r') \<Rightarrow> Some ((n, Some ''connecting''), r')
              | ((Inr k, n), r') \<Rightarrow> send_msgs c e ans' ms k n r')
         | _ \<Rightarrow> None))"

text \<open>Messages to ourselves are dispatched at once; then their length is taken.\<close>

fun send_self :: "'p crypto \<Rightarrow> 'm codec \<Rightarrow> typeRegistry \<Rightarrow> 'x procs \<Rightarrow> 'p ServerIdentity \<Rightarrow> 'm list \<Rightarrow> u64 \<Rightarrow>
    (u64 \<times> string option) \<times> ('x \<times> ('p, 'm) Envelope) list" where
  "send_self c cd reg d e [] tot = ((tot, None), [])"
| "send_self c cd reg d e (m # ms) tot =
    (let packet = \<lparr>en_Server = Some e, en_MsgType = MessageType c (TypeOf cd m) reg, en_Msg = m, en_Size = 0\<rparr> in
     case Dispatch d packet of
       Inl err \<Rightarrow> ((0, Some ''Error dispatching''), [])
     | Inr p \<Rightarrow>
         (case Marshal c cd reg m of
            Inl err \<Rightarrow> ((0, Some ''marshaling''), [(p, packet)])
          | Inr b \<Rightarrow> (let (res, calls) = send_self c cd reg d e ms (tot + word_of_nat (length b)) in (res, (p, packet) # calls))))"

definition rt_Send :: "'p crypto \<Rightarrow> 'm codec \<Rightarrow> typeRegistry \<Rightarrow> 'x procs \<Rightarrow> 'p ServerIdentity \<Rightarrow> net_answer list \<Rightarrow> 'm option list \<Rightarrow>
    ('p, 'm) Router \<Rightarrow> (((u64 \<times> string option) \<times> ('x \<times> ('p, 'm) Envelope) list) \<times> ('p, 'm) Router) option" where
  "rt_Send c cd reg d e ans msgs r =
    (if None \<in> set msgs then Some (((0, Some ''cannot send nil-packets''), []), r)
     else if msgs = [] then Some (((0, Some ''need to send at least one message''), []), r)
     else let r1 = r\<lparr>rt_msgTraffic := updateTx 1 (rt_msgTraffic r)\<rparr>; ms = map the msgs in
       if si_GetID c e = si_GetID c (rt_Server r) then Some (send_self c cd reg d e ms 0, r1)
       else map_option (\<lambda>(res, r'). ((res, []), r')) (send_other c e ans ms r1))"

section \<open>The receiving goroutine\<close>

text \<open>After these errors the goroutine ends; after any other it receives again.\<close>

fun drops_connection :: "recv_error \<Rightarrow> bool" where
  "drops_connection (NetError e) = (e \<noteq> ErrCanceled)"
| "drops_connection TooBig = False"
| "drops_connection (BadMessage e) = False"

text \<open>What \<open>handleConn\<close> dispatches of what it receives one after the other, with the sender it puts on it.\<close>

fun handle_received :: "'m codec \<Rightarrow> typeRegistry \<Rightarrow> 'p ServerIdentity \<Rightarrow> (recv_error + bytes) list \<Rightarrow> ('p, 'm) Envelope list" where
  "handle_received cd reg remote [] = []"
| "handle_received cd reg remote (Inl err # rs) = (if drops_connection err then [] else handle_received cd reg remote rs)"
| "handle_received cd reg remote (Inr buff # rs) =
    (case Unmarshal cd reg buff of
       Inl e \<Rightarrow> handle_received cd reg remote rs
     | Inr (i, body) \<Rightarrow>
         \<lparr>en_Server = Some remote, en_MsgType = i, en_Msg = body, en_Size = word_of_nat (length buff)\<rparr> # handle_received cd reg remote rs)"

section \<open>Counters\<close>

definition sum_conns :: "(nat \<Rightarrow> u64) \<Rightarrow> nat list list \<Rightarrow> u64" where
  "sum_conns f kss = sum_list (map (\<lambda>ks. sum_list (map f ks)) kss)"

text \<open>\<open>kss\<close> are the values of the map of connections, in some order.\<close>

definition rt_Tx :: "(nat \<Rightarrow> counterSafe) \<Rightarrow> nat list list \<Rightarrow> ('p, 'm) Router \<Rightarrow> u64" where
  "rt_Tx counters kss r = sum_conns (\<lambda>k. cs_tx (counters k)) kss + cs_tx (rt_traffic r)"

definition rt_Rx :: "(nat \<Rightarrow> counterSafe) \<Rightarrow> nat list list \<Rightarrow> ('p, 'm) Router \<Rightarrow> u64" where
  "rt_Rx counters kss r = sum_conns (\<lambda>k. cs_rx (counters k)) kss + cs_rx (rt_traffic r)"

end
