(* ===== verification/NetRouterRun.thy ===== *)
theory NetRouterRun
  imports NetRouter Transition
begin

text \<open>
  The router at work: goroutines that accept or dial connections, the receiving goroutine of each
  connection, and \<open>Stop\<close>; a step is one section under the router's lock. And what the router makes of
  messages, peers and packets that are too big.
\<close>

section \<open>Goroutines\<close>

text \<open>The deferred part of \<open>handleConn\<close>: close, add the traffic, \<open>wg.Done\<close>, remove.\<close>

datatype ending = EClose | ETraffic | EDone | ERemove

datatype stopping = Running | Waiting | Stopped

text \<open>
  \<open>nt_pending\<close>: connections with an identity, before \<open>registerConnection\<close>; \<open>nt_launching\<close>: registered,
  before \<open>launchHandleRoutine\<close>; \<open>nt_refused\<close>: those that \<open>registerConnection\<close> refused.
\<close>

record ('p, 'm) net =
  nt_r :: "('p, 'm) Router"
  nt_pending :: "('p ServerIdentity \<times> nat) list"
  nt_launching :: "('p ServerIdentity \<times> nat) list"
  nt_refused :: "nat list"
  nt_ending :: "(ending \<times> 'p ServerIdentity \<times> nat) list"
  nt_stop :: stopping
  nt_dispatched :: "('p ServerIdentity \<times> nat \<times> 'm) list"

definition net_start :: "'p ServerIdentity \<Rightarrow> ('p, 'm) net" where
  "net_start own = \<lparr>nt_r = NewRouter own, nt_pending = [], nt_launching = [], nt_refused = [], nt_ending = [], nt_stop = Running, nt_dispatched = []\<rparr>"

definition opened :: "'p ServerIdentity \<Rightarrow> ('p, 'm) net \<Rightarrow> ('p, 'm) net" where
  "opened si s = (let r = nt_r s; k = rt_next r in
     s\<lparr>nt_r := r\<lparr>rt_next := k + 1, rt_open := insert k (rt_open r)\<rparr>, nt_pending := nt_pending s @ [(si, k)]\<rparr>)"

definition close_all :: "('p, 'm) Router \<Rightarrow> ('p, 'm) Router" where
  "close_all r = r\<lparr>rt_isClosed := True, rt_paused := False, rt_open := {k \<in> rt_open r. \<forall>i. k \<notin> set (rt_conns r i)}\<rparr>"

inductive net_step :: "'p crypto \<Rightarrow> ('p, 'm) net \<Rightarrow> ('p, 'm) net \<Rightarrow> bool" for c :: "'p crypto" where
  accept: "accept_peer pubFromCN sit tr received (nt_r s) = Inr dst \<Longrightarrow> net_step c s (opened dst s)"
| dialed: "net_step c s (opened si s)"
| register: "nt_pending s = A @ (d, k) # B \<Longrightarrow> registerConnection c d k (nt_r s) = Inr r' \<Longrightarrow>
    net_step c s (s\<lparr>nt_r := r', nt_pending := A @ B, nt_launching := nt_launching s @ [(d, k)]\<rparr>)"
| refuse: "nt_pending s = A @ (d, k) # B \<Longrightarrow> registerConnection c d k (nt_r s) = Inl e \<Longrightarrow>
    net_step c s (s\<lparr>nt_pending := A @ B, nt_refused := nt_refused s @ [k]\<rparr>)"
| launch: "nt_launching s = A @ (d, k) # B \<Longrightarrow> launchHandleRoutine d k (nt_r s) = Inr r' \<Longrightarrow>
    net_step c s (s\<lparr>nt_r := r', nt_launching := A @ B\<rparr>)"
| no_launch: "nt_launching s = A @ (d, k) # B \<Longrightarrow> launchHandleRoutine d k (nt_r s) = Inl e \<Longrightarrow>
    net_step c s (s\<lparr>nt_launching := A @ B\<rparr>)"
| packet: "(d, k) \<in> set (rt_handlers (nt_r s)) \<Longrightarrow>
    net_step c s (s\<lparr>nt_r := (nt_r s)\<lparr>rt_msgTraffic := updateRx 1 (rt_msgTraffic (nt_r s))\<rparr>, nt_dispatched := nt_dispatched s @ [(d, k, m)]\<rparr>)"
| ends: "rt_handlers (nt_r s) = A @ (d, k) # B \<Longrightarrow>
    net_step c s (s\<lparr>nt_r := (nt_r s)\<lparr>rt_handlers := A @ B\<rparr>, nt_ending := nt_ending s @ [(EClose, d, k)]\<rparr>)"
| close: "nt_ending s = A @ (EClose, d, k) # B \<Longrightarrow>
    net_step c s (s\<lparr>nt_r := (nt_r s)\<lparr>rt_open := rt_open (nt_r s) - {k}\<rparr>, nt_ending := A @ (ETraffic, d, k) # B\<rparr>)"
| traffic: "nt_ending s = A @ (ETraffic, d, k) # B \<Longrightarrow>
    net_step c s (s\<lparr>nt_r := (nt_r s)\<lparr>rt_traffic := updateTx tx (updateRx rx (rt_traffic (nt_r s)))\<rparr>, nt_ending := A @ (EDone, d, k) # B\<rparr>)"
| finish: "nt_ending s = A @ (EDone, d, k) # B \<Longrightarrow>
    net_step c s (s\<lparr>nt_r := (nt_r s)\<lparr>rt_wg := rt_wg (nt_r s) - 1\<rparr>, nt_ending := A @ (ERemove, d, k) # B\<rparr>)"
| remove: "nt_ending s = A @ (ERemove, d, k) # B \<Longrightarrow>
    net_step c s (s\<lparr>nt_r := removeConnection c d k (nt_r s), nt_ending := A @ B\<rparr>)"
| stop: "nt_stop s = Running \<Longrightarrow> net_step c s (s\<lparr>nt_r := close_all (nt_r s), nt_stop := Waiting\<rparr>)"
| stopped: "nt_stop s = Waiting \<Longrightarrow> rt_wg (nt_r s) = 0 \<Longrightarrow> net_step c s (s\<lparr>nt_stop := Stopped\<rparr>)"
| set_valid: "net_step c s (s\<lparr>nt_r := SetValidPeers i peers (nt_r s)\<rparr>)"

abbreviation net_reachable :: "'p crypto \<Rightarrow> 'p ServerIdentity \<Rightarrow> ('p, 'm) net \<Rightarrow> bool" where
  "net_reachable c own \<equiv> reachable (\<lambda>s. s = net_start own) (net_step c)"

section \<open>Bookkeeping of connections\<close>

fun counted :: "ending \<Rightarrow> bool" where
  "counted ERemove = False"
| "counted _ = True"

definition held :: "('p, 'm) net \<Rightarrow> nat list" where
  "held s = map snd (nt_pending s) @ nt_refused s"

definition placed :: "('p, 'm) net \<Rightarrow> ('p ServerIdentity \<times> nat) list" where
  "placed s = nt_launching s @ rt_handlers (nt_r s) @ map snd (nt_ending s)"

abbreviation in_map :: "('p, 'm) net \<Rightarrow> nat set" where
  "in_map s \<equiv> (\<Union>i. set (rt_conns (nt_r s) i))"

definition places_inv :: "'p crypto \<Rightarrow> ('p, 'm) net \<Rightarrow> bool" where
  "places_inv c s \<longleftrightarrow>
    in_map s \<union> set (held s) \<subseteq> {..<rt_next (nt_r s)} \<and> rt_open (nt_r s) \<subseteq> in_map s \<union> set (held s) \<and>
    (\<forall>(d, k) \<in> set (placed s). k \<in> set (rt_conns (nt_r s) (si_GetID c d))) \<and>
    distinct (map snd (placed s)) \<and> distinct (held s) \<and>
    set (held s) \<subseteq> rt_open (nt_r s) \<and> set (held s) \<inter> in_map s = {}"

definition closing_inv :: "('p, 'm) net \<Rightarrow> bool" where
  "closing_inv s \<longleftrightarrow>
    rt_wg (nt_r s) = int (length (rt_handlers (nt_r s))) + int (length (filter (counted \<circ> fst) (nt_ending s))) \<and>
    (rt_isClosed (nt_r s) \<longrightarrow> in_map s \<inter> rt_open (nt_r s) = {}) \<and>
    (\<forall>(p, d, k) \<in> set (nt_ending s). p \<noteq> EClose \<longrightarrow> k \<notin> rt_open (nt_r s)) \<and>
    (nt_stop s \<noteq> Running \<longrightarrow> rt_isClosed (nt_r s)) \<and>
    (nt_stop s = Stopped \<longrightarrow> rt_handlers (nt_r s) = [] \<and> filter (counted \<circ> fst) (nt_ending s) = [])"

lemma last_position_Some: "last_position i k ks = Some j \<Longrightarrow> i \<le> j \<and> j < i + length ks \<and> ks ! (j - i) = k"
proof (induction i k ks rule: last_position.induct)
  case (2 i k a ks)
  show ?case
  proof (cases "last_position (Suc i) k ks")
    case (Some j')
    then have "j = j'" using 2(2) by simp
    then show ?thesis using 2(1) [OF Some [unfolded \<open>j = j'\<close> [symmetric]]] by (auto simp: nth_Cons')
  qed (use 2(2) in \<open>auto split: if_splits\<close>)
qed simp

lemma remove_conn_set: "set ks - {k} \<subseteq> set (remove_conn k ks)" "set (remove_conn k ks) \<subseteq> set ks"
proof -
  have "set ks - {k} \<subseteq> set (remove_conn k ks) \<and> set (remove_conn k ks) \<subseteq> set ks"
  proof (cases "last_position 0 k ks")
    case (Some j)
    have j: "j < length ks" "ks ! j = k" using last_position_Some [OF Some] by auto
    then have ne: "ks \<noteq> []" by auto
    obtain xs x where ks: "ks = xs @ [x]" using ne by (metis append_butlast_last_id)
    have r: "remove_conn k ks = butlast (ks[j := x])" using Some ks by (simp add: remove_conn_def)
    show ?thesis
    proof (cases "j = length xs")
      case True
      then have "remove_conn k ks = xs" "x = k" using r ks j by (simp_all add: list_update_append)
      then show ?thesis using ks by auto
    next
      case False
      then have l: "j < length xs" "xs ! j = k" using j ks by (auto simp: nth_append split: if_splits)
      have "remove_conn k ks = xs[j := x]" using r ks l by (simp add: list_update_append)
      moreover have "set (xs[j := x]) = insert x (set (take j xs) \<union> set (drop (Suc j) xs))"
        using l(1) by (simp add: upd_conv_take_nth_drop)
      moreover have "set xs = insert k (set (take j xs) \<union> set (drop (Suc j) xs))"
        using id_take_nth_drop [OF l(1)] l(2) by (metis Un_insert_right list.simps(15) set_append)
      ultimately show ?thesis using ks by auto
    qed
  qed (simp add: remove_conn_def)
  then show "set ks - {k} \<subseteq> set (remove_conn k ks)" "set (remove_conn k ks) \<subseteq> set ks" by blast+
qed

lemma places_inv_start: "places_inv c (net_start own)"
  by (simp add: places_inv_def net_start_def NewRouter_def placed_def held_def)

lemma closing_inv_start: "closing_inv (net_start own)"
  by (simp add: closing_inv_def net_start_def NewRouter_def)

lemma registered_router:
  "registerConnection c d k r = Inr r' \<Longrightarrow>
    \<not> rt_isClosed r \<and> r' = r\<lparr>rt_conns := (rt_conns r)(si_GetID c d := rt_conns r (si_GetID c d) @ [k])\<rparr>"
  by (auto simp: registerConnection_def split: if_splits)

lemma launched_router:
  "launchHandleRoutine d k r = Inr r' \<Longrightarrow> \<not> rt_isClosed r \<and> r' = r\<lparr>rt_wg := rt_wg r + 1, rt_handlers := rt_handlers r @ [(d, k)]\<rparr>"
  by (auto simp: launchHandleRoutine_def split: if_splits)

text \<open>A step that moves no connection between the places.\<close>

lemma places_inv_same:
  assumes "places_inv c s" and "rt_conns (nt_r s') = rt_conns (nt_r s)" and "rt_next (nt_r s') = rt_next (nt_r s)"
    and "rt_open (nt_r s') = rt_open (nt_r s)" and "held s' = held s" and "mset (placed s') = mset (placed s)"
  shows "places_inv c s'"
proof -
  have "set (placed s') = set (placed s)" using assms(6) by (rule mset_eq_setD)
  moreover have "distinct (map snd (placed s')) = distinct (map snd (placed s))"
    using assms(6) by (metis mset_eq_imp_distinct_iff mset_map)
  ultimately show ?thesis using assms(1) unfolding places_inv_def assms(2-5) by simp
qed

lemma places_placed: "places_inv c s \<Longrightarrow> (d, k) \<in> set (placed s) \<Longrightarrow> k \<in> set (rt_conns (nt_r s) (si_GetID c d))"
  by (auto simp: places_inv_def)

lemma places_held:
  assumes "places_inv c s"
  shows "in_map s \<union> set (held s) \<subseteq> {..<rt_next (nt_r s)}" and "rt_open (nt_r s) \<subseteq> in_map s \<union> set (held s)"
    and "set (held s) \<subseteq> rt_open (nt_r s)" and "set (held s) \<inter> in_map s = {}" and "distinct (held s)"
  using assms by (simp_all add: places_inv_def)

lemma placed_in_map: "places_inv c s \<Longrightarrow> snd ` set (placed s) \<subseteq> in_map s"
proof
  fix k assume i: "places_inv c s" and "k \<in> snd ` set (placed s)"
  then obtain d where "(d, k) \<in> set (placed s)" by auto
  then have "k \<in> set (rt_conns (nt_r s) (si_GetID c d))" using i by (auto simp: places_inv_def)
  then show "k \<in> in_map s" by blast
qed

lemma places_inv_opened: "places_inv c s \<Longrightarrow> places_inv c (opened d s)"
  unfolding places_inv_def
  by (auto simp: opened_def Let_def held_def placed_def)

lemma places_inv_step: "net_step c s s' \<Longrightarrow> places_inv c s \<Longrightarrow> closing_inv s \<Longrightarrow> places_inv c s'"
proof (induction rule: net_step.induct)
  case (accept pubFromCN sit tr received s dst)
  then show ?case by (intro places_inv_opened)
next
  case (dialed s si)
  then show ?case by (intro places_inv_opened)
next
  case (register s A d k B r')
  note r' = registered_router [OF register(2)]
  have "k \<in> set (held s)" using register(1) by (simp add: held_def)
  then have k1: "k \<notin> in_map s" "k < rt_next (nt_r s)" using register(3) unfolding places_inv_def by blast+
  have k2: "k \<notin> snd ` set (placed s)" using k1(1) placed_in_map [OF register(3)] by blast
  have "distinct (held s)" using register(3) by (simp add: places_inv_def)
  then have k3: "k \<notin> set (map snd (A @ B) @ nt_refused s)" using register(1) by (auto simp: held_def)
  let ?s = "s\<lparr>nt_r := r', nt_pending := A @ B, nt_launching := nt_launching s @ [(d, k)]\<rparr>"
  have m: "in_map ?s = insert k (in_map s)" using r' by (auto split: if_splits)
  have h: "insert k (set (held ?s)) = set (held s)" "k \<notin> set (held ?s)" using register(1) k3 by (auto simp: held_def)
  have o: "rt_open (nt_r ?s) = rt_open (nt_r s)" "rt_next (nt_r ?s) = rt_next (nt_r s)" using r' by simp_all
  have p: "set (placed ?s) = insert (d, k) (set (placed s))" using r' by (auto simp: placed_def)
  have conns: "k' \<in> set (rt_conns (nt_r ?s) (si_GetID c d'))" if "(d', k') \<in> set (placed ?s)" for d' k'
    using that register(3) unfolding p places_inv_def using r' by auto
  have "distinct (map snd (placed ?s))" using k2 register(3) r' by (auto simp: placed_def places_inv_def)
  moreover have "distinct (held ?s)" using register(1,3) by (auto simp: held_def places_inv_def)
  moreover have "in_map s \<union> insert k (set (held ?s)) \<subseteq> {..<rt_next (nt_r s)}" "rt_open (nt_r s) \<subseteq> in_map s \<union> insert k (set (held ?s))"
      "insert k (set (held ?s)) \<subseteq> rt_open (nt_r s)" "insert k (set (held ?s)) \<inter> in_map s = {}"
    using register(3) unfolding h(1) places_inv_def by simp_all
  then have "in_map ?s \<union> set (held ?s) \<subseteq> {..<rt_next (nt_r s)}" "rt_open (nt_r s) \<subseteq> in_map ?s \<union> set (held ?s)"
      "set (held ?s) \<subseteq> rt_open (nt_r s)" "set (held ?s) \<inter> in_map ?s = {}"
    unfolding m using h(2) by auto
  moreover have "\<forall>(d', k') \<in> set (placed ?s). k' \<in> set (rt_conns (nt_r ?s) (si_GetID c d'))" using conns by blast
  ultimately show ?case unfolding places_inv_def o by (intro conjI) assumption+
next
  case (refuse s A d k B e)
  let ?s = "s\<lparr>nt_pending := A @ B, nt_refused := nt_refused s @ [k]\<rparr>"
  have h: "mset (held ?s) = mset (held s)" and p: "placed ?s = placed s" using refuse(1) by (simp_all add: held_def placed_def)
  have "set (held ?s) = set (held s)" "distinct (held ?s) = distinct (held s)"
    using h mset_eq_setD mset_eq_imp_distinct_iff by blast+
  then show ?case using refuse(3) p unfolding places_inv_def by simp
next
  case (launch s A d k B r')
  note r' = launched_router [OF launch(2)]
  show ?case by (rule places_inv_same [OF launch(3)]) (use launch(1) r' in \<open>simp_all add: held_def placed_def\<close>)
next
  case (no_launch s A d k B e)
  then show ?case unfolding places_inv_def by (auto simp: held_def placed_def)
next
  case (packet d k s m)
  show ?case by (rule places_inv_same [OF packet(2)]) (simp_all add: held_def placed_def)
next
  case (ends s A d k B)
  show ?case by (rule places_inv_same [OF ends(2)]) (use ends(1) in \<open>simp_all add: held_def placed_def\<close>)
next
  case (close s A d k B)
  then have "(d, k) \<in> set (placed s)" by (simp add: placed_def)
  then have "k \<in> in_map s" using close(2) unfolding places_inv_def by blast
  then have "k \<notin> set (held s)" using close(2) unfolding places_inv_def by blast
  then show ?case using close unfolding places_inv_def by (auto simp: held_def placed_def)
next
  case (traffic s A d k B tx rx)
  show ?case by (rule places_inv_same [OF traffic(2)]) (use traffic(1) in \<open>simp_all add: held_def placed_def\<close>)
next
  case (finish s A d k B)
  show ?case by (rule places_inv_same [OF finish(2)]) (use finish(1) in \<open>simp_all add: held_def placed_def\<close>)
next
  case (remove s A d k B)
  let ?s = "s\<lparr>nt_r := removeConnection c d k (nt_r s), nt_ending := A @ B\<rparr>"
  have open_k: "k \<notin> rt_open (nt_r s)" using remove(1,3) unfolding closing_inv_def by auto
  have sub: "in_map ?s \<subseteq> in_map s"
  proof
    fix x assume "x \<in> in_map ?s"
    then obtain i where "x \<in> set (rt_conns (nt_r s) i)"
      using remove_conn_set(2) [of k "rt_conns (nt_r s) (si_GetID c d)"] by (auto simp: removeConnection_def split: if_splits)
    then show "x \<in> in_map s" by blast
  qed
  have sup: "set (rt_conns (nt_r s) i) - {k} \<subseteq> set (rt_conns (nt_r ?s) i)" for i
    using remove_conn_set(1) by (auto simp: removeConnection_def)
  have eq: "mset (placed s) = mset ((d, k) # placed ?s)" using remove(1) by (simp add: placed_def removeConnection_def)
  have "distinct (map snd (placed s))" using remove(2) by (simp add: places_inv_def)
  then have "distinct (map snd ((d, k) # placed ?s))" using eq by (metis mset_eq_imp_distinct_iff mset_map)
  then have pl: "set (placed s) = insert (d, k) (set (placed ?s))" "k \<notin> snd ` set (placed ?s)" "distinct (map snd (placed ?s))"
    using mset_eq_setD [OF eq] by simp_all
  have h: "held ?s = held s" "rt_open (nt_r ?s) = rt_open (nt_r s)" "rt_next (nt_r ?s) = rt_next (nt_r s)"
    by (simp_all add: held_def removeConnection_def)
  have "\<forall>(d', k') \<in> set (placed ?s). k' \<in> set (rt_conns (nt_r ?s) (si_GetID c d'))"
  proof (intro ballI, clarify)
    fix d' k' assume p: "(d', k') \<in> set (placed ?s)"
    then have "k' \<noteq> k" using pl(2) by force
    moreover have "k' \<in> set (rt_conns (nt_r s) (si_GetID c d'))" using p pl(1) places_placed [OF remove(2)] by blast
    ultimately show "k' \<in> set (rt_conns (nt_r ?s) (si_GetID c d'))" using sup by blast
  qed
  moreover have "rt_open (nt_r s) \<subseteq> in_map ?s \<union> set (held s)"
  proof
    fix x assume x: "x \<in> rt_open (nt_r s)"
    then have "x \<noteq> k" "x \<in> in_map s \<union> set (held s)" using open_k places_held(2) [OF remove(2)] by auto
    then show "x \<in> in_map ?s \<union> set (held s)" using sup by blast
  qed
  moreover have "in_map ?s \<union> set (held s) \<subseteq> {..<rt_next (nt_r s)}" "set (held s) \<inter> in_map ?s = {}"
    using sub places_held(1,4) [OF remove(2)] by auto
  ultimately show ?case unfolding places_inv_def h using pl(3) places_held(3,5) [OF remove(2)] by (intro conjI) assumption+
next
  case (stop s)
  let ?s = "s\<lparr>nt_r := close_all (nt_r s), nt_stop := Waiting\<rparr>"
  have h: "held ?s = held s" "placed ?s = placed s" "in_map ?s = in_map s" "rt_next (nt_r ?s) = rt_next (nt_r s)"
      "rt_open (nt_r ?s) = rt_open (nt_r s) - in_map s" "rt_conns (nt_r ?s) = rt_conns (nt_r s)"
    by (auto simp: held_def placed_def close_all_def)
  have "set (held s) \<subseteq> rt_open (nt_r s) - in_map s" using places_held(3,4) [OF stop(2)] by blast
  then show ?case using stop(2) unfolding places_inv_def h by auto
next
  case (stopped s)
  show ?case by (rule places_inv_same [OF stopped(3)]) (simp_all add: held_def placed_def)
next
  case (set_valid s i peers)
  show ?case by (rule places_inv_same [OF set_valid(1)]) (simp_all add: held_def placed_def SetValidPeers_def)
qed

text \<open>What the closing part needs of the two invariants when something is registered or opened.\<close>

lemma closing_inv_step:
  "net_step c s s' \<Longrightarrow> closing_inv s \<Longrightarrow> places_inv c s \<Longrightarrow> closing_inv s'"
proof (induction rule: net_step.induct)
  case (accept pubFromCN sit tr received s dst)
  have "rt_next (nt_r s) \<notin> in_map s" "\<forall>(p, d, k) \<in> set (nt_ending s). k \<noteq> rt_next (nt_r s)"
    using accept(3) placed_in_map [OF accept(3)] unfolding places_inv_def placed_def by force+
  then show ?case using accept(2) by (auto simp: closing_inv_def opened_def Let_def)
next
  case (dialed s si)
  have "rt_next (nt_r s) \<notin> in_map s" "\<forall>(p, d, k) \<in> set (nt_ending s). k \<noteq> rt_next (nt_r s)"
    using dialed(2) placed_in_map [OF dialed(2)] unfolding places_inv_def placed_def by force+
  then show ?case using dialed(1) by (auto simp: closing_inv_def opened_def Let_def)
next
  case (register s A d k B r')
  then show ?case using registered_router [OF register(2)] by (auto simp: closing_inv_def)
next
  case (launch s A d k B r')
  then show ?case using launched_router [OF launch(2)] by (auto simp: closing_inv_def)
next
  case (remove s A d k B)
  then show ?case using remove_conn_set(2) by (auto simp: closing_inv_def removeConnection_def split: if_splits; blast)
next
  case (stop s)
  then show ?case by (auto simp: closing_inv_def close_all_def)
next
  case (stopped s)
  have "int (length (rt_handlers (nt_r s))) + int (length (filter (counted \<circ> fst) (nt_ending s))) = 0"
    using stopped(2,3) by (simp add: closing_inv_def)
  then have "length (rt_handlers (nt_r s)) = 0" "length (filter (counted \<circ> fst) (nt_ending s)) = 0" by linarith+
  then show ?case using stopped(1,3) by (simp add: closing_inv_def)
qed (auto simp: closing_inv_def SetValidPeers_def)

interpretation router: invariant_system "\<lambda>s. s = net_start own" "net_step c" "\<lambda>s. places_inv c s \<and> closing_inv s" for c own
  by unfold_locales (use places_inv_start closing_inv_start places_inv_step closing_inv_step in blast)+

section \<open>Stopping\<close>

inductive net_run :: "'p crypto \<Rightarrow> ('p, 'm) net \<Rightarrow> ('p, 'm) net \<Rightarrow> bool" for c :: "'p crypto" where
  no_step: "net_run c s s"
| steps: "net_step c s s' \<Longrightarrow> net_run c s' s'' \<Longrightarrow> net_run c s s''"

lemma stopped_step:
  "net_step c s s' \<Longrightarrow> nt_stop s = Stopped \<Longrightarrow> rt_handlers (nt_r s) = [] \<Longrightarrow> nt_dispatched s' = nt_dispatched s \<and> nt_stop s' = Stopped"
  by (induction rule: net_step.induct) (auto simp: opened_def Let_def)

lemma stopped_run:
  "net_run c s s' \<Longrightarrow> places_inv c s \<Longrightarrow> closing_inv s \<Longrightarrow> nt_stop s = Stopped \<Longrightarrow> nt_dispatched s' = nt_dispatched s"
proof (induction rule: net_run.induct)
  case (steps s s' s'')
  have "rt_handlers (nt_r s) = []" using steps.prems by (simp add: closing_inv_def)
  from stopped_step [OF steps.hyps(1) steps.prems(3) this] steps.IH
  show ?case using places_inv_step closing_inv_step steps.hyps(1) steps.prems by metis
qed simp

text \<open>
  C6: \<open>Stop\<close> is final, however the goroutines are interleaved. Once it has returned, no receiving
  goroutine is left, every connection in the map is closed, and no later step dispatches a message that
  came over a connection. The connections that are still open are those a goroutine still holds or that
  \<open>registerConnection\<close> refused: these are never closed, here or later, by anyone.
\<close>

theorem stop_is_final:
  assumes "net_reachable c own s" and "nt_stop s = Stopped"
  shows "rt_handlers (nt_r s) = [] \<and> (\<forall>i. \<forall>k \<in> set (rt_conns (nt_r s) i). k \<notin> rt_open (nt_r s)) \<and>
    rt_open (nt_r s) = snd ` set (nt_pending s) \<union> set (nt_refused s) \<and>
    (\<forall>s'. net_run c s s' \<longrightarrow> nt_dispatched s' = nt_dispatched s)"
proof -
  have inv: "places_inv c s" "closing_inv s" using router.reachable_inv [OF assms(1)] by blast+
  have h: "rt_isClosed (nt_r s)" "rt_handlers (nt_r s) = []" using inv(2) assms(2) by (simp_all add: closing_inv_def)
  then have m: "in_map s \<inter> rt_open (nt_r s) = {}" using inv(2) by (simp add: closing_inv_def)
  have "rt_open (nt_r s) \<subseteq> in_map s \<union> set (held s)" "set (held s) \<subseteq> rt_open (nt_r s)"
    using inv(1) by (simp_all add: places_inv_def)
  then have o: "rt_open (nt_r s) = snd ` set (nt_pending s) \<union> set (nt_refused s)" using m by (auto simp: held_def)
  have "\<forall>i. \<forall>k \<in> set (rt_conns (nt_r s) i). k \<notin> rt_open (nt_r s)" using m by blast
  then show ?thesis using h(2) o stopped_run [OF _ inv assms(2)] by blast
qed

text \<open>A connection that is dialed while the router closes.\<close>

lemma stop_is_final_witness:
  "\<exists>s :: (nat, nat) net. net_reachable sample_crypto (sample_server 1) s \<and> nt_stop s = Stopped \<and> nt_refused s = [0] \<and> 0 \<in> rt_open (nt_r s)"
proof -
  define own where "own = sample_server 1"
  let ?r = "NewRouter own :: (nat, nat) Router" and ?n = "net_start own :: (nat, nat) net"
  let ?s1 = "opened own ?n"
  let ?s2 = "?s1\<lparr>nt_r := close_all (nt_r ?s1), nt_stop := Waiting\<rparr>"
  let ?s3 = "?s2\<lparr>nt_pending := [], nt_refused := [0]\<rparr>"
  let ?s4 = "?s3\<lparr>nt_stop := Stopped\<rparr>"
  have f: "nt_pending ?s1 = [(own, 0)]" "nt_refused ?s1 = []" "nt_stop ?s1 = Running" "rt_wg (nt_r ?s1) = 0"
    by (simp_all add: opened_def net_start_def NewRouter_def Let_def)
  have "net_reachable sample_crypto own ?n" by (rule at_start) (rule refl)
  then have "net_reachable sample_crypto own ?s1" by (rule next_step) (rule net_step.dialed)
  then have 2: "net_reachable sample_crypto own ?s2" by (rule next_step) (rule net_step.stop, simp add: f)
  have "net_step sample_crypto ?s2 (?s2\<lparr>nt_pending := [] @ [], nt_refused := nt_refused ?s2 @ [0]\<rparr>)"
    by (rule net_step.refuse [where d = own and e = "''closing''"]) (simp_all add: f registerConnection_def close_all_def)
  then have "net_step sample_crypto ?s2 ?s3" by (simp add: f)
  with 2 have 3: "net_reachable sample_crypto own ?s3" by (rule next_step)
  have 4: "net_reachable sample_crypto own ?s4" by (rule next_step [OF 3], rule net_step.stopped) (simp_all add: f close_all_def)
  have "rt_open (nt_r ?s4) = snd ` set (nt_pending ?s4) \<union> set (nt_refused ?s4)" using stop_is_final [OF 4] by simp
  then show ?thesis using 4 unfolding own_def [symmetric] by (intro exI [of _ ?s4]) simp
qed

end
