(* ===== verification/NetRouterSend.thy ===== *)
theory NetRouterSend
  imports NetRouter
begin

text \<open>
  What the router makes of a call of \<open>Send\<close> with several messages, of the identity of a peer, and of a
  packet that is too big.
\<close>

section \<open>Several messages\<close>

text \<open>
  The connections of the messages of one call: the first connection \<open>k\<close>, or connections made for one
  message each.
\<close>

definition own_connections :: "nat \<Rightarrow> nat \<Rightarrow> nat list \<Rightarrow> bool" where
  "own_connections n k ks \<longleftrightarrow> (\<forall>x \<in> set ks. x = k \<or> n \<le> x) \<and> distinct (filter (\<lambda>x. x \<noteq> k) ks)"

lemma connect_new:
  "connect c d e r = ((Inr k, n), r') \<Longrightarrow> k = rt_next r \<and> rt_next r' = Suc (rt_next r) \<and> rt_sent r' = rt_sent r"
  by (auto simp: connect_def Let_def registerConnection_def launchHandleRoutine_def split: dial.splits if_splits)

lemma send_msgs_connections:
  "send_msgs c e ans ms k tot r = Some ((n, None), r') \<Longrightarrow> k < rt_next r \<Longrightarrow>
    \<exists>ks. length ks = length ms \<and> rt_sent r' = rt_sent r @ zip ks ms \<and> own_connections (rt_next r) k ks"
proof (induction c e ans ms k tot r rule: send_msgs.induct)
  case (1 c e ans k tot r)
  then show ?case by (simp add: own_connections_def)
next
  case (2 c e n' ans m ms k tot r)
  then obtain ks where "length ks = length ms" "rt_sent r' = rt_sent r @ [(k, m)] @ zip ks ms" "own_connections (rt_next r) k ks"
    by (auto simp: log_sent_def)
  then show ?case by (intro exI [of _ "k # ks"]) (simp add: own_connections_def)
next
  case (3 c e n' d ans m ms k tot r)
  obtain k' n1 r1 where con: "connect c d e r = ((Inr k', n1), r1)"
    using 3(2) by (cases "connect c d e r") (auto split: sum.splits prod.splits)
  obtain n2 ans' where ans: "ans = SendOk n2 # ans'"
    using 3(2) con by (cases ans) (auto split: net_answer.splits)
  note k' = connect_new [OF con]
  have "send_msgs c e ans' ms k (tot + n' + n1 + n2) (log_sent k' m r1) = Some ((n, None), r')"
    using 3(2) con ans by simp
  from 3(1) [OF con [symmetric] refl refl ans refl this] 3(3) k'
  obtain ks where ks: "length ks = length ms" "rt_sent r' = rt_sent r @ [(k', m)] @ zip ks ms" "own_connections (Suc (rt_next r)) k ks"
    by (auto simp: log_sent_def)
  then have "own_connections (rt_next r) k (k' # ks)" using k' 3(3) by (auto simp: own_connections_def)
  then show ?case using ks by (intro exI [of _ "k' # ks"]) simp
qed auto

text \<open>
  A call of \<open>Send\<close> that returns no error has given every message to a connection, in the order of
  the call, but not all to the same one: a message whose first try fails gets a connection made for it
  alone, and the next message is tried on the old connection again. Of the messages that fail at first,
  no two go over the same connection, so the order in which the peer gets them is open.
\<close>

theorem send_splits_messages:
  assumes "rt_Send c cd reg d e ans msgs r = Some (((n, None), calls), r')" and "None \<notin> set msgs" and "msgs \<noteq> []"
    and "si_GetID c e \<noteq> si_GetID c (rt_Server r)" and "\<forall>i. \<forall>k \<in> set (rt_conns r i). k < rt_next r"
  shows "\<exists>k ks. (case connection (si_GetID c e) r of None \<Rightarrow> k = rt_next r | Some k0 \<Rightarrow> k = k0) \<and> length ks = length msgs \<and>
    rt_sent r' = rt_sent r @ zip ks (map the msgs) \<and> own_connections (rt_next r) k ks"
proof -
  let ?r = "r\<lparr>rt_msgTraffic := updateTx 1 (rt_msgTraffic r)\<rparr>" and ?ms = "map the msgs"
  have s: "send_other c e ans ?ms ?r = Some ((n, None), r')" using assms(1-4) by (auto simp: rt_Send_def Let_def)
  show ?thesis
  proof (cases "connection (si_GetID c e) r")
    case (Some k)
    then have "k \<in> set (rt_conns r (si_GetID c e))" by (auto simp: connection_def split: list.splits)
    then have "k < rt_next ?r" using assms(5) by simp
    moreover have "send_msgs c e ans ?ms k 0 ?r = Some ((n, None), r')" using s Some by (simp add: send_other_def connection_def)
    ultimately show ?thesis using send_msgs_connections Some by fastforce
  next
    case None
    then obtain dl ans' where a: "ans = DialAnswer dl # ans'"
      using s by (auto simp: send_other_def connection_def split: list.splits net_answer.splits)
    obtain k n1 r1 where con: "connect c dl e ?r = ((Inr k, n1), r1)"
      using s None a by (cases "connect c dl e ?r") (auto simp: send_other_def connection_def split: sum.splits prod.splits)
    note k = connect_new [OF con]
    have "send_msgs c e ans' ?ms k n1 r1 = Some ((n, None), r')" using s None a con by (simp add: send_other_def connection_def)
    from send_msgs_connections [OF this] k
    obtain ks where "length ks = length ?ms" "rt_sent r' = rt_sent r1 @ zip ks ?ms" "own_connections (rt_next r1) k ks" by auto
    then show ?thesis using k None by (intro exI [of _ k] exI [of _ ks]) (auto simp: own_connections_def)
  qed
qed

definition sample_router :: "(nat, nat) Router" where
  "sample_router = (NewRouter (NewServerIdentity sample_enc_crypto (Some 1) []))\<lparr>
     rt_conns := (\<lambda>i. if i = si_GetID sample_enc_crypto (NewServerIdentity sample_enc_crypto (Some 2) []) then [0] else []), rt_next := 1\<rparr>"

lemma send_splits_messages_witness:
  "\<exists>r'. rt_Send sample_enc_crypto sample_codec newTypeRegistry (Map.empty :: nat procs) (NewServerIdentity sample_enc_crypto (Some 2) [])
      [SendFails 0, DialAnswer (Dialed 3), SendOk 4, SendFails 0, DialAnswer (Dialed 3), SendOk 4] [Some 5, Some 6] sample_router =
      Some (((14, None), []), r') \<and> rt_sent r' = [(1, 5), (2, 6)] \<and> (\<exists>k ks. own_connections 1 k ks \<and> length ks = 2)"
proof -
  let ?e = "NewServerIdentity sample_enc_crypto (Some 2) [] :: nat ServerIdentity"
  let ?ans = "[SendFails 0, DialAnswer (Dialed 3), SendOk 4, SendFails 0, DialAnswer (Dialed 3), SendOk 4]"
  have ids: "si_GetID sample_enc_crypto ?e \<noteq> si_GetID sample_enc_crypto (rt_Server sample_router)"
    by (simp add: sample_router_def NewRouter_def NewServerIdentity_def Let_def si_GetID_def sample_enc_crypto_def NamespaceURL_def)
  obtain r' where r': "rt_Send sample_enc_crypto sample_codec newTypeRegistry (Map.empty :: nat procs) ?e ?ans [Some 5, Some 6] sample_router =
      Some (((14, None), []), r')" "rt_sent r' = [(1, 5), (2, 6)]"
    using ids by (simp add: rt_Send_def Let_def send_other_def connection_def connect_def registerConnection_def launchHandleRoutine_def
        log_sent_def sample_router_def NewRouter_def)
  have "\<exists>k ks. (case connection (si_GetID sample_enc_crypto ?e) sample_router of None \<Rightarrow> k = rt_next sample_router | Some k0 \<Rightarrow> k = k0) \<and>
      length ks = length [Some 5, Some (6 :: nat)] \<and> rt_sent r' = rt_sent sample_router @ zip ks (map the [Some 5, Some 6]) \<and>
      own_connections (rt_next sample_router) k ks"
    by (rule send_splits_messages [OF r'(1) _ _ ids]) (simp_all add: sample_router_def)
  then obtain k ks where "own_connections (rt_next sample_router) k ks" "length ks = length [Some 5, Some (6 :: nat)]" by blast
  then have "own_connections 1 k ks" "length ks = 2" by (simp_all add: sample_router_def)
  then show ?thesis using r' by blast
qed

section \<open>Valid peers\<close>

text \<open>
  the filter of valid peers does not look at the key of the peer. The certificate of a TLS connection
  has to match the public key of the identity that the peer sends, but the set of valid peers is asked
  for the identity's id, which the peer chooses: whoever has a certificate for any key is accepted, with
  a suitable identity, exactly when anyone is.
\<close>

theorem peer_filter_ignores_key:
  assumes "pubFromCN cn = Inr q"
  shows "(\<exists>dst. si_Public dst = Some q \<and> accept_peer pubFromCN sit (TlsConn (cn # cns)) (Inr (sit, dst)) r = Inr dst) \<longleftrightarrow>
    (case rt_validPeers r of None \<Rightarrow> True | Some m \<Rightarrow> \<exists>s \<in> ran m. s \<noteq> {})"
proof -
  have a: "accept_peer pubFromCN sit (TlsConn (cn # cns)) (Inr (sit, dst)) r = Inr dst \<longleftrightarrow> vp_isValid dst (rt_validPeers r)"
    if "si_Public dst = Some q" for dst
    using that assms by (simp add: accept_peer_def receiveServerIdentity_def nonnil_def isPeerValid_def)
  show ?thesis
  proof (cases "rt_validPeers r")
    case None
    have "accept_peer pubFromCN sit (TlsConn (cn # cns)) (Inr (sit, NewServerIdentity c (Some q) [])) r = Inr (NewServerIdentity c (Some q) [])" for c
      using a [of "NewServerIdentity c (Some q) []"] None by (simp add: NewServerIdentity_def Let_def vp_isValid_def)
    then show ?thesis using None by (auto simp: NewServerIdentity_def Let_def intro!: exI)
  next
    case (Some m)
    show ?thesis
    proof
      assume "\<exists>dst. si_Public dst = Some q \<and> accept_peer pubFromCN sit (TlsConn (cn # cns)) (Inr (sit, dst)) r = Inr dst"
      then show "case rt_validPeers r of None \<Rightarrow> True | Some m \<Rightarrow> \<exists>s \<in> ran m. s \<noteq> {}" using a Some by (auto simp: vp_isValid_def)
    next
      assume "case rt_validPeers r of None \<Rightarrow> True | Some m \<Rightarrow> \<exists>s \<in> ran m. s \<noteq> {}"
      then obtain s i where "s \<in> ran m" "i \<in> s" using Some by auto
      then have "vp_isValid \<lparr>si_Public = Some q, ServiceIdentities = [], si_ID = i, si_Address = []\<rparr> (rt_validPeers r)"
        using Some by (auto simp: vp_isValid_def)
      then show "\<exists>dst. si_Public dst = Some q \<and> accept_peer pubFromCN sit (TlsConn (cn # cns)) (Inr (sit, dst)) r = Inr dst"
        using a by (intro exI [of _ "\<lparr>si_Public = Some q, ServiceIdentities = [], si_ID = i, si_Address = []\<rparr>"]) simp
    qed
  qed
qed

lemma peer_filter_ignores_key_witness:
  "\<exists>dst. si_Public dst = Some 66 \<and> accept_peer (\<lambda>cn. Inr (66 :: nat)) 7 (TlsConn [''66'']) (Inr (7, dst))
     (SetValidPeers [] [NewServerIdentity sample_enc_crypto (Some 1) []] sample_router) = Inr dst"
proof -
  have "case rt_validPeers (SetValidPeers [] [NewServerIdentity sample_enc_crypto (Some 1) []] sample_router) of None \<Rightarrow> True
      | Some m \<Rightarrow> \<exists>s \<in> ran m. s \<noteq> {}"
    by (simp add: SetValidPeers_def vp_set_def sample_router_def NewRouter_def)
  then show ?thesis using peer_filter_ignores_key [of "\<lambda>cn. Inr 66" "''66''" 66 7 "[]"] by blast
qed

section \<open>Packets that are too big\<close>

lemma handle_messages:
  "list_all2 (\<lambda>b (i, m). Unmarshal cd reg b = Inr (i, m)) bs ims \<Longrightarrow>
    handle_received cd reg remote (map Inr bs) =
      map (\<lambda>(b, i, m). \<lparr>en_Server = Some remote, en_MsgType = i, en_Msg = m, en_Size = word_of_nat (length b)\<rparr>) (zip bs ims)"
  by (induction rule: list_all2_induct) auto

text \<open>
  C15: a message can carry others past the router. The goroutine of a connection goes on after a packet
  above \<open>MaxPacketSize\<close>, whose bytes are still there: the marshalled messages inside are dispatched, each
  as a message of the peer, who has sent one message that was refused. So who chooses the content of a big
  message that a server sends on chooses what its peers take for messages of that server.
\<close>

theorem oversized_packet_is_dispatched:
  assumes "unat MaxPacketSize < length b" and "u32_len b" and "b = concat (map frame inner) @ pad"
    and "\<forall>i \<in> set inner. length i \<le> unat MaxPacketSize"
    and "sendRaw None wevs b snd_conn = Some ((sent, None), snd_conn')"
    and "tc_in rcv_conn = drop (length (tc_out snd_conn)) (tc_out snd_conn')"
    and "list_all2 (\<lambda>evs i. patient evs (length i)) revss inner"
    and "list_all2 (\<lambda>b (i, m). Unmarshal cd reg b = Inr (i, m)) inner ims"
  shows "\<exists>rs rcv_conn'. receive_all ([] # revss) rcv_conn = Some (rs, rcv_conn') \<and>
    map (\<lambda>p. (en_Server p, en_MsgType p, en_Msg p)) (handle_received cd reg remote rs) = map (\<lambda>(i, m). (Some remote, i, m)) ims"
proof -
  obtain rcv_conn' where r: "receive_all ([] # revss) rcv_conn = Some (Inl TooBig # map Inr inner, rcv_conn')"
    using oversized_receive [OF assms(1-7)] by blast
  have "length inner = length ims" using assms(8) by (rule list_all2_lengthD)
  then have "map (\<lambda>p. (en_Server p, en_MsgType p, en_Msg p)) (handle_received cd reg remote (Inl TooBig # map Inr inner)) =
      map (\<lambda>(i, m). (Some remote, i, m)) ims"
    unfolding handle_received.simps handle_messages [OF assms(8)]
    by (simp add: comp_def case_prod_beta) (induction inner ims rule: list_induct2, simp_all)
  then show ?thesis using r by blast
qed

lemma oversized_packet_is_dispatched_witness:
  "\<exists>m rs c'. receive_all [[], replicate 17 (Took 1)] (sample_conn (frame (frame m @ replicate 10485760 0))) = Some (rs, c') \<and>
    map en_Msg (handle_received sample_codec (snd (RegisterMessages sample_enc_crypto [sample_type 1] newTypeRegistry)) (sample_server 2) rs) = [5]"
proof -
  define remote where "remote = sample_server 2"
  let ?reg = "snd (RegisterMessages sample_enc_crypto [sample_type 1] newTypeRegistry)"
  define pad :: bytes where "pad = replicate 10485760 0"
  define i where "i = computeMessageType sample_enc_crypto (sample_type 1)"
  define m where "m = be_bytes 16 (unat i) @ [5]"
  have M: "Marshal sample_enc_crypto sample_codec ?reg 5 = Inr m"
    by (simp add: Marshal_def MessageType_def RegisterMessage_def reg_get_def reg_put_def Let_def sample_codec_def i_def m_def
        computeMessageType_def sample_enc_crypto_def sample_type_def ty_String_def NamespaceBodyType_def NamespaceURL_def)
  have U: "Unmarshal sample_codec ?reg m = Inr (i, 5)"
    by (subst Unmarshal_Marshal [OF M, of "[5]"])
      (simp_all add: sample_codec_def RegisterMessage_def reg_put_def Let_def i_def)
  let ?b = "concat (map frame [m]) @ pad"
  have l: "length ?b = 10485781" "length m = 17" by (simp_all add: frame_def pad_def m_def)
  obtain s' where s': "sendRaw None [Took 10485781] ?b (sample_conn []) = Some ((word_of_nat (4 + length ?b), None), s')" "tc_out s' = frame ?b"
  proof -
    have "?b \<noteq> []" "u32_len ?b" "length ?b \<le> 10485781" using l by (auto simp: frame_def)
    from that [OF sendRaw_one [OF this(2,1,3)]] show ?thesis by (simp add: sample_conn_def)
  qed
  have "\<exists>rs c'. receive_all ([] # [replicate 17 (Took 1)]) (sample_conn (frame ?b)) = Some (rs, c') \<and>
      map (\<lambda>p. (en_Server p, en_MsgType p, en_Msg p)) (handle_received sample_codec ?reg remote rs) = map (\<lambda>(i, m). (Some remote, i, m)) [(i, 5)]"
  proof (rule oversized_packet_is_dispatched [OF _ _ refl _ s'(1)])
    show "tc_in (sample_conn (frame ?b)) = drop (length (tc_out (sample_conn []))) (tc_out s')"
      using s'(2) by (simp add: sample_conn_def)
    show "list_all2 (\<lambda>evs i. patient evs (length i)) [replicate 17 (Took 1)] [m]"
      using l by (simp add: patient_def list_all_iff)
    show "list_all2 (\<lambda>b (i, m). Unmarshal sample_codec ?reg b = Inr (i, m)) [m] [(i, 5)]" using U by simp
  qed (use l in \<open>simp_all add: unat_MaxPacketSize\<close>)
  then obtain rs c' where r: "receive_all ([] # [replicate 17 (Took 1)]) (sample_conn (frame ?b)) = Some (rs, c')"
      "map (\<lambda>p. (en_Server p, en_MsgType p, en_Msg p)) (handle_received sample_codec ?reg remote rs) = [(Some remote, i, 5)]" by auto
  then have "map en_Msg (handle_received sample_codec ?reg remote rs) = [5]" by (auto simp: Cons_eq_map_conv map_eq_Cons_conv)
  then show ?thesis using r(1) unfolding pad_def remote_def by (intro exI [of _ m] exI [of _ rs] exI [of _ c']) simp
qed

end
