(* ===== verification/Por.thy ===== *)
theory Por
  imports Measurements
begin

text \<open>
  The compact proofs of retrievability of \<open>por/por.go\<close>: the tag and the authenticators of a file, the
  proof of a storage server for a random query, and its verification. Kyber's pairing, its hash to the
  group, Schnorr signatures and the sources of randomness are parameters.
\<close>

section \<open>The parameters\<close>

text \<open>
  Scalars are a field and the group G1 is additive. \<open>Pick\<close> is the i-th scalar drawn from the stream of a
  seed, \<open>RandIntn\<close> the i-th draw of \<open>math/rand\<close> for a seed.
\<close>

record ('s, 'g, 'h, 't, 'k, 'pk) suite =
  G1_Mul :: "'s \<Rightarrow> 'g \<Rightarrow> 'g"
  G1_Base :: 'g
  G2_Mul :: "'s \<Rightarrow> 'h \<Rightarrow> 'h"
  G2_Base :: 'h
  Pair :: "'g \<Rightarrow> 'h \<Rightarrow> 't"
  HashG1 :: "bytes \<Rightarrow> 'g"
  ScalarBytes :: "'s \<Rightarrow> bytes"
  SetBytes :: "bytes \<Rightarrow> 's"
  SchnorrPublic :: "'k \<Rightarrow> 'pk"
  SchnorrSign :: "'k \<Rightarrow> bytes \<Rightarrow> bytes"
  SchnorrVerify :: "'pk \<Rightarrow> bytes \<Rightarrow> bytes \<Rightarrow> bool"
  Pick :: "u64 \<Rightarrow> nat \<Rightarrow> 's"
  RandIntn :: "int \<Rightarrow> nat \<Rightarrow> nat \<Rightarrow> nat"

text \<open>What kyber documents of its groups: scalar multiplication is linear, and the pairing bilinear and not degenerate.\<close>

definition suite_ok :: "('s :: field, 'g :: ab_group_add, 'h, 't, 'k, 'pk) suite \<Rightarrow> bool" where
  "suite_ok S \<longleftrightarrow>
    (\<forall>a p q. G1_Mul S a (p + q) = G1_Mul S a p + G1_Mul S a q) \<and>
    (\<forall>a b p. G1_Mul S (a + b) p = G1_Mul S a p + G1_Mul S b p) \<and>
    (\<forall>a b p. G1_Mul S a (G1_Mul S b p) = G1_Mul S (a * b) p) \<and>
    (\<forall>a p q. Pair S (G1_Mul S a p) q = Pair S p (G2_Mul S a q)) \<and>
    (\<forall>p q. Pair S p (G2_Base S) = Pair S q (G2_Base S) \<longrightarrow> p = q) \<and>
    (\<forall>k m. SchnorrVerify S (SchnorrPublic S k) m (SchnorrSign S k m))"

lemma Mul_add: "suite_ok S \<Longrightarrow> G1_Mul S a (p + q) = G1_Mul S a p + G1_Mul S a q"
  and add_Mul: "suite_ok S \<Longrightarrow> G1_Mul S (a + b) p = G1_Mul S a p + G1_Mul S b p"
  and Mul_Mul: "suite_ok S \<Longrightarrow> G1_Mul S a (G1_Mul S b p) = G1_Mul S (a * b) p"
  and Pair_Mul: "suite_ok S \<Longrightarrow> Pair S (G1_Mul S a p) h = Pair S p (G2_Mul S a h)"
  and Pair_inject: "suite_ok S \<Longrightarrow> Pair S p (G2_Base S) = Pair S q (G2_Base S) \<longleftrightarrow> p = q"
  by (auto simp: suite_ok_def)

lemma Mul_zero: "suite_ok S \<Longrightarrow> G1_Mul S a 0 = 0"
  using Mul_add [where S = S and a = a and p = 0 and q = 0] by simp

lemma zero_Mul: "suite_ok S \<Longrightarrow> G1_Mul S 0 p = 0"
  using add_Mul [where S = S and a = 0 and b = 0 and p = p] by simp

section \<open>Files, queries and proofs\<close>

definition n_blocks :: nat where
  "n_blocks = 1000"

definition l_query :: nat where
  "l_query = 5"

type_synonym 's initialFile = "'s list list"

record ('s, 'g) processedFile =
  pf_m :: "'s initialFile"
  pf_sigma :: "'g list"

record ('s, 'g) Por =
  Mu :: "'s list"
  Sigma :: 'g

record ('s, 'k) PrivateKey =
  sk_alpha :: 's
  sk_ssk :: 'k

record ('h, 'pk) PublicKey =
  pk_v :: 'h
  pk_spk :: 'pk

text \<open>The keys drawn: the exponent of the authenticators and a signing key.\<close>

definition RandomizedKeyGeneration :: "('s, 'g, 'h, 't, 'k, 'pk) suite \<Rightarrow> 's \<Rightarrow> 'k \<Rightarrow> ('s, 'k) PrivateKey \<times> ('h, 'pk) PublicKey" where
  "RandomizedKeyGeneration S private ssk =
    (\<lparr>sk_alpha = private, sk_ssk = ssk\<rparr>, \<lparr>pk_v = G2_Mul S private (G2_Base S), pk_spk = SchnorrPublic S ssk\<rparr>)"

definition GenerateFile :: "(nat \<Rightarrow> nat \<Rightarrow> 's) \<Rightarrow> nat \<Rightarrow> 's initialFile" where
  "GenerateFile draw sectors = map (\<lambda>i. map (draw i) [0..<sectors]) [0..<n_blocks]"

definition randomizedVerifyingQuery :: "('s, 'g, 'h, 't, 'k, 'pk) suite \<Rightarrow> int \<Rightarrow> (nat \<times> 's) list" where
  "randomizedVerifyingQuery S seed = map (\<lambda>i. (RandIntn S seed i n_blocks, Pick S (word_of_int seed) i)) [0..<l_query]"

section \<open>Storing a file\<close>

text \<open>\<open>Bytes\<close> of a big integer has no leading zeros.\<close>

function big_bytes :: "nat \<Rightarrow> bytes" where
  "big_bytes k = (if k = 0 then [] else big_bytes (k div 256) @ [word_of_nat k])"
  by pat_completeness auto

termination by (relation "measure id") auto

declare big_bytes.simps [simp del]

definition itoa_n :: bytes where
  "itoa_n = map of_char ''1000''"

definition block_hash :: "('s, 'g, 'h, 't, 'k, 'pk) suite \<Rightarrow> bytes \<Rightarrow> nat \<Rightarrow> 'g" where
  "block_hash S name i = HashG1 S (name @ [word_of_nat i])"

text \<open>\<open>us\<close> are the scalars drawn for the sectors, \<open>name\<close> the name drawn for the file.\<close>

definition file_tag :: "('s, 'g, 'h, 't, 'k, 'pk) suite \<Rightarrow> 'k \<Rightarrow> nat \<Rightarrow> 's list \<Rightarrow> bytes" where
  "file_tag S ssk name us =
    (let tau0 = big_bytes name @ itoa_n @ concat (map (ScalarBytes S) us) in tau0 @ SchnorrSign S ssk tau0)"

definition auth_value :: "('s, 'g :: ab_group_add, 'h, 't, 'k, 'pk) suite \<Rightarrow> 's \<Rightarrow> nat \<Rightarrow> 's list \<Rightarrow> nat \<Rightarrow> 's list \<Rightarrow> 'g" where
  "auth_value S alpha name us i row =
    G1_Mul S alpha (foldl (\<lambda>p (m, u). p + G1_Mul S m (G1_Mul S u (G1_Base S))) 0 (zip row us) + block_hash S (big_bytes name) i)"

definition RandomizedFileStoring :: "('s, 'g :: ab_group_add, 'h, 't, 'k, 'pk) suite \<Rightarrow> ('s, 'k) PrivateKey \<Rightarrow> 's initialFile \<Rightarrow>
    nat \<Rightarrow> 's list \<Rightarrow> nat \<Rightarrow> fault + bytes \<times> ('s, 'g) processedFile" where
  "RandomizedFileStoring S sk file sectors us name =
    (if \<exists>row \<in> set file. length row < sectors then Inl IndexPanic
     else Inr (file_tag S (sk_ssk sk) name us,
       \<lparr>pf_m = file, pf_sigma = map (\<lambda>i. auth_value S (sk_alpha sk) name us i (file ! i)) [0..<n_blocks]\<rparr>))"

section \<open>Proving\<close>

definition mu_sum :: "'s :: field initialFile \<Rightarrow> (nat \<times> 's) list \<Rightarrow> nat \<Rightarrow> 's" where
  "mu_sum m rq j = foldl (\<lambda>tv (b, v). v * (m ! b ! j) + tv) 0 rq"

definition sigma_sum :: "('s, 'g :: ab_group_add, 'h, 't, 'k, 'pk) suite \<Rightarrow> 'g list \<Rightarrow> (nat \<times> 's) list \<Rightarrow> 'g" where
  "sigma_sum S sigma rq = foldl (\<lambda>p (b, v). p + G1_Mul S v (sigma ! b)) 0 rq"

definition CreatePoR :: "('s :: field, 'g :: ab_group_add, 'h, 't, 'k, 'pk) suite \<Rightarrow> ('s, 'g) processedFile \<Rightarrow> nat \<Rightarrow> int \<Rightarrow> fault + ('s, 'g) Por" where
  "CreatePoR S pf sectors seed =
    (let rq = randomizedVerifyingQuery S seed in
     if \<exists>(b, v) \<in> set rq. length (pf_m pf ! b) < sectors then Inl IndexPanic
     else Inr \<lparr>Mu = map (mu_sum (pf_m pf) rq) [0..<sectors], Sigma = sigma_sum S (pf_sigma pf) rq\<rparr>)"

section \<open>Verifying\<close>

definition tag_scalar :: "('s, 'g, 'h, 't, 'k, 'pk) suite \<Rightarrow> bytes \<Rightarrow> nat \<Rightarrow> 's" where
  "tag_scalar S tau j = SetBytes S (take 32 (drop (32 + length itoa_n + j * 32) tau))"

definition right_term :: "('s, 'g :: ab_group_add, 'h, 't, 'k, 'pk) suite \<Rightarrow> bytes \<Rightarrow> 's list \<Rightarrow> nat \<Rightarrow> 'g" where
  "right_term S tau mu sectors =
    foldl (\<lambda>p j. p + G1_Mul S (mu ! j) (G1_Mul S (tag_scalar S tau j) (G1_Base S))) 0 [0..<sectors]"

definition left_term :: "('s, 'g :: ab_group_add, 'h, 't, 'k, 'pk) suite \<Rightarrow> bytes \<Rightarrow> (nat \<times> 's) list \<Rightarrow> 'g" where
  "left_term S tau rq = foldl (\<lambda>p (b, v). p + G1_Mul S v (block_hash S (take 32 tau) b)) 0 rq"

text \<open>The comparison of the two pairings.\<close>

definition por_check :: "('s, 'g :: ab_group_add, 'h, 't, 'k, 'pk) suite \<Rightarrow> ('h, 'pk) PublicKey \<Rightarrow> bytes \<Rightarrow> ('s, 'g) Por \<Rightarrow> nat \<Rightarrow> int \<Rightarrow> bool" where
  "por_check S pk tau p sectors seed \<longleftrightarrow>
    Pair S (Sigma p) (G2_Base S) =
    Pair S (left_term S tau (randomizedVerifyingQuery S seed) + right_term S tau (Mu p) sectors) (pk_v pk)"

definition tag_ok :: "('s, 'g, 'h, 't, 'k, 'pk) suite \<Rightarrow> ('h, 'pk) PublicKey \<Rightarrow> bytes \<Rightarrow> nat \<Rightarrow> bool" where
  "tag_ok S pk tau sectors \<longleftrightarrow>
    (let k = 32 + length itoa_n + sectors * 32 in SchnorrVerify S (pk_spk pk) (take k tau) (drop k tau))"

text \<open>
  \<open>append(Tau[:32], byte(i))\<close> writes into the tag itself, whose bytes go on after the first 32.
\<close>

definition overwritten_tag :: "bytes \<Rightarrow> (nat \<times> 's) list \<Rightarrow> bytes" where
  "overwritten_tag tau rq = foldl (\<lambda>t (b, v). t[32 := word_of_nat b]) tau rq"

text \<open>
  The result: the verdict, the error of the tag's signature, whether the pairings' difference is logged,
  and the tag of the caller afterwards. The verdict is a variable that is never assigned.
\<close>

definition VerifyPoR :: "('s, 'g :: ab_group_add, 'h, 't, 'k, 'pk) suite \<Rightarrow> ('h, 'pk) PublicKey \<Rightarrow> bytes \<Rightarrow> ('s, 'g) Por \<Rightarrow> nat \<Rightarrow> int \<Rightarrow>
    fault + (bool \<times> string option) \<times> bool \<times> bytes" where
  "VerifyPoR S pk tau p sectors seed =
    (if length tau < 32 + length itoa_n + sectors * 32 \<or> length (Mu p) < sectors then Inl IndexPanic
     else let err = (if tag_ok S pk tau sectors then None else Some ''schnorr: invalid signature'');
              tau' = overwritten_tag tau (randomizedVerifyingQuery S seed);
              logged = \<not> por_check S pk tau p sectors seed;
              refuse = False
       in Inr ((refuse, err), logged, tau'))"

section \<open>Sums\<close>

lemma foldl_add: "foldl (\<lambda>p x. p + f x) (a :: 'g :: ab_group_add) xs = a + (\<Sum>x\<leftarrow>xs. f x)"
  by (induction xs arbitrary: a) (simp_all add: add.assoc)

lemma foldl_add_pair: "foldl (\<lambda>p (x, y). p + f x y) (a :: 'g :: ab_group_add) xs = a + (\<Sum>(x, y)\<leftarrow>xs. f x y)"
  by (induction xs arbitrary: a) (auto simp: add.assoc)

lemma foldl_add_pair_left: "foldl (\<lambda>p (x, y). f x y + p) (a :: 'g :: ab_group_add) xs = a + (\<Sum>(x, y)\<leftarrow>xs. f x y)"
  by (induction xs arbitrary: a) (auto simp: ac_simps)

lemma mu_sum_alt: "mu_sum m rq j = (\<Sum>(b, v)\<leftarrow>rq. v * m ! b ! j)"
  by (simp add: mu_sum_def foldl_add_pair_left)

lemma sigma_sum_alt: "sigma_sum S sigma rq = (\<Sum>(b, v)\<leftarrow>rq. G1_Mul S v (sigma ! b))"
  by (simp add: sigma_sum_def foldl_add_pair)

lemma left_term_alt: "left_term S tau rq = (\<Sum>(b, v)\<leftarrow>rq. G1_Mul S v (block_hash S (take 32 tau) b))"
  by (simp add: left_term_def foldl_add_pair)

lemma Mul_sum_list: "suite_ok S \<Longrightarrow> G1_Mul S a (\<Sum>x\<leftarrow>xs. f x) = (\<Sum>x\<leftarrow>xs. G1_Mul S a (f x))"
  by (induction xs) (simp_all add: Mul_zero Mul_add)

lemma sum_list_Mul: "suite_ok S \<Longrightarrow> (\<Sum>x\<leftarrow>xs. G1_Mul S (f x) p) = G1_Mul S (\<Sum>x\<leftarrow>xs. f x) p"
  by (induction xs) (simp_all add: zero_Mul add_Mul)

text \<open>What the sectors of a block come to: one scalar.\<close>

definition folded :: "'s :: field list \<Rightarrow> 's list \<Rightarrow> 's" where
  "folded us row = (\<Sum>(m, u)\<leftarrow>zip row us. m * u)"

lemma auth_value_alt:
  "suite_ok S \<Longrightarrow> auth_value S alpha name us i row =
    G1_Mul S alpha (G1_Mul S (folded us row) (G1_Base S) + block_hash S (big_bytes name) i)"
proof -
  assume ok: "suite_ok S"
  have "(\<Sum>(m, u)\<leftarrow>zip row us. G1_Mul S (m * u) (G1_Base S)) = G1_Mul S (\<Sum>(m, u)\<leftarrow>zip row us. m * u) (G1_Base S)"
    using sum_list_Mul [OF ok, of "\<lambda>(m, u). m * u" "G1_Base S" "zip row us"] by (simp add: case_prod_unfold)
  then show ?thesis by (simp add: auth_value_def folded_def foldl_add_pair Mul_Mul [OF ok])
qed

text \<open>The scalars of the tag are read back.\<close>

definition tag_form :: "('s, 'g, 'h, 't, 'k, 'pk) suite \<Rightarrow> nat \<Rightarrow> 's list \<Rightarrow> bool" where
  "tag_form S name us \<longleftrightarrow> length (big_bytes name) = 32 \<and> (\<forall>u \<in> set us. length (ScalarBytes S u) = 32 \<and> SetBytes S (ScalarBytes S u) = u)"

lemma concat_take_drop: "\<forall>x \<in> set xs. length (f x) = k \<Longrightarrow> j < length xs \<Longrightarrow> take k (drop (j * k) (concat (map f xs) @ rest)) = f (xs ! j)"
proof (induction xs arbitrary: j)
  case (Cons x xs)
  then show ?case by (cases j) simp_all
qed simp

lemma file_tag_parts:
  assumes "tag_form S name us"
  shows "take 32 (file_tag S ssk name us) = big_bytes name" and "j < length us \<Longrightarrow> tag_scalar S (file_tag S ssk name us) j = us ! j"
    and "take (32 + length itoa_n + length us * 32) (file_tag S ssk name us) = big_bytes name @ itoa_n @ concat (map (ScalarBytes S) us)"
    and "drop (32 + length itoa_n + length us * 32) (file_tag S ssk name us) =
      SchnorrSign S ssk (big_bytes name @ itoa_n @ concat (map (ScalarBytes S) us))"
proof -
  let ?cs = "concat (map (ScalarBytes S) us)" and ?sg = "SchnorrSign S ssk (big_bytes name @ itoa_n @ concat (map (ScalarBytes S) us))"
  have t: "file_tag S ssk name us = big_bytes name @ itoa_n @ ?cs @ ?sg" by (simp add: file_tag_def Let_def)
  have l: "length (big_bytes name) = 32" and u: "\<forall>u \<in> set us. length (ScalarBytes S u) = 32" using assms by (simp_all add: tag_form_def)
  have cs: "length ?cs = length us * 32" using u by (induction us) simp_all
  show "take 32 (file_tag S ssk name us) = big_bytes name" using t l by simp
  show "take (32 + length itoa_n + length us * 32) (file_tag S ssk name us) = big_bytes name @ itoa_n @ ?cs" using t l cs by simp
  show "drop (32 + length itoa_n + length us * 32) (file_tag S ssk name us) = ?sg" using t l cs by simp
  assume j: "j < length us"
  have "drop (32 + length itoa_n + j * 32) (file_tag S ssk name us) = drop (j * 32) (?cs @ ?sg)" using t l by simp
  then show "tag_scalar S (file_tag S ssk name us) j = us ! j"
    using concat_take_drop [OF u j, of ?sg] assms j by (simp add: tag_scalar_def tag_form_def)
qed

lemma right_term_alt:
  assumes "suite_ok S" and "tag_form S name us"
  shows "right_term S (file_tag S ssk name us) mu (length us) =
    G1_Mul S (\<Sum>j\<leftarrow>[0..<length us]. mu ! j * us ! j) (G1_Base S)"
proof -
  have "right_term S (file_tag S ssk name us) mu (length us) =
      (\<Sum>j\<leftarrow>[0..<length us]. G1_Mul S (mu ! j) (G1_Mul S (tag_scalar S (file_tag S ssk name us) j) (G1_Base S)))"
    unfolding right_term_def by (simp only: foldl_add add_0)
  also have "\<dots> = (\<Sum>j\<leftarrow>[0..<length us]. G1_Mul S (mu ! j * us ! j) (G1_Base S))"
    using file_tag_parts(2) [OF assms(2)] assms(1) by (intro arg_cong [where f = sum_list] map_cong) (simp_all add: Mul_Mul)
  finally show ?thesis using sum_list_Mul [OF assms(1)] by simp
qed

text \<open>The comparison holds exactly for the right combination of hashes and folded answers.\<close>

lemma por_check_iff:
  assumes "suite_ok S" and "tag_form S name us" and "pk = snd (RandomizedKeyGeneration S alpha ssk)"
  shows "por_check S pk (file_tag S ssk name us) p (length us) seed \<longleftrightarrow>
    Sigma p = G1_Mul S alpha ((\<Sum>(b, v)\<leftarrow>randomizedVerifyingQuery S seed. G1_Mul S v (block_hash S (big_bytes name) b)) +
      G1_Mul S (\<Sum>j\<leftarrow>[0..<length us]. Mu p ! j * us ! j) (G1_Base S))"
  using Pair_inject [OF assms(1)] assms(3)
  by (simp add: por_check_def RandomizedKeyGeneration_def left_term_alt file_tag_parts(1) [OF assms(2)] right_term_alt [OF assms(1,2)]
      Pair_Mul [OF assms(1), symmetric])

section \<open>Honest proofs\<close>

text \<open>An answer built from one scalar \<open>w b\<close> per block and its authenticator passes.\<close>

lemma check_from_folded:
  assumes "suite_ok S" and "tag_form S name us" and "pk = snd (RandomizedKeyGeneration S alpha ssk)"
    and "Sigma p = (\<Sum>(b, v)\<leftarrow>randomizedVerifyingQuery S seed.
      G1_Mul S v (G1_Mul S alpha (G1_Mul S (w b) (G1_Base S) + block_hash S (big_bytes name) b)))"
    and "(\<Sum>j\<leftarrow>[0..<length us]. Mu p ! j * us ! j) = (\<Sum>(b, v)\<leftarrow>randomizedVerifyingQuery S seed. v * w b)"
  shows "por_check S pk (file_tag S ssk name us) p (length us) seed"
proof -
  let ?rq = "randomizedVerifyingQuery S seed" and ?H = "block_hash S (big_bytes name)" and ?G = "G1_Base S"
  have "G1_Mul S alpha ((\<Sum>(b, v)\<leftarrow>rq. G1_Mul S v (?H b)) + G1_Mul S (\<Sum>(b, v)\<leftarrow>rq. v * w b) ?G) =
      (\<Sum>(b, v)\<leftarrow>rq. G1_Mul S v (G1_Mul S alpha (G1_Mul S (w b) ?G + ?H b)))" for rq
    by (induction rq)
      (auto simp: Mul_zero [OF assms(1)] zero_Mul [OF assms(1)] Mul_add [OF assms(1)] add_Mul [OF assms(1)] Mul_Mul [OF assms(1)]
        mult.left_commute algebra_simps)
  then show ?thesis unfolding por_check_iff [OF assms(1-3)] assms(4,5) by simp
qed

lemma folded_index: "length us \<le> length row \<Longrightarrow> folded us row = (\<Sum>j\<leftarrow>[0..<length us]. row ! j * us ! j)"
proof -
  assume l: "length us \<le> length row"
  have "zip row us = map (\<lambda>j. (row ! j, us ! j)) [0..<length us]" using l by (intro nth_equalityI) simp_all
  then show ?thesis by (simp add: folded_def comp_def)
qed

lemma answers_folded:
  assumes "\<forall>(b, v) \<in> set rq. length us \<le> length (m ! b)"
  shows "(\<Sum>j\<leftarrow>[0..<length us]. mu_sum m rq j * us ! j) = (\<Sum>(b, v)\<leftarrow>rq. v * folded us (m ! b))"
  using assms unfolding mu_sum_alt
proof (induction rq)
  case (Cons x rq)
  obtain b v where x: "x = (b, v)" by fastforce
  have "(\<Sum>j\<leftarrow>js. (v * m ! b ! j + f j) * us ! j) = v * (\<Sum>j\<leftarrow>js. m ! b ! j * us ! j) + (\<Sum>j\<leftarrow>js. f j * us ! j)" for f js
    by (induction js) (simp_all add: algebra_simps)
  then show ?case using Cons x folded_index [of us "m ! b"] by simp
qed simp

lemma query_blocks: "(b, v) \<in> set (randomizedVerifyingQuery S seed) \<Longrightarrow> \<forall>i. RandIntn S seed i n_blocks < n_blocks \<Longrightarrow> b < n_blocks"
  by (auto simp: randomizedVerifyingQuery_def)

lemma stored_parts:
  assumes "RandomizedFileStoring S sk file sectors us name = Inr (tau, pf)"
  shows "tau = file_tag S (sk_ssk sk) name us" and "pf_m pf = file"
    and "b < n_blocks \<Longrightarrow> pf_sigma pf ! b = auth_value S (sk_alpha sk) name us b (file ! b)"
  using assms by (auto simp: RandomizedFileStoring_def split: if_splits)

lemma sigma_of_stored:
  assumes "suite_ok S" and "RandomizedFileStoring S sk file sectors us name = Inr (tau, pf)" and "\<forall>(b, v) \<in> set rq. g b < n_blocks"
  shows "(\<Sum>(b, v)\<leftarrow>rq. G1_Mul S v (pf_sigma pf ! g b)) =
    (\<Sum>(b, v)\<leftarrow>rq. G1_Mul S v (G1_Mul S (sk_alpha sk) (G1_Mul S (folded us (file ! g b)) (G1_Base S) + block_hash S (big_bytes name) (g b))))"
  using assms(3)
proof (induction rq)
  case (Cons x rq)
  then show ?case using stored_parts(3) [OF assms(2)] auth_value_alt [OF assms(1)] by (cases x) auto
qed simp

lemma byte_eq: "(word_of_nat k :: 8 word) = 49 \<longleftrightarrow> k mod 256 = 49"
proof
  assume "(word_of_nat k :: 8 word) = 49"
  then have "unat (word_of_nat k :: 8 word) = unat (49 :: 8 word)" by (rule arg_cong)
  then show "k mod 256 = 49" by (simp add: unat_of_nat)
next
  assume "k mod 256 = 49"
  then have "unat (word_of_nat k :: 8 word) = unat (49 :: 8 word)" by (simp add: unat_of_nat)
  then show "(word_of_nat k :: 8 word) = 49" by (rule word_unat_eq_iff [THEN iffD2])
qed

lemma list_update_same_iff: "i < length xs \<Longrightarrow> xs[i := w] = xs \<longleftrightarrow> w = xs ! i"
  by (metis list_update_id nth_list_update_eq)

text \<open>
  C12: proofs of retrievability are complete: whoever stored the file with its authenticators passes the
  verification for every query. The two pairings agree and the tag's signature is valid, when the file
  has the blocks and sectors that are asked for and its random name has 32 bytes. But the verdict that is
  returned is false, and nothing that is returned depends on the proof; and the call changes the tag it is
  given, unless the last block asked for is 49 modulo 256.
\<close>

theorem por_complete:
  fixes S :: "('s :: field, 'g :: ab_group_add, 'h, 't, 'k, 'pk) suite"
  assumes "suite_ok S" and "(sk, pk) = RandomizedKeyGeneration S alpha ssk"
    and "RandomizedFileStoring S sk file (length us) us name = Inr (tau, pf)" and "CreatePoR S pf (length us) seed = Inr p"
    and "tag_form S name us" and "\<forall>i. RandIntn S seed i n_blocks < n_blocks"
  shows "\<exists>tau'. VerifyPoR S pk tau p (length us) seed = Inr ((False, None), False, tau') \<and>
    (\<forall>p'. length us \<le> length (Mu p') \<longrightarrow> (\<exists>logged. VerifyPoR S pk tau p' (length us) seed = Inr ((False, None), logged, tau'))) \<and>
    (tau' = tau \<longleftrightarrow> RandIntn S seed 4 n_blocks mod 256 = 49)"
proof -
  let ?rq = "randomizedVerifyingQuery S seed"
  have sk: "sk = \<lparr>sk_alpha = alpha, sk_ssk = ssk\<rparr>" and pk: "pk = snd (RandomizedKeyGeneration S alpha ssk)"
    using assms(2) by (simp_all add: RandomizedKeyGeneration_def)
  note parts = stored_parts [OF assms(3)]
  have rows: "\<forall>(b, v) \<in> set ?rq. length us \<le> length (file ! b)" and
    p: "p = \<lparr>Mu = map (mu_sum file ?rq) [0..<length us], Sigma = sigma_sum S (pf_sigma pf) ?rq\<rparr>"
    using assms(4) parts(2) by (auto simp: CreatePoR_def Let_def split: if_splits)
  have tau: "tau = file_tag S ssk name us" using parts(1) sk by simp
  have c: "por_check S pk tau p (length us) seed"
    unfolding tau
  proof (rule check_from_folded [OF assms(1,5) pk, where w = "\<lambda>b. folded us (file ! b)"])
    have "\<forall>(b, v) \<in> set ?rq. b < n_blocks" using query_blocks assms(6) by fast
    from sigma_of_stored [OF assms(1,3) this]
    show "Sigma p = (\<Sum>(b, v)\<leftarrow>?rq. G1_Mul S v (G1_Mul S alpha (G1_Mul S (folded us (file ! b)) (G1_Base S) + block_hash S (big_bytes name) b)))"
      using p sk by (simp add: sigma_sum_alt)
    have "(\<Sum>j\<leftarrow>[0..<length us]. Mu p ! j * us ! j) = (\<Sum>j\<leftarrow>[0..<length us]. mu_sum file ?rq j * us ! j)"
      using p by (intro arg_cong [where f = sum_list] map_cong) simp_all
    then show "(\<Sum>j\<leftarrow>[0..<length us]. Mu p ! j * us ! j) = (\<Sum>(b, v)\<leftarrow>?rq. v * folded us (file ! b))"
      using answers_folded [OF rows] by simp
  qed
  have t: "tag_ok S pk tau (length us)"
    using assms(1) pk unfolding tag_ok_def Let_def tau file_tag_parts(3,4) [OF assms(5)] suite_ok_def
    by (simp add: RandomizedKeyGeneration_def)
  have "concat (map (ScalarBytes S) us) = concat (map (ScalarBytes S) us) \<and> length (concat (map (ScalarBytes S) us)) = length us * 32"
    using assms(5) unfolding tag_form_def by (induction us) simp_all
  then have l: "\<not> length tau < 32 + length itoa_n + length us * 32"
    using assms(5) by (simp add: tau file_tag_def Let_def tag_form_def)
  have n32: "tau ! 32 = 49"
  proof -
    have "length (big_bytes name) = 32" using assms(5) by (simp add: tag_form_def)
    then have "tau ! 32 = (itoa_n @ concat (map (ScalarBytes S) us) @ SchnorrSign S ssk (big_bytes name @ itoa_n @ concat (map (ScalarBytes S) us))) ! 0"
      by (simp add: tau file_tag_def Let_def nth_append)
    then show ?thesis by (simp add: itoa_n_def)
  qed
  have ov: "overwritten_tag tau ?rq = tau[32 := word_of_nat (RandIntn S seed 4 n_blocks)]"
    by (simp add: overwritten_tag_def randomizedVerifyingQuery_def l_query_def upt_rec numeral_eq_Suc)
  have "32 < length tau" using l by (simp add: itoa_n_def)
  then have "tau[32 := w] = tau \<longleftrightarrow> w = 49" for w using n32 list_update_same_iff by metis
  moreover have "(word_of_nat k :: 8 word) = 49 \<longleftrightarrow> k mod 256 = 49" for k
    using byte_eq by blast
  ultimately show ?thesis using c t l p ov by (auto simp: VerifyPoR_def Let_def)
qed

text \<open>A concrete suite, with rationals for the scalars and the groups.\<close>

definition sample_suite :: "(rat, rat, rat, rat, nat, nat) suite" where
  "sample_suite = \<lparr>G1_Mul = (*), G1_Base = 1, G2_Mul = (*), G2_Base = 1, Pair = (*), HashG1 = (\<lambda>bs. of_nat (unat (last bs))),
     ScalarBytes = (\<lambda>u. replicate 31 0 @ [word_of_nat (nat \<lfloor>u\<rfloor>)]), SetBytes = (\<lambda>bs. of_nat (unat (last bs))),
     SchnorrPublic = (\<lambda>k. k), SchnorrSign = (\<lambda>k m. [word_of_nat k]), SchnorrVerify = (\<lambda>k m sg. sg = [word_of_nat k]),
     Pick = (\<lambda>seed i. of_nat (i + 1)), RandIntn = (\<lambda>seed i k. 300 * i mod k)\<rparr>"

definition sample_name :: nat where
  "sample_name = 256 ^ 31"

lemma length_big_bytes_power: "length (big_bytes (256 ^ k)) = Suc k"
proof (induction k)
  case 0
  have "big_bytes 0 = []" by (subst big_bytes.simps) simp
  then show ?case by (subst power_0, subst big_bytes.simps) simp
next
  case (Suc k)
  then show ?case by (subst big_bytes.simps) simp
qed

lemma sample_suite_ok: "suite_ok sample_suite"
  by (simp add: suite_ok_def sample_suite_def algebra_simps)

lemma sample_tag_form: "tag_form sample_suite sample_name [2, 3]"
  using length_big_bytes_power [of 31] by (simp add: tag_form_def sample_suite_def sample_name_def)

definition sample_keys :: "(rat, nat) PrivateKey \<times> (rat, nat) PublicKey" where
  "sample_keys = RandomizedKeyGeneration sample_suite 7 9"

lemma por_complete_witness:
  "\<exists>tau pf p. RandomizedFileStoring sample_suite (fst sample_keys) (replicate n_blocks [5, 6]) 2 [2, 3] sample_name = Inr (tau, pf) \<and>
    CreatePoR sample_suite pf 2 42 = Inr p \<and>
    (\<exists>tau'. VerifyPoR sample_suite (snd sample_keys) tau p 2 42 = Inr ((False, None), False, tau') \<and> tau' \<noteq> tau)"
proof -
  obtain tau pf where st: "RandomizedFileStoring sample_suite (fst sample_keys) (replicate n_blocks [5, 6]) (length [2, 3 :: rat]) [2, 3] sample_name = Inr (tau, pf)"
    by (simp add: RandomizedFileStoring_def)
  have r: "\<forall>i. RandIntn sample_suite 42 i n_blocks < n_blocks" by (simp add: sample_suite_def n_blocks_def)
  have "\<forall>(b, v) \<in> set (randomizedVerifyingQuery sample_suite 42). length (pf_m pf ! b) = 2"
    using query_blocks [OF _ r] stored_parts(2) [OF st] by auto
  then have "\<not> (\<exists>(b, v) \<in> set (randomizedVerifyingQuery sample_suite 42). length (pf_m pf ! b) < length [2, 3 :: rat])" by auto
  then obtain p where p: "CreatePoR sample_suite pf (length [2, 3 :: rat]) 42 = Inr p"
    unfolding CreatePoR_def Let_def by (simp only: if_False)
  have "RandIntn sample_suite 42 4 n_blocks mod 256 \<noteq> 49" by (simp add: sample_suite_def n_blocks_def)
  moreover have "(fst sample_keys, snd sample_keys) = RandomizedKeyGeneration sample_suite 7 9" by (simp add: sample_keys_def)
  ultimately have "\<exists>tau'. VerifyPoR sample_suite (snd sample_keys) tau p (length [2, 3 :: rat]) 42 = Inr ((False, None), False, tau') \<and> tau' \<noteq> tau"
    using por_complete [OF sample_suite_ok _ st p sample_tag_form r] by blast
  moreover have "length [2, 3 :: rat] = 2" by simp
  ultimately show ?thesis using st p by metis
qed

section \<open>Proofs without the file\<close>

text \<open>
  A proof made from one scalar and one authenticator for each of 256 blocks, whatever the number of
  blocks and sectors: block \<open>b\<close> is answered with block \<open>b mod 256\<close>, and the whole answer is put into the
  first sector.
\<close>

definition stripped_proof :: "('s :: field, 'g :: ab_group_add, 'h, 't, 'k, 'pk) suite \<Rightarrow> 's list \<Rightarrow> 's list \<Rightarrow> 'g list \<Rightarrow> int \<Rightarrow> ('s, 'g) Por" where
  "stripped_proof S us ws sg seed =
    (let rq = randomizedVerifyingQuery S seed in
     \<lparr>Mu = (\<Sum>(b, v)\<leftarrow>rq. v * ws ! (b mod 256)) / hd us # replicate (length us - 1) 0,
      Sigma = (\<Sum>(b, v)\<leftarrow>rq. G1_Mul S v (sg ! (b mod 256)))\<rparr>)"

lemma block_hash_mod: "block_hash S name (b mod 256) = block_hash S name b"
proof -
  have "(word_of_nat (b mod 256) :: 8 word) = word_of_nat b"
    by (simp add: word_of_nat_eq_iff take_bit_eq_mod)
  then show ?thesis by (simp add: block_hash_def)
qed

text \<open>
  C13: proofs of retrievability do not show that the file is there. The hash of a block takes the number
  of the block as one byte, so blocks 256 apart have the same hash and can stand for each other; and the
  scalars of the sectors are in the public tag, so the sectors of a block count only as one weighted sum.
  A server that keeps 256 scalars and 256 authenticators of a file of a thousand blocks, with any number
  of sectors each, passes the comparison of the pairings for every query.
\<close>

theorem por_without_the_file:
  fixes S :: "('s :: field, 'g :: ab_group_add, 'h, 't, 'k, 'pk) suite"
  assumes "suite_ok S" and "(sk, pk) = RandomizedKeyGeneration S alpha ssk"
    and "RandomizedFileStoring S sk file (length us) us name = Inr (tau, pf)" and "length file = n_blocks"
    and "tag_form S name us" and "\<forall>i. RandIntn S seed i n_blocks < n_blocks" and "us \<noteq> []" and "hd us \<noteq> 0"
  shows "por_check S pk tau (stripped_proof S us (map (folded us) (take 256 file)) (take 256 (pf_sigma pf)) seed) (length us) seed"
proof -
  let ?rq = "randomizedVerifyingQuery S seed"
  let ?p = "stripped_proof S us (map (folded us) (take 256 file)) (take 256 (pf_sigma pf)) seed"
  have sk: "sk = \<lparr>sk_alpha = alpha, sk_ssk = ssk\<rparr>" and pk: "pk = snd (RandomizedKeyGeneration S alpha ssk)"
    using assms(2) by (simp_all add: RandomizedKeyGeneration_def)
  have n: "256 \<le> length file" using assms(4) by (simp add: n_blocks_def)
  have ws: "map (folded us) (take 256 file) ! (b mod 256) = folded us (file ! (b mod 256))" for b
    using n by simp
  have sg: "take 256 (pf_sigma pf) ! (b mod 256) = pf_sigma pf ! (b mod 256)" for b by simp
  have tau: "tau = file_tag S ssk name us" using stored_parts(1) [OF assms(3)] sk by simp
  show ?thesis
    unfolding tau
  proof (rule check_from_folded [OF assms(1,5) pk, where w = "\<lambda>b. folded us (file ! (b mod 256))"])
    have "\<forall>(b, v) \<in> set ?rq. b mod 256 < n_blocks" by (auto simp: n_blocks_def intro: less_trans [of _ 256])
    from sigma_of_stored [OF assms(1,3) this]
    show "Sigma ?p = (\<Sum>(b, v)\<leftarrow>?rq. G1_Mul S v (G1_Mul S alpha (G1_Mul S (folded us (file ! (b mod 256))) (G1_Base S) + block_hash S (big_bytes name) b)))"
      using sk by (simp add: stripped_proof_def Let_def sg block_hash_mod)
    obtain u us' where us: "us = u # us'" "u \<noteq> 0" using assms(7,8) by (cases us) auto
    have "(\<Sum>j\<leftarrow>[Suc 0..<Suc (length us')]. (x # replicate (length us') 0) ! j * us ! j) = 0" for x
      by (rule sum_list_0 [THEN trans [rotated]], rule arg_cong [where f = sum_list], rule map_cong) (auto simp: nth_Cons')
    then have "(\<Sum>j\<leftarrow>[0..<length us]. (y / hd us # replicate (length us - 1) 0) ! j * us ! j) = y" for y
      using us by (simp add: upt_conv_Cons del: upt_Suc)
    moreover have "Mu ?p = (\<Sum>(b, v)\<leftarrow>?rq. v * folded us (file ! (b mod 256))) / hd us # replicate (length us - 1) 0"
      by (simp add: stripped_proof_def Let_def ws)
    ultimately show "(\<Sum>j\<leftarrow>[0..<length us]. Mu ?p ! j * us ! j) = (\<Sum>(b, v)\<leftarrow>?rq. v * folded us (file ! (b mod 256)))"
      by (simp only:)
  qed
qed

lemma por_without_the_file_witness:
  "\<exists>tau pf. RandomizedFileStoring sample_suite (fst sample_keys) (replicate n_blocks [5, 6]) 2 [2, 3] sample_name = Inr (tau, pf) \<and>
    por_check sample_suite (snd sample_keys) tau
      (stripped_proof sample_suite [2, 3] (map (folded [2, 3]) (take 256 (replicate n_blocks [5, 6]))) (take 256 (pf_sigma pf)) 42) 2 42"
proof -
  obtain tau pf where st: "RandomizedFileStoring sample_suite (fst sample_keys) (replicate n_blocks [5, 6]) (length [2, 3 :: rat]) [2, 3] sample_name = Inr (tau, pf)"
    by (simp add: RandomizedFileStoring_def)
  have r: "\<forall>i. RandIntn sample_suite 42 i n_blocks < n_blocks" by (simp add: sample_suite_def n_blocks_def)
  have "por_check sample_suite (snd sample_keys) tau
      (stripped_proof sample_suite [2, 3] (map (folded [2, 3]) (take 256 (replicate n_blocks [5, 6]))) (take 256 (pf_sigma pf)) 42) (length [2, 3 :: rat]) 42"
    by (rule por_without_the_file [OF sample_suite_ok _ st _ sample_tag_form r, where alpha = 7 and ssk = 9]) (simp_all add: sample_keys_def)
  moreover have "length [2, 3 :: rat] = 2" by simp
  ultimately show ?thesis using st by metis
qed

end
