(* ===== verification/OnetProcessor.thy ===== *)
theory OnetProcessor
  imports NetAddress Measurements
begin

text \<open>
  The handlers that a service offers to its clients (\<open>onet/processor.go\<close>): what may be registered, by the
  types that reflection gives, the dispatch of a request to its handler, and the handlers of REST
  requests. Protobuf and JSON are parameters, and so are the services' functions.
\<close>

section \<open>Types of handlers\<close>

text \<open>A struct type has the string that \<open>String\<close> of its \<open>reflect.Type\<close> gives, and its fields.\<close>

datatype rtype =
    RFunc "rtype list" "rtype list"
  | RPtr rtype
  | RStruct string "(string \<times> rtype) list"
  | RInterface string
  | RChan rtype
  | RSlice rtype
  | RBool
  | RInt
  | RUint8
  | ROther string

datatype reg_error = Refused string | Panicked string

definition handlerInputCheck :: "rtype \<Rightarrow> string option" where
  "handlerInputCheck ft =
    (case ft of
       RFunc ins outs \<Rightarrow>
         (case ins of
            [cr] \<Rightarrow> (case cr of
                RPtr t \<Rightarrow> (case t of RStruct n fs \<Rightarrow> None | _ \<Rightarrow> Some ''Argument must be a pointer to *struct*'')
              | _ \<Rightarrow> Some ''Argument must be a *pointer* to a struct'')
          | _ \<Rightarrow> Some ''Need one argument: *struct*'')
     | _ \<Rightarrow> Some ''Input is not a function'')"

text \<open>The type's name after its package; \<open>[1]\<close> panics for a type without one.\<close>

definition path_name :: "rtype \<Rightarrow> reg_error + string" where
  "path_name t =
    (case t of RFunc (RPtr (RStruct n fs) # ins) outs \<Rightarrow>
       (case strings_Split n ''.'' of _ # s # _ \<Rightarrow> Inr s | _ \<Rightarrow> Inl (Panicked ''index out of range''))
     | _ \<Rightarrow> Inl (Panicked ''reflect''))"

text \<open>A handler: the service's function \<open>'h\<close> with its type.\<close>

record 'h serviceHandler =
  sh_handler :: 'h
  sh_msgType :: rtype
  sh_streaming :: bool

definition argument :: "rtype \<Rightarrow> rtype" where
  "argument t = (case t of RFunc (RPtr a # ins) outs \<Rightarrow> a | _ \<Rightarrow> ROther [])"

definition outs_of :: "rtype \<Rightarrow> rtype list" where
  "outs_of t = (case t of RFunc ins outs \<Rightarrow> outs | _ \<Rightarrow> [])"

text \<open>\<open>implements\<close> tells which types implement \<open>error\<close>.\<close>

definition createServiceHandler :: "(rtype \<Rightarrow> bool) \<Rightarrow> 'h \<Rightarrow> rtype \<Rightarrow> reg_error + string \<times> 'h serviceHandler" where
  "createServiceHandler implements f ft =
    (case outs_of ft of
       [ret, err] \<Rightarrow>
         (case (case ret of
                  RInterface _ \<Rightarrow> None
                | RPtr (RStruct _ _) \<Rightarrow> None
                | RPtr _ \<Rightarrow> Some ''1st return value must be a pointer to a *struct* or an interface''
                | _ \<Rightarrow> Some ''1st return value must be a *pointer* to a struct or an interface'') of
            Some e \<Rightarrow> Inl (Refused e)
          | None \<Rightarrow>
              if \<not> implements err then Inl (Refused ''2nd return value has to implement error'')
              else bindR (path_name ft) (\<lambda>pm. Inr (pm, \<lparr>sh_handler = f, sh_msgType = argument ft, sh_streaming = False\<rparr>)))
     | _ \<Rightarrow> Inl (Refused ''Need 2 return values: network.Body and error''))"

type_synonym 'h handlers = "string \<rightharpoonup> 'h serviceHandler"

definition NewServiceProcessor :: "'h handlers" where
  "NewServiceProcessor = Map.empty"

definition RegisterProcHandler :: "(rtype \<Rightarrow> bool) \<Rightarrow> 'h \<Rightarrow> rtype \<Rightarrow> 'h handlers \<Rightarrow> reg_error + 'h handlers" where
  "RegisterProcHandler implements f ft hs =
    (case handlerInputCheck ft of
       Some e \<Rightarrow> Inl (Refused e)
     | None \<Rightarrow> bindR (createServiceHandler implements f ft) (\<lambda>(pm, sh). Inr (hs(pm \<mapsto> sh))))"

text \<open>A streaming handler returns a channel of replies, a channel to stop it, and an error.\<close>

definition reply_channel :: "rtype \<Rightarrow> string option" where
  "reply_channel ret0 =
    (case ret0 of
       RChan t \<Rightarrow> (case t of
           RInterface n \<Rightarrow> None
         | RPtr u \<Rightarrow> (case u of RStruct n fs \<Rightarrow> None | _ \<Rightarrow> Some ''1st return value must be a channel of a pointer to a *struct*'')
         | _ \<Rightarrow> Some ''1st return value must be a channel of a *pointer* to a struct'')
     | _ \<Rightarrow> Some ''1st return value must be a channel'')"

definition stop_channel :: "rtype \<Rightarrow> string option" where
  "stop_channel ret1 =
    (case ret1 of
       RChan t \<Rightarrow> (case t of RBool \<Rightarrow> None | _ \<Rightarrow> Some ''2nd return value must be a boolean channel'')
     | _ \<Rightarrow> Some ''2nd return value must be a channel'')"

fun first_error :: "string option list \<Rightarrow> string option" where
  "first_error [] = None"
| "first_error (None # es) = first_error es"
| "first_error (Some e # es) = Some e"

definition RegisterStreamingHandler :: "(rtype \<Rightarrow> bool) \<Rightarrow> 'h \<Rightarrow> rtype \<Rightarrow> 'h handlers \<Rightarrow> reg_error + 'h handlers" where
  "RegisterStreamingHandler implements f ft hs =
    (case handlerInputCheck ft of
       Some e \<Rightarrow> Inl (Refused e)
     | None \<Rightarrow>
        (case outs_of ft of
           [ret0, ret1, ret2] \<Rightarrow>
             (case first_error [reply_channel ret0, stop_channel ret1,
                 if implements ret2 then None else Some ''3rd return value has to implement error''] of
                Some e \<Rightarrow> Inl (Refused e)
              | None \<Rightarrow> bindR (path_name ft) (\<lambda>pm. Inr (hs(pm \<mapsto> \<lparr>sh_handler = f, sh_msgType = argument ft, sh_streaming = True\<rparr>))))
         | _ \<Rightarrow> Inl (Refused ''Need 3 return values: chan interface{}, chan bool and error'')))"

text \<open>Several handlers at once: the first one that is refused ends the call, those before it stay.\<close>

fun register_all :: "('h \<Rightarrow> rtype \<Rightarrow> 'h handlers \<Rightarrow> reg_error + 'h handlers) \<Rightarrow> ('h \<times> rtype) list \<Rightarrow> 'h handlers \<Rightarrow>
    reg_error option \<times> 'h handlers" where
  "register_all reg [] hs = (None, hs)"
| "register_all reg ((f, ft) # fs) hs =
    (case reg f ft hs of Inl e \<Rightarrow> (Some e, hs) | Inr hs' \<Rightarrow> register_all reg fs hs')"

definition RegisterProcHandlers :: "(rtype \<Rightarrow> bool) \<Rightarrow> ('h \<times> rtype) list \<Rightarrow> 'h handlers \<Rightarrow> reg_error option \<times> 'h handlers" where
  "RegisterProcHandlers implements fs hs = register_all (RegisterProcHandler implements) fs hs"

definition RegisterStreamingHandlers :: "(rtype \<Rightarrow> bool) \<Rightarrow> ('h \<times> rtype) list \<Rightarrow> 'h handlers \<Rightarrow> reg_error option \<times> 'h handlers" where
  "RegisterStreamingHandlers implements fs hs = register_all (RegisterStreamingHandler implements) fs hs"

section \<open>Requests\<close>

text \<open>What a service's function does when it is called.\<close>

datatype 'r outcome = Returns 'r | Fails string | Panics string

definition callInterfaceFunc :: "'r outcome \<Rightarrow> string + 'r" where
  "callInterfaceFunc out =
    (case out of Returns r \<Rightarrow> Inr r | Fails e \<Rightarrow> Inl (''processing error: '' @ e) | Panics e \<Rightarrow> Inl (''panic: '' @ e))"

definition IsStreaming :: "string \<Rightarrow> 'h handlers \<Rightarrow> string + bool" where
  "IsStreaming path hs =
    (case hs path of None \<Rightarrow> Inl (''The requested message has not been registered: '' @ path) | Some mh \<Rightarrow> Inr (sh_streaming mh))"

definition ProcessClientRequest :: "(rtype \<Rightarrow> bytes \<Rightarrow> 'v option) \<Rightarrow> ('h \<Rightarrow> 'v \<Rightarrow> 'r outcome) \<Rightarrow> ('r \<Rightarrow> bytes option) \<Rightarrow>
    'h handlers \<Rightarrow> string \<Rightarrow> bytes \<Rightarrow> string + bytes" where
  "ProcessClientRequest dec call enc hs path buf =
    (case hs path of
       None \<Rightarrow> Inl (''The requested message has not been registered: '' @ path)
     | Some mh \<Rightarrow>
         if sh_streaming mh then Inl ''using a streaming request with ProcessClientRequest''
         else case dec (sh_msgType mh) buf of
             None \<Rightarrow> Inl ''decoding''
           | Some m \<Rightarrow> bindR (callInterfaceFunc (call (sh_handler mh) m))
               (\<lambda>r. case enc r of None \<Rightarrow> Inl ''encoding'' | Some b \<Rightarrow> Inr b))"

section \<open>REST handlers\<close>

datatype kindGET = invalidGET | emptyGET | intGET | sliceGET

definition prepareHandlerGET :: "rtype \<Rightarrow> string + kindGET \<times> string" where
  "prepareHandlerGET ft =
    (case argument ft of
       RStruct n fs \<Rightarrow>
         (case fs of
            [] \<Rightarrow> Inr (emptyGET, [])
          | [(name, t)] \<Rightarrow>
              if t = RSlice RUint8 then Inr (sliceGET, name)
              else if t = RInt then Inr (intGET, name)
              else Inl ''only byte slices and int are supported''
          | _ \<Rightarrow> Inl ''number of fields must be 0 or 1'')
     | _ \<Rightarrow> Inl ''input argument must be a struct'')"

text \<open>The fields of the argument; one that is not there has its zero value.\<close>

datatype govalue = VInt int | VBytes bytes | VString string

type_synonym gostruct = "string \<rightharpoonup> govalue"

record 'h rest =
  re_method :: string
  re_namespace :: string
  re_resource :: string
  re_kind :: kindGET
  re_field :: string
  re_fun :: 'h

record request =
  rq_Method :: string
  rq_path :: string
  rq_ContentType :: string
  rq_Body :: "bytes option"

datatype http_reply = HttpError nat string | HttpReply bytes

definition wrapJSONMsg :: "string \<Rightarrow> string" where
  "wrapJSONMsg s = ''{'' @ [CHR 0x22] @ ''message'' @ [CHR 0x22] @ '': '' @ [CHR 0x22] @ s @ [CHR 0x22] @ ''}''"

text \<open>
  The regular expressions \<open>^/v\d/namespace/resource/\d+$\<close> and \<open>^/v\d/namespace/resource/[0-9a-f]+$\<close>, for a
  namespace without characters that mean something else in a regular expression.
\<close>

definition rest_match :: "(char \<Rightarrow> bool) \<Rightarrow> string \<Rightarrow> string \<Rightarrow> string \<Rightarrow> bool" where
  "rest_match ok ns res path =
    (case path of
       a # b # v # tail \<Rightarrow>
         (let mid = ''/'' @ ns @ ''/'' @ res @ ''/'' in
          a = CHR ''/'' \<and> b = CHR ''v'' \<and> is_digit v \<and> prefix_of mid tail \<and> drop (length mid) tail \<noteq> [] \<and>
          list_all ok (drop (length mid) tail))
     | _ \<Rightarrow> False)"

definition is_lower_hex :: "char \<Rightarrow> bool" where
  "is_lower_hex c \<longleftrightarrow> is_hex c \<and> \<not> (65 \<le> (of_char c :: nat) \<and> (of_char c :: nat) \<le> 70)"

text \<open>\<open>path.Split\<close>: what follows the last slash.\<close>

definition path_file :: "string \<Rightarrow> string" where
  "path_file p = rev (takeWhile (\<lambda>c. c \<noteq> CHR ''/'') (rev p))"

text \<open>
  The message of a request, put into \<open>val0\<close>, which the handler has from its registration on. JSON decoding
  changes the value in place, also when it fails in the end.
\<close>

definition rest_message :: "(bytes \<Rightarrow> gostruct \<Rightarrow> gostruct \<times> bool) \<Rightarrow> 'h rest \<Rightarrow> request \<Rightarrow> gostruct \<Rightarrow> (nat \<times> string) option \<times> gostruct" where
  "rest_message json re rq val0 =
    (if rq_Method rq = ''GET'' then
       (case re_kind re of
          emptyGET \<Rightarrow> (None, val0)
        | intGET \<Rightarrow>
            if \<not> rest_match is_digit (re_namespace re) (re_resource re) (rq_path rq) then (Some (404, ''invalid path''), val0)
            else (case Atoi (path_file (rq_path rq)) of
                None \<Rightarrow> (Some (400, ''not a number''), val0)
              | Some n \<Rightarrow> (None, val0(re_field re \<mapsto> VInt n)))
        | sliceGET \<Rightarrow>
            if \<not> rest_match is_lower_hex (re_namespace re) (re_resource re) (rq_path rq) then (Some (404, ''invalid path''), val0)
            else (case hex_decode (path_file (rq_path rq)) of
                None \<Rightarrow> (Some (400, ''encoding/hex''), val0)
              | Some b \<Rightarrow> (None, val0(re_field re \<mapsto> VBytes b)))
        | invalidGET \<Rightarrow> (Some (400, ''invalid GET''), val0))
     else if rq_Method rq = ''POST'' \<or> rq_Method rq = ''PUT'' then
       (if rq_ContentType rq \<noteq> ''application/json'' then (Some (400, ''content type needs to be application/json''), val0)
        else case rq_Body rq of
          None \<Rightarrow> (Some (400, ''read''), val0)
        | Some b \<Rightarrow> (let (v, ok) = json b val0 in if ok then (None, v) else (Some (400, ''decoding error ''), v)))
     else (Some (405, ''unsupported method: '' @ rq_Method rq), val0))"

definition rest_answer :: "('h \<Rightarrow> gostruct \<Rightarrow> 'r outcome) \<Rightarrow> ('r \<Rightarrow> bytes option) \<Rightarrow> 'h \<Rightarrow> gostruct \<Rightarrow> http_reply" where
  "rest_answer call toJson f v =
    (case callInterfaceFunc (call f v) of
       Inl e \<Rightarrow> HttpError 400 (wrapJSONMsg (''processing error '' @ e))
     | Inr out \<Rightarrow> (case toJson out of None \<Rightarrow> HttpError 500 (wrapJSONMsg ''json'') | Some b \<Rightarrow> HttpReply b))"

definition rest_handle :: "(bytes \<Rightarrow> gostruct \<Rightarrow> gostruct \<times> bool) \<Rightarrow> ('h \<Rightarrow> gostruct \<Rightarrow> 'r outcome) \<Rightarrow> ('r \<Rightarrow> bytes option) \<Rightarrow>
    'h rest \<Rightarrow> request \<Rightarrow> gostruct \<Rightarrow> http_reply \<times> gostruct" where
  "rest_handle json call toJson re rq val0 =
    (if rq_Method rq \<noteq> re_method re then (HttpError 405 (wrapJSONMsg (''unsupported method: '' @ rq_Method rq)), val0)
     else case rest_message json re rq val0 of
         (Some (code, e), v) \<Rightarrow> (HttpError code (wrapJSONMsg e), v)
       | (None, v) \<Rightarrow> (rest_answer call toJson (re_fun re) v, v))"

text \<open>The requests of a handler one after the other; \<open>val0\<close> starts as the zero value.\<close>

fun rest_session :: "(bytes \<Rightarrow> gostruct \<Rightarrow> gostruct \<times> bool) \<Rightarrow> ('h \<Rightarrow> gostruct \<Rightarrow> 'r outcome) \<Rightarrow> ('r \<Rightarrow> bytes option) \<Rightarrow>
    'h rest \<Rightarrow> request list \<Rightarrow> gostruct \<Rightarrow> http_reply list" where
  "rest_session json call toJson re [] val0 = []"
| "rest_session json call toJson re (rq # rqs) val0 =
    (let (reply, v) = rest_handle json call toJson re rq val0 in reply # rest_session json call toJson re rqs v)"

subsection \<open>Registration\<close>

text \<open>The patterns of the server's mux; a pattern that is there already makes it panic.\<close>

definition rest_pattern :: "'h rest \<Rightarrow> int \<Rightarrow> string" where
  "rest_pattern re v = ''/v'' @ itoa v @ ''/'' @ re_namespace re @ ''/'' @ re_resource re @
     (if re_kind re = intGET \<or> re_kind re = sliceGET then ''/'' else [])"

type_synonym 'h mux = "string \<rightharpoonup> 'h rest"

fun add_patterns :: "'h rest \<Rightarrow> int list \<Rightarrow> 'h mux \<Rightarrow> reg_error option \<times> 'h mux" where
  "add_patterns re [] mx = (None, mx)"
| "add_patterns re (v # vs) mx =
    (if mx (rest_pattern re v) \<noteq> None then (Some (Panicked ''http: multiple registrations''), mx)
     else add_patterns re vs (mx(rest_pattern re v \<mapsto> re)))"

text \<open>\<open>k\<close> keeps its zero value, \<open>invalidGET\<close>, for a handler of POST or PUT.\<close>

definition RegisterRESTHandler :: "(rtype \<Rightarrow> bool) \<Rightarrow> 'h \<Rightarrow> rtype \<Rightarrow> string \<Rightarrow> string \<Rightarrow> int \<Rightarrow> int \<Rightarrow> 'h mux \<Rightarrow> reg_error option \<times> 'h mux" where
  "RegisterRESTHandler implements f ft namespace method minVersion maxVersion mx =
    (if method \<notin> {''GET'', ''POST'', ''PUT''} then (Some (Refused ''invalid REST method''), mx)
     else if minVersion > maxVersion then (Some (Refused ''min version is greater than max version''), mx)
     else if minVersion < 3 then (Some (Refused ''earliest supported API level must be greater or equal to 3''), mx)
     else case handlerInputCheck ft of
       Some e \<Rightarrow> (Some (Refused e), mx)
     | None \<Rightarrow> (case createServiceHandler implements f ft of
         Inl e \<Rightarrow> (Some e, mx)
       | Inr (resource, sh) \<Rightarrow>
          (case (if method = ''GET'' then prepareHandlerGET ft else Inr (invalidGET, [])) of
             Inl e \<Rightarrow> (Some (Refused e), mx)
           | Inr (k, field) \<Rightarrow>
               add_patterns \<lparr>re_method = method, re_namespace = namespace, re_resource = resource, re_kind = k, re_field = field, re_fun = f\<rparr>
                 [minVersion..maxVersion] mx)))"

section \<open>What REST handlers see\<close>

lemma rest_session_merges:
  assumes "re_method re = ''POST''"
    and "\<forall>rq \<in> set rqs. rq_Method rq = ''POST'' \<and> rq_ContentType rq = ''application/json'' \<and>
      (\<exists>b. rq_Body rq = Some b \<and> (\<forall>v. json b v = (v ++ flds b, True)))"
  shows "rest_session json call toJson re rqs v =
    map (\<lambda>k. rest_answer call toJson (re_fun re) (foldl (++) v (map (\<lambda>rq. flds (the (rq_Body rq))) (take (Suc k) rqs)))) [0..<length rqs]"
  using assms(2)
proof (induction rqs arbitrary: v)
  case (Cons rq rqs)
  then obtain b where b: "rq_Body rq = Some b" "json b v = (v ++ flds b, True)" by auto
  have "rest_handle json call toJson re rq v = (rest_answer call toJson (re_fun re) (v ++ flds b), v ++ flds b)"
    using Cons.prems b by (simp add: rest_handle_def rest_message_def assms(1))
  moreover have "rest_session json call toJson re rqs (v ++ flds b) =
    map (\<lambda>k. rest_answer call toJson (re_fun re) (foldl (++) (v ++ flds b) (map (\<lambda>rq. flds (the (rq_Body rq))) (take (Suc k) rqs)))) [0..<length rqs]"
    using Cons.IH Cons.prems by simp
  ultimately show ?case using b(1) by (simp add: map_upt_Suc del: upt_Suc)
qed simp

text \<open>
  A REST handler does not only see the request it answers. Its argument is one value made at the
  registration, into which every body is decoded; JSON decoding leaves the fields that a body does not
  name, so the k-th request is answered for the fields of all bodies so far, of whoever sent them.
\<close>

theorem rest_requests_leak:
  assumes "re_method re = ''POST''"
    and "\<forall>rq \<in> set rqs. rq_Method rq = ''POST'' \<and> rq_ContentType rq = ''application/json'' \<and>
      (\<exists>b. rq_Body rq = Some b \<and> (\<forall>v. json b v = (v ++ flds b, True)))"
  shows "rest_session json call toJson re rqs Map.empty =
    map (\<lambda>k. rest_answer call toJson (re_fun re) (foldl (++) Map.empty (map (\<lambda>rq. flds (the (rq_Body rq))) (take (Suc k) rqs)))) [0..<length rqs]"
  using assms by (rule rest_session_merges)

lemma digits_cases: "(n < 10 \<longrightarrow> (\<exists>a. digits n = [a] \<and> is_digit a)) \<and> (10 \<le> n \<longrightarrow> (\<exists>a b r. digits n = a # b # r \<and> is_digit a \<and> is_digit b))"
proof (induction n rule: digits.induct)
  case (1 n)
  have d: "is_digit (char_of (48 + m))" if "m < 10" for m :: nat using that by (simp add: is_digit_def)
  show ?case
  proof (cases "n < 10")
    case True
    then show ?thesis using d by (subst digits.simps) simp
  next
    case False
    then have "digits n = digits (n div 10) @ [char_of (48 + n mod 10)]" by (subst digits.simps) simp
    moreover have "is_digit (char_of (48 + n mod 10))" using d by simp
    ultimately show ?thesis using 1 [OF False] False by (cases "n div 10 < 10") auto
  qed
qed

lemma prefix_of_self: "prefix_of p (p @ s)"
  by (induction p) simp_all

lemma rest_match_version:
  assumes "3 \<le> v" and "list_all ok num" and "num \<noteq> []"
  shows "rest_match ok ns res (''/v'' @ itoa v @ ''/'' @ ns @ ''/'' @ res @ ''/'' @ num) \<longleftrightarrow> v \<le> 9"
proof (cases "v \<le> 9")
  case True
  then obtain a where a: "digits (nat v) = [a]" "is_digit a" using digits_cases [of "nat v"] by auto
  have p: "prefix_of (''/'' @ ns @ ''/'' @ res @ ''/'') ((''/'' @ ns @ ''/'' @ res @ ''/'') @ num)" by (rule prefix_of_self)
  show ?thesis using True assms a p by (simp add: rest_match_def itoa_def)
next
  case False
  then obtain a b r where a: "digits (nat v) = a # b # r" "is_digit a" "is_digit b" using digits_cases [of "nat v"] by auto
  have "b \<noteq> CHR ''/''" using a(3) by (auto simp: is_digit_def)
  then show ?thesis using False assms(1) a by (simp add: rest_match_def itoa_def)
qed

lemma path_file_last: "CHR ''/'' \<notin> set num \<Longrightarrow> path_file (p @ ''/'' @ num) = num"
proof -
  assume "CHR ''/'' \<notin> set num"
  then have "takeWhile (\<lambda>c. c \<noteq> CHR ''/'') (rev num @ CHR ''/'' # rev p) = rev num" by (subst takeWhile_append2) auto
  then show ?thesis by (simp add: path_file_def)
qed

text \<open>
  Of the versions a REST handler is registered for, those above 9 are refused. A numeric GET request under
  \<open>/v\<close> with the version, the namespace and the resource of the handler reaches the service, with its number,
  exactly when the version has one digit; with more it is answered by 404, although \<open>RegisterRESTHandler\<close>
  takes any maximal version and registers a pattern for each.
\<close>

theorem rest_get_versions:
  assumes "re_method re = ''GET''" and "re_kind re = intGET" and "3 \<le> v" and "decimal num = Some n" and "n < 2 ^ 63"
    and "rq_Method rq = ''GET''" and "rq_path rq = rest_pattern re v @ num"
  shows "rest_handle json call toJson re rq val0 =
    (if v \<le> 9 then (rest_answer call toJson (re_fun re) (val0(re_field re \<mapsto> VInt (int n))), val0(re_field re \<mapsto> VInt (int n)))
     else (HttpError 404 (wrapJSONMsg ''invalid path''), val0))"
proof -
  have d: "list_all is_digit num" "num \<noteq> []" using assms(4) by (auto simp: decimal_def split: if_splits)
  have path: "rq_path rq = ''/v'' @ itoa v @ ''/'' @ re_namespace re @ ''/'' @ re_resource re @ ''/'' @ num"
    using assms(2,7) by (simp add: rest_pattern_def)
  have "CHR ''/'' \<notin> set num" using d(1) by (auto simp: list_all_iff is_digit_def)
  from path_file_last [OF this, of "''/v'' @ itoa v @ ''/'' @ re_namespace re @ ''/'' @ re_resource re"]
  have f: "path_file (rq_path rq) = num" unfolding path by simp
  have "Atoi num = Some (int n)" using assms(4,5) by (rule Atoi_decimal)
  then show ?thesis
    using rest_match_version [OF assms(3) d, of "re_namespace re" "re_resource re"] assms(1,2,6) f
    unfolding path [symmetric] by (simp add: rest_handle_def rest_message_def)
qed

definition sample_rest :: "string \<Rightarrow> kindGET \<Rightarrow> nat rest" where
  "sample_rest method k = \<lparr>re_method = method, re_namespace = ''skip'', re_resource = ''Get'', re_kind = k, re_field = ''Index'', re_fun = 0\<rparr>"

definition sample_json :: "bytes \<Rightarrow> gostruct \<Rightarrow> gostruct \<times> bool" where
  "sample_json b v = (if b = [1] then v(''User'' \<mapsto> VInt 7) else v(''Index'' \<mapsto> VInt 3), True)"

definition sample_call :: "nat \<Rightarrow> gostruct \<Rightarrow> govalue option outcome" where
  "sample_call f v = Returns (v ''User'')"

definition sample_toJson :: "govalue option \<Rightarrow> bytes option" where
  "sample_toJson r = (if r = Some (VInt 7) then Some [7] else Some [0])"

text \<open>The second request names no user, and is answered for the user of the first.\<close>

lemma rest_requests_leak_witness:
  "let rq = (\<lambda>b. \<lparr>rq_Method = ''POST'', rq_path = ''/v3/skip/Get'', rq_ContentType = ''application/json'', rq_Body = Some [b]\<rparr>) in
    rest_session sample_json sample_call sample_toJson (sample_rest ''POST'' invalidGET) [rq 1, rq 2] Map.empty = [HttpReply [7], HttpReply [7]]"
  unfolding Let_def
  by (subst rest_requests_leak [where flds = "\<lambda>b. if b = [1] then [''User'' \<mapsto> VInt 7] else [''Index'' \<mapsto> VInt 3]"])
    (auto simp: sample_rest_def sample_json_def sample_call_def sample_toJson_def rest_answer_def callInterfaceFunc_def map_add_def)

lemma rest_get_versions_witness:
  "let rq = (\<lambda>v. \<lparr>rq_Method = ''GET'', rq_path = rest_pattern (sample_rest ''GET'' intGET) v @ ''12'', rq_ContentType = [], rq_Body = None\<rparr>) in
    fst (rest_handle sample_json (\<lambda>f v. Returns (v ''Index'')) (\<lambda>r. case r of Some (VInt i) \<Rightarrow> Some [of_int i] | _ \<Rightarrow> None)
      (sample_rest ''GET'' intGET) (rq 3) Map.empty) = HttpReply [12] \<and>
    fst (rest_handle sample_json (\<lambda>f v. Returns (v ''Index'')) (\<lambda>r. case r of Some (VInt i) \<Rightarrow> Some [of_int i] | _ \<Rightarrow> None)
      (sample_rest ''GET'' intGET) (rq 10) Map.empty) = HttpError 404 (wrapJSONMsg ''invalid path'')"
proof -
  have d: "decimal ''12'' = Some 12" by (simp add: decimal_def is_digit_def digits_value_def)
  show ?thesis unfolding Let_def
    by (subst rest_get_versions [where v = 3 and num = "''12''" and n = 12])
      (simp_all add: d sample_rest_def rest_answer_def callInterfaceFunc_def
        rest_get_versions [where v = 10 and num = "''12''" and n = 12])
qed

end
