(* ===== verification/OnetStream.thy ===== *)
theory OnetStream
  imports OnetProcessor
begin

text \<open>
  A websocket of a client (\<open>ServeHTTP\<close> in \<open>onet/websocket.go\<close>) and the stream of requests it can turn into
  (\<open>ProcessClientStreamRequest\<close> in \<open>onet/processor.go\<close>): goroutines that read the socket, serve the
  requests, forward each service's replies, and write to the socket. A step is what one of them does
  between two channel operations. A panic in one of these goroutines is caught by nobody.
\<close>

section \<open>Requests that are answered once\<close>

text \<open>
  How the loop over the messages of a socket ends: the client is gone or a request failed, or a message is
  for a streaming handler. The error of a failed request ends the loop.
\<close>

datatype ws_end = WsGone | WsFailed string | WsStream bytes

fun serve_messages :: "(rtype \<Rightarrow> bytes \<Rightarrow> 'v option) \<Rightarrow> ('h \<Rightarrow> 'v \<Rightarrow> 'r outcome) \<Rightarrow> ('r \<Rightarrow> bytes option) \<Rightarrow>
    'h handlers \<Rightarrow> string \<Rightarrow> bytes list \<Rightarrow> bytes list \<times> ws_end" where
  "serve_messages dec call enc hs path [] = ([], WsGone)"
| "serve_messages dec call enc hs path (buf # bufs) =
    (case IsStreaming path hs of
       Inl e \<Rightarrow> ([], WsFailed e)
     | Inr True \<Rightarrow> ([], WsStream buf)
     | Inr False \<Rightarrow>
         (case ProcessClientRequest dec call enc hs path buf of
            Inl e \<Rightarrow> ([], WsFailed e)
          | Inr reply \<Rightarrow> (let (rs, en) = serve_messages dec call enc hs path bufs in (reply # rs, en))))"

text \<open>Services are reached under their name; \<open>ok\<close> is taken, and a name twice makes the mux panic.\<close>

definition registerService :: "string \<Rightarrow> 's \<Rightarrow> (string \<rightharpoonup> 's) \<Rightarrow> reg_error option \<times> (string \<rightharpoonup> 's)" where
  "registerService service s services =
    (if service = ''ok'' then (Some (Refused ''service name ok is not allowed''), services)
     else (if services service \<noteq> None then Some (Panicked ''http: multiple registrations'') else None, services(service \<mapsto> s)))"

section \<open>Streams\<close>

datatype ws_reader = WReading | WSending bytes | WEnded

datatype forwarder = FReceiving | FSending bytes | FEnding | FEnded

text \<open>
  What a served request leaves behind: the service's channel of replies, its channel to be stopped by, the
  goroutine that waits for \<open>stopAll\<close>, and the one that forwards the replies. Both channels can be nil:
  None. The stopping goroutine waits, or has the mutex \<open>closing\<close> and found the channel open, or is done.
\<close>

datatype stopper = SWaiting | SClosing | SDone

record stream_worker =
  wk_reply :: "nat option"
  wk_stop :: "nat option"
  wk_stopper :: stopper
  wk_fwd :: forwarder

text \<open>
  \<open>st_in\<close> is \<open>clientInputs\<close>, \<open>st_main\<close> the loop of \<open>ServeHTTP\<close>, \<open>st_ranging\<close> the goroutine that serves the
  requests, \<open>st_once\<close> that \<open>closeOutOnce\<close> was used, \<open>st_stopped\<close> and \<open>st_svc_closed\<close> the stop and reply
  channels of the service that are closed.
\<close>

record stream =
  st_reader :: ws_reader
  st_closing :: bool
  st_main :: bool
  st_in :: "bytes list"
  st_in_closed :: bool
  st_ranging :: bool
  st_stopAll :: bool
  st_workers :: "stream_worker list"
  st_out :: "bytes list"
  st_out_closed :: bool
  st_once :: bool
  st_stopped :: "nat set"
  st_svc_closed :: "nat set"
  st_replies :: "bytes list"
  st_crashed :: bool

definition stream_start :: "bytes \<Rightarrow> stream" where
  "stream_start buf =
    \<lparr>st_reader = WReading, st_closing = False, st_main = True, st_in = [buf], st_in_closed = False, st_ranging = True,
     st_stopAll = False, st_workers = [], st_out = [], st_out_closed = False, st_once = False, st_stopped = {},
     st_svc_closed = {}, st_replies = [], st_crashed = False\<rparr>"

text \<open>
  What comes from outside: messages of the client or its end, a value of a reply channel, the end of a
  reply channel (closed, and nothing left in it), a value on a stop channel, and a stop channel that is
  closed by the service itself, or by another stream that was given the same one.
\<close>

datatype 'v event = ClientSends bytes | ClientLeaves | ServiceSends nat 'v | ServiceCloses nat | ServiceSignals nat | ServiceStops nat | Internal

definition crash :: "stream \<Rightarrow> stream" where
  "crash s = s\<lparr>st_crashed := True\<rparr>"

text \<open>The goroutines of \<open>ServeHTTP\<close>. Sending on a closed channel panics.\<close>

inductive ws_step :: "'v event \<Rightarrow> stream \<Rightarrow> stream \<Rightarrow> bool" where
  read: "st_reader s = WReading \<Longrightarrow> ws_step (ClientSends b) s (s\<lparr>st_reader := WSending b\<rparr>)"
| read_fails: "st_reader s = WReading \<Longrightarrow> ws_step ClientLeaves s (s\<lparr>st_reader := WEnded, st_closing := True\<rparr>)"
| read_closed: "st_reader s = WReading \<Longrightarrow> \<not> st_main s \<Longrightarrow> ws_step Internal s (s\<lparr>st_reader := WEnded, st_closing := True\<rparr>)"
| forward: "st_reader s = WSending b \<Longrightarrow> \<not> st_in_closed s \<Longrightarrow> length (st_in s) < 10 \<Longrightarrow>
    ws_step Internal s (s\<lparr>st_reader := WReading, st_in := st_in s @ [b]\<rparr>)"
| forward_closed: "st_reader s = WSending b \<Longrightarrow> st_in_closed s \<Longrightarrow> ws_step Internal s (crash s)"
| main_closing: "st_main s \<Longrightarrow> st_closing s \<Longrightarrow> ws_step Internal s (s\<lparr>st_main := False, st_in_closed := True\<rparr>)"
| main_done: "st_main s \<Longrightarrow> st_out s = [] \<Longrightarrow> st_out_closed s \<Longrightarrow> ws_step Internal s (s\<lparr>st_main := False, st_in_closed := True\<rparr>)"
| main_reply: "st_main s \<Longrightarrow> st_out s = r # rs \<Longrightarrow> ws_step Internal s (s\<lparr>st_out := rs, st_replies := st_replies s @ [r]\<rparr>)"
| main_fails: "st_main s \<Longrightarrow> st_out s = r # rs \<Longrightarrow> ws_step Internal s (s\<lparr>st_out := rs, st_main := False, st_in_closed := True\<rparr>)"

text \<open>
  \<open>close(outChan)\<close>, of a channel that may be closed already. When the message does not decode or the
  service refuses it, the channel is closed without \<open>closeOutOnce\<close>.
\<close>

definition close_out :: "stream \<Rightarrow> stream" where
  "close_out s = (if st_out_closed s then crash s else s\<lparr>st_out_closed := True\<rparr>)"

definition set_fwd :: "nat \<Rightarrow> forwarder \<Rightarrow> stream \<Rightarrow> stream" where
  "set_fwd i f s = s\<lparr>st_workers := (st_workers s)[i := (st_workers s ! i)\<lparr>wk_fwd := f\<rparr>]\<rparr>"

definition set_stopper :: "nat \<Rightarrow> stopper \<Rightarrow> stream \<Rightarrow> stream" where
  "set_stopper i st s = s\<lparr>st_workers := (st_workers s)[i := (st_workers s ! i)\<lparr>wk_stopper := st\<rparr>]\<rparr>"

text \<open>The mutex \<open>closing\<close> of the stream is free.\<close>

definition closing_free :: "stream \<Rightarrow> bool" where
  "closing_free s \<longleftrightarrow> (\<forall>w \<in> set (st_workers s). wk_stopper w \<noteq> SClosing)"

text \<open>\<open>close(stopServiceChan)\<close>: closing a nil channel panics, and so does closing one a second time.\<close>

definition close_stop :: "nat \<Rightarrow> stream \<Rightarrow> stream" where
  "close_stop i s =
    (case wk_stop (st_workers s ! i) of
       None \<Rightarrow> crash s
     | Some q \<Rightarrow> if q \<in> st_stopped s then crash s else (set_stopper i SDone s)\<lparr>st_stopped := insert q (st_stopped s)\<rparr>)"

text \<open>\<open>dec\<close> decodes a message of the handler, \<open>svc\<close> is its k-th call, \<open>enc\<close> encodes a reply.\<close>

definition refuses :: "(bytes \<Rightarrow> 'm option) \<Rightarrow> (nat \<Rightarrow> 'm \<Rightarrow> (nat option \<times> nat option) outcome) \<Rightarrow> nat \<Rightarrow> bytes \<Rightarrow> bool" where
  "refuses dec svc k b = (case dec b of None \<Rightarrow> True | Some m \<Rightarrow> (case callInterfaceFunc (svc k m) of Inl e \<Rightarrow> True | Inr p \<Rightarrow> False))"

inductive proc_step :: "(bytes \<Rightarrow> 'm option) \<Rightarrow> (nat \<Rightarrow> 'm \<Rightarrow> (nat option \<times> nat option) outcome) \<Rightarrow> ('v \<Rightarrow> bytes option) \<Rightarrow>
    'v event \<Rightarrow> stream \<Rightarrow> stream \<Rightarrow> bool" for dec svc enc where
  serve_refused: "st_ranging s \<Longrightarrow> st_in s = b # bs \<Longrightarrow> refuses dec svc (length (st_workers s)) b \<Longrightarrow>
    proc_step dec svc enc Internal s (close_out (s\<lparr>st_ranging := False, st_in := bs\<rparr>))"
| serve: "st_ranging s \<Longrightarrow> st_in s = b # bs \<Longrightarrow> dec b = Some m \<Longrightarrow> svc (length (st_workers s)) m = Returns (r, q) \<Longrightarrow>
    proc_step dec svc enc Internal s
      (s\<lparr>st_in := bs, st_workers := st_workers s @ [\<lparr>wk_reply = r, wk_stop = q, wk_stopper = SWaiting, wk_fwd = FReceiving\<rparr>]\<rparr>)"
| serve_ends: "st_ranging s \<Longrightarrow> st_in s = [] \<Longrightarrow> st_in_closed s \<Longrightarrow>
    proc_step dec svc enc Internal s (s\<lparr>st_ranging := False, st_stopAll := True\<rparr>)"
| stop_looks: "st_stopAll s \<Longrightarrow> closing_free s \<Longrightarrow> i < length (st_workers s) \<Longrightarrow> wk_stopper (st_workers s ! i) = SWaiting \<Longrightarrow>
    proc_step dec svc enc Internal s
      (set_stopper i (case wk_stop (st_workers s ! i) of None \<Rightarrow> SClosing | Some q \<Rightarrow> if q \<in> st_stopped s then SDone else SClosing) s)"
| stop_signalled: "st_stopAll s \<Longrightarrow> closing_free s \<Longrightarrow> i < length (st_workers s) \<Longrightarrow> wk_stopper (st_workers s ! i) = SWaiting \<Longrightarrow>
    wk_stop (st_workers s ! i) = Some q \<Longrightarrow> proc_step dec svc enc (ServiceSignals q) s (set_stopper i SDone s)"
| stop_closes: "i < length (st_workers s) \<Longrightarrow> wk_stopper (st_workers s ! i) = SClosing \<Longrightarrow>
    proc_step dec svc enc Internal s (close_stop i s)"
| service_stops: "q \<notin> st_stopped s \<Longrightarrow> proc_step dec svc enc (ServiceStops q) s (s\<lparr>st_stopped := insert q (st_stopped s)\<rparr>)"
| receive: "i < length (st_workers s) \<Longrightarrow> wk_fwd (st_workers s ! i) = FReceiving \<Longrightarrow> wk_reply (st_workers s ! i) = Some r \<Longrightarrow> r \<notin> st_svc_closed s \<Longrightarrow>
    proc_step dec svc enc (ServiceSends i v) s (set_fwd i (case enc v of None \<Rightarrow> FEnding | Some b \<Rightarrow> FSending b) s)"
| service_closes: "r \<notin> st_svc_closed s \<Longrightarrow> proc_step dec svc enc (ServiceCloses r) s (s\<lparr>st_svc_closed := insert r (st_svc_closed s)\<rparr>)"
| receive_closed: "i < length (st_workers s) \<Longrightarrow> wk_fwd (st_workers s ! i) = FReceiving \<Longrightarrow> wk_reply (st_workers s ! i) = Some r \<Longrightarrow> r \<in> st_svc_closed s \<Longrightarrow>
    proc_step dec svc enc Internal s (set_fwd i FEnding s)"
| reply: "i < length (st_workers s) \<Longrightarrow> wk_fwd (st_workers s ! i) = FSending b \<Longrightarrow> \<not> st_out_closed s \<Longrightarrow> length (st_out s) < 100 \<Longrightarrow>
    proc_step dec svc enc Internal s ((set_fwd i FReceiving s)\<lparr>st_out := st_out s @ [b]\<rparr>)"
| reply_closed: "i < length (st_workers s) \<Longrightarrow> wk_fwd (st_workers s ! i) = FSending b \<Longrightarrow> st_out_closed s \<Longrightarrow>
    proc_step dec svc enc Internal s (crash s)"
| forwarder_ends: "i < length (st_workers s) \<Longrightarrow> wk_fwd (st_workers s ! i) = FEnding \<Longrightarrow>
    proc_step dec svc enc Internal s
      (let s1 = set_fwd i FEnded s in if st_once s then s1 else close_out (s1\<lparr>st_once := True\<rparr>))"

inductive stream_run :: "(bytes \<Rightarrow> 'm option) \<Rightarrow> (nat \<Rightarrow> 'm \<Rightarrow> (nat option \<times> nat option) outcome) \<Rightarrow> ('v \<Rightarrow> bytes option) \<Rightarrow>
    'v event list \<Rightarrow> stream \<Rightarrow> stream \<Rightarrow> bool" for dec svc enc where
  run_here: "stream_run dec svc enc [] s s"
| run_ws: "ws_step e s s' \<Longrightarrow> \<not> st_crashed s \<Longrightarrow> stream_run dec svc enc es s' s'' \<Longrightarrow> stream_run dec svc enc (e # es) s s''"
| run_proc: "proc_step dec svc enc e s s' \<Longrightarrow> \<not> st_crashed s \<Longrightarrow> stream_run dec svc enc es s' s'' \<Longrightarrow> stream_run dec svc enc (e # es) s s''"

fun client_messages :: "'v event list \<Rightarrow> bytes list" where
  "client_messages [] = []"
| "client_messages (ClientSends b # es) = b # client_messages es"
| "client_messages (e # es) = client_messages es"

section \<open>Crashes\<close>

text \<open>
  With one message only one goroutine ever closes \<open>outChan\<close>, after it has sent its last reply, and, when
  nobody else closes the stop channel, what is found open is still open when it is closed.
\<close>

definition single_inv :: "bytes \<Rightarrow> stream \<Rightarrow> bool" where
  "single_inv b0 s \<longleftrightarrow> \<not> st_crashed s \<and> (\<forall>b. st_reader s \<noteq> WSending b) \<and>
    (st_in s = [b0] \<and> st_workers s = [] \<and> st_ranging s \<and> \<not> st_out_closed s \<and> \<not> st_once s \<or>
     st_in s = [] \<and> (\<exists>w q. st_workers s = [w] \<and> st_out_closed s = st_once s \<and> (st_once s \<longleftrightarrow> wk_fwd w = FEnded) \<and>
       wk_stop w = Some q \<and> (wk_stopper w = SClosing \<longrightarrow> q \<notin> st_stopped s)))"

lemma ws_step_single:
  "ws_step e s s' \<Longrightarrow> (\<And>b. e \<noteq> ClientSends b) \<Longrightarrow> single_inv b0 s \<Longrightarrow> single_inv b0 s'"
  by (induction rule: ws_step.induct) (auto simp: single_inv_def)

lemma proc_step_single:
  assumes "proc_step dec svc enc e s s'" and "\<And>q. e \<noteq> ServiceStops q" and "single_inv b0 s"
    and "dec b0 = Some m" and "svc 0 m = Returns (r, Some q)"
  shows "single_inv b0 s'"
  using assms
  by (induction rule: proc_step.induct)
    (auto simp: single_inv_def close_out_def close_stop_def set_fwd_def set_stopper_def refuses_def callInterfaceFunc_def Let_def length_Suc_conv split: option.splits if_splits)

lemma single_run:
  assumes "stream_run dec svc enc es s s'" and "client_messages es = []" and "\<forall>q. ServiceStops q \<notin> set es" and "single_inv b0 s"
    and "dec b0 = Some m" and "svc 0 m = Returns (r, Some q)"
  shows "\<not> st_crashed s'"
  using assms
proof (induction rule: stream_run.induct)
  case (run_ws e s s' es s'')
  then have "\<And>b. e \<noteq> ClientSends b" "client_messages es = []" by (cases e; auto)+
  then show ?case using run_ws ws_step_single [of e s s' b0] by simp
next
  case (run_proc e s s' es s'')
  then have "\<And>q. e \<noteq> ServiceStops q" "client_messages es = []" by (cases e; auto)+
  then show ?case using run_proc proc_step_single [of dec svc enc e s s' b0 m r q] by simp
qed (simp add: single_inv_def)

text \<open>The client leaves, and the stopping goroutine of its only request has found the stop channel open.\<close>

definition left_stream :: "nat option \<Rightarrow> nat option \<Rightarrow> bytes \<Rightarrow> stream" where
  "left_stream r q b0 = (stream_start b0)\<lparr>st_in := [], st_reader := WEnded, st_closing := True, st_main := False, st_in_closed := True,
     st_ranging := False, st_stopAll := True, st_workers := [\<lparr>wk_reply = r, wk_stop = q, wk_stopper = SClosing, wk_fwd = FReceiving\<rparr>]\<rparr>"

lemma leave_run:
  assumes "dec b0 = Some m" and "svc 0 m = Returns (r, q)" and "stream_run dec svc enc es (left_stream r q b0) s"
  shows "stream_run dec svc enc ([Internal, ClientLeaves, Internal, Internal, Internal] @ es) (stream_start b0) s"
proof -
  let ?w = "\<lparr>wk_reply = r, wk_stop = q, wk_stopper = SWaiting, wk_fwd = FReceiving\<rparr>"
  let ?s1 = "(stream_start b0)\<lparr>st_in := [], st_workers := [?w]\<rparr>"
  let ?s2 = "?s1\<lparr>st_reader := WEnded, st_closing := True\<rparr>"
  let ?s3 = "?s2\<lparr>st_main := False, st_in_closed := True\<rparr>"
  let ?s4 = "?s3\<lparr>st_ranging := False, st_stopAll := True\<rparr>"
  note f = stream_start_def
  have 1: "proc_step dec svc enc Internal (stream_start b0) ?s1"
    using proc_step.serve [of "stream_start b0" b0 "[]" dec m svc r q enc] assms(1,2) by (simp add: f)
  have 2: "ws_step ClientLeaves ?s1 ?s2" by (rule ws_step.read_fails) (simp add: f)
  have 3: "ws_step Internal ?s2 ?s3" by (rule ws_step.main_closing) (simp_all add: f)
  have 4: "proc_step dec svc enc Internal ?s3 ?s4" by (rule proc_step.serve_ends) (simp_all add: f)
  have 5: "proc_step dec svc enc Internal ?s4 (left_stream r q b0)"
    using proc_step.stop_looks [of ?s4 0 dec svc enc] by (simp add: f left_stream_def closing_free_def set_stopper_def split: option.splits)
  have n: "\<not> st_crashed (stream_start b0)" "\<not> st_crashed ?s1" "\<not> st_crashed ?s2" "\<not> st_crashed ?s3" "\<not> st_crashed ?s4"
    by (simp_all add: f)
  show ?thesis using assms(3) run_proc [OF 1 n(1) run_ws [OF 2 n(2) run_ws [OF 3 n(3) run_proc [OF 4 n(4) run_proc [OF 5 n(5)]]]]] by simp
qed

lemma left_stream_open: "\<not> st_crashed (left_stream r q b0)"
  by (simp add: left_stream_def stream_start_def)

text \<open>The first request is served, the second one refused, and the first one's goroutine replies.\<close>

definition refused_run :: "bytes \<Rightarrow> 'v \<Rightarrow> 'v event list" where
  "refused_run b1 v = [Internal, ClientSends b1, Internal, Internal, ServiceSends 0 v, Internal]"

lemma refused_run_crashes:
  assumes "dec b0 = Some m" and "svc 0 m = Returns (Some k, q)" and "refuses dec svc 1 b1" and "enc v = Some e"
  shows "\<exists>s. stream_run dec svc enc (refused_run b1 v) (stream_start b0) s \<and> st_crashed s"
proof -
  let ?w = "\<lparr>wk_reply = Some k, wk_stop = q, wk_stopper = SWaiting, wk_fwd = FReceiving\<rparr>"
  let ?s1 = "(stream_start b0)\<lparr>st_in := [], st_workers := [?w]\<rparr>"
  let ?s2 = "?s1\<lparr>st_reader := WSending b1\<rparr>"
  let ?s3 = "?s2\<lparr>st_reader := WReading, st_in := [b1]\<rparr>"
  let ?s4 = "?s3\<lparr>st_ranging := False, st_in := [], st_out_closed := True\<rparr>"
  let ?s5 = "?s4\<lparr>st_workers := [?w\<lparr>wk_fwd := FSending e\<rparr>]\<rparr>"
  note f = stream_start_def
  have 1: "proc_step dec svc enc Internal (stream_start b0) ?s1"
    using proc_step.serve [of "stream_start b0" b0 "[]" dec m svc "Some k" q enc] assms(1,2) by (simp add: f)
  have 2: "ws_step (ClientSends b1) ?s1 ?s2" by (rule ws_step.read) (simp add: f)
  have 3: "ws_step Internal ?s2 ?s3" using ws_step.forward [of ?s2 b1] by (simp add: f)
  have 4: "proc_step dec svc enc Internal ?s3 ?s4"
    using proc_step.serve_refused [of ?s3 b1 "[]" dec svc enc] assms(3) by (simp add: f close_out_def)
  have 5: "proc_step dec svc enc (ServiceSends 0 v) ?s4 ?s5"
    using proc_step.receive [of 0 ?s4 k dec svc enc v] assms(4) by (simp add: f set_fwd_def)
  have 6: "proc_step dec svc enc Internal ?s5 (crash ?s5)"
    by (rule proc_step.reply_closed [of 0 _ e]) (simp_all add: f)
  have n: "\<not> st_crashed (stream_start b0)" "\<not> st_crashed ?s1" "\<not> st_crashed ?s2" "\<not> st_crashed ?s3" "\<not> st_crashed ?s4" "\<not> st_crashed ?s5"
    by (simp_all add: f)
  have "stream_run dec svc enc [Internal, ClientSends b1, Internal, Internal, ServiceSends 0 v, Internal] (stream_start b0) (crash ?s5)"
    by (rule run_proc [OF 1 n(1) run_ws [OF 2 n(2) run_ws [OF 3 n(3) run_proc [OF 4 n(4) run_proc [OF 5 n(5) run_proc [OF 6 n(6) run_here]]]]]])
  then show ?thesis unfolding refused_run_def by (intro exI [of _ "crash ?s5"]) (simp add: crash_def)
qed

text \<open>
  C18: a client can make the whole server crash, by one more message on a stream. Once a request is being
  served, a second one that does not decode, or that the service refuses, closes the channel of replies
  under the goroutine that forwards the first one's replies: the next reply is sent on a closed channel,
  which panics outside every \<open>recover\<close>. It needs nothing of the service but a reply, and the client need
  not leave. A client that sends nothing after its first message, and leaves when it likes, makes the
  server crash if and only if the service gave a nil stop channel, which is closed without a check; but
  for a stop channel that is closed elsewhere just after it was found open, which crashes as well.
\<close>

theorem second_message_crashes:
  assumes "dec b0 = Some m" and "svc 0 m = Returns (r, q)"
  shows "(\<forall>b1 v e. refuses dec svc 1 b1 \<and> r \<noteq> None \<and> enc v = Some e \<longrightarrow>
      (\<exists>es s. stream_run dec svc enc es (stream_start b0) s \<and> st_crashed s \<and> client_messages es = [b1] \<and>
        ClientLeaves \<notin> set es \<and> (\<forall>k. ServiceCloses k \<notin> set es \<and> ServiceStops k \<notin> set es))) \<and>
    ((\<exists>es s. stream_run dec svc enc es (stream_start b0) s \<and> st_crashed s \<and> client_messages es = [] \<and> (\<forall>k. ServiceStops k \<notin> set es))
      \<longleftrightarrow> q = None) \<and>
    (\<forall>k. q = Some k \<longrightarrow> (\<exists>es s. stream_run dec svc enc es (stream_start b0) s \<and> st_crashed s \<and> client_messages es = [] \<and>
      ServiceStops k \<in> set es))"
proof (intro conjI allI impI iffI)
  fix b1 v e assume a: "refuses dec svc 1 b1 \<and> r \<noteq> None \<and> enc v = Some e"
  then obtain k where "svc 0 m = Returns (Some k, q)" using assms(2) by auto
  with a refused_run_crashes [of dec b0 m svc k q b1 enc v e] assms(1) obtain s where "stream_run dec svc enc (refused_run b1 v) (stream_start b0) s" "st_crashed s" by blast
  then show "\<exists>es s. stream_run dec svc enc es (stream_start b0) s \<and> st_crashed s \<and> client_messages es = [b1] \<and>
      ClientLeaves \<notin> set es \<and> (\<forall>k. ServiceCloses k \<notin> set es \<and> ServiceStops k \<notin> set es)"
    by (intro exI [of _ "refused_run b1 v"] exI [of _ s]) (simp add: refused_run_def)
next
  assume "\<exists>es s. stream_run dec svc enc es (stream_start b0) s \<and> st_crashed s \<and> client_messages es = [] \<and> (\<forall>k. ServiceStops k \<notin> set es)"
  moreover have "single_inv b0 (stream_start b0)" by (simp add: single_inv_def stream_start_def)
  ultimately show "q = None" using single_run assms by (metis not_None_eq)
next
  assume q: "q = None"
  have "proc_step dec svc enc Internal (left_stream r q b0) (crash (left_stream r q b0))"
    using proc_step.stop_closes [of 0 "left_stream r q b0" dec svc enc] q by (simp add: left_stream_def close_stop_def)
  from leave_run [OF assms run_proc [OF this left_stream_open run_here]]
  show "\<exists>es s. stream_run dec svc enc es (stream_start b0) s \<and> st_crashed s \<and> client_messages es = [] \<and> (\<forall>k. ServiceStops k \<notin> set es)"
    by (intro exI conjI) (assumption, simp_all add: crash_def)
next
  fix k assume q: "q = Some k"
  let ?l = "left_stream r q b0"
  let ?l' = "?l\<lparr>st_stopped := {k}\<rparr>"
  have 1: "proc_step dec svc enc (ServiceStops k) ?l ?l'"
    using proc_step.service_stops [of k ?l dec svc enc] by (simp add: left_stream_def stream_start_def)
  have 2: "proc_step dec svc enc Internal ?l' (crash ?l')"
    using proc_step.stop_closes [of 0 ?l' dec svc enc] q by (simp add: left_stream_def close_stop_def)
  have "\<not> st_crashed ?l'" using left_stream_open [of r q b0] by simp
  from leave_run [OF assms run_proc [OF 1 left_stream_open run_proc [OF 2 this run_here]]]
  show "\<exists>es s. stream_run dec svc enc es (stream_start b0) s \<and> st_crashed s \<and> client_messages es = [] \<and> ServiceStops k \<in> set es"
    by (intro exI conjI) (assumption, simp_all add: crash_def)
qed

lemma second_message_crashes_witness:
  "(\<exists>es s. stream_run (\<lambda>b. if b = [1] then Some (0 :: nat) else None) (\<lambda>k m. Returns (Some 0, Some 1)) (\<lambda>v :: nat. Some [])
     es (stream_start [1]) s \<and> st_crashed s \<and> client_messages es = [[2]]) \<and>
   (\<exists>es s. stream_run (\<lambda>b. if b = [1] then Some (0 :: nat) else None) (\<lambda>k m. Returns (Some 0, None)) (\<lambda>v :: nat. Some [])
     es (stream_start [1]) s \<and> st_crashed s \<and> client_messages es = [])"
proof -
  let ?dec = "\<lambda>b. if b = [1] then Some (0 :: nat) else None" and ?svc = "\<lambda>q k m. Returns (Some (0 :: nat), q :: nat option)"
  have p: "?dec [1] = Some 0" "?svc q 0 0 = Returns (Some 0, q)" for q by simp_all
  note t = second_message_crashes [of ?dec "[1]" 0 "?svc (Some 1)" "Some 0" "Some 1" "\<lambda>v :: nat. Some []", OF p]
  have "refuses ?dec (?svc (Some 1)) 1 [2] \<and> Some (0 :: nat) \<noteq> None \<and> (\<lambda>v :: nat. Some []) 0 = Some ([] :: bytes)" by (simp add: refuses_def)
  then have 1: "\<exists>es s. stream_run ?dec (?svc (Some 1)) (\<lambda>v :: nat. Some []) es (stream_start [1]) s \<and> st_crashed s \<and> client_messages es = [[2]]"
    using conjunct1 [OF t] by blast
  have 2: "\<exists>es s. stream_run ?dec (?svc None) (\<lambda>v :: nat. Some []) es (stream_start [1]) s \<and> st_crashed s \<and> client_messages es = []"
    using second_message_crashes [of ?dec "[1]" 0 "?svc None" "Some 0" None "\<lambda>v :: nat. Some []", THEN conjunct2, THEN conjunct1]
    by auto
  show ?thesis using 1 2 by simp
qed

end
