(* ===== verification/NetLocal.thy ===== *)
theory NetLocal
  imports NetTcp Transition
begin

text \<open>
  The network inside one process (\<open>onet/network/local.go\<close>), which simulations and tests use in place of
  TCP: a manager with one lock, connections between endpoints, and per connection a goroutine that moves
  messages from its incoming to its outgoing queue. Both queues are bounded, and the manager keeps its lock
  while it waits for a queue or for a goroutine.
\<close>

section \<open>State\<close>

type_synonym endpoint = "string \<times> u64"

text \<open>Where the goroutine of a connection is; \<open>Confirming\<close> sends on \<open>closeConfirm\<close>.\<close>

datatype mover = Selecting | Moving bytes | Confirming | Gone

text \<open>\<open>lc_close\<close>: \<open>closeCh\<close> is closed. \<open>lc_accepted\<close> and \<open>lc_received\<close> record what went in and came out.\<close>

record LocalConn =
  lc_local :: endpoint
  lc_remote :: endpoint
  lc_in :: "bytes list"
  lc_out :: "bytes list"
  lc_close :: bool
  lc_mover :: mover
  lc_count :: counterSafe
  lc_accepted :: "bytes list"
  lc_received :: "bytes list"

text \<open>
  Who has the manager's lock over a blocking operation: a \<open>send\<close> that waits for room in the queue of a
  connection, or a \<open>close\<close> that waits for the goroutines of the connections in the list, the first one now.
\<close>

datatype held_lock = Free | Sending nat bytes | Closing "nat list"

record LocalManager =
  lm_conns :: "endpoint \<rightharpoonup> nat"
  lm_objs :: "LocalConn list"
  lm_listening :: "string \<rightharpoonup> nat"
  lm_counter :: u64
  lm_stopped :: bool
  lm_wg :: nat
  lm_started :: "(nat \<times> nat) list"
  lm_lock :: held_lock

definition NewLocalManager :: LocalManager where
  "NewLocalManager =
    \<lparr>lm_conns = Map.empty, lm_objs = [], lm_listening = Map.empty, lm_counter = 0, lm_stopped = False, lm_wg = 0,
     lm_started = [], lm_lock = Free\<rparr>"

definition LocalMaxBuffer :: nat where
  "LocalMaxBuffer = 200"

section \<open>Operations of the manager\<close>

definition isListening :: "string \<Rightarrow> LocalManager \<Rightarrow> bool" where
  "isListening remote lm = (lm_listening lm remote \<noteq> None)"

definition setListening :: "string \<Rightarrow> nat \<Rightarrow> LocalManager \<Rightarrow> LocalManager" where
  "setListening addr fn lm = lm\<lparr>lm_listening := (lm_listening lm)(addr \<mapsto> fn)\<rparr>"

definition unsetListening :: "string \<Rightarrow> LocalManager \<Rightarrow> LocalManager" where
  "unsetListening addr lm = lm\<lparr>lm_listening := (lm_listening lm)(addr := None)\<rparr>"

definition newLocalConn :: "endpoint \<Rightarrow> endpoint \<Rightarrow> LocalConn" where
  "newLocalConn local remote =
    \<lparr>lc_local = local, lc_remote = remote, lc_in = [], lc_out = [], lc_close = False, lc_mover = Selecting,
     lc_count = \<lparr>cs_tx = 0, cs_rx = 0\<rparr>, lc_accepted = [], lc_received = []\<rparr>"

text \<open>The outgoing connection is the result; the listener's function is started on the incoming one.\<close>

definition lm_connect :: "string \<Rightarrow> string \<Rightarrow> LocalManager \<Rightarrow> (string + nat) \<times> LocalManager" where
  "lm_connect local remote lm =
    (if lm_stopped lm then (Inl ''system is stopped'', lm)
     else case lm_listening lm remote of
       None \<Rightarrow> (Inl ''not listening'', lm)
     | Some fn \<Rightarrow>
         let outEndpoint = (local, lm_counter lm); incEndpoint = (remote, lm_counter lm + 1); k = length (lm_objs lm)
         in (Inr k, lm\<lparr>lm_counter := lm_counter lm + 2,
               lm_objs := lm_objs lm @ [newLocalConn outEndpoint incEndpoint, newLocalConn incEndpoint outEndpoint],
               lm_wg := lm_wg lm + 2,
               lm_conns := (lm_conns lm)(outEndpoint \<mapsto> k, incEndpoint \<mapsto> Suc k),
               lm_started := lm_started lm @ [(fn, Suc k)]\<rparr>))"

text \<open>\<open>send\<close> up to its wait for room.\<close>

definition lm_send :: "endpoint \<Rightarrow> bytes \<Rightarrow> LocalManager \<Rightarrow> net_error option \<times> LocalManager" where
  "lm_send e msg lm =
    (case lm_conns lm e of
       None \<Rightarrow> (Some ErrClosed, lm)
     | Some q \<Rightarrow> (None, lm\<lparr>lm_lock := Sending q msg\<rparr>))"

definition set_conn :: "nat \<Rightarrow> LocalConn \<Rightarrow> LocalManager \<Rightarrow> LocalManager" where
  "set_conn k c lm = lm\<lparr>lm_objs := (lm_objs lm)[k := c]\<rparr>"

text \<open>\<open>closeChannels\<close> of the first connection in the list, up to its wait for the goroutine.\<close>

definition start_closing :: "nat list \<Rightarrow> LocalManager \<Rightarrow> LocalManager" where
  "start_closing ks lm =
    (case ks of
       [] \<Rightarrow> lm\<lparr>lm_lock := Free\<rparr>
     | k # _ \<Rightarrow> (set_conn k ((lm_objs lm ! k)\<lparr>lc_close := True\<rparr>) lm)\<lparr>lm_lock := Closing ks\<rparr>)"

definition lm_close :: "nat \<Rightarrow> LocalManager \<Rightarrow> net_error option \<times> LocalManager" where
  "lm_close k lm =
    (let c = lm_objs lm ! k in
     case lm_conns lm (lc_local c) of
       None \<Rightarrow> (Some ErrClosed, lm)
     | Some _ \<Rightarrow>
         let lm1 = lm\<lparr>lm_conns := (lm_conns lm)(lc_local c := None)\<rparr>
         in (None, case lm_conns lm1 (lc_remote c) of
               None \<Rightarrow> start_closing [k] lm1
             | Some q \<Rightarrow> start_closing [k, q] (lm1\<lparr>lm_conns := (lm_conns lm1)(lc_remote c := None)\<rparr>)))"

definition lm_count :: "LocalManager \<Rightarrow> nat" where
  "lm_count lm = card (dom (lm_conns lm))"

section \<open>Operations of a connection\<close>

text \<open>\<open>Send\<close> marshals, counts, and hands the bytes to the manager.\<close>

definition lc_Send :: "'p crypto \<Rightarrow> 'm codec \<Rightarrow> typeRegistry \<Rightarrow> 'm \<Rightarrow> nat \<Rightarrow> LocalManager \<Rightarrow>
    (string + u64 \<times> net_error option) \<times> LocalManager" where
  "lc_Send c cd reg m k lm =
    (case Marshal c cd reg m of
       Inl e \<Rightarrow> (Inl e, lm)
     | Inr buff \<Rightarrow>
         let n = word_of_nat (length buff); cn = lm_objs lm ! k;
             (err, lm1) = lm_send (lc_remote cn) buff (set_conn k (cn\<lparr>lc_count := updateTx n (lc_count cn)\<rparr>) lm)
         in (Inr (n, err), lm1))"

text \<open>What \<open>Receive\<close> makes of the next value of the outgoing queue; None is a closed queue.\<close>

definition lc_Receive :: "'m codec \<Rightarrow> typeRegistry \<Rightarrow> bytes option \<Rightarrow> recv_error + uuid \<times> 'm \<times> u32" where
  "lc_Receive cd reg next =
    (case next of
       None \<Rightarrow> Inl (NetError ErrClosed)
     | Some buff \<Rightarrow>
         (case Unmarshal cd reg buff of
            Inl e \<Rightarrow> Inl (BadMessage e)
          | Inr (i, body) \<Rightarrow> Inr (i, body, word_of_nat (length buff))))"

definition lc_Close :: "nat \<Rightarrow> LocalManager \<Rightarrow> net_error option \<times> LocalManager" where
  "lc_Close k lm = (if lc_close (lm_objs lm ! k) then (Some ErrClosed, lm) else lm_close k lm)"

section \<open>The manager at work\<close>

text \<open>
  A step is a call up to its blocking point, or what a goroutine does between two of them. The goroutine
  of a connection may take a message although the connection is being closed: \<open>select\<close> picks any case.
\<close>

datatype lm_event = Connects string string | Sends nat bytes | Puts | Takes nat | Moves nat | Shuts nat | Confirms |
  ReceivesOn nat | Closes nat | Stops | Listens string nat | Unlistens string

inductive lm_step :: "lm_event \<Rightarrow> LocalManager \<Rightarrow> LocalManager \<Rightarrow> bool" where
  listen: "lm_lock lm = Free \<Longrightarrow> lm_step (Listens a fn) lm (setListening a fn lm)"
| unlisten: "lm_lock lm = Free \<Longrightarrow> lm_step (Unlistens a) lm (unsetListening a lm)"
| connect: "lm_lock lm = Free \<Longrightarrow> lm_connect a b lm = (r, lm') \<Longrightarrow> lm_step (Connects a b) lm lm'"
| send: "lm_lock lm = Free \<Longrightarrow> k < length (lm_objs lm) \<Longrightarrow>
    lm_send (lc_remote (lm_objs lm ! k)) b
      (set_conn k ((lm_objs lm ! k)\<lparr>lc_count := updateTx (word_of_nat (length b)) (lc_count (lm_objs lm ! k))\<rparr>) lm) = (err, lm') \<Longrightarrow>
    lm_step (Sends k b) lm lm'"
| put: "lm_lock lm = Sending q b \<Longrightarrow> c = lm_objs lm ! q \<Longrightarrow> length (lc_in c) < LocalMaxBuffer \<Longrightarrow>
    lm_step Puts lm ((set_conn q (c\<lparr>lc_in := lc_in c @ [b], lc_accepted := lc_accepted c @ [b]\<rparr>) lm)\<lparr>lm_lock := Free\<rparr>)"
| take_msg: "k < length (lm_objs lm) \<Longrightarrow> c = lm_objs lm ! k \<Longrightarrow> lc_mover c = Selecting \<Longrightarrow> lc_in c = b # bs \<Longrightarrow>
    lm_step (Takes k) lm (set_conn k (c\<lparr>lc_in := bs, lc_mover := Moving b\<rparr>) lm)"
| move: "k < length (lm_objs lm) \<Longrightarrow> c = lm_objs lm ! k \<Longrightarrow> lc_mover c = Moving b \<Longrightarrow> length (lc_out c) < LocalMaxBuffer \<Longrightarrow>
    lm_step (Moves k) lm (set_conn k (c\<lparr>lc_out := lc_out c @ [b], lc_mover := Selecting\<rparr>) lm)"
| shut: "k < length (lm_objs lm) \<Longrightarrow> c = lm_objs lm ! k \<Longrightarrow> lc_mover c = Selecting \<Longrightarrow> lc_close c \<Longrightarrow>
    lm_step (Shuts k) lm (set_conn k (c\<lparr>lc_mover := Confirming\<rparr>) lm)"
| confirm: "lm_lock lm = Closing (k # ks) \<Longrightarrow> c = lm_objs lm ! k \<Longrightarrow> lc_mover c = Confirming \<Longrightarrow>
    lm_step Confirms lm (start_closing ks ((set_conn k (c\<lparr>lc_mover := Gone\<rparr>) lm)\<lparr>lm_wg := lm_wg lm - 1\<rparr>))"
| receive: "k < length (lm_objs lm) \<Longrightarrow> c = lm_objs lm ! k \<Longrightarrow> lc_out c = b # bs \<Longrightarrow>
    lm_step (ReceivesOn k) lm
      (set_conn k (c\<lparr>lc_out := bs, lc_received := lc_received c @ [b], lc_count := updateRx (word_of_nat (length b)) (lc_count c)\<rparr>) lm)"
| close_conn: "lm_lock lm = Free \<Longrightarrow> k < length (lm_objs lm) \<Longrightarrow> lc_Close k lm = (err, lm') \<Longrightarrow> lm_step (Closes k) lm lm'"
| stop: "lm_lock lm = Free \<Longrightarrow> \<not> lm_stopped lm \<Longrightarrow> lm_step Stops lm (lm\<lparr>lm_stopped := True\<rparr>)"

inductive lm_run :: "lm_event list \<Rightarrow> LocalManager \<Rightarrow> LocalManager \<Rightarrow> bool" where
  run_none: "lm_run [] lm lm"
| run_step: "lm_step e lm lm' \<Longrightarrow> lm_run es lm' lm'' \<Longrightarrow> lm_run (e # es) lm lm''"

abbreviation lm_reachable :: "LocalManager \<Rightarrow> bool" where
  "lm_reachable \<equiv> reachable (\<lambda>lm. lm = NewLocalManager) (\<lambda>lm lm'. \<exists>e. lm_step e lm lm')"

section \<open>Invariants\<close>

definition in_mover :: "mover \<Rightarrow> bytes list" where
  "in_mover m = (case m of Moving b \<Rightarrow> [b] | _ \<Rightarrow> [])"

lemma in_mover_simps [simp]: "in_mover Selecting = []" "in_mover (Moving b) = [b]" "in_mover Confirming = []" "in_mover Gone = []"
  by (simp_all add: in_mover_def)

definition conn_ok :: "LocalConn \<Rightarrow> bool" where
  "conn_ok c \<longleftrightarrow> lc_accepted c = lc_received c @ lc_out c @ in_mover (lc_mover c) @ lc_in c \<and>
    length (lc_in c) \<le> LocalMaxBuffer \<and> length (lc_out c) \<le> LocalMaxBuffer \<and> lc_local c \<noteq> lc_remote c \<and>
    (\<not> lc_close c \<longrightarrow> lc_mover c \<noteq> Confirming \<and> lc_mover c \<noteq> Gone)"

definition lock_ok :: "LocalManager \<Rightarrow> bool" where
  "lock_ok lm \<longleftrightarrow>
    (case lm_lock lm of
       Free \<Rightarrow> True
     | Sending q b \<Rightarrow> q < length (lm_objs lm) \<and> \<not> lc_close (lm_objs lm ! q)
     | Closing ks \<Rightarrow> (\<exists>k ks'. ks = k # ks' \<and> distinct ks \<and> (\<forall>r \<in> set ks. r < length (lm_objs lm) \<and> r \<notin> ran (lm_conns lm)) \<and>
         lc_close (lm_objs lm ! k) \<and> lc_mover (lm_objs lm ! k) \<noteq> Gone \<and> (\<forall>r \<in> set ks'. \<not> lc_close (lm_objs lm ! r))))"

definition local_inv :: "LocalManager \<Rightarrow> bool" where
  "local_inv lm \<longleftrightarrow> (\<forall>e k. lm_conns lm e = Some k \<longrightarrow> k < length (lm_objs lm) \<and> lc_local (lm_objs lm ! k) = e \<and> \<not> lc_close (lm_objs lm ! k)) \<and>
    (\<forall>c \<in> set (lm_objs lm). conn_ok c) \<and> lock_ok lm"

lemma set_conn_fields [simp]:
  "lm_conns (set_conn k c lm) = lm_conns lm" "lm_objs (set_conn k c lm) = (lm_objs lm)[k := c]"
  "lm_lock (set_conn k c lm) = lm_lock lm" "lm_stopped (set_conn k c lm) = lm_stopped lm"
  "lm_listening (set_conn k c lm) = lm_listening lm"
  by (simp_all add: set_conn_def)

text \<open>A connection may change as long as it stays open or closed, and its goroutine does not leave.\<close>

lemma local_inv_set_conn:
  assumes "local_inv lm" and "k < length (lm_objs lm)" and "conn_ok c" and "lc_local c = lc_local (lm_objs lm ! k)"
    and "lc_close c = lc_close (lm_objs lm ! k)" and "lc_mover c = Gone \<longrightarrow> lc_mover (lm_objs lm ! k) = Gone"
  shows "local_inv (set_conn k c lm)"
proof -
  have "\<forall>c' \<in> set ((lm_objs lm)[k := c]). conn_ok c'"
    using assms(1,3) set_update_subset_insert [of "lm_objs lm" k c] by (auto simp: local_inv_def)
  moreover have "lock_ok (set_conn k c lm)"
    using assms(1,2,5,6) by (auto simp: local_inv_def lock_ok_def nth_list_update split: held_lock.splits)
  ultimately show ?thesis using assms by (auto simp: local_inv_def nth_list_update)
qed

lemma conn_okI: "local_inv lm \<Longrightarrow> k < length (lm_objs lm) \<Longrightarrow> conn_ok (lm_objs lm ! k)"
  by (auto simp: local_inv_def)

lemma conns_inv: "local_inv lm \<Longrightarrow> lm_conns lm e = Some k \<Longrightarrow>
    k < length (lm_objs lm) \<and> lc_local (lm_objs lm ! k) = e \<and> \<not> lc_close (lm_objs lm ! k)"
  unfolding local_inv_def by blast

lemma local_inv_lock: "local_inv lm \<Longrightarrow> lock_ok (lm\<lparr>lm_lock := l\<rparr>) \<Longrightarrow> local_inv (lm\<lparr>lm_lock := l\<rparr>)"
  by (simp add: local_inv_def)

lemma local_inv_send:
  assumes "local_inv lm" and "lm_send e b lm = (err, lm')"
  shows "local_inv lm'"
proof (cases "lm_conns lm e")
  case (Some q)
  then have "lm' = lm\<lparr>lm_lock := Sending q b\<rparr>" using assms(2) by (simp add: lm_send_def)
  then show ?thesis using conns_inv [OF assms(1) Some] local_inv_lock [OF assms(1)] by (simp add: lock_ok_def)
qed (use assms in \<open>simp add: lm_send_def\<close>)

lemma local_inv_connect:
  assumes "local_inv lm" and "lm_lock lm = Free" and "lm_connect a b lm = (r, lm')"
  shows "local_inv lm'"
proof -
  let ?o = "(a, lm_counter lm)" let ?i = "(b, lm_counter lm + 1)" let ?n = "length (lm_objs lm)"
  have f: "lc_local (newLocalConn x y) = x" "\<not> lc_close (newLocalConn x y)" and
    ok: "x \<noteq> y \<Longrightarrow> conn_ok (newLocalConn x y)" for x y by (simp_all add: conn_ok_def newLocalConn_def)
  show ?thesis
  proof (cases "lm_stopped lm \<or> lm_listening lm b = None")
    case True
    then show ?thesis using assms(1,3) by (auto simp: lm_connect_def split: if_splits)
  next
    case False
    then have l: "lm_objs lm' = lm_objs lm @ [newLocalConn ?o ?i, newLocalConn ?i ?o]"
      "lm_conns lm' = (lm_conns lm)(?o \<mapsto> ?n, ?i \<mapsto> Suc ?n)" "lm_lock lm' = Free"
      using assms(2,3) by (auto simp: lm_connect_def Let_def)
    have "k < length (lm_objs lm') \<and> lc_local (lm_objs lm' ! k) = e \<and> \<not> lc_close (lm_objs lm' ! k)"
      if "lm_conns lm' e = Some k" for e k
      using that conns_inv [OF assms(1), of e k] unfolding l(1,2) by (auto simp: f nth_append split: if_splits)
    moreover have "\<forall>c \<in> set (lm_objs lm'). conn_ok c" using assms(1) ok unfolding l(1) by (auto simp: local_inv_def)
    ultimately show ?thesis using l(3) unfolding local_inv_def lock_ok_def by simp
  qed
qed

lemma start_closing_inv:
  assumes "local_inv lm" and "distinct ks" and "\<forall>r \<in> set ks. r < length (lm_objs lm) \<and> r \<notin> ran (lm_conns lm) \<and> \<not> lc_close (lm_objs lm ! r)"
  shows "local_inv (start_closing ks lm)"
proof (cases ks)
  case Nil
  then show ?thesis using assms(1) by (simp add: start_closing_def local_inv_def lock_ok_def)
next
  case (Cons k ks')
  let ?c = "(lm_objs lm ! k)\<lparr>lc_close := True\<rparr>"
  have k: "k < length (lm_objs lm)" "k \<notin> ran (lm_conns lm)" "\<not> lc_close (lm_objs lm ! k)" using assms(3) Cons by auto
  have ok: "conn_ok (lm_objs lm ! k)" using conn_okI [OF assms(1) k(1)] .
  then have "conn_ok ?c" by (simp add: conn_ok_def)
  then have "\<forall>c' \<in> set ((lm_objs lm)[k := ?c]). conn_ok c'"
    using assms(1) set_update_subset_insert [of "lm_objs lm" k ?c] by (auto simp: local_inv_def)
  moreover have "lc_mover (lm_objs lm ! k) \<noteq> Gone" using ok k(3) by (simp add: conn_ok_def)
  moreover have "\<forall>e j. lm_conns lm e = Some j \<longrightarrow> j \<noteq> k" using k(2) by (auto simp: ran_def)
  ultimately show ?thesis
    using assms Cons k by (auto simp: start_closing_def local_inv_def lock_ok_def nth_list_update)
qed

lemma local_inv_close:
  assumes "local_inv lm" and "lm_lock lm = Free" and "k < length (lm_objs lm)" and "lc_Close k lm = (err, lm')"
  shows "local_inv lm'"
proof (cases "lc_close (lm_objs lm ! k) \<or> lm_conns lm (lc_local (lm_objs lm ! k)) = None")
  case True
  then show ?thesis using assms by (auto simp: lc_Close_def lm_close_def Let_def split: if_splits)
next
  case False
  let ?c = "lm_objs lm ! k" let ?l = "lc_local ?c" and ?r = "lc_remote ?c"
  have ne: "?l \<noteq> ?r" using conn_okI [OF assms(1,3)] by (simp add: conn_ok_def)
  note conns = conns_inv [OF assms(1)]
  have sub: "local_inv (lm\<lparr>lm_conns := m\<rparr>)" if "\<And>e j. m e = Some j \<Longrightarrow> lm_conns lm e = Some j" for m
    using assms(1,2) that conns by (simp add: local_inv_def lock_ok_def del: split_paired_All) blast
  show ?thesis
  proof (cases "lm_conns lm ?r")
    case None
    have "lm' = start_closing [k] (lm\<lparr>lm_conns := (lm_conns lm)(?l := None)\<rparr>)"
      using False None assms(4) by (auto simp: lc_Close_def lm_close_def Let_def split: if_splits)
    moreover have "k \<notin> ran ((lm_conns lm)(?l := None))" using conns by (auto simp: ran_def)
    ultimately show ?thesis using False assms(3) by (auto intro!: start_closing_inv sub split: if_splits)
  next
    case (Some q)
    have "lm' = start_closing [k, q] (lm\<lparr>lm_conns := (lm_conns lm)(?l := None, ?r := None)\<rparr>)"
      using False Some ne assms(4) by (auto simp: lc_Close_def lm_close_def Let_def split: if_splits)
    moreover have "k \<noteq> q" using conns [OF Some] ne by auto
    moreover have "k \<notin> ran ((lm_conns lm)(?l := None, ?r := None))" "q \<notin> ran ((lm_conns lm)(?l := None, ?r := None))"
      using conns conns [OF Some] by (auto simp: ran_def split: if_splits)
    ultimately show ?thesis using False assms(3) conns [OF Some] by (auto intro!: start_closing_inv sub split: if_splits)
  qed
qed

lemma local_inv_step: "lm_step e lm lm' \<Longrightarrow> local_inv lm \<Longrightarrow> local_inv lm'"
proof (induction rule: lm_step.induct)
  case (listen lm a fn)
  then show ?case by (simp add: setListening_def local_inv_def lock_ok_def)
next
  case (unlisten lm a)
  then show ?case by (simp add: unsetListening_def local_inv_def lock_ok_def)
next
  case (connect lm a b r lm')
  then show ?case using local_inv_connect by blast
next
  case (send lm k b err lm')
  have "conn_ok ((lm_objs lm ! k)\<lparr>lc_count := updateTx (word_of_nat (length b)) (lc_count (lm_objs lm ! k))\<rparr>)"
    using conn_okI [OF send.prems send.hyps(2)] by (simp add: conn_ok_def)
  then have "local_inv (set_conn k ((lm_objs lm ! k)\<lparr>lc_count := updateTx (word_of_nat (length b)) (lc_count (lm_objs lm ! k))\<rparr>) lm)"
    by (rule local_inv_set_conn [OF send.prems send.hyps(2)]) simp_all
  then show ?case using send.hyps(3) by (rule local_inv_send)
next
  case (put lm q b c)
  have q: "q < length (lm_objs lm)" using put by (simp add: local_inv_def lock_ok_def)
  have "conn_ok (c\<lparr>lc_in := lc_in c @ [b], lc_accepted := lc_accepted c @ [b]\<rparr>)"
    using conn_okI [OF put.prems q] put.hyps(2,3) by (simp add: conn_ok_def)
  then have "local_inv (set_conn q (c\<lparr>lc_in := lc_in c @ [b], lc_accepted := lc_accepted c @ [b]\<rparr>) lm)"
    by (rule local_inv_set_conn [OF put.prems q]) (simp_all add: put.hyps(2))
  then show ?case by (rule local_inv_lock) (simp add: lock_ok_def)
next
  case (take_msg k lm c b bs)
  then show ?case by (intro local_inv_set_conn) (use conn_okI [OF take_msg.prems take_msg.hyps(1)] in \<open>auto simp: conn_ok_def\<close>)
next
  case (move k lm c b)
  then show ?case by (intro local_inv_set_conn) (use conn_okI [OF move.prems move.hyps(1)] in \<open>auto simp: conn_ok_def\<close>)
next
  case (shut k lm c)
  then show ?case by (intro local_inv_set_conn) (use conn_okI [OF shut.prems shut.hyps(1)] in \<open>auto simp: conn_ok_def\<close>)
next
  case (confirm lm k ks c)
  let ?lm = "set_conn k (c\<lparr>lc_mover := Gone\<rparr>) lm"
  have L: "k < length (lm_objs lm)" "k \<notin> set ks" "distinct ks" "lc_close c"
    "\<forall>r \<in> set ks. r < length (lm_objs lm) \<and> r \<notin> ran (lm_conns lm) \<and> \<not> lc_close (lm_objs lm ! r)"
    using confirm by (auto simp: local_inv_def lock_ok_def)
  have "conn_ok (c\<lparr>lc_mover := Gone\<rparr>)" using conn_okI [OF confirm.prems L(1)] confirm.hyps(2,3) L(4) by (simp add: conn_ok_def)
  then have "\<forall>c' \<in> set ((lm_objs lm)[k := c\<lparr>lc_mover := Gone\<rparr>]). conn_ok c'"
    using confirm.prems set_update_subset_insert [of "lm_objs lm" k "c\<lparr>lc_mover := Gone\<rparr>"] by (auto simp: local_inv_def)
  moreover have "j < length (lm_objs ?lm) \<and> lc_local (lm_objs ?lm ! j) = e \<and> \<not> lc_close (lm_objs ?lm ! j)"
    if "lm_conns lm e = Some j" for e j
    using conns_inv [OF confirm.prems that] L(4) confirm.hyps(2) by (cases "j = k") simp_all
  ultimately have i: "local_inv (?lm\<lparr>lm_wg := lm_wg lm - 1, lm_lock := Free\<rparr>)"
    unfolding local_inv_def lock_ok_def by simp
  have "start_closing ks (?lm\<lparr>lm_wg := lm_wg lm - 1\<rparr>) = start_closing ks (?lm\<lparr>lm_wg := lm_wg lm - 1, lm_lock := Free\<rparr>)"
    by (simp add: start_closing_def set_conn_def split: list.split)
  moreover have "local_inv (start_closing ks (?lm\<lparr>lm_wg := lm_wg lm - 1, lm_lock := Free\<rparr>))"
    by (rule start_closing_inv [OF i L(3)]) (use L(1,2,5) in \<open>auto simp: nth_list_update\<close>)
  ultimately show ?case by simp
next
  case (receive k lm c b bs)
  then show ?case by (intro local_inv_set_conn) (use conn_okI [OF receive.prems receive.hyps(1)] in \<open>auto simp: conn_ok_def\<close>)
next
  case (close_conn lm k err lm')
  then show ?case using local_inv_close by blast
next
  case (stop lm)
  then show ?case by (simp add: local_inv_def lock_ok_def)
qed

lemma local_inv_start: "local_inv NewLocalManager"
  by (simp add: local_inv_def NewLocalManager_def lock_ok_def)

interpretation local_net: invariant_system "\<lambda>lm. lm = NewLocalManager" "\<lambda>lm lm'. \<exists>e. lm_step e lm lm'" local_inv
  by unfold_locales (use local_inv_start local_inv_step in blast)+

lemma start_closing_objs [simp]:
  "length (lm_objs (start_closing ks lm)) = length (lm_objs lm)"
  "lc_in (lm_objs (start_closing ks lm) ! k) = lc_in (lm_objs lm ! k)"
  "lc_out (lm_objs (start_closing ks lm) ! k) = lc_out (lm_objs lm ! k)"
  "lc_mover (lm_objs (start_closing ks lm) ! k) = lc_mover (lm_objs lm ! k)"
  by (cases ks; cases "hd ks < length (lm_objs lm)"; auto simp: start_closing_def nth_list_update list_update_beyond)+

lemma local_inv_run: "lm_run es lm lm' \<Longrightarrow> local_inv lm \<Longrightarrow> local_inv lm'"
  by (induction rule: lm_run.induct) (auto intro: local_inv_step)

lemma lc_Close_objs:
  assumes "lc_Close k lm = (err, lm')"
  shows "length (lm_objs lm') = length (lm_objs lm)" "lc_in (lm_objs lm' ! j) = lc_in (lm_objs lm ! j)"
    "lc_mover (lm_objs lm' ! j) = lc_mover (lm_objs lm ! j)"
  using assms by (auto simp: lc_Close_def lm_close_def Let_def split: if_splits option.splits)

lemma gone_step:
  "lm_step e lm lm' \<Longrightarrow> local_inv lm \<Longrightarrow> k < length (lm_objs lm) \<Longrightarrow> lc_mover (lm_objs lm ! k) = Gone \<Longrightarrow>
    k < length (lm_objs lm') \<and> lc_mover (lm_objs lm' ! k) = Gone \<and> lc_in (lm_objs lm' ! k) = lc_in (lm_objs lm ! k)"
proof (induction rule: lm_step.induct)
  case (put lm q b c)
  have "q < length (lm_objs lm)" "\<not> lc_close (lm_objs lm ! q)" using put by (simp_all add: local_inv_def lock_ok_def)
  then have "q \<noteq> k" using conn_okI [OF put.prems(1)] put.prems(3) by (auto simp: conn_ok_def)
  then show ?case using put.prems by simp
next
  case (close_conn lm j err lm')
  then show ?case using lc_Close_objs [OF close_conn.hyps(3)] by simp
next
  case (confirm lm j ks c)
  then have "j \<noteq> k" by auto
  then show ?case using confirm.prems by simp
qed (auto simp: lm_connect_def lm_send_def Let_def nth_append nth_list_update setListening_def unsetListening_def
    split: if_splits option.splits)

lemma gone_run:
  "lm_run es lm lm' \<Longrightarrow> lc_mover (lm_objs lm ! k) = Gone \<Longrightarrow> local_inv lm \<Longrightarrow> k < length (lm_objs lm) \<Longrightarrow>
    lc_in (lm_objs lm' ! k) = lc_in (lm_objs lm ! k)"
proof (induction rule: lm_run.induct)
  case (run_step e lm lm' es lm'')
  with gone_step [OF run_step.hyps(1) run_step.prems(2,3,1)] local_inv_step show ?case by metis
qed simp

text \<open>
  C20: a connection of the local network keeps its messages in order, whatever runs beside it: what it took
  in are, in this order, the messages handed to the receiver, those in its outgoing queue, the one its
  goroutine holds, and those in its incoming queue, of which there are at most 200 each. Once the
  connection is closed the incoming ones stay where they are: messages that \<open>Send\<close> has accepted are lost.
\<close>

theorem local_messages_in_order:
  assumes "lm_reachable lm" and "k < length (lm_objs lm)"
  shows "(let c = lm_objs lm ! k in
     lc_accepted c = lc_received c @ lc_out c @ in_mover (lc_mover c) @ lc_in c \<and>
     length (lc_out c) \<le> LocalMaxBuffer \<and> length (lc_in c) \<le> LocalMaxBuffer \<and>
     (lc_mover c = Gone \<longrightarrow> (\<forall>es lm'. lm_run es lm lm' \<longrightarrow> lc_in (lm_objs lm' ! k) = lc_in c)))"
proof -
  have inv: "local_inv lm" using assms(1) by (rule local_net.reachable_inv)
  note ok = conn_okI [OF inv assms(2)]
  have "lc_in (lm_objs lm' ! k) = lc_in (lm_objs lm ! k)"
    if "lm_run es lm lm'" "lc_mover (lm_objs lm ! k) = Gone" for es lm'
    using that inv assms(2) by (rule gone_run)
  with ok show ?thesis by (simp add: conn_ok_def Let_def)
qed

section \<open>Stuck locks\<close>

text \<open>A goroutine that cannot go on before somebody receives from its connection.\<close>

definition clogged :: "nat \<Rightarrow> LocalManager \<Rightarrow> bool" where
  "clogged k lm \<longleftrightarrow> (\<exists>b. lc_mover (lm_objs lm ! k) = Moving b) \<and> length (lc_out (lm_objs lm ! k)) = LocalMaxBuffer"

definition stuck :: "LocalManager \<Rightarrow> bool" where
  "stuck lm \<longleftrightarrow>
    (case lm_lock lm of
       Free \<Rightarrow> False
     | Sending q b \<Rightarrow> clogged q lm \<and> length (lc_in (lm_objs lm ! q)) = LocalMaxBuffer
     | Closing ks \<Rightarrow> \<exists>q \<in> set ks. clogged q lm)"

definition no_receive :: "lm_event list \<Rightarrow> bool" where
  "no_receive es \<longleftrightarrow> (\<forall>k. ReceivesOn k \<notin> set es)"

lemma clogged_set_conn: "q \<noteq> k \<Longrightarrow> clogged q (set_conn k c lm) = clogged q lm"
  by (simp add: clogged_def)

lemma clogged_lock [simp]: "clogged q (lm\<lparr>lm_lock := l\<rparr>) = clogged q lm" "clogged q (lm\<lparr>lm_wg := n\<rparr>) = clogged q lm"
  "clogged q (start_closing ks lm) = clogged q lm"
  by (simp_all add: clogged_def)

lemma start_closing_lock: "lm_lock (start_closing ks lm) = (if ks = [] then Free else Closing ks)"
  by (cases ks) (simp_all add: start_closing_def)

lemma stuck_start_closing: "stuck (start_closing ks lm) \<longleftrightarrow> (\<exists>q \<in> set ks. clogged q lm)"
  by (simp add: stuck_def start_closing_lock)

lemma stuck_set_conn:
  assumes "stuck lm" and "\<not> clogged k lm"
  shows "stuck (set_conn k c lm)"
proof (cases "lm_lock lm")
  case (Sending q b)
  then have "q \<noteq> k" using assms by (auto simp: stuck_def)
  then show ?thesis using assms(1) Sending by (simp add: stuck_def clogged_set_conn)
next
  case (Closing ks)
  then obtain q where "q \<in> set ks" "clogged q lm" "q \<noteq> k" using assms by (auto simp: stuck_def)
  then show ?thesis using Closing clogged_set_conn [of q k c lm] by (auto simp: stuck_def)
qed (use assms in \<open>simp add: stuck_def\<close>)

lemma stuck_step: "lm_step e lm lm' \<Longrightarrow> stuck lm \<Longrightarrow> (\<And>k. e \<noteq> ReceivesOn k) \<Longrightarrow> stuck lm'"
proof (induction rule: lm_step.induct)
  case (take_msg k lm c b bs)
  then show ?case by (intro stuck_set_conn) (auto simp: clogged_def)
next
  case (move k lm c b)
  then show ?case by (intro stuck_set_conn) (auto simp: clogged_def)
next
  case (shut k lm c)
  then show ?case by (intro stuck_set_conn) (auto simp: clogged_def)
next
  case (confirm lm k ks c)
  have "\<not> clogged k lm" using confirm.hyps by (simp add: clogged_def)
  then obtain q where q: "q \<in> set ks" "q \<noteq> k" "clogged q lm" using confirm by (auto simp: stuck_def)
  then have "clogged q (set_conn k (c\<lparr>lc_mover := Gone\<rparr>) lm)" by (simp add: clogged_set_conn)
  then show ?case using q(1) unfolding stuck_start_closing by auto
qed (auto simp: stuck_def)

lemma stuck_run: "lm_run es lm lm' \<Longrightarrow> no_receive es \<Longrightarrow> stuck lm \<Longrightarrow> stuck lm'"
proof (induction rule: lm_run.induct)
  case (run_step e lm lm' es lm'')
  then have "\<And>k. e \<noteq> ReceivesOn k" "no_receive es" by (auto simp: no_receive_def)
  then show ?case using run_step stuck_step by blast
qed

lemma run_append: "lm_run es lm lm' \<Longrightarrow> lm_run es' lm' lm'' \<Longrightarrow> lm_run (es @ es') lm lm''"
  by (induction rule: lm_run.induct) (auto intro: lm_run.intros)

lemma run_one: "lm_step e lm lm' \<Longrightarrow> lm_run [e] lm lm'"
  by (auto intro: lm_run.intros)

text \<open>A goroutine that is not clogged gets back to its \<open>select\<close>.\<close>

lemma back_to_select:
  assumes "k < length (lm_objs lm)" and "\<not> clogged k lm" and "conn_ok (lm_objs lm ! k)"
    and "lc_mover (lm_objs lm ! k) = Moving b \<or> lc_mover (lm_objs lm ! k) = Selecting"
  shows "\<exists>es c. lm_run es lm (set_conn k c lm) \<and> no_receive es \<and> lc_mover c = Selecting \<and> lc_close c = lc_close (lm_objs lm ! k) \<and>
    lc_in c = lc_in (lm_objs lm ! k)"
proof (cases "lc_mover (lm_objs lm ! k) = Selecting")
  case True
  then show ?thesis
    by (intro exI [of _ "[]"] exI [of _ "lm_objs lm ! k"]) (simp add: no_receive_def set_conn_def run_none)
next
  case False
  then have m: "lc_mover (lm_objs lm ! k) = Moving b" using assms(4) by simp
  then have "length (lc_out (lm_objs lm ! k)) < LocalMaxBuffer" using assms(2,3) by (auto simp: clogged_def conn_ok_def)
  from run_one [OF lm_step.move [OF assms(1) refl m this]] show ?thesis
    by (intro exI [of _ "[Moves k]"] exI conjI, assumption) (simp_all add: no_receive_def)
qed

lemma set_conn_again [simp]: "set_conn k c (set_conn k c' lm) = set_conn k c lm"
  by (simp add: set_conn_def)

lemma sending_ends:
  assumes "local_inv lm" and "lm_lock lm = Sending q b" and "\<not> stuck lm"
  shows "\<exists>es lm'. lm_run es lm lm' \<and> no_receive es \<and> lm_lock lm' = Free"
proof -
  have q: "q < length (lm_objs lm)" "\<not> lc_close (lm_objs lm ! q)" using assms(1,2) by (simp_all add: local_inv_def lock_ok_def)
  have ok: "conn_ok (lm_objs lm ! q)" by (rule conn_okI [OF assms(1) q(1)])
  have put: "\<exists>lm2. lm_step Puts lm1 lm2 \<and> lm_lock lm2 = Free"
    if "lm_lock lm1 = Sending q b" "length (lc_in (lm_objs lm1 ! q)) < LocalMaxBuffer" for lm1
    using lm_step.put [OF that(1) refl that(2)] by (intro exI conjI, assumption) simp
  show ?thesis
  proof (cases "length (lc_in (lm_objs lm ! q)) < LocalMaxBuffer")
    case True
    from put [OF assms(2) this] show ?thesis using run_one by (fastforce simp: no_receive_def)
  next
    case False
    then have full: "length (lc_in (lm_objs lm ! q)) = LocalMaxBuffer" using ok by (simp add: conn_ok_def)
    then have "\<not> clogged q lm" using assms(2,3) by (simp add: stuck_def)
    moreover have "lc_mover (lm_objs lm ! q) = Selecting \<or> (\<exists>m. lc_mover (lm_objs lm ! q) = Moving m)"
      using ok q(2) by (cases "lc_mover (lm_objs lm ! q)") (auto simp: conn_ok_def)
    ultimately obtain es c where r: "lm_run es lm (set_conn q c lm)" "no_receive es" "lc_mover c = Selecting" "lc_in c = lc_in (lm_objs lm ! q)"
      using back_to_select [OF q(1) _ ok] by metis
    have "lc_in c \<noteq> []" using full r(4) by (auto simp: LocalMaxBuffer_def)
    then obtain m ms where m: "lc_in c = m # ms" by (meson list.exhaust)
    let ?c = "c\<lparr>lc_in := ms, lc_mover := Moving m\<rparr>"
    have "lm_step (Takes q) (set_conn q c lm) (set_conn q ?c lm)"
      using lm_step.take_msg [of q "set_conn q c lm" c m ms] q(1) r(3) m by simp
    moreover have "length (m # ms) = LocalMaxBuffer" using full r(4) m by metis
    then have "length ms < LocalMaxBuffer" by simp
    with put [of "set_conn q ?c lm"] obtain lm2 where "lm_step Puts (set_conn q ?c lm) lm2" "lm_lock lm2 = Free"
      using assms(2) q(1) by auto
    ultimately have "lm_run (es @ [Takes q, Puts]) lm lm2" by (intro run_append [OF r(1)]) (auto intro: lm_run.intros)
    then show ?thesis using r(2) \<open>lm_lock lm2 = Free\<close> by (intro exI [of _ "es @ [Takes q, Puts]"] exI [of _ lm2]) (simp add: no_receive_def)
  qed
qed

lemma head_confirms:
  assumes "local_inv lm" and "lm_lock lm = Closing (k # ks)" and "\<not> clogged k lm"
  shows "\<exists>es c. lm_run es lm (set_conn k c lm) \<and> no_receive es \<and> lc_mover c = Confirming"
proof -
  have k: "k < length (lm_objs lm)" "lc_close (lm_objs lm ! k)" "lc_mover (lm_objs lm ! k) \<noteq> Gone"
    using assms(1,2) by (simp_all add: local_inv_def lock_ok_def)
  show ?thesis
  proof (cases "lc_mover (lm_objs lm ! k) = Confirming")
    case True
    then show ?thesis by (intro exI [of _ "[]"] exI [of _ "lm_objs lm ! k"]) (simp add: no_receive_def set_conn_def run_none)
  next
    case False
    then have "lc_mover (lm_objs lm ! k) = Selecting \<or> (\<exists>m. lc_mover (lm_objs lm ! k) = Moving m)"
      using k(3) by (cases "lc_mover (lm_objs lm ! k)") auto
    with back_to_select [OF k(1) assms(3) conn_okI [OF assms(1) k(1)]] obtain es c where
      r: "lm_run es lm (set_conn k c lm)" "no_receive es" "lc_mover c = Selecting" "lc_close c" using k(2) by metis
    have "lm_step (Shuts k) (set_conn k c lm) (set_conn k (c\<lparr>lc_mover := Confirming\<rparr>) lm)"
      using lm_step.shut [of k "set_conn k c lm" c] k(1) r(3,4) by simp
    from run_append [OF r(1) run_one [OF this]] show ?thesis
      by (rule_tac exI, rule_tac exI, rule_tac conjI, assumption) (use r(2) in \<open>simp add: no_receive_def\<close>)
  qed
qed

lemma closing_ends:
  "local_inv lm \<Longrightarrow> lm_lock lm = Closing ks \<Longrightarrow> \<forall>q \<in> set ks. \<not> clogged q lm \<Longrightarrow>
    \<exists>es lm'. lm_run es lm lm' \<and> no_receive es \<and> lm_lock lm' = Free"
proof (induction ks arbitrary: lm)
  case Nil
  then show ?case by (simp add: local_inv_def lock_ok_def)
next
  case (Cons k ks)
  obtain es c where r: "lm_run es lm (set_conn k c lm)" "no_receive es" "lc_mover c = Confirming"
    using head_confirms [OF Cons.prems(1,2)] Cons.prems(3) by auto
  have k: "k < length (lm_objs lm)" "k \<notin> set ks" using Cons.prems(1,2) by (simp_all add: local_inv_def lock_ok_def)
  let ?lm = "start_closing ks ((set_conn k (c\<lparr>lc_mover := Gone\<rparr>) lm)\<lparr>lm_wg := lm_wg lm - 1\<rparr>)"
  have s: "lm_step Confirms (set_conn k c lm) ?lm"
    using lm_step.confirm [of "set_conn k c lm" k ks c] Cons.prems(2) k(1) r(3) by (simp add: set_conn_def)
  have run: "lm_run (es @ [Confirms]) lm ?lm" by (rule run_append [OF r(1) run_one [OF s]])
  have nr: "no_receive (es @ [Confirms])" using r(2) by (simp add: no_receive_def)
  show ?case
  proof (cases ks)
    case Nil
    then have "lm_lock ?lm = Free" by (simp add: start_closing_def)
    then show ?thesis using run nr by blast
  next
    case (Cons k' ks')
    then have "lm_lock ?lm = Closing ks" by (simp add: start_closing_def)
    moreover have "\<forall>q \<in> set ks. \<not> clogged q ?lm"
    proof
      fix q assume "q \<in> set ks"
      then have "q \<noteq> k" "\<not> clogged q lm" using k(2) Cons.prems(3) by auto
      then show "\<not> clogged q ?lm" by (simp add: clogged_set_conn)
    qed
    ultimately obtain es' lm' where "lm_run es' ?lm lm'" "no_receive es'" "lm_lock lm' = Free"
      using Cons.IH local_inv_run [OF run Cons.prems(1)] by blast
    then show ?thesis using run_append [OF run] nr
      by (intro exI [of _ "(es @ [Confirms]) @ es'"] exI [of _ lm']) (auto simp: no_receive_def)
  qed
qed

text \<open>
  C19: when the manager of the local network has its lock for a \<open>send\<close> or a \<open>close\<close>, it gets rid of it without
  the help of a receiver exactly when it is not stuck: a send is stuck when both queues of the connection
  are full and its goroutine holds one more message, a close already when the outgoing queue is full and
  the goroutine holds a message, for either end. As every operation of every connection needs this lock,
  201 messages that nobody has received, and the closing of their connection, stop the whole network.
\<close>

theorem local_lock_released_iff:
  assumes "lm_reachable lm" and "lm_lock lm \<noteq> Free"
  shows "(\<exists>es lm'. lm_run es lm lm' \<and> (\<forall>k. ReceivesOn k \<notin> set es) \<and> lm_lock lm' = Free) \<longleftrightarrow> \<not> stuck lm"
proof
  assume "\<exists>es lm'. lm_run es lm lm' \<and> (\<forall>k. ReceivesOn k \<notin> set es) \<and> lm_lock lm' = Free"
  then obtain es lm' where "lm_run es lm lm'" "no_receive es" "lm_lock lm' = Free" by (auto simp: no_receive_def)
  then show "\<not> stuck lm" using stuck_run by (force simp: stuck_def)
next
  assume n: "\<not> stuck lm"
  have inv: "local_inv lm" using assms(1) by (rule local_net.reachable_inv)
  have "\<exists>es lm'. lm_run es lm lm' \<and> no_receive es \<and> lm_lock lm' = Free"
  proof (cases "lm_lock lm")
    case (Sending q b)
    then show ?thesis using sending_ends inv n by blast
  next
    case (Closing ks)
    then show ?thesis using closing_ends [OF inv] n by (auto simp: stuck_def)
  qed (use assms(2) in simp)
  then show "\<exists>es lm'. lm_run es lm lm' \<and> (\<forall>k. ReceivesOn k \<notin> set es) \<and> lm_lock lm' = Free" by (simp add: no_receive_def)
qed

text \<open>A connection with unread messages, none of which is received.\<close>

definition fill :: "nat \<Rightarrow> LocalManager" where
  "fill n = \<lparr>lm_conns = [(''a'', 0) \<mapsto> 0, (''b'', 1) \<mapsto> 1],
     lm_objs = [(newLocalConn (''a'', 0) (''b'', 1))\<lparr>lc_count := \<lparr>cs_tx = word_of_nat n, cs_rx = 0\<rparr>\<rparr>,
       (newLocalConn (''b'', 1) (''a'', 0))\<lparr>lc_out := replicate n [1], lc_accepted := replicate n [1]\<rparr>],
     lm_listening = [''b'' \<mapsto> 0], lm_counter = 2, lm_stopped = False, lm_wg = 2, lm_started = [(0, 1)], lm_lock = Free\<rparr>"

definition fill_put :: "nat \<Rightarrow> LocalManager" where
  "fill_put n = (set_conn 1 ((lm_objs (fill n) ! 1)\<lparr>lc_mover := Moving [1], lc_accepted := replicate (Suc n) [1]\<rparr>)
     (set_conn 0 ((lm_objs (fill n) ! 0)\<lparr>lc_count := \<lparr>cs_tx = word_of_nat (Suc n), cs_rx = 0\<rparr>\<rparr>) (fill n)))"

lemma lm_step_reachable: "lm_reachable lm \<Longrightarrow> lm_step e lm lm' \<Longrightarrow> lm_reachable lm'"
  by (rule next_step) blast+

lemma fill_put_reachable:
  assumes "lm_reachable (fill n)"
  shows "lm_reachable (fill_put n)"
proof -
  let ?c0 = "(lm_objs (fill n) ! 0)\<lparr>lc_count := \<lparr>cs_tx = word_of_nat (Suc n), cs_rx = 0\<rparr>\<rparr>" and ?c1 = "lm_objs (fill n) ! 1"
  let ?lm0 = "set_conn 0 ?c0 (fill n)"
  let ?lm1 = "?lm0\<lparr>lm_lock := Sending 1 [1]\<rparr>"
  let ?lm2 = "(set_conn 1 (?c1\<lparr>lc_in := [[1]], lc_accepted := replicate n [1] @ [[1]]\<rparr>) ?lm1)\<lparr>lm_lock := Free\<rparr>"
  have "lm_step (Sends 0 [1]) (fill n) ?lm1"
    by (rule lm_step.send [where err = None])
      (simp_all add: fill_def lm_send_def newLocalConn_def updateTx_def set_conn_def add.commute)
  with assms have 1: "lm_reachable ?lm1" by (rule lm_step_reachable)
  have "lm_step Puts ?lm1 ?lm2"
    using lm_step.put [of ?lm1 1 "[1]" ?c1] by (simp add: fill_def newLocalConn_def LocalMaxBuffer_def)
  with 1 have 2: "lm_reachable ?lm2" by (rule lm_step_reachable)
  have "lm_step (Takes 1) ?lm2 (fill_put n)"
    using lm_step.take_msg [of 1 ?lm2 "lm_objs ?lm2 ! 1" "[1]" "[]"]
    by (simp add: fill_def fill_put_def newLocalConn_def set_conn_def replicate_append_same)
  with 2 show ?thesis by (rule lm_step_reachable)
qed

lemma fill_reachable: "n \<le> LocalMaxBuffer \<Longrightarrow> lm_reachable (fill n)"
proof (induction n)
  case 0
  let ?lm = "setListening ''b'' 0 NewLocalManager"
  have "lm_reachable NewLocalManager" by (rule at_start) simp
  then have "lm_reachable ?lm" by (rule lm_step_reachable [OF _ lm_step.listen]) (simp add: NewLocalManager_def)
  then show ?case
    by (rule lm_step_reachable [OF _ lm_step.connect [of _ "''a''" "''b''" "Inr 0"]])
      (simp_all add: lm_connect_def fill_def NewLocalManager_def setListening_def newLocalConn_def Let_def)
next
  case (Suc n)
  have "lm_step (Moves 1) (fill_put n) (fill (Suc n))"
    using lm_step.move [of 1 "fill_put n" "lm_objs (fill_put n) ! 1" "[1]"] Suc.prems
    by (simp add: fill_def fill_put_def newLocalConn_def set_conn_def replicate_append_same)
  then show ?case using fill_put_reachable Suc lm_step_reachable by (metis Suc_leD)
qed

lemma local_messages_in_order_witness:
  "lc_accepted (lm_objs (fill 3) ! 1) = lc_received (lm_objs (fill 3) ! 1) @ lc_out (lm_objs (fill 3) ! 1) \<and> length (lc_out (lm_objs (fill 3) ! 1)) = 3"
proof -
  have "lm_reachable (fill 3)" by (rule fill_reachable) (simp add: LocalMaxBuffer_def)
  from local_messages_in_order [OF this, of 1] show ?thesis by (simp add: fill_def newLocalConn_def Let_def)
qed

text \<open>Closing a connection with 201 unread messages.\<close>

lemma local_lock_released_iff_witness:
  "\<exists>lm. lm_reachable lm \<and> lm_lock lm = Closing [0, 1] \<and>
    \<not> (\<exists>es lm'. lm_run es lm lm' \<and> (\<forall>k. ReceivesOn k \<notin> set es) \<and> lm_lock lm' = Free)"
proof -
  let ?f = "fill_put LocalMaxBuffer"
  define lm where "lm = snd (lc_Close 0 ?f)"
  have "lm_reachable ?f" by (intro fill_put_reachable fill_reachable) simp
  moreover have "lm_step (Closes 0) ?f lm"
    by (rule lm_step.close_conn [of _ _ "fst (lc_Close 0 ?f)"]) (simp_all add: lm_def fill_put_def fill_def)
  ultimately have r: "lm_reachable lm" by (rule lm_step_reachable)
  have l: "lm_lock lm = Closing [0, 1]"
    by (simp add: lm_def lc_Close_def lm_close_def Let_def fill_put_def fill_def newLocalConn_def start_closing_lock)
  have "clogged 1 lm"
    by (simp add: lm_def lc_Close_def lm_close_def Let_def fill_put_def fill_def newLocalConn_def clogged_def)
  then have "stuck lm" using l by (simp add: stuck_def)
  then show ?thesis using local_lock_released_iff [OF r] l r by (intro exI [of _ lm]) auto
qed

end
