(* ===== verification/NetHost.thy ===== *)
theory NetHost
  imports NetLocal
begin

text \<open>
  Hosts: how connections are opened and awaited, over the local network (\<open>onet/network/local.go\<close>) and over
  TCP (\<open>onet/network/tcp.go\<close>). Dialling a TCP address and opening its socket are answers of the operating
  system; TLS is a parameter.
\<close>

section \<open>Trying again\<close>

definition MaxRetryConnect :: nat where
  "MaxRetryConnect = 5"

text \<open>\<open>None\<close>: the answers end before the loop does.\<close>

fun retry :: "nat \<Rightarrow> (string + 'c) list \<Rightarrow> (string + 'c) option" where
  "retry 0 answers = Some (Inl ''Could not connect'')"
| "retry (Suc n) [] = None"
| "retry (Suc n) (Inr c # answers) = Some (Inr c)"
| "retry (Suc n) (Inl e # answers) = (if n = 0 then Some (Inl (''connect: '' @ e)) else retry n answers)"

section \<open>The local network\<close>

text \<open>\<open>lms\<close> are the states in which the manager is found at each try.\<close>

definition NewLocalConnWithManager :: "string \<Rightarrow> string \<Rightarrow> LocalManager list \<Rightarrow> (string + nat) option" where
  "NewLocalConnWithManager local remote lms = retry MaxRetryConnect (map (\<lambda>lm. fst (lm_connect local remote lm)) lms)"

record LocalListener =
  ll_addr :: string
  ll_listening :: bool
  ll_quit :: bool

definition NewLocalListenerWithManager :: "string \<Rightarrow> LocalManager \<Rightarrow> string + LocalListener" where
  "NewLocalListenerWithManager addr lm =
    (if ConnType addr \<noteq> Local then Inl ''Wrong address type for local listener''
     else if isListening addr lm then Inl ''already listening: can not listen again''
     else Inr \<lparr>ll_addr = addr, ll_listening = False, ll_quit = False\<rparr>)"

text \<open>\<open>Listen\<close> up to its wait for \<open>quit\<close>, which \<open>Stop\<close> closes.\<close>

definition ll_Listen :: "nat \<Rightarrow> LocalListener \<Rightarrow> LocalManager \<Rightarrow> string option \<times> LocalListener \<times> LocalManager" where
  "ll_Listen fn ll lm =
    (if ll_listening ll then (Some ''Already listening'', ll, lm)
     else (None, ll\<lparr>ll_quit := False, ll_listening := True\<rparr>, setListening (ll_addr ll) fn lm))"

definition ll_Stop :: "LocalListener \<Rightarrow> LocalManager \<Rightarrow> LocalListener \<times> LocalManager" where
  "ll_Stop ll lm =
    (if \<not> ll_listening ll then (ll, lm)
     else (ll\<lparr>ll_quit := True, ll_listening := False\<rparr>, unsetListening (ll_addr ll) lm))"

definition NewLocalHostWithManager :: "string \<Rightarrow> LocalManager \<Rightarrow> string + LocalListener" where
  "NewLocalHostWithManager addr lm = (case NewLocalListenerWithManager addr lm of Inl e \<Rightarrow> Inl (''local host: '' @ e) | Inr ll \<Rightarrow> Inr ll)"

text \<open>
  The outer loop around \<open>NewLocalConnWithManager\<close>: for each round the managers its tries find, and whether
  the manager's \<open>stopping\<close> is closed before the wait is over.
\<close>

fun host_rounds :: "nat \<Rightarrow> string \<Rightarrow> string \<Rightarrow> (LocalManager list \<times> bool) list \<Rightarrow> (string + nat) option" where
  "host_rounds 0 local remote rounds = None"
| "host_rounds (Suc n) local remote [] = None"
| "host_rounds (Suc n) local remote ((lms, stopping) # rounds) =
    (case NewLocalConnWithManager local remote lms of
       None \<Rightarrow> None
     | Some (Inr k) \<Rightarrow> Some (Inr k)
     | Some (Inl e) \<Rightarrow>
         if stopping \<or> n = 0 then Some (Inl (''local connection: '' @ e)) else host_rounds n local remote rounds)"

definition LocalHost_Connect :: "string \<Rightarrow> string \<Rightarrow> (LocalManager list \<times> bool) list \<Rightarrow> (string + nat) option" where
  "LocalHost_Connect local remote rounds =
    (if ConnType remote \<noteq> Local then Some (Inl ''Can not connect to non-Local address'')
     else host_rounds MaxRetryConnect local remote rounds)"

definition NewLocalAddress :: "string \<Rightarrow> string" where
  "NewLocalAddress addr = NewAddress Local addr"

section \<open>TCP\<close>

definition NewTCPAddress :: "string \<Rightarrow> string" where
  "NewTCPAddress addr = NewAddress PlainTCP addr"

text \<open>The loop of \<open>NewTCPConn\<close>, from the given try on, with what it writes before an error.\<close>

fun dial_loop :: "string \<Rightarrow> nat \<Rightarrow> (string + 'c) list \<Rightarrow> (string + 'c) option" where
  "dial_loop pre i answers =
    (if i > MaxRetryConnect then None
     else case answers of
       [] \<Rightarrow> None
     | Inr c # _ \<Rightarrow> Some (Inr c)
     | Inl e # rest \<Rightarrow> if i = MaxRetryConnect then Some (Inl (pre @ e)) else dial_loop pre (Suc i) rest)"

declare dial_loop.simps [simp del]

definition NewTCPConn :: "(string \<Rightarrow> (string + 'c) list) \<Rightarrow> string \<Rightarrow> (string + 'c) option" where
  "NewTCPConn dial addr = dial_loop '': dial: '' 1 (dial (NetworkAddress addr))"

definition TCPHost_Connect :: "(string \<Rightarrow> (string + 'c) list) \<Rightarrow> (string \<Rightarrow> (string + 'c) option) \<Rightarrow> string \<Rightarrow> (string + 'c) option" where
  "TCPHost_Connect dial tlsConn addr =
    (let t = ConnType addr in
     if t = PlainTCP then NewTCPConn dial addr
     else if t = TLS then tlsConn addr
     else if t = InvalidConnType then Some (Inl ''This address is not correctly formatted'')
     else Some (Inl ''TCPHost can not handle this type of connection''))"

text \<open>
  A listener: its channel \<open>quit\<close> by the number of times it was made, the loops of \<open>listen\<close>, and a \<open>Stop\<close>
  that waits for \<open>quitListener\<close> with the lock held.
\<close>

datatype accept_loop = Accepting | Quitting | Ended

record TCPListener =
  tl_conntype :: string
  tl_addr :: string
  tl_open :: bool
  tl_quit :: nat
  tl_quit_closed :: bool
  tl_listening :: bool
  tl_closed :: bool
  tl_loops :: "accept_loop list"
  tl_waiting :: bool
  tl_accepted :: nat

definition NewTCPListenerWithListenAddr :: "(string \<Rightarrow> (string + string) list) \<Rightarrow> string \<Rightarrow> string \<Rightarrow> (string + TCPListener) option" where
  "NewTCPListenerWithListenAddr listen addr listenAddr =
    (if ConnType addr \<noteq> PlainTCP \<and> ConnType addr \<noteq> TLS then Some (Inl ''TCPListener can only listen on TCP and TLS addresses'')
     else case getListenAddress addr listenAddr of
       Inl e \<Rightarrow> Some (Inl (''listener: '' @ e))
     | Inr listenOn \<Rightarrow>
         (case retry MaxRetryConnect (listen listenOn) of
            None \<Rightarrow> None
          | Some (Inl e) \<Rightarrow> Some (Inl (''Error opening listener: '' @ e))
          | Some (Inr a) \<Rightarrow> Some (Inr
              \<lparr>tl_conntype = ConnType addr, tl_addr = a, tl_open = True, tl_quit = 0, tl_quit_closed = False, tl_listening = False,
               tl_closed = False, tl_loops = [], tl_waiting = False, tl_accepted = 0\<rparr>)))"

text \<open>The end of \<open>Stop\<close>: \<open>quit\<close> is made anew.\<close>

definition stop_ends :: "TCPListener \<Rightarrow> TCPListener" where
  "stop_ends t = t\<lparr>tl_quit := Suc (tl_quit t), tl_quit_closed := False, tl_listening := False, tl_closed := True, tl_waiting := False\<rparr>"

inductive tl_step :: "TCPListener \<Rightarrow> TCPListener \<Rightarrow> bool" where
  listen: "\<not> tl_waiting t \<Longrightarrow> \<not> tl_closed t \<Longrightarrow> tl_step t (t\<lparr>tl_listening := True, tl_loops := tl_loops t @ [Accepting]\<rparr>)"
| accept: "i < length (tl_loops t) \<Longrightarrow> tl_loops t ! i = Accepting \<Longrightarrow> tl_open t \<Longrightarrow> tl_step t (t\<lparr>tl_accepted := Suc (tl_accepted t)\<rparr>)"
| accept_fails: "i < length (tl_loops t) \<Longrightarrow> tl_loops t ! i = Accepting \<Longrightarrow>
    tl_step t (if tl_quit_closed t then t\<lparr>tl_loops := (tl_loops t)[i := Quitting]\<rparr> else t)"
| stop: "\<not> tl_waiting t \<Longrightarrow>
    tl_step t (let t1 = t\<lparr>tl_open := False, tl_quit_closed := True\<rparr> in if tl_listening t then t1\<lparr>tl_waiting := True\<rparr> else stop_ends t1)"
| quit: "tl_waiting t \<Longrightarrow> i < length (tl_loops t) \<Longrightarrow> tl_loops t ! i = Quitting \<Longrightarrow>
    tl_step t (stop_ends (t\<lparr>tl_loops := (tl_loops t)[i := Ended]\<rparr>))"

text \<open>\<open>Stop\<close> waits for one loop: of several calls of \<open>Listen\<close> it ends one, the others stay for good.\<close>

definition live_loops :: "TCPListener \<Rightarrow> nat" where
  "live_loops t = length (filter (\<lambda>l. l \<noteq> Ended) (tl_loops t))"

definition listener_inv :: "TCPListener \<Rightarrow> bool" where
  "listener_inv t \<longleftrightarrow> (tl_listening t \<longleftrightarrow> tl_loops t \<noteq> [] \<and> \<not> tl_closed t) \<and> (tl_waiting t \<longrightarrow> tl_listening t \<and> tl_quit_closed t) \<and>
    live_loops t = (if tl_closed t then length (tl_loops t) - 1 else length (tl_loops t))"

lemma live_loops_update:
  assumes "i < length ls" and "ls ! i \<noteq> Ended"
  shows "length (filter (\<lambda>l. l \<noteq> Ended) (ls[i := l])) = length (filter (\<lambda>l. l \<noteq> Ended) ls) - (if l = Ended then 1 else 0)"
proof -
  have "filter (\<lambda>l. l \<noteq> Ended) ls = filter (\<lambda>l. l \<noteq> Ended) (take i ls) @ ls ! i # filter (\<lambda>l. l \<noteq> Ended) (drop (Suc i) ls)"
    using assms by (subst id_take_nth_drop [OF assms(1)]) simp
  then show ?thesis using assms(1) by (simp add: upd_conv_take_nth_drop)
qed

lemma listener_inv_step: "tl_step t t' \<Longrightarrow> listener_inv t \<Longrightarrow> listener_inv t'"
proof (induction rule: tl_step.induct)
  case (accept_fails i t)
  then show ?case using live_loops_update [of i "tl_loops t" Quitting] by (auto simp: listener_inv_def live_loops_def)
next
  case (quit t i)
  then show ?case using live_loops_update [of i "tl_loops t" Ended] by (auto simp: listener_inv_def live_loops_def stop_ends_def)
qed (auto simp: listener_inv_def live_loops_def stop_ends_def Let_def)

lemma listener_start: "NewTCPListenerWithListenAddr listen addr listenAddr = Some (Inr t) \<Longrightarrow> listener_inv t"
  by (auto simp: NewTCPListenerWithListenAddr_def listener_inv_def live_loops_def split: if_splits sum.splits option.splits)

interpretation listener: invariant_system
  "\<lambda>t. \<exists>listen addr listenAddr. NewTCPListenerWithListenAddr listen addr listenAddr = Some (Inr t)" tl_step listener_inv
  by unfold_locales (use listener_start listener_inv_step in blast)+

lemma stopped_listener_loops:
  assumes "reachable (\<lambda>t. \<exists>listen addr listenAddr. NewTCPListenerWithListenAddr listen addr listenAddr = Some (Inr t)) tl_step t"
    and "tl_closed t"
  shows "(\<forall>l \<in> set (tl_loops t). l = Ended) \<longleftrightarrow> length (tl_loops t) \<le> 1"
proof -
  have "live_loops t = length (tl_loops t) - 1" using listener.reachable_inv [OF assms(1)] assms(2) by (simp add: listener_inv_def)
  moreover have "(\<forall>l \<in> set (tl_loops t). l = Ended) \<longleftrightarrow> live_loops t = 0" by (auto simp: live_loops_def filter_empty_conv)
  ultimately show ?thesis by linarith
qed

end
