(* ===== verification/NetTls.thy ===== *)
theory NetTls
  imports NetHost
begin

text \<open>
  Connections over TLS (\<open>onet/network/tls.go\<close>): a self-signed certificate that is made for a nonce of the
  peer, with a signature by the server's key in an extension, and the verifier that decides whether the
  peer is the expected one. Kyber's group and Schnorr signatures are parameters; of X.509 a certificate
  keeps the fields the code reads.
\<close>

section \<open>Encodings\<close>

definition hex_char :: "nat \<Rightarrow> char" where
  "hex_char n = ''0123456789abcdef'' ! n"

definition hex_encode :: "bytes \<Rightarrow> string" where
  "hex_encode bs = concat (map (\<lambda>b. [hex_char (unat b div 16), hex_char (unat b mod 16)]) bs)"

definition bytes_of :: "string \<Rightarrow> bytes" where
  "bytes_of s = map of_char s"

definition string_of :: "bytes \<Rightarrow> string" where
  "string_of b = map (\<lambda>x. char_of (unat x)) b"

text \<open>\<open>asn1.Marshal\<close> of a string: a PrintableString, or else a UTF8String when it is one.\<close>

definition printable :: "char \<Rightarrow> bool" where
  "printable c =
    (let n = of_char c :: nat in
     97 \<le> n \<and> n \<le> 122 \<or> 65 \<le> n \<and> n \<le> 90 \<or> 48 \<le> n \<and> n \<le> 57 \<or> 39 \<le> n \<and> n \<le> 41 \<or> 43 \<le> n \<and> n \<le> 47 \<or>
     n = 32 \<or> n = 58 \<or> n = 61 \<or> n = 63)"

definition continuation :: "nat \<Rightarrow> bool" where
  "continuation n \<longleftrightarrow> 128 \<le> n \<and> n \<le> 191"

fun utf8_valid :: "nat list \<Rightarrow> bool" where
  "utf8_valid [] = True"
| "utf8_valid (a # s) =
    (if a < 128 then utf8_valid s
     else if 194 \<le> a \<and> a \<le> 223 then (case s of b # s' \<Rightarrow> continuation b \<and> utf8_valid s' | _ \<Rightarrow> False)
     else if 224 \<le> a \<and> a \<le> 239 then
       (case s of b # c # s' \<Rightarrow> continuation b \<and> (a = 224 \<longrightarrow> 160 \<le> b) \<and> (a = 237 \<longrightarrow> b \<le> 159) \<and> continuation c \<and> utf8_valid s'
        | _ \<Rightarrow> False)
     else if 240 \<le> a \<and> a \<le> 244 then
       (case s of b # c # d # s' \<Rightarrow> continuation b \<and> (a = 240 \<longrightarrow> 144 \<le> b) \<and> (a = 244 \<longrightarrow> b \<le> 143) \<and> continuation c \<and> continuation d \<and> utf8_valid s'
        | _ \<Rightarrow> False)
     else False)"

fun byte_count :: "nat \<Rightarrow> nat" where
  "byte_count n = (if n < 256 then 1 else Suc (byte_count (n div 256)))"

declare byte_count.simps [simp del]

definition der_length :: "nat \<Rightarrow> bytes" where
  "der_length n = (if n < 128 then [word_of_nat n] else word_of_nat (128 + byte_count n) # be_bytes (byte_count n) n)"

definition asn1_string :: "string \<Rightarrow> bytes option" where
  "asn1_string s =
    (if list_all printable s then Some (19 # der_length (length s) @ bytes_of s)
     else if utf8_valid (map of_char s) then Some (12 # der_length (length s) @ bytes_of s)
     else None)"

section \<open>Keys in certificates\<close>

text \<open>
  \<open>su_unmarshalFrom\<close> reads a point off the start of a buffer, \<open>su_hexPoint\<close> is \<open>encoding.StringHexToPoint\<close>,
  \<open>su_sign\<close> and \<open>su_verify\<close> are Schnorr signatures, \<open>su_public\<close> is the public key of a private one.
\<close>

record ('p, 's) tls_suite =
  su_bytes :: "'p \<Rightarrow> bytes"
  su_unmarshalFrom :: "bytes \<Rightarrow> 'p option"
  su_hexPoint :: "string \<Rightarrow> 'p option"
  su_sign :: "'s \<Rightarrow> bytes \<Rightarrow> bytes option"
  su_verify :: "'p \<Rightarrow> bytes \<Rightarrow> bytes \<Rightarrow> bool"
  su_public :: "'s \<Rightarrow> 'p"

definition tls_laws :: "('p, 's) tls_suite \<Rightarrow> bool" where
  "tls_laws su \<longleftrightarrow>
    (\<forall>p r. su_unmarshalFrom su (su_bytes su p @ r) = Some p) \<and>
    (\<forall>s m. \<exists>sig. su_sign su s m = Some sig \<and> su_verify su (su_public su s) m sig)"

definition pubToCN :: "('p, 's) tls_suite \<Rightarrow> 'p \<Rightarrow> string" where
  "pubToCN su pub = CHR ''Z'' # hex_encode (su_bytes su pub)"

definition pubFromCN :: "('p, 's) tls_suite \<Rightarrow> string \<Rightarrow> string + 'p" where
  "pubFromCN su cn =
    (case cn of
       [] \<Rightarrow> Inl ''commonName is missing a type byte''
     | tp # rest \<Rightarrow>
         if tp = CHR ''Z'' then
           (case hex_decode rest of
              None \<Rightarrow> Inl ''decoding key: ''
            | Some buf \<Rightarrow> (case su_unmarshalFrom su buf of None \<Rightarrow> Inl ''unmarshaling: '' | Some pub \<Rightarrow> Inr pub))
         else (case su_hexPoint su cn of None \<Rightarrow> Inl ''encoding key: '' | Some pub \<Rightarrow> Inr pub))"

section \<open>Making a certificate\<close>

definition nonceSize :: nat where
  "nonceSize = 256 div 8"

definition oidDedisSig :: "nat list" where
  "oidDedisSig = [1, 3, 6, 1, 4, 1, 51281, 1, 1]"

text \<open>\<open>ct_key\<close> is the key of the TLS connection, \<open>ct_ServerAuth\<close> whether the certificate may be used by servers.\<close>

record certificate =
  ct_key :: nat
  ct_SerialNumber :: nat
  ct_CommonName :: string
  ct_URIs :: "(string \<times> string) list"
  ct_Extensions :: "(nat list \<times> bytes) list"
  ct_NotBefore :: int
  ct_NotAfter :: int
  ct_ServerAuth :: bool

record ('p, 's) certMaker =
  cm_Public :: 'p
  cm_private :: "'s option"
  cm_subj :: string
  cm_subjDer :: bytes
  cm_k :: nat

definition newCertMaker :: "('p, 's) tls_suite \<Rightarrow> nat \<Rightarrow> 'p \<Rightarrow> 's option \<Rightarrow> string + ('p, 's) certMaker" where
  "newCertMaker su k pub private =
    (case asn1_string (pubToCN su pub) of
       None \<Rightarrow> Inl ''marshaling: ''
     | Some der \<Rightarrow> Inr \<lparr>cm_Public = pub, cm_private = private, cm_subj = pubToCN su pub, cm_subjDer = der, cm_k = k\<rparr>)"

text \<open>Signing with a nil key panics; only \<open>NewTLSConn\<close> looks whether there is one.\<close>

definition cm_get :: "('p, 's) tls_suite \<Rightarrow> int \<Rightarrow> nat \<Rightarrow> bytes \<Rightarrow> ('p, 's) certMaker \<Rightarrow> fault + certificate" where
  "cm_get su now serial nonce cm =
    (if length nonce \<noteq> nonceSize then Inl (ErrRet ''nonce is the wrong size'')
     else case cm_private cm of
       None \<Rightarrow> Inl NilPanic
     | Some s \<Rightarrow>
         (case su_sign su s (nonce @ cm_subjDer cm) of
            None \<Rightarrow> Inl (ErrRet ''signature verification: '')
          | Some sig \<Rightarrow> Inr
              \<lparr>ct_key = cm_k cm, ct_SerialNumber = serial, ct_CommonName = cm_subj cm,
               ct_URIs = [(''onet-pubkey'', '':'' @ cm_subj cm)], ct_Extensions = [(oidDedisSig, sig)],
               ct_NotBefore = now - 300, ct_NotAfter = now + 7200, ct_ServerAuth = True\<rparr>))"

definition getCertificate :: "('p, 's) tls_suite \<Rightarrow> int \<Rightarrow> nat \<Rightarrow> string \<Rightarrow> ('p, 's) certMaker \<Rightarrow> fault + certificate" where
  "getCertificate su now serial serverName cm = cm_get su now serial (bytes_of serverName) cm"

definition getClientCertificate :: "('p, 's) tls_suite \<Rightarrow> int \<Rightarrow> nat \<Rightarrow> bytes list \<Rightarrow> ('p, 's) certMaker \<Rightarrow> fault + certificate" where
  "getClientCertificate su now serial acceptableCAs cm =
    (case acceptableCAs of
       [] \<Rightarrow> Inl (ErrRet ''server did not provide a nonce in AcceptableCAs'')
     | nonce # _ \<Rightarrow> cm_get su now serial nonce cm)"

section \<open>Nonces\<close>

text \<open>The nonce is drawn until it has none of four characters; \<open>draws\<close> are the draws of the suite's stream.\<close>

definition in_charset :: "char \<Rightarrow> bool" where
  "in_charset c \<longleftrightarrow> c \<in> {CHR ''.'', CHR ''['', CHR '']'', CHR ''%''}"

fun mkNonce :: "nat \<Rightarrow> (nat \<Rightarrow> bytes) \<Rightarrow> nat \<Rightarrow> bytes option" where
  "mkNonce 0 draws i = None"
| "mkNonce (Suc fuel) draws i = (if list_ex in_charset (string_of (draws i)) then mkNonce fuel draws (Suc i) else Some (draws i))"

text \<open>How Go's client sends the name of the server it was given.\<close>

definition hostnameInSNI :: "string \<Rightarrow> string" where
  "hostnameInSNI name =
    (let host = (if name \<noteq> [] \<and> hd name = CHR ''['' \<and> last name = CHR '']'' then butlast (tl name) else name);
         host2 = (case LastIndexByte host (CHR ''%'') of None \<Rightarrow> host | Some i \<Rightarrow> if i > 0 then take i host else host)
     in if ParseIP host2 then [] else rev (dropWhile (\<lambda>c. c = CHR ''.'') (rev name)))"

section \<open>Verifying a certificate\<close>

text \<open>A certificate that is itself the only root is looked at for its dates and its use, not for its signature.\<close>

definition self_verify :: "int \<Rightarrow> certificate \<Rightarrow> bool" where
  "self_verify now c \<longleftrightarrow> ct_NotBefore c \<le> now \<and> now \<le> ct_NotAfter c \<and> ct_ServerAuth c"

definition names_peer :: "('p, 's) tls_suite \<Rightarrow> 'p \<Rightarrow> certificate \<Rightarrow> bool" where
  "names_peer su them c \<longleftrightarrow>
    (if ct_URIs c \<noteq> [] then list_ex (\<lambda>(sch, opaq). sch = ''onet-pubkey'' \<and> opaq = '':'' @ pubToCN su them) (ct_URIs c)
     else ct_CommonName c = pubToCN su them)"

definition check_signature :: "('p, 's) tls_suite \<Rightarrow> bytes \<Rightarrow> certificate \<Rightarrow> string option" where
  "check_signature su nonce c =
    (case find (\<lambda>(i, v). i = oidDedisSig) (ct_Extensions c) of
       None \<Rightarrow> Some ''DEDIS signature not found''
     | Some (i, sig) \<Rightarrow>
         (case pubFromCN su (ct_CommonName c) of
            Inl e \<Rightarrow> Some (''decoding key: '' @ e)
          | Inr pub \<Rightarrow>
              (case asn1_string (ct_CommonName c) of
                 None \<Rightarrow> Some ''marshaling: ''
               | Some subAsn1 \<Rightarrow> if su_verify su pub (nonce @ subAsn1) sig then None else Some ''certificate verification: '')))"

text \<open>
  The verifier of \<open>makeVerifier\<close>: its error, or None when the peer is accepted. \<open>parse\<close> is
  \<open>x509.ParseCertificates\<close>, \<open>them\<close> the key of the server that is called, if one is.
\<close>

definition verifyPeer :: "('p, 's) tls_suite \<Rightarrow> ('r \<Rightarrow> string + certificate list) \<Rightarrow> int \<Rightarrow> 'p option \<Rightarrow> bytes \<Rightarrow> 'r list \<Rightarrow> string option" where
  "verifyPeer su parse now them nonce rawCerts =
    (case rawCerts of
       [r] \<Rightarrow>
         (case parse r of
            Inl e \<Rightarrow> Some e
          | Inr [c] \<Rightarrow>
              if \<not> self_verify now c then Some ''certificate verification: ''
              else if (case them of None \<Rightarrow> False | Some p \<Rightarrow> \<not> names_peer su p c) then
                Some (if ct_URIs c \<noteq> [] then ''No onet-pubkey URIs match'' else ''certificate common-name not expected'')
              else check_signature su nonce c
          | Inr cs \<Rightarrow> Some ''expected exactly one certificate'')
     | _ \<Rightarrow> Some ''expected exactly one certificate'')"

text \<open>
  \<open>dial\<close> gives for an address what its tries come to: an error, or a connection and the certificates of
  the peer, which holds the key of the first one. \<open>us\<close> is the private key.
\<close>

definition NewTLSConn :: "('p, 's) tls_suite \<Rightarrow> ('r \<Rightarrow> string + certificate list) \<Rightarrow> int \<Rightarrow> bytes \<Rightarrow> 's option \<Rightarrow> string \<Rightarrow> 'p \<Rightarrow>
    (string \<Rightarrow> (string + 'r list \<times> 'c) list) \<Rightarrow> (string + 'c) option" where
  "NewTLSConn su parse now nonce us addr them dial =
    (if ConnType addr \<noteq> TLS then Some (Inl ''not a tls server'')
     else case us of
       None \<Rightarrow> Some (Inl ''private key is not set'')
     | Some s \<Rightarrow>
         dial_loop ''dial: '' 1
           (map (\<lambda>a. case a of
                Inl e \<Rightarrow> Inl e
              | Inr (raw, c) \<Rightarrow> (case verifyPeer su parse now (Some them) nonce raw of None \<Rightarrow> Inr c | Some e \<Rightarrow> Inl e))
             (dial (NetworkAddress addr))))"

text \<open>A listener verifies each client with a nonce of its own and accepts any key.\<close>

definition accept_client :: "('p, 's) tls_suite \<Rightarrow> ('r \<Rightarrow> string + certificate list) \<Rightarrow> int \<Rightarrow> bytes \<Rightarrow> 'r list \<Rightarrow> string option" where
  "accept_client su parse now nonce rawCerts = verifyPeer su parse now None nonce rawCerts"

definition NewTLSAddress :: "string \<Rightarrow> string" where
  "NewTLSAddress addr = NewAddress TLS addr"

section \<open>Encodings are read back\<close>

lemma hex_char_ok:
  "n < 16 \<Longrightarrow> is_hex (hex_char n) \<and> hex_digit (hex_char n) = n \<and> printable (hex_char n)"
proof -
  assume "n < 16"
  then have "n \<in> {0, 1, 2, 3, 4, 5, 6, 7, 8, 9, 10, 11, 12, 13, 14, 15}" unfolding insert_iff empty_iff by presburger
  then show ?thesis
    by (elim insertE emptyE) (simp_all add: hex_char_def is_hex_def is_digit_def hex_digit_def to_lower_def printable_def Let_def)
qed

lemma byte_nibbles: "unat (b :: 8 word) div 16 < 16 \<and> unat b mod 16 < 16"
proof -
  have "unat b < 2 ^ LENGTH(8)" by (rule unsigned_less)
  then show ?thesis by (simp add: less_mult_imp_div_less)
qed

lemma hex_roundtrip [simp]: "hex_decode (hex_encode bs) = Some bs"
proof (induction bs)
  case (Cons b bs)
  have "word_of_nat (16 * (unat b div 16) + unat b mod 16) = b" by (simp add: mult.commute)
  then show ?case using Cons hex_char_ok [of "unat b div 16"] hex_char_ok [of "unat b mod 16"] byte_nibbles [of b]
    by (simp add: hex_encode_def)
qed (simp add: hex_encode_def)

lemma hex_printable: "list_all printable (hex_encode bs)"
  by (induction bs) (simp_all add: hex_encode_def hex_char_ok byte_nibbles)

lemma asn1_pubToCN: "\<exists>der. asn1_string (pubToCN su pub) = Some der"
  using hex_printable by (simp add: asn1_string_def pubToCN_def printable_def Let_def)

lemma pub_roundtrip: "tls_laws su \<Longrightarrow> pubFromCN su (pubToCN su pub) = Inr pub"
proof -
  assume "tls_laws su"
  then have "su_unmarshalFrom su (su_bytes su pub @ []) = Some pub" unfolding tls_laws_def by blast
  then show ?thesis by (simp add: pubFromCN_def pubToCN_def)
qed

lemma char_bytes: "bytes_of (string_of b) = b"
proof -
  have "(of_char (char_of (unat x) :: char) :: 8 word) = x" for x :: "8 word"
  proof -
    have "unat x < 2 ^ LENGTH(8)" by (rule unsigned_less)
    then have "(of_char (char_of (unat x) :: char) :: nat) = unat x" by simp
    moreover have "word_of_nat (unat x) = x" by simp
    ultimately show ?thesis by (metis of_nat_of_char)
  qed
  then show ?thesis by (simp add: bytes_of_def string_of_def map_idI)
qed


section \<open>Honest peers\<close>

lemma verifyPeer_None:
  "verifyPeer su parse now them nonce raw = None \<longleftrightarrow>
    (\<exists>r c sig pub der. raw = [r] \<and> parse r = Inr [c] \<and> self_verify now c \<and>
      (case them of None \<Rightarrow> True | Some p \<Rightarrow> names_peer su p c) \<and>
      find (\<lambda>(i, v). i = oidDedisSig) (ct_Extensions c) = Some (oidDedisSig, sig) \<and> pubFromCN su (ct_CommonName c) = Inr pub \<and>
      asn1_string (ct_CommonName c) = Some der \<and> su_verify su pub (nonce @ der) sig)"
proof -
  have sig: "check_signature su nonce c = None \<longleftrightarrow>
    (\<exists>sig pub der. find (\<lambda>(i, v). i = oidDedisSig) (ct_Extensions c) = Some (oidDedisSig, sig) \<and> pubFromCN su (ct_CommonName c) = Inr pub \<and>
      asn1_string (ct_CommonName c) = Some der \<and> su_verify su pub (nonce @ der) sig)" for c
  proof (cases "find (\<lambda>(i, v). i = oidDedisSig) (ct_Extensions c)")
    case (Some x)
    then have "case x of (i, v) \<Rightarrow> i = oidDedisSig" unfolding find_Some_iff by metis
    then have "fst x = oidDedisSig" by (simp add: case_prod_beta)
    then show ?thesis using Some
      by (auto simp: check_signature_def split: sum.splits option.splits if_splits prod.splits)
  qed (simp add: check_signature_def)
  have one: "verifyPeer su parse now them nonce [r] = None \<longleftrightarrow>
    (\<exists>c. parse r = Inr [c] \<and> self_verify now c \<and> (case them of None \<Rightarrow> True | Some p \<Rightarrow> names_peer su p c) \<and> check_signature su nonce c = None)" for r
    by (simp add: verifyPeer_def split: sum.splits list.splits option.splits)
  show ?thesis
  proof (cases raw)
    case (Cons r rs)
    show ?thesis
    proof (cases rs)
      case Nil
      show ?thesis unfolding Cons Nil one sig by blast
    qed (simp add: Cons verifyPeer_def)
  qed (simp add: verifyPeer_def)
qed

lemma cm_get_accepted:
  assumes "tls_laws su" and "newCertMaker su k (su_public su s) (Some s) = Inr cm" and "length nonce = nonceSize"
    and "parse r = Inr [c]" and "cm_get su now serial nonce cm = Inr c" and "them = None \<or> them = Some (su_public su s)"
    and "now - 300 \<le> now'" and "now' \<le> now + 7200"
  shows "verifyPeer su parse now' them nonce [r] = None"
proof -
  obtain der where der: "asn1_string (pubToCN su (su_public su s)) = Some der" using asn1_pubToCN [of su "su_public su s"] by blast
  obtain sig where sig: "su_sign su s (nonce @ der) = Some sig" "su_verify su (su_public su s) (nonce @ der) sig"
    using assms(1) unfolding tls_laws_def by blast
  have c: "c = \<lparr>ct_key = k, ct_SerialNumber = serial, ct_CommonName = pubToCN su (su_public su s),
      ct_URIs = [(''onet-pubkey'', '':'' @ pubToCN su (su_public su s))], ct_Extensions = [(oidDedisSig, sig)],
      ct_NotBefore = now - 300, ct_NotAfter = now + 7200, ct_ServerAuth = True\<rparr>"
    using assms(2,3,5) der sig(1) by (auto simp: newCertMaker_def cm_get_def)
  show ?thesis unfolding verifyPeer_None
    using assms(4,6,7,8) der sig(2) pub_roundtrip [OF assms(1)] by (auto simp: c self_verify_def names_peer_def)
qed

lemma cm_get_returns:
  assumes "tls_laws su" and "newCertMaker su k pub (Some s) = Inr cm" and "length nonce = nonceSize"
  obtains c where "cm_get su now serial nonce cm = Inr c"
proof -
  obtain sig where "su_sign su s (nonce @ cm_subjDer cm) = Some sig" using assms(1) unfolding tls_laws_def by blast
  then show ?thesis using that assms(2,3) by (auto simp: newCertMaker_def cm_get_def split: option.splits)
qed

text \<open>Drawing a nonce ends with the first draw that is free of the four characters, and only with one.\<close>

lemma mkNonce_ends:
  "mkNonce fuel draws i \<noteq> None \<longleftrightarrow> (\<exists>j. i \<le> j \<and> j < i + fuel \<and> \<not> list_ex in_charset (string_of (draws j)))"
proof (induction fuel draws i rule: mkNonce.induct)
  case (2 fuel draws i)
  show ?case
  proof (cases "list_ex in_charset (string_of (draws i))")
    case True
    have "(\<exists>j. i \<le> j \<and> j < i + Suc fuel \<and> \<not> list_ex in_charset (string_of (draws j))) \<longleftrightarrow>
      (\<exists>j. Suc i \<le> j \<and> j < Suc i + fuel \<and> \<not> list_ex in_charset (string_of (draws j)))"
      using True by (metis Suc_leD Suc_leI add_Suc add_Suc_right le_neq_implies_less)
    then show ?thesis using 2 True by simp
  next
    case False
    then show ?thesis by (auto intro: exI [of _ i])
  qed
qed simp

text \<open>A nonce comes through the name of the server, unless it reads as an IP address.\<close>

lemma nonce_survives:
  assumes "mkNonce fuel draws i = Some n" and "\<not> ParseIP (string_of n)"
  shows "hostnameInSNI (string_of n) = string_of n"
proof -
  have "\<not> list_ex in_charset (string_of n)"
    using assms(1) by (induction fuel draws i rule: mkNonce.induct) (auto split: if_splits)
  then have free: "\<forall>c \<in> set (string_of n). c \<noteq> CHR ''.'' \<and> c \<noteq> CHR ''['' \<and> c \<noteq> CHR ''%''"
    by (auto simp: list_ex_iff in_charset_def)
  have h: "(if string_of n \<noteq> [] \<and> hd (string_of n) = CHR ''['' \<and> last (string_of n) = CHR '']'' then butlast (tl (string_of n)) else string_of n) = string_of n"
    using free by (auto dest: list.set_sel(1))
  have last: "c \<notin> set xs \<Longrightarrow> last_index_from j c xs = None" for c xs j
    by (induction xs arbitrary: j) auto
  have p: "LastIndexByte (string_of n) (CHR ''%'') = None"
    unfolding LastIndexByte_def by (rule last) (use free in blast)
  have "dropWhile (\<lambda>c. c = CHR ''.'') (rev (string_of n)) = rev (string_of n)"
    unfolding dropWhile_eq_self_iff using free by (metis hd_in_set set_rev)
  then show ?thesis unfolding hostnameInSNI_def h Let_def p using assms(2) by simp
qed

text \<open>
  C9: two honest servers connect. The nonce the client draws reaches the server, unless it reads as an IP
  address; each side makes a certificate for the other's nonce, and each side's verifier accepts it within
  its dates, the client's with the server's key as the expected one.
\<close>

theorem tls_handshake_completes:
  assumes "tls_laws su" and "\<forall>c. parse (create c) = Inr [c]"
    and "newCertMaker su k (su_public su s) (Some s) = Inr cm" and "newCertMaker su k' (su_public su s') (Some s') = Inr cm'"
    and "mkNonce fuel draws i = Some nonce" and "\<not> ParseIP (string_of nonce)" and "length nonce = nonceSize" and "length nonce' = nonceSize"
  shows "\<exists>server client.
    getCertificate su now serial (hostnameInSNI (string_of nonce)) cm = Inr server \<and>
    verifyPeer su parse now (Some (su_public su s)) nonce [create server] = None \<and>
    getClientCertificate su now serial' [nonce'] cm' = Inr client \<and>
    accept_client su parse now nonce' [create client] = None"
proof -
  obtain server where server: "cm_get su now serial nonce cm = Inr server" by (rule cm_get_returns [OF assms(1,3,7)])
  obtain client where client: "cm_get su now serial' nonce' cm' = Inr client" by (rule cm_get_returns [OF assms(1,4,8)])
  have "verifyPeer su parse now (Some (su_public su s)) nonce [create server] = None"
    using assms(2) by (intro cm_get_accepted [OF assms(1,3,7) _ server]) simp_all
  moreover have "accept_client su parse now nonce' [create client] = None"
    unfolding accept_client_def using assms(2) by (intro cm_get_accepted [OF assms(1,4,8) _ client]) simp_all
  moreover have "getCertificate su now serial (hostnameInSNI (string_of nonce)) cm = Inr server"
    using server by (simp add: getCertificate_def nonce_survives [OF assms(5,6)] char_bytes)
  moreover have "getClientCertificate su now serial' [nonce'] cm' = Inr client" using client by (simp add: getClientCertificate_def)
  ultimately show ?thesis by blast
qed

section \<open>Other peers\<close>

text \<open>
  The signature says nothing about the key of the TLS connection: a certificate with another one is
  accepted just as well, so a man in the middle can pass on the nonce and use the answer.
\<close>

lemma signature_is_transferable:
  "verifyPeer su (\<lambda>r. Inr [r]) now them nonce [c\<lparr>ct_key := k\<rparr>] = verifyPeer su (\<lambda>r. Inr [r]) now them nonce [c]"
proof -
  have e: "ct_CommonName (c\<lparr>ct_key := k\<rparr>) = ct_CommonName c" "ct_URIs (c\<lparr>ct_key := k\<rparr>) = ct_URIs c"
    "ct_Extensions (c\<lparr>ct_key := k\<rparr>) = ct_Extensions c" "ct_NotBefore (c\<lparr>ct_key := k\<rparr>) = ct_NotBefore c"
    "ct_NotAfter (c\<lparr>ct_key := k\<rparr>) = ct_NotAfter c" "ct_ServerAuth (c\<lparr>ct_key := k\<rparr>) = ct_ServerAuth c" by simp_all
  show ?thesis unfolding verifyPeer_def list.case sum.case self_verify_def names_peer_def check_signature_def e ..
qed

text \<open>
  C7: what a connection over TLS proves. A peer whose certificate has no URIs has signed the nonce with the
  key that was expected. But when the certificate has URIs, the expected key is looked for among them and
  the signature is checked with the key of the common name, which need not be the same: whoever has a key
  pair of its own is accepted in place of any server, whatever key its TLS connection has.
\<close>

theorem tls_impostor_accepted:
  assumes "tls_laws su" and "\<forall>c. parse (create c) = Inr [c]" and "ConnType addr = TLS"
  shows "(\<forall>r. verifyPeer su parse now (Some them) nonce [r] = None \<longrightarrow>
      (\<exists>c sig pub der. parse r = Inr [c] \<and> pubFromCN su (ct_CommonName c) = Inr pub \<and> asn1_string (ct_CommonName c) = Some der \<and>
        (oidDedisSig, sig) \<in> set (ct_Extensions c) \<and> su_verify su pub (nonce @ der) sig \<and> (ct_URIs c = [] \<longrightarrow> pub = them))) \<and>
    (\<exists>c. ct_key c = k \<and> ct_CommonName c = pubToCN su (su_public su attacker) \<and>
      (\<forall>conn us rest dial. dial (NetworkAddress addr) = Inr ([create c], conn) # rest \<longrightarrow>
        NewTLSConn su parse now nonce (Some us) addr them dial = Some (Inr conn)))"
proof (intro conjI allI impI)
  fix r assume "verifyPeer su parse now (Some them) nonce [r] = None"
  then obtain c sig pub der where c: "parse r = Inr [c]" "names_peer su them c"
    "find (\<lambda>(i, v). i = oidDedisSig) (ct_Extensions c) = Some (oidDedisSig, sig)" "pubFromCN su (ct_CommonName c) = Inr pub"
    "asn1_string (ct_CommonName c) = Some der" "su_verify su pub (nonce @ der) sig"
    unfolding verifyPeer_None by auto
  have "(oidDedisSig, sig) \<in> set (ct_Extensions c)" using c(3) unfolding find_Some_iff by (metis nth_mem)
  moreover have "ct_URIs c = [] \<longrightarrow> pub = them" using c(2,4) pub_roundtrip [OF assms(1), of them] by (auto simp: names_peer_def)
  ultimately show "\<exists>c sig pub der. parse r = Inr [c] \<and> pubFromCN su (ct_CommonName c) = Inr pub \<and> asn1_string (ct_CommonName c) = Some der \<and>
      (oidDedisSig, sig) \<in> set (ct_Extensions c) \<and> su_verify su pub (nonce @ der) sig \<and> (ct_URIs c = [] \<longrightarrow> pub = them)"
    using c(1,4-6) by blast
next
  let ?cn = "pubToCN su (su_public su attacker)"
  obtain der where der: "asn1_string ?cn = Some der" using asn1_pubToCN [of su "su_public su attacker"] by blast
  obtain sig where sig: "su_verify su (su_public su attacker) (nonce @ der) sig"
    using assms(1) unfolding tls_laws_def by blast
  define c where "c = \<lparr>ct_key = k, ct_SerialNumber = 1, ct_CommonName = ?cn, ct_URIs = [(''onet-pubkey'', '':'' @ pubToCN su them)],
    ct_Extensions = [(oidDedisSig, sig)], ct_NotBefore = now, ct_NotAfter = now, ct_ServerAuth = True\<rparr>"
  have "verifyPeer su parse now (Some them) nonce [create c] = None"
    unfolding verifyPeer_None using assms(2) der sig pub_roundtrip [OF assms(1)] by (simp add: c_def self_verify_def names_peer_def)
  then have conn: "dial (NetworkAddress addr) = Inr ([create c], conn) # rest \<Longrightarrow>
      NewTLSConn su parse now nonce (Some us) addr them dial = Some (Inr conn)" for conn us rest dial
    using assms(3) by (simp add: NewTLSConn_def dial_loop.simps MaxRetryConnect_def)
  show "\<exists>c. ct_key c = k \<and> ct_CommonName c = ?cn \<and>
      (\<forall>conn us rest dial. dial (NetworkAddress addr) = Inr ([create c], conn) # rest \<longrightarrow>
        NewTLSConn su parse now nonce (Some us) addr them dial = Some (Inr conn))"
    by (intro exI [of _ c] conjI allI impI conn) (simp_all add: c_def)
qed


definition sample_tls :: "(8 word, 8 word) tls_suite" where
  "sample_tls = \<lparr>su_bytes = (\<lambda>p. [p]), su_unmarshalFrom = (\<lambda>b. if b = [] then None else Some (hd b)), su_hexPoint = Map.empty,
     su_sign = (\<lambda>s m. Some [s]), su_verify = (\<lambda>p m sig. sig = [p]), su_public = (\<lambda>s. s)\<rparr>"

lemma sample_tls_laws: "tls_laws sample_tls"
  by (simp add: tls_laws_def sample_tls_def)

lemma sample_nonce:
  "mkNonce 1 (\<lambda>i. replicate 32 65) 0 = Some (replicate 32 65)" "\<not> ParseIP (string_of (replicate 32 65))"
  by code_simp+

lemma sample_address: "ConnType (NewAddress TLS (JoinHostPort ''192.168.1.10'' ''5678'')) = TLS"
  using address_roundtrip_witness by (simp only: Let_def)

lemma tls_handshake_completes_witness:
  "\<exists>cm server. newCertMaker sample_tls 2 7 (Some 7) = Inr cm \<and>
    getCertificate sample_tls 0 1 (hostnameInSNI (string_of (replicate 32 65))) cm = Inr server \<and>
    verifyPeer sample_tls (\<lambda>c. Inr [c]) 0 (Some 7) (replicate 32 65) [server] = None"
proof -
  obtain cm where cm: "newCertMaker sample_tls 2 7 (Some 7) = Inr cm"
    using asn1_pubToCN [of sample_tls 7] by (auto simp: newCertMaker_def)
  have p: "su_public sample_tls s = s" for s by (simp add: sample_tls_def)
  have "\<exists>server client.
    getCertificate sample_tls 0 1 (hostnameInSNI (string_of (replicate 32 65))) cm = Inr server \<and>
    verifyPeer sample_tls (\<lambda>c. Inr [c]) 0 (Some (su_public sample_tls 7)) (replicate 32 65) [server] = None \<and>
    getClientCertificate sample_tls 0 2 [replicate 32 66] cm = Inr client \<and>
    accept_client sample_tls (\<lambda>c. Inr [c]) 0 (replicate 32 66) [client] = None"
    by (rule tls_handshake_completes [where create = "\<lambda>c. c" and s = 7 and s' = 7 and k = 2 and k' = 2, OF sample_tls_laws _ _ _ sample_nonce])
      (simp_all add: p cm nonceSize_def)
  then show ?thesis using cm unfolding p by blast
qed

lemma tls_impostor_accepted_witness:
  "\<exists>c. ct_CommonName c = pubToCN sample_tls 9 \<and>
    NewTLSConn sample_tls (\<lambda>r. Inr [r]) 0 (replicate 32 65) (Some 1) (NewAddress TLS (JoinHostPort ''192.168.1.10'' ''5678'')) 7 (\<lambda>a. [Inr ([c], True)]) = Some (Inr True)"
proof -
  have p: "su_public sample_tls 9 = 9" by (simp add: sample_tls_def)
  let ?addr = "NewAddress TLS (JoinHostPort ''192.168.1.10'' ''5678'')"
  have "\<exists>c. ct_key c = 3 \<and> ct_CommonName c = pubToCN sample_tls (su_public sample_tls 9) \<and>
      (\<forall>(conn :: bool) us rest dial. dial (NetworkAddress ?addr) = Inr ([c], conn) # rest \<longrightarrow>
        NewTLSConn sample_tls (\<lambda>r. Inr [r]) 0 (replicate 32 65) (Some us) ?addr 7 dial = Some (Inr conn))"
    by (rule tls_impostor_accepted [where create = "\<lambda>c. c", OF sample_tls_laws _ sample_address, THEN conjunct2]) simp
  then obtain c where c: "ct_CommonName c = pubToCN sample_tls (su_public sample_tls 9)"
    "\<And>(conn :: bool) us rest dial. dial (NetworkAddress ?addr) = Inr ([c], conn) # rest \<Longrightarrow>
        NewTLSConn sample_tls (\<lambda>r. Inr [r]) 0 (replicate 32 65) (Some us) ?addr 7 dial = Some (Inr conn)" by blast
  have "NewTLSConn sample_tls (\<lambda>r. Inr [r]) 0 (replicate 32 65) (Some 1) ?addr 7 (\<lambda>a. [Inr ([c], True)]) = Some (Inr True)"
    by (rule c(2)) (rule refl)
  then show ?thesis using c(1) unfolding p by blast
qed

end
