(* ===== verification/OnetWire.thy ===== *)
theory OnetWire
  imports OnetOverlay NetEncoding
begin

text \<open>
  What goes over the wire between overlays, and the tables a server looks protocols up in: the default
  message proxy and \<open>Process\<close> (\<open>onet/overlay.go\<close>, with the messages of \<open>onet/messages.go\<close>), the store of
  message proxies and the registry of protocols (\<open>onet/protocol.go\<close>).
\<close>

section \<open>The default wire format\<close>

record TreeNodeInfo =
  ti_To :: "Token option"
  ti_From :: "Token option"

record 'p OverlayMsg =
  om_TreeNodeInfo :: "TreeNodeInfo option"
  om_RequestRoster :: "uuid option"
  om_Roster :: "'p ORoster option"
  om_RequestTree :: "(uuid \<times> u32) option"
  om_ResponseTree :: "(TreeMarshal option \<times> 'p ORoster option) option"
  om_TreeMarshal :: "TreeMarshal option"
  om_Config :: "GenericConfig option"

definition empty_OverlayMsg :: "'p OverlayMsg" where
  "empty_OverlayMsg = \<lparr>om_TreeNodeInfo = None, om_RequestRoster = None, om_Roster = None, om_RequestTree = None,
     om_ResponseTree = None, om_TreeMarshal = None, om_Config = None\<rparr>"

text \<open>A message on the wire: a protocol's, whose body is marshalled, one of the overlay's, or any other.\<close>

datatype 'p wire =
    WProtocol "Token option" "Token option" "GenericConfig option" bytes uuid
  | WRequestTree uuid u32
  | WResponseTree "TreeMarshal option" "'p ORoster option"
  | WTreeMarshal TreeMarshal
  | WRequestRoster uuid
  | WRoster "'p ORoster"
  | WOther

definition default_Wrap :: "'c crypto \<Rightarrow> 'm codec \<Rightarrow> typeRegistry \<Rightarrow> 'm option \<Rightarrow> 'p OverlayMsg \<Rightarrow> fault + 'p wire" where
  "default_Wrap c cd reg msg info =
    (case msg of
       Some m \<Rightarrow>
         (case Marshal c cd reg m of
            Inl e \<Rightarrow> Inl (ErrRet e)
          | Inr buff \<Rightarrow> bindR (nonnil (om_TreeNodeInfo info)) (\<lambda>ti.
              Inr (WProtocol (ti_From ti) (ti_To ti) (om_Config info) buff (MessageType c (TypeOf cd m) reg))))
     | None \<Rightarrow>
         (case om_RequestTree info of Some (i, v) \<Rightarrow> Inr (WRequestTree i v) | None \<Rightarrow>
         (case om_ResponseTree info of Some (tm, ro) \<Rightarrow> Inr (WResponseTree tm ro) | None \<Rightarrow>
         (case om_TreeMarshal info of Some tm \<Rightarrow> Inr (WTreeMarshal tm) | None \<Rightarrow>
         (case om_RequestRoster info of Some i \<Rightarrow> Inr (WRequestRoster i) | None \<Rightarrow>
         (case om_Roster info of Some ro \<Rightarrow> Inr (WRoster ro) | None \<Rightarrow>
            Inl (PanicMsg ''overlay: default wrapper has nothing to wrap'')))))))"

definition default_Unwrap :: "'m codec \<Rightarrow> typeRegistry \<Rightarrow> 'p wire \<Rightarrow> string + 'm option \<times> 'p OverlayMsg" where
  "default_Unwrap cd reg w =
    (case w of
       WProtocol from to conf buff mt \<Rightarrow>
         (case Unmarshal cd reg buff of
            Inl e \<Rightarrow> Inl (''unmarshaling: '' @ e)
          | Inr (i, m) \<Rightarrow> Inr (Some m, empty_OverlayMsg\<lparr>om_TreeNodeInfo := Some \<lparr>ti_To = to, ti_From = from\<rparr>\<rparr>))
     | WRequestTree i v \<Rightarrow> Inr (None, empty_OverlayMsg\<lparr>om_RequestTree := Some (i, v)\<rparr>)
     | WResponseTree tm ro \<Rightarrow> Inr (None, empty_OverlayMsg\<lparr>om_ResponseTree := Some (tm, ro)\<rparr>)
     | WTreeMarshal tm \<Rightarrow> Inr (None, empty_OverlayMsg\<lparr>om_TreeMarshal := Some tm\<rparr>)
     | WRequestRoster i \<Rightarrow> Inr (None, empty_OverlayMsg\<lparr>om_RequestRoster := Some i\<rparr>)
     | WRoster ro \<Rightarrow> Inr (None, empty_OverlayMsg\<lparr>om_Roster := Some ro\<rparr>)
     | WOther \<Rightarrow> Inl ''default protoIO: unwraping an unknown message type'')"

section \<open>Process\<close>

text \<open>
  What \<open>Process\<close> does with an envelope that is no \<open>ConfigMsg\<close>, with the \<open>Unwrap\<close> of its message proxy: which
  handler it calls, or that it logs an error or panics.
\<close>

datatype ('p, 'm) process =
    ToRequestTree uuid u32
  | ToSendTree "TreeMarshal option" "'p ORoster option"
  | ToSendTreeMarshal TreeMarshal
  | ToRequestRoster uuid
  | ToSendRoster "'p ORoster"
  | ToTransmit "('p, 'm) ProtocolMsg"
  | Logs string
  | PanicsWith fault

definition Process :: "'c crypto \<Rightarrow> 'm codec \<Rightarrow> typeRegistry \<Rightarrow> ('p wire \<Rightarrow> string + 'm option \<times> 'p OverlayMsg) \<Rightarrow>
    'p ServerIdentity option \<Rightarrow> u32 \<Rightarrow> 'p wire \<Rightarrow> ('p, 'm) process" where
  "Process c cd reg unwrap si sz w =
    (case unwrap w of
       Inl e \<Rightarrow> Logs (''unwrapping: '' @ e)
     | Inr (inner, info) \<Rightarrow>
         (case om_RequestTree info of Some (i, v) \<Rightarrow> ToRequestTree i v | None \<Rightarrow>
         (case om_ResponseTree info of Some (tm, ro) \<Rightarrow> ToSendTree tm ro | None \<Rightarrow>
         (case om_TreeMarshal info of Some tm \<Rightarrow> ToSendTreeMarshal tm | None \<Rightarrow>
         (case om_RequestRoster info of Some i \<Rightarrow> ToRequestRoster i | None \<Rightarrow>
         (case om_Roster info of Some ro \<Rightarrow> ToSendRoster ro | None \<Rightarrow>
         (case (inner, om_TreeNodeInfo info) of
            (Some m, Some ti) \<Rightarrow> ToTransmit
              \<lparr>pm_From = ti_From ti, pm_To = ti_To ti, pm_Server = si, pm_MsgType = MessageType c (TypeOf cd m) reg, pm_Msg = m,
               pm_Size = sz, pm_Config = None\<rparr>
          | _ \<Rightarrow> PanicsWith NilPanic)))))))"

section \<open>The store of message proxies\<close>

text \<open>The message proxies of a server, without the default one; a look-up without result gives the default.\<close>

record 'x MessageProxy =
  mp_Name :: string
  mp_PacketType :: uuid
  mp_Impl :: 'x

type_synonym 'x messageProxyStore = "'x MessageProxy list"

definition getByName :: "string \<Rightarrow> 'x messageProxyStore \<Rightarrow> 'x MessageProxy option" where
  "getByName name protos = find (\<lambda>pio. mp_Name pio = name) protos"

definition getByPacketType :: "uuid \<Rightarrow> 'x messageProxyStore \<Rightarrow> 'x MessageProxy option" where
  "getByPacketType mid protos = find (\<lambda>pio. mp_PacketType pio = mid) protos"

definition RegisterMessageProxy :: "'x MessageProxy \<Rightarrow> 'x messageProxyStore \<Rightarrow> 'x messageProxyStore" where
  "RegisterMessageProxy mp protos = (if getByName (mp_Name mp) protos = None then protos else protos @ [mp])"

text \<open>The factories registered before the server was made; each proxy's packets are dispatched to the overlay.\<close>

definition newMessageProxyStore :: "'x MessageProxy list \<Rightarrow> 'x messageProxyStore \<times> uuid list" where
  "newMessageProxyStore factories = (factories, map mp_PacketType factories)"

section \<open>The registry of protocols\<close>

text \<open>\<open>ps_instantiators\<close> in the order in which Go iterates over the map. \<open>md5\<close> makes the ids.\<close>

record 'f protocolStorage =
  ps_instantiators :: "(string \<times> 'f) list"
  ps_serverStarted :: bool

definition newProtocolStorage :: "'f protocolStorage" where
  "newProtocolStorage = \<lparr>ps_instantiators = [], ps_serverStarted = False\<rparr>"

definition ProtocolNameToID :: "(string \<Rightarrow> uuid) \<Rightarrow> string \<Rightarrow> uuid" where
  "ProtocolNameToID md5 name = md5 (NamespaceURL @ ''protocolname/'' @ name)"

definition ProtocolIDToName :: "(string \<Rightarrow> uuid) \<Rightarrow> uuid \<Rightarrow> 'f protocolStorage \<Rightarrow> string" where
  "ProtocolIDToName md5 i ps =
    (case find (\<lambda>(n, f). i = ProtocolNameToID md5 n) (ps_instantiators ps) of None \<Rightarrow> [] | Some (n, f) \<Rightarrow> n)"

definition ProtocolExists :: "(string \<Rightarrow> uuid) \<Rightarrow> uuid \<Rightarrow> 'f protocolStorage \<Rightarrow> bool" where
  "ProtocolExists md5 i ps = (map_of (ps_instantiators ps) (ProtocolIDToName md5 i ps) \<noteq> None)"

definition ps_Register :: "(string \<Rightarrow> uuid) \<Rightarrow> string \<Rightarrow> 'f \<Rightarrow> 'f protocolStorage \<Rightarrow> (string + uuid) \<times> 'f protocolStorage" where
  "ps_Register md5 name protocol ps =
    (if map_of (ps_instantiators ps) name \<noteq> None then (Inl ''Protocol already exists - not overwriting'', ps)
     else (Inr (ProtocolNameToID md5 name), ps\<lparr>ps_instantiators := ps_instantiators ps @ [(name, protocol)]\<rparr>))"

definition GlobalProtocolRegister :: "(string \<Rightarrow> uuid) \<Rightarrow> string \<Rightarrow> 'f \<Rightarrow> 'f protocolStorage \<Rightarrow> (fault + uuid) \<times> 'f protocolStorage" where
  "GlobalProtocolRegister md5 name protocol ps =
    (if ps_serverStarted ps then (Inl (PanicMsg ''Cannot call GlobalProtocolRegister when a server has already started.''), ps)
     else case ps_Register md5 name protocol ps of
         (Inl e, ps') \<Rightarrow> (Inl (ErrRet (''registering protocol: '' @ e)), ps')
       | (Inr i, ps') \<Rightarrow> (Inr i, ps'))"

definition InformServerStarted :: "'f protocolStorage \<Rightarrow> 'f protocolStorage" where
  "InformServerStarted ps = ps\<lparr>ps_serverStarted := True\<rparr>"

definition InformAllServersStopped :: "'f protocolStorage \<Rightarrow> 'f protocolStorage" where
  "InformAllServersStopped ps = ps\<lparr>ps_serverStarted := False\<rparr>"

text \<open>The constructor that \<open>protocolInstantiate\<close> (\<open>onet/server.go\<close>) takes for an id.\<close>

definition constructor_of :: "(string \<Rightarrow> uuid) \<Rightarrow> uuid \<Rightarrow> 'f protocolStorage \<Rightarrow> 'f option" where
  "constructor_of md5 i ps = map_of (ps_instantiators ps) (ProtocolIDToName md5 i ps)"

section \<open>Round trips\<close>

text \<open>
  C23: a message of a protocol arrives as it was sent, but without its configuration. What the default proxy
  wraps is unwrapped and processed to the same message, with its type and both tokens, when its type is
  registered and protobuf decodes what it encoded; the configuration, which \<open>SendToTreeNode\<close> puts into the
  message to be sure it is handled, is dropped.
\<close>

theorem wire_roundtrip:
  assumes "reg = snd (RegisterMessages c ts newTypeRegistry)" and "TypeOf cd m \<in> set ts"
    and "\<forall>t \<in> set ts. computeMessageType c t = computeMessageType c (TypeOf cd m) \<longrightarrow> t = TypeOf cd m"
    and "computeMessageType c (TypeOf cd m) \<noteq> 0"
    and "PbEncode cd m = Some b" and "PbDecode cd (TypeOf cd m) b = Some m"
  shows "\<exists>w. default_Wrap c cd reg (Some m) (empty_OverlayMsg\<lparr>om_TreeNodeInfo := Some \<lparr>ti_To = to, ti_From = frm\<rparr>, om_Config := conf\<rparr>) = Inr w \<and>
    Process c cd reg (default_Unwrap cd reg) si sz w =
      ToTransmit \<lparr>pm_From = frm, pm_To = to, pm_Server = si, pm_MsgType = computeMessageType c (TypeOf cd m), pm_Msg = m,
        pm_Size = sz, pm_Config = None\<rparr>"
proof -
  have reg: "reg (computeMessageType c (TypeOf cd m)) = Some (TypeOf cd m)"
    unfolding assms(1) RegisterMessages_lookup by (rule registered_last_unique [OF _ assms(3)]) (simp add: assms(2))
  have t: "MessageType c (TypeOf cd m) reg = computeMessageType c (TypeOf cd m)"
    using reg by (simp add: MessageType_def reg_get_def Let_def)
  then obtain buf where M: "Marshal c cd reg m = Inr buf" using assms(4,5) by (simp add: Marshal_def Let_def)
  have "Unmarshal cd reg buf = Inr (computeMessageType c (TypeOf cd m), m)"
    using Unmarshal_Marshal [OF M assms(5)] reg assms(6) by simp
  then show ?thesis
    by (simp add: default_Wrap_def M t nonnil_def empty_OverlayMsg_def default_Unwrap_def Process_def)
qed

lemma wire_roundtrip_witness:
  "\<exists>w. Process sample_enc_crypto sample_codec (snd (RegisterMessages sample_enc_crypto [sample_type 1, sample_type 2] newTypeRegistry))
     (default_Unwrap sample_codec (snd (RegisterMessages sample_enc_crypto [sample_type 1, sample_type 2] newTypeRegistry)))
     (None :: nat ServerIdentity option) 9 w =
   ToTransmit \<lparr>pm_From = None, pm_To = None, pm_Server = None, pm_MsgType = computeMessageType sample_enc_crypto (TypeOf sample_codec 5),
     pm_Msg = 5, pm_Size = 9, pm_Config = None\<rparr>"
proof -
  note d = sample_codec_def sample_type_def sample_enc_crypto_def computeMessageType_def ty_String_def NamespaceBodyType_def NamespaceURL_def
  show ?thesis
    using wire_roundtrip [OF refl, where c = sample_enc_crypto and cd = sample_codec and ts = "[sample_type 1, sample_type 2]" and m = 5
        and b = "[5]" and to = None and frm = None and conf = "Some [1]" and si = None and sz = 9]
    by (auto simp: d)
qed

text \<open>The overlay's own messages come through as they are.\<close>

lemma overlay_messages_roundtrip:
  "Process c cd reg (default_Unwrap cd reg) si sz (WRequestTree i v) = ToRequestTree i v"
  "Process c cd reg (default_Unwrap cd reg) si sz (WResponseTree tm ro) = ToSendTree tm ro"
  "Process c cd reg (default_Unwrap cd reg) si sz (WRoster r) = ToSendRoster r"
  by (simp_all add: Process_def default_Unwrap_def empty_OverlayMsg_def)

section \<open>Registration\<close>

lemma getByName_append: "getByName n (ps @ qs) = (case getByName n ps of None \<Rightarrow> getByName n qs | Some p \<Rightarrow> Some p)"
  by (induction ps) (simp_all add: getByName_def)

text \<open>
  Registering message proxies on a server changes no look-up by name. \<open>RegisterMessageProxy\<close> takes a
  proxy only when its name is known already, and appends it behind the one that is found for this name; a
  proxy with a new name is dropped, and without factories the store stays empty.
\<close>

theorem proxies_not_registered:
  "getByName n (foldl (\<lambda>st mp. RegisterMessageProxy mp st) st mps) = getByName n st \<and> foldl (\<lambda>st mp. RegisterMessageProxy mp st) [] mps = []"
proof
  show "getByName n (foldl (\<lambda>st mp. RegisterMessageProxy mp st) st mps) = getByName n st"
  proof (induction mps arbitrary: st)
    case (Cons mp mps)
    have "getByName n (RegisterMessageProxy mp st) = getByName n st"
      by (cases "mp_Name mp = n") (auto simp: RegisterMessageProxy_def getByName_append getByName_def [of _ "[mp]"] split: option.split)
    then show ?case using Cons.IH by simp
  qed simp
  show "foldl (\<lambda>st mp. RegisterMessageProxy mp st) [] mps = []"
    by (induction mps) (simp_all add: RegisterMessageProxy_def getByName_def)
qed

definition register_protocols :: "(string \<Rightarrow> uuid) \<Rightarrow> (string \<times> 'f) list \<Rightarrow> 'f protocolStorage \<Rightarrow> 'f protocolStorage" where
  "register_protocols md5 regs ps = foldl (\<lambda>ps (n, f). snd (ps_Register md5 n f ps)) ps regs"

lemma register_protocols_lookup:
  "map_of (ps_instantiators (register_protocols md5 regs ps)) n =
    (case map_of (ps_instantiators ps) n of None \<Rightarrow> map_of regs n | Some f \<Rightarrow> Some f)"
proof (induction regs arbitrary: ps)
  case (Cons r regs)
  obtain m f where r: "r = (m, f)" by (cases r)
  have "map_of (ps_instantiators (register_protocols md5 (r # regs) ps)) n =
    map_of (ps_instantiators (register_protocols md5 regs (snd (ps_Register md5 m f ps)))) n"
    by (simp add: register_protocols_def r)
  then show ?case unfolding Cons.IH r
    by (auto simp: ps_Register_def map_add_def split: option.splits)
qed (simp add: register_protocols_def split: option.split)

lemma id_to_name:
  assumes "inj_on (ProtocolNameToID md5) (dom (map_of (ps_instantiators ps)))"
  shows "map_of (ps_instantiators ps) n \<noteq> None \<Longrightarrow> ProtocolIDToName md5 (ProtocolNameToID md5 n) ps = n"
    and "i \<notin> ProtocolNameToID md5 ` dom (map_of (ps_instantiators ps)) \<Longrightarrow> ProtocolIDToName md5 i ps = []"
proof -
  have names: "(k, f) \<in> set (ps_instantiators ps) \<Longrightarrow> k \<in> dom (map_of (ps_instantiators ps))" for k f
    by (auto simp: dom_map_of_conv_image_fst image_iff) force
  { assume n: "map_of (ps_instantiators ps) n \<noteq> None"
    then obtain f where f: "(n, f) \<in> set (ps_instantiators ps)" by (auto dest: map_of_SomeD)
    then obtain r where r: "find (\<lambda>(k, f). ProtocolNameToID md5 n = ProtocolNameToID md5 k) (ps_instantiators ps) = Some r"
      by (cases "find (\<lambda>(k, f). ProtocolNameToID md5 n = ProtocolNameToID md5 k) (ps_instantiators ps)") (auto simp: find_None_iff)
    then have "r \<in> set (ps_instantiators ps)" "case r of (k, f) \<Rightarrow> ProtocolNameToID md5 n = ProtocolNameToID md5 k"
      unfolding find_Some_iff by (metis nth_mem)+
    then obtain k g where k: "r = (k, g)" "(k, g) \<in> set (ps_instantiators ps)" "ProtocolNameToID md5 n = ProtocolNameToID md5 k"
      by (cases r) auto
    then have "k = n" using assms names [OF k(2)] names [OF f] by (simp add: inj_on_def)
    then show "ProtocolIDToName md5 (ProtocolNameToID md5 n) ps = n" using r k(1) by (simp add: ProtocolIDToName_def) }
  { assume "i \<notin> ProtocolNameToID md5 ` dom (map_of (ps_instantiators ps))"
    then have "find (\<lambda>(k, f). i = ProtocolNameToID md5 k) (ps_instantiators ps) = None"
      using names by (auto simp: find_None_iff)
    then show "ProtocolIDToName md5 i ps = []" by (simp add: ProtocolIDToName_def) }
qed

text \<open>
  A protocol is found under the id of its name, whatever was registered when: with names whose ids
  differ, an id gives the constructor that was registered first under its name, later ones being refused. An
  id of no registered name is looked up under the empty name, so it is unknown unless a protocol is
  registered under the empty name, which then is instantiated for every unknown id.
\<close>

theorem protocols_found:
  assumes "inj_on (ProtocolNameToID md5) (fst ` set regs)"
  shows "let ps = register_protocols md5 regs newProtocolStorage in
    (\<forall>n \<in> fst ` set regs. constructor_of md5 (ProtocolNameToID md5 n) ps = map_of regs n \<and> ProtocolExists md5 (ProtocolNameToID md5 n) ps) \<and>
    (\<forall>i. i \<notin> ProtocolNameToID md5 ` fst ` set regs \<longrightarrow> constructor_of md5 i ps = map_of regs [])"
proof -
  let ?ps = "register_protocols md5 regs newProtocolStorage"
  have l: "map_of (ps_instantiators ?ps) n = map_of regs n" for n
    by (simp add: register_protocols_lookup newProtocolStorage_def)
  then have d: "dom (map_of (ps_instantiators ?ps)) = fst ` set regs" by (auto simp: dom_def dom_map_of_conv_image_fst [symmetric])
  have inj: "inj_on (ProtocolNameToID md5) (dom (map_of (ps_instantiators ?ps)))" using assms unfolding d .
  have "constructor_of md5 (ProtocolNameToID md5 n) ?ps = map_of regs n \<and> ProtocolExists md5 (ProtocolNameToID md5 n) ?ps"
    if "n \<in> fst ` set regs" for n
  proof -
    have "map_of (ps_instantiators ?ps) n \<noteq> None" using that d by blast
    then show ?thesis using id_to_name(1) [OF inj] by (simp add: constructor_of_def ProtocolExists_def l)
  qed
  moreover have "constructor_of md5 i ?ps = map_of regs []" if "i \<notin> ProtocolNameToID md5 ` fst ` set regs" for i
    using id_to_name(2) [OF inj, of i] that by (simp add: constructor_of_def d l)
  ultimately show ?thesis by (simp add: Let_def)
qed

lemma protocols_found_witness:
  "constructor_of (\<lambda>s. word_of_nat (length s)) 99 (register_protocols (\<lambda>s. word_of_nat (length s)) [([], 1 :: nat), (''p'', 2)] newProtocolStorage) = Some 1"
proof -
  have "inj_on (ProtocolNameToID (\<lambda>s. word_of_nat (length s))) (fst ` set [([], 1 :: nat), (''p'', 2)])"
    by (simp add: ProtocolNameToID_def NamespaceURL_def)
  from protocols_found [OF this] show ?thesis by (auto simp: Let_def ProtocolNameToID_def NamespaceURL_def)
qed

end
