(* ===== verification/OnetService.thy ===== *)
theory OnetService
  imports OnetWire OnetStream
begin

text \<open>
  Services: the factory they are registered with and the manager that keeps them (\<open>onet/service.go\<close>), how
  a server makes protocol instances (\<open>onet/server.go\<close>), their keys (\<open>onet/network/struct.go\<close>), and the
  database a context gives them (\<open>onet/context.go\<close>). The database bbolt is a map of buckets.
\<close>

section \<open>The factory\<close>

text \<open>\<open>'c\<close> is a constructor of services, \<open>'s\<close> a suite.\<close>

record ('c, 's) serviceEntry =
  se_constructor :: 'c
  se_serviceID :: uuid
  se_name :: string
  se_suite :: "'s option"

type_synonym ('c, 's) serviceFactory = "('c, 's) serviceEntry list"

definition NilServiceID :: uuid where
  "NilServiceID = 0"

definition entry_by :: "(('c, 's) serviceEntry \<Rightarrow> bool) \<Rightarrow> ('c, 's) serviceFactory \<Rightarrow> ('c, 's) serviceEntry option" where
  "entry_by P sf = find P sf"

definition sf_ServiceID :: "string \<Rightarrow> ('c, 's) serviceFactory \<Rightarrow> uuid" where
  "sf_ServiceID name sf = (case entry_by (\<lambda>e. se_name e = name) sf of None \<Rightarrow> NilServiceID | Some e \<Rightarrow> se_serviceID e)"

definition sf_Suite :: "string \<Rightarrow> ('c, 's) serviceFactory \<Rightarrow> 's option" where
  "sf_Suite name sf = (case entry_by (\<lambda>e. se_name e = name) sf of None \<Rightarrow> None | Some e \<Rightarrow> se_suite e)"

definition sf_SuiteByID :: "uuid \<Rightarrow> ('c, 's) serviceFactory \<Rightarrow> 's option" where
  "sf_SuiteByID i sf = (case entry_by (\<lambda>e. se_serviceID e = i) sf of None \<Rightarrow> None | Some e \<Rightarrow> se_suite e)"

definition sf_Name :: "uuid \<Rightarrow> ('c, 's) serviceFactory \<Rightarrow> string" where
  "sf_Name i sf = (case entry_by (\<lambda>e. se_serviceID e = i) sf of None \<Rightarrow> [] | Some e \<Rightarrow> se_name e)"

definition registeredServiceIDs :: "('c, 's) serviceFactory \<Rightarrow> uuid list" where
  "registeredServiceIDs sf = map se_serviceID sf"

definition RegisteredServiceNames :: "('c, 's) serviceFactory \<Rightarrow> string list" where
  "RegisteredServiceNames sf = map se_name sf"

definition sf_Register :: "'p crypto \<Rightarrow> string \<Rightarrow> 's option \<Rightarrow> 'c \<Rightarrow> ('c, 's) serviceFactory \<Rightarrow> (string + uuid) \<times> ('c, 's) serviceFactory" where
  "sf_Register c name suite fn sf =
    (if sf_ServiceID name sf \<noteq> NilServiceID then (Inl ''service already registered'', sf)
     else let i = UuidURL c name
          in (Inr i, sf @ [\<lparr>se_constructor = fn, se_serviceID = i, se_name = name, se_suite = suite\<rparr>]))"

text \<open>The first entry of the name is taken out.\<close>

fun remove_entry :: "string \<Rightarrow> ('c, 's) serviceFactory \<Rightarrow> ('c, 's) serviceFactory option" where
  "remove_entry name [] = None"
| "remove_entry name (e # es) = (if se_name e = name then Some es else map_option ((#) e) (remove_entry name es))"

definition sf_Unregister :: "string \<Rightarrow> ('c, 's) serviceFactory \<Rightarrow> string option \<times> ('c, 's) serviceFactory" where
  "sf_Unregister name sf =
    (case remove_entry name sf of None \<Rightarrow> (Some (''Did not find service '' @ name), sf) | Some sf' \<Rightarrow> (None, sf'))"

section \<open>Keys of services\<close>

text \<open>A service's identity with its private key, which is never marshalled.\<close>

record ('p, 'k) KeyedIdentity =
  ki_Name :: string
  ki_Suite :: string
  ki_Public :: "'p option"
  ki_private :: "'k option"

definition NewServiceIdentity :: "('s \<Rightarrow> string) \<Rightarrow> string \<Rightarrow> 's \<Rightarrow> 'p option \<Rightarrow> 'k option \<Rightarrow> ('p, 'k) KeyedIdentity" where
  "NewServiceIdentity str name suite public private =
    \<lparr>ki_Name = name, ki_Suite = str suite, ki_Public = public, ki_private = private\<rparr>"

definition HasServiceKeyPair :: "string \<Rightarrow> ('p, 'k) KeyedIdentity list \<Rightarrow> bool" where
  "HasServiceKeyPair name ids = list_ex (\<lambda>s. ki_Name s = name \<and> ki_Public s \<noteq> None \<and> ki_private s \<noteq> None) ids"

definition ServicePrivate :: "string \<Rightarrow> ('p, 'k) KeyedIdentity list \<Rightarrow> 'k option \<Rightarrow> 'k option" where
  "ServicePrivate name ids private =
    (case find (\<lambda>s. ki_Name s = name) ids of None \<Rightarrow> private | Some s \<Rightarrow> ki_private s)"

text \<open>\<open>newKey\<close> makes a key pair of a suite; services without a suite have none.\<close>

definition generateKeyPairs :: "('s \<Rightarrow> string) \<Rightarrow> ('s \<Rightarrow> 'p \<times> 'k) \<Rightarrow> ('c, 's) serviceFactory \<Rightarrow> ('p, 'k) KeyedIdentity list" where
  "generateKeyPairs str newKey sf =
    concat (map (\<lambda>name. case sf_Suite name sf of
        None \<Rightarrow> []
      | Some suite \<Rightarrow> [NewServiceIdentity str name suite (Some (fst (newKey suite))) (Some (snd (newKey suite)))])
     (RegisteredServiceNames sf))"

section \<open>Databases of services\<close>

text \<open>Buckets under their names; bbolt takes no empty names and no empty keys.\<close>

type_synonym database = "string \<rightharpoonup> (bytes \<rightharpoonup> bytes)"

record Context =
  cx_bucketName :: string
  cx_bucketVersionName :: string

definition create_bucket :: "string \<Rightarrow> database \<Rightarrow> fault + database" where
  "create_bucket name db =
    (if name = [] then Inl (ErrRet ''bucket name required'') else Inr (if db name = None then db(name \<mapsto> Map.empty) else db))"

definition context_of :: "string \<Rightarrow> Context" where
  "context_of name = \<lparr>cx_bucketName = name, cx_bucketVersionName = name @ ''version''\<rparr>"

definition newContext :: "string \<Rightarrow> database \<Rightarrow> fault + Context \<times> database" where
  "newContext name db =
    bindR (create_bucket name db) (\<lambda>db1. bindR (create_bucket (name @ ''version'') db1) (\<lambda>db2. Inr (context_of name, db2)))"

definition put :: "string \<Rightarrow> bytes \<Rightarrow> bytes \<Rightarrow> database \<Rightarrow> fault + database" where
  "put bucket key val db =
    (case db bucket of
       None \<Rightarrow> Inl NilPanic
     | Some b \<Rightarrow> if key = [] then Inl (ErrRet ''key required'') else Inr (db(bucket \<mapsto> b(key \<mapsto> val))))"

definition get :: "string \<Rightarrow> bytes \<Rightarrow> database \<Rightarrow> fault + bytes option" where
  "get bucket key db = (case db bucket of None \<Rightarrow> Inl NilPanic | Some b \<Rightarrow> Inr (b key))"

definition Save :: "'p crypto \<Rightarrow> 'm codec \<Rightarrow> typeRegistry \<Rightarrow> Context \<Rightarrow> bytes \<Rightarrow> 'm \<Rightarrow> database \<Rightarrow> fault + database" where
  "Save c cd reg cx key data db =
    (case Marshal c cd reg data of Inl e \<Rightarrow> Inl (ErrRet e) | Inr buf \<Rightarrow> put (cx_bucketName cx) key buf db)"

definition LoadRaw :: "Context \<Rightarrow> bytes \<Rightarrow> database \<Rightarrow> fault + bytes option" where
  "LoadRaw cx key db = get (cx_bucketName cx) key db"

definition Load :: "'m codec \<Rightarrow> typeRegistry \<Rightarrow> Context \<Rightarrow> bytes \<Rightarrow> database \<Rightarrow> fault + 'm option" where
  "Load cd reg cx key db =
    bindR (get (cx_bucketName cx) key db) (\<lambda>r.
      case r of None \<Rightarrow> Inr None
      | Some buf \<Rightarrow> (case Unmarshal cd reg buf of Inl e \<Rightarrow> Inl (ErrRet e) | Inr (i, m) \<Rightarrow> Inr (Some m)))"

definition dbVersion :: bytes where
  "dbVersion = map of_char ''dbVersion''"

text \<open>\<open>int32\<close> in little endian; the conversion of an \<open>int\<close> keeps its lower 32 bits.\<close>

definition int32_bytes :: "int \<Rightarrow> bytes" where
  "int32_bytes v = rev (be_bytes 4 (nat (v mod 2 ^ 32)))"

definition bytes_int32 :: "bytes \<Rightarrow> int" where
  "bytes_int32 b = (let n = int (be_nat (rev (take 4 b))) in if n < 2 ^ 31 then n else n - 2 ^ 32)"

definition SaveVersion :: "Context \<Rightarrow> int \<Rightarrow> database \<Rightarrow> fault + database" where
  "SaveVersion cx version db = put (cx_bucketVersionName cx) dbVersion (int32_bytes version) db"

definition LoadVersion :: "Context \<Rightarrow> database \<Rightarrow> fault + int" where
  "LoadVersion cx db =
    bindR (get (cx_bucketVersionName cx) dbVersion db) (\<lambda>r.
      case r of None \<Rightarrow> Inr 0
      | Some buf \<Rightarrow> if buf = [] then Inr 0 else if length buf < 4 then Inl (ErrRet ''bytes to int'') else Inr (bytes_int32 buf))"

definition GetAdditionalBucket :: "Context \<Rightarrow> string \<Rightarrow> database \<Rightarrow> fault + string \<times> database" where
  "GetAdditionalBucket cx name db =
    (let full = cx_bucketName cx @ ''_'' @ name in bindR (create_bucket full db) (\<lambda>db'. Inr (full, db')))"

section \<open>The manager\<close>

text \<open>
  \<open>mk\<close> calls a constructor with the service's context, which gives it the database. A service that needs
  keys and has none is not made.
\<close>

definition sf_start :: "string \<Rightarrow> ('p, 'k) KeyedIdentity list \<Rightarrow> ('c \<Rightarrow> Context \<Rightarrow> database \<Rightarrow> 'v outcome \<times> database) \<Rightarrow>
    ('c, 's) serviceFactory \<Rightarrow> Context \<Rightarrow> database \<Rightarrow> 'v outcome \<times> database" where
  "sf_start name ids mk sf cx db =
    (if sf_Suite name sf \<noteq> None \<and> \<not> HasServiceKeyPair name ids then (Fails ''Service requires a key pair.'', db)
     else case entry_by (\<lambda>e. se_name e = name) sf of
       None \<Rightarrow> (Fails (''Did not find service '' @ name), db)
     | Some e \<Rightarrow> (case mk (se_constructor e) cx db of
           (Fails e', db') \<Rightarrow> (Fails (''creating service: '' @ e'), db')
         | r \<Rightarrow> r))"

text \<open>\<open>sm_web\<close> are the services the websocket serves.\<close>

record 'v serviceManager =
  sm_services :: "uuid \<rightharpoonup> 'v"
  sm_db :: database
  sm_web :: "string \<rightharpoonup> 'v"

text \<open>
  All registered services are started, in their order, each with a context of its own; one that fails ends
  the process. The error of \<open>registerService\<close> is not looked at, its panic is not caught.
\<close>

fun start_services :: "uuid list \<Rightarrow> ('p, 'k) KeyedIdentity list \<Rightarrow> ('c \<Rightarrow> Context \<Rightarrow> database \<Rightarrow> 'v outcome \<times> database) \<Rightarrow>
    ('c, 's) serviceFactory \<Rightarrow> 'v serviceManager \<Rightarrow> fault + 'v serviceManager" where
  "start_services [] ids mk sf m = Inr m"
| "start_services (i # is) ids mk sf m =
    (case newContext (sf_Name i sf) (sm_db m) of
       Inl e \<Rightarrow> Inl (PanicMsg ''Failed to create bucket'')
     | Inr (cx, db1) \<Rightarrow>
         (case sf_start (sf_Name i sf) ids mk sf cx db1 of
            (Fails e, db2) \<Rightarrow> Inl (PanicMsg (''Trying to instantiate service: '' @ e))
          | (Panics e, db2) \<Rightarrow> Inl (PanicMsg e)
          | (Returns v, db2) \<Rightarrow>
              (case registerService (sf_Name i sf) v (sm_web m) of
                 (Some (Panicked e), web) \<Rightarrow> Inl (PanicMsg e)
               | (r, web) \<Rightarrow> start_services is ids mk sf
                   (m\<lparr>sm_services := (sm_services m)(i \<mapsto> v), sm_db := db2, sm_web := web\<rparr>))))"

text \<open>\<open>global\<close> are the protocols registered before any server, which each server registers for itself.\<close>

definition newServiceManager :: "(string \<Rightarrow> uuid) \<Rightarrow> (string \<times> 'f) list \<Rightarrow> ('p, 'k) KeyedIdentity list \<Rightarrow>
    ('c \<Rightarrow> Context \<Rightarrow> database \<Rightarrow> 'v outcome \<times> database) \<Rightarrow> ('c, 's) serviceFactory \<Rightarrow> database \<Rightarrow> 'f protocolStorage \<Rightarrow>
    fault + 'v serviceManager \<times> 'f protocolStorage" where
  "newServiceManager md5 global ids mk sf db ps =
    bindR (start_services (registeredServiceIDs sf) ids mk sf \<lparr>sm_services = Map.empty, sm_db = db, sm_web = Map.empty\<rparr>)
      (\<lambda>m. Inr (m, register_protocols md5 global ps))"

definition sm_service :: "string \<Rightarrow> ('c, 's) serviceFactory \<Rightarrow> (uuid \<rightharpoonup> 'v) \<Rightarrow> 'v option" where
  "sm_service name sf services =
    (let i = sf_ServiceID name sf in if i = NilServiceID then None else services i)"

definition serviceByID :: "uuid \<Rightarrow> (uuid \<rightharpoonup> 'v) \<Rightarrow> 'v option" where
  "serviceByID i services = services i"

text \<open>\<open>protocolInstantiate\<close> of the server: the constructor of the id, if there is one.\<close>

definition protocolInstantiate :: "(string \<Rightarrow> uuid) \<Rightarrow> 'f protocolStorage \<Rightarrow> ('f \<Rightarrow> 'i outcome) \<Rightarrow> uuid \<Rightarrow> 'i outcome" where
  "protocolInstantiate md5 ps inst protoID =
    (case constructor_of md5 protoID ps of
       None \<Rightarrow> Fails ''No protocol constructor with this ID''
     | Some fn \<Rightarrow> (case inst fn of Fails e \<Rightarrow> Fails (''creating protocol: '' @ e) | r \<Rightarrow> r))"

text \<open>
  \<open>newProtocol\<close>: \<open>svc\<close> is the service's \<open>NewProtocol\<close>, whose nil result leaves the work to onet, and \<open>dflt\<close> is
  \<open>protocolInstantiate\<close>. A panic is recovered when there is a service, also one of the default.
\<close>

definition sm_newProtocol :: "bool \<Rightarrow> (uuid \<rightharpoonup> 'v) \<Rightarrow> ('v \<Rightarrow> 'i option outcome) \<Rightarrow> 'i outcome \<Rightarrow> Token \<Rightarrow> 'i outcome" where
  "sm_newProtocol isClosed services svc dflt tok =
    (if isClosed then Fails ''will not pass protocol once the server is closed''
     else case serviceByID (tok_Service tok) services of
       None \<Rightarrow> dflt
     | Some v \<Rightarrow>
         (case (case svc v of
                  Returns (Some inst) \<Rightarrow> Returns inst
                | Returns None \<Rightarrow> dflt
                | Fails e \<Rightarrow> Fails (''creating protocol: '' @ e)
                | Panics e \<Rightarrow> Panics e) of
            Panics e \<Rightarrow> Fails (''could not create new protocol: '' @ e)
          | r \<Rightarrow> r))"

section \<open>What contexts keep apart\<close>

lemma dbVersion_not_Nil [simp]: "dbVersion \<noteq> []"
  by (simp add: dbVersion_def)

lemma bytes_int32_of: "bytes_int32 (int32_bytes v) = (v + 2 ^ 31) mod 2 ^ 32 - 2 ^ 31"
proof -
  let ?m = "v mod 2 ^ 32"
  have m: "0 \<le> ?m" "?m < 2 ^ 32" by simp_all
  then have "nat ?m < 256 ^ 4" by simp
  then have "be_nat (be_bytes 4 (nat ?m)) = nat ?m" by (rule be_nat_be_bytes)
  then have b: "bytes_int32 (int32_bytes v) = (if ?m < 2 ^ 31 then ?m else ?m - 2 ^ 32)"
    using m(1) by (simp add: bytes_int32_def int32_bytes_def Let_def)
  have "(v + 2 ^ 31) mod 2 ^ 32 = (?m + 2 ^ 31) mod 2 ^ 32" by (simp add: mod_simps)
  also have "\<dots> = (if ?m < 2 ^ 31 then ?m + 2 ^ 31 else ?m + 2 ^ 31 - 2 ^ 32)"
  proof (cases "?m < 2 ^ 31")
    case True
    then show ?thesis using m(1) by (subst mod_pos_pos_trivial) simp_all
  next
    case False
    have "(?m + 2 ^ 31) mod 2 ^ 32 = (?m + 2 ^ 31 - 2 ^ 32) mod 2 ^ 32"
      using minus_mod_self2 [of "?m + 2 ^ 31" "2 ^ 32"] by (rule sym)
    also have "\<dots> = ?m + 2 ^ 31 - 2 ^ 32" using False m(2) by (intro mod_pos_pos_trivial) simp_all
    finally show ?thesis using False by simp
  qed
  finally show ?thesis unfolding b by simp
qed

text \<open>
  The version of a service's database is read back as it was saved exactly when it fits 32 bits; a
  larger one is cut, and no error is given.
\<close>

theorem version_roundtrip:
  assumes "SaveVersion cx v db = Inr db'"
  shows "LoadVersion cx db' = Inr ((v + 2 ^ 31) mod 2 ^ 32 - 2 ^ 31) \<and> (LoadVersion cx db' = Inr v \<longleftrightarrow> - (2 ^ 31) \<le> v \<and> v < 2 ^ 31)"
proof -
  have l: "length (int32_bytes v) = 4" by (simp add: int32_bytes_def)
  then have "LoadVersion cx db' = Inr (bytes_int32 (int32_bytes v))"
    using assms by (auto simp: SaveVersion_def put_def LoadVersion_def get_def split: option.splits)
  then have r: "LoadVersion cx db' = Inr ((v + 2 ^ 31) mod 2 ^ 32 - 2 ^ 31)" unfolding bytes_int32_of .
  have "(v + 2 ^ 31) mod 2 ^ 32 - 2 ^ 31 = v \<longleftrightarrow> - (2 ^ 31) \<le> v \<and> v < 2 ^ 31"
  proof
    assume e: "(v + 2 ^ 31) mod 2 ^ 32 - 2 ^ 31 = v"
    define w where "w = (v + 2 ^ 31) mod 2 ^ 32"
    have w: "0 \<le> w" "w < 4294967296" "w = v + 2147483648" using e by (simp_all add: w_def)
    then have "- 2147483648 \<le> v" "v < 2147483648" by linarith+
    then show "- (2 ^ 31) \<le> v \<and> v < 2 ^ 31" by simp
  next
    assume "- (2 ^ 31) \<le> v \<and> v < 2 ^ 31"
    then have "(v + 2 ^ 31) mod 2 ^ 32 = v + 2 ^ 31" by (intro mod_pos_pos_trivial) simp_all
    then show "(v + 2 ^ 31) mod 2 ^ 32 - 2 ^ 31 = v" by simp
  qed
  then show ?thesis using r by simp
qed

text \<open>
  A service writes into another one's bucket when its name is the other's followed by \<open>version\<close>. After
  the service \<open>a\<close> has saved the version of its database, the service \<open>b\<close> reads what it read before under
  each of its keys, but for the key \<open>dbVersion\<close> of the service with the name of \<open>a\<close> and \<open>version\<close>, which now
  has the four bytes of the number.
\<close>

theorem version_bucket_shared:
  assumes "SaveVersion (context_of a) v db = Inr db'"
  shows "LoadRaw (context_of b) key db' =
    (if b = a @ ''version'' \<and> key = dbVersion then Inr (Some (int32_bytes v)) else LoadRaw (context_of b) key db)"
  using assms by (auto simp: SaveVersion_def put_def LoadRaw_def get_def context_of_def split: option.splits if_splits)

lemma version_roundtrip_witness:
  "\<exists>db'. SaveVersion (context_of ''a'') (2 ^ 31) [''aversion'' \<mapsto> Map.empty] = Inr db' \<and> LoadVersion (context_of ''a'') db' = Inr (- (2 ^ 31))"
proof -
  obtain db' where db': "SaveVersion (context_of ''a'') (2 ^ 31) [''aversion'' \<mapsto> Map.empty] = Inr db'"
    by (simp add: SaveVersion_def put_def context_of_def)
  from version_roundtrip [OF this] show ?thesis using db' by simp
qed

lemma version_bucket_shared_witness:
  "\<exists>db'. SaveVersion (context_of ''a'') 3 [''aversion'' \<mapsto> Map.empty] = Inr db' \<and> LoadRaw (context_of ''aversion'') dbVersion db' = Inr (Some (int32_bytes 3))"
proof -
  obtain db' where db': "SaveVersion (context_of ''a'') 3 [''aversion'' \<mapsto> Map.empty] = Inr db'"
    by (simp add: SaveVersion_def put_def context_of_def)
  from version_bucket_shared [OF this, of "''aversion''" dbVersion] show ?thesis using db' by simp
qed

section \<open>What is started\<close>

lemma newContext_result:
  "newContext name db = Inr (cx, db') \<Longrightarrow> cx = context_of name \<and> db' name \<noteq> None \<and> db' (name @ ''version'') \<noteq> None"
  by (auto simp: newContext_def create_bucket_def bindR_Inr_iff split: if_splits)

lemma registerService_web:
  "registerService n v web = (r, web') \<Longrightarrow> (n \<noteq> ''ok'' \<longrightarrow> web' n = Some v) \<and> (\<forall>k. k \<noteq> n \<longrightarrow> web' k = web k)"
  by (auto simp: registerService_def split: if_splits)

lemma start_services_Cons:
  assumes "start_services (i # is) ids mk sf m = Inr m'"
  obtains db0 v db1 web r where
    "sf_start (sf_Name i sf) ids mk sf (context_of (sf_Name i sf)) db0 = (Returns v, db1)"
    "db0 (sf_Name i sf) \<noteq> None" "db0 (sf_Name i sf @ ''version'') \<noteq> None"
    "registerService (sf_Name i sf) v (sm_web m) = (r, web)"
    "start_services is ids mk sf (m\<lparr>sm_services := (sm_services m)(i \<mapsto> v), sm_db := db1, sm_web := web\<rparr>) = Inr m'"
proof -
  obtain cx db0 where c: "newContext (sf_Name i sf) (sm_db m) = Inr (cx, db0)"
    using assms by (auto split: sum.splits)
  note n = newContext_result [OF c]
  obtain v db1 where s: "sf_start (sf_Name i sf) ids mk sf cx db0 = (Returns v, db1)"
    using assms c by (auto split: outcome.splits prod.splits)
  obtain r web where w: "registerService (sf_Name i sf) v (sm_web m) = (r, web)" by fastforce
  have "start_services is ids mk sf (m\<lparr>sm_services := (sm_services m)(i \<mapsto> v), sm_db := db1, sm_web := web\<rparr>) = Inr m'"
    using assms c s w by (simp split: option.splits reg_error.splits)
  then show thesis using that [OF _ _ _ w] n s by simp
qed

definition started :: "('p, 'k) KeyedIdentity list \<Rightarrow> ('c \<Rightarrow> Context \<Rightarrow> database \<Rightarrow> 'v outcome \<times> database) \<Rightarrow>
    ('c, 's) serviceFactory \<Rightarrow> 'v serviceManager \<Rightarrow> uuid \<Rightarrow> bool" where
  "started ids mk sf m i \<longleftrightarrow>
    (\<exists>db0 v db1. sf_start (sf_Name i sf) ids mk sf (context_of (sf_Name i sf)) db0 = (Returns v, db1) \<and>
      db0 (sf_Name i sf) \<noteq> None \<and> db0 (sf_Name i sf @ ''version'') \<noteq> None \<and> sm_services m i = Some v \<and>
      (sf_Name i sf \<noteq> ''ok'' \<longrightarrow> sm_web m (sf_Name i sf) = Some v))"

lemma start_services_result:
  "start_services is ids mk sf m = Inr m' \<Longrightarrow> distinct is \<Longrightarrow> distinct (map (\<lambda>i. sf_Name i sf) is) \<Longrightarrow>
    (\<forall>i. i \<notin> set is \<longrightarrow> sm_services m' i = sm_services m i) \<and>
    (\<forall>n. n \<notin> (\<lambda>i. sf_Name i sf) ` set is \<longrightarrow> sm_web m' n = sm_web m n) \<and>
    (\<forall>i \<in> set is. started ids mk sf m' i)"
proof (induction "is" arbitrary: m)
  case (Cons i "is")
  from Cons.prems(1) obtain db0 v db1 web r where s:
    "sf_start (sf_Name i sf) ids mk sf (context_of (sf_Name i sf)) db0 = (Returns v, db1)"
    "db0 (sf_Name i sf) \<noteq> None" "db0 (sf_Name i sf @ ''version'') \<noteq> None"
    "registerService (sf_Name i sf) v (sm_web m) = (r, web)"
    "start_services is ids mk sf (m\<lparr>sm_services := (sm_services m)(i \<mapsto> v), sm_db := db1, sm_web := web\<rparr>) = Inr m'"
    by (rule start_services_Cons)
  have d: "i \<notin> set is" "sf_Name i sf \<notin> (\<lambda>i. sf_Name i sf) ` set is" "distinct is" "distinct (map (\<lambda>i. sf_Name i sf) is)"
    using Cons.prems(2,3) by simp_all
  note ih = Cons.IH [OF s(5) d(3,4)]
  note w = registerService_web [OF s(4)]
  have "sm_services m' i = Some v" "sf_Name i sf \<noteq> ''ok'' \<longrightarrow> sm_web m' (sf_Name i sf) = Some v"
    using ih d(1,2) w by simp_all
  then have "started ids mk sf m' i" unfolding started_def using s(1-3) by blast
  then have "\<forall>j \<in> set (i # is). started ids mk sf m' j" using ih by simp
  moreover have "\<forall>j. j \<notin> set (i # is) \<longrightarrow> sm_services m' j = sm_services m j" using ih by simp
  moreover have "\<forall>n. n \<notin> (\<lambda>i. sf_Name i sf) ` set (i # is) \<longrightarrow> sm_web m' n = sm_web m n" using ih w by simp
  ultimately show ?case by (intro conjI)
qed simp

lemma find_unique: "x \<in> set xs \<Longrightarrow> P x \<Longrightarrow> (\<And>y. y \<in> set xs \<Longrightarrow> P y \<Longrightarrow> y = x) \<Longrightarrow> find P xs = Some x"
  by (induction xs) (simp, metis find.simps(2) list.set_intros(1,2) set_ConsD)

lemma find_by_id:
  assumes "distinct (registeredServiceIDs sf)" and "e \<in> set sf"
  shows "sf_Name (se_serviceID e) sf = se_name e"
proof -
  have "y \<in> set sf \<Longrightarrow> se_serviceID y = se_serviceID e \<Longrightarrow> y = e" for y
    using assms by (auto simp: registeredServiceIDs_def distinct_map inj_on_def)
  then have "find (\<lambda>y. se_serviceID y = se_serviceID e) sf = Some e" using assms(2) by (intro find_unique) blast+
  then show ?thesis by (simp add: sf_Name_def entry_by_def)
qed

lemma find_by_name:
  assumes "distinct (RegisteredServiceNames sf)" and "e \<in> set sf"
  shows "entry_by (\<lambda>y. se_name y = se_name e) sf = Some e"
proof -
  have "y \<in> set sf \<Longrightarrow> se_name y = se_name e \<Longrightarrow> y = e" for y
    using assms by (auto simp: RegisteredServiceNames_def distinct_map inj_on_def)
  then show ?thesis unfolding entry_by_def using assms(2) by (intro find_unique) blast+
qed

text \<open>
  C24: a server that has started has started every registered service: its constructor was called with the
  context of its name, when both its buckets were there, and with a key pair when it needs one. The
  service the constructor gave is the one found under its name, and the one the websocket serves, unless it
  is named \<open>ok\<close>, which no client can reach.
\<close>

theorem services_started:
  assumes "newServiceManager md5 global ids mk sf db ps = Inr (m, ps')" and "distinct (RegisteredServiceNames sf)" and "distinct (registeredServiceIDs sf)"
    and "e \<in> set sf" and "se_serviceID e \<noteq> NilServiceID"
  shows "\<exists>db0 v db1. mk (se_constructor e) (context_of (se_name e)) db0 = (Returns v, db1) \<and>
    db0 (se_name e) \<noteq> None \<and> db0 (se_name e @ ''version'') \<noteq> None \<and> (se_suite e \<noteq> None \<longrightarrow> HasServiceKeyPair (se_name e) ids) \<and>
    sm_service (se_name e) sf (sm_services m) = Some v \<and> (se_name e \<noteq> ''ok'' \<longrightarrow> sm_web m (se_name e) = Some v)"
proof -
  have n: "map (\<lambda>i. sf_Name i sf) (registeredServiceIDs sf) = RegisteredServiceNames sf"
    using find_by_id [OF assms(3)] by (simp add: registeredServiceIDs_def RegisteredServiceNames_def)
  note name = find_by_id [OF assms(3,4)] and entry = find_by_name [OF assms(2,4)]
  have i: "sf_ServiceID (se_name e) sf = se_serviceID e" "sf_Suite (se_name e) sf = se_suite e"
    using entry by (simp_all add: sf_ServiceID_def sf_Suite_def)
  have run: "start_services (registeredServiceIDs sf) ids mk sf \<lparr>sm_services = Map.empty, sm_db = db, sm_web = Map.empty\<rparr> = Inr m"
    using assms(1) by (auto simp: newServiceManager_def bindR_Inr_iff)
  have "se_serviceID e \<in> set (registeredServiceIDs sf)" using assms(4) by (simp add: registeredServiceIDs_def)
  then have "started ids mk sf m (se_serviceID e)"
    using start_services_result [OF run assms(3) assms(2) [folded n]] by blast
  then obtain db0 v db1 where v: "sf_start (se_name e) ids mk sf (context_of (se_name e)) db0 = (Returns v, db1)"
    "db0 (se_name e) \<noteq> None" "db0 (se_name e @ ''version'') \<noteq> None" "sm_services m (se_serviceID e) = Some v"
    "se_name e \<noteq> ''ok'' \<longrightarrow> sm_web m (se_name e) = Some v"
    unfolding started_def name by blast
  have "mk (se_constructor e) (context_of (se_name e)) db0 = (Returns v, db1)" "se_suite e \<noteq> None \<longrightarrow> HasServiceKeyPair (se_name e) ids"
    using v(1) entry i(2) by (auto simp: sf_start_def split: if_splits outcome.splits prod.splits)
  then show ?thesis using v i(1) assms(5) by (auto simp: sm_service_def Let_def)
qed

lemma services_started_witness:
  "\<exists>m v. newServiceManager (\<lambda>n. 1) [(''p'', True)] [\<lparr>ki_Name = ''a'', ki_Suite = ''bn256'', ki_Public = Some (5 :: nat), ki_private = Some (7 :: nat)\<rparr>]
      (\<lambda>c cx db. (Returns (c, cx_bucketName cx), db)) [\<lparr>se_constructor = 3 :: nat, se_serviceID = 1, se_name = ''a'', se_suite = Some ()\<rparr>]
      Map.empty newProtocolStorage = Inr (m, register_protocols (\<lambda>n. 1) [(''p'', True)] newProtocolStorage) \<and> v = (3, ''a'') \<and>
    sm_web m ''a'' = Some v"
proof -
  let ?ids = "[\<lparr>ki_Name = ''a'', ki_Suite = ''bn256'', ki_Public = Some (5 :: nat), ki_private = Some (7 :: nat)\<rparr>]"
  let ?mk = "\<lambda>c cx db. (Returns (c, cx_bucketName cx), db)"
  let ?e = "\<lparr>se_constructor = 3 :: nat, se_serviceID = 1, se_name = ''a'', se_suite = Some ()\<rparr>"
  have "\<exists>m. newServiceManager (\<lambda>n. 1) [(''p'', True)] ?ids ?mk [?e] Map.empty newProtocolStorage =
    Inr (m, register_protocols (\<lambda>n. 1) [(''p'', True)] newProtocolStorage)"
    by (simp add: newServiceManager_def registeredServiceIDs_def sf_Name_def sf_Suite_def entry_by_def newContext_def create_bucket_def
        sf_start_def HasServiceKeyPair_def context_of_def registerService_def)
  then obtain m where m: "newServiceManager (\<lambda>n. 1) [(''p'', True)] ?ids ?mk [?e] Map.empty newProtocolStorage =
    Inr (m, register_protocols (\<lambda>n. 1) [(''p'', True)] newProtocolStorage)" ..
  have "\<exists>v. v = (3, ''a'') \<and> sm_web m ''a'' = Some v"
    using services_started [OF m, of ?e] by (simp add: registeredServiceIDs_def RegisteredServiceNames_def NilServiceID_def context_of_def) blast
  then show ?thesis using m by blast
qed

end
