(* ===== verification/OnetParallel.thy ===== *)
theory OnetParallel
  imports Transition "HOL-Library.Multiset"
begin

text \<open>
  Asking several servers at once (\<open>SendProtobufParallelWithDecoder\<close> in \<open>onet/websocket_client.go\<close>): some
  goroutines take servers off a channel and ask them, until one has an answer that decodes or all have
  failed, and the caller waits for the first answer or the last error. A step is what a goroutine does
  between two operations on a channel or on the lock.
\<close>

section \<open>Goroutines\<close>

text \<open>
  \<open>Fetching\<close> looks at \<open>done\<close>, \<open>Taking\<close> takes a server off the channel, \<open>Deciding\<close> and \<open>Announcing\<close> have the
  lock: the first before the answer is decoded, the second before \<open>close(done)\<close>.
\<close>

datatype ('n, 'r) asker = Fetching | Taking | Asking 'n | Replied 'n 'r | Deciding 'n 'r | Announcing | Finished

text \<open>
  \<open>pa_errs\<close> are the errors the caller has collected, \<open>pa_failed\<close> records the servers whose error was
  reported. \<open>pa_result\<close> is what the caller returns, an error or the server whose answer it has.
\<close>

record ('n, 'r) parallel =
  pa_nodes :: "'n list"
  pa_askers :: "('n, 'r) asker list"
  pa_errChan :: "string list"
  pa_decoded :: "'n list"
  pa_lock :: bool
  pa_done :: bool
  pa_errs :: "string list"
  pa_result :: "(string + 'n) option"
  pa_crashed :: bool
  pa_failed :: "'n list"

definition parallel_start :: "nat \<Rightarrow> 'n list \<Rightarrow> ('n, 'r) parallel" where
  "parallel_start k nodes =
    \<lparr>pa_nodes = nodes, pa_askers = replicate k Fetching, pa_errChan = [], pa_decoded = [], pa_lock = False, pa_done = False,
     pa_errs = [], pa_result = None, pa_crashed = False, pa_failed = []\<rparr>"

definition close_done :: "('n, 'r) parallel \<Rightarrow> ('n, 'r) parallel" where
  "close_done s = (if pa_done s then s\<lparr>pa_crashed := True\<rparr> else s\<lparr>pa_done := True\<rparr>)"

text \<open>
  \<open>ans\<close> is what asking a server gives, \<open>dec\<close> the error of decoding an answer, \<open>quit\<close> the option to stop at
  the first error, \<open>nbr\<close> the number of servers asked, which is the capacity of \<open>errChan\<close>.
\<close>

inductive pa_step :: "('n \<Rightarrow> string + 'r) \<Rightarrow> ('r \<Rightarrow> string option) \<Rightarrow> bool \<Rightarrow> nat \<Rightarrow> ('n, 'r) parallel \<Rightarrow> ('n, 'r) parallel \<Rightarrow> bool"
  for ans dec quit nbr where
  stopped: "\<not> pa_crashed s \<Longrightarrow> pa_askers s = xs @ Fetching # ys \<Longrightarrow> pa_done s \<Longrightarrow>
    pa_step ans dec quit nbr s (s\<lparr>pa_askers := xs @ Finished # ys\<rparr>)"
| go_on: "\<not> pa_crashed s \<Longrightarrow> pa_askers s = xs @ Fetching # ys \<Longrightarrow> \<not> pa_done s \<Longrightarrow>
    pa_step ans dec quit nbr s (s\<lparr>pa_askers := xs @ Taking # ys\<rparr>)"
| take_node: "\<not> pa_crashed s \<Longrightarrow> pa_askers s = xs @ Taking # ys \<Longrightarrow> pa_nodes s = n # ns \<Longrightarrow>
    pa_step ans dec quit nbr s (s\<lparr>pa_askers := xs @ Asking n # ys, pa_nodes := ns\<rparr>)"
| no_node: "\<not> pa_crashed s \<Longrightarrow> pa_askers s = xs @ Taking # ys \<Longrightarrow> pa_nodes s = [] \<Longrightarrow>
    pa_step ans dec quit nbr s (s\<lparr>pa_askers := xs @ Finished # ys\<rparr>)"
| send_fails: "\<not> pa_crashed s \<Longrightarrow> pa_askers s = xs @ Asking n # ys \<Longrightarrow> ans n = Inl e \<Longrightarrow> length (pa_errChan s) < nbr \<Longrightarrow>
    pa_step ans dec quit nbr s (s\<lparr>pa_askers := xs @ Fetching # ys, pa_errChan := pa_errChan s @ [e], pa_failed := n # pa_failed s\<rparr>)"
| replies: "\<not> pa_crashed s \<Longrightarrow> pa_askers s = xs @ Asking n # ys \<Longrightarrow> ans n = Inr r \<Longrightarrow>
    pa_step ans dec quit nbr s (s\<lparr>pa_askers := xs @ Replied n r # ys\<rparr>)"
| too_late: "\<not> pa_crashed s \<Longrightarrow> pa_askers s = xs @ Replied n r # ys \<Longrightarrow> \<not> pa_lock s \<Longrightarrow> pa_done s \<Longrightarrow>
    pa_step ans dec quit nbr s (s\<lparr>pa_askers := xs @ Fetching # ys\<rparr>)"
| in_time: "\<not> pa_crashed s \<Longrightarrow> pa_askers s = xs @ Replied n r # ys \<Longrightarrow> \<not> pa_lock s \<Longrightarrow> \<not> pa_done s \<Longrightarrow>
    pa_step ans dec quit nbr s (s\<lparr>pa_askers := xs @ Deciding n r # ys, pa_lock := True\<rparr>)"
| decoding_fails: "\<not> pa_crashed s \<Longrightarrow> pa_askers s = xs @ Deciding n r # ys \<Longrightarrow> dec r = Some e \<Longrightarrow> length (pa_errChan s) < nbr \<Longrightarrow>
    pa_step ans dec quit nbr s
      (s\<lparr>pa_askers := xs @ Fetching # ys, pa_errChan := pa_errChan s @ [e], pa_failed := n # pa_failed s, pa_lock := False\<rparr>)"
| decodes: "\<not> pa_crashed s \<Longrightarrow> pa_askers s = xs @ Deciding n r # ys \<Longrightarrow> dec r = None \<Longrightarrow> pa_decoded s = [] \<Longrightarrow>
    pa_step ans dec quit nbr s (s\<lparr>pa_askers := xs @ Announcing # ys, pa_decoded := [n]\<rparr>)"
| announces: "\<not> pa_crashed s \<Longrightarrow> pa_askers s = xs @ Announcing # ys \<Longrightarrow>
    pa_step ans dec quit nbr s (close_done (s\<lparr>pa_askers := xs @ Fetching # ys, pa_lock := False\<rparr>))"
| caller_node: "\<not> pa_crashed s \<Longrightarrow> pa_result s = None \<Longrightarrow> length (pa_errs s) < nbr \<Longrightarrow> pa_decoded s = [n] \<Longrightarrow>
    pa_step ans dec quit nbr s (s\<lparr>pa_decoded := [], pa_result := Some (Inr n)\<rparr>)"
| caller_quits: "\<not> pa_crashed s \<Longrightarrow> pa_result s = None \<Longrightarrow> length (pa_errs s) < nbr \<Longrightarrow> pa_errChan s = e # es \<Longrightarrow> quit \<Longrightarrow>
    pa_step ans dec quit nbr s (close_done (s\<lparr>pa_errChan := es, pa_errs := pa_errs s @ [e], pa_result := Some (Inl e)\<rparr>))"
| caller_error: "\<not> pa_crashed s \<Longrightarrow> pa_result s = None \<Longrightarrow> length (pa_errs s) < nbr \<Longrightarrow> pa_errChan s = e # es \<Longrightarrow> \<not> quit \<Longrightarrow>
    pa_step ans dec quit nbr s (s\<lparr>pa_errChan := es, pa_errs := pa_errs s @ [e]\<rparr>)"
| caller_fails: "\<not> pa_crashed s \<Longrightarrow> pa_result s = None \<Longrightarrow> \<not> length (pa_errs s) < nbr \<Longrightarrow>
    pa_step ans dec quit nbr s (case pa_errs s of [] \<Rightarrow> s\<lparr>pa_crashed := True\<rparr> | e # es \<Rightarrow> s\<lparr>pa_result := Some (Inl e)\<rparr>)"

definition answers :: "('n \<Rightarrow> string + 'r) \<Rightarrow> ('r \<Rightarrow> string option) \<Rightarrow> 'n \<Rightarrow> bool" where
  "answers ans dec n \<longleftrightarrow> (\<exists>r. ans n = Inr r \<and> dec r = None)"

section \<open>What holds without the option to quit\<close>

fun node_of :: "('n, 'r) asker \<Rightarrow> 'n multiset" where
  "node_of (Asking n) = {#n#}"
| "node_of (Replied n r) = {#n#}"
| "node_of (Deciding n r) = {#n#}"
| "node_of _ = {#}"

fun holds_lock :: "('n, 'r) asker \<Rightarrow> nat" where
  "holds_lock (Deciding n r) = 1"
| "holds_lock Announcing = 1"
| "holds_lock _ = 0"

fun announcing :: "('n, 'r) asker \<Rightarrow> bool" where
  "announcing Announcing = True"
| "announcing _ = False"

fun reply_ok :: "('n \<Rightarrow> string + 'r) \<Rightarrow> ('n, 'r) asker \<Rightarrow> bool" where
  "reply_ok ans (Replied n r) = (ans n = Inr r)"
| "reply_ok ans (Deciding n r) = (ans n = Inr r)"
| "reply_ok ans _ = True"

definition known :: "('n, 'r) parallel \<Rightarrow> 'n multiset" where
  "known s = mset (pa_nodes s) + sum_list (map node_of (pa_askers s)) + mset (pa_failed s)"

definition found :: "('n, 'r) parallel \<Rightarrow> bool" where
  "found s \<longleftrightarrow> pa_done s \<or> list_ex announcing (pa_askers s)"

definition par_inv :: "('n \<Rightarrow> string + 'r) \<Rightarrow> ('r \<Rightarrow> string option) \<Rightarrow> 'n list \<Rightarrow> ('n, 'r) parallel \<Rightarrow> bool" where
  "par_inv ans dec nodes s \<longleftrightarrow>
    \<not> pa_crashed s \<and> pa_askers s \<noteq> [] \<and>
    sum_list (map holds_lock (pa_askers s)) = (if pa_lock s then 1 else 0) \<and> (pa_done s \<longrightarrow> \<not> pa_lock s) \<and>
    list_all (reply_ok ans) (pa_askers s) \<and>
    known s \<subseteq># mset nodes \<and> (\<not> found s \<longrightarrow> known s = mset nodes) \<and>
    length (pa_failed s) = length (pa_errs s) + length (pa_errChan s) \<and> (\<forall>n \<in> set (pa_failed s). \<not> answers ans dec n) \<and>
    (case pa_decoded s of [] \<Rightarrow> True | [n] \<Rightarrow> n \<in> set nodes \<and> answers ans dec n | _ \<Rightarrow> False) \<and>
    (pa_decoded s \<noteq> [] \<longrightarrow> found s) \<and> (found s \<longrightarrow> pa_decoded s \<noteq> [] \<or> (\<exists>n. pa_result s = Some (Inr n))) \<and>
    (Finished \<in> set (pa_askers s) \<longrightarrow> pa_nodes s = [] \<or> pa_done s) \<and>
    (case pa_result s of
       None \<Rightarrow> True
     | Some (Inr n) \<Rightarrow> n \<in> set nodes \<and> answers ans dec n \<and> found s \<and> pa_decoded s = []
     | Some (Inl e) \<Rightarrow> (\<forall>n \<in> set nodes. \<not> answers ans dec n))"

lemma sum_list_empty [simp]: "sum_list (replicate k {#}) = {#}"
  by (induction k) auto

lemma par_inv_start: "k > 0 \<Longrightarrow> par_inv ans dec nodes (parallel_start k nodes)"
  by (simp add: par_inv_def parallel_start_def known_def found_def sum_list_replicate list_all_iff list_ex_iff)

lemma sub_drop: "add_mset n M \<subseteq># N \<Longrightarrow> M \<subseteq># N"
  by (metis add_mset_add_single mset_subset_eq_add_left subset_mset.order_trans)

lemma no_holder: "sum_list (map holds_lock ws) = 0 \<Longrightarrow> \<not> list_ex announcing ws"
  by (induction ws) (auto elim: announcing.elims)

lemma deciding_open:
  assumes "par_inv ans dec nodes s" and "pa_askers s = xs @ Deciding n r # ys"
  shows "pa_lock s" "\<not> pa_done s" "\<not> found s" "ans n = Inr r" "pa_decoded s = []" "sum_list (map holds_lock (xs @ ys)) = 0"
    "known s = mset nodes" "\<not> list_ex announcing (xs @ ys)"
proof -
  have h: "sum_list (map holds_lock (pa_askers s)) = (if pa_lock s then 1 else 0)" "pa_done s \<longrightarrow> \<not> pa_lock s"
    "pa_decoded s \<noteq> [] \<longrightarrow> found s" "\<not> found s \<longrightarrow> known s = mset nodes" "list_all (reply_ok ans) (pa_askers s)"
    using assms(1) by (simp_all add: par_inv_def)
  show l: "pa_lock s" "sum_list (map holds_lock (xs @ ys)) = 0" using h(1) assms(2) by (auto split: if_splits)
  show a: "\<not> list_ex announcing (xs @ ys)" by (rule no_holder [OF l(2)])
  show d: "\<not> pa_done s" using h(2) l by blast
  show f: "\<not> found s" using a d assms(2) by (simp add: found_def)
  show "pa_decoded s = []" "known s = mset nodes" "ans n = Inr r" using f h(3-5) assms(2) by auto
qed

lemma par_inv_step:
  assumes "pa_step ans dec False (length nodes) s s'" and "nodes \<noteq> []" and "par_inv ans dec nodes s"
  shows "par_inv ans dec nodes s'"
  using assms(1)
proof (cases rule: pa_step.cases)
  case (stopped xs ys)
  then show ?thesis using assms(3) by (auto simp: par_inv_def known_def found_def split: list.splits option.splits sum.splits)
next
  case (go_on xs ys)
  then show ?thesis using assms(3) by (auto simp: par_inv_def known_def found_def split: list.splits option.splits sum.splits)
next
  case (take_node xs ys n ns)
  then show ?thesis using assms(3) by (auto simp: par_inv_def known_def found_def split: list.splits option.splits sum.splits)
next
  case (no_node xs ys)
  then show ?thesis using assms(3) by (auto simp: par_inv_def known_def found_def split: list.splits option.splits sum.splits)
next
  case (replies xs n ys r)
  then show ?thesis using assms(3) by (auto simp: par_inv_def known_def found_def split: list.splits option.splits sum.splits)
next
  case (in_time xs n r ys)
  then show ?thesis using assms(3) by (auto simp: par_inv_def known_def found_def split: list.splits option.splits sum.splits)
next
  case (caller_error e es)
  then show ?thesis using assms(3) by (auto simp: par_inv_def known_def found_def split: list.splits option.splits sum.splits)
next
  case (caller_quits e es)
  then show ?thesis by simp
next
  case (send_fails xs n ys e)
  then show ?thesis using assms(3) by (auto simp: par_inv_def known_def found_def answers_def split: list.splits option.splits sum.splits)
next
  case (decoding_fails xs n r ys e)
  note o = deciding_open [OF assms(3) decoding_fails(3)]
  have n: "\<not> answers ans dec n" using o(4) decoding_fails(4) by (simp add: answers_def)
  have k: "known s' = known s" "\<not> found s'" using o(2,8) decoding_fails by (simp_all add: known_def found_def)
  have "pa_decoded s' = []" "pa_result s' = pa_result s" "pa_errs s' = pa_errs s" "pa_askers s' = xs @ Fetching # ys"
    "pa_failed s' = n # pa_failed s" "length (pa_errChan s') = Suc (length (pa_errChan s))" "\<not> pa_crashed s'" "\<not> pa_lock s'" "\<not> pa_done s'"
    "pa_nodes s' = pa_nodes s"
    using decoding_fails o(2,5) by simp_all
  then show ?thesis using assms(3) o(2,3,6,7) n k decoding_fails(3)
    unfolding par_inv_def by (simp split: option.splits sum.splits)
next
  case (too_late xs n r ys)
  have "add_mset n (mset (pa_nodes s) + (sum_list (map node_of xs) + sum_list (map node_of ys)) + mset (pa_failed s)) \<subseteq># mset nodes"
    using assms(3) too_late by (simp add: par_inv_def known_def)
  from sub_drop [OF this] have "known s' \<subseteq># mset nodes" using too_late by (simp add: known_def)
  moreover have "found s'" "found s" using too_late by (simp_all add: found_def)
  moreover have "pa_decoded s' = pa_decoded s" "pa_result s' = pa_result s" "pa_errs s' = pa_errs s" "pa_askers s' = xs @ Fetching # ys"
    "pa_failed s' = pa_failed s" "pa_errChan s' = pa_errChan s" "pa_crashed s' = pa_crashed s" "pa_lock s' = pa_lock s" "pa_done s'" "pa_done s"
    "pa_nodes s' = pa_nodes s"
    using too_late by simp_all
  ultimately show ?thesis using assms(3) too_late(3)
    unfolding par_inv_def by (simp split: option.splits sum.splits)
next
  case (decodes xs n r ys)
  note o = deciding_open [OF assms(3) decodes(3)]
  have n: "answers ans dec n" using o(4) decodes(4) by (simp add: answers_def)
  have e: "add_mset n (known s') = mset nodes" using o(7) decodes by (simp add: known_def)
  then have "known s' \<subseteq># mset nodes" using sub_drop [of n "known s'" "mset nodes"] by simp
  moreover have m: "n \<in> set nodes" using e by (metis set_mset_mset union_single_eq_member)
  moreover have "pa_result s = None"
    using assms(3) o(3) n m by (cases "pa_result s") (auto simp: par_inv_def split: sum.splits)
  moreover have "found s'" using decodes by (simp add: found_def)
  moreover have "pa_decoded s' = [n]" "pa_result s' = pa_result s" "pa_errs s' = pa_errs s" "pa_askers s' = xs @ Announcing # ys"
    "pa_failed s' = pa_failed s" "pa_errChan s' = pa_errChan s" "pa_crashed s' = pa_crashed s" "pa_lock s' = pa_lock s" "\<not> pa_done s'"
    "pa_nodes s' = pa_nodes s"
    using decodes o(2) by simp_all
  ultimately show ?thesis using assms(3) o(2) n decodes(3)
    unfolding par_inv_def by simp
next
  case (announces xs ys)
  have h: "sum_list (map holds_lock (pa_askers s)) = (if pa_lock s then 1 else 0)" "pa_done s \<longrightarrow> \<not> pa_lock s"
    using assms(3) by (simp_all add: par_inv_def)
  then have l: "pa_lock s" "\<not> pa_done s" "sum_list (map holds_lock (xs @ ys)) = 0" using announces(3) by (auto split: if_splits)
  have s': "s' = s\<lparr>pa_askers := xs @ Fetching # ys, pa_lock := False, pa_done := True\<rparr>" using announces(1) l(2) by (simp add: close_done_def)
  have "known s' = known s" "found s'" "found s" using announces(3) s' by (simp_all add: known_def found_def)
  moreover have "pa_decoded s' = pa_decoded s" "pa_result s' = pa_result s" "pa_errs s' = pa_errs s" "pa_askers s' = xs @ Fetching # ys"
    "pa_failed s' = pa_failed s" "pa_errChan s' = pa_errChan s" "pa_crashed s' = pa_crashed s" "\<not> pa_lock s'" "pa_done s'"
    "pa_nodes s' = pa_nodes s"
    using s' by simp_all
  ultimately show ?thesis using assms(3) l announces(3)
    unfolding par_inv_def by (simp split: option.splits sum.splits)
next
  case (caller_node n)
  have "known s' = known s" "found s' = found s" "found s" "n \<in> set nodes" "answers ans dec n"
    using assms(3) caller_node by (simp_all add: known_def found_def par_inv_def)
  moreover have "pa_decoded s' = []" "pa_result s' = Some (Inr n)" "pa_errs s' = pa_errs s" "pa_askers s' = pa_askers s"
    "pa_failed s' = pa_failed s" "pa_errChan s' = pa_errChan s" "pa_crashed s' = pa_crashed s" "pa_lock s' = pa_lock s" "pa_done s' = pa_done s"
    "pa_nodes s' = pa_nodes s"
    using caller_node by simp_all
  ultimately show ?thesis using assms(3) unfolding par_inv_def by simp
next
  case caller_fails
  have l: "length (pa_failed s) = length (pa_errs s) + length (pa_errChan s)" "known s \<subseteq># mset nodes"
    "\<forall>n \<in> set (pa_failed s). \<not> answers ans dec n" using assms(3) by (simp_all add: par_inv_def)
  have sub: "mset (pa_failed s) \<subseteq># mset nodes" using l(2) unfolding known_def by (rule subset_mset.order_trans [rotated]) simp
  have "size (mset nodes) \<le> size (mset (pa_failed s))" using l(1) caller_fails(4) by simp
  then have "mset (pa_failed s) = mset nodes" using sub by (metis mset_subset_size not_le subset_mset.le_imp_less_or_eq)
  then have bad: "\<forall>n \<in> set nodes. \<not> answers ans dec n" using l(3) by (metis set_mset_mset)
  have "pa_errs s \<noteq> []" using caller_fails(4) assms(2) by auto
  then obtain e es where e: "pa_errs s = e # es" by (cases "pa_errs s") auto
  then have s': "s' = s\<lparr>pa_result := Some (Inl e)\<rparr>" using caller_fails(1) by simp
  have d: "pa_decoded s = []" using assms(3) bad by (auto simp: par_inv_def split: list.splits)
  then have "\<not> found s" using assms(3) caller_fails(3) by (auto simp: par_inv_def)
  then have "known s' = known s" "found s' = found s" "\<not> found s" using s' by (simp_all add: known_def found_def)
  moreover have "pa_decoded s' = pa_decoded s" "pa_result s' = Some (Inl e)" "pa_errs s' = pa_errs s" "pa_askers s' = pa_askers s"
    "pa_failed s' = pa_failed s" "pa_errChan s' = pa_errChan s" "pa_crashed s' = pa_crashed s" "pa_lock s' = pa_lock s" "pa_done s' = pa_done s"
    "pa_nodes s' = pa_nodes s"
    using s' by simp_all
  ultimately show ?thesis using assms(3) bad unfolding par_inv_def by simp
qed

section \<open>The caller returns\<close>

fun asker_weight :: "('n, 'r) asker \<Rightarrow> nat" where
  "asker_weight Fetching = 2"
| "asker_weight Taking = 1"
| "asker_weight (Asking n) = 7"
| "asker_weight (Replied n r) = 6"
| "asker_weight (Deciding n r) = 5"
| "asker_weight Announcing = 3"
| "asker_weight Finished = 0"

definition weight :: "('n, 'r) parallel \<Rightarrow> nat" where
  "weight s = 9 * length (pa_nodes s) + sum_list (map asker_weight (pa_askers s)) + length (pa_errChan s) + length (pa_decoded s) +
    (if pa_result s = None then 1 else 0) + (if pa_crashed s then 0 else 1)"

lemma weight_decreases: "pa_step ans dec quit nbr s s' \<Longrightarrow> weight s' < weight s"
  by (induction rule: pa_step.induct) (simp_all add: weight_def close_done_def split: list.split)

lemma known_size:
  assumes "par_inv ans dec nodes s"
  shows "size (sum_list (map node_of (pa_askers s))) + length (pa_errs s) + length (pa_errChan s) \<le> length nodes"
proof -
  have "size (known s) \<le> size (mset nodes)" using assms unfolding par_inv_def by (intro size_mset_mono) blast
  moreover have "length (pa_failed s) = length (pa_errs s) + length (pa_errChan s)" using assms by (simp add: par_inv_def)
  ultimately show ?thesis by (simp add: known_def)
qed

lemma holder_steps:
  assumes "par_inv ans dec nodes s" and "w \<in> set (pa_askers s)" and "holds_lock w = 1"
  shows "\<exists>s'. pa_step ans dec quit (length nodes) s s'"
proof -
  have c: "\<not> pa_crashed s" using assms(1) by (simp add: par_inv_def)
  obtain xs ys where a: "pa_askers s = xs @ w # ys" using assms(2) by (auto dest: split_list)
  show ?thesis
  proof (cases w)
    case (Deciding n r)
    have d: "pa_decoded s = []" using deciding_open(5) [OF assms(1)] a Deciding by blast
    have "length (pa_errChan s) < length nodes" using known_size [OF assms(1)] a Deciding by simp
    then show ?thesis using c a Deciding d by (cases "dec r") (blast intro: pa_step.intros)+
  qed (use assms(3) c a in \<open>auto intro: pa_step.intros\<close>)
qed

lemma asker_steps:
  assumes "par_inv ans dec nodes s" and "w \<in> set (pa_askers s)" and "w \<noteq> Finished"
  shows "\<exists>s'. pa_step ans dec quit (length nodes) s s'"
proof -
  have c: "\<not> pa_crashed s" using assms(1) by (simp add: par_inv_def)
  obtain xs ys where a: "pa_askers s = xs @ w # ys" using assms(2) by (auto dest: split_list)
  show ?thesis
  proof (cases w)
    case Fetching
    then show ?thesis using c a by (cases "pa_done s") (blast intro: pa_step.intros)+
  next
    case Taking
    then show ?thesis using c a by (cases "pa_nodes s") (blast intro: pa_step.intros)+
  next
    case (Asking n)
    have "length (pa_errChan s) < length nodes" using known_size [OF assms(1)] a Asking by simp
    then show ?thesis using c a Asking by (cases "ans n") (blast intro: pa_step.intros)+
  next
    case (Replied n r)
    show ?thesis
    proof (cases "pa_lock s")
      case True
      then have "sum_list (map holds_lock (pa_askers s)) = 1" using assms(1) by (simp add: par_inv_def)
      then obtain w' where w': "w' \<in> set (pa_askers s)" "holds_lock w' \<noteq> 0" by (metis sum_list_eq_0_iff imageE set_map zero_neq_one)
      have "holds_lock w' = 1" using w'(2) by (cases w') simp_all
      then show ?thesis by (rule holder_steps [OF assms(1) w'(1)])
    next
      case False
      then show ?thesis using c a Replied by (cases "pa_done s") (blast intro: pa_step.intros)+
    qed
  next
    case (Deciding n r)
    then show ?thesis using holder_steps [OF assms(1,2)] by simp
  next
    case Announcing
    then show ?thesis using holder_steps [OF assms(1,2)] by simp
  qed (use assms(3) in simp)
qed

lemma all_finished: "\<forall>w \<in> set ws. w = Finished \<Longrightarrow> sum_list (map node_of ws) = {#}"
  by (induction ws) auto

lemma caller_steps:
  assumes "par_inv ans dec nodes s" and "nodes \<noteq> []" and "\<forall>w \<in> set (pa_askers s). w = Finished" and "pa_result s = None"
  shows "\<exists>s'. pa_step ans dec False (length nodes) s s'"
proof (cases "length (pa_errs s) < length nodes")
  case less: True
  have c: "\<not> pa_crashed s" using assms(1) by (simp add: par_inv_def)
  have f: "Finished \<in> set (pa_askers s)" using assms(1,3) by (cases "pa_askers s") (auto simp: par_inv_def)
  show ?thesis
  proof (cases "found s")
    case True
    then have "pa_decoded s \<noteq> []" using assms(1,4) by (auto simp: par_inv_def)
    then obtain n where "pa_decoded s = [n]" using assms(1) by (auto simp: par_inv_def split: list.splits)
    then show ?thesis using c assms(4) less by (blast intro: pa_step.intros)
  next
    case False
    then have "known s = mset nodes" "pa_nodes s = []" using assms(1) f by (auto simp: par_inv_def found_def)
    moreover have "sum_list (map node_of (pa_askers s)) = {#}" by (rule all_finished [OF assms(3)])
    ultimately have "size (mset (pa_failed s)) = length nodes" by (simp add: known_def)
    then have "pa_errChan s \<noteq> []" using assms(1) less by (auto simp: par_inv_def)
    then show ?thesis using c assms(4) less by (cases "pa_errChan s") (blast intro: pa_step.intros)+
  qed
next
  case False
  then show ?thesis using assms(1,4) by (auto simp: par_inv_def intro: pa_step.intros)
qed

definition parallel_reachable :: "('n \<Rightarrow> string + 'r) \<Rightarrow> ('r \<Rightarrow> string option) \<Rightarrow> bool \<Rightarrow> nat \<Rightarrow> 'n list \<Rightarrow> ('n, 'r) parallel \<Rightarrow> bool" where
  "parallel_reachable ans dec quit k nodes =
    reachable (\<lambda>s. s = parallel_start k nodes) (pa_step ans dec quit (length nodes))"

definition asking_start :: "nat \<Rightarrow> 'n list \<Rightarrow> ('n, 'r) parallel \<Rightarrow> bool" where
  "asking_start k nodes s \<longleftrightarrow> s = parallel_start k nodes \<and> 0 < k \<and> nodes \<noteq> []"

interpretation asking: invariant_system "asking_start k nodes" "pa_step ans dec False (length nodes)"
  "\<lambda>s. par_inv ans dec nodes s \<and> nodes \<noteq> []" for k nodes ans dec
  by unfold_locales (auto simp: asking_start_def par_inv_start intro: par_inv_step)

lemma reachable_par_inv:
  assumes "parallel_reachable ans dec False k nodes s" and "nodes \<noteq> []" and "0 < k"
  shows "par_inv ans dec nodes s"
proof -
  have "(\<lambda>s. s = parallel_start k nodes) = asking_start k nodes" using assms(2,3) by (simp add: asking_start_def fun_eq_iff)
  then show ?thesis using assms(1) asking.reachable_inv unfolding parallel_reachable_def by metis
qed

text \<open>
  C21: without the option to quit the caller gets an answer if any server has one: nothing crashes, every
  step brings the end nearer and there is one until the caller has returned; what it returns is a server of
  the list whose answer decodes, or an error, and then none of them has such an answer. It needs a list
  that is not empty, and at least one goroutine.
\<close>

theorem parallel_send_finds:
  assumes "parallel_reachable ans dec False k nodes s" and "nodes \<noteq> []" and "0 < k"
  shows "\<not> pa_crashed s \<and> (\<forall>s'. pa_step ans dec False (length nodes) s s' \<longrightarrow> weight s' < weight s) \<and>
    (case pa_result s of
       None \<Rightarrow> \<exists>s'. pa_step ans dec False (length nodes) s s'
     | Some (Inr n) \<Rightarrow> n \<in> set nodes \<and> answers ans dec n
     | Some (Inl e) \<Rightarrow> \<forall>n \<in> set nodes. \<not> answers ans dec n)"
proof (intro conjI allI impI)
  note inv = reachable_par_inv [OF assms]
  show "\<not> pa_crashed s" using inv by (simp add: par_inv_def)
  show "weight s' < weight s" if "pa_step ans dec False (length nodes) s s'" for s' using that by (rule weight_decreases)
  show "case pa_result s of
       None \<Rightarrow> \<exists>s'. pa_step ans dec False (length nodes) s s'
     | Some (Inr n) \<Rightarrow> n \<in> set nodes \<and> answers ans dec n
     | Some (Inl e) \<Rightarrow> \<forall>n \<in> set nodes. \<not> answers ans dec n"
  proof (cases "pa_result s")
    case None
    then have "\<exists>s'. pa_step ans dec False (length nodes) s s'"
      using asker_steps [OF inv] caller_steps [OF inv assms(2)] by blast
    then show ?thesis using None by simp
  next
    case (Some r)
    then show ?thesis using inv by (cases r) (simp_all add: par_inv_def)
  qed
qed

section \<open>The option to quit\<close>

text \<open>
  C22: with the option to quit a caller with two goroutines crashes, if one server fails while another
  answers: the goroutine that has the answer closes \<open>done\<close>, and the caller, which takes the error first,
  closes it again.
\<close>

theorem quitting_can_crash:
  fixes ans :: "'n \<Rightarrow> string + 'r"
  assumes "ans a = Inl e" and "ans b = Inr r" and "dec r = None"
  shows "\<exists>s. parallel_reachable ans dec True (Suc (Suc k)) (a # b # nodes) s \<and> pa_crashed s"
proof -
  define nbr where "nbr = length (a # b # nodes)"
  define rest where "rest = replicate k (Fetching :: ('n, 'r) asker)"
  define st where "st ns ws es ds l d = \<lparr>pa_nodes = ns, pa_askers = ws @ rest, pa_errChan = es, pa_decoded = ds, pa_lock = l, pa_done = d,
     pa_errs = [], pa_result = None, pa_crashed = False, pa_failed = (if es = [] then [] else [a])\<rparr>" for ns ws es ds l d
  let ?R = "parallel_reachable ans dec True (Suc (Suc k)) (a # b # nodes)"
  have next': "?R s \<Longrightarrow> pa_step ans dec True nbr s s' \<Longrightarrow> ?R s'" for s s'
    unfolding parallel_reachable_def nbr_def by (rule next_step)
  have "?R (st (a # b # nodes) [Fetching, Fetching] [] [] False False)"
    unfolding parallel_reachable_def by (rule at_start) (simp add: st_def parallel_start_def rest_def)
  note s0 = this
  have s1: "?R (st (a # b # nodes) [Taking, Fetching] [] [] False False)"
    using next' [OF s0 go_on [where xs = "[]"]] by (simp add: st_def)
  have s2: "?R (st (b # nodes) [Asking a, Fetching] [] [] False False)"
    using next' [OF s1 take_node [where xs = "[]"]] by (simp add: st_def)
  have s3: "?R (st (b # nodes) [Asking a, Taking] [] [] False False)"
    using next' [OF s2 go_on [where xs = "[Asking a]"]] by (simp add: st_def)
  have s4: "?R (st nodes [Asking a, Asking b] [] [] False False)"
    using next' [OF s3 take_node [where xs = "[Asking a]"]] by (simp add: st_def)
  have s5: "?R (st nodes [Fetching, Asking b] [e] [] False False)"
    using next' [OF s4 send_fails [where xs = "[]" and e = e]] assms(1) by (simp add: st_def nbr_def)
  have s6: "?R (st nodes [Fetching, Replied b r] [e] [] False False)"
    using next' [OF s5 replies [where xs = "[Fetching]" and r = r]] assms(2) by (simp add: st_def)
  have s7: "?R (st nodes [Fetching, Deciding b r] [e] [] True False)"
    using next' [OF s6 in_time [where xs = "[Fetching]"]] by (simp add: st_def)
  have s8: "?R (st nodes [Fetching, Announcing] [e] [b] True False)"
    using next' [OF s7 decodes [where xs = "[Fetching]"]] assms(3) by (simp add: st_def)
  have s9: "?R (st nodes [Fetching, Fetching] [e] [b] False True)"
    using next' [OF s8 announces [where xs = "[Fetching]"]] by (simp add: st_def close_done_def)
  let ?s = "st nodes [Fetching, Fetching] [e] [b] False True"
  have "?R (close_done (?s\<lparr>pa_errChan := [], pa_errs := pa_errs ?s @ [e], pa_result := Some (Inl e)\<rparr>))"
    by (rule next' [OF s9 caller_quits]) (simp_all add: st_def nbr_def)
  moreover have "pa_crashed (close_done (?s\<lparr>pa_errChan := [], pa_errs := pa_errs ?s @ [e], pa_result := Some (Inl e)\<rparr>))"
    by (simp add: close_done_def st_def)
  ultimately show ?thesis by blast
qed

section \<open>Sample runs\<close>

definition sample_ans :: "nat \<Rightarrow> string + nat" where
  "sample_ans n = (if n = 1 then Inl ''closed'' else Inr n)"

lemma parallel_send_finds_witness:
  "\<exists>s. parallel_reachable sample_ans (\<lambda>r. None) False 1 [5] s \<and> pa_result s = Some (Inr 5) \<and> answers sample_ans (\<lambda>r. None) 5"
proof -
  define st where "st ns w ds l res = \<lparr>pa_nodes = ns, pa_askers = [w :: (nat, nat) asker], pa_errChan = [], pa_decoded = ds, pa_lock = l, pa_done = False,
     pa_errs = [], pa_result = res, pa_crashed = False, pa_failed = []\<rparr>" for ns w ds l res
  let ?R = "parallel_reachable sample_ans (\<lambda>r. None) False 1 [5]"
  have next': "?R s \<Longrightarrow> pa_step sample_ans (\<lambda>r. None) False 1 s s' \<Longrightarrow> ?R s'" for s s'
    unfolding parallel_reachable_def by (simp add: next_step)
  have s0: "?R (st [5] Fetching [] False None)"
    unfolding parallel_reachable_def by (rule at_start) (simp add: st_def parallel_start_def)
  have s1: "?R (st [5] Taking [] False None)" using next' [OF s0 go_on [where xs = "[]"]] by (simp add: st_def)
  have s2: "?R (st [] (Asking 5) [] False None)" using next' [OF s1 take_node [where xs = "[]"]] by (simp add: st_def)
  have s3: "?R (st [] (Replied 5 5) [] False None)"
    using next' [OF s2 replies [where xs = "[]" and r = 5]] by (simp add: st_def sample_ans_def)
  have s4: "?R (st [] (Deciding 5 5) [] True None)" using next' [OF s3 in_time [where xs = "[]"]] by (simp add: st_def)
  have s5: "?R (st [] Announcing [5] True None)" using next' [OF s4 decodes [where xs = "[]"]] by (simp add: st_def)
  have s6: "?R (st [] Announcing [] True (Some (Inr 5)))" using next' [OF s5 caller_node] by (simp add: st_def)
  show ?thesis using parallel_send_finds [OF s6] s6 by (auto simp: st_def)
qed

lemma quitting_can_crash_witness:
  "\<exists>s. parallel_reachable sample_ans (\<lambda>r. None) True 2 [1, 5] s \<and> pa_crashed s"
  using quitting_can_crash [of sample_ans 1 "''closed''" 5 5 "\<lambda>r. None" 0 "[]"] by (simp add: sample_ans_def numeral_2_eq_2)

end
