(* ===== verification/OnetClient.thy ===== *)
theory OnetClient
  imports NetHost OnetParallel
begin

text \<open>
  A client of services over websockets (\<open>onet/websocket_client.go\<close>): the address of a server's websocket,
  the connections a client keeps, and the choice of the servers that are asked in parallel. Calls are one
  after the other; two calls for one destination wait for each other in the code. Parsing a URL is a
  parameter that gives its scheme, host and path.
\<close>

section \<open>Addresses of websockets\<close>

record url =
  ur_Scheme :: string
  ur_Host :: string
  ur_Path :: string

definition url_String :: "url \<Rightarrow> string" where
  "url_String u = ur_Scheme u @ ''://'' @ ur_Host u @ ur_Path u"

definition validOptionalPort :: "string \<Rightarrow> bool" where
  "validOptionalPort s = (case s of [] \<Rightarrow> True | c # t \<Rightarrow> c = CHR '':'' \<and> list_all is_digit t)"

definition splitHostPort :: "string \<Rightarrow> string \<times> string" where
  "splitHostPort hp =
    (let (host, port) = (case LastIndexByte hp (CHR '':'') of
          None \<Rightarrow> (hp, [])
        | Some i \<Rightarrow> if validOptionalPort (drop i hp) then (take i hp, drop (Suc i) hp) else (hp, []))
     in (if prefix_of ''['' host \<and> host \<noteq> [] \<and> last host = CHR '']'' then butlast (tl host) else host, port))"

definition schemeToPort :: "string \<Rightarrow> string + 16 word" where
  "schemeToPort name = (if name = ''http'' then Inr 80 else if name = ''https'' then Inr 443 else Inl ''no such scheme'')"

definition parse_uint16 :: "string \<Rightarrow> nat option" where
  "parse_uint16 s = (case decimal s of None \<Rightarrow> None | Some n \<Rightarrow> if n < 2 ^ 16 then Some n else None)"

text \<open>The port after the server's own one, in 16 bits.\<close>

definition getWSHostPort :: "(string \<Rightarrow> url option) \<Rightarrow> string \<Rightarrow> string \<Rightarrow> bool \<Rightarrow> string + string" where
  "getWSHostPort parse siURL addr global =
    bindR
      (if siURL \<noteq> [] then
         (case parse siURL of
            None \<Rightarrow> Inl ''unable to parse URL''
          | Some u \<Rightarrow>
              if ur_Scheme u = [] then Inl ''URL is not absolute''
              else bindR (schemeToPort (ur_Scheme u)) (\<lambda>protocolPort.
                let (hostname, portStr) = splitHostPort (ur_Host u) in
                if portStr = [] then Inr (hostname, protocolPort)
                else (case parse_uint16 portStr of
                    None \<Rightarrow> Inl ''URL doesn't contain a valid port''
                  | Some n \<Rightarrow> Inr (hostname, word_of_nat n))))
       else
         (case parse_uint16 (Port addr) of
            None \<Rightarrow> Inl ''unable to parse port of Address as int''
          | Some n \<Rightarrow> Inr (Host addr, word_of_nat (n + 1))))
      (\<lambda>(hostname, port). Inr (JoinHostPort (if global then ''0.0.0.0'' else hostname) (itoa (uint port))))"

text \<open>The URL a destination is dialled with.\<close>

definition server_url :: "(string \<Rightarrow> url option) \<Rightarrow> bool \<Rightarrow> string \<Rightarrow> string \<Rightarrow> string \<Rightarrow> string \<Rightarrow> string + string" where
  "server_url parse tls service siURL addr path =
    (if siURL \<noteq> [] then
       (case parse siURL of
          None \<Rightarrow> Inl ''parsing url: ''
        | Some u \<Rightarrow>
            let u1 = u\<lparr>ur_Scheme := (if ur_Scheme u = ''https'' then ''wss'' else ''ws'')\<rparr>;
                u2 = (if ur_Path u1 \<noteq> [] \<and> last (ur_Path u1) = CHR ''/'' then u1 else u1\<lparr>ur_Path := ur_Path u1 @ ''/''\<rparr>)
            in Inr (url_String (u2\<lparr>ur_Path := ur_Path u2 @ service @ ''/'' @ path\<rparr>)))
     else
       (case getWSHostPort parse siURL addr False of
          Inl e \<Rightarrow> Inl (''parsing port: '' @ e)
        | Inr hp \<Rightarrow> Inr ((if tls then ''wss'' else ''ws'') @ ''://'' @ hp @ ''/'' @ service @ ''/'' @ path)))"

section \<open>Connections\<close>

text \<open>
  A destination is a pointer to an identity, here a number, and a path. A websocket has the messages that are there to be read; it is closed when the peer has closed it
  too.
\<close>

type_synonym destination = "nat \<times> string"

record wsconn =
  wc_open :: bool
  wc_in :: "bytes list"

record Client =
  cl_connections :: "destination \<rightharpoonup> nat"
  cl_keep :: bool
  cl_rx :: u64
  cl_tx :: u64
  cl_conns :: "wsconn list"

definition NewClient :: Client where
  "NewClient = \<lparr>cl_connections = Map.empty, cl_keep = False, cl_rx = 0, cl_tx = 0, cl_conns = []\<rparr>"

definition NewClientKeep :: Client where
  "NewClientKeep = NewClient\<lparr>cl_keep := True\<rparr>"

text \<open>\<open>answers\<close> is what dialling comes to, try by try; None while it is not decided.\<close>

definition newConnIfNotExist :: "(string + string) \<Rightarrow> (string \<Rightarrow> (string + unit) list) \<Rightarrow> destination \<Rightarrow> Client \<Rightarrow> ((string + nat) \<times> Client) option" where
  "newConnIfNotExist serverURL dial d cl =
    (case cl_connections cl d of
       Some k \<Rightarrow> Some (Inr k, cl)
     | None \<Rightarrow>
         (case serverURL of
            Inl e \<Rightarrow> Some (Inl e, cl)
          | Inr u \<Rightarrow>
              (case retry MaxRetryConnect (dial u) of
                 None \<Rightarrow> None
               | Some (Inl e) \<Rightarrow> Some (Inl (''dial: '' @ e), cl)
               | Some (Inr _) \<Rightarrow>
                   (let k = length (cl_conns cl) in
                    Some (Inr k, cl\<lparr>cl_connections := (cl_connections cl)(d \<mapsto> k), cl_conns := cl_conns cl @ [\<lparr>wc_open = True, wc_in = []\<rparr>]\<rparr>)))))"

definition set_wsconn :: "nat \<Rightarrow> wsconn \<Rightarrow> Client \<Rightarrow> Client" where
  "set_wsconn k w cl = cl\<lparr>cl_conns := (cl_conns cl)[k := w]\<rparr>"

definition closeConn :: "destination \<Rightarrow> Client \<Rightarrow> Client" where
  "closeConn d cl =
    (case cl_connections cl d of
       None \<Rightarrow> cl
     | Some k \<Rightarrow> set_wsconn k ((cl_conns cl ! k)\<lparr>wc_open := False\<rparr>) (cl\<lparr>cl_connections := (cl_connections cl)(d := None)\<rparr>))"

definition closeSingleUseConn :: "destination \<Rightarrow> Client \<Rightarrow> Client" where
  "closeSingleUseConn d cl = (if cl_keep cl then cl else closeConn d cl)"

text \<open>\<open>srv\<close> is what the peer of a connection sends for a message that is written on it.\<close>

definition ws_write :: "(nat \<Rightarrow> bytes \<Rightarrow> bytes list) \<Rightarrow> nat \<Rightarrow> bytes \<Rightarrow> Client \<Rightarrow> bool \<times> Client" where
  "ws_write srv k buf cl =
    (let w = cl_conns cl ! k in
     if wc_open w then (True, set_wsconn k (w\<lparr>wc_in := wc_in w @ srv k buf\<rparr>) cl) else (False, cl))"

definition ws_read :: "nat \<Rightarrow> Client \<Rightarrow> bytes option \<times> Client" where
  "ws_read k cl =
    (let w = cl_conns cl ! k in
     case wc_in w of [] \<Rightarrow> (None, cl) | m # ms \<Rightarrow> (Some m, set_wsconn k (w\<lparr>wc_in := ms\<rparr>) cl))"

definition send_ends :: "destination \<Rightarrow> bytes \<Rightarrow> bytes \<Rightarrow> Client \<Rightarrow> Client" where
  "send_ends d buf rcv cl =
    (let cl1 = closeSingleUseConn d cl in
     cl1\<lparr>cl_rx := cl_rx cl1 + word_of_nat (length rcv), cl_tx := cl_tx cl1 + word_of_nat (length buf)\<rparr>)"

definition cl_Send :: "(string + string) \<Rightarrow> (string \<Rightarrow> (string + unit) list) \<Rightarrow> (nat \<Rightarrow> bytes \<Rightarrow> bytes list) \<Rightarrow> destination \<Rightarrow> bytes \<Rightarrow>
    Client \<Rightarrow> ((string + bytes) \<times> Client) option" where
  "cl_Send serverURL dial srv d buf cl =
    (case newConnIfNotExist serverURL dial d cl of
       None \<Rightarrow> None
     | Some (Inl e, cl1) \<Rightarrow> Some (Inl (''new connection: '' @ e), cl1)
     | Some (Inr k, cl1) \<Rightarrow>
         (case ws_write srv k buf cl1 of
            (False, cl2) \<Rightarrow> Some (Inl ''connection write: '', send_ends d buf [] cl2)
          | (True, cl2) \<Rightarrow>
              (case ws_read k cl2 of
                 (None, cl3) \<Rightarrow> Some (Inl ''connection read: '', send_ends d buf [] cl3)
               | (Some rcv, cl3) \<Rightarrow> Some (Inr rcv, send_ends d buf rcv cl3))))"

text \<open>\<open>Stream\<close> leaves its connection in the map, whatever \<open>keep\<close> is; the caller reads from it.\<close>

definition cl_Stream :: "(string + string) \<Rightarrow> (string \<Rightarrow> (string + unit) list) \<Rightarrow> (nat \<Rightarrow> bytes \<Rightarrow> bytes list) \<Rightarrow> destination \<Rightarrow> bytes \<Rightarrow>
    Client \<Rightarrow> ((string + nat) \<times> Client) option" where
  "cl_Stream serverURL dial srv d buf cl =
    (case newConnIfNotExist serverURL dial d cl of
       None \<Rightarrow> None
     | Some (Inl e, cl1) \<Rightarrow> Some (Inl e, cl1)
     | Some (Inr k, cl1) \<Rightarrow>
         (case ws_write srv k buf cl1 of
            (False, cl2) \<Rightarrow> Some (Inl ''write'', cl2)
          | (True, cl2) \<Rightarrow> Some (Inr k, cl2\<lparr>cl_tx := cl_tx cl2 + word_of_nat (length buf)\<rparr>)))"

definition readMsg :: "(bytes \<Rightarrow> 'v option) \<Rightarrow> nat \<Rightarrow> Client \<Rightarrow> (string + 'v) \<times> Client" where
  "readMsg dec k cl =
    (case ws_read k cl of
       (None, cl1) \<Rightarrow> (Inl ''connection read: '', cl1)
     | (Some buf, cl1) \<Rightarrow> (case dec buf of None \<Rightarrow> (Inl ''decoding: '', cl1) | Some v \<Rightarrow> (Inr v, cl1)))"

text \<open>\<open>Close\<close> goes over the destinations in the order of the map.\<close>

fun cl_Close :: "destination list \<Rightarrow> Client \<Rightarrow> Client" where
  "cl_Close [] cl = cl"
| "cl_Close (d # ds) cl = cl_Close ds (closeConn d cl)"

fun cl_sends :: "(string + string) \<Rightarrow> (string \<Rightarrow> (string + unit) list) \<Rightarrow> (nat \<Rightarrow> bytes \<Rightarrow> bytes list) \<Rightarrow> destination \<Rightarrow> bytes list \<Rightarrow>
    Client \<Rightarrow> ((string + bytes) list \<times> Client) option" where
  "cl_sends serverURL dial srv d [] cl = Some ([], cl)"
| "cl_sends serverURL dial srv d (buf # bufs) cl =
    (case cl_Send serverURL dial srv d buf cl of
       None \<Rightarrow> None
     | Some (r, cl1) \<Rightarrow> map_option (\<lambda>(rs, cl2). (r # rs, cl2)) (cl_sends serverURL dial srv d bufs cl1))"

text \<open>
  \<open>SendToAll\<close>: the replies in the order of the roster, an empty one for a server that failed, and the errors
  with the name of their server. Each server comes with its URL, destination and name.
\<close>

fun cl_SendToAll :: "(string \<Rightarrow> (string + unit) list) \<Rightarrow> (nat \<Rightarrow> bytes \<Rightarrow> bytes list) \<Rightarrow> ((string + string) \<times> destination \<times> string) list \<Rightarrow> bytes \<Rightarrow>
    Client \<Rightarrow> (bytes list \<times> string list \<times> Client) option" where
  "cl_SendToAll dial srv [] buf cl = Some ([], [], cl)"
| "cl_SendToAll dial srv ((u, d, name) # es) buf cl =
    (case cl_Send u dial srv d buf cl of
       None \<Rightarrow> None
     | Some (r, cl1) \<Rightarrow> map_option (\<lambda>(msgs, errs, cl2).
           (case r of Inl e \<Rightarrow> ([] # msgs, (name @ e) # errs, cl2) | Inr m \<Rightarrow> (m # msgs, errs, cl2)))
         (cl_SendToAll dial srv es buf cl1))"

section \<open>Choosing servers\<close>

record 'p ParallelOptions =
  po_Parallel :: int
  po_AskNodes :: int
  po_StartNode :: int
  po_QuitError :: bool
  po_IgnoreNodes :: "'p ServerIdentity list"
  po_DontShuffle :: bool

definition po_Quit :: "'p ParallelOptions option \<Rightarrow> bool" where
  "po_Quit po = (case po of None \<Rightarrow> False | Some opt \<Rightarrow> po_QuitError opt)"

definition startNode :: "'p ParallelOptions option \<Rightarrow> nat \<Rightarrow> nat" where
  "startNode po n =
    (case po of None \<Rightarrow> 0 | Some opt \<Rightarrow> if po_StartNode opt > 0 \<and> po_StartNode opt < int n then nat (po_StartNode opt) else 0)"

definition askNodes :: "'p ParallelOptions option \<Rightarrow> nat \<Rightarrow> nat" where
  "askNodes po n =
    (case po of
       None \<Rightarrow> n
     | Some opt \<Rightarrow> if po_AskNodes opt > 0 \<and> po_AskNodes opt < int n then nat (po_AskNodes opt) else n - startNode po n)"

definition parallel_of :: "'p ParallelOptions option \<Rightarrow> nat \<Rightarrow> nat" where
  "parallel_of po n =
    (let half = (n + 1) div 2 in
     case po of
       None \<Rightarrow> half
     | Some opt \<Rightarrow>
         (let k = (if po_Parallel opt > 0 \<and> po_Parallel opt < int half then nat (po_Parallel opt) else half)
          in if askNodes po n < k then askNodes po n else k))"

definition ignored :: "'p ParallelOptions option \<Rightarrow> 'p ServerIdentity \<Rightarrow> bool" where
  "ignored po node = (case po of None \<Rightarrow> False | Some opt \<Rightarrow> list_ex (si_Equal node) (po_IgnoreNodes opt))"

text \<open>The loop that fills the channel; \<open>perm\<close> is \<open>rand.Perm\<close>, which is drawn unless the nodes are not to be shuffled.\<close>

fun fill_nodes :: "'p ParallelOptions option \<Rightarrow> 'p ServerIdentity list \<Rightarrow> nat list \<Rightarrow> 'p ServerIdentity list \<Rightarrow> 'p ServerIdentity list" where
  "fill_nodes po nodes [] ch = ch"
| "fill_nodes po nodes (j # perm) ch =
    (let node = nodes ! ((startNode po (length nodes) + j) mod length nodes);
         ch' = (if ignored po node then ch else ch @ [node])
     in if length ch' = askNodes po (length nodes) then ch' else fill_nodes po nodes perm ch')"

definition GetList :: "'p ParallelOptions option \<Rightarrow> nat list \<Rightarrow> 'p ServerIdentity list \<Rightarrow> nat \<times> 'p ServerIdentity list" where
  "GetList po perm nodes =
    (let order = (case po of None \<Rightarrow> perm | Some opt \<Rightarrow> if po_DontShuffle opt \<and> nodes \<noteq> [] then [0..<length nodes] else perm)
     in (parallel_of po (length nodes), fill_nodes po nodes order []))"

text \<open>\<open>SendProtobufParallel\<close> starts as many goroutines, on the channel of these nodes.\<close>

definition start_parallel :: "'p ParallelOptions option \<Rightarrow> nat list \<Rightarrow> 'p ServerIdentity list \<Rightarrow> ('p ServerIdentity, 'r) parallel" where
  "start_parallel po perm nodes = (let (k, ch) = GetList po perm nodes in parallel_start k ch)"

section \<open>Ports\<close>

lemma char_zero: "char_of (48 :: nat) = CHR ''0''"
  by code_simp

text \<open>
  The websocket of a server without a URL is on the port after its own. After 65535 comes 0, which the
  system replaces by any free port when the server listens, so that no client finds it.
\<close>

theorem ws_port:
  assumes "t \<in> {PlainTCP, TLS, Local}" and "set host \<inter> {CHR ''['', CHR '']'', CHR ''/''} = {}"
    and "host = [] \<or> ParseIP host \<or> validHostname host" and "decimal port = Some n" and "n \<le> 65535"
  shows "getWSHostPort parse [] (NewAddress t (JoinHostPort host port)) global =
    Inr (JoinHostPort (if global then ''0.0.0.0'' else host) (if n = 65535 then ''0'' else itoa (int n + 1)))"
proof -
  have a: "Host (NewAddress t (JoinHostPort host port)) = host" "Port (NewAddress t (JoinHostPort host port)) = port"
    using address_roundtrip [OF assms] by (simp_all add: Let_def)
  have "uint (word_of_nat (n + 1) :: 16 word) = int ((n + 1) mod 2 ^ 16)" by (subst unsigned_of_nat) (simp add: take_bit_eq_mod)
  also have "\<dots> = (if n = 65535 then 0 else int n + 1)" using assms(5) by auto
  finally have "itoa (uint (word_of_nat (n + 1) :: 16 word)) = (if n = 65535 then ''0'' else itoa (int n + 1))"
    by (simp add: itoa_def digits.simps char_zero)
  moreover have "parse_uint16 port = Some n" using assms(4,5) by (simp add: parse_uint16_def)
  ultimately show ?thesis by (simp add: getWSHostPort_def a del: of_nat_add)
qed

section \<open>Connections that broke\<close>

lemma length_set_wsconn [simp]: "length (cl_conns (set_wsconn k w cl)) = length (cl_conns cl)"
  by (simp add: set_wsconn_def)

lemma send_on_broken:
  assumes "cl_connections cl d = Some k" and "\<not> wc_open (cl_conns cl ! k)"
  shows "\<exists>cl'. cl_Send u dial srv d buf cl = Some (Inl ''connection write: '', cl') \<and> cl_keep cl' = cl_keep cl \<and>
    (if cl_keep cl then cl_connections cl' d = Some k \<and> cl_conns cl' = cl_conns cl else cl_connections cl' d = None)"
  using assms by (auto simp: cl_Send_def newConnIfNotExist_def ws_write_def send_ends_def closeSingleUseConn_def closeConn_def set_wsconn_def Let_def)

lemma send_on_new:
  assumes "cl_connections cl d = None" and "\<not> cl_keep cl" and "dial u = Inr () # as" and "\<forall>k b. srv k b \<noteq> []"
  shows "\<exists>cl' r. cl_Send (Inr u) dial srv d buf cl = Some (Inr r, cl') \<and> \<not> cl_keep cl' \<and> cl_connections cl' d = None"
proof -
  obtain r rs where r: "srv (length (cl_conns cl)) buf = r # rs" using assms(4) by (meson neq_Nil_conv)
  show ?thesis using assms(1-3) r
    by (auto simp: cl_Send_def newConnIfNotExist_def MaxRetryConnect_def numeral_eq_Suc ws_write_def ws_read_def send_ends_def closeSingleUseConn_def
        closeConn_def set_wsconn_def Let_def nth_append)
qed

lemma sends_broken_keep:
  "cl_connections cl d = Some k \<Longrightarrow> \<not> wc_open (cl_conns cl ! k) \<Longrightarrow> cl_keep cl \<Longrightarrow>
    \<exists>cl'. cl_sends u dial srv d bufs cl = Some (replicate (length bufs) (Inl ''connection write: ''), cl')"
proof (induction bufs arbitrary: cl)
  case (Cons b bufs)
  from send_on_broken [OF Cons.prems(1,2)] Cons.prems(3) obtain cl1 where c: "cl_Send u dial srv d b cl = Some (Inl ''connection write: '', cl1)"
    "cl_keep cl1" "cl_connections cl1 d = Some k" "cl_conns cl1 = cl_conns cl" by metis
  from Cons.IH [OF c(3) _ c(2)] Cons.prems(2) c(1,4) show ?case by auto
qed simp

lemma sends_new:
  assumes "dial u = Inr () # as" and "\<forall>k b. srv k b \<noteq> []"
  shows "cl_connections cl d = None \<Longrightarrow> \<not> cl_keep cl \<Longrightarrow>
    \<exists>rs cl'. cl_sends (Inr u) dial srv d bufs cl = Some (map Inr rs, cl') \<and> length rs = length bufs"
proof (induction bufs arbitrary: cl)
  case (Cons b bufs)
  from send_on_new [where dial = dial and u = u and srv = srv, OF Cons.prems(1,2) assms] obtain cl1 r where c: "cl_Send (Inr u) dial srv d b cl = Some (Inr r, cl1)"
    "\<not> cl_keep cl1" "cl_connections cl1 d = None" by metis
  from Cons.IH [OF c(3,2)] obtain rs cl' where "cl_sends (Inr u) dial srv d bufs cl1 = Some (map Inr rs, cl')" "length rs = length bufs" by blast
  then have "cl_sends (Inr u) dial srv d (b # bufs) cl = Some (map Inr (r # rs), cl')" using c(1) by simp
  then show ?case using \<open>length rs = length bufs\<close> by (intro exI [of _ "r # rs"]) simp
qed simp

text \<open>
  What a connection that broke does to a client. When the client keeps its connections it fails for
  this destination for good, although the server could be reached again; when it does not, the first
  request fails and all later ones are answered over new connections.
\<close>

theorem broken_connection:
  assumes "cl_connections cl d = Some k" and "\<not> wc_open (cl_conns cl ! k)" and "dial u = Inr () # as" and "\<forall>k b. srv k b \<noteq> []"
  shows "\<exists>rs cl'. cl_sends (Inr u) dial srv d (buf # bufs) cl = Some (rs, cl') \<and> length rs = Suc (length bufs) \<and>
    (\<forall>i \<le> length bufs. isl (rs ! i) \<longleftrightarrow> cl_keep cl \<or> i = 0)"
proof (cases "cl_keep cl")
  case True
  from sends_broken_keep [OF assms(1,2) True] obtain cl' where
    "cl_sends (Inr u) dial srv d (buf # bufs) cl = Some (replicate (length (buf # bufs)) (Inl ''connection write: ''), cl')" by blast
  moreover have "\<forall>i \<le> length bufs. isl (replicate (length (buf # bufs)) (Inl ''connection write: '') ! i) \<longleftrightarrow> cl_keep cl \<or> i = 0"
    using True by (simp add: less_Suc_eq_le del: replicate_Suc)
  ultimately show ?thesis by (metis length_Cons length_replicate)
next
  case False
  from send_on_broken [OF assms(1,2)] False obtain cl1 where c: "cl_Send (Inr u) dial srv d buf cl = Some (Inl ''connection write: '', cl1)"
    "\<not> cl_keep cl1" "cl_connections cl1 d = None" by metis
  from sends_new [where dial = dial and u = u and srv = srv, OF assms(3,4) c(3,2)] obtain rs cl' where r: "cl_sends (Inr u) dial srv d bufs cl1 = Some (map Inr rs, cl')" "length rs = length bufs"
    by blast
  have "cl_sends (Inr u) dial srv d (buf # bufs) cl = Some (Inl ''connection write: '' # map Inr rs, cl')" using c(1) r(1) by simp
  moreover have "\<forall>i \<le> length bufs. isl ((Inl ''connection write: '' # map Inr rs) ! i) \<longleftrightarrow> cl_keep cl \<or> i = 0"
    using False r(2) by (auto simp: nth_Cons split: nat.split)
  ultimately show ?thesis using r(2) by (metis length_Cons length_map)
qed

section \<open>Streams and requests\<close>

text \<open>
  A request for the path of a stream goes over the stream's connection: its reply is the next message of
  the stream, and the stream is closed after it unless connections are kept.
\<close>

theorem request_takes_streamed_message:
  assumes "cl_Stream url dial srv d req cl = Some (Inr k, cl1)" and "cl_connections cl d = None" and "srv k req = r # rs"
  shows "\<exists>cl2. cl_Send url dial srv d buf cl1 = Some (Inr r, cl2) \<and>
    (\<not> cl_keep cl \<longrightarrow> cl_connections cl2 d = None \<and> \<not> wc_open (cl_conns cl2 ! k))"
proof -
  have k: "k = length (cl_conns cl)"
    "cl1 = cl\<lparr>cl_connections := (cl_connections cl)(d \<mapsto> k), cl_conns := cl_conns cl @ [\<lparr>wc_open = True, wc_in = r # rs\<rparr>],
      cl_tx := cl_tx cl + word_of_nat (length req)\<rparr>"
    using assms by (auto simp: cl_Stream_def newConnIfNotExist_def ws_write_def set_wsconn_def Let_def split: option.splits sum.splits if_splits)
  show ?thesis unfolding k(2)
    by (simp add: k(1) cl_Send_def newConnIfNotExist_def ws_write_def ws_read_def send_ends_def closeSingleUseConn_def closeConn_def
        set_wsconn_def Let_def nth_append)
qed

section \<open>Which servers are asked\<close>

lemma fill_nodes_take:
  "length ch < askNodes po (length nodes) \<Longrightarrow>
    fill_nodes po nodes perm ch = ch @ take (askNodes po (length nodes) - length ch)
      (filter (\<lambda>node. \<not> ignored po node) (map (\<lambda>j. nodes ! ((startNode po (length nodes) + j) mod length nodes)) perm))"
proof (induction perm arbitrary: ch)
  case (Cons j perm)
  let ?node = "nodes ! ((startNode po (length nodes) + j) mod length nodes)" let ?ask = "askNodes po (length nodes)"
  show ?case
  proof (cases "ignored po ?node")
    case True
    then show ?thesis using Cons by (simp add: Let_def)
  next
    case False
    then have "fill_nodes po nodes (j # perm) ch =
      (if Suc (length ch) = ?ask then ch @ [?node] else fill_nodes po nodes perm (ch @ [?node]))" by (simp add: Let_def)
    then have f: "fill_nodes po nodes (j # perm) ch =
      (if Suc (length ch) = ?ask then ch @ [?node] else fill_nodes po nodes perm (ch @ [?node]))" .
    have d: "?ask - length ch = Suc (?ask - Suc (length ch))" using Cons.prems by simp
    show ?thesis
    proof (cases "Suc (length ch) = ?ask")
      case True
      then show ?thesis unfolding f d using False by simp
    next
      case less: False
      then have "fill_nodes po nodes perm (ch @ [?node]) = (ch @ [?node]) @ take (?ask - length (ch @ [?node]))
        (filter (\<lambda>node. \<not> ignored po node) (map (\<lambda>j. nodes ! ((startNode po (length nodes) + j) mod length nodes)) perm))"
        using Cons.prems by (intro Cons.IH) simp
      then show ?thesis unfolding f d using False less by simp
    qed
  qed
qed simp

lemma ask_bounds: "0 < n \<Longrightarrow> 0 < askNodes po n \<and> askNodes po n \<le> n \<and> 0 < parallel_of po n \<and> parallel_of po n \<le> askNodes po n"
  by (auto simp: askNodes_def startNode_def parallel_of_def Let_def split: option.split)

lemma shift_inj: "x < n \<Longrightarrow> y < n \<Longrightarrow> (m + x) mod n = (m + y) mod (n :: nat) \<Longrightarrow> x = y"
proof (induction x y rule: linorder_wlog)
  case (le x y)
  have "(m + y) mod n = (m + x) mod n" "m + x \<le> m + y" using le by simp_all
  then obtain q where "m + y = m + x + n * q" by (rule mod_eq_nat1E)
  then show ?case using le by (cases q) auto
next
  case (sym x y)
  then show ?case by simp
qed

lemma shifted_set:
  assumes "mset perm = mset [0..<length nodes]" and "nodes \<noteq> []"
  shows "set (map (\<lambda>j. nodes ! ((m + j) mod length nodes)) perm) = set nodes"
proof -
  have p: "set perm = {0..<length nodes}" using mset_eq_setD [OF assms(1)] by simp
  have "(\<lambda>j. (m + j) mod length nodes) ` {0..<length nodes} = {0..<length nodes}"
  proof (rule endo_inj_surj)
    show "(\<lambda>j. (m + j) mod length nodes) ` {0..<length nodes} \<subseteq> {0..<length nodes}" using assms(2) by auto
    show "inj_on (\<lambda>j. (m + j) mod length nodes) {0..<length nodes}"
    proof (rule inj_onI)
      fix x y assume "x \<in> {0..<length nodes}" "y \<in> {0..<length nodes}" "(m + x) mod length nodes = (m + y) mod length nodes"
      then show "x = y" using shift_inj [of x "length nodes" y m] by simp
    qed
  qed simp
  then have "(\<lambda>j. nodes ! ((m + j) mod length nodes)) ` set perm = (\<lambda>j. nodes ! j) ` {0..<length nodes}"
    unfolding p by (metis (no_types, lifting) image_cong image_image)
  moreover have "(\<lambda>j. nodes ! j) ` {0..<length nodes} = set nodes" by (auto simp: set_conv_nth)
  ultimately show ?thesis unfolding set_map by simp
qed

text \<open>
  Which servers are asked. They are the first ones, in the order of the permutation turned by the start,
  that are not to be ignored, as many as are to be asked; some are there unless all are to be ignored, and
  the goroutines are at least one and at most as many. An ignored server does not count as asked, and a
  start later in the list does not keep the servers before it from being asked.
\<close>

theorem nodes_asked:
  assumes "nodes \<noteq> []" and "mset perm = mset [0..<length nodes]" and "GetList po perm nodes = (k, asked)"
  shows "(\<exists>order. mset order = mset [0..<length nodes] \<and>
      (if (case po of None \<Rightarrow> False | Some opt \<Rightarrow> po_DontShuffle opt) then order = [0..<length nodes] else order = perm) \<and>
      asked = take (askNodes po (length nodes)) (filter (\<lambda>node. \<not> ignored po node)
        (map (\<lambda>j. nodes ! ((startNode po (length nodes) + j) mod length nodes)) order))) \<and>
    (asked = [] \<longleftrightarrow> (\<forall>node \<in> set nodes. ignored po node)) \<and> 0 < k \<and> k \<le> askNodes po (length nodes)"
proof -
  define order where "order = (if (case po of None \<Rightarrow> False | Some opt \<Rightarrow> po_DontShuffle opt) then [0..<length nodes] else perm)"
  have g: "k = parallel_of po (length nodes)" "asked = fill_nodes po nodes order []"
    using assms(1,3) by (auto simp: GetList_def order_def split: option.splits)
  have b: "0 < askNodes po (length nodes)" "0 < k" "k \<le> askNodes po (length nodes)" using ask_bounds [of "length nodes" po] assms(1) g(1) by simp_all
  have m: "mset order = mset [0..<length nodes]" using assms(2) by (simp add: order_def)
  let ?l = "map (\<lambda>j. nodes ! ((startNode po (length nodes) + j) mod length nodes)) order"
  have a: "asked = take (askNodes po (length nodes)) (filter (\<lambda>node. \<not> ignored po node) ?l)"
    using fill_nodes_take [of "[]" po nodes order] b(1) g(2) by simp
  have "asked = [] \<longleftrightarrow> filter (\<lambda>node. \<not> ignored po node) ?l = []" unfolding a using b(1) by simp
  also have "\<dots> \<longleftrightarrow> (\<forall>node \<in> set ?l. ignored po node)" by (simp add: filter_empty_conv)
  also have "\<dots> \<longleftrightarrow> (\<forall>node \<in> set nodes. ignored po node)" unfolding shifted_set [OF m assms(1)] ..
  finally have "asked = [] \<longleftrightarrow> (\<forall>node \<in> set nodes. ignored po node)" .
  then show ?thesis using a b m by (intro conjI exI [of _ order]) (simp_all add: order_def)
qed

text \<open>When all servers are to be ignored, or there are none, the caller takes the first of no errors.\<close>

lemma nobody_asked_crashes:
  fixes ans :: "'p ServerIdentity \<Rightarrow> string + 'r"
  assumes "snd (GetList po perm nodes) = []"
  shows "\<exists>s'. pa_step ans dec quit 0 (start_parallel po perm nodes) s' \<and> pa_crashed s'"
proof -
  obtain k where k: "start_parallel po perm nodes = (parallel_start k [] :: ('p ServerIdentity, 'r) parallel)"
    using assms that [of "fst (GetList po perm nodes)"] by (simp add: start_parallel_def case_prod_beta)
  have "pa_step ans dec quit 0 (parallel_start k []) ((parallel_start k [])\<lparr>pa_crashed := True\<rparr>)"
    using caller_fails [of "parallel_start k []" 0 ans dec quit] by (simp add: parallel_start_def)
  then show ?thesis unfolding k by (intro exI [of _ "(parallel_start k [])\<lparr>pa_crashed := True\<rparr>"]) simp
qed

lemma ws_port_witness:
  "getWSHostPort Map.empty [] (NewAddress TLS (JoinHostPort ''192.168.1.10'' ''5678'')) False = Inr (JoinHostPort ''192.168.1.10'' (itoa 5679))"
proof -
  have "ParseIP ''192.168.1.10''"
    by (simp add: ParseIP_def parseIPv4_def strings_Split_def octet_ok_def decimal_def is_digit_def digits_value_def)
  moreover have "decimal ''5678'' = Some 5678" by (simp add: decimal_def is_digit_def digits_value_def)
  ultimately show ?thesis using ws_port [of TLS "''192.168.1.10''" "''5678''" 5678 Map.empty False] by simp
qed

definition sample_client :: "bool \<Rightarrow> Client" where
  "sample_client keep = \<lparr>cl_connections = [(1, ''p'') \<mapsto> 0], cl_keep = keep, cl_rx = 0, cl_tx = 0, cl_conns = [\<lparr>wc_open = False, wc_in = []\<rparr>]\<rparr>"

lemma broken_connection_witness:
  "\<exists>rs cl'. cl_sends (Inr ''ws://h/s/p'') (\<lambda>u. [Inr ()]) (\<lambda>k b. [b]) (1, ''p'') [[1], [2]] (sample_client True) = Some (rs, cl') \<and> isl (rs ! 1)"
  using broken_connection [of "sample_client True" "(1, ''p'')" 0 "\<lambda>u. [Inr ()]" "''ws://h/s/p''" "[]" "\<lambda>k b. [b]" "[1]" "[[2]]"]
  by (auto simp: sample_client_def)

lemma nodes_asked_witness:
  "\<exists>k asked. GetList (None :: nat ParallelOptions option) [1, 0]
      [\<lparr>si_Public = Some 1, ServiceIdentities = [], si_ID = 0, si_Address = []\<rparr>, \<lparr>si_Public = Some 2, ServiceIdentities = [], si_ID = 0, si_Address = []\<rparr>] = (k, asked) \<and>
    asked \<noteq> [] \<and> 0 < k"
proof -
  let ?nodes = "[\<lparr>si_Public = Some 1, ServiceIdentities = [], si_ID = 0, si_Address = []\<rparr>, \<lparr>si_Public = Some 2, ServiceIdentities = [], si_ID = 0, si_Address = []\<rparr>]
    :: nat ServerIdentity list"
  obtain k asked where g: "GetList None [1, 0] ?nodes = (k, asked)" by fastforce
  from nodes_asked [OF _ _ g] have "asked \<noteq> [] \<and> 0 < k" by (simp add: ignored_def upt_rec)
  then show ?thesis using g by blast
qed

end
