(* ===== verification/Spec2Isabelle.thy ===== *)
theory Spec2Isabelle
  imports MainChainAgreements SideChainTake SubBlsCosi NodeProtocol RootRun OnetBig OnetNodeAuth OnetOverlayRun NetRouterRun
    NetRouterSend Por OnetStream NetTls OnetService OnetClient
begin

text \<open>
  ChainBoost simulates a blockchain with a side chain: servers store files for clients, prove every round
  that they still have them, and a main chain and a side chain record the agreements and the proofs. The
  implementation is in Go: \<open>src/MainAndSideChain\<close> holds the two chains and the protocol the nodes run,
  \<open>MainAndSideChain/BLSCoSi\<close> the collective signature of the side chain's committee, \<open>src/por\<close> the proofs
  of retrievability, and \<open>src/onet\<close> the framework below: rosters and trees of servers, protocol
  instances, the overlay that hands them messages, and the network.

  The parts and how they interact. The root node keeps both chains in two SQLite databases. Each main
  chain round it collects new transactions from the table of agreements into two queues, announces the
  round, elects the first leader that answers, and takes as many queued transactions as fit a block. Each
  side chain round the leader of a committee collects signatures over a tree of subtrees; the root then
  takes the proofs that fit a meta block, and at the end of an epoch sums them up, moves the summary to
  the main chain as a sync transaction and chooses the next committee. All messages go through instances
  on the nodes of a tree, through the overlay of each server, its router and a connection.

  Where the code is modelled.

  \<^item> \<open>Prelude\<close>, \<open>Transition\<close>, \<open>Greedy\<close>, \<open>GoFloat\<close>: Go's failures as a sum type, its division and its
    conversions through float64, batches of rows, reachable states and invariants of a step relation, and
    the greedy choice of a prefix that fits a budget.
  \<^item> \<open>SqlTable\<close>, \<open>BlockchainDb\<close> (\<open>blockchain/dbbc.go\<close>): tables with row ids; one definition per exported
    statement. \<open>Measurements\<close>: \<open>transactions.go\<close>, \<open>measurements.go\<close>. \<open>CentralBC\<close>: \<open>centralbc.go\<close>.
  \<^item> \<open>ChainBoost\<close>: the instance's fields. \<open>MainChain\<close>: \<open>MainChainBlockChain.go\<close>; what its two big
    operations do is in \<open>MainChainCollect\<close>, \<open>MainChainTake\<close> and \<open>MainChainBlock\<close>, the life cycle of an
    agreement in \<open>MainChainAgreements\<close>. \<open>SideChain\<close>, \<open>SideChainTake\<close>: \<open>SideChainBlockChain.go\<close>.
  \<^item> \<open>SideProtocol\<close>: \<open>SideChainProtocol(ChainBoost).go\<close>. \<open>RootProtocol\<close>: the root's cases of \<open>Dispatch\<close> and
    \<open>MainChainProtocol.go\<close> as a step relation; \<open>RootLeader\<close>, \<open>RootChain\<close> and \<open>RootRun\<close> show who closes a
    round and what both chains satisfy in every reachable state. \<open>NodeProtocol\<close>: what every node does.
  \<^item> \<open>GenTree\<close>, \<open>BlsCosi\<close>, \<open>BlsSignature\<close>, \<open>SubBlsCosi\<close>: the four files of \<open>BLSCoSi\<close>. \<open>Por\<close>: \<open>por/por.go\<close>.
  \<^item> \<open>OnetRoster\<close>, \<open>OnetTree\<close>, \<open>OnetGen\<close>, \<open>OnetNary\<close>, \<open>OnetBig\<close>: \<open>onet/tree.go\<close> and the identities of
    \<open>onet/network/struct.go\<close>. \<open>OnetStorage\<close>: \<open>onet/treestorage.go\<close>. \<open>OnetNode\<close>, \<open>OnetNodeRun\<close>,
    \<open>OnetNodeAuth\<close>: \<open>onet/treenode.go\<close> and \<open>onet/messages.go\<close>. \<open>OnetOverlay\<close>, \<open>OnetOverlayRun\<close>:
    \<open>onet/overlay.go\<close>. \<open>OnetProcessor\<close>, \<open>OnetStream\<close>: \<open>processor.go\<close> and \<open>websocket.go\<close>.
    \<open>OnetWire\<close>: what a message is wrapped into, and \<open>protocol.go\<close>. \<open>OnetService\<close>: \<open>service.go\<close>,
    \<open>server.go\<close> and \<open>context.go\<close>. \<open>OnetClient\<close>, \<open>OnetParallel\<close>: \<open>websocket_client.go\<close>.
  \<^item> \<open>NetEncoding\<close>: \<open>onet/network/encoding.go\<close>. \<open>NetAddress\<close>: \<open>address.go\<close>. \<open>NetTcp\<close>: \<open>tcp.go\<close>.
    \<open>NetRouter\<close>, \<open>NetRouterRun\<close>, \<open>NetRouterSend\<close>: \<open>router.go\<close> and \<open>dispatch.go\<close>.
    \<open>NetLocal\<close>: \<open>network/local.go\<close>. \<open>NetHost\<close>: its listeners and hosts, and those of \<open>tcp.go\<close>.
    \<open>NetTls\<close>: \<open>tls.go\<close>.

  How state corresponds. A struct is a record with a prefix per struct, a Go map a map or an association
  list when its order or its size matters, a channel a list with its capacity. A mutex is not a field: a
  step of a relation is what a goroutine does between two points where another one can run, which are the
  ends of its critical sections and its blocking operations; a lock that is held over a blocking
  operation is a field. Goroutines are list entries that hold what their code has left to do. Errors that
  are returned and panics are values. Byte counts, lengths on the wire and identifiers are words of
  their width; row ids, rounds and sizes that stay small are \<open>nat\<close> or \<open>int\<close>.

  How fine the steps are. In \<open>RootProtocol\<close> the increment of the round and the reset of \<open>HasLeader\<close> are one
  step, \<open>StartMainChainProtocol\<close> is one step, and time is left out: a sleep may end at any moment. In
  \<open>OnetOverlayRun\<close> the section of \<open>TransmitMsg\<close> under \<open>transmitMux\<close> is one step, the look-up of the tree, the
  saving of a message and the request for a tree are separate ones, and so is each message that the reader
  of an instance takes from its queue. In \<open>OnetStorage\<close> the firing of a timer
  and the deletion under the lock are separate steps. In \<open>NetRouterRun\<close> a receiving goroutine may
  dispatch a packet after its test of \<open>Closed\<close>, until it ends. In \<open>OnetStream\<close> finding a stop channel open
  and closing it are two steps. In \<open>BlsCosi\<close> and \<open>BlsSignature\<close> the collection of a subtree ends by an answer,
  by an error or by restarts that run out; that the whole collection is cut off by the timeout of
  \<open>collectSignatures\<close>, or by \<open>closeChan\<close>, is left out of the restarts.

  What the lemmas show. Per operation: closed forms of the loops, frame lemmas (what an operation leaves
  alone) and preservation of the well-formedness of its tables or maps. Per component: a contract
  (\<open>take_meets_contract\<close>, \<open>meta_block_meets_contract\<close>), an equivalence with a direct definition
  (\<open>nary_tree_is_heap\<close>), or an invariant of all interleavings. Where the code does not do what it means
  to, the theorem says exactly when (the \<open>iff\<close> theorems), and the manifest's findings name it.

  Interfaces. \<open>fifo_table\<close> and \<open>framed_fifo_table\<close> are what block building asks of a queue table, with
  the interpretations \<open>mc_first\<close>, \<open>mc_second\<close> and \<open>sc_first\<close>; \<open>invariant_system\<close> is what an invariant has
  to satisfy, with \<open>main_chain\<close>, \<open>chains\<close>, \<open>rounds\<close>, \<open>storage\<close>, \<open>queue\<close>, \<open>senders\<close>, \<open>transport\<close>,
  \<open>instances\<close>, \<open>queues\<close>, \<open>router\<close>,
  \<open>local_net\<close>, \<open>listener\<close> and \<open>asking\<close>; \<open>stream_parser\<close> is what reading frames off a stream asks of a format, with
  \<open>frames\<close>.

  Loops and bounds. The draw of the number of payments, the draw of the first committee and the big tree
  generator loop until a condition holds: they take a stream of draws or fuel, and theorems say which fuel
  is enough and exactly when none is (\<open>collect_returns_iff\<close>, \<open>first_committee\<close>, \<open>big_tree_complete\<close>).
  Loops that wait for the network take the list of what the network does next and give \<open>None\<close> where they
  still wait at its end (\<open>sendRaw\<close>, \<open>receiveRawProd\<close>, \<open>rt_Send\<close>, \<open>collectSignatures\<close>).

  Parameters. Code that is not in the repository is an argument: kyber's curves, pairings, masks and
  signatures, SHA-256 and UUIDs, protobuf, SQLite's file, the VRF, the random sources and the resolver. What
  is assumed of them is named in a hypothesis (\<open>suite_ok\<close>, the laws of masks in \<open>BlsSignature\<close>, \<open>tls_laws\<close>, a codec
  that decodes what it encoded) and every such theorem has a witness with a concrete instance.

  Not modelled. Logging, profiling and printing (\<open>onet/log\<close>, \<open>pprof.go\<close>, \<open>String\<close> methods, reports of status)
  change no state the program decides on. The platforms that build and deploy a simulation
  (\<open>src/simulation\<close>, \<open>orchestrator\<close>, \<open>utilities\<close>, \<open>onet/app\<close>, \<open>onet/cfgpath\<close>) run other programs, edit files
  and talk to ssh. \<open>src/vrf\<close> binds the C library libsodium, whose code is not in the repository.
  \<open>onet/local.go\<close> and \<open>simulation.go\<close> put servers together for tests and simulations. Of Go's TLS and
  X.509, of the HTTP server and of the websocket library only what the code relies on is there: the fields
  of a certificate, the routes, the loops of a connection. The files of bbolt are maps.
\<close>

end
